(* ===== verification/Prelude.thy ===== *)
theory Prelude
  imports Complex_Main "HOL-Library.Word" "HOL-Library.Sublist" "HOL-Library.AList"
begin

text \<open>
  The vocabulary every other theory of the development shares: the machine types of the
  program, Go's results (a value, an error value, a panic), byte buffers with their in-place
  writes and slices, the conversion between Go strings and byte slices, and association
  lists as Go maps.  The lemmas here are generic; those that rewrite are declared
  \<^theory_text>\<open>[simp]\<close> or collected in \<open>buf_simps\<close> and \<open>map_simps\<close>.
\<close>

unbundle bit_operations_syntax

named_theorems buf_simps \<open>reading and writing fixed-size byte buffers\<close>
named_theorems map_simps \<open>Go maps as association lists\<close>

subsection \<open>Machine types and results\<close>

type_synonym byte = "8 word"
type_synonym bytes = "byte list"

text \<open>
  Go error values.  \<open>EOF\<close> and \<open>UnexpectedEOF\<close> are the two sentinels of package \<open>io\<close> the
  program's reads can return, \<open>ErrShortBuffer\<close> the third; \<open>ErrClosed\<close> is a use of a closed
  connection, \<open>ErrTimeout\<close> an expired deadline; every \<open>errors.New\<close> and \<open>fmt.Errorf\<close> of the
  source is \<open>GoErr\<close> with its text.
\<close>

datatype goerr = EOF | UnexpectedEOF | ErrShortBuffer | ErrClosed | ErrTimeout | GoErr string

text \<open>A call of a Go function returns or panics.\<close>

datatype 'a go = Panic | Ret 'a

fun go_bind :: "'a go \<Rightarrow> ('a \<Rightarrow> 'b go) \<Rightarrow> 'b go" where
  "go_bind Panic f = Panic"
| "go_bind (Ret x) f = f x"

lemma go_bind_Ret_conv: "go_bind m f = Ret y \<longleftrightarrow> (\<exists>x. m = Ret x \<and> f x = Ret y)"
  by (cases m) auto

lemma go_bind_assoc: "go_bind (go_bind m f) g = go_bind m (\<lambda>x. go_bind (f x) g)"
  by (cases m) auto

subsection \<open>Byte buffers\<close>

text \<open>
  \<open>slice xs i j\<close> is Go's \<open>xs[i:j]\<close> for \<open>i \<le> j \<le> len(xs)\<close>; where the source can leave those
  bounds the model tests them and panics.  \<open>buf_put\<close> is the effect of reading bytes into
  \<open>buf[off:]\<close>.
\<close>

definition slice :: "'a list \<Rightarrow> nat \<Rightarrow> nat \<Rightarrow> 'a list" where
  "slice xs i j = take (j - i) (drop i xs)"

definition buf_put :: "'a list \<Rightarrow> nat \<Rightarrow> 'a list \<Rightarrow> 'a list" where
  "buf_put buf off bs = take off buf @ bs @ drop (off + length bs) buf"

lemma length_slice [simp]: "length (slice xs i j) = min (j - i) (length xs - i)"
  by (simp add: slice_def)

lemma length_buf_put [simp]:
  "off + length bs \<le> length buf \<Longrightarrow> length (buf_put buf off bs) = length buf"
  by (simp add: buf_put_def)

lemma buf_put_Nil [simp]: "buf_put buf off [] = buf"
  by (simp add: buf_put_def)

lemma nth_buf_put [buf_simps]:
  assumes "off + length bs \<le> length buf" "i < length buf"
  shows "buf_put buf off bs ! i =
    (if off \<le> i \<and> i < off + length bs then bs ! (i - off) else buf ! i)"
  using assms by (auto simp: buf_put_def nth_append min_def)

lemma slice_0 [simp]: "slice xs 0 j = take j xs"
  by (simp add: slice_def)

lemma slice_self [simp]: "slice xs i i = []"
  by (simp add: slice_def)

lemma slice_append_right:
  "length xs \<le> i \<Longrightarrow> slice (xs @ ys) i j = slice ys (i - length xs) (j - length xs)"
  by (simp add: slice_def)

lemma slice_append_left:
  "j \<le> length xs \<Longrightarrow> slice (xs @ ys) i j = slice xs i j"
  by (simp add: slice_def)

lemma nth_slice [simp]: "k < j - i \<Longrightarrow> j \<le> length xs \<Longrightarrow> slice xs i j ! k = xs ! (i + k)"
  by (simp add: slice_def)

lemma slice_concat: "i \<le> k \<Longrightarrow> k \<le> j \<Longrightarrow> slice xs i k @ slice xs k j = slice xs i j"
proof -
  assume a: "i \<le> k" "k \<le> j"
  have "slice xs i j = take (k - i) (slice xs i j) @ drop (k - i) (slice xs i j)" by simp
  also have "take (k - i) (slice xs i j) = slice xs i k" using a by (simp add: slice_def min_def)
  also have "drop (k - i) (slice xs i j) = slice xs k j"
    using a by (simp add: slice_def drop_take)
  finally show ?thesis by simp
qed

lemma slice_take [simp]: "j \<le> n \<Longrightarrow> slice (take n xs) i j = slice xs i j"
  by (simp add: slice_def drop_take min_def)

text \<open>Successive reads into one buffer leave the concatenation of what was read.\<close>

lemma take_buf_put [buf_simps]:
  "off \<le> length buf \<Longrightarrow> take (off + length bs) (buf_put buf off bs) = take off buf @ bs"
  by (simp add: buf_put_def)

lemma buf_put_put:
  assumes "length xs = off" "off + length ys \<le> length buf"
  shows "buf_put (buf_put buf 0 xs) off ys = buf_put buf 0 (xs @ ys)"
  using assms by (simp add: buf_put_def add.commute)

lemma take_buf_put0: "j \<le> length bs \<Longrightarrow> take j (buf_put buf 0 bs) = take j bs"
  by (simp add: buf_put_def)

lemma slice_buf_put0: "j \<le> length bs \<Longrightarrow> slice (buf_put buf 0 bs) i j = slice bs i j"
  by (simp add: buf_put_def slice_append_left)

lemma nth_buf_put0: "i < length bs \<Longrightarrow> buf_put buf 0 bs ! i = bs ! i"
  by (simp add: buf_put_def nth_append)

subsection \<open>Strings and bytes\<close>

text \<open>A Go string is a sequence of bytes, an HOL \<open>string\<close> a list of 8-bit characters.\<close>

definition bytes_of :: "string \<Rightarrow> bytes" where
  "bytes_of s = map (\<lambda>c. word_of_nat (of_char c)) s"

definition str_of :: "bytes \<Rightarrow> string" where
  "str_of bs = map (\<lambda>b. char_of (unat b)) bs"

lemma length_bytes_of [simp]: "length (bytes_of s) = length s"
  by (simp add: bytes_of_def)

lemma length_str_of [simp]: "length (str_of bs) = length bs"
  by (simp add: str_of_def)

lemma bytes_of_append [simp]: "bytes_of (s @ t) = bytes_of s @ bytes_of t"
  by (simp add: bytes_of_def)

lemma str_of_append [simp]: "str_of (xs @ ys) = str_of xs @ str_of ys"
  by (simp add: str_of_def)

lemma unat_of_char [simp]: "unat (word_of_nat (of_char c) :: byte) = of_char c"
proof -
  have "(of_char c :: nat) < 256" by simp
  then show ?thesis by (simp add: unat_of_nat)
qed

lemma str_of_bytes_of [simp]: "str_of (bytes_of s) = s"
  by (simp add: str_of_def bytes_of_def comp_def)

lemma bytes_of_str_of [simp]: "bytes_of (str_of bs) = bs"
proof -
  have "word_of_nat (of_char (char_of (unat b) :: char)) = b" for b :: byte
  proof -
    have "unat b < 256" using unsigned_less [of b, where ?'a = nat] by simp
    then show ?thesis by simp
  qed
  then show ?thesis by (simp add: str_of_def bytes_of_def comp_def)
qed

lemma bytes_of_inj: "bytes_of s = bytes_of t \<longleftrightarrow> s = t"
  by (metis str_of_bytes_of)

text \<open>Go's \<open>byte(n)\<close> on an \<open>int\<close> and the big-endian 16-bit codec of \<open>encoding/binary\<close>.\<close>

definition to_byte :: "int \<Rightarrow> byte" where
  "to_byte n = word_of_int n"

definition put_u16 :: "int \<Rightarrow> bytes" where
  "put_u16 n = (let w = (word_of_int n :: 16 word) in [ucast (drop_bit 8 w), ucast w])"

definition get_u16 :: "bytes \<Rightarrow> int" where
  "get_u16 bs = uint (bs ! 0) * 256 + uint (bs ! 1)"

lemma length_put_u16 [simp]: "length (put_u16 n) = 2"
  by (simp add: put_u16_def Let_def)

lemma get_put_u16: "get_u16 (put_u16 n) = n mod 65536"
proof -
  have "uint (word_of_int n :: 16 word) = n mod 65536" by (simp add: uint_word_of_int)
  moreover have "uint (ucast (drop_bit 8 w) :: byte) * 256 + uint (ucast w :: byte) = uint w"
    for w :: "16 word"
  proof -
    have "uint w < 65536" using uint_lt2p [of w] by simp
    then have "uint w div 256 < 256" by simp
    moreover have "0 \<le> uint w div 256" by (simp add: pos_imp_zdiv_nonneg_iff)
    ultimately have "uint (ucast (drop_bit 8 w) :: byte) = uint w div 256"
      by (simp add: unsigned_ucast_eq unsigned_drop_bit_eq take_bit_eq_mod drop_bit_eq_div
          uint_div_distrib)
    moreover have "uint (ucast w :: byte) = uint w mod 256"
      by (simp add: unsigned_ucast_eq take_bit_eq_mod)
    ultimately show ?thesis by simp
  qed
  ultimately show ?thesis by (simp add: get_u16_def put_u16_def Let_def)
qed

lemma get_u16_range: "0 \<le> get_u16 bs" "get_u16 bs < 65536"
proof -
  have "uint (bs ! 0) < 256" "uint (bs ! 1) < 256" "0 \<le> uint (bs ! 0)" "0 \<le> uint (bs ! 1)"
    using uint_lt2p [of "bs ! 0"] uint_lt2p [of "bs ! 1"] by simp_all
  then show "0 \<le> get_u16 bs" "get_u16 bs < 65536" by (simp_all add: get_u16_def)
qed

subsection \<open>Counting threads\<close>

text \<open>How many threads of a list of program counters satisfy \<open>P\<close>, and what one move changes.\<close>

definition cnt :: "('a \<Rightarrow> bool) \<Rightarrow> 'a list \<Rightarrow> int" where
  "cnt P xs = int (length (filter P xs))"

lemma cnt_Nil [simp]: "cnt P [] = 0"
  by (simp add: cnt_def)

lemma cnt_Cons [simp]: "cnt P (x # xs) = (if P x then 1 else 0) + cnt P xs"
  by (simp add: cnt_def)

lemma cnt_nonneg [simp]: "0 \<le> cnt P xs"
  by (simp add: cnt_def)

lemma cnt_update:
  "i < length xs \<Longrightarrow>
    cnt P (xs[i := x]) = cnt P xs - (if P (xs ! i) then 1 else 0) + (if P x then 1 else 0)"
  by (induction xs arbitrary: i) (auto split: nat.splits)

lemma cnt_replicate: "cnt P (replicate n x) = (if P x then int n else 0)"
  by (simp add: cnt_def)

lemma cnt_mono: "(\<And>x. x \<in> set xs \<Longrightarrow> P x \<Longrightarrow> Q x) \<Longrightarrow> cnt P xs \<le> cnt Q xs"
  by (induction xs) auto

lemma cnt_pos: "i < length xs \<Longrightarrow> P (xs ! i) \<Longrightarrow> 1 \<le> cnt P xs"
proof (induction xs arbitrary: i)
  case (Cons x xs)
  then show ?case
  proof (cases i)
    case 0
    then show ?thesis using Cons.prems cnt_nonneg [of P xs] by simp
  next
    case (Suc j)
    then show ?thesis using Cons.prems Cons.IH [of j] by simp
  qed
qed simp

lemma cnt_exists: "0 < cnt P xs \<Longrightarrow> \<exists>i<length xs. P (xs ! i)"
proof (induction xs)
  case (Cons x xs)
  show ?case
  proof (cases "P x")
    case False
    with Cons obtain i where "i < length xs" "P (xs ! i)" by auto
    then show ?thesis by (intro exI [of _ "Suc i"]) simp
  qed auto
qed simp

text \<open>The next of \<open>n\<close> threads moves on.\<close>

lemma replicate_advance:
  assumes "k < n"
  shows "(replicate k a @ replicate (n - k) b)[k := a] = replicate (Suc k) a @ replicate (n - Suc k) b"
proof (rule nth_equalityI)
  fix i assume "i < length ((replicate k a @ replicate (n - k) b)[k := a])"
  then show "(replicate k a @ replicate (n - k) b)[k := a] ! i
      = (replicate (Suc k) a @ replicate (n - Suc k) b) ! i"
    using assms by (cases "i = k") (auto simp: nth_append nth_list_update simp del: replicate_Suc)
qed (use assms in simp)

end
