(* ===== verification/Go_Strings.thy ===== *)
theory Go_Strings
  imports Prelude
begin

text \<open>
  The functions of Go's packages \<open>strings\<close> and \<open>strconv\<close> the modelled code calls: decimal
  printing and parsing (with the 64-bit clamping of \<open>strconv.Atoi\<close>), splitting at a
  character, prefix and suffix tests, search and trimming.  They are the language's library,
  so they carry no entry in the map; the lemmas are the round trips the components use.
\<close>

subsection \<open>Decimal numbers\<close>

definition digit_char :: "nat \<Rightarrow> char" where
  "digit_char d = char_of (48 + d)"

definition is_digit :: "char \<Rightarrow> bool" where
  "is_digit c \<longleftrightarrow> 48 \<le> (of_char c :: nat) \<and> (of_char c :: nat) \<le> 57"

definition digit_val :: "char \<Rightarrow> nat" where
  "digit_val c = of_char c - 48"

fun nat_digits :: "nat \<Rightarrow> string" where
  "nat_digits n = (if n < 10 then [digit_char n] else nat_digits (n div 10) @ [digit_char (n mod 10)])"

declare nat_digits.simps [simp del]

definition itoa :: "int \<Rightarrow> string" where
  "itoa i = (if i < 0 then CHR ''-'' # nat_digits (nat (- i)) else nat_digits (nat i))"

text \<open>
  \<open>strconv.ParseUint\<close> in base 10 with 64 bits: the value (clamped to the largest on overflow)
  and whether there is an error; \<open>strconv.Atoi\<close> on top of it.  A syntax error returns 0, a
  range error the nearest representable \<open>int\<close>.
\<close>

fun parse_uint :: "int \<Rightarrow> string \<Rightarrow> int \<times> bool \<times> bool" where
  "parse_uint n [] = (n, False, False)"
| "parse_uint n (c # cs) =
     (if \<not> is_digit c then (0, True, False)
      else let n' = n * 10 + int (digit_val c) in
        if 2 ^ 64 \<le> n' then (2 ^ 64 - 1, True, True) else parse_uint n' cs)"

definition atoi :: "string \<Rightarrow> int \<times> bool" where
  "atoi s =
     (let neg = (case s of c # _ \<Rightarrow> c = CHR ''-'' | [] \<Rightarrow> False);
          body = (case s of c # r \<Rightarrow> if c = CHR ''-'' \<or> c = CHR ''+'' then r else s | [] \<Rightarrow> s)
      in if body = [] then (0, True)
         else case parse_uint 0 body of (un, bad, rng) \<Rightarrow>
           if bad \<and> \<not> rng then (0, True)
           else if \<not> neg \<and> 2 ^ 63 \<le> un then (2 ^ 63 - 1, True)
           else if neg \<and> 2 ^ 63 < un then (- (2 ^ 63), True)
           else (if neg then - un else un, False))"

lemma digit_char_props:
  assumes "d < 10"
  shows "is_digit (digit_char d)" "digit_val (digit_char d) = d"
    "digit_char d \<noteq> CHR '':''" "digit_char d \<noteq> CHR ''-''" "digit_char d \<noteq> CHR ''+''"
    "digit_char d \<noteq> CHR '']''" "digit_char d \<noteq> CHR ''[''"
proof -
  have of: "of_char (digit_char d) = 48 + d" using assms by (simp add: digit_char_def)
  show "is_digit (digit_char d)" "digit_val (digit_char d) = d"
    using assms of by (simp_all add: is_digit_def digit_val_def)
  show "digit_char d \<noteq> CHR '':''" "digit_char d \<noteq> CHR ''-''" "digit_char d \<noteq> CHR ''+''"
    "digit_char d \<noteq> CHR '']''" "digit_char d \<noteq> CHR ''[''"
    using of assms by (auto dest: arg_cong [where f = "of_char :: char \<Rightarrow> nat"])
qed

lemma nat_digits_nonempty [simp]: "nat_digits n \<noteq> []"
  by (subst nat_digits.simps) simp

lemma nat_digits_set: "c \<in> set (nat_digits n) \<Longrightarrow> \<exists>d<10. c = digit_char d"
proof (induction n rule: nat_digits.induct)
  case (1 n)
  show ?case
  proof (cases "n < 10")
    case True
    with "1.prems" show ?thesis by (auto simp: nat_digits.simps [of n])
  next
    case False
    with "1.prems" have "c \<in> set (nat_digits (n div 10)) \<or> c = digit_char (n mod 10)"
      by (auto simp: nat_digits.simps [of n])
    then show ?thesis
    proof
      assume "c = digit_char (n mod 10)"
      moreover have "n mod 10 < 10" by simp
      ultimately show ?thesis by blast
    qed (rule "1.IH" [OF False])
  qed
qed

lemma nat_digits_no_colon: "CHR '':'' \<notin> set (nat_digits n)"
  using nat_digits_set digit_char_props(3) by metis

lemma nat_digits_no_bracket: "CHR ''['' \<notin> set (nat_digits n)" "CHR '']'' \<notin> set (nat_digits n)"
  using nat_digits_set digit_char_props(6,7) by metis+

lemma itoa_no_colon [simp]: "CHR '':'' \<notin> set (itoa i)"
  by (simp add: itoa_def nat_digits_no_colon)

lemma itoa_no_bracket [simp]: "CHR ''['' \<notin> set (itoa i)" "CHR '']'' \<notin> set (itoa i)"
  by (simp_all add: itoa_def nat_digits_no_bracket)

lemma itoa_no_at [simp]: "CHR ''@'' \<notin> set (itoa i)"
proof -
  have "digit_char d \<noteq> CHR ''@''" if "d < 10" for d
  proof -
    have "of_char (digit_char d) = 48 + d" using that by (simp add: digit_char_def)
    then show ?thesis using that by (auto dest: arg_cong [where f = "of_char :: char \<Rightarrow> nat"])
  qed
  then have "CHR ''@'' \<notin> set (nat_digits n)" for n using nat_digits_set by metis
  then show ?thesis by (simp add: itoa_def)
qed

lemma parse_uint_append:
  "parse_uint n xs = (m, False, False) \<Longrightarrow> parse_uint n (xs @ ys) = parse_uint m ys"
  by (induction n xs rule: parse_uint.induct) (auto simp: Let_def split: if_splits)

lemma parse_uint_digits: "n < 2 ^ 64 \<Longrightarrow> parse_uint 0 (nat_digits n) = (int n, False, False)"
proof (induction n rule: nat_digits.induct)
  case (1 n)
  show ?case
  proof (cases "n < 10")
    case True
    with "1.prems" show ?thesis by (simp add: nat_digits.simps [of n] digit_char_props)
  next
    case False
    have IH: "parse_uint 0 (nat_digits (n div 10)) = (int (n div 10), False, False)"
      using "1.IH" [OF False] "1.prems" by simp
    have "nat_digits n = nat_digits (n div 10) @ [digit_char (n mod 10)]"
      using False by (simp add: nat_digits.simps [of n])
    then have "parse_uint 0 (nat_digits n) = parse_uint (int (n div 10)) [digit_char (n mod 10)]"
      using parse_uint_append [OF IH] by simp
    also have "\<dots> = (int n, False, False)"
    proof -
      have "int (n div 10) * 10 + int (n mod 10) = int n"
        by (metis div_mult_mod_eq of_nat_add of_nat_mult of_nat_numeral)
      then show ?thesis using "1.prems" by (simp add: digit_char_props Let_def)
    qed
    finally show ?thesis .
  qed
qed

lemma nat_digits_hd: "\<exists>d r. d < 10 \<and> nat_digits n = digit_char d # r"
  by (metis list.set_intros(1) nat_digits_nonempty nat_digits_set neq_Nil_conv)

text \<open>Printing an \<open>int\<close> and reading it back.\<close>

lemma atoi_itoa:
  assumes "- (2 ^ 63) \<le> i" "i < 2 ^ 63"
  shows "atoi (itoa i) = (i, False)"
proof (cases "i < 0")
  case True
  have "nat (- i) < 2 ^ 64" using assms by simp
  then show ?thesis using True assms by (simp add: atoi_def itoa_def parse_uint_digits Let_def)
next
  case False
  obtain d r where "d < 10" and dr: "nat_digits (nat i) = digit_char d # r"
    using nat_digits_hd by blast
  have "nat i < 2 ^ 64" using assms by simp
  moreover have "nat i < 2 ^ 63" using assms by simp
  ultimately show ?thesis
    using False assms digit_char_props(4,5) [OF \<open>d < 10\<close>] parse_uint_digits [of "nat i"]
    by (auto simp: atoi_def itoa_def dr Let_def)
qed

subsection \<open>Searching and splitting\<close>

definition has_prefix :: "string \<Rightarrow> string \<Rightarrow> bool" where
  "has_prefix s p \<longleftrightarrow> take (length p) s = p"

definition has_suffix :: "string \<Rightarrow> string \<Rightarrow> bool" where
  "has_suffix s p \<longleftrightarrow> length p \<le> length s \<and> drop (length s - length p) s = p"

definition trim_suffix :: "string \<Rightarrow> string \<Rightarrow> string" where
  "trim_suffix s p = (if has_suffix s p then take (length s - length p) s else s)"

fun str_contains :: "string \<Rightarrow> string \<Rightarrow> bool" where
  "str_contains [] sub = (sub = [])"
| "str_contains (c # s) sub = (has_prefix (c # s) sub \<or> str_contains s sub)"

text \<open>\<open>strings.Split\<close> and \<open>strings.SplitN(\<dots>, 2)\<close> at a one-character separator.\<close>

fun split_on :: "char \<Rightarrow> string \<Rightarrow> string list" where
  "split_on c [] = [[]]"
| "split_on c (x # xs) =
     (if x = c then [] # split_on c xs
      else case split_on c xs of [] \<Rightarrow> [[x]] | p # ps \<Rightarrow> (x # p) # ps)"

definition splitn2 :: "char \<Rightarrow> string \<Rightarrow> string list" where
  "splitn2 c s =
     (if c \<in> set s then [takeWhile (\<lambda>x. x \<noteq> c) s, tl (dropWhile (\<lambda>x. x \<noteq> c) s)] else [s])"

fun join_with :: "char \<Rightarrow> string list \<Rightarrow> string" where
  "join_with c [] = []"
| "join_with c [s] = s"
| "join_with c (s # ss) = s @ c # join_with c ss"

text \<open>\<open>fmt.Sprintf\<close> with the verbs \<open>%s\<close>, \<open>%v\<close> and \<open>%d\<close>.\<close>

datatype fmt_arg = FStr string | FInt int

fun fmt_show :: "fmt_arg \<Rightarrow> string" where
  "fmt_show (FStr s) = s"
| "fmt_show (FInt i) = itoa i"

fun sprintf :: "string \<Rightarrow> fmt_arg list \<Rightarrow> string" where
  "sprintf (c # v # f) args =
     (if c \<noteq> CHR ''%'' then c # sprintf (v # f) args
      else if v = CHR ''%'' then CHR ''%'' # sprintf f args
      else case args of
        [] \<Rightarrow> ''%!'' @ [v] @ ''(MISSING)'' @ sprintf f []
      | a # as \<Rightarrow> fmt_show a @ sprintf f as)"
| "sprintf f args = f"

lemma has_prefix_iff: "has_prefix s p \<longleftrightarrow> prefix p s"
  by (metis append_eq_conv_conj append_take_drop_id has_prefix_def prefix_def)

lemma has_suffix_iff: "has_suffix s p \<longleftrightarrow> suffix p s"
  unfolding has_suffix_def suffix_def
  by (metis append_eq_conv_conj append_take_drop_id diff_add_inverse2 le_add2 length_append)

lemma has_prefix_append [simp]: "has_prefix (p @ s) p"
  by (simp add: has_prefix_def)

lemma str_contains_iff: "str_contains s sub \<longleftrightarrow> sublist sub s"
proof (induction s)
  case Nil
  show ?case by simp
next
  case (Cons c s)
  then show ?case by (auto simp: has_prefix_iff sublist_Cons_right)
qed

lemma split_on_nonempty [simp]: "split_on c s \<noteq> []"
  by (induction s) (auto split: list.splits)

lemma split_on_absent: "c \<notin> set s \<Longrightarrow> split_on c s = [s]"
  by (induction s) auto

lemma split_on_append:
  "c \<notin> set s \<Longrightarrow> split_on c (s @ c # t) = s # split_on c t"
  by (induction s) auto

lemma split_on_no_sep: "p \<in> set (split_on c s) \<Longrightarrow> c \<notin> set p"
  by (induction s arbitrary: p) (auto split: list.splits if_splits)

lemma join_split: "join_with c (split_on c s) = s"
proof (induction s)
  case (Cons x xs)
  obtain p ps where "split_on c xs = p # ps" by (meson neq_Nil_conv split_on_nonempty)
  with Cons show ?case by (cases ps) auto
qed simp

lemma split_join:
  "ss \<noteq> [] \<Longrightarrow> \<forall>s\<in>set ss. c \<notin> set s \<Longrightarrow> split_on c (join_with c ss) = ss"
  by (induction c ss rule: join_with.induct) (auto simp: split_on_absent split_on_append)

lemma splitn2_append: "c \<notin> set s \<Longrightarrow> splitn2 c (s @ c # t) = [s, t]"
proof -
  assume a: "c \<notin> set s"
  then have "takeWhile (\<lambda>x. x \<noteq> c) (s @ c # t) = s" by (subst takeWhile_append2) auto
  moreover have "dropWhile (\<lambda>x. x \<noteq> c) (s @ c # t) = c # t"
    using a by (subst dropWhile_append2) auto
  ultimately show ?thesis by (simp add: splitn2_def)
qed

end
