(* ===== verification/Gs_Lib.thy ===== *)
theory Gs_Lib
  imports Go_Strings
begin

text \<open>
  The module \<open>gitee.com/dark.H/gs\<close> is not part of the repository.  Its string operations are
  parameters of the definitions that call them, collected in one record; what the program
  relies on is named below, one hypothesis per operation, and \<open>gs_std\<close> is an instance that
  meets all of them, used by the witnesses.  \<open>gs.List\<close> is a Go slice; its methods \<open>Count\<close>, \<open>Add\<close>
  and \<open>Every\<close> are the parameters of \<open>gslist\<close>, \<open>Every\<close> given by the sequence of elements its
  callback is called on.
\<close>

record gslib =
  gs_In :: "string \<Rightarrow> string \<Rightarrow> bool"
  gs_StartsWith :: "string \<Rightarrow> string \<Rightarrow> bool"
  gs_EndsWith :: "string \<Rightarrow> string \<Rightarrow> bool"
  gs_Split :: "string \<Rightarrow> string \<Rightarrow> string list"
  gs_Trim :: "string \<Rightarrow> string"
  gs_Replace :: "string \<Rightarrow> string \<Rightarrow> string \<Rightarrow> string"
  gs_SplitSpace :: "string \<Rightarrow> string list"
  gs_F :: "string \<Rightarrow> fmt_arg list \<Rightarrow> string"
  gs_Slice :: "string \<Rightarrow> int \<Rightarrow> int \<Rightarrow> string"
  gs_EveryLine :: "string \<Rightarrow> string list"
  gs_Join :: "string list \<Rightarrow> string \<Rightarrow> string"
  gs_Count :: "string \<Rightarrow> string \<Rightarrow> int"
  gs_Format :: "string \<Rightarrow> (string \<times> string) list \<Rightarrow> string"

record 'a gslist =
  gl_Count :: "'a list \<Rightarrow> nat"
  gl_Add :: "'a list \<Rightarrow> 'a \<Rightarrow> 'a list"
  gl_Every :: "'a list \<Rightarrow> 'a list"

text \<open>Splitting at a string, as \<open>strings.Split\<close> does for a non-empty separator.\<close>

function split_str :: "string \<Rightarrow> string \<Rightarrow> string list" where
  "split_str sep [] = [[]]"
| "split_str sep (c # s) =
     (if sep \<noteq> [] \<and> has_prefix (c # s) sep then [] # split_str sep (drop (length sep) (c # s))
      else case split_str sep s of [] \<Rightarrow> [[c]] | p # ps \<Rightarrow> (c # p) # ps)"
  by pat_completeness auto
termination
  by (relation "measure (\<lambda>(sep, s). length s)") (auto simp: gr0_conv_Suc neq_Nil_conv)

fun replace_str :: "string \<Rightarrow> string \<Rightarrow> string list \<Rightarrow> string" where
  "replace_str sep new [] = []"
| "replace_str sep new [p] = p"
| "replace_str sep new (p # ps) = p @ new @ replace_str sep new ps"

definition is_space :: "char \<Rightarrow> bool" where
  "is_space c \<longleftrightarrow> (of_char c :: nat) \<in> {9, 10, 11, 12, 13, 32}"

definition trim_space :: "string \<Rightarrow> string" where
  "trim_space s = rev (dropWhile is_space (rev (dropWhile is_space s)))"

definition split_space :: "string \<Rightarrow> string list" where
  "split_space s = filter (\<lambda>w. w \<noteq> []) (split_on CHR '' '' (map (\<lambda>c. if is_space c then CHR '' '' else c) s))"

text \<open>\<open>Format\<close> fills in the templates of the router: every \<open>$${KEY}\<close> whose key is given.\<close>

fun fill_keys :: "(string \<times> string) list \<Rightarrow> string \<Rightarrow> string" where
  "fill_keys [] s = s"
| "fill_keys ((k, v) # d) s = fill_keys d (replace_str (''$${'' @ k @ ''}'') v (split_str (''$${'' @ k @ ''}'') s))"

fun join_str :: "string \<Rightarrow> string list \<Rightarrow> string" where
  "join_str sep [] = []"
| "join_str sep [p] = p"
| "join_str sep (p # ps) = p @ sep @ join_str sep ps"

definition gs_in_ok :: "gslib \<Rightarrow> bool" where
  "gs_in_ok G \<longleftrightarrow> (\<forall>s t. gs_In G s t = str_contains s t)"

definition gs_affix_ok :: "gslib \<Rightarrow> bool" where
  "gs_affix_ok G \<longleftrightarrow> (\<forall>s t. gs_StartsWith G s t = has_prefix s t) \<and>
     (\<forall>s t. gs_EndsWith G s t = has_suffix s t)"

definition gs_split_ok :: "gslib \<Rightarrow> bool" where
  "gs_split_ok G \<longleftrightarrow> (\<forall>s sep. sep \<noteq> [] \<longrightarrow> gs_Split G s sep = split_str sep s)"

text \<open>\<open>Slice(i, j)\<close> counts a negative end from the end of the string.\<close>

definition slice_str :: "string \<Rightarrow> int \<Rightarrow> int \<Rightarrow> string" where
  "slice_str s i j = (let n = int (length s); e = (if j < 0 then n + j else j) in
     take (nat (e - i)) (drop (nat i) s))"

definition gs_slice_ok :: "gslib \<Rightarrow> bool" where
  "gs_slice_ok G \<longleftrightarrow> (\<forall>s. gs_Slice G s 0 (-1) = butlast s)"

definition gs_fmt_ok :: "gslib \<Rightarrow> bool" where
  "gs_fmt_ok G \<longleftrightarrow> (\<forall>f args. gs_F G f args = sprintf f args)"

definition gs_list_ok :: "'a gslist \<Rightarrow> bool" where
  "gs_list_ok L \<longleftrightarrow> (\<forall>xs. gl_Count L xs = length xs) \<and> (\<forall>xs x. gl_Add L xs x = xs @ [x]) \<and>
     (\<forall>xs. gl_Every L xs = xs)"

definition gs_std :: gslib where
  "gs_std = \<lparr>gs_In = str_contains, gs_StartsWith = has_prefix, gs_EndsWith = has_suffix,
     gs_Split = (\<lambda>s sep. split_str sep s), gs_Trim = trim_space,
     gs_Replace = (\<lambda>s a b. replace_str a b (split_str a s)), gs_SplitSpace = split_space,
     gs_F = sprintf, gs_Slice = slice_str, gs_EveryLine = split_on (CHR 10),
     gs_Join = (\<lambda>ps sep. join_str sep ps), gs_Count = (\<lambda>s t. int (length (split_str t s)) - 1),
     gs_Format = (\<lambda>s d. fill_keys d s)\<rparr>"

definition gs_list_std :: "'a gslist" where
  "gs_list_std = \<lparr>gl_Count = length, gl_Add = (\<lambda>xs x. xs @ [x]), gl_Every = (\<lambda>xs. xs)\<rparr>"

lemma gs_std_ok [simp]:
  "gs_in_ok gs_std" "gs_affix_ok gs_std" "gs_split_ok gs_std" "gs_fmt_ok gs_std"
  "gs_slice_ok gs_std"
  by (simp_all add: gs_in_ok_def gs_affix_ok_def gs_split_ok_def gs_fmt_ok_def gs_slice_ok_def
      gs_std_def slice_str_def butlast_conv_take Let_def nat_minus_as_int)

lemma gs_fmtD: "gs_fmt_ok G \<Longrightarrow> gs_F G f args = sprintf f args"
  by (simp add: gs_fmt_ok_def)

lemma gs_list_std_ok [simp]: "gs_list_ok gs_list_std"
  by (simp add: gs_list_ok_def gs_list_std_def)

lemma gs_inD: "gs_in_ok G \<Longrightarrow> gs_In G s t = str_contains s t"
  by (simp add: gs_in_ok_def)

lemma gs_affixD:
  "gs_affix_ok G \<Longrightarrow> gs_StartsWith G s t = has_prefix s t"
  "gs_affix_ok G \<Longrightarrow> gs_EndsWith G s t = has_suffix s t"
  by (simp_all add: gs_affix_ok_def)

lemma gs_splitD: "gs_split_ok G \<Longrightarrow> sep \<noteq> [] \<Longrightarrow> gs_Split G s sep = split_str sep s"
  by (simp add: gs_split_ok_def)

lemma gs_listD:
  "gs_list_ok L \<Longrightarrow> gl_Count L xs = length xs"
  "gs_list_ok L \<Longrightarrow> gl_Add L xs x = xs @ [x]"
  "gs_list_ok L \<Longrightarrow> gl_Every L xs = xs"
  by (simp_all add: gs_list_ok_def)

declare split_str.simps [simp del]

lemma split_str_single: "split_str [c] s = split_on c s"
proof (induction s)
  case Nil
  show ?case by (simp add: split_str.simps)
next
  case (Cons x s)
  then show ?case by (auto simp: split_str.simps(2) has_prefix_def)
qed

lemma split_str_head:
  assumes "c \<notin> set s"
  shows "split_str [c] (s @ c # t) = s # split_on c t"
  using assms by (simp add: split_str_single split_on_append)

lemma str_contains_char: "str_contains s [c] \<longleftrightarrow> c \<in> set s"
  by (induction s) (auto simp: has_prefix_def)

end
