(* ===== verification/Net_Conn.thy ===== *)
theory Net_Conn
  imports Prelude
begin

text \<open>
  A \<open>net.Conn\<close> as its user sees it.  \<open>inq\<close> holds the segments that will arrive, one per
  successful \<open>Read\<close> unless the reader's buffer is smaller (the rest of the segment stays);
  when they are used up \<open>Read\<close> returns the error \<open>fin\<close> (end of file, an expired deadline, a
  reset).  \<open>outq\<close> is what was written, in order; \<open>wleft\<close> bounds how many more writes succeed
  (\<open>None\<close>: all of them).  How a byte stream is cut into segments is up to the network: the
  theorems quantify over it.  \<open>read_at_least\<close> and \<open>read_full\<close> are \<open>io.ReadAtLeast\<close> and
  \<open>io.ReadFull\<close> on a fresh buffer of the given size; they return the bytes read.
\<close>

record conn =
  inq :: "bytes list"
  fin :: goerr
  outq :: "bytes list"
  wleft :: "nat option"
  is_closed :: bool

definition conn_of :: "bytes list \<Rightarrow> goerr \<Rightarrow> conn" where
  "conn_of segs e = \<lparr>inq = segs, fin = e, outq = [], wleft = None, is_closed = False\<rparr>"

fun conn_read :: "nat \<Rightarrow> conn \<Rightarrow> (bytes \<times> goerr option) \<times> conn" where
  "conn_read k c =
     (case inq c of
        [] \<Rightarrow> (([], Some (fin c)), c)
      | s # r \<Rightarrow>
          if length s \<le> k then ((s, None), c\<lparr>inq := r\<rparr>)
          else ((take k s, None), c\<lparr>inq := drop k s # r\<rparr>))"

text \<open>A write either sends the whole slice or fails; a closed connection fails both ways.\<close>

definition conn_write :: "bytes \<Rightarrow> conn \<Rightarrow> goerr option \<times> conn" where
  "conn_write bs c =
     (if is_closed c then (Some ErrClosed, c)
      else case wleft c of
        None \<Rightarrow> (None, c\<lparr>outq := outq c @ [bs]\<rparr>)
      | Some 0 \<Rightarrow> (Some (GoErr ''write failed''), c)
      | Some (Suc n) \<Rightarrow> (None, c\<lparr>outq := outq c @ [bs], wleft := Some n\<rparr>))"

definition conn_close :: "conn \<Rightarrow> conn" where
  "conn_close c = c\<lparr>inq := [], fin := ErrClosed, is_closed := True\<rparr>"

fun fill :: "nat \<Rightarrow> nat \<Rightarrow> bytes list \<Rightarrow> bytes \<times> bytes list" where
  "fill k m [] = ([], [])"
| "fill k m (s # r) =
     (if m = 0 then ([], s # r)
      else if length s \<le> k then
        (let (bs, r') = fill (k - length s) (m - length s) r in (s @ bs, r'))
      else (take k s, drop k s # r))"

definition read_at_least :: "nat \<Rightarrow> nat \<Rightarrow> conn \<Rightarrow> (bytes \<times> goerr option) \<times> conn" where
  "read_at_least k m c =
     (if k < m then (([], Some ErrShortBuffer), c)
      else case fill k m (inq c) of (bs, r) \<Rightarrow>
        if m \<le> length bs then ((bs, None), c\<lparr>inq := r\<rparr>)
        else ((bs, Some (if bs \<noteq> [] \<and> fin c = EOF then UnexpectedEOF else fin c)), c\<lparr>inq := r\<rparr>))"

definition read_full :: "nat \<Rightarrow> conn \<Rightarrow> (bytes \<times> goerr option) \<times> conn" where
  "read_full k = read_at_least k k"

declare conn_read.simps [simp del]

subsection \<open>What reading consumes\<close>

lemma fill_concat: "fill k m segs = (bs, r) \<Longrightarrow> bs @ concat r = concat segs"
proof (induction k m segs arbitrary: bs r rule: fill.induct)
  case (2 k m s r')
  show ?case
  proof (cases "m = 0 \<or> k < length s")
    case True
    with "2.prems" show ?thesis by (auto split: if_splits)
  next
    case False
    obtain cs q where f: "fill (k - length s) (m - length s) r' = (cs, q)" by fastforce
    with False have "cs @ concat q = concat r'" using "2.IH" [of cs q] by simp
    with False f "2.prems" show ?thesis by auto
  qed
qed simp

lemma fill_max: "fill k m segs = (bs, r) \<Longrightarrow> length bs \<le> k"
proof (induction k m segs arbitrary: bs r rule: fill.induct)
  case (2 k m s r')
  show ?case
  proof (cases "m = 0 \<or> k < length s")
    case True
    with "2.prems" show ?thesis by (auto split: if_splits)
  next
    case False
    obtain cs q where f: "fill (k - length s) (m - length s) r' = (cs, q)" by fastforce
    with False have "length cs \<le> k - length s" using "2.IH" [of cs q] by simp
    with False f "2.prems" show ?thesis by auto
  qed
qed simp

lemma fill_min:
  "fill k m segs = (bs, r) \<Longrightarrow> m \<le> k \<Longrightarrow> m \<le> length (concat segs) \<Longrightarrow> m \<le> length bs"
proof (induction k m segs arbitrary: bs r rule: fill.induct)
  case (2 k m s r')
  show ?case
  proof (cases "m = 0 \<or> k < length s")
    case True
    with "2.prems" show ?thesis by (auto split: if_splits)
  next
    case False
    obtain cs q where f: "fill (k - length s) (m - length s) r' = (cs, q)" by fastforce
    with False "2.prems" have "m - length s \<le> length cs" using "2.IH" [of cs q] by simp
    with False f "2.prems" show ?thesis by auto
  qed
qed simp

lemma fill_short:
  "fill k m segs = (bs, r) \<Longrightarrow> length (concat segs) < m \<Longrightarrow> m \<le> k \<Longrightarrow> bs = concat segs \<and> r = []"
proof (induction k m segs arbitrary: bs r rule: fill.induct)
  case (2 k m s r')
  then have "m \<noteq> 0" "length s \<le> k" by auto
  obtain cs q where f: "fill (k - length s) (m - length s) r' = (cs, q)" by fastforce
  with "2.IH" [of cs q] \<open>m \<noteq> 0\<close> \<open>length s \<le> k\<close> "2.prems" have "cs = concat r' \<and> q = []" by simp
  with f \<open>m \<noteq> 0\<close> \<open>length s \<le> k\<close> "2.prems" show ?case by auto
qed simp

text \<open>\<open>io.ReadFull\<close> does not see the segmentation: it delivers the next \<open>k\<close> bytes.\<close>

lemma read_full_ok:
  assumes "k \<le> length (concat (inq c))"
  obtains r where "read_full k c = ((take k (concat (inq c)), None), c\<lparr>inq := r\<rparr>)"
    "concat r = drop k (concat (inq c))"
proof -
  obtain bs r where f: "fill k k (inq c) = (bs, r)" by fastforce
  have len: "length bs = k" using fill_max [OF f] fill_min [OF f] assms by simp
  have cat: "bs @ concat r = concat (inq c)" by (rule fill_concat [OF f])
  have "bs = take k (concat (inq c))" using cat len by (metis append_eq_conv_conj)
  moreover have "concat r = drop k (concat (inq c))" using cat len by (metis append_eq_conv_conj)
  moreover have "read_full k c = ((bs, None), c\<lparr>inq := r\<rparr>)"
    using f len by (simp add: read_full_def read_at_least_def)
  ultimately show thesis using that by simp
qed

text \<open>Too few bytes before the stream ends: the error of the stream, all bytes used up.\<close>

lemma read_full_short:
  assumes "length (concat (inq c)) < k"
  shows "read_full k c = ((concat (inq c),
    Some (if concat (inq c) \<noteq> [] \<and> fin c = EOF then UnexpectedEOF else fin c)), c\<lparr>inq := []\<rparr>)"
proof -
  obtain bs r where f: "fill k k (inq c) = (bs, r)" by fastforce
  have "bs = concat (inq c) \<and> r = []" using fill_short [OF f assms] by simp
  with f assms show ?thesis by (simp add: read_full_def read_at_least_def)
qed

lemma read_at_least_ok:
  assumes "m \<le> k" "m \<le> length (concat (inq c))"
  obtains bs r where "read_at_least k m c = ((bs, None), c\<lparr>inq := r\<rparr>)"
    "bs @ concat r = concat (inq c)" "m \<le> length bs" "length bs \<le> k"
proof -
  obtain bs r where f: "fill k m (inq c) = (bs, r)" by fastforce
  have "m \<le> length bs" using fill_min [OF f] assms by simp
  then have "read_at_least k m c = ((bs, None), c\<lparr>inq := r\<rparr>)"
    using f assms by (simp add: read_at_least_def)
  with f \<open>m \<le> length bs\<close> show thesis using that fill_concat [OF f] fill_max [OF f] by blast
qed

lemma read_at_least_short:
  assumes "length (concat (inq c)) < m" "m \<le> k"
  shows "read_at_least k m c = ((concat (inq c),
    Some (if concat (inq c) \<noteq> [] \<and> fin c = EOF then UnexpectedEOF else fin c)), c\<lparr>inq := []\<rparr>)"
proof -
  obtain bs r where f: "fill k m (inq c) = (bs, r)" by fastforce
  have "bs = concat (inq c) \<and> r = []" using fill_short [OF f assms] by simp
  with f assms show ?thesis by (simp add: read_at_least_def)
qed

text \<open>
  Whatever happens, a read consumes exactly the bytes it returns and touches nothing else.
\<close>

lemma read_at_least_frame:
  assumes "read_at_least k m c = ((bs, e), c')"
  shows "bs @ concat (inq c') = concat (inq c)" "length bs \<le> k"
    "fin c' = fin c" "outq c' = outq c" "wleft c' = wleft c" "is_closed c' = is_closed c"
    "e = None \<Longrightarrow> m \<le> length bs"
proof -
  obtain xs r where f: "fill k m (inq c) = (xs, r)" by fastforce
  note cat = fill_concat [OF f] and max = fill_max [OF f]
  show "bs @ concat (inq c') = concat (inq c)" "length bs \<le> k"
    "fin c' = fin c" "outq c' = outq c" "wleft c' = wleft c" "is_closed c' = is_closed c"
    "e = None \<Longrightarrow> m \<le> length bs"
    using assms f cat max by (auto simp: read_at_least_def split: if_splits)
qed

lemmas read_full_frame = read_at_least_frame [where k = k and m = k for k, folded read_full_def]

lemma conn_of_simps [simp]:
  "inq (conn_of segs e) = segs" "fin (conn_of segs e) = e" "outq (conn_of segs e) = []"
  "wleft (conn_of segs e) = None" "\<not> is_closed (conn_of segs e)"
  by (simp_all add: conn_of_def)

lemma conn_close_simps [simp]:
  "inq (conn_close c) = []" "fin (conn_close c) = ErrClosed" "is_closed (conn_close c)"
  "outq (conn_close c) = outq c" "wleft (conn_close c) = wleft c"
  by (simp_all add: conn_close_def)

lemma conn_write_frame:
  assumes "conn_write bs c = (e, c')"
  shows "inq c' = inq c" "is_closed c' = is_closed c" "fin c' = fin c"
    "outq c' = (if e = None then outq c @ [bs] else outq c)"
  using assms by (auto simp: conn_write_def split: if_splits option.splits nat.splits)

end
