(* ===== verification/Net_Addr.thy ===== *)
theory Net_Addr
  imports Go_Strings
begin

text \<open>
  The parts of Go's package \<open>net\<close> that turn addresses into text and back: \<open>net.IP.String\<close>
  (dotted decimal, and the compressed hexadecimal form of \<open>netip\<close> for 16-byte addresses),
  \<open>To4\<close>, \<open>net.ParseIP\<close> as a test, \<open>net.JoinHostPort\<close> and \<open>net.SplitHostPort\<close>.
\<close>

type_synonym ip = bytes

subsection \<open>Printing addresses\<close>

definition byte_str :: "byte \<Rightarrow> string" where
  "byte_str b = nat_digits (unat b)"

definition ipv4_str :: "ip \<Rightarrow> string" where
  "ipv4_str a = join_with CHR ''.'' (map byte_str a)"

definition hex_char :: "nat \<Rightarrow> char" where
  "hex_char d = char_of (if d < 10 then 48 + d else 87 + d)"

fun hex_str :: "nat \<Rightarrow> string" where
  "hex_str n = (if n < 16 then [hex_char n] else hex_str (n div 16) @ [hex_char (n mod 16)])"

declare hex_str.simps [simp del]

fun groups16 :: "ip \<Rightarrow> nat list" where
  "groups16 (a # b # r) = (unat a * 256 + unat b) # groups16 r"
| "groups16 _ = []"

text \<open>The first longest run of at least two zero groups, as (start, length).\<close>

definition zero_run :: "nat list \<Rightarrow> nat \<times> nat" where
  "zero_run gs = foldl (\<lambda>(s, l) i. let r = length (takeWhile (\<lambda>g. g = 0) (drop i gs)) in
      if 2 \<le> r \<and> l < r then (i, r) else (s, l)) (0, 0) [0..<length gs]"

definition ipv6_str :: "ip \<Rightarrow> string" where
  "ipv6_str a = (let gs = groups16 a in case zero_run gs of (s, l) \<Rightarrow>
     if l = 0 then join_with CHR '':'' (map hex_str gs)
     else join_with CHR '':'' (map hex_str (take s gs)) @ ''::'' @
       join_with CHR '':'' (map hex_str (drop (s + l) gs)))"

definition to4 :: "ip \<Rightarrow> ip option" where
  "to4 a = (if length a = 4 then Some a
     else if length a = 16 \<and> take 10 a = replicate 10 0 \<and> a ! 10 = 255 \<and> a ! 11 = 255
     then Some (drop 12 a) else None)"

definition ip_str :: "ip \<Rightarrow> string" where
  "ip_str a = (if a = [] then ''<nil>''
     else case to4 a of Some v4 \<Rightarrow> ipv4_str v4
     | None \<Rightarrow> if length a = 16 then ipv6_str a else ''?'')"

subsection \<open>Recognising literal addresses\<close>

definition v4_field :: "string \<Rightarrow> bool" where
  "v4_field s \<longleftrightarrow> s \<noteq> [] \<and> length s \<le> 3 \<and> list_all is_digit s
     \<and> (1 < length s \<longrightarrow> hd s \<noteq> CHR ''0'') \<and> fst (parse_uint 0 s) \<le> 255"

definition is_v4 :: "string \<Rightarrow> bool" where
  "is_v4 s \<longleftrightarrow> (let fs = split_on CHR ''.'' s in length fs = 4 \<and> list_all v4_field fs)"

definition is_hex :: "char \<Rightarrow> bool" where
  "is_hex c \<longleftrightarrow> is_digit c \<or> (let n = (of_char c :: nat) in 97 \<le> n \<and> n \<le> 102 \<or> 65 \<le> n \<and> n \<le> 70)"

text \<open>
  The loop of \<open>netip.parseIPv6\<close>: \<open>i\<close> bytes are written so far, \<open>ell\<close> says whether the
  ellipsis was seen.  Each round consumes at least one character.
\<close>

fun v6_loop :: "nat \<Rightarrow> nat \<Rightarrow> bool \<Rightarrow> string \<Rightarrow> bool" where
  "v6_loop 0 i ell s = False"
| "v6_loop (Suc fuel) i ell s =
     (if 16 \<le> i then s = [] \<and> \<not> ell
      else let g = takeWhile is_hex s; t = dropWhile is_hex s in
        if g = [] \<or> 4 < length g then False
        else if t \<noteq> [] \<and> hd t = CHR ''.'' then
          (ell \<or> i = 12) \<and> i + 4 \<le> 16 \<and> is_v4 s \<and> (if i + 4 < 16 then ell else \<not> ell)
        else if t = [] then (if i + 2 < 16 then ell else \<not> ell)
        else if hd t \<noteq> CHR '':'' \<or> length t = 1 then False
        else let u = tl t in
          if hd u = CHR '':'' then
            (if ell then False
             else if tl u = [] then i + 2 < 16 else v6_loop fuel (i + 2) True (tl u))
          else v6_loop fuel (i + 2) ell u)"

definition is_v6 :: "string \<Rightarrow> bool" where
  "is_v6 s \<longleftrightarrow> (if has_prefix s ''::'' then drop 2 s = [] \<or> v6_loop 9 0 True (drop 2 s)
     else v6_loop 9 0 False s)"

definition is_ip_literal :: "string \<Rightarrow> bool" where
  "is_ip_literal s \<longleftrightarrow>
     (case filter (\<lambda>c. c = CHR ''.'' \<or> c = CHR '':'' \<or> c = CHR ''%'') s of
        [] \<Rightarrow> False
      | c # _ \<Rightarrow> if c = CHR ''.'' then is_v4 s
          else c = CHR '':'' \<and> CHR ''%'' \<notin> set s \<and> is_v6 s)"

text \<open>\<open>net.ParseIP\<close> of dotted decimals (the only texts the program parses): 16 bytes, or nil.\<close>

definition parse_ipv4 :: "string \<Rightarrow> ip" where
  "parse_ipv4 s = (if is_v4 s then replicate 10 0 @ [255, 255] @
     map (\<lambda>f. word_of_int (fst (parse_uint 0 f))) (split_on CHR ''.'' s) else [])"

subsection \<open>Host and port\<close>

definition join_host_port :: "string \<Rightarrow> string \<Rightarrow> string" where
  "join_host_port host port =
     (if CHR '':'' \<in> set host then ''['' @ host @ '']:'' @ port else host @ '':'' @ port)"

text \<open>
  \<open>net.SplitHostPort\<close>: \<open>None\<close> is its error.  The port starts after the last colon; a host
  that starts with a bracket ends at the first closing bracket, which must stand right
  before that colon; brackets elsewhere and further colons are errors.
\<close>

definition find_index :: "char \<Rightarrow> string \<Rightarrow> nat option" where
  "find_index c s = (if c \<in> set s then Some (length (takeWhile (\<lambda>x. x \<noteq> c) s)) else None)"

definition find_last :: "char \<Rightarrow> string \<Rightarrow> nat option" where
  "find_last c s = map_option (\<lambda>i. length s - Suc i) (find_index c (rev s))"

definition split_host_port :: "string \<Rightarrow> (string \<times> string) option" where
  "split_host_port s =
     (case find_last CHR '':'' s of
        None \<Rightarrow> None
      | Some i \<Rightarrow>
          if hd s = CHR ''['' then
            (case find_index CHR '']'' s of
               None \<Rightarrow> None
             | Some e \<Rightarrow>
                 if e + 1 \<noteq> i then None
                 else if CHR ''['' \<in> set (drop 1 s) \<or> CHR '']'' \<in> set (drop (e + 1) s) then None
                 else Some (slice s 1 e, drop (i + 1) s))
          else
            let host = take i s in
            if CHR '':'' \<in> set host \<or> CHR ''['' \<in> set s \<or> CHR '']'' \<in> set s then None
            else Some (host, drop (i + 1) s))"

lemma find_index_append: "c \<notin> set xs \<Longrightarrow> find_index c (xs @ c # ys) = Some (length xs)"
  by (induction xs) (auto simp: find_index_def)

lemma find_index_append': "c \<in> set xs \<Longrightarrow> find_index c (xs @ ys) = find_index c xs"
  by (auto simp: find_index_def takeWhile_append1)

lemma find_last_append: "c \<notin> set ys \<Longrightarrow> find_last c (xs @ c # ys) = Some (length xs)"
  by (simp add: find_last_def find_index_append)

text \<open>
  Joining and splitting are inverse on hosts without brackets and ports without colons or
  brackets; a host with a colon (an IPv6 literal) travels in brackets.
\<close>

lemma split_join_host_port:
  assumes host: "CHR ''['' \<notin> set host" "CHR '']'' \<notin> set host"
    and port: "CHR '':'' \<notin> set port" "CHR ''['' \<notin> set port" "CHR '']'' \<notin> set port"
  shows "split_host_port (join_host_port host port) = Some (host, port)"
proof (cases "CHR '':'' \<in> set host")
  case True
  define s where "s = join_host_port host port"
  have s: "s = (''['' @ host @ '']'') @ CHR '':'' # port"
    using True by (simp add: s_def join_host_port_def)
  have last: "find_last CHR '':'' s = Some (length host + 2)"
    unfolding s by (subst find_last_append [OF port(1)]) simp
  have e: "find_index CHR '']'' s = Some (length host + 1)"
  proof -
    have "s = (''['' @ host) @ CHR '']'' # (CHR '':'' # port)" by (simp add: s)
    moreover have "CHR '']'' \<notin> set (''['' @ host)" using host by simp
    ultimately show ?thesis using find_index_append by fastforce
  qed
  show ?thesis
    using last e host port unfolding s_def [symmetric] split_host_port_def
    by (simp add: s slice_def)
next
  case False
  define s where "s = join_host_port host port"
  have s: "s = host @ CHR '':'' # port" using False by (simp add: s_def join_host_port_def)
  have last: "find_last CHR '':'' s = Some (length host)"
    unfolding s by (rule find_last_append [OF port(1)])
  have "hd s \<noteq> CHR ''[''" using host by (cases host) (auto simp: s)
  then show ?thesis
    using last host port False unfolding s_def [symmetric] split_host_port_def
    by (simp add: s)
qed

text \<open>A port that was split off is free of separators, and printed addresses of brackets.\<close>

lemma find_index_SomeD: "find_index c s = Some i \<Longrightarrow> i < length s \<and> s ! i = c \<and> c \<notin> set (take i s)"
  by (induction s arbitrary: i) (auto simp: find_index_def split: if_splits)

lemma find_last_SomeD:
  assumes "find_last c s = Some i"
  shows "c \<notin> set (drop (Suc i) s)"
proof -
  obtain j where j: "find_index c (rev s) = Some j" "i = length s - Suc j"
    using assms by (auto simp: find_last_def)
  from find_index_SomeD [OF j(1)] have "j < length s" "c \<notin> set (take j (rev s))" by auto
  moreover have "set (take j (rev s)) = set (drop (length s - j) s)" by (simp add: take_rev)
  moreover have "length s - j = Suc i" using j(2) \<open>j < length s\<close> by simp
  ultimately show ?thesis by simp
qed

lemma split_host_port_port:
  assumes "split_host_port s = Some (h, p)"
  shows "CHR '':'' \<notin> set p" "CHR ''['' \<notin> set p" "CHR '']'' \<notin> set p"
proof -
  obtain i where i: "find_last CHR '':'' s = Some i" "p = drop (Suc i) s"
    using assms by (auto simp: split_host_port_def Let_def split: option.splits if_splits)
  show "CHR '':'' \<notin> set p" using find_last_SomeD [OF i(1)] i(2) by simp
  have sub: "set (drop (Suc i) s) \<subseteq> set (drop k s)" if "k \<le> Suc i" for k
    using that by (rule set_drop_subset_set_drop)
  show "CHR ''['' \<notin> set p"
  proof (cases "hd s = CHR ''[''")
    case True
    then have "CHR ''['' \<notin> set (drop 1 s)"
      using assms i by (auto simp: split_host_port_def Let_def split: option.splits if_splits)
    then show ?thesis using sub [of 1] i(2) by auto
  next
    case False
    then have "CHR ''['' \<notin> set s"
      using assms i by (auto simp: split_host_port_def Let_def split: option.splits if_splits)
    then show ?thesis using i(2) by (meson in_set_dropD)
  qed
  show "CHR '']'' \<notin> set p"
  proof (cases "hd s = CHR ''[''")
    case True
    then obtain e where "e + 1 = i" "CHR '']'' \<notin> set (drop (e + 1) s)"
      using assms i by (auto simp: split_host_port_def Let_def split: option.splits if_splits)
    then show ?thesis using sub [of "e + 1"] i(2) by auto
  next
    case False
    then have "CHR '']'' \<notin> set s"
      using assms i by (auto simp: split_host_port_def Let_def split: option.splits if_splits)
    then show ?thesis using i(2) by (meson in_set_dropD)
  qed
qed

lemma join_with_set: "set (join_with c ss) \<subseteq> insert c (\<Union> (set ` set ss))"
  by (induction c ss rule: join_with.induct) auto

lemma hex_char_no_bracket: "d < 16 \<Longrightarrow> hex_char d \<noteq> CHR ''['' \<and> hex_char d \<noteq> CHR '']''"
proof -
  assume d: "d < 16"
  define n where "n = (if d < 10 then 48 + d else 87 + d)"
  have "of_char (hex_char d) = n" using d by (simp add: hex_char_def n_def)
  moreover have "n \<noteq> 91" "n \<noteq> 93" using d by (auto simp: n_def)
  ultimately show ?thesis by (auto dest: arg_cong [where f = "of_char :: char \<Rightarrow> nat"])
qed

lemma hex_str_no_bracket: "c \<in> set (hex_str n) \<Longrightarrow> c \<noteq> CHR ''['' \<and> c \<noteq> CHR '']''"
proof (induction n rule: hex_str.induct)
  case (1 n)
  have "hex_char (n mod 16) \<noteq> CHR ''['' \<and> hex_char (n mod 16) \<noteq> CHR '']''"
    by (rule hex_char_no_bracket) simp
  with 1 hex_char_no_bracket [of n] show ?case
    by (cases "n < 16") (auto simp: hex_str.simps [of n])
qed

lemma ip_str_no_bracket: "CHR ''['' \<notin> set (ip_str a)" "CHR '']'' \<notin> set (ip_str a)"
proof -
  have v4: "CHR ''['' \<notin> set (ipv4_str b)" "CHR '']'' \<notin> set (ipv4_str b)" for b
    using join_with_set [of "CHR ''.''" "map byte_str b"] nat_digits_no_bracket
    by (auto simp: ipv4_str_def byte_str_def)
  have hex: "CHR ''['' \<notin> set (join_with CHR '':'' (map hex_str gs))"
    "CHR '']'' \<notin> set (join_with CHR '':'' (map hex_str gs))" for gs
    using join_with_set [of "CHR '':''" "map hex_str gs"] hex_str_no_bracket by fastforce+
  have v6: "CHR ''['' \<notin> set (ipv6_str b)" "CHR '']'' \<notin> set (ipv6_str b)" for b
    using hex by (auto simp: ipv6_str_def Let_def split: prod.splits)
  show "CHR ''['' \<notin> set (ip_str a)" "CHR '']'' \<notin> set (ip_str a)"
    using v4 v6 by (auto simp: ip_str_def split: option.splits)
qed

end
