(* ===== verification/Socks5.thy ===== *)
theory Socks5
  imports Gs_Lib Net_Conn Net_Addr
begin

text \<open>
  \<open>src/connections/prosocks5/socks5.go\<close>: the SOCKS5 requests the client writes and both ends
  parse.  A parser works on a zero-filled buffer of the source's size that successive reads
  fill, and returns the request with its error value; slices whose bounds are computed in
  bytes (\<open>idDm0+buf[idDmLen]\<close>) wrap at 256 as in the code, and an inverted slice is the panic
  it is there.  The package variable \<open>debug\<close> is never set in the repository, so the branches
  under \<open>if debug\<close> are left out.
\<close>

named_theorems socks_simps \<open>evaluating the request parsers\<close>

subsection \<open>Writing a request\<close>

definition Socks5Confirm :: bytes where
  "Socks5Confirm = [0x05, 0x00, 0x00, 0x01, 0x00, 0x00, 0x00, 0x00, 0x08, 0x43]"

definition Socks5Failed :: bytes where
  "Socks5Failed = [0x05, 0x01, 0x00, 0x01, 0x00, 0x00, 0x00, 0x00, 0x08, 0x43]"

definition SOCKS5Init :: bytes where
  "SOCKS5Init = [0x5, 0x0]"

definition raw_request :: "string \<Rightarrow> int \<Rightarrow> bytes" where
  "raw_request host port = [0x5, 0x1, 0x0, 0x03, to_byte (int (length host))]
     @ bytes_of host @ put_u16 port"

definition HostToRaw :: "gslib \<Rightarrow> string \<Rightarrow> int \<Rightarrow> bytes go" where
  "HostToRaw G host port =
     (if port = -1 \<and> gs_In G host '':'' then
        (case splitn2 CHR '':'' host of
           [h, p] \<Rightarrow> Ret (raw_request h (fst (atoi p)))
         | _ \<Rightarrow> Panic)
      else Ret (raw_request host port))"

subsection \<open>The server's parser\<close>

record request =
  rq_host :: string
  rq_raw :: bytes
  rq_udp :: bool
  rq_err :: "goerr option"

definition req_fail :: "bytes \<Rightarrow> bool \<Rightarrow> goerr \<Rightarrow> request" where
  "req_fail raw udp e = \<lparr>rq_host = [], rq_raw = raw, rq_udp = udp, rq_err = Some e\<rparr>"

text \<open>
  The version and command checks after the first four bytes: a bad version is overwritten by
  a bad command, as the two assignments to \<open>err\<close> do.
\<close>

definition server_header :: "bytes \<Rightarrow> bool \<times> goerr option" where
  "server_header buf =
     (let verr = (if buf ! 0 \<noteq> 5 \<and> buf ! 0 \<noteq> 4 then Some (GoErr ''not socks5 type'') else None)
      in if buf ! 1 = 3 then (True, verr)
         else if buf ! 1 = 1 then (False, verr)
         else (False, Some (GoErr ''not socks5 conn or udp'')))"

text \<open>
  The address switch: where the rest of the request lies in the buffer.  A domain name and a
  redirect first read their length byte.  The IPv6 case ends at \<open>idIP0+lenIPv6\<close>, with
  \<open>lenIPv6\<close> the length of the whole request.
\<close>

definition server_span ::
  "bytes \<Rightarrow> conn \<Rightarrow> (goerr + nat \<times> nat) \<times> bytes \<times> conn" where
  "server_span buf c =
     (let ty = buf ! 3 AND 0xf in
      if ty = 1 then (Inr (4, 10), buf, c)
      else if ty = 4 then (Inr (4, 4 + 22), buf, c)
      else if ty = 3 \<or> ty = 9 then
        (case read_full 1 c of ((bs, e), c') \<Rightarrow>
           let buf' = buf_put buf 4 bs in
           (case e of
              Some er \<Rightarrow> (Inl er, buf', c')
            | None \<Rightarrow>
                (Inr (5, if ty = 3 then unat (buf' ! 4) + 7 else 5 + unat (buf' ! 4)), buf', c')))
      else (Inl (GoErr (''addr type '' @ nat_digits (unat ty) @ '' not supported:'' @ str_of buf)),
            buf, c))"

definition server_host :: "bytes \<Rightarrow> string" where
  "server_host buf =
     (let ty = buf ! 3 AND 0xf in
      if ty = 1 then ip_str (slice buf 4 8)
      else if ty = 4 then ip_str (slice buf 4 20)
      else str_of (slice buf 5 (5 + unat (buf ! 4))))"

definition server_body :: "bytes \<Rightarrow> bool \<Rightarrow> conn \<Rightarrow> request \<times> conn" where
  "server_body buf udp c =
     (case server_span buf c of (r, buf1, c1) \<Rightarrow>
       (case r of
          Inl er \<Rightarrow> (req_fail [] udp er, c1)
        | Inr (i, j) \<Rightarrow>
            (case read_full (j - i) c1 of ((bs, e), c2) \<Rightarrow>
              let buf2 = buf_put buf1 i bs; raw = take j buf2 in
              (case e of
                 Some er \<Rightarrow> (req_fail raw udp er, c2)
               | None \<Rightarrow>
                   if buf2 ! 3 AND 0xf = 9 then
                     (\<lparr>rq_host = server_host buf2, rq_raw = raw, rq_udp = udp, rq_err = None\<rparr>, c2)
                   else
                     (\<lparr>rq_host = join_host_port (server_host buf2)
                         (itoa (get_u16 (slice buf2 (j - 2) j))),
                       rq_raw = raw, rq_udp = udp, rq_err = None\<rparr>, c2)))))"

definition GetServerRequest :: "conn \<Rightarrow> request \<times> conn" where
  "GetServerRequest c =
     (let buf = replicate 269 0 in
      case read_full 4 c of ((hd4, e), c1) \<Rightarrow>
        (case e of
           Some er \<Rightarrow> (req_fail [] False er, c1)
         | None \<Rightarrow>
             let buf1 = buf_put buf 0 hd4 in
             (case server_header buf1 of (udp, err) \<Rightarrow>
               (case err of
                  Some er \<Rightarrow>
                    (case conn_read (1401 - 4) c1 of ((bs, e2), c2) \<Rightarrow>
                      (case e2 of
                         Some _ \<Rightarrow> (req_fail [] udp er, c2)
                       | None \<Rightarrow> (req_fail (take 4 buf1 @ bs) udp er, c2)))
                | None \<Rightarrow> server_body buf1 udp c1))))"

subsection \<open>The client's parsers\<close>

record local_request =
  lr_raw :: bytes
  lr_host :: string
  lr_port :: string
  lr_udp :: bool
  lr_err :: "goerr option"

text \<open>\<open>string(b)\<close> of one byte is the UTF-8 encoding of that code point.\<close>

definition rune_str :: "byte \<Rightarrow> string" where
  "rune_str b = (if unat b < 128 then [char_of (unat b)]
     else [char_of (192 + unat b div 64), char_of (128 + unat b mod 64)])"

definition errAddrType :: goerr where
  "errAddrType = GoErr ''socks addr type not supported''"
definition errVer :: goerr where
  "errVer = GoErr ''socks version not supported''"
definition errAuthExtraData :: goerr where
  "errAuthExtraData = GoErr ''socks authentication get extra data''"
definition errReqExtraData :: goerr where
  "errReqExtraData = GoErr ''socks request get extra data''"
definition errCmd :: goerr where
  "errCmd = GoErr ''socks command not supported''"

text \<open>
  \<open>string(buf[lo : lo+n])\<close> with the upper bound computed in a byte: from 256 - lo on it wraps
  below \<open>lo\<close> and the slice expression panics.
\<close>

definition byte_slice :: "bytes \<Rightarrow> byte \<Rightarrow> byte \<Rightarrow> string go" where
  "byte_slice buf lo n =
     (if unat (lo + n) < unat lo then Panic
      else Ret (str_of (slice buf (unat lo) (unat (lo + n)))))"

text \<open>The address switch of the client: the request's length and, for a name, the host.\<close>

definition local_span :: "bytes \<Rightarrow> (goerr + nat \<times> string) go" where
  "local_span buf =
     (if buf ! 3 = 1 then Ret (Inr (10, []))
      else if buf ! 3 = 4 then Ret (Inr (22, []))
      else if buf ! 3 = 3 then
        go_bind (byte_slice buf 5 (buf ! 4)) (\<lambda>h. Ret (Inr (unat (buf ! 4) + 7, h)))
      else if buf ! 3 = 5 then
        go_bind (byte_slice buf 5 (buf ! 4)) (\<lambda>h. Ret (Inr (unat (buf ! 4) + 7 - 2, h)))
      else Ret (Inl errAddrType))"

definition lreq_fail :: "string \<Rightarrow> bool \<Rightarrow> goerr \<Rightarrow> local_request" where
  "lreq_fail h udp e = \<lparr>lr_raw = [], lr_host = h, lr_port = [], lr_udp = udp, lr_err = Some e\<rparr>"

text \<open>The part both client parsers share, from the address switch to \<open>rawaddr = buf[:reqLen]\<close>.\<close>

definition local_body :: "bytes \<Rightarrow> nat \<Rightarrow> bool \<Rightarrow> conn \<Rightarrow> local_request go \<times> conn" where
  "local_body buf n udp c =
     (case local_span buf of
        Panic \<Rightarrow> (Panic, c)
      | Ret (Inl er) \<Rightarrow> (Ret (lreq_fail [] udp er), c)
      | Ret (Inr (reqLen, h)) \<Rightarrow>
          if reqLen < n then (Ret (lreq_fail h udp errReqExtraData), c)
          else
            (case (if n = reqLen then (([], None), c) else read_full (reqLen - n) c) of
               ((bs, e), c1) \<Rightarrow>
                 let buf1 = buf_put buf n bs in
                 (case e of
                    Some er \<Rightarrow> (Ret (lreq_fail h udp er), c1)
                  | None \<Rightarrow>
                      (Ret \<lparr>lr_raw = take reqLen buf1, lr_host = h,
                            lr_port = itoa (get_u16 (slice buf1 (reqLen - 2) reqLen)),
                            lr_udp = udp, lr_err = None\<rparr>, c1))))"

definition GetLocalRequest :: "conn \<Rightarrow> local_request go \<times> conn" where
  "GetLocalRequest c =
     (let buf = replicate 263 0 in
      case read_at_least 263 5 c of ((bs, e), c1) \<Rightarrow>
        (case e of
           Some er \<Rightarrow> (Ret (lreq_fail [] False er), c1)
         | None \<Rightarrow>
             let buf1 = buf_put buf 0 bs in
             if buf1 ! 0 \<noteq> 5 \<and> buf1 ! 0 \<noteq> 4 then
               (Ret (lreq_fail [] False (GoErr (''Sock5 error: '' @ rune_str (buf1 ! 0)))), c1)
             else if buf1 ! 1 \<noteq> 1 \<and> buf1 ! 1 \<noteq> 3 then (Ret (lreq_fail [] False errCmd), c1)
             else local_body buf1 (length bs) (buf1 ! 1 = 3) c1))"

text \<open>\<open>GetLocalRequestUDP\<close> accepts version 5 and the UDP command only, and has no port result.\<close>

definition GetLocalRequestUDP :: "conn \<Rightarrow> (bytes \<times> string \<times> goerr option) go \<times> conn" where
  "GetLocalRequestUDP c =
     (let buf = replicate 263 0 in
      case read_at_least 263 5 c of ((bs, e), c1) \<Rightarrow>
        (case e of
           Some er \<Rightarrow> (Ret ([], [], Some er), c1)
         | None \<Rightarrow>
             let buf1 = buf_put buf 0 bs in
             if buf1 ! 0 \<noteq> 5 then
               (Ret ([], [], Some (GoErr (''Sock5 error: '' @ rune_str (buf1 ! 0)))), c1)
             else if buf1 ! 1 \<noteq> 3 then (Ret ([], [], Some errCmd), c1)
             else (case local_body buf1 (length bs) True c1 of (r, c2) \<Rightarrow>
               (go_bind r (\<lambda>q. Ret (lr_raw q, lr_host q, lr_err q)), c2))))"

text \<open>
  \<open>ParseUDPSocks5\<close> works on a datagram: \<open>arr\<close> is the slice's backing array up to its capacity
  and \<open>len\<close> the slice's length.  An index beyond the length or a bound beyond the capacity
  panics.
\<close>

definition ParseUDPSocks5 :: "bytes \<Rightarrow> nat \<Rightarrow> (string \<times> bytes \<times> goerr option) go" where
  "ParseUDPSocks5 arr len =
     (if len = 0 then Panic
      else if arr ! 0 \<noteq> 5 then Ret ([], [], Some (GoErr (''Sock5 error: '' @ rune_str (arr ! 0))))
      else if len \<le> 1 then Panic
      else if arr ! 1 \<noteq> 3 then Ret ([], [], Some errCmd)
      else if len \<le> 3 then Panic
      else if (arr ! 3 = 3 \<or> arr ! 3 = 5) \<and> (len \<le> 4 \<or> length arr < unat (5 + arr ! 4)) then Panic
      else go_bind (local_span arr) (\<lambda>r.
        case r of
          Inl er \<Rightarrow> Ret ([], [], Some er)
        | Inr (reqLen, h) \<Rightarrow>
            if length arr < reqLen then Panic else Ret (h, take reqLen arr, None)))"

subsection \<open>The Shadowsocks-style parser and the handshake\<close>

text \<open>
  \<open>GetSSServerRequest\<close> reads two bytes and then, for the two IP types, reads again from index
  1 on, over the second of them.
\<close>

definition GetSSServerRequest :: "conn \<Rightarrow> request go \<times> conn" where
  "GetSSServerRequest c =
     (let buf = replicate 260 0 in
      case read_full 2 c of ((bs, e), c1) \<Rightarrow>
        (case e of
           Some er \<Rightarrow> (Ret (req_fail [] False er), c1)
         | None \<Rightarrow>
             let buf1 = buf_put buf 0 bs; ty = buf1 ! 0 AND 0xF;
                 reqLen = (if ty = 1 then 7 else if ty = 4 then 19 else unat (buf1 ! 1) + 4);
                 from = (if ty = 3 then 2 else 1) in
             if ty \<noteq> 1 \<and> ty \<noteq> 4 \<and> ty \<noteq> 3 then
               (Ret (req_fail [] False (GoErr ''socks5 unsupported type'')), c1)
             else if ty = 3 \<and> 260 < reqLen then
               (Ret (req_fail [] False (GoErr ''header error'')), c1)
             else (case read_full (reqLen - from) c1 of ((bs2, e2), c2) \<Rightarrow>
               (case e2 of
                  Some er \<Rightarrow> (Ret (req_fail [] False er), c2)
                | None \<Rightarrow>
                    let buf2 = buf_put buf1 from bs2;
                        port = itoa (get_u16 (slice buf2 (reqLen - 2) reqLen)) in
                    (go_bind
                       (if ty = 1 then Ret (ip_str (slice buf2 1 5))
                        else if ty = 4 then Ret (ip_str (slice buf2 1 17))
                        else byte_slice buf2 2 (buf2 ! 1))
                       (\<lambda>h. Ret \<lparr>rq_host = join_host_port h port, rq_raw = take reqLen buf2,
                               rq_udp = False, rq_err = None\<rparr>), c2)))))"

definition Socks5HandShake :: "conn \<Rightarrow> goerr option \<times> conn" where
  "Socks5HandShake c =
     (let buf = replicate 258 0 in
      case read_at_least 258 2 c of ((bs, e), c1) \<Rightarrow>
        (case e of
           Some er \<Rightarrow> (Some er, c1)
         | None \<Rightarrow>
             let buf1 = buf_put buf 0 bs; n = length bs; msgLen = unat (buf1 ! 1) + 2 in
             if buf1 ! 0 \<noteq> 5 \<and> buf1 ! 0 \<noteq> 4 then (Some errVer, c1)
             else if msgLen < n then (Some errAuthExtraData, c1)
             else (case (if n = msgLen then (([], None), c1) else read_full (msgLen - n) c1) of
                 ((_, e2), c2) \<Rightarrow>
                   (case e2 of
                      Some er \<Rightarrow> (Some er, c2)
                    | None \<Rightarrow> conn_write [5, 0] c2))))"

subsection \<open>The requests a server is sent\<close>

text \<open>
  The abstract specification of the server's parser, written down from the layout the protocol
  documents (RFC 1928, and the comments at \<open>socks5.go:147\<close>) and not from the parser: a
  destination is one of four forms, each with the number that announces it, the bytes it is sent
  as and the host it names.  A name is preceded by its length, an address is not; a port is two
  bytes, the high one first; \<open>To_Redirect\<close>, the repository's own form, has no port.
\<close>

datatype destination =
    To_IPv4 byte byte byte byte byte byte
  | To_Name bytes byte byte
  | To_IPv6 bytes byte byte
  | To_Redirect bytes

primrec dest_type :: "destination \<Rightarrow> byte" where
  "dest_type (To_IPv4 a b c d h l) = 1"
| "dest_type (To_Name n h l) = 3"
| "dest_type (To_IPv6 a h l) = 4"
| "dest_type (To_Redirect n) = 9"

primrec dest_fits :: "destination \<Rightarrow> bool" where
  "dest_fits (To_IPv4 a b c d h l) \<longleftrightarrow> True"
| "dest_fits (To_Name n h l) \<longleftrightarrow> length n < 256"
| "dest_fits (To_IPv6 a h l) \<longleftrightarrow> length a = 16"
| "dest_fits (To_Redirect n) \<longleftrightarrow> length n < 256"

primrec dest_layout :: "destination \<Rightarrow> bytes" where
  "dest_layout (To_IPv4 a b c d h l) = [a, b, c, d, h, l]"
| "dest_layout (To_Name n h l) = word_of_nat (length n) # n @ [h, l]"
| "dest_layout (To_IPv6 a h l) = a @ [h, l]"
| "dest_layout (To_Redirect n) = word_of_nat (length n) # n"

definition port_text :: "byte \<Rightarrow> byte \<Rightarrow> string" where
  "port_text h l = nat_digits (256 * unat h + unat l)"

primrec dest_host :: "destination \<Rightarrow> string" where
  "dest_host (To_IPv4 a b c d h l) =
     nat_digits (unat a) @ ''.'' @ nat_digits (unat b) @ ''.'' @ nat_digits (unat c) @ ''.'' @
     nat_digits (unat d) @ '':'' @ port_text h l"
| "dest_host (To_Name n h l) =
     (if CHR '':'' \<in> set (str_of n) then ''['' @ str_of n @ '']:'' @ port_text h l
      else str_of n @ '':'' @ port_text h l)"
| "dest_host (To_IPv6 a h l) = join_host_port (ip_str a) (port_text h l)"
| "dest_host (To_Redirect n) = str_of n"

text \<open>
  A stream that begins with a request: version 4 or 5, the command for TCP or UDP, a reserved
  byte, the number of the form in the low four bits (the others are flags), the destination.
\<close>

inductive spells :: "bytes \<Rightarrow> request \<Rightarrow> bytes \<Rightarrow> bool" where
  "v = 5 \<or> v = 4 \<Longrightarrow> m = 1 \<or> m = 3 \<Longrightarrow> t AND 0xf = dest_type q \<Longrightarrow> dest_fits q \<Longrightarrow>
   spells ([v, m, r, t] @ dest_layout q @ rest)
     \<lparr>rq_host = dest_host q, rq_raw = [v, m, r, t] @ dest_layout q, rq_udp = (m = 3),
      rq_err = None\<rparr> rest"

definition asks_IPv6 :: "bytes \<Rightarrow> bool" where
  "asks_IPv6 d \<longleftrightarrow> 4 \<le> length d \<and> d ! 3 AND 0xf = 4"

subsection \<open>The parser on the bytes of the stream\<close>

text \<open>
  An intermediate form for the proofs: what the code computes, as a function of the bytes of the
  stream alone, without connection and buffer.  It follows the code (26 bytes for IPv6 included);
  it is compared with the layout above below.
\<close>

definition flat_len :: "bytes \<Rightarrow> nat option" where
  "flat_len d =
     (let ty = d ! 3 AND 0xf in
      if ty = 1 then Some 10
      else if ty = 4 then Some 26
      else if ty = 3 \<and> 5 \<le> length d then Some (unat (d ! 4) + 7)
      else if ty = 9 \<and> 5 \<le> length d then Some (5 + unat (d ! 4))
      else None)"

definition flat_host :: "bytes \<Rightarrow> nat \<Rightarrow> string" where
  "flat_host d j =
     (if d ! 3 AND 0xf = 9 then server_host d
      else join_host_port (server_host d) (itoa (get_u16 (slice d (j - 2) j))))"

definition flat_request :: "bytes \<Rightarrow> (request \<times> bytes) option" where
  "flat_request d =
     (if length d < 4 \<or> (d ! 0 \<noteq> 5 \<and> d ! 0 \<noteq> 4) \<or> (d ! 1 \<noteq> 1 \<and> d ! 1 \<noteq> 3) then None
      else case flat_len d of
        None \<Rightarrow> None
      | Some j \<Rightarrow>
          if length d < j then None
          else Some (\<lparr>rq_host = flat_host d j, rq_raw = take j d, rq_udp = (d ! 1 = 3),
                      rq_err = None\<rparr>, drop j d))"

text \<open>The buffer after the first \<open>i\<close> bytes of the stream \<open>d\<close> were read into it.\<close>

definition sbuf :: "nat \<Rightarrow> bytes \<Rightarrow> nat \<Rightarrow> bytes" where
  "sbuf cap d i = buf_put (replicate cap 0) 0 (take i d)"

lemma nth_sbuf [socks_simps]: "k < i \<Longrightarrow> i \<le> length d \<Longrightarrow> sbuf cap d i ! k = d ! k"
  by (simp add: sbuf_def nth_buf_put0)

lemma take_sbuf [socks_simps]: "j \<le> i \<Longrightarrow> i \<le> length d \<Longrightarrow> take j (sbuf cap d i) = take j d"
  by (simp add: sbuf_def take_buf_put0 min_def)

lemma slice_sbuf [socks_simps]:
  "j \<le> i \<Longrightarrow> i \<le> length d \<Longrightarrow> slice (sbuf cap d i) k j = slice d k j"
  by (simp add: sbuf_def slice_buf_put0)

lemma take_drop_join: "i \<le> j \<Longrightarrow> take i d @ take (j - i) (drop i d) = take j d"
  by (metis append_take_drop_id le_add_diff_inverse take_add)

text \<open>One more \<open>io.ReadFull(conn, buf[i:j])\<close>.\<close>

lemma read_more:
  assumes cat: "concat (inq c) = drop i d" and i: "i \<le> length d" and j: "i \<le> j" "j \<le> cap"
    and long: "j \<le> length d"
  obtains bs r where "read_full (j - i) c = ((bs, None), c\<lparr>inq := r\<rparr>)"
    "concat r = drop j d" "buf_put (sbuf cap d i) i bs = sbuf cap d j"
proof -
  have "j - i \<le> length (concat (inq c))" using cat long by simp
  then obtain r where
    r: "read_full (j - i) c = ((take (j - i) (drop i d), None), c\<lparr>inq := r\<rparr>)"
      "concat r = drop (j - i) (drop i d)"
    using read_full_ok cat by metis
  have "buf_put (sbuf cap d i) i (take (j - i) (drop i d)) = sbuf cap d j"
    unfolding sbuf_def using i j long
    by (subst buf_put_put) (simp_all add: take_drop_join)
  with r show thesis using that j by simp
qed

lemma read_more_short:
  assumes "concat (inq c) = drop i d" "i \<le> length d" "length d < j"
  shows "\<exists>bs er c'. read_full (j - i) c = ((bs, Some er), c')"
  using assms read_full_short [of c "j - i"] by simp

lemma server_host_sbuf:
  assumes "flat_len d = Some j" "j \<le> length d"
  shows "server_host (sbuf cap d j) = server_host d"
    "sbuf cap d j ! 3 = d ! 3"
  using assms by (auto simp: flat_len_def server_host_def Let_def socks_simps split: if_splits)

lemma flat_len_bounds:
  assumes "flat_len d = Some j"
  shows "5 \<le> j" "j \<le> 269"
proof -
  have "unat (d ! 4) < 256" using unsigned_less [of "d ! 4", where ?'a = nat] by simp
  then show "5 \<le> j" "j \<le> 269"
    using assms by (auto simp: flat_len_def Let_def split: if_splits)
qed

text \<open>The span the code computes is \<open>flat_len\<close>, however the bytes arrive.\<close>

lemma server_span_flat:
  assumes cat: "concat (inq c) = drop 4 d" and len: "4 \<le> length d"
  shows "case flat_len d of
      Some j \<Rightarrow> \<exists>i c'. server_span (sbuf 269 d 4) c = (Inr (i, j), sbuf 269 d i, c') \<and>
        concat (inq c') = drop i d \<and> i \<le> j \<and> i \<le> length d
    | None \<Rightarrow> \<exists>er b c'. server_span (sbuf 269 d 4) c = (Inl er, b, c')"
proof -
  let ?ty = "d ! 3 AND 0xf"
  have ty: "sbuf 269 d 4 ! 3 = d ! 3" using len by (simp add: socks_simps)
  consider (ip) "?ty = 1 \<or> ?ty = 4" | (name) "?ty = 3 \<or> ?ty = 9" | (other) "?ty \<notin> {1, 3, 4, 9}"
    by blast
  then show ?thesis
  proof cases
    case ip
    then show ?thesis using cat len ty
      by (auto simp: server_span_def flat_len_def Let_def)
  next
    case name
    show ?thesis
    proof (cases "5 \<le> length d")
      case True
      obtain bs r where rd: "read_full (5 - 4) c = ((bs, None), c\<lparr>inq := r\<rparr>)"
        "concat r = drop 5 d" "buf_put (sbuf 269 d 4) 4 bs = sbuf 269 d 5"
        using read_more [OF cat len, of 5 269] True by auto
      moreover have "sbuf 269 d 5 ! 4 = d ! 4" using True by (simp add: socks_simps)
      ultimately show ?thesis using name True ty
        by (auto simp: server_span_def flat_len_def Let_def)
    next
      case False
      then obtain bs er c' where "read_full (5 - 4) c = ((bs, Some er), c')"
        using read_more_short [OF cat len, of 5] by auto
      with name False ty show ?thesis
        by (auto simp: server_span_def flat_len_def Let_def)
    qed
  next
    case other
    then show ?thesis using ty by (simp add: server_span_def flat_len_def Let_def)
  qed
qed

lemma server_body_flat:
  assumes cat: "concat (inq c) = drop 4 d" and len: "4 \<le> length d"
  shows "case flat_len d of
      Some j \<Rightarrow>
        if length d < j then rq_err (fst (server_body (sbuf 269 d 4) udp c)) \<noteq> None
        else \<exists>c'. server_body (sbuf 269 d 4) udp c =
          (\<lparr>rq_host = flat_host d j, rq_raw = take j d, rq_udp = udp, rq_err = None\<rparr>, c') \<and>
          concat (inq c') = drop j d
    | None \<Rightarrow> rq_err (fst (server_body (sbuf 269 d 4) udp c)) \<noteq> None"
proof (cases "flat_len d")
  case None
  with server_span_flat [OF assms] show ?thesis
    by (auto simp: server_body_def req_fail_def)
next
  case (Some j)
  note bounds = flat_len_bounds [OF Some]
  obtain i c1 where span: "server_span (sbuf 269 d 4) c = (Inr (i, j), sbuf 269 d i, c1)"
    and cat1: "concat (inq c1) = drop i d" and ij: "i \<le> j" and il: "i \<le> length d"
    using server_span_flat [OF assms] Some by auto
  show ?thesis
  proof (cases "length d < j")
    case True
    then obtain bs er c2 where "read_full (j - i) c1 = ((bs, Some er), c2)"
      using read_more_short [OF cat1 il] by blast
    with True Some span show ?thesis by (simp add: server_body_def req_fail_def Let_def)
  next
    case False
    then obtain bs r where rd: "read_full (j - i) c1 = ((bs, None), c1\<lparr>inq := r\<rparr>)"
      "concat r = drop j d" "buf_put (sbuf 269 d i) i bs = sbuf 269 d j"
      using read_more [OF cat1 il ij bounds(2)] by auto
    have "take j (sbuf 269 d j) = take j d"
      "slice (sbuf 269 d j) (j - 2) j = slice d (j - 2) j"
      using False by (simp_all add: socks_simps)
    then show ?thesis
      using False Some span rd server_host_sbuf [OF Some]
      by (simp add: server_body_def flat_host_def Let_def)
  qed
qed

lemma GetServerRequest_flat:
  "case flat_request (concat (inq c)) of
     Some (q, rest) \<Rightarrow>
       fst (GetServerRequest c) = q \<and> concat (inq (snd (GetServerRequest c))) = rest
   | None \<Rightarrow> rq_err (fst (GetServerRequest c)) \<noteq> None"
proof -
  define d where "d = concat (inq c)"
  show ?thesis
  proof (cases "length d < 4")
    case True
    then show ?thesis using read_full_short [of c 4]
      by (simp add: GetServerRequest_def flat_request_def d_def req_fail_def)
  next
    case False
    then obtain r where rd: "read_full 4 c = ((take 4 d, None), c\<lparr>inq := r\<rparr>)" "concat r = drop 4 d"
      using read_full_ok [of 4 c] unfolding d_def by (auto simp: not_less)
    have hdr: "server_header (sbuf 269 d 4) =
        (d ! 1 = 3, if d ! 1 \<noteq> 1 \<and> d ! 1 \<noteq> 3 then Some (GoErr ''not socks5 conn or udp'')
          else if d ! 0 \<noteq> 5 \<and> d ! 0 \<noteq> 4 then Some (GoErr ''not socks5 type'') else None)"
      using False by (auto simp: server_header_def socks_simps)
    have body: "GetServerRequest c = (if snd (server_header (sbuf 269 d 4)) = None
        then server_body (sbuf 269 d 4) (d ! 1 = 3) (c\<lparr>inq := r\<rparr>) else GetServerRequest c)"
      using rd(1) hdr by (simp add: GetServerRequest_def sbuf_def Let_def)
    have bad: "rq_err (fst (GetServerRequest c)) \<noteq> None"
      if "snd (server_header (sbuf 269 d 4)) \<noteq> None"
      using that rd(1)
      by (auto simp: GetServerRequest_def sbuf_def [symmetric] Let_def req_fail_def
          split: prod.splits option.splits)
    show ?thesis
    proof (cases "snd (server_header (sbuf 269 d 4)) = None")
      case True
      then have ok: "d ! 1 = 1 \<or> d ! 1 = 3" "d ! 0 = 5 \<or> d ! 0 = 4"
        unfolding hdr by (auto split: if_splits)
      have cat: "concat (inq (c\<lparr>inq := r\<rparr>)) = drop 4 d" using rd(2) by simp
      from server_body_flat [OF cat, of "d ! 1 = 3"] False True ok body
      show ?thesis
        unfolding flat_request_def d_def [symmetric]
        by (auto split: option.splits if_splits)
    next
      case bad_header: False
      then have "flat_request d = None"
        unfolding hdr flat_request_def by (auto split: if_splits)
      with bad [OF bad_header] show ?thesis by (simp add: d_def)
    qed
  qed
qed

subsection \<open>The parser and the layout\<close>

lemma ip_str_dotted:
  "ip_str [a, b, c, e] = nat_digits (unat a) @ ''.'' @ nat_digits (unat b) @ ''.'' @ nat_digits (unat c) @ ''.'' @
     nat_digits (unat e)"
  "CHR '':'' \<notin> set (ip_str [a, b, c, e])"
  by (simp_all add: ip_str_def to4_def ipv4_str_def byte_str_def nat_digits_no_colon)

lemma get_u16_port: "itoa (get_u16 [h, l]) = port_text h l"
proof -
  have u: "get_u16 [h, l] = int (256 * unat h + unat l)" by (simp add: get_u16_def)
  have "itoa (int k) = nat_digits k" for k by (simp add: itoa_def)
  then show ?thesis unfolding u port_text_def .
qed

text \<open>A request the layout spells is what the parser makes of the bytes.\<close>

lemma flat_request_spells:
  assumes "spells d q rest" "\<not> asks_IPv6 d"
  shows "flat_request d = Some (q, rest)"
  using assms
proof (cases rule: spells.cases)
  case (1 v m t p r)
  show ?thesis
  proof (cases p)
    case (To_IPv4 a b c e h l)
    with 1 show ?thesis
      by (auto simp: flat_request_def flat_len_def flat_host_def server_host_def Let_def slice_def
          get_u16_port join_host_port_def ip_str_dotted nat_digits_no_colon)
  next
    case (To_Name n h l)
    have len: "unat (word_of_nat (length n) :: byte) = length n"
      using 1 To_Name by (simp add: unat_of_nat)
    have d: "d = v # m # r # t # word_of_nat (length n) # n @ h # l # rest" using 1 To_Name by simp
    have parts: "slice d 5 (5 + length n) = n" "slice d (5 + length n) (length n + 7) = [h, l]"
      "take (length n + 7) d = v # m # r # t # word_of_nat (length n) # n @ [h, l]"
      "drop (length n + 7) d = rest" "length n + 7 \<le> length d"
      unfolding d by (simp_all add: slice_def eval_nat_numeral)
    have "flat_len d = Some (length n + 7)" using 1 To_Name len by (simp add: flat_len_def)
    moreover have "flat_host d (length n + 7) = dest_host p"
      using 1 To_Name len parts(1,2)
      by (simp add: flat_host_def server_host_def Let_def get_u16_port join_host_port_def)
    ultimately show ?thesis using 1 To_Name parts(3-5) by (auto simp: flat_request_def)
  next
    case (To_IPv6 a h l)
    with 1 assms(2) show ?thesis by (simp add: asks_IPv6_def)
  next
    case (To_Redirect n)
    have len: "unat (word_of_nat (length n) :: byte) = length n"
      using 1 To_Redirect by (simp add: unat_of_nat)
    have d: "d = v # m # r # t # word_of_nat (length n) # n @ rest" using 1 To_Redirect by simp
    have parts: "slice d 5 (5 + length n) = n" "take (5 + length n) d = v # m # r # t # word_of_nat (length n) # n"
      "drop (5 + length n) d = rest" "5 + length n \<le> length d"
      unfolding d by (simp_all add: slice_def eval_nat_numeral)
    have "flat_len d = Some (5 + length n)" using 1 To_Redirect len by (simp add: flat_len_def)
    moreover have "flat_host d (5 + length n) = dest_host p"
      using 1 To_Redirect len parts(1) by (simp add: flat_host_def server_host_def Let_def)
    ultimately show ?thesis using 1 To_Redirect parts(2-4) by (auto simp: flat_request_def)
  qed
qed

text \<open>Conversely every stream the parser accepts begins with a request of the layout.\<close>

lemma spells_of_flat:
  assumes "flat_request d = Some (q, rest)" "\<not> asks_IPv6 d"
  shows "\<exists>q'. spells d q' rest"
proof -
  from assms(1) obtain j where j: "flat_len d = Some j" "j \<le> length d" "rest = drop j d"
    and hd: "4 \<le> length d" "d ! 0 = 5 \<or> d ! 0 = 4" "d ! 1 = 1 \<or> d ! 1 = 3"
    by (auto simp: flat_request_def split: if_splits option.splits)
  then obtain v m r t tl where d: "d = v # m # r # t # tl"
    by (auto simp: Suc_le_length_iff eval_nat_numeral)
  have intro: "\<exists>q'. spells d q' rest"
    if "t AND 0xf = dest_type p" "dest_fits p" "tl = dest_layout p @ rest" for p
    using spells.intros [of v m t p r rest] that hd d by auto
  have ty: "t AND 0xf = 1 \<or> t AND 0xf = 3 \<or> t AND 0xf = 9"
    using j(1) assms(2) d by (auto simp: flat_len_def asks_IPv6_def Let_def split: if_splits)
  show ?thesis
  proof (cases "t AND 0xf = 1")
    case True
    then have "j = 10" using j(1) d by (simp add: flat_len_def)
    then obtain a b c e h l where "tl = [a, b, c, e, h, l] @ rest"
      using j d by (auto simp: Suc_le_length_iff eval_nat_numeral)
    then show ?thesis using True by (intro intro [of "To_IPv4 a b c e h l"]) simp_all
  next
    case False
    then have "5 \<le> length d" using ty j(1) d by (auto simp: flat_len_def Let_def split: if_splits)
    then obtain n ys where tl: "tl = n # ys" using d by (auto simp: Suc_le_length_iff eval_nat_numeral)
    have n: "unat n < 256" using unsigned_less [of n, where ?'a = nat] by simp
    have split: "ys = take (unat n) ys @ drop (unat n) ys" by simp
    show ?thesis
    proof (cases "t AND 0xf = 3")
      case True
      then have jn: "j = unat n + 7" using j(1) d tl by (simp add: flat_len_def)
      then have "2 \<le> length (drop (unat n) ys)" using j d tl by simp
      then obtain h l zs where drop: "drop (unat n) ys = h # l # zs"
        by (auto simp: Suc_le_length_iff eval_nat_numeral simp del: length_drop)
      then have "drop (Suc (Suc (unat n))) ys = zs" using drop_drop [of 2 "unat n" ys] by simp
      then have "rest = zs" using j(3) jn d tl by (simp add: eval_nat_numeral)
      moreover have "length (take (unat n) ys) = unat n" using jn j d tl by simp
      ultimately show ?thesis using True n tl split drop
        by (intro intro [of "To_Name (take (unat n) ys) h l"]) simp_all
    next
      case False
      with \<open>t AND 0xf \<noteq> 1\<close> ty have t9: "t AND 0xf = 9" by simp
      then have jn: "j = 5 + unat n" using j(1) d tl by (simp add: flat_len_def)
      then have "rest = drop (unat n) ys" using j(3) d tl by (simp add: eval_nat_numeral)
      moreover have "length (take (unat n) ys) = unat n" using jn j d tl by simp
      ultimately show ?thesis using t9 n tl split
        by (intro intro [of "To_Redirect (take (unat n) ys)"]) simp_all
    qed
  qed
qed

text \<open>
  C1. On every stream that does not announce an IPv6 address, however the network cuts it into
  segments, the server's request parser returns without error exactly when the stream begins
  with a request of the documented layout; it then returns that request - host, raw bytes,
  command - and leaves exactly the bytes after it unread.  (IPv6 requests are the exception: see
  \<open>GetServerRequest_rejects_IPv6\<close>.)
\<close>

theorem GetServerRequest_refines_grammar:
  assumes "\<not> asks_IPv6 (concat (inq c))"
  shows "case GetServerRequest c of (q, c') \<Rightarrow>
    if rq_err q = None then spells (concat (inq c)) q (concat (inq c'))
    else \<not> (\<exists>q' rest. spells (concat (inq c)) q' rest)"
proof (cases "flat_request (concat (inq c))")
  case None
  then show ?thesis
    using GetServerRequest_flat [of c] flat_request_spells [OF _ assms]
    by (auto split: prod.splits)
next
  case (Some a)
  obtain q rest where a: "a = (q, rest)" by force
  obtain q' where sp: "spells (concat (inq c)) q' rest"
    using spells_of_flat [OF Some [unfolded a] assms] by blast
  with flat_request_spells [OF this assms] Some a have eq: "q' = q" by simp
  have "rq_err q = None" using sp eq by (auto elim: spells.cases)
  then show ?thesis using GetServerRequest_flat [of c] Some a sp eq by (auto split: prod.splits)
qed

theorem GetServerRequest_refines_grammar_witness:
  "case GetServerRequest (conn_of [[5, 1], [0, 1, 10, 0, 0], [7, 1], [187, 22, 3]] EOF) of
    (q, c') \<Rightarrow>
      if rq_err q = None
      then spells [5, 1, 0, 1, 10, 0, 0, 7, 1, 187, 22, 3] q (concat (inq c'))
      else \<not> (\<exists>q' rest. spells [5, 1, 0, 1, 10, 0, 0, 7, 1, 187, 22, 3] q' rest)"
proof -
  let ?c = "conn_of [[5, 1], [0, 1, 10, 0, 0], [7, 1], [187, 22, 3]] EOF"
  have stream: "concat (inq ?c) = [5, 1, 0, 1, 10, 0, 0, 7, 1, 187, 22, 3]" by simp
  have "\<not> asks_IPv6 (concat (inq ?c))" by (simp add: asks_IPv6_def)
  from GetServerRequest_refines_grammar [OF this] show ?thesis unfolding stream .
qed

subsection \<open>The client's request reaches the server\<close>

lemma HostToRaw_port: "port \<noteq> -1 \<Longrightarrow> HostToRaw G host port = Ret (raw_request host port)"
  by (simp add: HostToRaw_def)

text \<open>
  With port -1 (the HTTP proxy's calls) the host carries the port after its first colon.
\<close>

lemma HostToRaw_embedded:
  assumes "gs_in_ok G" "CHR '':'' \<notin> set h" "- (2 ^ 63) \<le> p" "p < 2 ^ 63"
  shows "HostToRaw G (h @ '':'' @ itoa p) (-1) = Ret (raw_request h p)"
proof -
  have "splitn2 CHR '':'' (h @ '':'' @ itoa p) = [h, itoa p]"
    using splitn2_append [OF assms(2)] by simp
  moreover have "gs_In G (h @ '':'' @ itoa p) '':''"
    by (simp add: gs_inD [OF assms(1)] str_contains_char)
  ultimately show ?thesis using atoi_itoa [OF assms(3,4)] by (simp add: HostToRaw_def)
qed

lemma length_raw_request [simp]: "length (raw_request h p) = length h + 7"
  by (simp add: raw_request_def)

lemma raw_request_nth:
  "raw_request h p ! 0 = 5" "raw_request h p ! Suc 0 = 1" "raw_request h p ! 3 = 3"
  "raw_request h p ! 4 = to_byte (int (length h))"
  by (simp_all add: raw_request_def)

lemma slice_raw_port: "slice (raw_request h p) (length h + 5) (length h + 7) = put_u16 p"
proof -
  have "raw_request h p = ([5, 1, 0, 3, to_byte (int (length h))] @ bytes_of h) @ put_u16 p"
    by (simp add: raw_request_def)
  moreover have "slice (xs @ put_u16 p) (length xs) (length xs + 2) = put_u16 p" for xs
    by (simp add: slice_def)
  from this [of "[5, 1, 0, 3, to_byte (int (length h))] @ bytes_of h"]
  have "slice (([5, 1, 0, 3, to_byte (int (length h))] @ bytes_of h) @ put_u16 p)
      (length h + 5) (length h + 7) = put_u16 p" by (simp add: eval_nat_numeral)
  ultimately show ?thesis by simp
qed

lemma unat_to_byte: "unat (to_byte (int n)) = n mod 256"
  by (simp add: to_byte_def unat_of_nat)

lemma server_reads_request:
  assumes raw: "HostToRaw G host port = Ret raw" "port \<noteq> -1"
    and len: "length host \<le> 255"
    and stream: "concat (inq c) = raw @ rest"
  shows "\<exists>c'. GetServerRequest c =
      (\<lparr>rq_host = join_host_port host (itoa (port mod 65536)), rq_raw = raw, rq_udp = False,
        rq_err = None\<rparr>, c') \<and> concat (inq c') = rest"
proof -
  define n where "n = length host"
  define d where "d = raw @ rest"
  have raw_eq: "raw = raw_request host port" using raw by (simp add: HostToRaw_port)
  have nth: "d ! 0 = 5" "d ! 1 = 1" "d ! 3 = 3" "unat (d ! 4) = n"
    using len by (simp_all add: d_def raw_eq nth_append raw_request_nth unat_to_byte n_def)
  have long: "n + 7 \<le> length d" by (simp add: d_def raw_eq n_def)
  have d: "d = ([5, 1, 0, 3, to_byte (int n)] @ bytes_of host) @ (put_u16 port @ rest)"
    by (simp add: d_def raw_eq raw_request_def n_def)
  have host: "slice d 5 (5 + n) = bytes_of host"
    unfolding d by (simp add: slice_def n_def)
  have port: "get_u16 (slice d (5 + n) (n + 7)) = port mod 65536"
  proof -
    have "slice d (5 + n) (n + 7) = put_u16 port"
      unfolding d by (subst slice_append_right) (simp_all add: slice_def n_def)
    then show ?thesis by (simp add: get_put_u16)
  qed
  have take: "take (n + 7) d = raw" "drop (n + 7) d = rest"
    by (simp_all add: d_def raw_eq n_def)
  have "flat_len d = Some (n + 7)" using nth long by (simp add: flat_len_def)
  moreover have "flat_host d (n + 7) = join_host_port host (itoa (port mod 65536))"
    using nth host port by (simp add: flat_host_def server_host_def)
  ultimately have "flat_request d =
      Some (\<lparr>rq_host = join_host_port host (itoa (port mod 65536)), rq_raw = raw, rq_udp = False,
        rq_err = None\<rparr>, rest)"
    using nth long take by (simp add: flat_request_def)
  with GetServerRequest_flat [of c] stream show ?thesis
    by (cases "GetServerRequest c") (simp add: d_def)
qed

text \<open>
  C19. A request the client writes with \<open>HostToRaw\<close> for a host of at most 255 bytes is read back
  by the server as that host and port (modulo 65536), joined by \<open>JoinHostPort\<close>, with the
  payload after it untouched, for every segmentation of the stream.
\<close>

theorem HostToRaw_GetServerRequest:
  assumes raw: "HostToRaw G host port = Ret raw" "port \<noteq> -1"
    and len: "length host \<le> 255"
    and stream: "concat (inq c) = raw @ rest"
  shows "\<exists>c'. GetServerRequest c =
      (\<lparr>rq_host = join_host_port host (itoa (port mod 65536)), rq_raw = raw, rq_udp = False,
        rq_err = None\<rparr>, c') \<and> concat (inq c') = rest"
  by (rule server_reads_request [OF assms])

theorem HostToRaw_GetServerRequest_witness:
  "\<exists>c'. GetServerRequest
      (conn_of [[5, 1], [0, 3, 4], bytes_of ''a.io'' @ [1], [187, 22, 3]] EOF) =
      (\<lparr>rq_host = ''a.io:443'', rq_raw = raw_request ''a.io'' 443, rq_udp = False,
        rq_err = None\<rparr>, c') \<and> concat (inq c') = [22, 3]"
proof -
  have host: "join_host_port ''a.io'' (itoa (443 mod 65536)) = ''a.io:443''"
    by code_simp
  have raw: "HostToRaw gs_std ''a.io'' 443 = Ret (raw_request ''a.io'' 443)"
    by (simp add: HostToRaw_port)
  have stream: "concat (inq (conn_of [[5, 1], [0, 3, 4], bytes_of ''a.io'' @ [1], [187, 22, 3]] EOF))
      = raw_request ''a.io'' 443 @ [22, 3]"
  proof -
    have "put_u16 443 = [1, 187]" by code_simp
    then show ?thesis by (simp add: raw_request_def to_byte_def)
  qed
  show ?thesis
    unfolding host [symmetric] by (rule HostToRaw_GetServerRequest [OF raw _ _ stream]) simp_all
qed

text \<open>
  An IPv6 request of the layout is not understood: the parser waits for 26 bytes where the
  layout (and the client that forwards it) has 22, so when fewer than four bytes follow the
  request it reports the end of the stream.
\<close>

theorem GetServerRequest_rejects_IPv6:
  assumes "spells (concat (inq c)) q rest" "asks_IPv6 (concat (inq c))" "length rest < 4"
  shows "rq_err (fst (GetServerRequest c)) \<noteq> None"
proof -
  have "flat_request (concat (inq c)) = None"
    using assms(1)
  proof (cases rule: spells.cases)
    case (1 v m t p r)
    then obtain a h l where "p = To_IPv6 a h l" using assms(2) by (cases p) (auto simp: asks_IPv6_def)
    with 1 assms(3) show ?thesis by (simp add: flat_request_def flat_len_def)
  qed
  with GetServerRequest_flat [of c] show ?thesis by simp
qed

theorem GetServerRequest_rejects_IPv6_witness:
  "rq_err (fst (GetServerRequest
     (conn_of [[5, 1, 0, 4] @ replicate 16 1 @ [1, 187]] EOF))) \<noteq> None"
proof -
  have "spells ([5, 1, 0, 4] @ dest_layout (To_IPv6 (replicate 16 1) 1 187) @ [])
    \<lparr>rq_host = dest_host (To_IPv6 (replicate 16 1) 1 187),
     rq_raw = [5, 1, 0, 4] @ dest_layout (To_IPv6 (replicate 16 1) 1 187),
     rq_udp = ((1::byte) = 3), rq_err = None\<rparr> []"
    by (rule spells.intros) simp_all
  then show ?thesis
    by (intro GetServerRequest_rejects_IPv6 [where rest = "[]"]) (simp_all add: asks_IPv6_def)
qed

subsection \<open>The client's parser\<close>

lemma byte_slice_5: "byte_slice buf 5 n =
    (if 251 \<le> unat n then Panic else Ret (str_of (slice buf 5 (5 + unat n))))"
proof -
  have n: "unat n < 256" using unsigned_less [of n, where ?'a = nat] by simp
  have u: "unat (5 + n) = (5 + unat n) mod 256" by (simp add: unat_word_ariths)
  show ?thesis
  proof (cases "251 \<le> unat n")
    case True
    with n u have "unat (5 + n) = unat n - 251" by (simp add: mod_if)
    with True n show ?thesis by (simp add: byte_slice_def)
  next
    case False
    with u have "unat (5 + n) = 5 + unat n" by simp
    with False show ?thesis by (simp add: byte_slice_def)
  qed
qed

text \<open>The client's requests: length by address type, for names short enough to be sliced.\<close>

definition local_len :: "bytes \<Rightarrow> nat option" where
  "local_len d =
     (if d ! 3 = 1 then Some 10
      else if d ! 3 = 4 then Some 22
      else if d ! 3 = 3 \<and> unat (d ! 4) < 251 then Some (unat (d ! 4) + 7)
      else if d ! 3 = 5 \<and> unat (d ! 4) < 251 then Some (unat (d ! 4) + 5)
      else None)"

definition local_panics :: "bytes \<Rightarrow> bool" where
  "local_panics d \<longleftrightarrow> (d ! 3 = 3 \<or> d ! 3 = 5) \<and> 251 \<le> unat (d ! 4)"

lemma local_span_cases:
  "local_span buf = (if local_panics buf then Panic
     else case local_len buf of
       None \<Rightarrow> Ret (Inl errAddrType)
     | Some j \<Rightarrow> Ret (Inr (j, if buf ! 3 = 1 \<or> buf ! 3 = 4 then []
          else str_of (slice buf 5 (5 + unat (buf ! 4))))))"
  by (auto simp: local_span_def local_panics_def local_len_def byte_slice_5)

lemma local_len_bounds: "local_len d = Some j \<Longrightarrow> 5 \<le> j \<and> j \<le> 263"
  by (auto simp: local_len_def split: if_splits)

lemma local_len_sbuf:
  "5 \<le> i \<Longrightarrow> i \<le> length d \<Longrightarrow> local_len (sbuf cap d i) = local_len d"
  "5 \<le> i \<Longrightarrow> i \<le> length d \<Longrightarrow> local_panics (sbuf cap d i) = local_panics d"
  by (simp_all add: local_len_def local_panics_def socks_simps)

lemma local_body_cases:
  assumes cat: "concat (inq c) = drop n d" and n: "5 \<le> n" "n \<le> length d"
  shows "local_body (sbuf 263 d n) n udp c = r \<Longrightarrow>
    (if local_panics d then fst r = Panic
     else case local_len d of
       None \<Rightarrow> fst r = Ret (lreq_fail [] udp errAddrType)
     | Some j \<Rightarrow>
        if n \<le> j \<and> j \<le> length d then
          \<exists>h c'. r = (Ret \<lparr>lr_raw = take j d, lr_host = h,
              lr_port = itoa (get_u16 (slice d (j - 2) j)), lr_udp = udp, lr_err = None\<rparr>, c') \<and>
            concat (inq c') = drop j d \<and>
            h = (if d ! 3 = 1 \<or> d ! 3 = 4 then []
                 else str_of (slice (sbuf 263 d n) 5 (5 + unat (d ! 4))))
        else \<exists>q. fst r = Ret q \<and> lr_err q \<noteq> None)"
proof -
  assume r: "local_body (sbuf 263 d n) n udp c = r"
  have nth: "sbuf 263 d n ! 3 = d ! 3" "sbuf 263 d n ! 4 = d ! 4"
    using n by (simp_all add: socks_simps)
  note span = local_span_cases [of "sbuf 263 d n", unfolded local_len_sbuf [OF n] nth]
  show ?thesis
  proof (cases "local_panics d \<or> local_len d = None")
    case True
    with r span show ?thesis by (auto simp: local_body_def)
  next
    case False
    then obtain j where np: "\<not> local_panics d" and j: "local_len d = Some j" by blast
    note jb = local_len_bounds [OF j]
    consider "j < n" | "n \<le> j" "length d < j" | "n \<le> j" "j \<le> length d" by linarith
    then show ?thesis
    proof cases
      case 1
      with r span np j show ?thesis by (auto simp: local_body_def lreq_fail_def)
    next
      case 2
      then obtain bs er c' where "read_full (j - n) c = ((bs, Some er), c')" "n \<noteq> j"
        using read_more_short [OF cat n(2)] n by (metis le_neq_implies_less not_less)
      with 2 r span np j show ?thesis by (auto simp: local_body_def lreq_fail_def Let_def)
    next
      case 3
      obtain bs q where rd: "read_full (j - n) c = ((bs, None), c\<lparr>inq := q\<rparr>)"
        "concat q = drop j d" "buf_put (sbuf 263 d n) n bs = sbuf 263 d j"
        using read_more [OF cat n(2) 3(1) _ 3(2)] jb by blast
      have fin: "take j (sbuf 263 d j) = take j d"
        "slice (sbuf 263 d j) (j - 2) j = slice d (j - 2) j"
        using 3 by (simp_all add: socks_simps)
      show ?thesis
      proof (cases "n = j")
        case True
        with 3 r span np j fin cat show ?thesis
          by (auto simp: local_body_def Let_def)
      next
        case False
        with 3 r span np j fin rd show ?thesis
          by (auto simp: local_body_def Let_def)
      qed
    qed
  qed
qed

definition local_header_ok :: "bytes \<Rightarrow> bool" where
  "local_header_ok d \<longleftrightarrow> (d ! 0 = 5 \<or> d ! 0 = 4) \<and> (d ! 1 = 1 \<or> d ! 1 = 3)"

text \<open>The first \<open>io.ReadAtLeast\<close> leaves the first \<open>n\<close> bytes of the stream in the buffer.\<close>

lemma GetLocalRequest_start:
  assumes d: "d = concat (inq c)"
  shows "length d < 5 \<Longrightarrow> \<exists>q. fst (GetLocalRequest c) = Ret q \<and> lr_err q \<noteq> None"
    and "5 \<le> length d \<Longrightarrow> \<exists>n r. 5 \<le> n \<and> n \<le> length d \<and>
      read_at_least 263 5 c = ((take n d, None), c\<lparr>inq := r\<rparr>) \<and> concat r = drop n d \<and>
      (if local_header_ok d then
         GetLocalRequest c = local_body (sbuf 263 d n) n (d ! 1 = 3) (c\<lparr>inq := r\<rparr>)
       else \<exists>q. fst (GetLocalRequest c) = Ret q \<and> lr_err q \<noteq> None)"
proof -
  show "\<exists>q. fst (GetLocalRequest c) = Ret q \<and> lr_err q \<noteq> None" if "length d < 5"
    using that read_at_least_short [of c 5 263] d
    by (simp add: GetLocalRequest_def lreq_fail_def)
next
  assume len: "5 \<le> length d"
  then obtain bs r where rd: "read_at_least 263 5 c = ((bs, None), c\<lparr>inq := r\<rparr>)"
    "bs @ concat r = d" "5 \<le> length bs" "length bs \<le> 263"
    using read_at_least_ok [of 5 263 c] d by auto
  define n where "n = length bs"
  have bs: "bs = take n d" "concat r = drop n d" "n \<le> length d"
    using rd(2) by (auto simp: n_def)
  have buf: "buf_put (replicate 263 0) 0 (take n d) = sbuf 263 d n" by (simp add: sbuf_def)
  have nth: "sbuf 263 d n ! 0 = d ! 0" "sbuf 263 d n ! Suc 0 = d ! Suc 0"
  proof -
    have "0 < n" "Suc 0 < n" using rd(3) unfolding n_def by linarith+
    then show "sbuf 263 d n ! 0 = d ! 0" "sbuf 263 d n ! Suc 0 = d ! Suc 0"
      using bs(3) by (simp_all add: socks_simps)
  qed
  have "if local_header_ok d then
         GetLocalRequest c = local_body (sbuf 263 d n) n (d ! 1 = 3) (c\<lparr>inq := r\<rparr>)
       else \<exists>q. fst (GetLocalRequest c) = Ret q \<and> lr_err q \<noteq> None"
    using rd(1) bs nth buf
    by (auto simp: GetLocalRequest_def local_header_ok_def lreq_fail_def Let_def)
  moreover have "5 \<le> n" using rd(3) by (simp add: n_def)
  moreover have "read_at_least 263 5 c = ((take n d, None), c\<lparr>inq := r\<rparr>)"
    using rd(1) unfolding bs(1) [symmetric] .
  ultimately show "\<exists>n r. 5 \<le> n \<and> n \<le> length d \<and>
      read_at_least 263 5 c = ((take n d, None), c\<lparr>inq := r\<rparr>) \<and> concat r = drop n d \<and>
      (if local_header_ok d then
         GetLocalRequest c = local_body (sbuf 263 d n) n (d ! 1 = 3) (c\<lparr>inq := r\<rparr>)
       else \<exists>q. fst (GetLocalRequest c) = Ret q \<and> lr_err q \<noteq> None)"
    using bs(2,3) by blast
qed

text \<open>
  The client's parser panics on exactly the requests that name a host (or carry a
  configuration) of 251 bytes or more: the byte addition \<open>idDm0+buf[idDmLen]\<close> wraps and the
  slice is inverted.  No other input panics.
\<close>

theorem GetLocalRequest_panics_iff:
  "fst (GetLocalRequest c) = Panic \<longleftrightarrow>
     (let d = concat (inq c) in
      5 \<le> length d \<and> local_header_ok d \<and> (d ! 3 = 3 \<or> d ! 3 = 5) \<and> 251 \<le> unat (d ! 4))"
proof -
  define d where "d = concat (inq c)"
  show ?thesis
  proof (cases "5 \<le> length d")
    case False
    with GetLocalRequest_start(1) [OF d_def] show ?thesis
      by (auto simp: d_def [symmetric] Let_def)
  next
    case True
    with GetLocalRequest_start(2) [OF d_def] obtain n r where n: "5 \<le> n" "n \<le> length d"
      "concat r = drop n d" and
      g: "if local_header_ok d then
         GetLocalRequest c = local_body (sbuf 263 d n) n (d ! 1 = 3) (c\<lparr>inq := r\<rparr>)
       else \<exists>q. fst (GetLocalRequest c) = Ret q \<and> lr_err q \<noteq> None" by blast
    show ?thesis
    proof (cases "local_header_ok d")
      case False
      with g show ?thesis by (auto simp: d_def [symmetric] Let_def)
    next
      case hdr: True
      have cat: "concat (inq (c\<lparr>inq := r\<rparr>)) = drop n d" using n by simp
      from local_body_cases [OF cat n(1,2) refl, of "d ! 1 = 3"] g hdr True
      have "fst (GetLocalRequest c) = Panic \<longleftrightarrow> local_panics d"
        by (auto split: option.splits if_splits)
      with hdr True show ?thesis by (simp add: d_def [symmetric] local_panics_def Let_def)
    qed
  qed
qed

text \<open>What a successful parse at the client says about the stream.\<close>

lemma GetLocalRequest_ok:
  assumes parse: "GetLocalRequest c = (Ret q, c')" "lr_err q = None" and d: "d = concat (inq c)"
  obtains j where "local_len d = Some j" "j \<le> length d" "local_header_ok d"
    "\<not> local_panics d" "lr_raw q = take j d" "lr_udp q = (d ! 1 = 3)"
    "lr_port q = itoa (get_u16 (slice d (j - 2) j))" "concat (inq c') = drop j d"
proof -
  have len: "5 \<le> length d" using GetLocalRequest_start(1) [OF d] parse by force
  with GetLocalRequest_start(2) [OF d] obtain n r where n: "5 \<le> n" "n \<le> length d"
      "concat r = drop n d" and
      g: "if local_header_ok d then
         GetLocalRequest c = local_body (sbuf 263 d n) n (d ! 1 = 3) (c\<lparr>inq := r\<rparr>)
       else \<exists>q. fst (GetLocalRequest c) = Ret q \<and> lr_err q \<noteq> None" by blast
  have hdr: "local_header_ok d" using g parse by (auto split: if_splits)
  have cat: "concat (inq (c\<lparr>inq := r\<rparr>)) = drop n d" using n by simp
  have body: "local_body (sbuf 263 d n) n (d ! 1 = 3) (c\<lparr>inq := r\<rparr>) = (Ret q, c')"
    using g hdr parse by simp
  from local_body_cases [OF cat n(1,2) body] hdr parse(2) that
  show thesis by (auto simp: lreq_fail_def split: option.splits if_splits)
qed

lemma local_server_agree:
  assumes client: "GetLocalRequest c = (Ret q, c')" "lr_err q = None"
    and kind: "lr_raw q ! 3 = 1 \<or> lr_raw q ! 3 = 3"
    and stream: "concat (inq s) = lr_raw q @ rest"
  shows "\<exists>s'. GetServerRequest s =
      (\<lparr>rq_host = join_host_port (server_host (lr_raw q)) (lr_port q), rq_raw = lr_raw q,
        rq_udp = lr_udp q, rq_err = None\<rparr>, s') \<and> concat (inq s') = rest"
proof -
  define d where "d = concat (inq c)"
  obtain j where j: "local_len d = Some j" "j \<le> length d" and hdr: "local_header_ok d"
    and np: "\<not> local_panics d" and raw: "lr_raw q = take j d" and udp: "lr_udp q = (d ! 1 = 3)"
    and port: "lr_port q = itoa (get_u16 (slice d (j - 2) j))"
    using GetLocalRequest_ok [OF client d_def] by blast
  note jb = local_len_bounds [OF j(1)]
  define e where "e = lr_raw q @ rest"
  have low: "i < j \<Longrightarrow> e ! i = d ! i" for i using j by (simp add: e_def raw nth_append)
  have nth: "e ! 0 = d ! 0" "e ! 1 = d ! 1" "e ! 3 = d ! 3" "e ! 4 = d ! 4"
    using jb by (simp_all add: low)
  have kind': "d ! 3 = 1 \<or> d ! 3 = 3" using kind jb j by (simp add: raw)
  have sl: "slice e a b = slice d a b" if "b \<le> j" for a b
    using that j by (simp add: e_def raw slice_append_left)
  have ty: "d ! 3 AND 0xf = d ! 3" using kind' by auto
  have len: "flat_len e = Some j"
    using kind' j jb nth ty by (auto simp: flat_len_def local_len_def e_def raw split: if_splits)
  have "server_host e = server_host (lr_raw q)"
    using kind' j nth ty raw jb sl
    by (auto simp: server_host_def local_len_def Let_def split: if_splits)
  moreover have "take j e = lr_raw q" "drop j e = rest" using j by (simp_all add: e_def raw)
  ultimately have "flat_request e =
      Some (\<lparr>rq_host = join_host_port (server_host (lr_raw q)) (lr_port q), rq_raw = lr_raw q,
        rq_udp = lr_udp q, rq_err = None\<rparr>, rest)"
    using len hdr nth j jb ty kind' port udp sl
    by (auto simp: flat_request_def local_header_ok_def flat_host_def e_def raw)
  with GetServerRequest_flat [of s] stream show ?thesis
    by (cases "GetServerRequest s") (simp add: e_def)
qed

text \<open>
  What the client accepts, the server understands: the bytes the client's parser returns for
  a request to an IPv4 address or a host name, sent on as they are, are parsed by the server
  into the same destination, the same port and the same command, and nothing after them is
  consumed.
\<close>

theorem local_request_relayed:
  assumes client: "GetLocalRequest c = (Ret q, c')" "lr_err q = None"
    and kind: "lr_raw q ! 3 = 1 \<or> lr_raw q ! 3 = 3"
    and stream: "concat (inq s) = lr_raw q @ rest"
  shows "\<exists>s'. GetServerRequest s =
      (\<lparr>rq_host = join_host_port (server_host (lr_raw q)) (lr_port q), rq_raw = lr_raw q,
        rq_udp = lr_udp q, rq_err = None\<rparr>, s') \<and> concat (inq s') = rest"
  by (rule local_server_agree [OF assms])

text \<open>
  The witness: a browser's \<open>CONNECT\<close> to 10.0.0.7 port 80, cut into two segments, and the
  bytes it forwards followed by one byte of payload.
\<close>

definition sample_request :: bytes where
  "sample_request = [5, 1, 0, 1, 10, 0, 0, 7, 0, 80]"

theorem local_request_relayed_witness:
  "\<exists>s'. GetServerRequest (conn_of [sample_request @ [42]] EOF) =
      (\<lparr>rq_host = join_host_port (server_host sample_request) (itoa 80),
        rq_raw = sample_request, rq_udp = False, rq_err = None\<rparr>, s') \<and> concat (inq s') = [42]"
proof -
  have client: "GetLocalRequest (conn_of [[5, 1, 0, 1, 10, 0], [0, 7, 0, 80]] EOF) =
      (Ret \<lparr>lr_raw = sample_request, lr_host = [], lr_port = itoa 80, lr_udp = False,
         lr_err = None\<rparr>, conn_of [] EOF)"
    by (simp add: GetLocalRequest_def read_at_least_def read_full_def local_body_def
        local_span_def buf_put_def slice_def get_u16_def sample_request_def conn_of_def Let_def)
  show ?thesis
    using local_request_relayed [OF client, of "conn_of [sample_request @ [42]] EOF" "[42]"]
    by (simp add: sample_request_def)
qed

text \<open>
  The name the client's parser reports is read from the buffer before the rest of the
  request has arrived: when the first segment ends after the length byte, the client decides
  about a host name made of NUL characters, although the bytes it forwards are right.
\<close>

theorem GetLocalRequest_fragmented_host:
  assumes len: "1 \<le> length host" "length host \<le> 250"
    and segs: "inq c = [take 5 (raw_request host port), drop 5 (raw_request host port)]"
  shows "fst (GetLocalRequest c) = Ret \<lparr>lr_raw = raw_request host port,
      lr_host = str_of (replicate (length host) 0), lr_port = itoa (port mod 65536),
      lr_udp = False, lr_err = None\<rparr>"
proof -
  define n where "n = length host"
  define d where "d = raw_request host port"
  have cat: "concat (inq c) = d" by (simp add: segs d_def)
  have nth: "d ! 0 = 5" "d ! Suc 0 = 1" "d ! 3 = 3" "unat (d ! 4) = n"
    using len by (simp_all add: d_def raw_request_nth unat_to_byte n_def)
  have long: "length d = n + 7" by (simp add: d_def n_def)
  have rd: "read_at_least 263 5 c = ((take 5 d, None), c\<lparr>inq := [drop 5 d]\<rparr>)"
    by (simp add: read_at_least_def segs d_def [symmetric] long)
  have buf: "buf_put (replicate 263 0) 0 (take 5 d) = sbuf 263 d 5" by (simp add: sbuf_def)
  have nth5: "sbuf 263 d 5 ! 0 = 5" "sbuf 263 d 5 ! Suc 0 = 1"
    using nth long by (simp_all add: socks_simps)
  have go: "GetLocalRequest c = local_body (sbuf 263 d 5) 5 False (c\<lparr>inq := [drop 5 d]\<rparr>)"
    using rd buf nth5 long by (simp add: GetLocalRequest_def Let_def)
  have zeros: "slice (sbuf 263 d 5) 5 (5 + n) = replicate n 0"
  proof -
    have "sbuf 263 d 5 = take 5 d @ replicate 258 0"
      using long by (simp add: sbuf_def buf_put_def)
    then have "slice (sbuf 263 d 5) 5 (5 + n) = slice (replicate 258 0) 0 n"
      using long by (simp add: slice_append_right)
    then show ?thesis using len by (simp add: n_def)
  qed
  have port: "get_u16 (slice d (n + 5) (n + 7)) = port mod 65536"
    by (simp only: d_def n_def slice_raw_port get_put_u16)
  have len': "local_len d = Some (n + 7)" "\<not> local_panics d"
    using nth len by (simp_all add: local_len_def local_panics_def n_def)
  have cat5: "concat (inq (c\<lparr>inq := [drop 5 d]\<rparr>)) = drop 5 d" by simp
  from local_body_cases [OF cat5 _ _ refl, of False] len' long nth zeros port len
  show ?thesis unfolding go by (auto simp: d_def n_def add.commute)
qed

theorem GetLocalRequest_fragmented_host_witness:
  "fst (GetLocalRequest (conn_of [take 5 (raw_request ''a.io'' 80), drop 5 (raw_request ''a.io'' 80)] EOF))
    = Ret \<lparr>lr_raw = raw_request ''a.io'' 80, lr_host = str_of (replicate (length ''a.io'') 0),
        lr_port = itoa (80 mod 65536), lr_udp = False, lr_err = None\<rparr>"
  by (rule GetLocalRequest_fragmented_host) simp_all

text \<open>
  The handshake answers exactly the greetings that are complete, carry version 4 or 5 and
  have nothing after their method list when the list is first seen: then it consumes the
  greeting, writes \<open>05 00\<close> once and returns no error (unless the write fails).  When it returns
  an error on a connection that can be written to, it has written nothing.
\<close>

theorem Socks5HandShake_spec:
  assumes h: "Socks5HandShake c = (e, c')" and can_write: "wleft c = None" "\<not> is_closed c"
  shows "case e of
      None \<Rightarrow> let d = concat (inq c); m = unat (d ! 1) + 2 in
        2 \<le> length d \<and> (d ! 0 = 5 \<or> d ! 0 = 4) \<and> m \<le> length d \<and>
        concat (inq c') = drop m d \<and> outq c' = outq c @ [[5, 0]]
    | Some _ \<Rightarrow> outq c' = outq c"
proof -
  define d where "d = concat (inq c)"
  obtain bs e1 c1 where r1: "read_at_least 258 2 c = ((bs, e1), c1)" by (metis surj_pair)
  note f1 = read_at_least_frame [OF r1]
  have d1: "bs @ concat (inq c1) = d" using f1 by (simp add: d_def)
  define buf where "buf = buf_put (replicate 258 0) 0 bs"
  define m where "m = unat (buf ! 1) + 2"
  show ?thesis
  proof (cases "e1 \<noteq> None \<or> (buf ! 0 \<noteq> 5 \<and> buf ! 0 \<noteq> 4) \<or> m < length bs")
    case True
    then have "e \<noteq> None" "outq c' = outq c"
      using h r1 f1 unfolding Socks5HandShake_def buf_def m_def
      by (auto simp: Let_def split: option.splits if_splits)
    then show ?thesis by auto
  next
    case False
    then have bs: "2 \<le> length bs" "length bs \<le> m" and ver: "buf ! 0 = 5 \<or> buf ! 0 = 4"
      using f1 by auto
    have nth: "buf ! 0 = d ! 0" "buf ! Suc 0 = d ! Suc 0"
    proof -
      have "0 < length bs" "Suc 0 < length bs" using bs by linarith+
      then show "buf ! 0 = d ! 0" "buf ! Suc 0 = d ! Suc 0"
        unfolding buf_def d1 [symmetric] by (simp_all only: nth_buf_put0 nth_append if_True)
    qed
    obtain bs2 e2 c2 where
      r2: "(if length bs = m then (([], None), c1) else read_full (m - length bs) c1)
        = ((bs2, e2), c2)" by (metis surj_pair)
    have f2: "bs2 @ concat (inq c2) = concat (inq c1)" "outq c2 = outq c1" "wleft c2 = wleft c1"
      "is_closed c2 = is_closed c1" "length bs2 \<le> m - length bs" "e2 = None \<Longrightarrow> m - length bs \<le> length bs2"
      using r2 read_full_frame [of "m - length bs" c1 bs2 e2 c2] by (auto split: if_splits)
    have run: "Socks5HandShake c = (case e2 of Some er \<Rightarrow> (Some er, c2) | None \<Rightarrow> conn_write [5, 0] c2)"
      using r1 r2 False bs ver unfolding Socks5HandShake_def buf_def m_def
      by (auto simp: Let_def split: if_splits option.splits)
    show ?thesis
    proof (cases e2)
      case (Some er)
      with run h f2 f1 show ?thesis by auto
    next
      case None
      then have w: "e = None" "c' = c2\<lparr>outq := outq c2 @ [[5, 0]]\<rparr>"
        using run h f1 f2 can_write by (auto simp: conn_write_def)
      have "length bs + length bs2 = m" using f2 None bs by simp
      moreover have "d = (bs @ bs2) @ concat (inq c2)" using d1 f2 by simp
      ultimately have "concat (inq c') = drop m d" "m \<le> length d"
        using w by (simp_all)
      moreover have "outq c' = outq c @ [[5, 0]]" using w f1 f2 by simp
      ultimately show ?thesis
        using w ver nth bs d1 unfolding d_def [symmetric] m_def by auto
    qed
  qed
qed

theorem Socks5HandShake_spec_witness:
  "outq (snd (Socks5HandShake (conn_of [[5], [1, 0]] EOF))) = [[5, 0]]"
proof -
  have h: "Socks5HandShake (conn_of [[5], [1, 0]] EOF) =
      (None, (conn_of [] EOF)\<lparr>outq := [[5, 0]]\<rparr>)"
    by (simp add: Socks5HandShake_def read_at_least_def conn_of_def conn_write_def buf_put_def
        Let_def)
  from Socks5HandShake_spec [OF h] show ?thesis by (simp add: h Let_def)
qed

end
