(* ===== verification/Stream_Budget.thy ===== *)
theory Stream_Budget
  imports Prelude
begin

text \<open>
  \<open>src/connections/base/global_limit.go\<close>: the process-wide budget of concurrent streams.  The
  first part states what a bounded pool of slots promises its users, as a locale; it is met by
  this budget and by the connection limit of \<open>Health_Metrics\<close>.  The second part models the
  budget's operations one after the other, the third one atomic access at a time, with any
  number of streams interleaved.
\<close>

subsection \<open>A pool of slots\<close>

datatype slot_op = Acquire | Release

text \<open>
  A run of acquisitions and releases by well-behaved users: a release is only ever made by a
  user that holds a slot.  The second component counts the slots given out.
\<close>

fun run_slots ::
  "('s \<Rightarrow> bool \<times> 's) \<Rightarrow> ('s \<Rightarrow> 's) \<Rightarrow> slot_op list \<Rightarrow> 's \<times> nat \<Rightarrow> 's \<times> nat" where
  "run_slots acq rel [] sn = sn"
| "run_slots acq rel (Acquire # ops) (s, n) =
     (case acq s of (ok, s') \<Rightarrow> run_slots acq rel ops (s', if ok then Suc n else n))"
| "run_slots acq rel (Release # ops) (s, n) =
     (case n of 0 \<Rightarrow> run_slots acq rel ops (s, n)
      | Suc m \<Rightarrow> run_slots acq rel ops (rel s, m))"

locale slot_pool =
  fixes acq :: "'s \<Rightarrow> bool \<times> 's" and rel :: "'s \<Rightarrow> 's" and held cap :: "'s \<Rightarrow> int"
  assumes acq_ok: "0 < cap s \<Longrightarrow> acq s = (True, s') \<Longrightarrow>
      held s' = held s + 1 \<and> held s' \<le> cap s \<and> cap s' = cap s"
    and acq_fail: "0 < cap s \<Longrightarrow> acq s = (False, s') \<Longrightarrow>
      held s' = held s \<and> cap s \<le> held s \<and> cap s' = cap s"
    and rel_held: "0 < cap s \<Longrightarrow> held (rel s) = held s - 1" and rel_cap: "cap (rel s) = cap s"
begin

lemma run_bounded:
  "0 < cap s \<Longrightarrow> held s = int n \<Longrightarrow> int n \<le> cap s \<Longrightarrow>
    run_slots acq rel ops (s, n) = (s', n') \<Longrightarrow>
    held s' = int n' \<and> int n' \<le> cap s' \<and> cap s' = cap s"
proof (induction ops arbitrary: s n)
  case Nil
  then show ?case by simp
next
  case (Cons op ops)
  show ?case
  proof (cases op)
    case Acquire
    obtain ok t where t: "acq s = (ok, t)" by fastforce
    have "held t = int (if ok then Suc n else n) \<and> int (if ok then Suc n else n) \<le> cap t
        \<and> cap t = cap s"
      using acq_ok [of s t] acq_fail [of s t] t Cons.prems by (cases ok) auto
    then show ?thesis
      using Cons.IH [of t "if ok then Suc n else n"] Cons.prems t Acquire by simp
  next
    case Release
    show ?thesis
    proof (cases n)
      case 0
      then show ?thesis using Cons.IH [of s n] Cons.prems Release by simp
    next
      case (Suc m)
      then show ?thesis
        using Cons.IH [of "rel s" m] Cons.prems Release by (simp add: rel_held rel_cap)
    qed
  qed
qed

text \<open>While fewer slots are out than the cap allows, an acquisition succeeds.\<close>

lemma acq_available:
  "0 < cap s \<Longrightarrow> held s < cap s \<Longrightarrow> fst (acq s)"
  using acq_fail [of s "snd (acq s)"] by (cases "acq s"; cases "fst (acq s)") auto

lemma acq_rel_balanced:
  "0 < cap s \<Longrightarrow> acq s = (True, s') \<Longrightarrow> held (rel s') = held s \<and> cap (rel s') = cap s"
  using acq_ok [of s s'] by (simp add: rel_held rel_cap)

end

subsection \<open>The global budget\<close>

record budget =
  sb_limit :: int
  sb_active :: int

definition SetGlobalStreamLimit :: "int \<Rightarrow> budget \<Rightarrow> budget" where
  "SetGlobalStreamLimit n b = b\<lparr>sb_limit := n\<rparr>"

definition GlobalActiveStreams :: "budget \<Rightarrow> int" where
  "GlobalActiveStreams b = sb_active b"

definition TryAcquireStream :: "budget \<Rightarrow> bool \<times> budget" where
  "TryAcquireStream b =
     (if sb_limit b \<le> 0 then (True, b)
      else
        let cur = sb_active b + 1; b' = b\<lparr>sb_active := cur\<rparr> in
        if sb_limit b' < cur then (False, b'\<lparr>sb_active := sb_active b' - 1\<rparr>) else (True, b'))"

definition ReleaseStream :: "budget \<Rightarrow> budget" where
  "ReleaseStream b = b\<lparr>sb_active := sb_active b - 1\<rparr>"

interpretation gb: slot_pool TryAcquireStream ReleaseStream sb_active sb_limit
  by unfold_locales
    (auto simp: TryAcquireStream_def ReleaseStream_def Let_def split: if_splits)

text \<open>
  With a positive limit, the counter of active streams is exact and never exceeds the
  limit, after any sequence of acquisitions (granted or refused) and releases by holders.
\<close>

theorem global_budget_bounded:
  assumes "0 < sb_limit b" "sb_active b = 0"
    and "run_slots TryAcquireStream ReleaseStream ops (b, 0) = (b', n)"
  shows "GlobalActiveStreams b' = int n \<and> int n \<le> sb_limit b"
  using gb.run_bounded [of b 0 ops b' n] assms by (simp add: GlobalActiveStreams_def)

theorem global_budget_bounded_witness:
  "GlobalActiveStreams (fst (run_slots TryAcquireStream ReleaseStream
     [Acquire, Acquire, Acquire, Release] (\<lparr>sb_limit = 2, sb_active = 0\<rparr>, 0))) = 1"
proof -
  have run: "run_slots TryAcquireStream ReleaseStream [Acquire, Acquire, Acquire, Release]
      (\<lparr>sb_limit = 2, sb_active = 0\<rparr>, 0) = (\<lparr>sb_limit = 2, sb_active = 1\<rparr>, 1)"
    by (simp add: TryAcquireStream_def ReleaseStream_def Let_def)
  from global_budget_bounded [OF _ _ run] have "GlobalActiveStreams \<lparr>sb_limit = 2, sb_active = 1\<rparr> = 1"
    by simp
  then show ?thesis by (simp only: run fst_conv)
qed

subsection \<open>Interleaved streams\<close>

text \<open>
  Every access to the two atomics is one step.  A stream is idle, has seen a positive limit
  (\<open>BSeen\<close>), has added itself and got \<open>cur\<close> back (\<open>BAdded\<close>), is about to take the increment
  back (\<open>BUndo\<close>), holds a counted slot (\<open>BHold\<close>) or runs uncounted because it saw no limit
  (\<open>BFree\<close>; it too decrements on release).
\<close>

datatype budget_pc = BIdle | BSeen | BAdded int | BUndo | BHold | BFree

record budget_sys =
  bs_budget :: budget
  bs_pcs :: "budget_pc list"

definition move :: "nat \<Rightarrow> budget_pc \<Rightarrow> budget_sys \<Rightarrow> budget_sys" where
  "move i pc s = s\<lparr>bs_pcs := (bs_pcs s)[i := pc]\<rparr>"

definition add_active :: "int \<Rightarrow> budget_sys \<Rightarrow> budget_sys" where
  "add_active k s = s\<lparr>bs_budget := (bs_budget s)\<lparr>sb_active := sb_active (bs_budget s) + k\<rparr>\<rparr>"

inductive budget_step :: "budget_sys \<Rightarrow> budget_sys \<Rightarrow> bool" where
  load_limited: "i < length (bs_pcs s) \<Longrightarrow> bs_pcs s ! i = BIdle \<Longrightarrow> 0 < sb_limit (bs_budget s) \<Longrightarrow>
    budget_step s (move i BSeen s)"
| load_unlimited: "i < length (bs_pcs s) \<Longrightarrow> bs_pcs s ! i = BIdle \<Longrightarrow> sb_limit (bs_budget s) \<le> 0 \<Longrightarrow>
    budget_step s (move i BFree s)"
| add: "i < length (bs_pcs s) \<Longrightarrow> bs_pcs s ! i = BSeen \<Longrightarrow>
    budget_step s (move i (BAdded (sb_active (bs_budget s) + 1)) (add_active 1 s))"
| admit: "i < length (bs_pcs s) \<Longrightarrow> bs_pcs s ! i = BAdded cur \<Longrightarrow> cur \<le> sb_limit (bs_budget s) \<Longrightarrow>
    budget_step s (move i BHold s)"
| refuse: "i < length (bs_pcs s) \<Longrightarrow> bs_pcs s ! i = BAdded cur \<Longrightarrow> sb_limit (bs_budget s) < cur \<Longrightarrow>
    budget_step s (move i BUndo s)"
| undo: "i < length (bs_pcs s) \<Longrightarrow> bs_pcs s ! i = BUndo \<Longrightarrow>
    budget_step s (move i BIdle (add_active (-1) s))"
| release: "i < length (bs_pcs s) \<Longrightarrow> bs_pcs s ! i = BHold \<or> bs_pcs s ! i = BFree \<Longrightarrow>
    budget_step s (move i BIdle (add_active (-1) s))"

definition budget_start :: "int \<Rightarrow> nat \<Rightarrow> budget_sys" where
  "budget_start limit n = \<lparr>bs_budget = \<lparr>sb_limit = limit, sb_active = 0\<rparr>,
     bs_pcs = replicate n BIdle\<rparr>"

inductive budget_reach :: "int \<Rightarrow> nat \<Rightarrow> budget_sys \<Rightarrow> bool" for limit n where
  start: "budget_reach limit n (budget_start limit n)"
| step: "budget_reach limit n s \<Longrightarrow> budget_step s t \<Longrightarrow> budget_reach limit n t"

fun counted :: "budget_pc \<Rightarrow> bool" where
  "counted (BAdded _) = True"
| "counted BUndo = True"
| "counted BHold = True"
| "counted _ = False"

text \<open>A stream that holds a slot or is sure to be admitted.\<close>

fun entitled :: "int \<Rightarrow> budget_pc \<Rightarrow> bool" where
  "entitled l (BAdded cur) = (cur \<le> l)"
| "entitled l BHold = True"
| "entitled l _ = False"

definition budget_inv :: "int \<Rightarrow> budget_sys \<Rightarrow> bool" where
  "budget_inv limit s \<longleftrightarrow> sb_limit (bs_budget s) = limit \<and>
     sb_active (bs_budget s) = cnt counted (bs_pcs s) \<and>
     cnt (entitled limit) (bs_pcs s) \<le> limit \<and> BFree \<notin> set (bs_pcs s)"

lemma entitled_counted: "entitled l pc \<Longrightarrow> counted pc"
  by (cases pc) auto

lemmas budget_sys_defs = move_def add_active_def

lemma budget_inv_start: "0 < limit \<Longrightarrow> budget_inv limit (budget_start limit n)"
  by (simp add: budget_inv_def budget_start_def cnt_replicate)

lemma budget_step_inv:
  assumes "budget_step s t" "budget_inv limit s" "0 < limit"
  shows "budget_inv limit t"
  using assms
proof (induction rule: budget_step.induct)
  case (add i s)
  have le: "cnt (entitled limit) (bs_pcs s) \<le> cnt counted (bs_pcs s)"
    by (rule cnt_mono) (rule entitled_counted)
  with add show ?case
    using set_update_subset_insert [of "bs_pcs s" i]
    by (auto simp: budget_inv_def budget_sys_defs cnt_update)
next
  case (release i s)
  then have "bs_pcs s ! i = BHold" unfolding budget_inv_def by (metis nth_mem)
  with release show ?case
    using set_update_subset_insert [of "bs_pcs s" i]
    by (auto simp: budget_inv_def budget_sys_defs cnt_update)
next
  case (load_limited i s)
  then show ?case using set_update_subset_insert [of "bs_pcs s" i]
    by (auto simp: budget_inv_def budget_sys_defs cnt_update)
next
  case (load_unlimited i s)
  then show ?case by (auto simp: budget_inv_def)
next
  case (admit i s cur)
  then show ?case using set_update_subset_insert [of "bs_pcs s" i]
    by (auto simp: budget_inv_def budget_sys_defs cnt_update)
next
  case (refuse i s cur)
  then show ?case using set_update_subset_insert [of "bs_pcs s" i]
    by (auto simp: budget_inv_def budget_sys_defs cnt_update)
next
  case (undo i s)
  then show ?case using set_update_subset_insert [of "bs_pcs s" i]
    by (auto simp: budget_inv_def budget_sys_defs cnt_update)
qed

lemma budget_reach_inv: "budget_reach limit n s \<Longrightarrow> 0 < limit \<Longrightarrow> budget_inv limit s"
  by (induction rule: budget_reach.induct) (auto intro: budget_inv_start budget_step_inv)

text \<open>
  C27. However the atomic steps of any number of streams interleave, at most \<open>limit\<close> of them
  hold a slot of the global budget at a time: adding first and checking afterwards is safe.
\<close>

theorem global_budget_interleaved:
  assumes "budget_reach limit n s" "0 < limit"
  shows "cnt (\<lambda>pc. pc = BHold) (bs_pcs s) \<le> limit"
proof -
  have "cnt (\<lambda>pc. pc = BHold) (bs_pcs s) \<le> cnt (entitled limit) (bs_pcs s)"
    by (rule cnt_mono) simp
  with budget_reach_inv [OF assms] show ?thesis by (simp add: budget_inv_def)
qed

theorem global_budget_interleaved_witness:
  "\<exists>s. budget_reach 1 2 s \<and> bs_pcs s = [BHold, BIdle] \<and>
     cnt (\<lambda>pc. pc = BHold) (bs_pcs s) \<le> 1"
proof -
  define s1 where "s1 = move 0 BSeen (budget_start 1 2)"
  define s2 where "s2 = move 0 (BAdded (sb_active (bs_budget s1) + 1)) (add_active 1 s1)"
  define s3 where "s3 = move 0 BHold s2"
  note defs = s1_def s2_def s3_def budget_start_def budget_sys_defs
  have "budget_reach 1 2 s1" unfolding s1_def
    by (rule budget_reach.step [OF budget_reach.start budget_step.load_limited])
      (simp_all add: budget_start_def numeral_2_eq_2)
  then have "budget_reach 1 2 s2" unfolding s2_def
    by (rule budget_reach.step) (rule budget_step.add; simp add: s1_def budget_start_def
        budget_sys_defs numeral_2_eq_2)
  then have r: "budget_reach 1 2 s3" unfolding s3_def
    by (rule budget_reach.step) (rule budget_step.admit [where cur = 1]; simp add: s2_def s1_def
        budget_start_def budget_sys_defs numeral_2_eq_2)
  have "bs_pcs s3 = [BHold, BIdle]" by (simp add: defs numeral_2_eq_2)
  with r global_budget_interleaved [OF r] show ?thesis by auto
qed

end
