(* ===== verification/Health_Metrics.thy ===== *)
theory Health_Metrics
  imports Stream_Budget
begin

text \<open>
  \<open>src/connections/base/health_metrics.go\<close>: the per-tunnel counters, the connection limit and
  the score by which a tunnel is selected.  A \<open>*HealthMetrics\<close> is an option (every method has a
  nil-receiver case); the atomics are integers (they count live connections and bytes, and never
  come near their width); a float64 is the exact rational number it stands for.
\<close>

record health =
  totalConnections :: int
  activeConnections :: int
  failedConnections :: int
  bytesTransferred :: int
  lastHealthCheck :: int
  totalLatency :: int
  latencySamples :: int
  maxConn :: int
  isPaused :: bool

definition NewHealthMetrics :: "int \<Rightarrow> int \<Rightarrow> health" where
  "NewHealthMetrics maxConnections now =
     \<lparr>totalConnections = 0, activeConnections = 0, failedConnections = 0, bytesTransferred = 0,
      lastHealthCheck = now, totalLatency = 0, latencySamples = 0, maxConn = maxConnections,
      isPaused = False\<rparr>"

fun RecordConnection :: "health option \<Rightarrow> bool \<times> health option" where
  "RecordConnection None = (True, None)"
| "RecordConnection (Some hm) =
     (if 0 < maxConn hm \<and> maxConn hm \<le> activeConnections hm
      then (False, Some (hm\<lparr>isPaused := True\<rparr>))
      else (True, Some (hm\<lparr>totalConnections := totalConnections hm + 1,
                          activeConnections := activeConnections hm + 1, isPaused := False\<rparr>)))"

fun ReleaseConnection :: "health option \<Rightarrow> health option" where
  "ReleaseConnection None = None"
| "ReleaseConnection (Some hm) = Some (hm\<lparr>activeConnections := activeConnections hm - 1\<rparr>)"

fun RecordFailure :: "health option \<Rightarrow> health option" where
  "RecordFailure None = None"
| "RecordFailure (Some hm) = Some (hm\<lparr>failedConnections := failedConnections hm + 1\<rparr>)"

fun RecordBytes :: "int \<Rightarrow> health option \<Rightarrow> health option" where
  "RecordBytes n None = None"
| "RecordBytes n (Some hm) = Some (hm\<lparr>bytesTransferred := bytesTransferred hm + n\<rparr>)"

fun RecordLatency :: "int \<Rightarrow> health option \<Rightarrow> health option" where
  "RecordLatency latency None = None"
| "RecordLatency latency (Some hm) =
     Some (hm\<lparr>totalLatency := totalLatency hm + latency, latencySamples := latencySamples hm + 1\<rparr>)"

text \<open>Go's integer division truncates towards zero.\<close>

definition go_div :: "int \<Rightarrow> int \<Rightarrow> int" where
  "go_div a b = sgn a * sgn b * (abs a div abs b)"

fun GetStats :: "health option \<Rightarrow> int \<times> int \<times> int \<times> int \<times> int" where
  "GetStats None = (0, 0, 0, 0, 0)"
| "GetStats (Some hm) =
     (totalConnections hm, activeConnections hm, failedConnections hm, bytesTransferred hm,
      if 0 < latencySamples hm then go_div (totalLatency hm) (latencySamples hm) else 0)"

fun GetErrorRate :: "health option \<Rightarrow> rat" where
  "GetErrorRate None = 0"
| "GetErrorRate (Some hm) =
     (if totalConnections hm = 0 then 0
      else of_int (failedConnections hm) / of_int (totalConnections hm))"

fun GetActiveCount :: "health option \<Rightarrow> int" where
  "GetActiveCount None = 0"
| "GetActiveCount (Some hm) = activeConnections hm"

fun IsHealthy :: "health option \<Rightarrow> bool" where
  "IsHealthy None = True"
| "IsHealthy (Some hm) = (if isPaused hm then False else GetErrorRate (Some hm) < 1 / 2)"

fun GetLoadFactor :: "health option \<Rightarrow> rat" where
  "GetLoadFactor None = 0"
| "GetLoadFactor (Some hm) =
     (if maxConn hm \<le> 0 then 0 else of_int (activeConnections hm) / of_int (maxConn hm))"

fun SetMaxConnections :: "int \<Rightarrow> health option \<Rightarrow> health option" where
  "SetMaxConnections m None = None"
| "SetMaxConnections m (Some hm) = Some (hm\<lparr>maxConn := m\<rparr>)"

fun GetMaxConnections :: "health option \<Rightarrow> int" where
  "GetMaxConnections None = 0"
| "GetMaxConnections (Some hm) = maxConn hm"

fun AcceptsNewConnections :: "health option \<Rightarrow> bool" where
  "AcceptsNewConnections None = True"
| "AcceptsNewConnections (Some hm) =
     (if maxConn hm \<le> 0 then True else activeConnections hm < maxConn hm)"

definition CalculateScore :: "health option \<Rightarrow> rat" where
  "CalculateScore hm = (case hm of None \<Rightarrow> 1 / 2 | Some _ \<Rightarrow>
     (let errorScore = (1 - GetErrorRate hm) * (4 / 10);
          loadScore = (1 - GetLoadFactor hm) * (3 / 10);
          capacityScore = (if AcceptsNewConnections hm \<and> IsHealthy hm then 3 / 10 else 0)
      in errorScore + loadScore + capacityScore))"

subsection \<open>The connection limit\<close>

interpretation hp: slot_pool RecordConnection ReleaseConnection GetActiveCount GetMaxConnections
proof unfold_locales
  show "GetActiveCount s' = GetActiveCount s + 1 \<and> GetActiveCount s' \<le> GetMaxConnections s \<and>
      GetMaxConnections s' = GetMaxConnections s"
    if "0 < GetMaxConnections s" "RecordConnection s = (True, s')" for s s'
    using that by (cases s) (auto split: if_splits)
  show "GetActiveCount s' = GetActiveCount s \<and> GetMaxConnections s \<le> GetActiveCount s \<and>
      GetMaxConnections s' = GetMaxConnections s"
    if "0 < GetMaxConnections s" "RecordConnection s = (False, s')" for s s'
    using that by (cases s) (auto split: if_splits)
  show "GetActiveCount (ReleaseConnection s) = GetActiveCount s - 1"
    if "0 < GetMaxConnections s" for s
    using that by (cases s) auto
  show "GetMaxConnections (ReleaseConnection s) = GetMaxConnections s" for s
    by (cases s) auto
qed

text \<open>
  Used one connection at a time, a tunnel with a positive limit counts its active
  connections exactly and never has more of them than the limit.
\<close>

theorem connection_limit_kept:
  assumes "0 < m" "run_slots RecordConnection ReleaseConnection ops
      (Some (NewHealthMetrics m now), 0) = (hm, n)"
  shows "GetActiveCount hm = int n \<and> int n \<le> m \<and> (int n < m \<longleftrightarrow> AcceptsNewConnections hm)"
proof -
  have "GetActiveCount hm = int n \<and> int n \<le> GetMaxConnections hm \<and> GetMaxConnections hm = m"
    using hp.run_bounded [OF _ _ _ assms(2)] assms(1) by (simp add: NewHealthMetrics_def)
  then show ?thesis using assms(1) by (cases hm) auto
qed

theorem connection_limit_kept_witness:
  "GetActiveCount (fst (run_slots RecordConnection ReleaseConnection [Acquire, Acquire, Acquire]
     (Some (NewHealthMetrics 2 0), 0))) = 2"
proof -
  obtain hm n where run: "run_slots RecordConnection ReleaseConnection [Acquire, Acquire, Acquire]
      (Some (NewHealthMetrics 2 0), 0) = (hm, n)" by fastforce
  then have "n = 2" by (auto simp: NewHealthMetrics_def)
  with connection_limit_kept [OF _ run] show ?thesis by (simp only: run fst_conv)
qed

subsection \<open>The score\<close>

text \<open>
  What connection handling keeps of the counters: a failure is only recorded for a counted
  connection, and the active connections stay within the limit.
\<close>

fun health_ok :: "health option \<Rightarrow> bool" where
  "health_ok None = True"
| "health_ok (Some hm) \<longleftrightarrow> 0 \<le> failedConnections hm \<and> failedConnections hm \<le> totalConnections hm \<and>
     0 \<le> activeConnections hm \<and> (0 < maxConn hm \<longrightarrow> activeConnections hm \<le> maxConn hm)"

lemma error_rate_unit: "health_ok hm \<Longrightarrow> 0 \<le> GetErrorRate hm \<and> GetErrorRate hm \<le> 1"
  by (cases hm) (auto simp: divide_le_eq_1)

lemma load_factor_unit: "health_ok hm \<Longrightarrow> 0 \<le> GetLoadFactor hm \<and> GetLoadFactor hm \<le> 1"
  by (cases hm) (auto simp: divide_le_eq_1)

lemma score_nonneg: "health_ok hm \<Longrightarrow> 0 \<le> CalculateScore hm"
  using error_rate_unit [of hm] load_factor_unit [of hm] unfolding CalculateScore_def
  by (cases hm) (simp_all add: Let_def del: GetErrorRate.simps GetLoadFactor.simps health_ok.simps)

lemma health_ok_ops:
  "health_ok hm \<Longrightarrow> health_ok (snd (RecordConnection hm))"
  "health_ok hm \<Longrightarrow> health_ok (RecordBytes k hm)"
  "health_ok hm \<Longrightarrow> health_ok (RecordLatency k hm)"
  "health_ok hm \<Longrightarrow> 0 < GetActiveCount hm \<Longrightarrow> health_ok (ReleaseConnection hm)"
  by (cases hm; auto)+

text \<open>
  With consistent counters the score lies in the documented range 0 to 1, a tunnel at its
  limit scores at most 0.4, and a healthy tunnel with capacity left scores above 0.5: selection
  by score never prefers a full tunnel to a healthy one.
\<close>

theorem score_separates:
  assumes "health_ok hm"
  shows "0 \<le> CalculateScore hm \<and> CalculateScore hm \<le> 1 \<and>
    (\<not> AcceptsNewConnections hm \<longrightarrow> CalculateScore hm \<le> 2 / 5) \<and>
    (hm \<noteq> None \<and> AcceptsNewConnections hm \<and> IsHealthy hm \<longrightarrow> 1 / 2 < CalculateScore hm)"
proof (cases hm)
  case None
  then show ?thesis by (simp add: CalculateScore_def)
next
  case (Some h)
  have e: "0 \<le> GetErrorRate hm" "GetErrorRate hm \<le> 1" using error_rate_unit [OF assms] by auto
  have l: "0 \<le> GetLoadFactor hm" "GetLoadFactor hm \<le> 1" using load_factor_unit [OF assms] by auto
  have full: "GetLoadFactor hm = 1" if "\<not> AcceptsNewConnections hm"
    using that assms Some by (auto split: if_splits)
  have well: "GetErrorRate hm < 1 / 2" if "IsHealthy hm"
    using that Some by (auto simp del: GetErrorRate.simps split: if_splits)
  show ?thesis
    unfolding CalculateScore_def Some option.case Let_def
    using e l full well unfolding Some
    by (auto simp del: GetErrorRate.simps GetLoadFactor.simps AcceptsNewConnections.simps
        IsHealthy.simps simp: field_simps)
qed

theorem score_separates_witness:
  "CalculateScore (Some (NewHealthMetrics 2 0\<lparr>totalConnections := 2, activeConnections := 2\<rparr>))
     \<le> 2 / 5"
  using score_separates [of "Some (NewHealthMetrics 2 0\<lparr>totalConnections := 2,
      activeConnections := 2\<rparr>)"] by (simp add: NewHealthMetrics_def)

subsection \<open>Connections admitted concurrently\<close>

text \<open>
  \<open>RecordConnection\<close> reads the counter and adds to it in two atomic steps, with no lock around
  them.  A connection is idle, has passed the check (\<open>HSeen\<close>) or is counted (\<open>HHeld\<close>).
\<close>

datatype health_pc = HIdle | HSeen | HHeld

inductive health_step :: "health \<times> health_pc list \<Rightarrow> health \<times> health_pc list \<Rightarrow> bool" where
  check: "i < length pcs \<Longrightarrow> pcs ! i = HIdle \<Longrightarrow> \<not> (0 < maxConn h \<and> maxConn h \<le> activeConnections h) \<Longrightarrow>
    health_step (h, pcs) (h, pcs[i := HSeen])"
| reject: "i < length pcs \<Longrightarrow> pcs ! i = HIdle \<Longrightarrow> 0 < maxConn h \<Longrightarrow> maxConn h \<le> activeConnections h \<Longrightarrow>
    health_step (h, pcs) (h\<lparr>isPaused := True\<rparr>, pcs)"
| count: "i < length pcs \<Longrightarrow> pcs ! i = HSeen \<Longrightarrow>
    health_step (h, pcs) (h\<lparr>totalConnections := totalConnections h + 1,
      activeConnections := activeConnections h + 1, isPaused := False\<rparr>, pcs[i := HHeld])"
| leave: "i < length pcs \<Longrightarrow> pcs ! i = HHeld \<Longrightarrow>
    health_step (h, pcs) (h\<lparr>activeConnections := activeConnections h - 1\<rparr>, pcs[i := HIdle])"

inductive health_reach :: "int \<Rightarrow> nat \<Rightarrow> health \<times> health_pc list \<Rightarrow> bool" for m n where
  start: "health_reach m n (NewHealthMetrics m 0, replicate n HIdle)"
| step: "health_reach m n s \<Longrightarrow> health_step s t \<Longrightarrow> health_reach m n t"

lemma all_pass_check:
  "0 < m \<Longrightarrow> k \<le> n \<Longrightarrow>
    health_reach m n (NewHealthMetrics m 0, replicate k HSeen @ replicate (n - k) HIdle)"
proof (induction k)
  case 0
  then show ?case using health_reach.start by simp
next
  case (Suc k)
  let ?pcs = "replicate k HSeen @ replicate (n - k) HIdle"
  have upd: "?pcs[k := HSeen] = replicate (Suc k) HSeen @ replicate (n - Suc k) HIdle"
    using Suc.prems by (intro replicate_advance) simp
  have "health_step (NewHealthMetrics m 0, ?pcs) (NewHealthMetrics m 0, ?pcs[k := HSeen])"
    using Suc.prems by (intro health_step.check) (auto simp: NewHealthMetrics_def nth_append)
  with Suc show ?case unfolding upd by (auto intro: health_reach.step)
qed

lemma all_count:
  "0 < m \<Longrightarrow> k \<le> n \<Longrightarrow>
    \<exists>h. activeConnections h = int k \<and> maxConn h = m \<and>
      health_reach m n (h, replicate k HHeld @ replicate (n - k) HSeen)"
proof (induction k)
  case 0
  then show ?case using all_pass_check [of m n n]
    by (intro exI [of _ "NewHealthMetrics m 0"]) (simp add: NewHealthMetrics_def)
next
  case (Suc k)
  then obtain h where h: "activeConnections h = int k" "maxConn h = m"
    "health_reach m n (h, replicate k HHeld @ replicate (n - k) HSeen)" by auto
  let ?pcs = "replicate k HHeld @ replicate (n - k) HSeen"
  let ?h = "h\<lparr>totalConnections := totalConnections h + 1,
      activeConnections := activeConnections h + 1, isPaused := False\<rparr>"
  have upd: "?pcs[k := HHeld] = replicate (Suc k) HHeld @ replicate (n - Suc k) HSeen"
    using Suc.prems by (intro replicate_advance) simp
  have "health_step (h, ?pcs) (?h, ?pcs[k := HHeld])"
    using Suc.prems by (intro health_step.count) (auto simp: nth_append)
  with h(3) have "health_reach m n (?h, replicate (Suc k) HHeld @ replicate (n - Suc k) HSeen)"
    unfolding upd by (auto intro: health_reach.step)
  then show ?case using h by (intro exI [of _ ?h]) auto
qed

text \<open>
  Run concurrently, the limit is not kept: as many connections as arrive together are all
  admitted, however small the (positive) limit, because each is checked before any is counted.
\<close>

theorem connection_limit_race:
  assumes "0 < m"
  shows "\<exists>h. health_reach m n (h, replicate n HHeld) \<and> activeConnections h = int n \<and> maxConn h = m"
  using all_count [OF assms, of n n] by auto

theorem connection_limit_race_witness:
  "\<exists>h. health_reach 1 1000 (h, replicate 1000 HHeld) \<and> activeConnections h = 1000 \<and> maxConn h = 1"
  using connection_limit_race [of 1 1000] by simp

end
