(* ===== verification/Port_Pool.thy ===== *)
theory Port_Pool
  imports Gs_Lib
begin

text \<open>
  The port pool of \<open>src/connections/base/base.go\<close>: the set of used ports, \<open>GiveAPort\<close> and
  \<open>ReleasePort\<close>, and the firewall rules that follow them.  Whether \<open>net.Listen\<close> succeeds on a
  port is the state of the machine, a parameter; the commands given to \<open>ufw\<close> are kept in a log.
  The keys of \<open>LISTENER_USED_PORTS\<close> are what counts (every stored value is true).
\<close>

subsection \<open>State and firewall commands\<close>

datatype ufw_cmd = UfwAllow int | UfwDelete int

record ports =
  used_ports :: "int set"
  ufw_log :: "ufw_cmd list"

definition OpenPortUFW :: "string \<Rightarrow> int \<Rightarrow> ports \<Rightarrow> ports" where
  "OpenPortUFW goos port st =
     (if goos = ''linux'' then st\<lparr>ufw_log := ufw_log st @ [UfwAllow port]\<rparr> else st)"

definition ClosePortUFW :: "string \<Rightarrow> int \<Rightarrow> ports \<Rightarrow> ports" where
  "ClosePortUFW goos port st =
     (if port \<in> {22, 55443, 60053, 60001} then st
      else if goos = ''linux'' then st\<lparr>ufw_log := ufw_log st @ [UfwDelete port]\<rparr> else st)"

text \<open>The lines of \<open>ufw status | grep ALLOW\<close>, filtered and joined.\<close>

definition ufw_kept :: "string \<Rightarrow> bool" where
  "ufw_kept p \<longleftrightarrow> p \<in> {''22'', ''55443'', ''60053'', ''22/tcp'', ''55443/tcp'', ''60053/tcp'',
     ''22/udp'', ''55443/udp'', ''60053/udp'', ''60001/udp''}"

fun ufw_lines :: "gslib \<Rightarrow> string list \<Rightarrow> string" where
  "ufw_lines G [] = []"
| "ufw_lines G (line # ls) =
     (case gs_SplitSpace G line of
        [] \<Rightarrow> ufw_lines G ls
      | p # _ \<Rightarrow> if ufw_kept (gs_Trim G p) then ufw_lines G ls
               else gs_Trim G p @ [CHR 0x0A] @ ufw_lines G ls)"

definition GetUFW :: "gslib \<Rightarrow> string list \<Rightarrow> string" where
  "GetUFW G status = gs_Trim G (ufw_lines G status)"

fun close_entries :: "gslib \<Rightarrow> string \<Rightarrow> string list \<Rightarrow> ports \<Rightarrow> ports go" where
  "close_entries G goos [] st = Ret st"
| "close_entries G goos (i # es) st =
     (if \<not> gs_In G i ''/'' \<or> gs_In G i ''22'' then close_entries G goos es st
      else case gs_Split G i ''/'' of
        [] \<Rightarrow> Panic
      | p # _ \<Rightarrow> (case atoi p of (ii, err) \<Rightarrow>
          close_entries G goos es (if err then st else ClosePortUFW goos ii st)))"

definition CloseALLPortUFW :: "gslib \<Rightarrow> string \<Rightarrow> string list \<Rightarrow> ports \<Rightarrow> ports go" where
  "CloseALLPortUFW G goos status st =
     close_entries G goos (gs_Split G (GetUFW G status) [CHR 0x0A]) st"

text \<open>\<open>InitUsedPORT\<close>: the ports found in the address column of \<open>lsof -i\<close>.\<close>

definition lsof_port :: "gslib \<Rightarrow> string \<Rightarrow> int option go" where
  "lsof_port G line =
     (let fr = (if gs_In G line ''->'' then (case gs_Split G line ''->'' of [] \<Rightarrow> Panic | f # _ \<Rightarrow> Ret f)
                else Ret (gs_Trim G line)) in
      go_bind fr (\<lambda>fr.
        if \<not> gs_In G fr '':'' then Ret None
        else case gs_Split G fr '':'' of
          _ # p # _ \<Rightarrow> (case atoi p of (n, er) \<Rightarrow> Ret (if er then None else Some n))
        | _ \<Rightarrow> Panic))"

fun InitUsedPORT :: "gslib \<Rightarrow> string list \<Rightarrow> ports \<Rightarrow> ports go" where
  "InitUsedPORT G [] st = Ret st"
| "InitUsedPORT G (l # ls) st =
     go_bind (lsof_port G l) (\<lambda>r. InitUsedPORT G ls
       (case r of None \<Rightarrow> st | Some p \<Rightarrow> st\<lparr>used_ports := insert p (used_ports st)\<rparr>))"

subsection \<open>Handing out and releasing\<close>

text \<open>
  The search loop from \<open>start_port\<close> up to 60000: an unused port that cannot be listened on is
  marked used and skipped.
\<close>

function give_loop :: "(int \<Rightarrow> bool) \<Rightarrow> int \<Rightarrow> int set \<Rightarrow> int \<times> int set" where
  "give_loop listens start_port used =
     (if 60000 \<le> start_port then (-1, used)
      else if start_port \<in> used then give_loop listens (start_port + 1) used
      else if listens start_port then (start_port, used)
      else give_loop listens (start_port + 1) (insert start_port used))"
  by auto
termination by (relation "measure (\<lambda>(l, p, u). nat (60000 - p))") auto

declare give_loop.simps [simp del]

definition GiveAPort :: "string \<Rightarrow> (int \<Rightarrow> bool) \<Rightarrow> ports \<Rightarrow> int \<times> ports" where
  "GiveAPort goos listens st =
     (case give_loop listens 20000 (used_ports st) of (used_port, used) \<Rightarrow>
       if used_port \<noteq> -1
       then (used_port, OpenPortUFW goos used_port (st\<lparr>used_ports := insert used_port used\<rparr>))
       else (-1, st\<lparr>used_ports := used\<rparr>))"

definition ReleasePort :: "int \<Rightarrow> ports \<Rightarrow> ports" where
  "ReleasePort port st = (if port \<le> 0 then st else st\<lparr>used_ports := used_ports st - {port}\<rparr>)"

text \<open>What the search finds: the first free port, having marked those it could not listen on.\<close>

definition free_port :: "(int \<Rightarrow> bool) \<Rightarrow> int set \<Rightarrow> int \<Rightarrow> bool" where
  "free_port listens used p \<longleftrightarrow> 20000 \<le> p \<and> p < 60000 \<and> p \<notin> used \<and> listens p"

lemma give_loop_spec:
  "20000 \<le> s \<Longrightarrow> give_loop listens s used = (p, used') \<Longrightarrow>
    (p = -1 \<and> (\<forall>q\<ge>s. \<not> free_port listens used q) \<and> used' = used \<union> {s..<60000} \<or>
     s \<le> p \<and> free_port listens used p \<and> (\<forall>q\<ge>s. q < p \<longrightarrow> \<not> free_port listens used q) \<and>
     used' = used \<union> {s..<p})"
proof (induction listens s used arbitrary: used' rule: give_loop.induct)
  case (1 listens s used)
  consider "60000 \<le> s" | "s < 60000" "s \<in> used" | "s < 60000" "s \<notin> used" "listens s"
    | "s < 60000" "s \<notin> used" "\<not> listens s" by linarith
  then show ?case
  proof cases
    case 1
    with "1.prems" show ?thesis by (auto simp: give_loop.simps [of listens s] free_port_def)
  next
    case 2
    have split: "q = s \<or> s + 1 \<le> q" if "s \<le> q" for q using that by linarith
    have up: "used \<union> {s + 1..<p} = used \<union> {s..<p}" "used \<union> {s + 1..<60000} = used \<union> {s..<60000}"
    proof -
      have "{s..<q} \<subseteq> insert s {s + 1..<q}" "{s + 1..<q} \<subseteq> {s..<q}" for q by auto
      with 2 show "used \<union> {s + 1..<p} = used \<union> {s..<p}" "used \<union> {s + 1..<60000} = used \<union> {s..<60000}"
        by blast+
    qed
    have "give_loop listens (s + 1) used = (p, used')"
      using "1.prems"(2) 2 by (simp add: give_loop.simps [of listens s])
    from "1.IH"(1) [OF _ _ _ this] 2 "1.prems"(1) show ?thesis
      unfolding up using split by (auto simp: free_port_def)
  next
    case 3
    with "1.prems" show ?thesis by (auto simp: give_loop.simps [of listens s] free_port_def)
  next
    case 4
    have split: "q = s \<or> s + 1 \<le> q" if "s \<le> q" for q using that by linarith
    have up: "insert s used \<union> {s + 1..<p} = used \<union> {s..<p}" if "s < p"
      using that by auto
    have up': "insert s used \<union> {s + 1..<60000} = used \<union> {s..<60000}" using 4 by auto
    have fp: "free_port listens (insert s used) q = free_port listens used q" for q
      using 4 by (auto simp: free_port_def)
    have "give_loop listens (s + 1) (insert s used) = (p, used')"
      using "1.prems"(2) 4 by (simp add: give_loop.simps [of listens s])
    from "1.IH"(2) [OF _ _ _ _ this] 4 "1.prems"(1)
    have "p = -1 \<and> (\<forall>q\<ge>s + 1. \<not> free_port listens used q) \<and> used' = used \<union> {s..<60000} \<or>
      s + 1 \<le> p \<and> free_port listens used p \<and> (\<forall>q\<ge>s + 1. q < p \<longrightarrow> \<not> free_port listens used q) \<and>
      used' = insert s used \<union> {s + 1..<p}"
      unfolding fp up' by simp
    moreover have "\<not> free_port listens used s" using 4 by (simp add: free_port_def)
    ultimately show ?thesis using split up by (smt (verit))
  qed
qed

lemma used_OpenPortUFW [simp]: "used_ports (OpenPortUFW goos p st) = used_ports st"
  by (simp add: OpenPortUFW_def)

lemma GiveAPort_cases:
  assumes "GiveAPort goos listens st = (p, st')"
  shows "(p = -1 \<and> (\<forall>q. \<not> free_port listens (used_ports st) q) \<and>
      used_ports st' = used_ports st \<union> {20000..<60000}) \<or>
    (free_port listens (used_ports st) p \<and> (\<forall>q<p. \<not> free_port listens (used_ports st) q) \<and>
      used_ports st' = used_ports st \<union> {20000..p})"
proof -
  obtain p0 u where g: "give_loop listens 20000 (used_ports st) = (p0, u)" by fastforce
  have low: "\<not> free_port listens (used_ports st) q" if "q < 20000" for q
    using that by (simp add: free_port_def)
  have p: "p = p0" "used_ports st' = (if p0 \<noteq> -1 then insert p0 u else u)"
    using assms g by (auto simp: GiveAPort_def split: if_splits)
  have cl: "insert p (X \<union> {20000..<p}) = X \<union> {20000..p}" if "20000 \<le> p" for X using that by auto
  from give_loop_spec [OF _ g] low show ?thesis
    unfolding p(2) p(1) [symmetric] using cl by (smt (verit) free_port_def)
qed

text \<open>
  \<open>GiveAPort\<close> hands out the lowest port of 20000..59999 that is unused and can be listened
  on, -1 exactly when there is none, and marks the port and every port below it as used.
\<close>

theorem GiveAPort_lowest:
  assumes "GiveAPort goos listens st = (p, st')"
  shows "(p = -1 \<longleftrightarrow> (\<forall>q. \<not> free_port listens (used_ports st) q)) \<and>
    (p \<noteq> -1 \<longrightarrow> free_port listens (used_ports st) p \<and>
      (\<forall>q. free_port listens (used_ports st) q \<longrightarrow> p \<le> q) \<and>
      used_ports st' = used_ports st \<union> {20000..p})"
  using GiveAPort_cases [OF assms] by (auto simp: free_port_def not_less)

theorem GiveAPort_lowest_witness:
  "free_port (\<lambda>p. p \<noteq> 20001) {20000} (fst (GiveAPort ''linux'' (\<lambda>p. p \<noteq> 20001)
     \<lparr>used_ports = {20000}, ufw_log = []\<rparr>))"
proof -
  obtain p st' where g: "GiveAPort ''linux'' (\<lambda>p. p \<noteq> 20001) \<lparr>used_ports = {20000}, ufw_log = []\<rparr>
      = (p, st')" by fastforce
  have "free_port (\<lambda>p. p \<noteq> 20001) {20000} 20002" by (simp add: free_port_def)
  with GiveAPort_lowest [OF g] g show ?thesis by auto
qed

subsection \<open>Ports are not shared\<close>

text \<open>
  The contract of a port pool: a port handed out was not in use, and releasing one port leaves
  the others in use.  A client that releases only what it holds never holds a port twice.
\<close>

datatype port_op = Give "int \<Rightarrow> bool" | Free nat

fun run_ports ::
  "((int \<Rightarrow> bool) \<Rightarrow> 's \<Rightarrow> int \<times> 's) \<Rightarrow> (int \<Rightarrow> 's \<Rightarrow> 's) \<Rightarrow> port_op list \<Rightarrow> 's \<times> int list \<Rightarrow> 's \<times> int list"
  where
  "run_ports give rel [] sh = sh"
| "run_ports give rel (Give l # ops) (s, held) =
     (case give l s of (p, s') \<Rightarrow> run_ports give rel ops (s', if p = -1 then held else p # held))"
| "run_ports give rel (Free i # ops) (s, held) =
     (if i < length held
      then run_ports give rel ops (rel (held ! i) s, take i held @ drop (Suc i) held)
      else run_ports give rel ops (s, held))"

locale port_source =
  fixes give :: "(int \<Rightarrow> bool) \<Rightarrow> 's \<Rightarrow> int \<times> 's" and rel :: "int \<Rightarrow> 's \<Rightarrow> 's"
    and used :: "'s \<Rightarrow> int set"
  assumes give_fresh: "give l s = (p, s') \<Longrightarrow> p \<noteq> -1 \<Longrightarrow> p \<notin> used s \<and> used s \<union> {p} \<subseteq> used s'"
    and give_none: "give l s = (-1, s') \<Longrightarrow> used s \<subseteq> used s'"
    and rel_others: "used s - {p} \<subseteq> used (rel p s)"
begin

lemma run_distinct:
  "distinct held \<Longrightarrow> set held \<subseteq> used s \<Longrightarrow> run_ports give rel ops (s, held) = (s', held') \<Longrightarrow>
    distinct held' \<and> set held' \<subseteq> used s'"
proof (induction ops arbitrary: s held)
  case Nil
  then show ?case by simp
next
  case (Cons op ops)
  show ?case
  proof (cases op)
    case (Give l)
    obtain p t where g: "give l s = (p, t)" by fastforce
    show ?thesis
    proof (cases "p = -1")
      case True
      have "set held \<subseteq> used t" using give_none [of l s t] g True Cons.prems(2) by blast
      from Cons.IH [OF Cons.prems(1) this] Cons.prems(3) show ?thesis
        using Give g True by simp
    next
      case False
      have "p \<notin> used s" "used s \<union> {p} \<subseteq> used t" using give_fresh [OF g False] by auto
      then have "distinct (p # held)" "set (p # held) \<subseteq> used t" using Cons.prems(1,2) by auto
      from Cons.IH [OF this] Cons.prems(3) show ?thesis using Give g False by simp
    qed
  next
    case (Free i)
    show ?thesis
    proof (cases "i < length held")
      case True
      let ?h = "take i held @ drop (Suc i) held"
      have d: "distinct (take i held @ held ! i # drop (Suc i) held)"
        using Cons.prems(1) True by (simp add: id_take_nth_drop [symmetric])
      have "set ?h \<subseteq> set held - {held ! i}"
        using d by (auto dest: in_set_takeD in_set_dropD)
      then have "set ?h \<subseteq> used (rel (held ! i) s)"
        using Cons.prems(2) rel_others [of s "held ! i"] by blast
      moreover have "distinct ?h" using d by simp
      ultimately show ?thesis using Cons.IH [of ?h "rel (held ! i) s"] Cons.prems(3) Free True
        by simp
    next
      case False
      then show ?thesis using Cons.IH [OF Cons.prems(1,2)] Cons.prems(3) Free by simp
    qed
  qed
qed

end

interpretation pp: port_source "GiveAPort goos" ReleasePort used_ports for goos
proof unfold_locales
  show "p \<notin> used_ports s \<and> used_ports s \<union> {p} \<subseteq> used_ports s'"
    if "GiveAPort goos l s = (p, s')" "p \<noteq> -1" for l s p s'
    using GiveAPort_cases [OF that(1)] that(2) by (auto simp: free_port_def)
  show "used_ports s \<subseteq> used_ports s'" if "GiveAPort goos l s = (-1, s')" for l s s'
    using GiveAPort_cases [OF that] by (auto simp: free_port_def)
  show "used_ports s - {p} \<subseteq> used_ports (ReleasePort p s)" for s p
    by (auto simp: ReleasePort_def)
qed

text \<open>
  C26. As long as every port is released only by its holder and only once, no port is ever
  held twice, whatever the machine says about listening on it.
\<close>

theorem ports_never_shared:
  assumes "run_ports (GiveAPort goos) ReleasePort ops (st, []) = (st', held)"
  shows "distinct held \<and> set held \<subseteq> used_ports st'"
  using pp.run_distinct [OF _ _ assms] by simp

theorem ports_never_shared_witness:
  "\<exists>st' held. run_ports (GiveAPort ''linux'') ReleasePort [Give (\<lambda>_. True), Give (\<lambda>_. True), Free 0]
     (\<lparr>used_ports = {}, ufw_log = []\<rparr>, []) = (st', held) \<and> distinct held"
  using ports_never_shared by (metis surj_pair)

text \<open>
  A second release of the same port is not harmless: when the port was handed out again in
  between, it becomes free while it is held and \<open>GiveAPort\<close> gives it to a second holder (the
  listen test does not see the datagram listeners of the kcp and quic tunnels).
\<close>

theorem double_release_shares:
  assumes "GiveAPort goos listens st = (p, st1)" "p \<noteq> -1"
  shows "fst (GiveAPort goos listens (ReleasePort p st1)) = p \<and>
    (\<forall>st2. GiveAPort goos listens (ReleasePort p st1) = (p, st2) \<longrightarrow>
      fst (GiveAPort goos listens (ReleasePort p st2)) = p)"
proof -
  have again: "fst (GiveAPort goos listens (ReleasePort p s)) = p"
    if "20000 \<le> p" "p < 60000" "listens p" "{20000..<p} \<subseteq> used_ports s" for s
  proof -
    obtain q t where g: "GiveAPort goos listens (ReleasePort p s) = (q, t)" by fastforce
    have "free_port listens (used_ports (ReleasePort p s)) p"
      using that by (auto simp: free_port_def ReleasePort_def)
    moreover have "\<not> free_port listens (used_ports (ReleasePort p s)) r" if "r < p" for r
      using that \<open>{20000..<p} \<subseteq> used_ports s\<close> \<open>20000 \<le> p\<close>
      by (auto simp: free_port_def ReleasePort_def)
    ultimately have "q = p"
      using GiveAPort_cases [OF g] by (cases q p rule: linorder_cases) blast+
    with g show ?thesis by simp
  qed
  from GiveAPort_cases [OF assms(1)] assms(2)
  have p: "free_port listens (used_ports st) p" "used_ports st1 = used_ports st \<union> {20000..p}" by blast+
  have range: "20000 \<le> p" "p < 60000" "listens p" using p(1) by (simp_all add: free_port_def)
  have "{20000..<p} \<subseteq> used_ports st1" unfolding p(2) by auto
  from again [OF range this] have first: "fst (GiveAPort goos listens (ReleasePort p st1)) = p" .
  moreover have "fst (GiveAPort goos listens (ReleasePort p st2)) = p"
    if "GiveAPort goos listens (ReleasePort p st1) = (p, st2)" for st2
  proof (rule again [OF range])
    have "{20000..p} \<subseteq> used_ports st2"
      using GiveAPort_cases [OF that] assms(2) by blast
    then show "{20000..<p} \<subseteq> used_ports st2" by auto
  qed
  ultimately show ?thesis by blast
qed

theorem double_release_shares_witness:
  "\<exists>p st1. GiveAPort ''linux'' (\<lambda>_. True) \<lparr>used_ports = {}, ufw_log = []\<rparr> = (p, st1) \<and>
     fst (GiveAPort ''linux'' (\<lambda>_. True) (ReleasePort p st1)) = p"
proof -
  obtain p st1 where g: "GiveAPort ''linux'' (\<lambda>_. True) \<lparr>used_ports = {}, ufw_log = []\<rparr> = (p, st1)"
    by fastforce
  have "free_port (\<lambda>_. True) {} 20000" by (simp add: free_port_def)
  with GiveAPort_cases [OF g] have "p \<noteq> -1" by (auto simp: free_port_def)
  from double_release_shares [OF g this] g show ?thesis by blast
qed

text \<open>
  A port that could not be listened on stays marked for good: after one call that found
  no free port, \<open>GiveAPort\<close> returns -1 even when every port of the machine is free again.
\<close>

theorem GiveAPort_stays_exhausted:
  assumes "GiveAPort goos listens st = (-1, st')"
  shows "fst (GiveAPort goos' listens' st') = -1"
proof -
  have "{20000..<60000} \<subseteq> used_ports st'"
    using GiveAPort_cases [OF assms] by (auto simp: free_port_def)
  moreover obtain p t where g: "GiveAPort goos' listens' st' = (p, t)" by fastforce
  ultimately have "p = -1" using GiveAPort_cases [OF g] by (auto simp: free_port_def)
  with g show ?thesis by simp
qed

theorem GiveAPort_stays_exhausted_witness:
  "fst (GiveAPort ''linux'' (\<lambda>_. True) (snd (GiveAPort ''linux'' (\<lambda>_. False)
     \<lparr>used_ports = {}, ufw_log = []\<rparr>))) = -1"
proof -
  obtain p st' where g: "GiveAPort ''linux'' (\<lambda>_. False) \<lparr>used_ports = {}, ufw_log = []\<rparr> = (p, st')"
    by fastforce
  then have "p = -1" using GiveAPort_cases [OF g] by (auto simp: free_port_def)
  with g have "GiveAPort ''linux'' (\<lambda>_. False) \<lparr>used_ports = {}, ufw_log = []\<rparr> = (-1, st')" by simp
  from GiveAPort_stays_exhausted [OF this] this show ?thesis by simp
qed

end
