(* ===== verification/Base64.thy ===== *)
theory Base64
  imports Go_Strings
begin

text \<open>
  Standard base64 (\<open>encoding/base64.StdEncoding\<close>), which the configuration URIs, the upload API
  and the HTTP proxy authentication use: encoding, decoding (line breaks are skipped, padding is
  required, trailing bits are ignored), and the round trip.  It is the language's library and
  has no entry in the map.
\<close>

definition b64_char :: "nat \<Rightarrow> char" where
  "b64_char n = char_of (if n < 26 then n + 65 else if n < 52 then n + 71 else if n < 62 then n - 4
     else if n = 62 then 43 else 47)"

definition b64_val :: "char \<Rightarrow> nat option" where
  "b64_val c = (let n = of_char c :: nat in
     if 65 \<le> n \<and> n \<le> 90 then Some (n - 65)
     else if 97 \<le> n \<and> n \<le> 122 then Some (n - 71)
     else if 48 \<le> n \<and> n \<le> 57 then Some (n + 4)
     else if n = 43 then Some 62 else if n = 47 then Some 63 else None)"

fun b64_encode :: "string \<Rightarrow> string" where
  "b64_encode [] = []"
| "b64_encode [a] = (let n = of_char a * 16 in
     [b64_char (n div 64), b64_char (n mod 64), CHR ''='', CHR ''=''])"
| "b64_encode [a, b] = (let n = (of_char a * 256 + of_char b) * 4 in
     [b64_char (n div 4096), b64_char (n div 64 mod 64), b64_char (n mod 64), CHR ''=''])"
| "b64_encode (a # b # c # r) = (let n = of_char a * 65536 + of_char b * 256 + of_char c in
     b64_char (n div 262144) # b64_char (n div 4096 mod 64) # b64_char (n div 64 mod 64) #
     b64_char (n mod 64) # b64_encode r)"

fun b64_quanta :: "string \<Rightarrow> string option" where
  "b64_quanta [] = Some []"
| "b64_quanta (a # b # c # d # r) =
     (case (b64_val a, b64_val b) of
        (Some x, Some y) \<Rightarrow>
          (if c = CHR ''='' \<and> d = CHR ''='' \<and> r = [] then Some [char_of ((x * 64 + y) div 16)]
           else case b64_val c of
             None \<Rightarrow> None
           | Some z \<Rightarrow>
               if d = CHR ''='' \<and> r = [] then
                 (let n = (x * 4096 + y * 64 + z) div 4 in Some [char_of (n div 256), char_of (n mod 256)])
               else case b64_val d of
                 None \<Rightarrow> None
               | Some w \<Rightarrow>
                   let n = x * 262144 + y * 4096 + z * 64 + w in
                   map_option (\<lambda>t. char_of (n div 65536) # char_of (n div 256 mod 256) #
                     char_of (n mod 256) # t) (b64_quanta r))
      | _ \<Rightarrow> None)"
| "b64_quanta _ = None"

definition b64_decode :: "string \<Rightarrow> string option" where
  "b64_decode s = b64_quanta (filter (\<lambda>c. c \<noteq> CHR 0x0A \<and> c \<noteq> CHR 0x0D) s)"

definition b64_code :: "nat \<Rightarrow> nat" where
  "b64_code n = (if n < 26 then n + 65 else if n < 52 then n + 71 else if n < 62 then n - 4
     else if n = 62 then 43 else 47)"

lemma of_b64_char: "n < 64 \<Longrightarrow> of_char (b64_char n) = b64_code n"
  by (auto simp: b64_char_def b64_code_def)

lemma b64_val_char: "n < 64 \<Longrightarrow> b64_val (b64_char n) = Some n"
  unfolding b64_val_def Let_def of_b64_char by (auto simp: b64_code_def)

lemma b64_char_other:
  assumes "n < 64"
  shows "b64_char n \<noteq> CHR ''=''" "b64_char n \<noteq> CHR 0x0A" "b64_char n \<noteq> CHR 0x0D"
    "b64_char n \<noteq> CHR ''@''" "b64_char n \<noteq> CHR '':''"
proof -
  have "b64_code n \<notin> {61, 10, 13, 64, 58}" using assms by (auto simp: b64_code_def)
  then have "of_char (b64_char n) \<noteq> (61::nat)" "of_char (b64_char n) \<noteq> (10::nat)"
    "of_char (b64_char n) \<noteq> (13::nat)" "of_char (b64_char n) \<noteq> (64::nat)"
    "of_char (b64_char n) \<noteq> (58::nat)" unfolding of_b64_char [OF assms] by auto
  then show "b64_char n \<noteq> CHR ''=''" "b64_char n \<noteq> CHR 0x0A"
    "b64_char n \<noteq> CHR 0x0D" "b64_char n \<noteq> CHR ''@''" "b64_char n \<noteq> CHR '':''" by auto
qed

lemma of_char_bound: "(of_char c :: nat) < 256"
  by simp

text \<open>Cutting three bytes into four digits of base 64, and putting them together again.\<close>

lemma digits4:
  fixes n :: nat
  shows "n div 262144 * 262144 + n div 4096 mod 64 * 4096 + n div 64 mod 64 * 64 + n mod 64 = n"
proof -
  have d: "n div 4096 = n div 64 div 64" "n div 262144 = n div 64 div 64 div 64"
    by (simp_all add: div_mult2_eq [symmetric])
  have "n = n div 64 * 64 + n mod 64"
    "n div 64 = n div 64 div 64 * 64 + n div 64 mod 64"
    "n div 64 div 64 = n div 64 div 64 div 64 * 64 + n div 64 div 64 mod 64" by simp_all
  then show ?thesis unfolding d by linarith
qed

lemma b64_split3:
  fixes a b c :: nat
  assumes "a < 256" "b < 256" "c < 256"
  defines "n \<equiv> a * 65536 + b * 256 + c"
  shows "n div 262144 < 64" "n div 4096 mod 64 < 64" "n div 64 mod 64 < 64" "n mod 64 < 64"
    "n div 262144 * 262144 + n div 4096 mod 64 * 4096 + n div 64 mod 64 * 64 + n mod 64 = n"
    "n div 65536 = a" "n div 256 mod 256 = b" "n mod 256 = c"
proof -
  have q: "n = (a * 256 + b) * 256 + c" by (simp add: n_def)
  have "n < 16777216" using assms(1-3) by (simp add: n_def)
  then show "n div 262144 < 64" by (simp add: less_mult_imp_div_less)
  show "n div 4096 mod 64 < 64" "n div 64 mod 64 < 64" "n mod 64 < 64" by simp_all
  have d256: "n div 256 = a * 256 + b" using assms(3) by (simp add: q)
  then show "n div 256 mod 256 = b" using assms(2) by simp
  have "n div 65536 = n div 256 div 256" by (simp add: div_mult2_eq [symmetric])
  then show "n div 65536 = a" using d256 assms(2) by simp
  show "n mod 256 = c" unfolding q mod_mult_self3 using assms(3) by simp
qed (rule digits4)

lemma b64_split2:
  fixes a b :: nat
  assumes "a < 256" "b < 256"
  defines "n \<equiv> (a * 256 + b) * 4"
  shows "n div 4096 < 64" "n div 64 mod 64 < 64" "n mod 64 < 64"
    "(n div 4096 * 4096 + n div 64 mod 64 * 64 + n mod 64) div 4 = a * 256 + b"
    "(a * 256 + b) div 256 = a" "(a * 256 + b) mod 256 = b"
proof -
  have "n < 262144" using assms(1,2) by (simp add: n_def)
  then show "n div 4096 < 64" by (simp add: less_mult_imp_div_less)
  have "n div 262144 = 0" "n div 4096 mod 64 = n div 4096"
    using \<open>n < 262144\<close> \<open>n div 4096 < 64\<close> by simp_all
  with digits4 [of n] have "n div 4096 * 4096 + n div 64 mod 64 * 64 + n mod 64 = n" by simp
  then show "(n div 4096 * 4096 + n div 64 mod 64 * 64 + n mod 64) div 4 = a * 256 + b"
    by (simp add: n_def)
  show "n div 64 mod 64 < 64" "n mod 64 < 64" by simp_all
  show "(a * 256 + b) div 256 = a" "(a * 256 + b) mod 256 = b" using assms(2) by simp_all
qed

lemma b64_split1:
  fixes a :: nat
  assumes "a < 256"
  shows "a * 16 div 64 < 64" "a * 16 mod 64 < 64" "(a * 16 div 64 * 64 + a * 16 mod 64) div 16 = a"
  using assms by (simp_all only: div_mult_mod_eq)

lemma b64_quanta_encode: "b64_quanta (b64_encode s) = Some s"
proof (induction s rule: b64_encode.induct)
  case (2 a)
  define n where "n = (of_char a :: nat) * 16"
  note sp = b64_split1 [OF of_char_bound [of a], folded n_def]
  have e: "b64_encode [a] = [b64_char (n div 64), b64_char (n mod 64), CHR ''='', CHR ''='']"
    by (simp add: n_def Let_def)
  have "n div 16 = of_char a" unfolding n_def by simp
  then show ?case unfolding e b64_quanta.simps b64_val_char [OF sp(1)] b64_val_char [OF sp(2)]
    by simp
next
  case (3 a b)
  define n where "n = (of_char a * 256 + of_char b :: nat) * 4"
  note sp = b64_split2 [OF of_char_bound [of a] of_char_bound [of b], folded n_def]
  have e: "b64_encode [a, b] =
      [b64_char (n div 4096), b64_char (n div 64 mod 64), b64_char (n mod 64), CHR ''='']"
    by (simp only: n_def Let_def b64_encode.simps)
  show ?case unfolding e b64_quanta.simps b64_val_char [OF sp(1)] b64_val_char [OF sp(2)]
      b64_val_char [OF sp(3)] Let_def
    using b64_char_other(1) [OF sp(3)] by (simp add: sp(4,5,6))
next
  case (4 a b c r)
  define n where "n = (of_char a * 65536 + of_char b * 256 + of_char c :: nat)"
  note sp = b64_split3 [OF of_char_bound [of a] of_char_bound [of b] of_char_bound [of c], folded n_def]
  have e: "b64_encode (a # b # c # r) = b64_char (n div 262144) # b64_char (n div 4096 mod 64) #
      b64_char (n div 64 mod 64) # b64_char (n mod 64) # b64_encode r"
    by (simp only: n_def Let_def b64_encode.simps)
  show ?case unfolding e b64_quanta.simps b64_val_char [OF sp(1)] b64_val_char [OF sp(2)]
      b64_val_char [OF sp(3)] b64_val_char [OF sp(4)] Let_def
    using b64_char_other(1) [OF sp(3)] b64_char_other(1) [OF sp(4)] "4.IH"
    by (simp add: sp(5,6,7,8))
qed simp

lemma b64_encode_chars:
  "x \<in> set (b64_encode s) \<Longrightarrow> x = CHR ''='' \<or> x \<in> b64_char ` {..<64}"
proof (induction s rule: b64_encode.induct)
  case (2 a)
  define n where "n = (of_char a :: nat) * 16"
  note sp = b64_split1 [OF of_char_bound [of a], folded n_def]
  have e: "b64_encode [a] = [b64_char (n div 64), b64_char (n mod 64), CHR ''='', CHR ''='']"
    by (simp only: n_def Let_def b64_encode.simps)
  from 2 sp(1,2) show ?case unfolding e by (auto intro!: imageI)
next
  case (3 a b)
  define n where "n = (of_char a * 256 + of_char b :: nat) * 4"
  note sp = b64_split2 [OF of_char_bound [of a] of_char_bound [of b], folded n_def]
  have e: "b64_encode [a, b] =
      [b64_char (n div 4096), b64_char (n div 64 mod 64), b64_char (n mod 64), CHR ''='']"
    by (simp only: n_def Let_def b64_encode.simps)
  from 3 sp(1-3) show ?case unfolding e by (auto intro!: imageI)
next
  case (4 a b c r)
  define n where "n = (of_char a * 65536 + of_char b * 256 + of_char c :: nat)"
  note sp = b64_split3 [OF of_char_bound [of a] of_char_bound [of b] of_char_bound [of c], folded n_def]
  have e: "b64_encode (a # b # c # r) = b64_char (n div 262144) # b64_char (n div 4096 mod 64) #
      b64_char (n div 64 mod 64) # b64_char (n mod 64) # b64_encode r"
    by (simp only: n_def Let_def b64_encode.simps)
  from 4 sp(1-4) show ?case unfolding e by (auto intro!: imageI)
qed simp

lemma b64_encode_clean:
  "CHR 0x0A \<notin> set (b64_encode s)" "CHR 0x0D \<notin> set (b64_encode s)"
  "CHR ''@'' \<notin> set (b64_encode s)" "CHR '':'' \<notin> set (b64_encode s)"
  using b64_encode_chars b64_char_other by fastforce+

lemma b64_decode_encode: "b64_decode (b64_encode s) = Some s"
proof -
  have "filter (\<lambda>c. c \<noteq> CHR 0x0A \<and> c \<noteq> CHR 0x0D) (b64_encode s) = b64_encode s"
    using b64_encode_clean(1,2) [of s] by (auto simp: filter_id_conv)
  then show ?thesis by (simp add: b64_decode_def b64_quanta_encode)
qed

text \<open>The first letter of an encoded text is given by the top six bits of its first byte.\<close>

lemma b64_encode_hd: "s \<noteq> [] \<Longrightarrow> b64_encode s \<noteq> [] \<and> hd (b64_encode s) = b64_char (of_char (hd s) div 4)"
proof (induction s rule: b64_encode.induct)
  case (2 a)
  have "of_char a * 16 div 64 = of_char a div (4 :: nat)"
    using div_mult_mult2 [of 16 "of_char a :: nat" 4] by simp
  then show ?case by (simp add: Let_def)
next
  case (3 a b)
  have "(of_char a * 256 + of_char b) * 4 div 4096 = (of_char a * 256 + of_char b) div (256 * 4 :: nat)"
    using div_mult_mult2 [of 4 "of_char a * 256 + of_char b :: nat" 1024] by simp
  also have "\<dots> = of_char a div 4"
    unfolding div_mult2_eq using b64_split2(5) [OF of_char_bound of_char_bound] by simp
  finally show ?case by (simp only: Let_def b64_encode.simps) simp
next
  case (4 a b c r)
  define n where "n = (of_char a * 65536 + of_char b * 256 + of_char c :: nat)"
  have "n div 262144 = n div (65536 * 4)" by simp
  also have "\<dots> = of_char a div 4"
    unfolding div_mult2_eq n_def b64_split3(6) [OF of_char_bound of_char_bound of_char_bound] ..
  finally show ?case by (simp only: Let_def b64_encode.simps n_def list.sel) simp
qed simp

end
