(* ===== verification/Proto_Config.thy ===== *)
theory Proto_Config
  imports Base64 Net_Addr Port_Pool
begin

text \<open>
  \<open>src/connections/base/base_config.go\<close> and \<open>base_config_parse.go\<close>: the configuration of a
  tunnel, what is derived from it (address, server list, cipher parameters, TLS material), how
  a random one is made, and the parser of Shadowsocks URIs.  Key derivation, block ciphers,
  certificates, JSON decoding and random strings come from outside and are parameters.
\<close>

subsection \<open>The record\<close>

text \<open>\<open>Server\<close> is an \<open>interface{}\<close>; the items of an array may or may not be strings.\<close>

datatype server_val = SrvNil | SrvStr string | SrvArr "string option list" | SrvOther

record config =
  cf_ID :: string
  cf_Server :: server_val
  cf_ServerPort :: int
  cf_LocalPort :: int
  cf_LocalAddress :: string
  cf_Password :: string
  cf_Method :: string
  cf_Tag :: string
  cf_CryptoMethod :: string
  cf_ProxyType :: string
  cf_PortPassword :: "(string \<times> string) list"
  cf_Timeout :: int
  cf_LastPing :: int
  cf_ServerPassword :: string
  cf_SSPassword :: string
  cf_OldSSPwd :: string
  cf_SSMethod :: string
  cf_SALT :: string
  cf_EBUFLEN :: int
  cf_Type :: string
  cf_IsErr :: bool

definition zero_config :: config where
  "zero_config = \<lparr>cf_ID = [], cf_Server = SrvNil, cf_ServerPort = 0, cf_LocalPort = 0,
     cf_LocalAddress = [], cf_Password = [], cf_Method = [], cf_Tag = [], cf_CryptoMethod = [],
     cf_ProxyType = [], cf_PortPassword = [], cf_Timeout = 0, cf_LastPing = 0,
     cf_ServerPassword = [], cf_SSPassword = [], cf_OldSSPwd = [], cf_SSMethod = [], cf_SALT = [],
     cf_EBUFLEN = 0, cf_Type = [], cf_IsErr = False\<rparr>"

subsection \<open>What is derived from a configuration\<close>

text \<open>The block ciphers of kcp-go, given by the constructor called and its key.\<close>

datatype block_crypt = TripleDES bytes | TEA bytes | SimpleXOR bytes | XTEA bytes | AESBlock bytes

definition GeneratePassword ::
  "(bytes \<Rightarrow> bytes \<Rightarrow> int \<Rightarrow> nat \<Rightarrow> bytes) \<Rightarrow> bool \<Rightarrow> config \<Rightarrow> block_crypt" where
  "GeneratePassword pbkdf2 plugin c =
     (let klen = (if str_contains (cf_Method c) ''128'' then 16 else 32);
          mainMethod = hd (split_on CHR ''-'' (cf_Method c));
          keyData =
            (if cf_SALT c = [] \<and> cf_EBUFLEN c = 0 then
               (if plugin then pbkdf2 (bytes_of (cf_Password c)) (bytes_of ''kcpKCPkcp'') 4096 klen
                else pbkdf2 (bytes_of (cf_Password c)) (bytes_of ''kcpKCPkcp'') 1024 klen)
             else pbkdf2 (bytes_of (cf_Password c)) (bytes_of (cf_SALT c)) (cf_EBUFLEN c) klen);
          key = take klen keyData in
      if mainMethod = ''des'' then TripleDES key
      else if mainMethod = ''tea'' then TEA key
      else if mainMethod = ''simple'' then SimpleXOR key
      else if mainMethod = ''xtea'' then XTEA key
      else AESBlock key)"

text \<open>\<open>RemoteAddr\<close> formats a \<open>Server\<close> that is a string; other values print as their Go syntax.\<close>

definition RemoteAddr :: "gslib \<Rightarrow> (server_val \<Rightarrow> string) \<Rightarrow> config \<Rightarrow> string" where
  "RemoteAddr G show_val c =
     gs_F G ''%s:%d'' [FStr (case cf_Server c of SrvStr s \<Rightarrow> s | v \<Rightarrow> show_val v), FInt (cf_ServerPort c)]"

fun all_some :: "'a option list \<Rightarrow> 'a list option" where
  "all_some [] = Some []"
| "all_some (None # xs) = None"
| "all_some (Some x # xs) = map_option ((#) x) (all_some xs)"

definition GetServerArray :: "config \<Rightarrow> string list go" where
  "GetServerArray c =
     (case cf_Server c of
        SrvNil \<Rightarrow> Ret []
      | SrvStr single \<Rightarrow> Ret [single]
      | SrvArr arr \<Rightarrow> (case all_some arr of Some serverArr \<Rightarrow> Ret serverArr | None \<Rightarrow> Panic)
      | SrvOther \<Rightarrow> Panic)"

text \<open>
  The TLS material is \<open>certificate|key\<close> in the password field; \<open>split2\<close> is \<open>gs.Str.Split("|", 2)\<close>
  and \<open>keypair\<close> is \<open>tls.X509KeyPair\<close>, both outside.  A missing separator and a bad pair panic.
\<close>

record 'k tls_conf =
  tc_cert :: 'k
  tc_pool :: bytes
  tc_skip :: bool
  tc_protos :: "string list"

definition tls_material ::
  "gslib \<Rightarrow> (string \<Rightarrow> string list) \<Rightarrow> (bytes \<Rightarrow> bytes \<Rightarrow> 'k option) \<Rightarrow> string list \<Rightarrow> config \<Rightarrow> 'k tls_conf go"
  where
  "tls_material G split2 keypair protos c =
     (case split2 (cf_Password c) of
        f0 # f1 # _ \<Rightarrow>
          (let cer = bytes_of (gs_Trim G f0); key = bytes_of (gs_Trim G f1) in
           case keypair cer key of
             None \<Rightarrow> Panic
           | Some k \<Rightarrow> Ret \<lparr>tc_cert = k, tc_pool = cer, tc_skip = True, tc_protos = protos\<rparr>)
      | _ \<Rightarrow> Panic)"

definition GetTlsConfig ::
  "gslib \<Rightarrow> (string \<Rightarrow> string list) \<Rightarrow> (bytes \<Rightarrow> bytes \<Rightarrow> 'k option) \<Rightarrow> config \<Rightarrow> ('k tls_conf option \<times> bool) go"
  where
  "GetTlsConfig G split2 keypair c =
     (if cf_ProxyType c \<noteq> ''tls'' then Ret (None, False)
      else go_bind (tls_material G split2 keypair [] c) (\<lambda>t. Ret (Some t, True)))"

definition GetQuicConfig ::
  "gslib \<Rightarrow> (string \<Rightarrow> string list) \<Rightarrow> (bytes \<Rightarrow> bytes \<Rightarrow> 'k option) \<Rightarrow> config \<Rightarrow> ('k tls_conf option \<times> bool) go"
  where
  "GetQuicConfig G split2 keypair c =
     (if cf_ProxyType c \<noteq> ''quic'' then Ret (None, False)
      else go_bind (tls_material G split2 keypair [''quic-echo-stream''] c) (\<lambda>t. Ret (Some t, True)))"

subsection \<open>Making configurations\<close>

text \<open>\<open>rand n\<close> is the n-th call of \<open>gs.Str.RandStr\<close> with the length asked for.\<close>

definition RandomConfig ::
  "(nat \<Rightarrow> nat \<Rightarrow> string) \<Rightarrow> string \<Rightarrow> (int \<Rightarrow> bool) \<Rightarrow> ports \<Rightarrow> config \<times> ports" where
  "RandomConfig rand goos listens st =
     (case GiveAPort goos listens st of (port, st') \<Rightarrow>
       (zero_config\<lparr>cf_ServerPort := port, cf_Server := SrvStr ''0.0.0.0'',
          cf_ServerPassword := rand 0 16, cf_Password := rand 1 16, cf_SALT := rand 2 8,
          cf_Method := ''aes-256'', cf_EBUFLEN := 4096, cf_ID := rand 3 32\<rparr>, st'))"

definition JsonConfig ::
  "(string \<Rightarrow> goerr + config) \<Rightarrow> (nat \<Rightarrow> nat \<Rightarrow> string) \<Rightarrow> string \<Rightarrow> goerr + config" where
  "JsonConfig unmarshal rand jsonStr =
     (case unmarshal jsonStr of
        Inl e \<Rightarrow> Inl e
      | Inr c \<Rightarrow> Inr (if cf_ID c = [] then c\<lparr>cf_ID := rand 0 32\<rparr> else c))"

text \<open>\<open>ParseConfig\<close> also sets the package's read timeout, in nanoseconds.\<close>

definition ParseConfig ::
  "(string \<Rightarrow> goerr + string) \<Rightarrow> (string \<Rightarrow> goerr + config) \<Rightarrow> string \<Rightarrow> int \<Rightarrow> (goerr + config) \<times> int" where
  "ParseConfig readFile unmarshal path readTimeout =
     (case readFile path of
        Inl e \<Rightarrow> (Inl e, readTimeout)
      | Inr data \<Rightarrow>
          (case unmarshal data of
             Inl e \<Rightarrow> (Inl e, readTimeout)
           | Inr c \<Rightarrow> (Inr c, cf_Timeout c * 1000000000)))"

subsection \<open>Shadowsocks URIs\<close>

definition invalidURI :: goerr where
  "invalidURI = GoErr ''invalid URI''"

definition uri_fields :: "string list \<Rightarrow> string list \<Rightarrow> config \<Rightarrow> (string \<times> goerr option) \<times> config" where
  "uri_fields headParts tailParts cfg =
     (if length headParts \<noteq> 2 \<or> length tailParts \<noteq> 2 then (([], Some invalidURI), cfg)
      else
        let cfg1 = cfg\<lparr>cf_Method := headParts ! 0, cf_Password := headParts ! 1\<rparr> in
        case atoi (tailParts ! 1) of (p, e) \<Rightarrow>
          if e then (([], Some (GoErr ''invalid port'')), cfg1)
          else ((tailParts ! 0, None),
                cfg1\<lparr>cf_Server := SrvStr (tailParts ! 0), cf_ServerPort := p\<rparr>))"

text \<open>\<open>TrimLeft\<close> removes every leading character of the set s, colon, slash.\<close>

definition trim_scheme :: "string \<Rightarrow> string" where
  "trim_scheme u = dropWhile (\<lambda>c. c \<in> set ''ss://'') u"

definition parseURI :: "string \<Rightarrow> config \<Rightarrow> (string \<times> goerr option) \<times> config" where
  "parseURI u0 cfg =
     (if u0 = [] then (([], None), cfg)
      else
        let u = trim_scheme u0; badb64 = Some (GoErr ''illegal base64 data'') in
        case find_index CHR ''@'' u of
          None \<Rightarrow>
            (case b64_decode u of
               None \<Rightarrow> (([], badb64), cfg)
             | Some dat \<Rightarrow>
                 let parts = split_on CHR ''@'' dat in
                 if length parts \<noteq> 2 then (([], Some invalidURI), cfg)
                 else uri_fields (splitn2 CHR '':'' (parts ! 0)) (splitn2 CHR '':'' (parts ! 1)) cfg)
        | Some i \<Rightarrow>
            if length u \<le> i + 1 then (([], Some invalidURI), cfg)
            else (case b64_decode (take i u) of
               None \<Rightarrow> (([], badb64), cfg)
             | Some dat \<Rightarrow> uri_fields (splitn2 CHR '':'' dat) (splitn2 CHR '':'' (drop (i + 1) u)) cfg))"

definition ParseURI :: "string \<Rightarrow> config" where
  "ParseURI u = snd (parseURI u zero_config)"

lemma uri_fields_ok:
  assumes "CHR '':'' \<notin> set method" "CHR '':'' \<notin> set host" "- (2 ^ 63) \<le> port" "port < 2 ^ 63"
  shows "uri_fields (splitn2 CHR '':'' (method @ CHR '':'' # pw))
      (splitn2 CHR '':'' (host @ CHR '':'' # itoa port)) cfg =
    ((host, None), cfg\<lparr>cf_Method := method, cf_Password := pw, cf_Server := SrvStr host,
       cf_ServerPort := port\<rparr>)"
  using assms by (simp add: uri_fields_def splitn2_append atoi_itoa Let_def)

lemma trim_scheme_b64:
  assumes "s \<noteq> []" "(of_char (hd s) :: nat) < 176"
  shows "trim_scheme (''ss://'' @ b64_encode s @ t) = b64_encode s @ t"
proof -
  obtain c r where e: "b64_encode s = c # r" "c = b64_char (of_char (hd s) div 4)"
    using b64_encode_hd [OF assms(1)] by (cases "b64_encode s") auto
  have lt: "(of_char (hd s) :: nat) div 4 < 44" using assms(2) by (simp add: less_mult_imp_div_less)
  then have "of_char c = b64_code (of_char (hd s) div 4)" unfolding e(2) by (intro of_b64_char) simp
  with lt have "(of_char c :: nat) \<notin> {115, 58, 47}" by (auto simp: b64_code_def)
  then have "c \<notin> set ''ss://''" by auto
  then show ?thesis by (simp add: trim_scheme_def e(1))
qed

text \<open>
  C40. Both documented URI forms are read back exactly: \<open>ss://base64(method:password@host:port)\<close>
  and \<open>ss://base64(method:password)@host:port\<close>, for every ASCII methodod.  (The scheme is removed
  with a cut set, which could eat into the base64 text: it does for methods whose first byte is
  176 to 179 or 252 and above only.)
\<close>

theorem parseURI_roundtrip:
  assumes meth: "meth \<noteq> []" "(of_char (hd meth) :: nat) < 128" "CHR '':'' \<notin> set meth"
      "CHR ''@'' \<notin> set meth"
    and pw: "CHR ''@'' \<notin> set pw"
    and host: "CHR '':'' \<notin> set host" "CHR ''@'' \<notin> set host"
    and port: "0 \<le> port" "port < 65536"
    and u: "u = ''ss://'' @ b64_encode (meth @ '':'' @ pw @ ''@'' @ host @ '':'' @ itoa port) \<or>
      u = ''ss://'' @ b64_encode (meth @ '':'' @ pw) @ ''@'' @ host @ '':'' @ itoa port"
  shows "parseURI u cfg = ((host, None), cfg\<lparr>cf_Method := meth, cf_Password := pw,
    cf_Server := SrvStr host, cf_ServerPort := port\<rparr>)"
proof -
  have fields: "uri_fields (splitn2 CHR '':'' (meth @ CHR '':'' # pw))
      (splitn2 CHR '':'' (host @ CHR '':'' # itoa port)) cfg =
    ((host, None), cfg\<lparr>cf_Method := meth, cf_Password := pw, cf_Server := SrvStr host,
       cf_ServerPort := port\<rparr>)"
    using meth host port by (intro uri_fields_ok) auto
  have trim: "trim_scheme (''ss://'' @ b64_encode (meth @ x) @ t) = b64_encode (meth @ x) @ t" for x t
    using meth(1,2) by (intro trim_scheme_b64) auto
  from u show ?thesis
  proof
    assume a: "u = ''ss://'' @ b64_encode (meth @ '':'' @ pw @ ''@'' @ host @ '':'' @ itoa port)"
    have t: "trim_scheme u = b64_encode (meth @ '':'' @ pw @ ''@'' @ host @ '':'' @ itoa port)"
      using trim [of "'':'' @ pw @ ''@'' @ host @ '':'' @ itoa port" "[]"] by (simp add: a)
    have "split_on CHR ''@'' ((meth @ '':'' @ pw) @ CHR ''@'' # (host @ '':'' @ itoa port)) =
        [meth @ '':'' @ pw, host @ '':'' @ itoa port]"
      using meth(4) pw host(2) itoa_no_at by (subst split_on_append) (auto simp: split_on_absent)
    then show ?thesis
      using fields b64_encode_clean(3) unfolding parseURI_def t
      by (simp add: a find_index_def b64_decode_encode)
  next
    assume a: "u = ''ss://'' @ b64_encode (meth @ '':'' @ pw) @ ''@'' @ host @ '':'' @ itoa port"
    have t: "trim_scheme u = b64_encode (meth @ '':'' @ pw) @ CHR ''@'' # (host @ '':'' @ itoa port)"
      using trim [of "'':'' @ pw" "''@'' @ host @ '':'' @ itoa port"] by (simp add: a)
    show ?thesis
      using fields unfolding parseURI_def t
      by (simp add: a b64_decode_encode Let_def find_index_append [OF b64_encode_clean(3)])
  qed
qed

theorem parseURI_roundtrip_witness:
  "cf_ServerPort (ParseURI (''ss://'' @ b64_encode ''aes-256-gcm:pw'' @ ''@1.2.3.4:8388'')) = 8388"
proof -
  have i: "itoa 8388 = ''8388''" by (simp add: itoa_def nat_digits.simps digit_char_def char_of_def bit_0)
  have "parseURI (''ss://'' @ b64_encode (''aes-256-gcm'' @ '':'' @ ''pw'') @ ''@'' @ ''1.2.3.4'' @ '':'' @ itoa 8388)
      zero_config = ((''1.2.3.4'', None), zero_config\<lparr>cf_Method := ''aes-256-gcm'', cf_Password := ''pw'',
        cf_Server := SrvStr ''1.2.3.4'', cf_ServerPort := 8388\<rparr>)"
    by (rule parseURI_roundtrip [OF _ _ _ _ _ _ _ _ _ disjI2 [OF refl]]) simp_all
  then show ?thesis by (simp add: ParseURI_def i)
qed

end
