(* ===== verification/Ss_Cipher.thy ===== *)
theory Ss_Cipher
  imports Proto_Config Net_Conn
begin

text \<open>
  \<open>src/connections/prosss\<close>: the encrypted tunnel.  \<open>key.go\<close> and \<open>cipher.go\<close> choose and build a
  cipher and seal single packets; \<open>ss_server.go\<close> and \<open>ss_client.go\<close> frame packets with a two-byte
  length and buffer what a reader did not take.  The AEAD construction itself (the standard
  library's GCM, the ChaCha20-Poly1305 of \<open>x/crypto\<close>), the key derivation and the random source
  are parameters; what is relied on is \<open>aead_ok\<close>.
\<close>

subsection \<open>Ciphers\<close>

record aead =
  ae_seal :: "bytes \<Rightarrow> bytes \<Rightarrow> bytes"
  ae_open :: "bytes \<Rightarrow> bytes \<Rightarrow> goerr + bytes"

text \<open>Opening inverts sealing under the same nonce, and a tag of 16 bytes is added.\<close>

definition aead_ok :: "aead \<Rightarrow> bool" where
  "aead_ok A \<longleftrightarrow> (\<forall>n p. length n = 12 \<longrightarrow> ae_open A n (ae_seal A n p) = Inr p) \<and>
     (\<forall>n p. length (ae_seal A n p) = length p + 16)"

text \<open>
  One packet: a nonce of 12 bytes from the random source (or its error), then the sealed text.
  The two cipher types have the same methods, word for word.
\<close>

definition Aes256Gcm_Encrypt :: "aead \<Rightarrow> goerr + bytes \<Rightarrow> bytes \<Rightarrow> goerr + bytes" where
  "Aes256Gcm_Encrypt A rnd plaintext =
     (case rnd of Inl e \<Rightarrow> Inl e | Inr nonce \<Rightarrow> Inr (nonce @ ae_seal A nonce plaintext))"

definition Aes256Gcm_Decrypt :: "aead \<Rightarrow> bytes \<Rightarrow> goerr + bytes" where
  "Aes256Gcm_Decrypt A ciphertext =
     (if length ciphertext < 12 then Inl (GoErr ''ciphertext too short'')
      else ae_open A (take 12 ciphertext) (drop 12 ciphertext))"

definition Chacha20_Encrypt :: "aead \<Rightarrow> goerr + bytes \<Rightarrow> bytes \<Rightarrow> goerr + bytes" where
  "Chacha20_Encrypt A rnd plaintext =
     (case rnd of Inl e \<Rightarrow> Inl e | Inr nonce \<Rightarrow> Inr (nonce @ ae_seal A nonce plaintext))"

definition Chacha20_Decrypt :: "aead \<Rightarrow> bytes \<Rightarrow> goerr + bytes" where
  "Chacha20_Decrypt A ciphertext =
     (if length ciphertext < 12 then Inl (GoErr ''ciphertext too short'')
      else ae_open A (take 12 ciphertext) (drop 12 ciphertext))"

datatype cipher = AesGcm aead | Chacha aead

fun Encrypt :: "cipher \<Rightarrow> goerr + bytes \<Rightarrow> bytes \<Rightarrow> goerr + bytes" where
  "Encrypt (AesGcm A) = Aes256Gcm_Encrypt A"
| "Encrypt (Chacha A) = Chacha20_Encrypt A"

fun Decrypt :: "cipher \<Rightarrow> bytes \<Rightarrow> goerr + bytes" where
  "Decrypt (AesGcm A) = Aes256Gcm_Decrypt A"
| "Decrypt (Chacha A) = Chacha20_Decrypt A"

fun NonceSize :: "cipher \<Rightarrow> nat" where
  "NonceSize (AesGcm A) = 12"
| "NonceSize (Chacha A) = 12"

fun cipher_aead :: "cipher \<Rightarrow> aead" where
  "cipher_aead (AesGcm A) = A"
| "cipher_aead (Chacha A) = A"

text \<open>The packages that build ciphers, as parameters: key derivation, GCM over AES, ChaCha20.\<close>

record crypto =
  cr_pbkdf2 :: "bytes \<Rightarrow> bytes \<Rightarrow> nat \<Rightarrow> nat \<Rightarrow> bytes"
  cr_aes_gcm :: "bytes \<Rightarrow> goerr + aead"
  cr_chacha :: "bytes \<Rightarrow> goerr + aead"

definition NewAes256GcmCipher :: "crypto \<Rightarrow> bytes \<Rightarrow> goerr + cipher" where
  "NewAes256GcmCipher C key =
     (if length key \<noteq> 32 then Inl (GoErr ''aes-256-gcm requires exactly 32 bytes key'')
      else case cr_aes_gcm C key of Inl e \<Rightarrow> Inl e | Inr A \<Rightarrow> Inr (AesGcm A))"

definition NewChacha20Poly1305Cipher :: "crypto \<Rightarrow> bytes \<Rightarrow> goerr + cipher" where
  "NewChacha20Poly1305Cipher C key =
     (if length key \<noteq> 32 then Inl (GoErr ''chacha20-poly1305 requires exactly 32 bytes key'')
      else case cr_chacha C key of Inl e \<Rightarrow> Inl e | Inr A \<Rightarrow> Inr (Chacha A))"

record cipher_info =
  ci_Name :: string
  ci_KeySize :: nat
  ci_NewCipher :: "crypto \<Rightarrow> bytes \<Rightarrow> goerr + cipher"

definition SupportedCiphers :: "(string \<times> cipher_info) list" where
  "SupportedCiphers =
     [(''aes-256-gcm'', \<lparr>ci_Name = ''aes-256-gcm'', ci_KeySize = 32, ci_NewCipher = NewAes256GcmCipher\<rparr>),
      (''chacha20-poly1305'',
        \<lparr>ci_Name = ''chacha20-poly1305'', ci_KeySize = 32, ci_NewCipher = NewChacha20Poly1305Cipher\<rparr>)]"

definition DeriveKey :: "crypto \<Rightarrow> string \<Rightarrow> nat \<Rightarrow> bytes" where
  "DeriveKey C password keySize = cr_pbkdf2 C (bytes_of password) (bytes_of password) 1 keySize"

definition DeriveKeyWithSalt :: "crypto \<Rightarrow> string \<Rightarrow> string \<Rightarrow> nat \<Rightarrow> bytes" where
  "DeriveKeyWithSalt C password salt keySize = cr_pbkdf2 C (bytes_of password) (bytes_of salt) 1 keySize"

definition GetCipherInfo :: "string \<Rightarrow> goerr + cipher_info" where
  "GetCipherInfo method = (case map_of SupportedCiphers method of
     Some info \<Rightarrow> Inr info | None \<Rightarrow> Inl (GoErr (''unsupported cipher method: '' @ method)))"

definition CreateCipher :: "crypto \<Rightarrow> string \<Rightarrow> string \<Rightarrow> goerr + cipher" where
  "CreateCipher C password method =
     (case GetCipherInfo method of
        Inl e \<Rightarrow> Inl e
      | Inr info \<Rightarrow> ci_NewCipher info C (DeriveKey C password (ci_KeySize info)))"

text \<open>
  How both ends choose method and password from the configuration; the server writes the
  choice back.
\<close>

definition ss_choice :: "config \<Rightarrow> string \<times> string" where
  "ss_choice c = (if cf_SSMethod c = [] then ''aes-256-gcm'' else cf_SSMethod c,
     if cf_SSPassword c = [] then cf_Password c else cf_SSPassword c)"

definition NewSSServer :: "crypto \<Rightarrow> config \<Rightarrow> goerr + cipher \<times> config" where
  "NewSSServer C c =
     (case ss_choice c of (method, password) \<Rightarrow>
       if password = [] then Inl (GoErr ''tcp-encrypt requires a password'')
       else case CreateCipher C password method of
         Inl (GoErr e) \<Rightarrow> Inl (GoErr (''failed to create cipher: '' @ e))
       | Inl e \<Rightarrow> Inl e
       | Inr ci \<Rightarrow> Inr (ci, c\<lparr>cf_ProxyType := ''ss'', cf_Method := method\<rparr>))"

definition NewSSClient ::
  "crypto \<Rightarrow> gslib \<Rightarrow> (server_val \<Rightarrow> string) \<Rightarrow> (string \<Rightarrow> goerr + conn) \<Rightarrow> config \<Rightarrow> goerr + cipher \<times> conn" where
  "NewSSClient C G show_val dial c =
     (case ss_choice c of (method, password) \<Rightarrow>
       if password = [] then Inl (GoErr ''tcp-encrypt requires a password'')
       else case CreateCipher C password method of
         Inl (GoErr e) \<Rightarrow> Inl (GoErr (''failed to create cipher: '' @ e))
       | Inl e \<Rightarrow> Inl e
       | Inr ci \<Rightarrow>
           (case dial (RemoteAddr G show_val c) of
              Inl e \<Rightarrow> Inl e
            | Inr conn \<Rightarrow> Inr (ci, conn)))"

subsection \<open>Framed connections\<close>

record ss_conn =
  sc_conn :: conn
  sc_cipher :: cipher
  sc_buf :: bytes
  sc_bufSize :: nat

definition new_ss_conn :: "cipher \<Rightarrow> conn \<Rightarrow> ss_conn" where
  "new_ss_conn ci c = \<lparr>sc_conn = c, sc_cipher = ci, sc_buf = [], sc_bufSize = 0\<rparr>"

definition maxPacketSize :: nat where
  "maxPacketSize = 64 * 1024"

text \<open>
  \<open>Read\<close> into a slice of \<open>k\<close> bytes: the bytes copied, the error, the connection.  Server and
  client repeat the part that reads a packet; it is one definition here.
\<close>

definition ss_read_packet :: "nat \<Rightarrow> ss_conn \<Rightarrow> (bytes \<times> goerr option) \<times> ss_conn" where
  "ss_read_packet k c =
     (case read_full 2 (sc_conn c) of ((lengthBuf, err), c1) \<Rightarrow>
        (case err of
           Some e \<Rightarrow> (([], Some e), c\<lparr>sc_conn := c1\<rparr>)
         | None \<Rightarrow>
             let packetLen = nat (get_u16 lengthBuf) in
             if packetLen < NonceSize (sc_cipher c) then
               (([], Some (GoErr ''invalid packet size'')), c\<lparr>sc_conn := c1\<rparr>)
             else if maxPacketSize < packetLen then
               (([], Some (GoErr ''packet too large'')), c\<lparr>sc_conn := c1\<rparr>)
             else (case read_full packetLen c1 of ((encryptedBuf, err2), c2) \<Rightarrow>
               (case err2 of
                  Some e \<Rightarrow> (([], Some (GoErr ''read encrypted packet failed'')), c\<lparr>sc_conn := c2\<rparr>)
                | None \<Rightarrow>
                    (case Decrypt (sc_cipher c) encryptedBuf of
                       Inl e \<Rightarrow> (([], Some (GoErr ''decryption failed'')), c\<lparr>sc_conn := c2\<rparr>)
                     | Inr plaintext \<Rightarrow>
                         if length plaintext \<le> k then ((plaintext, None), c\<lparr>sc_conn := c2\<rparr>)
                         else ((take k plaintext, None),
                           c\<lparr>sc_conn := c2, sc_buf := plaintext, sc_bufSize := length plaintext - k\<rparr>))))))"

definition SSConn_Read :: "nat \<Rightarrow> ss_conn \<Rightarrow> (bytes \<times> goerr option) \<times> ss_conn" where
  "SSConn_Read k c =
     (if 0 < sc_bufSize c then
        (let out = take k (drop (length (sc_buf c) - sc_bufSize c) (sc_buf c));
             left = sc_bufSize c - length out in
         ((out, None), c\<lparr>sc_bufSize := left, sc_buf := (if left = 0 then [] else sc_buf c)\<rparr>))
      else ss_read_packet k c)"

definition SSClientConn_Read :: "nat \<Rightarrow> ss_conn \<Rightarrow> (bytes \<times> goerr option) \<times> ss_conn" where
  "SSClientConn_Read k c =
     (if 0 < sc_bufSize c then
        (let start = length (sc_buf c) - sc_bufSize c; out = take k (drop start (sc_buf c));
             left = sc_bufSize c - length out in
         ((out, None), c\<lparr>sc_bufSize := left, sc_buf := (if left = 0 then [] else sc_buf c)\<rparr>))
      else ss_read_packet k c)"

text \<open>\<open>Write\<close> with the next outcome of the random source; the result is the count or the error.\<close>

definition SSConn_Write :: "goerr + bytes \<Rightarrow> bytes \<Rightarrow> ss_conn \<Rightarrow> (goerr + nat) \<times> ss_conn" where
  "SSConn_Write rnd b c =
     (case Encrypt (sc_cipher c) rnd b of
        Inl e \<Rightarrow> (Inl (GoErr ''encryption failed''), c)
      | Inr ciphertext \<Rightarrow>
          if maxPacketSize < length ciphertext then (Inl (GoErr ''encrypted packet too large''), c)
          else
            let packetLen = int (length ciphertext);
                lengthBuf = [to_byte (drop_bit 8 packetLen), to_byte (packetLen AND 0xff)] in
            (case conn_write (lengthBuf @ ciphertext) (sc_conn c) of
               (Some e, c') \<Rightarrow> (Inl (GoErr ''write packet failed''), c\<lparr>sc_conn := c'\<rparr>)
             | (None, c') \<Rightarrow> (Inr (length b), c\<lparr>sc_conn := c'\<rparr>)))"

text \<open>The client's \<open>Write\<close> repeats the server's.\<close>

definition SSClientConn_Write :: "goerr + bytes \<Rightarrow> bytes \<Rightarrow> ss_conn \<Rightarrow> (goerr + nat) \<times> ss_conn" where
  "SSClientConn_Write rnd b c = SSConn_Write rnd b c"

lemma SSClientConn_Read_eq: "SSClientConn_Read = SSConn_Read"
  by (intro ext) (simp only: SSClientConn_Read_def SSConn_Read_def Let_def)

subsection \<open>Packets\<close>

definition packet :: "cipher \<Rightarrow> bytes \<Rightarrow> bytes \<Rightarrow> bytes" where
  "packet ci nonce p = (let ct = nonce @ ae_seal (cipher_aead ci) nonce p in
     put_u16 (int (length ct)) @ ct)"

lemma Encrypt_Inr: "Encrypt ci (Inr nonce) p = Inr (nonce @ ae_seal (cipher_aead ci) nonce p)"
  by (cases ci) (simp_all add: Aes256Gcm_Encrypt_def Chacha20_Encrypt_def)

lemma Decrypt_Encrypt:
  assumes "aead_ok (cipher_aead ci)" "length nonce = 12"
  shows "Decrypt ci (nonce @ ae_seal (cipher_aead ci) nonce p) = Inr p"
  using assms by (cases ci) (simp_all add: Aes256Gcm_Decrypt_def Chacha20_Decrypt_def aead_ok_def)

lemma NonceSize_12 [simp]: "NonceSize ci = 12"
  by (cases ci) simp_all

lemma length_bytes_u16:
  assumes "0 \<le> n"
  shows "[to_byte (drop_bit 8 n), to_byte (n AND 0xff)] = put_u16 n"
proof -
  have a: "n AND 255 = n mod 256" using take_bit_eq_mask [of 8 n] by (simp add: take_bit_eq_mod mask_eq_exp_minus_1)
  have b: "to_byte (n mod 256) = to_byte n"
    by (simp add: to_byte_def word_of_int_eq_iff take_bit_eq_mod)
  have c: "to_byte (drop_bit 8 n) = (ucast (drop_bit 8 (word_of_int n :: 16 word)) :: byte)"
    by (rule bit_word_eqI) (auto simp: to_byte_def bit_simps)
  have d: "to_byte n = (ucast (word_of_int n :: 16 word) :: byte)"
    by (rule bit_word_eqI) (auto simp: to_byte_def bit_simps)
  show ?thesis by (simp add: a b c d put_u16_def Let_def)
qed

text \<open>
  A write succeeds exactly when the packet fits and the network takes it, and then the
  peer's stream grows by one framed packet; a text of more than 65508 bytes is refused without
  sending anything (the relay's buffer is larger: 128 KiB).
\<close>

theorem SSConn_Write_spec:
  assumes "aead_ok (cipher_aead (sc_cipher c))" "length nonce = 12"
    and "\<not> is_closed (sc_conn c)" "wleft (sc_conn c) = None"
  shows "SSConn_Write (Inr nonce) b c =
    (if length b \<le> 65508
     then (Inr (length b), c\<lparr>sc_conn := (sc_conn c)\<lparr>outq := outq (sc_conn c) @ [packet (sc_cipher c) nonce b]\<rparr>\<rparr>)
     else (Inl (GoErr ''encrypted packet too large''), c))"
proof -
  have "length (nonce @ ae_seal (cipher_aead (sc_cipher c)) nonce b) = length b + 28"
    using assms(1,2) by (simp add: aead_ok_def)
  then show ?thesis
    using assms(3,4) by (simp add: SSConn_Write_def Encrypt_Inr maxPacketSize_def Let_def
        length_bytes_u16 conn_write_def packet_def)
qed

text \<open>A packet whose length fits the prefix is read back whole.\<close>

lemma read_packet:
  assumes ok: "aead_ok (cipher_aead (sc_cipher c))" "length nonce = 12" "length p \<le> 65507"
    and buf: "sc_bufSize c = 0"
    and inq: "concat (inq (sc_conn c)) = packet (sc_cipher c) nonce p @ rest"
  obtains r where "concat r = rest"
    "SSConn_Read k c = ((take k p, None), (if length p \<le> k then c\<lparr>sc_conn := (sc_conn c)\<lparr>inq := r\<rparr>\<rparr>
       else c\<lparr>sc_conn := (sc_conn c)\<lparr>inq := r\<rparr>, sc_buf := p, sc_bufSize := length p - k\<rparr>))"
proof -
  define ct where "ct = nonce @ ae_seal (cipher_aead (sc_cipher c)) nonce p"
  have len: "length ct = length p + 28" using ok(1,2) by (simp add: ct_def aead_ok_def)
  have pk: "packet (sc_cipher c) nonce p = put_u16 (int (length ct)) @ ct"
    by (simp add: packet_def ct_def Let_def)
  have "2 \<le> length (concat (inq (sc_conn c)))" using inq pk by simp
  then obtain r1 where r1: "read_full 2 (sc_conn c) =
      ((take 2 (concat (inq (sc_conn c))), None), (sc_conn c)\<lparr>inq := r1\<rparr>)"
    "concat r1 = drop 2 (concat (inq (sc_conn c)))" by (rule read_full_ok)
  have t: "take 2 (concat (inq (sc_conn c))) = put_u16 (int (length ct))" "concat r1 = ct @ rest"
    using inq pk r1(2) by simp_all
  have n: "nat (get_u16 (put_u16 (int (length ct)))) = length ct"
    using ok(3) len by (simp add: get_put_u16)
  have "length ct \<le> length (concat (inq ((sc_conn c)\<lparr>inq := r1\<rparr>)))" using t(2) by simp
  then obtain r where r: "read_full (length ct) ((sc_conn c)\<lparr>inq := r1\<rparr>) =
      ((take (length ct) (concat r1), None), (sc_conn c)\<lparr>inq := r\<rparr>)" "concat r = drop (length ct) (concat r1)"
    by (rule read_full_ok) auto
  have "Decrypt (sc_cipher c) ct = Inr p" unfolding ct_def by (rule Decrypt_Encrypt [OF ok(1,2)])
  then show thesis
    using that [of r] r t r1(1) n buf len ok(3)
    by (simp add: SSConn_Read_def ss_read_packet_def maxPacketSize_def)
qed

subsection \<open>The stream of plaintexts\<close>

text \<open>
  A connection carries \<open>d\<close> when its unread rest followed by the texts of the framed packets in
  its stream is \<open>d\<close>.
\<close>

definition rest_of :: "ss_conn \<Rightarrow> bytes" where
  "rest_of c = drop (length (sc_buf c) - sc_bufSize c) (sc_buf c)"

definition frames :: "cipher \<Rightarrow> (bytes \<times> bytes) list \<Rightarrow> bytes" where
  "frames ci nps = concat (map (\<lambda>(n, p). packet ci n p) nps)"

definition frames_ok :: "(bytes \<times> bytes) list \<Rightarrow> bool" where
  "frames_ok nps \<longleftrightarrow> (\<forall>(n, p)\<in>set nps. length n = 12 \<and> length p \<le> 65507)"

definition carries :: "ss_conn \<Rightarrow> (bytes \<times> bytes) list \<Rightarrow> bool" where
  "carries c nps \<longleftrightarrow> aead_ok (cipher_aead (sc_cipher c)) \<and> sc_bufSize c \<le> length (sc_buf c) \<and>
     frames_ok nps \<and> concat (inq (sc_conn c)) = frames (sc_cipher c) nps"

text \<open>Successive reads with the given buffer sizes, until one fails.\<close>

fun read_all :: "nat list \<Rightarrow> ss_conn \<Rightarrow> bytes \<times> goerr option \<times> ss_conn" where
  "read_all [] c = ([], None, c)"
| "read_all (k # ks) c =
     (case SSConn_Read k c of
        ((bs, Some e), c') \<Rightarrow> (bs, Some e, c')
      | ((bs, None), c') \<Rightarrow> (case read_all ks c' of (r, e, c'') \<Rightarrow> (bs @ r, e, c'')))"

lemma carries_read:
  assumes c: "carries c nps"
  shows "(nps = [] \<and> sc_bufSize c = 0 \<and> rest_of c = [] \<and> (\<exists>e c'. SSConn_Read k c = (([], Some e), c'))) \<or>
    (\<exists>bs c' nps'. SSConn_Read k c = ((bs, None), c') \<and> carries c' nps' \<and>
      rest_of c @ concat (map snd nps) = bs @ rest_of c' @ concat (map snd nps'))"
proof (cases "0 < sc_bufSize c")
  case True
  define out where "out = take k (rest_of c)"
  have len: "length (rest_of c) = sc_bufSize c" using c by (simp add: rest_of_def carries_def)
  define c' where "c' = c\<lparr>sc_bufSize := sc_bufSize c - length out,
      sc_buf := (if sc_bufSize c - length out = 0 then [] else sc_buf c)\<rparr>"
  have rd: "SSConn_Read k c = ((out, None), c')"
    using True by (simp add: SSConn_Read_def out_def rest_of_def c'_def Let_def)
  have "rest_of c' = drop (length out) (rest_of c)"
  proof (cases "sc_bufSize c - length out = 0")
    case True
    then show ?thesis using len by (simp add: c'_def rest_of_def)
  next
    case False
    have "length out \<le> sc_bufSize c" using len by (simp add: out_def)
    with False c show ?thesis
      by (simp add: c'_def rest_of_def carries_def add.commute)
  qed
  moreover have "out = take (length out) (rest_of c)" by (simp add: out_def min_def)
  ultimately have "rest_of c = out @ rest_of c'" by (metis append_take_drop_id)
  moreover have "carries c' nps" using c by (auto simp: carries_def c'_def)
  ultimately show ?thesis using rd by auto
next
  case False
  then have b0: "sc_bufSize c = 0" "rest_of c = []" by (simp_all add: rest_of_def)
  show ?thesis
  proof (cases nps)
    case Nil
    then have emp: "concat (inq (sc_conn c)) = []"
      using c by (simp del: concat_eq_Nil_conv add: carries_def frames_def)
    then have "read_full 2 (sc_conn c) = (([], Some (fin (sc_conn c))), sc_conn c\<lparr>inq := []\<rparr>)"
      using read_full_short [of "sc_conn c" 2] by (simp del: concat_eq_Nil_conv)
    then have "\<exists>e c'. SSConn_Read k c = (([], Some e), c')"
      using b0 by (simp add: SSConn_Read_def ss_read_packet_def)
    then show ?thesis using Nil b0 by auto
  next
    case (Cons np nps')
    obtain n p where [simp]: "np = (n, p)" by fastforce
    have h: "aead_ok (cipher_aead (sc_cipher c))" "length n = 12" "length p \<le> 65507" "frames_ok nps'"
      "concat (inq (sc_conn c)) = packet (sc_cipher c) n p @ frames (sc_cipher c) nps'"
      using c Cons by (auto simp: carries_def frames_def frames_ok_def)
    obtain r where r: "concat r = frames (sc_cipher c) nps'"
      "SSConn_Read k c = ((take k p, None), (if length p \<le> k then c\<lparr>sc_conn := (sc_conn c)\<lparr>inq := r\<rparr>\<rparr>
         else c\<lparr>sc_conn := (sc_conn c)\<lparr>inq := r\<rparr>, sc_buf := p, sc_bufSize := length p - k\<rparr>))"
      using read_packet [OF h(1-3) b0(1) h(5)] by blast
    show ?thesis
    proof (cases "length p \<le> k")
      case True
      have "carries (c\<lparr>sc_conn := (sc_conn c)\<lparr>inq := r\<rparr>\<rparr>) nps'"
        using h b0 r(1) by (simp add: carries_def)
      then show ?thesis using r(2) True b0 Cons by (auto simp: rest_of_def intro!: exI)
    next
      case False
      have "carries (c\<lparr>sc_conn := (sc_conn c)\<lparr>inq := r\<rparr>, sc_buf := p, sc_bufSize := length p - k\<rparr>) nps'"
        using h r(1) by (simp add: carries_def)
      then show ?thesis using r(2) False b0 Cons
        by (auto simp: rest_of_def intro!: exI)
    qed
  qed
qed

lemma read_all_carries:
  "carries c nps \<Longrightarrow> read_all ks c = (out, err, c') \<Longrightarrow>
    prefix out (rest_of c @ concat (map snd nps)) \<and>
    (err \<noteq> None \<longrightarrow> out = rest_of c @ concat (map snd nps))"
proof (induction ks arbitrary: c nps out err c')
  case Nil
  then show ?case by simp
next
  case (Cons k ks)
  from carries_read [OF Cons.prems(1), of k] show ?case
  proof (elim disjE exE conjE)
    fix e c1 assume "nps = []" "rest_of c = []" "SSConn_Read k c = (([], Some e), c1)"
    then show ?thesis using Cons.prems(2) by auto
  next
    fix bs c1 nps' assume r: "SSConn_Read k c = ((bs, None), c1)" "carries c1 nps'"
      "rest_of c @ concat (map snd nps) = bs @ rest_of c1 @ concat (map snd nps')"
    obtain o1 e1 c2 where "read_all ks c1 = (o1, e1, c2)" by (metis prod_cases3)
    with Cons.IH [OF r(2) this] Cons.prems(2) r(1) show ?thesis unfolding r(3) by auto
  qed
qed

text \<open>
  Successive writes, each with the outcome of the random source it meets; and what of them is
  due to the reader: the texts the source gave a nonce for that fit a packet.
\<close>

fun write_all :: "((goerr + bytes) \<times> bytes) list \<Rightarrow> ss_conn \<Rightarrow> (goerr + nat) list \<times> ss_conn" where
  "write_all [] c = ([], c)"
| "write_all ((rnd, b) # ws) c =
     (case SSConn_Write rnd b c of (r, c') \<Rightarrow> (case write_all ws c' of (rs, c'') \<Rightarrow> (r # rs, c'')))"

definition goes_through :: "(goerr + bytes) \<times> bytes \<Rightarrow> bool" where
  "goes_through w \<longleftrightarrow> \<not> isl (fst w) \<and> length (snd w) \<le> 65507"

definition due :: "((goerr + bytes) \<times> bytes) list \<Rightarrow> bytes" where
  "due ws = concat (map snd (filter goes_through ws))"

text \<open>A writer's step: a packet more in the stream, or nothing at all.\<close>

lemma SSConn_Write_step:
  assumes "aead_ok (cipher_aead (sc_cipher c))" "\<not> is_closed (sc_conn c)" "wleft (sc_conn c) = None"
    and "\<And>n. rnd = Inr n \<Longrightarrow> length n = 12" "length b \<noteq> 65508"
  shows "\<exists>r c'. SSConn_Write rnd b c = (r, c') \<and> (isl r \<longleftrightarrow> \<not> goes_through (rnd, b)) \<and>
    c' = (if goes_through (rnd, b)
      then c\<lparr>sc_conn := (sc_conn c)\<lparr>outq := outq (sc_conn c) @ [packet (sc_cipher c) (projr rnd) b]\<rparr>\<rparr> else c)"
proof (cases rnd)
  case (Inl e)
  then have "Encrypt (sc_cipher c) rnd b = Inl e"
    by (cases "sc_cipher c") (simp_all add: Aes256Gcm_Encrypt_def Chacha20_Encrypt_def)
  then show ?thesis using Inl by (simp add: SSConn_Write_def goes_through_def)
next
  case (Inr n)
  then have "length n = 12" using assms(4) by simp
  moreover have "length b \<le> 65508 \<longleftrightarrow> length b \<le> 65507" using assms(5) by auto
  ultimately show ?thesis
    using SSConn_Write_spec [OF assms(1) _ assms(2,3), of n b] Inr by (simp add: goes_through_def)
qed

definition sent_frames :: "((goerr + bytes) \<times> bytes) list \<Rightarrow> (bytes \<times> bytes) list" where
  "sent_frames ws = map (\<lambda>(rnd, b). (projr rnd, b)) (filter goes_through ws)"

lemma write_all_sends:
  assumes "aead_ok (cipher_aead (sc_cipher c))" "\<not> is_closed (sc_conn c)" "wleft (sc_conn c) = None"
    and "\<forall>(rnd, b) \<in> set ws. length b \<noteq> 65508 \<and> (\<forall>n. rnd = Inr n \<longrightarrow> length n = 12)"
    and "write_all ws c = (rs, c')"
  shows "map isl rs = map (\<lambda>w. \<not> goes_through w) ws \<and>
    concat (outq (sc_conn c')) = concat (outq (sc_conn c)) @ frames (sc_cipher c) (sent_frames ws)"
  using assms
proof (induction ws arbitrary: c rs c')
  case Nil
  then show ?case by (simp add: frames_def sent_frames_def)
next
  case (Cons w ws)
  obtain rnd b where w: "w = (rnd, b)" by (cases w)
  obtain r c1 where wr: "SSConn_Write rnd b c = (r, c1)" "isl r \<longleftrightarrow> \<not> goes_through (rnd, b)"
    "c1 = (if goes_through (rnd, b)
      then c\<lparr>sc_conn := (sc_conn c)\<lparr>outq := outq (sc_conn c) @ [packet (sc_cipher c) (projr rnd) b]\<rparr>\<rparr> else c)"
    using SSConn_Write_step [OF Cons.prems(1-3), of rnd b] Cons.prems(4) w by auto
  obtain rs1 where rs: "write_all ws c1 = (rs1, c')" "rs = r # rs1"
    using Cons.prems(5) wr(1) w by (auto split: prod.splits)
  have c1: "sc_cipher c1 = sc_cipher c" "is_closed (sc_conn c1) = is_closed (sc_conn c)"
    "wleft (sc_conn c1) = wleft (sc_conn c)" using wr(3) by simp_all
  have "map isl rs1 = map (\<lambda>w. \<not> goes_through w) ws \<and>
    concat (outq (sc_conn c')) = concat (outq (sc_conn c1)) @ frames (sc_cipher c1) (sent_frames ws)"
    using Cons.prems(1-4) c1 by (intro Cons.IH [OF _ _ _ _ rs(1)]) auto
  then show ?case using wr(2,3) rs(2) w c1(1) by (simp add: frames_def sent_frames_def)
qed

lemma sent_frames_ok:
  assumes "\<forall>(rnd, b) \<in> set ws. length b \<noteq> 65508 \<and> (\<forall>n. rnd = Inr n \<longrightarrow> length n = 12)"
  shows "frames_ok (sent_frames ws)" "concat (map snd (sent_frames ws)) = due ws"
proof -
  have "length (projr rnd) = 12" if "(rnd, b) \<in> set ws" "\<not> isl rnd" for rnd b
    using assms that by (cases rnd) auto
  then show "frames_ok (sent_frames ws)" by (auto simp: frames_ok_def sent_frames_def goes_through_def)
  have "map snd (sent_frames ws) = map snd (filter goes_through ws)" by (auto simp: sent_frames_def)
  then show "concat (map snd (sent_frames ws)) = due ws" by (simp add: due_def)
qed

text \<open>
  C11. The encrypted connection is a faithful byte stream for texts of any length but 65508: a write
  reports success exactly for a text of at most 65507 bytes that the random source gave a nonce for;
  however the network cuts what was written and whatever buffer sizes the reader uses, the bytes
  read are a prefix of the texts whose writes succeeded, in order, and a read fails only after all of
  them were delivered.  (A text of 65508 bytes is reported as sent and breaks the stream: see
  \<open>ss_length_wraps\<close>.)
\<close>

theorem ss_stream_roundtrip:
  assumes "aead_ok (cipher_aead ci)" "\<not> is_closed w" "wleft w = None" "outq w = []"
    and "\<forall>(rnd, b) \<in> set ws. length b \<noteq> 65508 \<and> (\<forall>n. rnd = Inr n \<longrightarrow> length n = 12)"
    and "write_all ws (new_ss_conn ci w) = (rs, w')"
    and "concat (inq c) = concat (outq (sc_conn w'))"
    and "read_all ks (new_ss_conn ci c) = (out, err, c')"
  shows "map isl rs = map (\<lambda>(rnd, b). isl rnd \<or> 65507 < length b) ws \<and>
    prefix out (due ws) \<and> (err \<noteq> None \<longrightarrow> out = due ws)"
proof -
  have wr: "map isl rs = map (\<lambda>w. \<not> goes_through w) ws"
    "concat (outq (sc_conn w')) = frames ci (sent_frames ws)"
    using write_all_sends [OF _ _ _ assms(5,6)] assms(1-4) by (simp_all add: new_ss_conn_def)
  note ok = sent_frames_ok [OF assms(5)]
  have "carries (new_ss_conn ci c) (sent_frames ws)"
    using assms(1,7) wr(2) ok(1) by (simp add: carries_def new_ss_conn_def)
  from read_all_carries [OF this assms(8)] ok(2) wr(1) show ?thesis
    by (auto simp: rest_of_def new_ss_conn_def goes_through_def)
qed

text \<open>A transparent cipher, for the witnesses.\<close>

definition plain_aead :: aead where
  "plain_aead = \<lparr>ae_seal = (\<lambda>n p. p @ replicate 16 0), ae_open = (\<lambda>n c. Inr (take (length c - 16) c))\<rparr>"

lemma plain_aead_ok [simp]: "aead_ok plain_aead"
  by (simp add: aead_ok_def plain_aead_def)

theorem SSConn_Write_spec_witness:
  "fst (SSConn_Write (Inr (replicate 12 1)) (replicate 65509 7)
     (new_ss_conn (AesGcm plain_aead) (conn_of [] EOF))) = Inl (GoErr ''encrypted packet too large'')"
  using SSConn_Write_spec [of "new_ss_conn (AesGcm plain_aead) (conn_of [] EOF)" "replicate 12 1"
      "replicate 65509 7"] by (simp add: new_ss_conn_def)

theorem ss_stream_roundtrip_witness:
  "\<exists>rs w' out err c'.
     write_all [(Inr (replicate 12 1), [7, 8]), (Inl EOF, [5]), (Inr (replicate 12 2), [9])]
       (new_ss_conn (AesGcm plain_aead) (conn_of [] EOF)) = (rs, w') \<and>
     read_all [1, 10, 1] (new_ss_conn (AesGcm plain_aead) (conn_of (outq (sc_conn w')) EOF)) = (out, err, c') \<and>
     map isl rs = [False, True, False] \<and> prefix out [7, 8, 9]"
proof -
  let ?ws = "[(Inr (replicate 12 1), [7, 8]), (Inl EOF, [5]), (Inr (replicate 12 2), [9])] :: ((goerr + bytes) \<times> bytes) list"
  obtain rs w' where w: "write_all ?ws (new_ss_conn (AesGcm plain_aead) (conn_of [] EOF)) = (rs, w')" by fastforce
  obtain out err c' where r: "read_all [1, 10, 1] (new_ss_conn (AesGcm plain_aead)
     (conn_of (outq (sc_conn w')) EOF)) = (out, err, c')"
    by (metis prod_cases3)
  have "due ?ws = [7, 8, 9]" by (simp add: due_def goes_through_def)
  then show ?thesis using ss_stream_roundtrip [OF _ _ _ _ _ w _ r] w r by simp
qed

text \<open>
  At exactly 65508 bytes the bound of the writer is off by one: the packet of 65536 bytes is
  sent, its two-byte length wraps to zero, and the peer's next read fails.
\<close>

theorem ss_length_wraps:
  assumes ok: "aead_ok (cipher_aead ci)" "length nonce = 12" and b: "length b = 65508"
    and w: "SSConn_Write (Inr nonce) b (new_ss_conn ci (conn_of [] EOF)) = (r, c)"
  shows "r = Inr 65508 \<and> fst (SSConn_Read k (new_ss_conn ci (conn_of (outq (sc_conn c)) EOF)))
    = ([], Some (GoErr ''invalid packet size''))"
proof -
  define ct where "ct = nonce @ ae_seal (cipher_aead ci) nonce b"
  have len: "length ct = 65536" using ok b by (simp add: ct_def aead_ok_def)
  have wr: "r = Inr 65508" "outq (sc_conn c) = [put_u16 (int (length ct)) @ ct]"
    using w len b by (auto simp: SSConn_Write_def new_ss_conn_def Encrypt_Inr ct_def [symmetric]
        maxPacketSize_def Let_def conn_write_def length_bytes_u16 [of 65536, simplified])
  obtain r1 where r1: "read_full 2 (conn_of (outq (sc_conn c)) EOF) =
      ((take 2 (concat (outq (sc_conn c))), None), (conn_of (outq (sc_conn c)) EOF)\<lparr>inq := r1\<rparr>)"
    using wr(2) read_full_ok [of 2 "conn_of (outq (sc_conn c)) EOF"] by auto
  have "take 2 (concat (outq (sc_conn c))) = put_u16 65536" using wr(2) len by simp
  with r1 wr(1) show ?thesis
    by (simp add: SSConn_Read_def ss_read_packet_def new_ss_conn_def get_put_u16)
qed

theorem ss_length_wraps_witness:
  "fst (SSConn_Write (Inr (replicate 12 1)) (replicate 65508 7)
     (new_ss_conn (AesGcm plain_aead) (conn_of [] EOF))) = Inr 65508"
proof -
  obtain r c where w: "SSConn_Write (Inr (replicate 12 1)) (replicate 65508 7)
      (new_ss_conn (AesGcm plain_aead) (conn_of [] EOF)) = (r, c)" by fastforce
  from ss_length_wraps [OF _ _ _ w] w show ?thesis by simp
qed

subsection \<open>One cipher for many connections\<close>

text \<open>
  The server gives every accepted connection the same cipher object, whose \<open>nonceBytes\<close> is one
  buffer, filled and used without a lock.  A writer has a text to send, has filled the buffer,
  or has sealed its text with what the buffer held then; \<open>draws\<close> are the nonces drawn so far.
\<close>

datatype enc_pc = EIdle bytes | EFilled bytes | ESent bytes bytes

inductive enc_step ::
  "bytes \<times> bytes list \<times> enc_pc list \<Rightarrow> bytes \<times> bytes list \<times> enc_pc list \<Rightarrow> bool" where
  fill: "i < length pcs \<Longrightarrow> pcs ! i = EIdle p \<Longrightarrow> length n = 12 \<Longrightarrow>
    enc_step (nb, draws, pcs) (n, draws @ [n], pcs[i := EFilled p])"
| seal: "i < length pcs \<Longrightarrow> pcs ! i = EFilled p \<Longrightarrow>
    enc_step (nb, draws, pcs) (nb, draws, pcs[i := ESent nb p])"

inductive enc_reach :: "bytes list \<Rightarrow> bytes \<times> bytes list \<times> enc_pc list \<Rightarrow> bool" for ps where
  start: "enc_reach ps (replicate 12 0, [], map EIdle ps)"
| step: "enc_reach ps s \<Longrightarrow> enc_step s t \<Longrightarrow> enc_reach ps t"

text \<open>
  C37. Two writers of one server can seal two different texts under the same nonce although two
  different nonces were drawn, which breaks the confidentiality and the authentication of both
  AEADs.
\<close>

theorem shared_cipher_reuses_nonce:
  assumes "length n1 = 12" "length n2 = 12"
  shows "enc_reach [p, q] (n2, [n1, n2], [ESent n2 p, ESent n2 q])"
proof -
  have 0: "enc_reach [p, q] (replicate 12 0, [], [EIdle p, EIdle q])"
    using enc_reach.start [of "[p, q]"] by simp
  have 1: "enc_reach [p, q] (n1, [n1], [EFilled p, EIdle q])"
    using enc_reach.step [OF 0 enc_step.fill [of 0 _ p n1]] assms by simp
  have 2: "enc_reach [p, q] (n2, [n1, n2], [EFilled p, EFilled q])"
    using enc_reach.step [OF 1 enc_step.fill [of 1 _ q n2]] assms by simp
  have 3: "enc_reach [p, q] (n2, [n1, n2], [ESent n2 p, EFilled q])"
    using enc_reach.step [OF 2 enc_step.seal [of 0 _ p]] by simp
  show ?thesis using enc_reach.step [OF 3 enc_step.seal [of 1 _ q]] by simp
qed

theorem shared_cipher_reuses_nonce_witness:
  "enc_reach [[1], [2]] (replicate 12 8, [replicate 12 7, replicate 12 8],
     [ESent (replicate 12 8) [1], ESent (replicate 12 8) [2]])"
  by (rule shared_cipher_reuses_nonce) simp_all

end
