(* ===== verification/Dns_Cache.thy ===== *)
theory Dns_Cache
  imports Net_Addr
begin

text \<open>
  \<open>src/connections/base/dnscache.go\<close>: the TTL cache in front of the resolver, its FIFO eviction,
  the single-flight rule for concurrent misses, and the dialer on top of it.  A Go map is an
  association list in the order an iteration happens to visit it; theorems hold for every order.
  Times are integers (nanoseconds).  The two critical sections of \<open>Lookup\<close> are one definition
  each, first run by one caller, then as steps of any number of callers.
\<close>

subsection \<open>The cache\<close>

record dns_entry =
  de_ips :: "ip list"
  de_exp :: int
  de_seq :: nat

type_synonym dns_map = "(string \<times> dns_entry) list"

text \<open>An in-flight resolution: its result fields and whether its channel is closed.\<close>

record flight =
  fl_ips :: "ip list"
  fl_err :: "goerr option"
  fl_done :: bool

record dnscache =
  dc_entries :: dns_map
  dc_inflight :: "(string \<times> nat) list"
  dc_flights :: "flight list"
  dc_nextSeq :: nat
  dc_ttl :: int
  dc_max :: int
  dc_hits :: int
  dc_misses :: int

definition NewDNSCache :: dnscache where
  "NewDNSCache = \<lparr>dc_entries = [], dc_inflight = [], dc_flights = [], dc_nextSeq = 0,
     dc_ttl = 60 * 1000000000, dc_max = 1024, dc_hits = 0, dc_misses = 0\<rparr>"

text \<open>The scan of \<open>evictLocked\<close>: key and sequence number of the oldest entry met so far.\<close>

fun oldest_scan :: "string \<times> nat \<times> bool \<Rightarrow> dns_map \<Rightarrow> string \<times> nat \<times> bool" where
  "oldest_scan acc [] = acc"
| "oldest_scan (oldestKey, oldestSeq, first) ((k, e) # es) =
     (if first \<or> de_seq e < oldestSeq then oldest_scan (k, de_seq e, False) es
      else oldest_scan (oldestKey, oldestSeq, first) es)"

text \<open>The loop; with a negative maximum it would not end.\<close>

partial_function (option) evict_loop :: "int \<Rightarrow> dns_map \<Rightarrow> dns_map option" where
  "evict_loop m es =
     (if m < int (length es)
      then evict_loop m (AList.delete (fst (oldest_scan ([], 0, True) es)) es)
      else Some es)"

definition evictLocked :: "dnscache \<Rightarrow> dnscache option" where
  "evictLocked c =
     map_option (\<lambda>es. c\<lparr>dc_entries := es\<rparr>) (evict_loop (dc_max c) (dc_entries c))"

datatype lookup_outcome = Cached "ip list" | Await nat | Resolve nat

definition lookup_enter :: "int \<Rightarrow> string \<Rightarrow> dnscache \<Rightarrow> lookup_outcome \<times> dnscache" where
  "lookup_enter now host c =
     (let miss = (let c1 = c\<lparr>dc_misses := dc_misses c + 1\<rparr> in
          case map_of (dc_inflight c1) host of
            Some fl \<Rightarrow> (Await fl, c1)
          | None \<Rightarrow> (let fl = length (dc_flights c1) in
              (Resolve fl, c1\<lparr>dc_flights := dc_flights c1 @ [\<lparr>fl_ips = [], fl_err = None, fl_done = False\<rparr>],
                 dc_inflight := AList.update host fl (dc_inflight c1)\<rparr>)))
      in case map_of (dc_entries c) host of
        Some e \<Rightarrow> if now < de_exp e then (Cached (de_ips e), c\<lparr>dc_hits := dc_hits c + 1\<rparr>) else miss
      | None \<Rightarrow> miss)"

definition set_result :: "nat \<Rightarrow> ip list \<Rightarrow> goerr option \<Rightarrow> dnscache \<Rightarrow> dnscache" where
  "set_result fl ips err c = c\<lparr>dc_flights := (dc_flights c)[fl :=
     (dc_flights c ! fl)\<lparr>fl_ips := ips, fl_err := err\<rparr>]\<rparr>"

definition lookup_publish :: "int \<Rightarrow> string \<Rightarrow> nat \<Rightarrow> dnscache \<Rightarrow> dnscache option" where
  "lookup_publish now host fl c =
     (let c1 = c\<lparr>dc_inflight := AList.delete host (dc_inflight c)\<rparr>;
          ips = fl_ips (dc_flights c ! fl) in
      if fl_err (dc_flights c ! fl) = None \<and> ips \<noteq> [] then
        (let seq = dc_nextSeq c1 + 1 in
         evictLocked (c1\<lparr>dc_nextSeq := seq, dc_entries := AList.update host
           \<lparr>de_ips = ips, de_exp = now + dc_ttl c1, de_seq = seq\<rparr> (dc_entries c1)\<rparr>))
      else Some c1)"

definition close_flight :: "nat \<Rightarrow> dnscache \<Rightarrow> dnscache" where
  "close_flight fl c = c\<lparr>dc_flights := (dc_flights c)[fl := (dc_flights c ! fl)\<lparr>fl_done := True\<rparr>]\<rparr>"

text \<open>
  \<open>Lookup\<close> run by one caller: \<open>now1\<close> and \<open>now2\<close> are the clock in its two critical sections,
  \<open>resolve\<close> the injected resolver.  \<open>None\<close> is a caller that does not return: it waits for a
  flight of somebody else, or the eviction does not end.
\<close>

definition Lookup ::
  "(string \<Rightarrow> ip list \<times> goerr option) \<Rightarrow> int \<Rightarrow> int \<Rightarrow> string \<Rightarrow> dnscache \<Rightarrow>
    ((ip list \<times> goerr option) \<times> dnscache) option" where
  "Lookup resolve now1 now2 host c =
     (case lookup_enter now1 host c of
        (Cached ips, c1) \<Rightarrow> Some ((ips, None), c1)
      | (Await fl, c1) \<Rightarrow>
          if fl_done (dc_flights c1 ! fl)
          then Some ((fl_ips (dc_flights c1 ! fl), fl_err (dc_flights c1 ! fl)), c1) else None
      | (Resolve fl, c1) \<Rightarrow>
          (case resolve host of (ips, err) \<Rightarrow>
             (case lookup_publish now2 host fl (set_result fl ips err c1) of
                None \<Rightarrow> None
              | Some c2 \<Rightarrow> Some ((ips, err), close_flight fl c2))))"

definition Len :: "dnscache \<Rightarrow> nat" where
  "Len c = length (dc_entries c)"

definition Hits :: "dnscache \<Rightarrow> int" where "Hits c = dc_hits c"
definition Misses :: "dnscache \<Rightarrow> int" where "Misses c = dc_misses c"

subsection \<open>Eviction is first in, first out\<close>

definition entries_ok :: "dns_map \<Rightarrow> bool" where
  "entries_ok es \<longleftrightarrow> distinct (map fst es) \<and> distinct (map (de_seq \<circ> snd) es)"

lemma oldest_scan_min:
  "oldest_scan (k0, s0, False) es = (k, s, b) \<Longrightarrow>
    \<not> b \<and> s \<le> s0 \<and> (\<forall>(k', e)\<in>set es. s \<le> de_seq e) \<and>
    ((k, s) = (k0, s0) \<or> (\<exists>e. (k, e) \<in> set es \<and> de_seq e = s))"
proof (induction es arbitrary: k0 s0)
  case (Cons p es)
  obtain k1 e1 where [simp]: "p = (k1, e1)" by fastforce
  show ?case
  proof (cases "de_seq e1 < s0")
    case True
    with Cons.prems Cons.IH [of k1 "de_seq e1"] show ?thesis by auto
  next
    case False
    with Cons.prems Cons.IH [of k0 s0] show ?thesis by auto
  qed
qed simp

lemma oldest_scan_entry:
  assumes "es \<noteq> []"
  obtains k e where "(k, e) \<in> set es" "fst (oldest_scan ([], 0, True) es) = k"
    "\<And>k' e'. (k', e') \<in> set es \<Longrightarrow> de_seq e \<le> de_seq e'"
proof -
  obtain k1 e1 r where es: "es = (k1, e1) # r" using assms by (cases es) auto
  obtain k s b where o: "oldest_scan (k1, de_seq e1, False) r = (k, s, b)" by (metis prod_cases3)
  from oldest_scan_min [OF o] obtain e where "(k, e) \<in> set es" "de_seq e = s"
    "\<forall>(k', e')\<in>set es. s \<le> de_seq e'" unfolding es by auto
  moreover have "fst (oldest_scan ([], 0, True) es) = k" using o by (simp add: es)
  ultimately show thesis using that by fastforce
qed

lemma entries_ok_delete: "entries_ok es \<Longrightarrow> entries_ok (AList.delete k es)"
  unfolding entries_ok_def AList.delete_eq
  by (auto simp: distinct_map inj_on_def)

lemma delete_distinct_length:
  "distinct (map fst es) \<Longrightarrow> k \<in> fst ` set es \<Longrightarrow> length (AList.delete k es) = length es - 1"
proof (induction es)
  case (Cons p es)
  show ?case
  proof (cases "fst p = k")
    case True
    then have "AList.delete k es = es" using Cons.prems
      by (intro delete_id) (auto simp: image_iff)
    with True show ?thesis by (cases p) auto
  next
    case False
    then have "k \<in> fst ` set es" using Cons.prems by auto
    then have "es \<noteq> []" by auto
    with False Cons show ?thesis by (cases p) (auto simp: Suc_diff_Suc [symmetric] image_iff)
  qed
qed simp

definition keeps_newest :: "int \<Rightarrow> dns_map \<Rightarrow> dns_map \<Rightarrow> bool" where
  "keeps_newest m es es' \<longleftrightarrow> set es' \<subseteq> set es \<and> int (length es') = min m (int (length es)) \<and>
     (\<forall>p\<in>set es - set es'. \<forall>q\<in>set es'. de_seq (snd p) < de_seq (snd q))"

lemma evict_loop_fifo:
  assumes "entries_ok es" "0 \<le> m"
  shows "\<exists>es'. evict_loop m es = Some es' \<and> entries_ok es' \<and> keeps_newest m es es'"
  using assms(1)
proof (induction "length es" arbitrary: es rule: less_induct)
  case less
  show ?case
  proof (cases "m < int (length es)")
    case False
    then show ?thesis using less.prems by (subst evict_loop.simps) (auto simp: keeps_newest_def)
  next
    case True
    with assms(2) have "es \<noteq> []" by auto
    then obtain k e where k: "(k, e) \<in> set es" "fst (oldest_scan ([], 0, True) es) = k"
      and min: "\<And>k' e'. (k', e') \<in> set es \<Longrightarrow> de_seq e \<le> de_seq e'"
      by (rule oldest_scan_entry) auto
    let ?ds = "AList.delete k es"
    have dist: "distinct (map fst es)" "distinct (map (de_seq \<circ> snd) es)"
      using less.prems by (auto simp: entries_ok_def)
    have len: "length ?ds = length es - 1"
      using k by (intro delete_distinct_length dist) force
    then have lt: "length ?ds < length es" using \<open>es \<noteq> []\<close> by simp
    obtain es' where es': "evict_loop m ?ds = Some es'" "entries_ok es'" "keeps_newest m ?ds es'"
      using less.hyps [OF lt entries_ok_delete [OF less.prems]] by auto
    have gone: "p = (k, e)" if "p \<in> set es" "p \<notin> set ?ds" for p
      using that k(1) dist(1) unfolding AList.delete_eq
      by (auto simp: eq_key_imp_eq_value)
    have older: "de_seq e < de_seq (snd q)" if "q \<in> set ?ds" for q
    proof -
      have q: "q \<in> set es" "q \<noteq> (k, e)" using that unfolding AList.delete_eq by auto
      then have "de_seq e \<noteq> de_seq (snd q)"
        using dist(2) k(1) by (force simp: distinct_map inj_on_def)
      moreover have "de_seq e \<le> de_seq (snd q)" using min [of "fst q" "snd q"] q(1) by simp
      ultimately show ?thesis by simp
    qed
    have "keeps_newest m es es'"
      unfolding keeps_newest_def
    proof (intro conjI ballI)
      show "set es' \<subseteq> set es" using es'(3) unfolding keeps_newest_def AList.delete_eq by auto
      show "int (length es') = min m (int (length es))"
        using es'(3) len True unfolding keeps_newest_def by auto
      fix p q assume p: "p \<in> set es - set es'" and q: "q \<in> set es'"
      have "q \<in> set ?ds" using q es'(3) by (auto simp: keeps_newest_def)
      then show "de_seq (snd p) < de_seq (snd q)"
        using p q gone [of p] older es'(3) by (cases "p \<in> set ?ds") (auto simp: keeps_newest_def)
    qed
    moreover have "evict_loop m es = Some es'"
      using True k(2) es'(1) by (subst evict_loop.simps) simp
    ultimately show ?thesis using es'(2) by auto
  qed
qed

text \<open>
  Eviction ends for every maximum that is not negative and leaves exactly the newest
  entries: as many as fit, each stored later than each entry dropped.  The order in which the
  map is iterated has no influence.
\<close>

theorem evictLocked_fifo:
  assumes "entries_ok (dc_entries c)" "0 \<le> dc_max c"
  shows "\<exists>es'. evictLocked c = Some (c\<lparr>dc_entries := es'\<rparr>) \<and>
    keeps_newest (dc_max c) (dc_entries c) es'"
  using evict_loop_fifo [OF assms] by (auto simp: evictLocked_def)

subsection \<open>One caller\<close>

text \<open>What every operation keeps of the cache.\<close>

definition cache_ok :: "dnscache \<Rightarrow> bool" where
  "cache_ok c \<longleftrightarrow> entries_ok (dc_entries c) \<and> int (length (dc_entries c)) \<le> dc_max c \<and>
     0 \<le> dc_max c \<and> (\<forall>(k, e)\<in>set (dc_entries c). de_ips e \<noteq> [] \<and> de_seq e \<le> dc_nextSeq c) \<and>
     distinct (map fst (dc_inflight c))"

lemma set_update_subset: "set (AList.update h e es) \<subseteq> insert (h, e) (set es)"
  by (induction es) auto

lemma distinct_map_update:
  fixes g :: "string \<times> 'a \<Rightarrow> nat"
  assumes "distinct (map g es)" "\<forall>q\<in>set es. g q \<le> n" "g (h, e) = Suc n"
  shows "distinct (map g (AList.update h e es))"
  using assms(1,2)
proof (induction es)
  case (Cons p es)
  have new: "g (h, e) \<notin> g ` set es" using Cons.prems(2) assms(3) by fastforce
  have "g p \<notin> g ` set (AList.update h e es)"
    using Cons.prems assms(3) set_update_subset [of h e es] by fastforce
  with Cons new show ?case by (cases p) auto
qed simp

lemma update_seqs:
  assumes "entries_ok es" "\<And>k e. (k, e) \<in> set es \<Longrightarrow> de_seq e \<le> n" "de_seq e = Suc n"
  shows "entries_ok (AList.update h e es)"
proof -
  have "\<forall>q\<in>set es. (de_seq \<circ> snd) q \<le> n" using assms(2) by force
  then have "distinct (map (de_seq \<circ> snd) (AList.update h e es))"
    using assms(1,3) by (intro distinct_map_update) (auto simp: entries_ok_def)
  then show ?thesis using assms(1) by (simp add: entries_ok_def distinct_update)
qed

lemma update_in: "(h, e) \<in> set (AList.update h e es)"
  by (induction es) auto

text \<open>
  Publishing keeps the invariant and always returns; a stored result is found again, since the
  newest entry is never the one evicted.
\<close>

lemma lookup_publish_ok:
  assumes "cache_ok c"
  shows "\<exists>c'. lookup_publish now h fl c = Some c' \<and> cache_ok c' \<and>
    dc_inflight c' = AList.delete h (dc_inflight c) \<and> dc_flights c' = dc_flights c \<and>
    dc_max c' = dc_max c \<and> dc_ttl c' = dc_ttl c \<and> dc_hits c' = dc_hits c \<and>
    dc_misses c' = dc_misses c \<and>
    (fl_err (dc_flights c ! fl) = None \<and> fl_ips (dc_flights c ! fl) \<noteq> [] \<and> 0 < dc_max c \<longrightarrow>
      (\<exists>e. map_of (dc_entries c') h = Some e \<and> de_ips e = fl_ips (dc_flights c ! fl) \<and>
        de_exp e = now + dc_ttl c))"
proof (cases "fl_err (dc_flights c ! fl) = None \<and> fl_ips (dc_flights c ! fl) \<noteq> []")
  case False
  then show ?thesis
    using assms unfolding lookup_publish_def cache_ok_def Let_def
    by (auto simp: distinct_delete)
next
  case True
  define n where "n = dc_nextSeq c"
  define e where "e = \<lparr>de_ips = fl_ips (dc_flights c ! fl), de_exp = now + dc_ttl c, de_seq = Suc n\<rparr>"
  define es where "es = AList.update h e (dc_entries c)"
  have le: "\<And>k e. (k, e) \<in> set (dc_entries c) \<Longrightarrow> de_seq e \<le> n"
    using assms by (auto simp: cache_ok_def n_def)
  have ok: "entries_ok es"
    unfolding es_def using assms le by (intro update_seqs) (auto simp: cache_ok_def e_def)
  obtain es' where es': "evict_loop (dc_max c) es = Some es'" "entries_ok es'"
    "keeps_newest (dc_max c) es es'"
    using evict_loop_fifo [OF ok] assms by (auto simp: cache_ok_def)
  have kept: "de_ips e' \<noteq> [] \<and> de_seq e' \<le> Suc n" if "(k, e') \<in> set es'" for k e'
  proof -
    have "(k, e') \<in> insert (h, e) (set (dc_entries c))"
      using that es'(3) set_update_subset [of h e "dc_entries c"]
      by (auto simp: keeps_newest_def es_def)
    then show ?thesis using assms True le by (force simp: cache_ok_def e_def)
  qed
  have "map_of es' h = Some e" if "0 < dc_max c"
  proof -
    have "(h, e) \<in> set es" unfolding es_def by (rule update_in)
    moreover have "0 < int (length es)" using \<open>(h, e) \<in> set es\<close> by (cases es) auto
    then have "0 < int (length es')" using es'(3) that by (simp add: keeps_newest_def)
    then have "es' \<noteq> []" by auto
    then obtain q where q: "q \<in> set es'" by (cases es') auto
    moreover have "de_seq (snd q) \<le> Suc n" using q kept [of "fst q" "snd q"] by simp
    moreover have "de_seq e < de_seq (snd q)" if "(h, e) \<notin> set es'"
      using es'(3) q that \<open>(h, e) \<in> set es\<close> unfolding keeps_newest_def
      by (metis Diff_iff snd_conv)
    moreover have "de_seq e = Suc n" by (simp add: e_def)
    ultimately have "(h, e) \<in> set es'" by (metis not_le)
    then show ?thesis using es'(2) by (simp add: entries_ok_def)
  qed
  moreover have "lookup_publish now h fl c = Some (c\<lparr>dc_inflight := AList.delete h (dc_inflight c),
      dc_nextSeq := Suc n, dc_entries := es'\<rparr>)"
    using True es'(1) by (simp add: lookup_publish_def evictLocked_def es_def e_def n_def)
  ultimately show ?thesis
    using assms es' kept unfolding cache_ok_def
    by (auto simp: keeps_newest_def distinct_delete e_def)
qed

lemma set_result_simps [simp]:
  "dc_entries (set_result fl ips err c) = dc_entries c"
  "dc_inflight (set_result fl ips err c) = dc_inflight c"
  "dc_max (set_result fl ips err c) = dc_max c" "dc_ttl (set_result fl ips err c) = dc_ttl c"
  "dc_nextSeq (set_result fl ips err c) = dc_nextSeq c"
  "cache_ok (set_result fl ips err c) = cache_ok c"
  "length (dc_flights (set_result fl ips err c)) = length (dc_flights c)"
  by (simp_all add: set_result_def cache_ok_def)

lemma close_flight_simps [simp]:
  "dc_entries (close_flight fl c) = dc_entries c" "dc_inflight (close_flight fl c) = dc_inflight c"
  "dc_max (close_flight fl c) = dc_max c" "dc_nextSeq (close_flight fl c) = dc_nextSeq c"
  "cache_ok (close_flight fl c) = cache_ok c"
  "length (dc_flights (close_flight fl c)) = length (dc_flights c)"
  by (simp_all add: close_flight_def cache_ok_def)

lemma lookup_enter_miss:
  assumes "cache_ok c" "map_of (dc_inflight c) h = None"
    "\<And>e. map_of (dc_entries c) h = Some e \<Longrightarrow> de_exp e \<le> now"
  shows "fst (lookup_enter now h c) = Resolve (length (dc_flights c))"
    "cache_ok (snd (lookup_enter now h c))"
  using assms by (auto simp: lookup_enter_def Let_def cache_ok_def distinct_update split: option.splits)

text \<open>
  A resolved host is served from the cache until its time to live is over, without asking
  the resolver (whatever it would answer then), and is resolved again afterwards.
\<close>

theorem Lookup_cached:
  assumes ok: "cache_ok c" "dc_inflight c = []" "0 < dc_max c"
    and miss: "map_of (dc_entries c) h = None"
    and first: "resolve h = (ips, None)" "ips \<noteq> []"
  shows "\<exists>c'. Lookup resolve t1 t2 h c = Some ((ips, None), c') \<and>
    (\<forall>resolve' t. t < t2 + dc_ttl c \<longrightarrow>
      Lookup resolve' t t h c' = Some ((ips, None), c'\<lparr>dc_hits := dc_hits c' + 1\<rparr>)) \<and>
    (\<forall>resolve' t. t2 + dc_ttl c \<le> t \<longrightarrow>
      map_option fst (Lookup resolve' t t h c') = Some (resolve' h))"
proof -
  define fl where "fl = length (dc_flights c)"
  define c1 where "c1 = set_result fl ips None (snd (lookup_enter t1 h c))"
  have enter: "fst (lookup_enter t1 h c) = Resolve fl"
    using ok(2) miss by (simp add: lookup_enter_def fl_def Let_def)
  have c1: "cache_ok c1" "dc_ttl c1 = dc_ttl c" "dc_max c1 = dc_max c"
    "dc_inflight c1 = [(h, fl)]" "dc_flights c1 ! fl = \<lparr>fl_ips = ips, fl_err = None, fl_done = False\<rparr>"
    using ok miss by (auto simp: c1_def lookup_enter_def fl_def Let_def cache_ok_def set_result_def)
  obtain c2 where c2: "lookup_publish t2 h fl c1 = Some c2" "cache_ok c2" "dc_inflight c2 = []"
    "dc_max c2 = dc_max c" "dc_ttl c2 = dc_ttl c"
    "\<exists>e. map_of (dc_entries c2) h = Some e \<and> de_ips e = ips \<and> de_exp e = t2 + dc_ttl c"
    using lookup_publish_ok [OF c1(1), of t2 h fl] c1 first(2) ok(3) by auto
  define c' where "c' = close_flight fl c2"
  have look: "Lookup resolve t1 t2 h c = Some ((ips, None), c')"
    using enter c2(1) first(1) by (cases "lookup_enter t1 h c")
      (auto simp: Lookup_def c1_def c'_def)
  obtain e where e: "map_of (dc_entries c') h = Some e" "de_ips e = ips" "de_exp e = t2 + dc_ttl c"
    using c2(6) by (auto simp: c'_def)
  have again: "map_option fst (Lookup resolve' t t h c') = Some (resolve' h)"
    if "t2 + dc_ttl c \<le> t" for resolve' t
  proof -
    have "fst (lookup_enter t h c') = Resolve (length (dc_flights c'))"
      "cache_ok (snd (lookup_enter t h c'))"
      using that e c2(2,3) by (intro lookup_enter_miss; simp add: c'_def)+
    then obtain c3 where c3: "lookup_enter t h c' = (Resolve (length (dc_flights c')), c3)" "cache_ok c3"
      by (cases "lookup_enter t h c'") auto
    obtain ips' err where r: "resolve' h = (ips', err)" by fastforce
    obtain c4 where "lookup_publish t h (length (dc_flights c'))
        (set_result (length (dc_flights c')) ips' err c3) = Some c4"
      using lookup_publish_ok [of "set_result (length (dc_flights c')) ips' err c3" t h] c3(2)
      by auto
    with c3(1) r show ?thesis by (simp add: Lookup_def)
  qed
  have "Lookup resolve' t t h c' = Some ((ips, None), c'\<lparr>dc_hits := dc_hits c' + 1\<rparr>)"
    if "t < t2 + dc_ttl c" for resolve' t
    using that e by (simp add: Lookup_def lookup_enter_def)
  with look again show ?thesis by blast
qed

theorem Lookup_cached_witness:
  "\<exists>c'. Lookup (\<lambda>_. ([[10, 0, 0, 1]], None)) 0 5 ''a'' NewDNSCache = Some (([[10, 0, 0, 1]], None), c')
     \<and> Lookup (\<lambda>_. ([], Some EOF)) 60000000000 60000000000 ''a'' c'
       = Some (([[10, 0, 0, 1]], None), c'\<lparr>dc_hits := dc_hits c' + 1\<rparr>)"
proof -
  have "cache_ok NewDNSCache" "dc_inflight NewDNSCache = []" "0 < dc_max NewDNSCache"
    "map_of (dc_entries NewDNSCache) ''a'' = None"
    by (simp_all add: NewDNSCache_def cache_ok_def entries_ok_def)
  from Lookup_cached [OF this, of "\<lambda>_. ([[10, 0, 0, 1]], None)" "[[10, 0, 0, 1]]" 0 5]
  show ?thesis by (auto simp: NewDNSCache_def)
qed

theorem evictLocked_fifo_witness:
  "\<exists>es'. keeps_newest 1 [(''a'', \<lparr>de_ips = [], de_exp = 0, de_seq = 2\<rparr>),
     (''b'', \<lparr>de_ips = [], de_exp = 0, de_seq = 1\<rparr>)] es'"
  using evictLocked_fifo [of "NewDNSCache\<lparr>dc_max := 1, dc_entries :=
     [(''a'', \<lparr>de_ips = [], de_exp = 0, de_seq = 2\<rparr>), (''b'', \<lparr>de_ips = [], de_exp = 0, de_seq = 1\<rparr>)]\<rparr>"]
  by (auto simp: entries_ok_def)

subsection \<open>Any number of callers\<close>

text \<open>
  A caller is idle; waits for a flight; runs the resolver of a flight it created; has stored
  the result in the flight; has published it and is about to close the channel; or has
  returned.  The two critical sections are atomic (the mutex), everything between interleaves.
\<close>

datatype lookup_pc = LIdle | LWait string nat | LResolving string nat | LResolved string nat
  | LPublished string nat | LDone "ip list" "goerr option"

record dns_sys =
  ds_cache :: dnscache
  ds_now :: int
  ds_pcs :: "lookup_pc list"

definition put :: "nat \<Rightarrow> lookup_pc \<Rightarrow> dnscache \<Rightarrow> dns_sys \<Rightarrow> dns_sys" where
  "put i pc c s = s\<lparr>ds_cache := c, ds_pcs := (ds_pcs s)[i := pc]\<rparr>"

inductive dns_step :: "dns_sys \<Rightarrow> dns_sys \<Rightarrow> bool" where
  tick: "0 \<le> d \<Longrightarrow> dns_step s (s\<lparr>ds_now := ds_now s + d\<rparr>)"
| hit: "i < length (ds_pcs s) \<Longrightarrow> ds_pcs s ! i = LIdle \<Longrightarrow>
    lookup_enter (ds_now s) h (ds_cache s) = (Cached ips, c') \<Longrightarrow>
    dns_step s (put i (LDone ips None) c' s)"
| join: "i < length (ds_pcs s) \<Longrightarrow> ds_pcs s ! i = LIdle \<Longrightarrow>
    lookup_enter (ds_now s) h (ds_cache s) = (Await fl, c') \<Longrightarrow> dns_step s (put i (LWait h fl) c' s)"
| launch: "i < length (ds_pcs s) \<Longrightarrow> ds_pcs s ! i = LIdle \<Longrightarrow>
    lookup_enter (ds_now s) h (ds_cache s) = (Resolve fl, c') \<Longrightarrow>
    dns_step s (put i (LResolving h fl) c' s)"
| resolved: "i < length (ds_pcs s) \<Longrightarrow> ds_pcs s ! i = LResolving h fl \<Longrightarrow>
    dns_step s (put i (LResolved h fl) (set_result fl ips err (ds_cache s)) s)"
| publish: "i < length (ds_pcs s) \<Longrightarrow> ds_pcs s ! i = LResolved h fl \<Longrightarrow>
    lookup_publish (ds_now s) h fl (ds_cache s) = Some c' \<Longrightarrow>
    dns_step s (put i (LPublished h fl) c' s)"
| finish: "i < length (ds_pcs s) \<Longrightarrow> ds_pcs s ! i = LPublished h fl \<Longrightarrow>
    dns_step s (put i (LDone (fl_ips (dc_flights (ds_cache s) ! fl)) (fl_err (dc_flights (ds_cache s) ! fl)))
      (close_flight fl (ds_cache s)) s)"
| wake: "i < length (ds_pcs s) \<Longrightarrow> ds_pcs s ! i = LWait h fl \<Longrightarrow> fl_done (dc_flights (ds_cache s) ! fl) \<Longrightarrow>
    dns_step s (put i (LDone (fl_ips (dc_flights (ds_cache s) ! fl)) (fl_err (dc_flights (ds_cache s) ! fl)))
      (ds_cache s) s)"
| again: "i < length (ds_pcs s) \<Longrightarrow> ds_pcs s ! i = LDone ips err \<Longrightarrow>
    dns_step s (put i LIdle (ds_cache s) s)"

inductive dns_reach :: "int \<Rightarrow> nat \<Rightarrow> dns_sys \<Rightarrow> bool" for m n where
  start: "dns_reach m n \<lparr>ds_cache = NewDNSCache\<lparr>dc_max := m\<rparr>, ds_now = t0, ds_pcs = replicate n LIdle\<rparr>"
| step: "dns_reach m n s \<Longrightarrow> dns_step s t \<Longrightarrow> dns_reach m n t"

fun on_flight :: "nat \<Rightarrow> lookup_pc \<Rightarrow> bool" where
  "on_flight fl (LResolving h i) = (i = fl)"
| "on_flight fl (LResolved h i) = (i = fl)"
| "on_flight fl (LPublished h i) = (i = fl)"
| "on_flight fl _ = False"

fun resolving :: "string \<Rightarrow> nat \<Rightarrow> lookup_pc \<Rightarrow> bool" where
  "resolving h fl (LResolving h' i) = (h' = h \<and> i = fl)"
| "resolving h fl (LResolved h' i) = (h' = h \<and> i = fl)"
| "resolving h fl _ = False"

fun resolves_host :: "string \<Rightarrow> lookup_pc \<Rightarrow> bool" where
  "resolves_host h (LResolving h' i) = (h' = h)"
| "resolves_host h (LResolved h' i) = (h' = h)"
| "resolves_host h _ = False"

definition open_flight :: "dnscache \<Rightarrow> nat \<Rightarrow> bool" where
  "open_flight c fl \<longleftrightarrow> fl < length (dc_flights c) \<and> \<not> fl_done (dc_flights c ! fl)"

definition dns_inv :: "int \<Rightarrow> dns_sys \<Rightarrow> bool" where
  "dns_inv m s \<longleftrightarrow> cache_ok (ds_cache s) \<and> dc_max (ds_cache s) = m \<and>
     (\<forall>h fl. cnt (resolving h fl) (ds_pcs s) =
       (if map_of (dc_inflight (ds_cache s)) h = Some fl then 1 else 0)) \<and>
     (\<forall>h. cnt (resolves_host h) (ds_pcs s) =
       (if map_of (dc_inflight (ds_cache s)) h = None then 0 else 1)) \<and>
     (\<forall>fl. cnt (on_flight fl) (ds_pcs s) = (if open_flight (ds_cache s) fl then 1 else 0)) \<and>
     (\<forall>i<length (ds_pcs s). \<forall>h fl. ds_pcs s ! i = LWait h fl \<longrightarrow> fl < length (dc_flights (ds_cache s)))"

lemma lookup_enter_cases:
  "lookup_enter now h c = (Cached ips, c') \<Longrightarrow> c' = c\<lparr>dc_hits := dc_hits c + 1\<rparr>"
  "lookup_enter now h c = (Await fl, c') \<Longrightarrow>
     map_of (dc_inflight c) h = Some fl \<and> c' = c\<lparr>dc_misses := dc_misses c + 1\<rparr>"
  "lookup_enter now h c = (Resolve fl, c') \<Longrightarrow>
     map_of (dc_inflight c) h = None \<and> fl = length (dc_flights c) \<and>
     c' = c\<lparr>dc_misses := dc_misses c + 1,
       dc_flights := dc_flights c @ [\<lparr>fl_ips = [], fl_err = None, fl_done = False\<rparr>],
       dc_inflight := AList.update h fl (dc_inflight c)\<rparr>"
  by (auto simp: lookup_enter_def Let_def split: option.splits if_splits)

lemma put_simps [simp]:
  "ds_cache (put i pc c s) = c" "ds_pcs (put i pc c s) = (ds_pcs s)[i := pc]"
  "ds_now (put i pc c s) = ds_now s"
  by (simp_all add: put_def)

lemma cache_ok_updates [simp]:
  "cache_ok (c\<lparr>dc_hits := x\<rparr>) = cache_ok c" "cache_ok (c\<lparr>dc_misses := x\<rparr>) = cache_ok c"
  "cache_ok (c\<lparr>dc_flights := f\<rparr>) = cache_ok c"
  by (simp_all add: cache_ok_def)

lemma open_flight_simps [simp]:
  "open_flight (c\<lparr>dc_hits := x\<rparr>) fl = open_flight c fl"
  "open_flight (c\<lparr>dc_misses := x\<rparr>) fl = open_flight c fl"
  "open_flight (c\<lparr>dc_inflight := y\<rparr>) fl = open_flight c fl"
  by (simp_all add: open_flight_def)

lemma open_flight_set_result [simp]: "open_flight (set_result i ips err c) fl = open_flight c fl"
  by (cases "i < length (dc_flights c)") (auto simp: open_flight_def set_result_def nth_list_update)

lemma open_flight_close:
  "i < length (dc_flights c) \<Longrightarrow> open_flight (close_flight i c) fl \<longleftrightarrow> fl \<noteq> i \<and> open_flight c fl"
  by (auto simp: open_flight_def close_flight_def nth_list_update)

lemma open_flight_append:
  "open_flight (c\<lparr>dc_flights := dc_flights c @ [\<lparr>fl_ips = [], fl_err = None, fl_done = False\<rparr>]\<rparr>) fl
     \<longleftrightarrow> fl = length (dc_flights c) \<or> open_flight c fl"
  by (auto simp: open_flight_def nth_append)

lemma open_flight_cong: "dc_flights c' = dc_flights c \<Longrightarrow> open_flight c' fl = open_flight c fl"
  by (simp add: open_flight_def)

lemma dns_step_inv:
  assumes "dns_step s t" "dns_inv m s"
  shows "dns_inv m t"
  using assms
proof (induction rule: dns_step.induct)
  case (tick d s)
  then show ?case by (simp add: dns_inv_def)
next
  case (hit i s h ips c')
  note c' = lookup_enter_cases(1) [OF hit(3)]
  from hit show ?case unfolding c' by (auto simp: dns_inv_def cnt_update nth_list_update)
next
  case (join i s h fl c')
  note c' = lookup_enter_cases(2) [OF join(3)]
  have "cnt (resolving h fl) (ds_pcs s) = 1" using join.prems c' by (simp add: dns_inv_def)
  moreover have "cnt (resolving h fl) (ds_pcs s) \<le> cnt (on_flight fl) (ds_pcs s)"
    by (rule cnt_mono) (metis on_flight.simps(1,2) resolving.elims(2))
  ultimately have "fl < length (dc_flights (ds_cache s))"
    using join.prems by (auto simp: dns_inv_def open_flight_def split: if_splits)
  with join c' show ?case by (auto simp: dns_inv_def cnt_update nth_list_update)
next
  case (launch i s h fl c')
  note c' = lookup_enter_cases(3) [OF launch(3)]
  have none: "\<not> open_flight (ds_cache s) fl" using c' by (simp add: open_flight_def)
  have "cache_ok c'" using launch.prems c' by (auto simp: dns_inv_def cache_ok_def distinct_update)
  moreover have "open_flight c' k \<longleftrightarrow> k = fl \<or> open_flight (ds_cache s) k" for k
    using c' by (auto simp: open_flight_def nth_append)
  ultimately show ?case
    using launch c' none by (auto simp: dns_inv_def cnt_update update_conv' nth_list_update)
next
  case (resolved i s h fl ips err)
  then show ?case by (auto simp: dns_inv_def cnt_update nth_list_update)
next
  case (publish i s h fl c')
  have ok: "cache_ok (ds_cache s)" using publish.prems by (simp add: dns_inv_def)
  from lookup_publish_ok [OF this, of "ds_now s" h fl] publish(3) have c': "cache_ok c'"
    "dc_inflight c' = AList.delete h (dc_inflight (ds_cache s))"
    "dc_flights c' = dc_flights (ds_cache s)" "dc_max c' = dc_max (ds_cache s)" by auto
  have "1 \<le> cnt (resolving h fl) (ds_pcs s)"
    using publish(1,2) by (intro cnt_pos [of i]) auto
  then have "map_of (dc_inflight (ds_cache s)) h = Some fl"
    using publish.prems by (auto simp: dns_inv_def split: if_splits)
  with publish c' open_flight_cong [OF c'(3)] show ?case
    by (auto simp: dns_inv_def cnt_update delete_conv' nth_list_update)
next
  case (finish i s h fl)
  have "1 \<le> cnt (on_flight fl) (ds_pcs s)"
    using finish(1,2) by (intro cnt_pos [of i]) auto
  then have "open_flight (ds_cache s) fl"
    using finish.prems by (auto simp: dns_inv_def split: if_splits)
  moreover from this have "fl < length (dc_flights (ds_cache s))" by (simp add: open_flight_def)
  ultimately show ?case
    using finish open_flight_close [of fl "ds_cache s"]
    by (auto simp: dns_inv_def cnt_update nth_list_update close_flight_def)
next
  case (wake i s h fl)
  then show ?case by (auto simp: dns_inv_def cnt_update nth_list_update)
next
  case (again i s ips err)
  then show ?case by (auto simp: dns_inv_def cnt_update nth_list_update)
qed

lemma dns_reach_inv: "dns_reach m n s \<Longrightarrow> 0 \<le> m \<Longrightarrow> dns_inv m s"
proof (induction rule: dns_reach.induct)
  case (start t0)
  then show ?case
    by (simp add: dns_inv_def NewDNSCache_def cache_ok_def entries_ok_def cnt_replicate open_flight_def)
qed (auto intro: dns_step_inv)

text \<open>
  C10. Single flight: at any time at most one caller is resolving a given host.
\<close>

theorem dns_single_flight:
  assumes "dns_reach m n s" "0 \<le> m"
  shows "cnt (resolves_host h) (ds_pcs s) \<le> 1"
  using dns_reach_inv [OF assms] by (simp add: dns_inv_def)

text \<open>
  C29. No waiter is forgotten: a caller that waits for a flight either can return at once, or
  the caller that runs the flight has a next step (publishing included, which always returns).
\<close>

theorem dns_waiter_progress:
  assumes reach: "dns_reach m n s" "0 \<le> m"
    and wait: "i < length (ds_pcs s)" "ds_pcs s ! i = LWait h fl"
  shows "\<exists>j t. j < length (ds_pcs s) \<and> dns_step s t \<and> ds_pcs t ! j \<noteq> ds_pcs s ! j \<and>
    (if open_flight (ds_cache s) fl then on_flight fl (ds_pcs s ! j)
     else j = i \<and> (\<exists>ips err. ds_pcs t ! j = LDone ips err))"
proof -
  have inv: "dns_inv m s" by (rule dns_reach_inv [OF reach])
  show ?thesis
  proof (cases "open_flight (ds_cache s) fl")
    case False
    then have "fl_done (dc_flights (ds_cache s) ! fl)"
      using inv wait by (auto simp: dns_inv_def open_flight_def)
    from dns_step.wake [OF wait this] False wait show ?thesis
      by (intro exI [of _ i]) (auto intro!: exI)
  next
    case True
    then have "cnt (on_flight fl) (ds_pcs s) = 1" using inv by (simp add: dns_inv_def)
    then obtain j where j: "j < length (ds_pcs s)" "on_flight fl (ds_pcs s ! j)"
      using cnt_exists [of "on_flight fl" "ds_pcs s"] by auto
    have "\<exists>t. dns_step s t \<and> ds_pcs t ! j \<noteq> ds_pcs s ! j"
    proof (cases "ds_pcs s ! j")
      case (LResolving h' i)
      from dns_step.resolved [OF j(1) this, of "[]" None] LResolving j(1) show ?thesis by auto
    next
      case (LResolved h' i)
      have "cache_ok (ds_cache s)" using inv by (simp add: dns_inv_def)
      then obtain c' where "lookup_publish (ds_now s) h' i (ds_cache s) = Some c'"
        using lookup_publish_ok by blast
      from dns_step.publish [OF j(1) LResolved this] LResolved j(1) show ?thesis by auto
    next
      case (LPublished h' i)
      from dns_step.finish [OF j(1) this] LPublished j(1) show ?thesis by auto
    qed (use j(2) in auto)
    with True j show ?thesis by auto
  qed
qed

text \<open>
  However the callers interleave, the cache holds at most its maximum number of entries,
  one per host, and never an empty (or failed) resolution.
\<close>

theorem dns_cache_bounded:
  assumes "dns_reach m n s" "0 \<le> m"
  shows "int (Len (ds_cache s)) \<le> m \<and> distinct (map fst (dc_entries (ds_cache s))) \<and>
    (\<forall>h e. map_of (dc_entries (ds_cache s)) h = Some e \<longrightarrow> de_ips e \<noteq> [])"
  using dns_reach_inv [OF assms] map_of_SomeD
  by (fastforce simp: dns_inv_def cache_ok_def entries_ok_def Len_def)

lemma two_callers_run:
  obtains s where "dns_reach 5 2 s" "ds_pcs s = [LResolving ''a'' 0, LWait ''a'' 0]"
    "open_flight (ds_cache s) 0"
proof -
  define s0 where "s0 = \<lparr>ds_cache = NewDNSCache\<lparr>dc_max := 5\<rparr>, ds_now = 0, ds_pcs = [LIdle, LIdle]\<rparr>"
  have r0: "dns_reach 5 2 s0"
    using dns_reach.start [of 5 2 0] by (simp add: s0_def numeral_2_eq_2)
  define c1 where "c1 = snd (lookup_enter 0 ''a'' (ds_cache s0))"
  have e1: "lookup_enter 0 ''a'' (ds_cache s0) = (Resolve 0, c1)"
    by (simp add: c1_def s0_def lookup_enter_def NewDNSCache_def)
  define s1 where "s1 = put 0 (LResolving ''a'' 0) c1 s0"
  have r1: "dns_reach 5 2 s1" unfolding s1_def
    using e1 by (intro dns_reach.step [OF r0] dns_step.launch) (auto simp: s0_def)
  define c2 where "c2 = snd (lookup_enter 0 ''a'' c1)"
  have e2: "lookup_enter 0 ''a'' c1 = (Await 0, c2)"
    by (simp add: c2_def c1_def s0_def lookup_enter_def NewDNSCache_def)
  have "dns_reach 5 2 (put 1 (LWait ''a'' 0) c2 s1)"
    using e2 by (intro dns_reach.step [OF r1] dns_step.join) (auto simp: s0_def s1_def)
  then show thesis
    by (rule that) (simp_all add: s1_def s0_def c1_def c2_def lookup_enter_def NewDNSCache_def
        open_flight_def)
qed

theorem dns_single_flight_witness:
  "\<exists>s. dns_reach 5 2 s \<and> ds_pcs s = [LResolving ''a'' 0, LWait ''a'' 0] \<and>
     cnt (resolves_host ''a'') (ds_pcs s) \<le> 1"
  using two_callers_run dns_single_flight [of 5 2 _ "''a''"] by (metis zero_le_numeral)

theorem dns_waiter_progress_witness:
  "\<exists>s t j. dns_reach 5 2 s \<and> dns_step s t \<and> j < length (ds_pcs s) \<and> on_flight 0 (ds_pcs s ! j)"
proof -
  obtain s where s: "dns_reach 5 2 s" "ds_pcs s = [LResolving ''a'' 0, LWait ''a'' 0]"
    "open_flight (ds_cache s) 0" by (rule two_callers_run)
  have "1 < length (ds_pcs s)" "ds_pcs s ! 1 = LWait ''a'' 0" by (simp_all add: s)
  from dns_waiter_progress [OF s(1) _ this] s(1,3) show ?thesis by auto
qed

theorem dns_cache_bounded_witness:
  "\<exists>s. dns_reach 5 2 s \<and> int (Len (ds_cache s)) \<le> 5"
  using two_callers_run dns_cache_bounded [of 5 2] by (metis zero_le_numeral)

subsection \<open>Dialling through the cache\<close>

text \<open>
  \<open>dialCached\<close>: the dialer is a parameter; the second result lists the addresses dialled.
\<close>

fun dial_ips :: "(string \<Rightarrow> goerr + 'c) \<Rightarrow> string \<Rightarrow> ip list \<Rightarrow> 'c option \<times> string list" where
  "dial_ips dial port [] = (None, [])"
| "dial_ips dial port (ip # ips) =
     (let a = join_host_port (ip_str ip) port in
      case dial a of
        Inr conn \<Rightarrow> (Some conn, [a])
      | Inl derr \<Rightarrow> (case dial_ips dial port ips of (r, tr) \<Rightarrow> (r, a # tr)))"

definition dialCached ::
  "(string \<Rightarrow> goerr + 'c) \<Rightarrow> (string \<Rightarrow> ip list \<times> goerr option) \<Rightarrow> string \<Rightarrow> (goerr + 'c) \<times> string list"
  where
  "dialCached dial lookup hostport =
     (case split_host_port hostport of
        None \<Rightarrow> (dial hostport, [hostport])
      | Some (host, port) \<Rightarrow>
          if is_ip_literal host then (dial hostport, [hostport])
          else (case lookup host of (ips, rerr) \<Rightarrow>
            if rerr \<noteq> None \<or> ips = [] then (dial hostport, [hostport])
            else (case dial_ips dial port ips of
                (Some conn, tr) \<Rightarrow> (Inr conn, tr)
              | (None, tr) \<Rightarrow> (dial hostport, tr @ [hostport]))))"

text \<open>The reference: which addresses are worth trying, and trying them in order.\<close>

definition dial_candidates :: "(string \<Rightarrow> ip list \<times> goerr option) \<Rightarrow> string \<Rightarrow> string list" where
  "dial_candidates lookup hostport =
     (case split_host_port hostport of
        Some (host, port) \<Rightarrow>
          if is_ip_literal host \<or> snd (lookup host) \<noteq> None then [hostport]
          else map (\<lambda>ip. join_host_port (ip_str ip) port) (fst (lookup host)) @ [hostport]
      | None \<Rightarrow> [hostport])"

fun try_all :: "(string \<Rightarrow> goerr + 'c) \<Rightarrow> string list \<Rightarrow> (goerr + 'c) \<times> string list" where
  "try_all dial [] = (Inl EOF, [])"
| "try_all dial [a] = (dial a, [a])"
| "try_all dial (a # as) = (case dial a of Inr c \<Rightarrow> (Inr c, [a])
     | Inl _ \<Rightarrow> (case try_all dial as of (r, tr) \<Rightarrow> (r, a # tr)))"

lemma try_all_ips:
  "try_all dial (map (\<lambda>ip. join_host_port (ip_str ip) port) ips @ [h]) =
     (case dial_ips dial port ips of (Some conn, tr) \<Rightarrow> (Inr conn, tr)
      | (None, tr) \<Rightarrow> (dial h, tr @ [h]))"
proof (induction ips)
  case (Cons ip ips)
  obtain a as where "map (\<lambda>ip. join_host_port (ip_str ip) port) ips @ [h] = a # as"
    by (cases ips) auto
  with Cons show ?case by (auto simp: Let_def split: sum.splits prod.splits option.splits)
qed simp

lemma dialCached_try_all: "dialCached dial lookup hp = try_all dial (dial_candidates lookup hp)"
  by (auto simp: dialCached_def dial_candidates_def try_all_ips split: option.splits prod.splits)

text \<open>
  C20. Dialling through the cache tries the resolved addresses in order and the plain
  host name last, and returns the first connection made or the plain dial's error.
\<close>

theorem dialCached_refines: "dialCached dial lookup hp = try_all dial (dial_candidates lookup hp)"
  by (rule dialCached_try_all)

lemma try_all_trace: "set (snd (try_all dial as)) \<subseteq> set as"
  by (induction dial as rule: try_all.induct) (auto split: sum.splits prod.splits)

text \<open>
  Whatever the resolver answers, every address dialled has the port that was asked for.
\<close>

theorem dialCached_port:
  assumes "split_host_port hp = Some (host, port)" "a \<in> set (snd (dialCached dial lookup hp))"
  shows "\<exists>h. split_host_port a = Some (h, port)"
proof -
  have "a \<in> set (dial_candidates lookup hp)"
    using assms(2) try_all_trace unfolding dialCached_try_all by blast
  moreover have "split_host_port (join_host_port (ip_str ip) port) = Some (ip_str ip, port)" for ip
    by (rule split_join_host_port) (simp_all add: ip_str_no_bracket split_host_port_port [OF assms(1)])
  ultimately show ?thesis using assms(1)
    by (auto simp: dial_candidates_def split: if_splits)
qed

theorem dialCached_port_witness:
  "\<exists>h. split_host_port ''10.0.0.1:443'' = Some (h, ''443'')"
proof -
  have "split_host_port ''a.b:443'' = Some (''a.b'', ''443'')" by code_simp
  moreover have "''10.0.0.1:443'' \<in> set (snd (dialCached (\<lambda>a. Inr a :: goerr + string)
      (\<lambda>_. ([[10, 0, 0, 1]], None)) ''a.b:443''))" by code_simp
  ultimately show ?thesis by (rule dialCached_port)
qed

end
