(* ===== verification/Dns_Rules.thy ===== *)
theory Dns_Rules
  imports Gs_Lib
begin

text \<open>
  \<open>src/connections/prodns/search_dns.go\<close>: the tables by which the client decides where a host
  is resolved and dialled.  \<open>PAC_HOSTS\<close> are the hosts to proxy (a host matches when any of its
  parent domains is listed, and is then listed itself), \<open>local2host\<close> and the fuzzy patterns the
  hosts to reach directly, \<open>ip2host\<close> the reverse table, \<open>DYNAMIC_DIRECT\<close> the networks already
  excepted in the firewall.  A file is the list of its lines, or absent; the commands executed
  are kept in a log.
\<close>

record dns_record =
  dr_Host :: string
  dr_IPs :: "string list"
  dr_timeout :: int

record dns_tables =
  PAC_HOSTS :: "string set"
  DYNAMIC_DIRECT :: "string set"
  ip2host :: "(string \<times> string) list"
  local2host :: "(string \<times> string) list"
  fuzzyHost :: "string list"
  domainsToAddresses :: "(string \<times> dns_record) list"
  dns_cmds :: "string list"

definition no_tables :: dns_tables where
  "no_tables = \<lparr>PAC_HOSTS = {}, DYNAMIC_DIRECT = {}, ip2host = [], local2host = [], fuzzyHost = [],
     domainsToAddresses = [], dns_cmds = []\<rparr>"

definition rule_line :: "gslib \<Rightarrow> string gslist \<Rightarrow> string \<Rightarrow> dns_tables \<Rightarrow> dns_tables" where
  "rule_line G L line st =
     (let t = gs_Trim G line in
      if gs_StartsWith G t ''#'' then st
      else if t = [] then st
      else if gs_In G t '' '' then st
      else if gs_In G line ''*'' then st\<lparr>fuzzyHost := gl_Add L (fuzzyHost st) t\<rparr>
      else st\<lparr>local2host := AList.update t ''local'' (local2host st)\<rparr>)"

definition LoadLocalRule ::
  "gslib \<Rightarrow> string gslist \<Rightarrow> string list option \<Rightarrow> dns_tables \<Rightarrow> dns_tables" where
  "LoadLocalRule G L file st = (case file of
     None \<Rightarrow> st | Some lines \<Rightarrow> foldl (\<lambda>s l. rule_line G L l s) st lines)"

text \<open>A line of a pac file contributes what stands between its first two quotes.\<close>

definition pac_line :: "gslib \<Rightarrow> string \<Rightarrow> dns_tables \<Rightarrow> dns_tables go" where
  "pac_line G line st =
     (let t = gs_Trim G line in
      if gs_StartsWith G t ''#'' then Ret st
      else if t = [] then Ret st
      else if \<not> gs_In G t [CHR 0x22] then Ret st
      else case gs_Split G line [CHR 0x22] of
        _ # h # _ \<Rightarrow> Ret (st\<lparr>PAC_HOSTS := insert (gs_Trim G h) (PAC_HOSTS st)\<rparr>)
      | _ \<Rightarrow> Panic)"

fun pac_lines :: "gslib \<Rightarrow> string list \<Rightarrow> dns_tables \<Rightarrow> dns_tables go" where
  "pac_lines G [] st = Ret st"
| "pac_lines G (l # ls) st = go_bind (pac_line G l st) (pac_lines G ls)"

definition LoadLocalPac ::
  "gslib \<Rightarrow> string \<Rightarrow> string list option \<Rightarrow> dns_tables \<Rightarrow> dns_tables go" where
  "LoadLocalPac G path file st =
     (case file of
        Some lines \<Rightarrow> if gs_EndsWith G path ''.pac'' then pac_lines G lines st else Ret st
      | None \<Rightarrow> Ret st)"

definition SearchIP :: "string \<Rightarrow> dns_tables \<Rightarrow> string" where
  "SearchIP ip st = (case map_of (ip2host st) ip of Some domai \<Rightarrow> domai | None \<Rightarrow> [])"

text \<open>The loop of \<open>IsPac\<close> from the last label on; \<open>dd\<close> is the suffix built so far.\<close>

fun pac_scan :: "string set \<Rightarrow> string list \<Rightarrow> string \<Rightarrow> string option" where
  "pac_scan pac [] dd = None"
| "pac_scan pac (f # fs) dd =
     (let d = trim_suffix (f @ ''.'' @ dd) ''.'' in
      if d \<in> pac then Some d else pac_scan pac fs d)"

definition IsPac :: "string \<Rightarrow> dns_tables \<Rightarrow> bool \<times> dns_tables" where
  "IsPac ip0 st =
     (let ip = trim_suffix ip0 ''.'' in
      if PAC_HOSTS st = {} then (True, st)
      else case pac_scan (PAC_HOSTS st) (rev (split_on CHR ''.'' ip)) [] of
        None \<Rightarrow> (False, st)
      | Some dd \<Rightarrow>
          (True, if dd \<noteq> ip then st\<lparr>PAC_HOSTS := insert ip (PAC_HOSTS st)\<rparr> else st))"

fun fuzzy_scan :: "gslib \<Rightarrow> string \<Rightarrow> string list \<Rightarrow> bool" where
  "fuzzy_scan G ip [] = False"
| "fuzzy_scan G ip (i # is) =
     (if gs_In G i ''*''
      then (let left = gs_Replace G i ''*'' [] in
        if 2 < length left \<and> gs_In G ip left then True else fuzzy_scan G ip is)
      else if i = ip then True else fuzzy_scan G ip is)"

definition IsLocal :: "gslib \<Rightarrow> string \<Rightarrow> dns_tables \<Rightarrow> bool" where
  "IsLocal G ip st =
     (if map_of (local2host st) ip \<noteq> None then True else fuzzy_scan G ip (fuzzyHost st))"

text \<open>\<open>AddLocalIP\<close> cuts at the third dot; with fewer than three parts the slice panics.\<close>

definition AddLocalIP :: "string \<Rightarrow> dns_tables \<Rightarrow> dns_tables go" where
  "AddLocalIP ip st =
     (let fs = split_on CHR ''.'' ip in
      if length fs < 3 then Panic
      else
        let ff = join_with CHR ''.'' (take 3 fs) @ ''.0/24'' in
        if ff \<in> DYNAMIC_DIRECT st then Ret st
        else Ret (st\<lparr>dns_cmds := dns_cmds st @ [''ipset add DIRECT '' @ ff],
                    DYNAMIC_DIRECT := insert ff (DYNAMIC_DIRECT st)\<rparr>))"

definition ClearDns :: "gslib \<Rightarrow> string gslist \<Rightarrow> string list option \<Rightarrow> dns_tables \<Rightarrow> dns_tables" where
  "ClearDns G L file st =
     (let names = foldl (gl_Add L) [] (map fst (domainsToAddresses st));
          st1 = foldl (\<lambda>s n. s\<lparr>domainsToAddresses := AList.delete n (domainsToAddresses s)\<rparr>)
            st (gl_Every L names) in
      LoadLocalRule G L file (st1\<lparr>domainsToAddresses := []\<rparr>))"

subsection \<open>Matching by parent domain\<close>

text \<open>The specification: the host itself or one of its parent domains is listed.\<close>

definition dot_in :: "string set \<Rightarrow> string \<Rightarrow> bool" where
  "dot_in pac h \<longleftrightarrow> h \<in> pac \<or> (\<exists>d\<in>pac. suffix (CHR ''.'' # d) h)"

definition host_ok :: "string \<Rightarrow> bool" where
  "host_ok h \<longleftrightarrow> [] \<notin> set (split_on CHR ''.'' h)"

lemma split_on_app: "split_on c (x @ c # y) = split_on c x @ split_on c y"
proof (induction x)
  case (Cons a x)
  then show ?case by (cases "split_on c x") auto
qed simp

lemma join_with_app: "xs \<noteq> [] \<Longrightarrow> ys \<noteq> [] \<Longrightarrow>
    join_with c (xs @ ys) = join_with c xs @ c # join_with c ys"
proof (induction c xs rule: join_with.induct)
  case (2 c s)
  then show ?case by (cases ys) auto
qed auto

lemma trim_dot_id: "s = [] \<or> last s \<noteq> CHR ''.'' \<Longrightarrow> trim_suffix s ''.'' = s"
proof -
  assume a: "s = [] \<or> last s \<noteq> CHR ''.''"
  have "\<not> has_suffix s ''.''"
    using a by (auto simp: has_suffix_iff suffix_def)
  then show ?thesis by (simp add: trim_suffix_def)
qed

lemma trim_dot_drop: "trim_suffix (s @ ''.'') ''.'' = s"
  by (simp add: trim_suffix_def has_suffix_iff)

lemma join_last: "ss \<noteq> [] \<Longrightarrow> last ss \<noteq> [] \<Longrightarrow> join_with c ss \<noteq> [] \<and> last (join_with c ss) = last (last ss)"
  by (induction c ss rule: join_with.induct) auto

definition plain_label :: "string \<Rightarrow> bool" where
  "plain_label f \<longleftrightarrow> f \<noteq> [] \<and> CHR ''.'' \<notin> set f"

lemma scan_step:
  assumes "list_all plain_label (f # fs)"
  shows "trim_suffix (f @ ''.'' @ join_with CHR ''.'' fs) ''.'' = join_with CHR ''.'' (f # fs)"
proof (cases fs)
  case Nil
  then show ?thesis using trim_dot_drop by simp
next
  case (Cons g gs)
  have ne: "last fs \<noteq> []" "CHR ''.'' \<notin> set (last fs)"
    using assms Cons last_in_set [of fs] by (auto simp: list_all_iff plain_label_def)
  have "last (f @ ''.'' @ join_with CHR ''.'' fs) \<noteq> CHR ''.''"
    using join_last [of fs "CHR ''.''"] ne Cons by (metis append_is_Nil_conv last_appendR last_in_set list.distinct(1))
  then show ?thesis using trim_dot_id Cons by simp
qed

lemma pac_scan_spec:
  assumes "list_all plain_label (fs1 @ fs2)"
  shows "(pac_scan pac (rev fs1) (join_with CHR ''.'' fs2) = None \<longleftrightarrow>
      (\<forall>k<length fs1. join_with CHR ''.'' (drop k fs1 @ fs2) \<notin> pac)) \<and>
    (pac_scan pac (rev fs1) (join_with CHR ''.'' fs2) = Some d \<longrightarrow>
      d \<in> pac \<and> (\<exists>k<length fs1. d = join_with CHR ''.'' (drop k fs1 @ fs2)))"
  using assms
proof (induction fs1 arbitrary: fs2 rule: rev_induct)
  case (snoc f fs1)
  have pl: "list_all plain_label (f # fs2)" "list_all plain_label (fs1 @ f # fs2)"
    using snoc.prems by auto
  note IH = snoc.IH [OF pl(2)]
  have all: "(\<forall>k<length (fs1 @ [f]). P (drop k (fs1 @ [f]) @ fs2)) \<longleftrightarrow>
      P (f # fs2) \<and> (\<forall>k<length fs1. P (drop k fs1 @ f # fs2))" for P
    by (auto simp: less_Suc_eq)
  have ex: "(\<exists>k<length (fs1 @ [f]). P (drop k (fs1 @ [f]) @ fs2)) \<longleftrightarrow>
      P (f # fs2) \<or> (\<exists>k<length fs1. P (drop k fs1 @ f # fs2))" for P
    using all [of "\<lambda>x. \<not> P x"] by blast
  note A = all [of "\<lambda>x. join_with CHR ''.'' x \<notin> pac"]
  note B = ex [of "\<lambda>x. d = join_with CHR ''.'' x"]
  show ?case
    unfolding A B using IH scan_step [OF pl(1)]
    by (cases "join_with CHR ''.'' (f # fs2) \<in> pac") (auto simp: Let_def)
qed simp

lemma labels_plain: "host_ok h \<Longrightarrow> list_all plain_label (split_on CHR ''.'' h)"
  by (auto simp: host_ok_def list_all_iff plain_label_def dest: split_on_no_sep)

lemma dot_in_iff:
  "dot_in pac h \<longleftrightarrow> (\<exists>k<length (split_on CHR ''.'' h). join_with CHR ''.'' (drop k (split_on CHR ''.'' h)) \<in> pac)"
proof
  assume "dot_in pac h"
  then consider "h \<in> pac" | d x where "d \<in> pac" "h = x @ CHR ''.'' # d"
    by (auto simp: dot_in_def suffix_def)
  then show "\<exists>k<length (split_on CHR ''.'' h). join_with CHR ''.'' (drop k (split_on CHR ''.'' h)) \<in> pac"
  proof cases
    case 1
    then show ?thesis using join_split by (intro exI [of _ 0]) simp
  next
    case 2
    then show ?thesis
      by (intro exI [of _ "length (split_on CHR ''.'' x)"]) (simp add: split_on_app join_split)
  qed
next
  assume "\<exists>k<length (split_on CHR ''.'' h). join_with CHR ''.'' (drop k (split_on CHR ''.'' h)) \<in> pac"
  then obtain k where k: "k < length (split_on CHR ''.'' h)"
    "join_with CHR ''.'' (drop k (split_on CHR ''.'' h)) \<in> pac" by auto
  show "dot_in pac h"
  proof (cases "k = 0")
    case True
    then show ?thesis using k(2) join_split by (simp add: dot_in_def)
  next
    case False
    have "h = join_with CHR ''.'' (take k (split_on CHR ''.'' h) @ drop k (split_on CHR ''.'' h))"
      using join_split by simp
    also have "\<dots> = join_with CHR ''.'' (take k (split_on CHR ''.'' h)) @ CHR ''.'' #
        join_with CHR ''.'' (drop k (split_on CHR ''.'' h))"
      using False k(1) by (intro join_with_app) auto
    finally show ?thesis using k(2) by (metis dot_in_def suffixI)
  qed
qed

lemma IsPac_iff:
  assumes "host_ok h"
  shows "fst (IsPac h st) \<longleftrightarrow> PAC_HOSTS st = {} \<or> dot_in (PAC_HOSTS st) h"
    and "PAC_HOSTS (snd (IsPac h st)) =
      (if PAC_HOSTS st \<noteq> {} \<and> dot_in (PAC_HOSTS st) h then insert h (PAC_HOSTS st) else PAC_HOSTS st)"
proof -
  have trim: "trim_suffix h ''.'' = h"
  proof (rule trim_dot_id)
    show "h = [] \<or> last h \<noteq> CHR ''.''"
    proof (rule ccontr)
      assume "\<not> (h = [] \<or> last h \<noteq> CHR ''.'')"
      then obtain x where "h = x @ CHR ''.'' # []" by (metis append_butlast_last_id)
      then have "split_on CHR ''.'' h = split_on CHR ''.'' x @ [[]]" by (simp add: split_on_app)
      with assms show False by (simp add: host_ok_def)
    qed
  qed
  let ?fs = "split_on CHR ''.'' h"
  have spec: "pac_scan (PAC_HOSTS st) (rev ?fs) [] = None \<longleftrightarrow> \<not> dot_in (PAC_HOSTS st) h"
    using pac_scan_spec [of ?fs "[]" "PAC_HOSTS st"] labels_plain [OF assms]
    by (auto simp: dot_in_iff)
  have some: "d \<in> PAC_HOSTS st" if "pac_scan (PAC_HOSTS st) (rev ?fs) [] = Some d" for d
    using pac_scan_spec [of ?fs "[]" "PAC_HOSTS st"] labels_plain [OF assms] that by auto
  show "fst (IsPac h st) \<longleftrightarrow> PAC_HOSTS st = {} \<or> dot_in (PAC_HOSTS st) h"
    using spec by (auto simp: IsPac_def trim Let_def split: option.splits)
  show "PAC_HOSTS (snd (IsPac h st)) =
      (if PAC_HOSTS st \<noteq> {} \<and> dot_in (PAC_HOSTS st) h then insert h (PAC_HOSTS st) else PAC_HOSTS st)"
    using spec some by (auto simp: IsPac_def trim Let_def insert_absorb split: option.splits)
qed

lemma dot_in_insert: "dot_in pac h \<Longrightarrow> dot_in (insert h pac) x \<longleftrightarrow> dot_in pac x"
proof
  assume h: "dot_in pac h" and x: "dot_in (insert h pac) x"
  show "dot_in pac x"
  proof (cases "x = h \<or> suffix (CHR ''.'' # h) x")
    case True
    then consider "x = h" | y where "x = y @ CHR ''.'' # h" by (auto simp: suffix_def)
    then show ?thesis
    proof cases
      case 1
      with h show ?thesis by simp
    next
      case 2
      from h show ?thesis
        unfolding dot_in_def 2 by (metis append.assoc append_Cons suffix_def)
    qed
  next
    case False
    with x show ?thesis by (auto simp: dot_in_def)
  qed
next
  assume "dot_in pac x"
  then show "dot_in (insert h pac) x" by (auto simp: dot_in_def)
qed

text \<open>
  With a list loaded, a host is proxied exactly when it or one of its parent domains is
  listed, and remembering the hosts that matched never changes the answer for any host.
\<close>

theorem IsPac_parent_domains:
  assumes "host_ok h" "host_ok h'" "PAC_HOSTS st \<noteq> {}"
  shows "(fst (IsPac h st) \<longleftrightarrow> dot_in (PAC_HOSTS st) h) \<and>
    fst (IsPac h' (snd (IsPac h st))) = fst (IsPac h' st)"
proof -
  have ne: "PAC_HOSTS (snd (IsPac h st)) \<noteq> {}" using assms(3) by (simp add: IsPac_iff [OF assms(1)])
  have "dot_in (PAC_HOSTS (snd (IsPac h st))) h' = dot_in (PAC_HOSTS st) h'"
    using dot_in_insert by (simp add: IsPac_iff(2) [OF assms(1)])
  with ne assms(3) show ?thesis by (simp add: IsPac_iff(1) [OF assms(1)] IsPac_iff(1) [OF assms(2)])
qed

theorem IsPac_parent_domains_witness:
  "fst (IsPac ''a.b.com'' (no_tables\<lparr>PAC_HOSTS := {''b.com''}\<rparr>))"
proof -
  have "host_ok ''a.b.com''" by (simp add: host_ok_def)
  moreover have "dot_in {''b.com''} ''a.b.com''" by (simp add: dot_in_def suffix_def)
  ultimately show ?thesis
    using IsPac_parent_domains [of "''a.b.com''" "''a.b.com''" "no_tables\<lparr>PAC_HOSTS := {''b.com''}\<rparr>"]
    by simp
qed

end
