(* ===== verification/Dns_Server.thy ===== *)
theory Dns_Server
  imports Dns_Rules Socks5 Base64
begin

text \<open>
  \<open>src/connections/prodns\<close>, \<open>dnsserver.go\<close> and \<open>dns_local.go\<close>: the client's DNS server, its
  cache, its two ways to resolve, and the server's answer to a tunnelled query.  The wire format
  and the UDP exchange of \<open>miekg/dns\<close> are parameters, as are the resolver and the tunnel
  connection; the messages written to the asking program are kept in order.
\<close>

subsection \<open>Messages\<close>

datatype rr = A_RR string int int ip | Other_RR

record question =
  qn_Name :: string
  qn_type :: int
  qn_class :: int

record dns_msg =
  dm_Id :: int
  dm_Response :: bool
  dm_Authoritative :: bool
  dm_Question :: "question list"
  dm_Answer :: "rr list"

definition empty_msg :: dns_msg where
  "empty_msg = \<lparr>dm_Id = 0, dm_Response = False, dm_Authoritative = False, dm_Question = [], dm_Answer = []\<rparr>"

record dnslib =
  dl_Pack :: "dns_msg \<Rightarrow> goerr + string"
  dl_Unpack :: "string \<Rightarrow> goerr + dns_msg"
  dl_SetReply :: "dns_msg \<Rightarrow> dns_msg"
  dl_Fqdn :: "string \<Rightarrow> string"

text \<open>Packing is inverted by unpacking for the messages the library can pack.\<close>

definition dns_codec_ok :: "dnslib \<Rightarrow> bool" where
  "dns_codec_ok D \<longleftrightarrow> (\<forall>m b. dl_Pack D m = Inr b \<longrightarrow> dl_Unpack D b = Inr m)"

text \<open>A reply repeats the identity and the question.\<close>

definition set_reply_ok :: "dnslib \<Rightarrow> bool" where
  "set_reply_ok D \<longleftrightarrow> (\<forall>r. dm_Id (dl_SetReply D r) = dm_Id r \<and> dm_Response (dl_SetReply D r) \<and>
     dm_Answer (dl_SetReply D r) = [] \<and> (dm_Question r \<noteq> [] \<longrightarrow>
       dm_Question (dl_SetReply D r) = [hd (dm_Question r)]))"

definition PackDNS :: "dnslib \<Rightarrow> dns_msg \<Rightarrow> string" where
  "PackDNS D msg = (case dl_Pack D msg of Inl _ \<Rightarrow> [] | Inr buf \<Rightarrow> ''dns://'' @ b64_encode buf)"

definition UnpackDNS :: "gslib \<Rightarrow> dnslib \<Rightarrow> string \<Rightarrow> (goerr + dns_msg) go" where
  "UnpackDNS G D dnsmsg =
     (if gs_StartsWith G dnsmsg ''dns://'' then
        (case gs_Split G dnsmsg ''dns://'' of
           _ # rmsg # _ \<Rightarrow>
             (case b64_decode rmsg of
                None \<Rightarrow> Ret (Inl (GoErr ''illegal base64 data''))
              | Some buf \<Rightarrow> Ret (dl_Unpack D buf))
         | _ \<Rightarrow> Panic)
      else Ret (Inl (GoErr ''not dns:// start'')))"

subsection \<open>The server's answer\<close>

definition answer_ips :: "string \<Rightarrow> ip list \<Rightarrow> rr list" where
  "answer_ips name ips = map (A_RR name 1 80)
     (filter (\<lambda>ip. ip_str ip \<noteq> [] \<and> ip_str ip \<noteq> ''0.0.0.0'' \<and> to4 ip \<noteq> None) ips)"

text \<open>
  \<open>ReplyDNS\<close> names its resolver's error \<open>err2\<close> and tests \<open>err\<close>, which is still nil: the branch
  for a failed lookup is never taken.
\<close>

definition ReplyDNS ::
  "gslib \<Rightarrow> dnslib \<Rightarrow> (string \<Rightarrow> ip list \<times> goerr option) \<Rightarrow> string \<Rightarrow> (string \<times> goerr option) go" where
  "ReplyDNS G D lookup dnsmsg =
     go_bind (UnpackDNS G D dnsmsg) (\<lambda>u. case u of
        Inl err2 \<Rightarrow> Ret ([], Some err2)
      | Inr r \<Rightarrow>
          (case dm_Question r of
             [] \<Rightarrow> Ret ([], Some (GoErr ''no question in dns req''))
           | q # _ \<Rightarrow>
               let host = qn_Name q;
                   H = (if gs_EndsWith G host ''.'' then gs_Slice G host 0 (-1) else host) in
               case lookup H of (ips, err2) \<Rightarrow>
                 Ret (PackDNS D (r\<lparr>dm_Answer := dm_Answer r @ answer_ips (H @ ''.'') ips\<rparr>), None)))"

lemma no_scheme_in_b64: "\<not> sublist ''dns://'' (b64_encode s)"
proof
  assume "sublist ''dns://'' (b64_encode s)"
  then have "CHR '':'' \<in> set (b64_encode s)"
    using set_mono_sublist [of "''dns://''" "b64_encode s"] by auto
  then show False using b64_encode_clean(4) by blast
qed

lemma split_str_absent: "\<not> sublist sep s \<Longrightarrow> split_str sep s = [s]"
proof (induction s)
  case Nil
  show ?case by (simp add: split_str.simps)
next
  case (Cons c s)
  then have "\<not> has_prefix (c # s) sep" "\<not> sublist sep s"
    by (auto simp: has_prefix_iff sublist_Cons_right)
  with Cons show ?case by (simp add: split_str.simps(2))
qed

lemma Unpack_Pack:
  assumes "gs_affix_ok G" "gs_split_ok G" "dns_codec_ok D" "dl_Pack D m = Inr buf"
  shows "UnpackDNS G D (PackDNS D m) = Ret (Inr m)"
proof -
  have "split_str ''dns://'' (''dns://'' @ b64_encode buf) = [[], b64_encode buf]"
    using split_str_absent [OF no_scheme_in_b64, of buf]
    by (simp add: split_str.simps(2) has_prefix_def)
  then show ?thesis
    using assms gs_splitD [OF assms(2), of "''dns://''"]
    by (simp add: UnpackDNS_def PackDNS_def gs_affixD b64_decode_encode dns_codec_ok_def has_prefix_def)
qed

text \<open>
  The addresses worth an answer, as bytes: an IPv4 address in its short form or in the long one (ten zero
  bytes, two of 255), other than the null address.
\<close>

definition usable_v4 :: "ip \<Rightarrow> bool" where
  "usable_v4 ip \<longleftrightarrow> (length ip = 4 \<or> length ip = 16 \<and> take 12 ip = replicate 10 0 @ [255, 255]) \<and>
     drop (length ip - 4) ip \<noteq> [0, 0, 0, 0]"

lemma byte_str_zero: "byte_str b = ''0'' \<longleftrightarrow> b = 0"
proof
  assume z: "byte_str b = ''0''"
  have "unat b < 2 ^ 64" using unsigned_less [of b, where ?'a = nat] by simp
  from parse_uint_digits [OF this] z have "int (unat b) = 0" by (simp add: byte_str_def digit_val_def is_digit_def)
  then have "unat b = 0" by (simp only: of_nat_0_eq_iff)
  then show "b = 0" by (simp only: unat_eq_zero)
next
  have "nat_digits 0 = ''0''" by code_simp
  then show "b = 0 \<Longrightarrow> byte_str b = ''0''" by (simp add: byte_str_def)
qed

lemma ipv4_str_zero:
  assumes "length v = 4"
  shows "ipv4_str v = ''0.0.0.0'' \<longleftrightarrow> v = [0, 0, 0, 0]"
proof -
  have dot: "CHR ''.'' \<notin> set (byte_str b)" for b
  proof
    assume "CHR ''.'' \<in> set (byte_str b)"
    then obtain d where d: "d < 10" "CHR ''.'' = digit_char d"
      using nat_digits_set by (auto simp: byte_str_def)
    have "\<not> is_digit (CHR ''.'')" by (simp add: is_digit_def)
    with digit_char_props(1) [OF d(1)] d(2) show False by simp
  qed
  obtain a b c e where v: "v = [a, b, c, e]" using assms by (auto simp: length_Suc_conv eval_nat_numeral)
  have "split_on CHR ''.'' (ipv4_str v) = map byte_str v"
    unfolding ipv4_str_def by (rule split_join) (use v dot in auto)
  moreover have "split_on CHR ''.'' ''0.0.0.0'' = [''0'', ''0'', ''0'', ''0'']" by simp
  ultimately have "ipv4_str v = ''0.0.0.0'' \<longleftrightarrow> map byte_str v = [''0'', ''0'', ''0'', ''0'']"
    using join_split by (metis ipv4_str_def)
  then show ?thesis by (simp add: v byte_str_zero)
qed

lemma usable_v4_to4: "ip_str ip \<noteq> [] \<and> ip_str ip \<noteq> ''0.0.0.0'' \<and> to4 ip \<noteq> None \<longleftrightarrow> usable_v4 ip"
proof (cases "to4 ip")
  case None
  have "take 12 ip = take 10 ip @ [ip ! 10, ip ! 11]" if "length ip = 16"
    using that by (auto simp: length_Suc_conv eval_nat_numeral)
  then have "\<not> usable_v4 ip" using None by (auto simp: usable_v4_def to4_def split: if_splits)
  then show ?thesis using None by simp
next
  case (Some v)
  have v: "length v = 4" "v = drop (length ip - 4) ip"
    using Some by (auto simp: to4_def split: if_splits)
  have "length ip = 4 \<or> length ip = 16 \<and> take 12 ip = replicate 10 0 @ [255, 255]"
  proof (cases "length ip = 4")
    case False
    then have l: "length ip = 16" "take 10 ip = replicate 10 0" "ip ! 10 = 255" "ip ! 11 = 255"
      using Some by (auto simp: to4_def split: if_splits)
    have "take 12 ip = take 10 ip @ [ip ! 10, ip ! 11]"
      using l(1) by (auto simp: length_Suc_conv eval_nat_numeral)
    then show ?thesis using l by simp
  qed simp
  moreover have "ip_str ip = ipv4_str v" "ip \<noteq> []" using Some by (auto simp: ip_str_def to4_def)
  moreover have "ipv4_str v \<noteq> []"
  proof -
    obtain a b c e where "v = [a, b, c, e]" using v(1) by (auto simp: length_Suc_conv eval_nat_numeral)
    then show ?thesis by (simp add: ipv4_str_def)
  qed
  ultimately show ?thesis using Some v ipv4_str_zero [OF v(1)] by (simp add: usable_v4_def)
qed

text \<open>
  C30. The answer to a tunnelled query is the query with one address record, of a TTL of 80 seconds and under
  the name asked for, for each IPv4 address of the lookup in order; addresses of other forms and the null
  address are left out.  A failed lookup is not reported but answered with no record, whatever the
  error was.
\<close>

theorem ReplyDNS_answers:
  assumes "gs_affix_ok G" "gs_split_ok G" "gs_slice_ok G" "dns_codec_ok D" "dl_Pack D m = Inr buf"
    and "dm_Question m = q # qs" "qn_Name q = host @ ''.''" "lookup host = (ips, err)"
  shows "ReplyDNS G D lookup (PackDNS D m) =
    Ret (PackDNS D (m\<lparr>dm_Answer := dm_Answer m @ [A_RR (host @ ''.'') 1 80 ip. ip \<leftarrow> ips, usable_v4 ip]\<rparr>), None)"
proof -
  have "answer_ips (host @ ''.'') ips = [A_RR (host @ ''.'') 1 80 ip. ip \<leftarrow> ips, usable_v4 ip]"
    unfolding answer_ips_def usable_v4_to4 by (induction ips) simp_all
  then show ?thesis
    using assms(6-8) Unpack_Pack [OF assms(1,2,4,5)]
    by (simp add: ReplyDNS_def gs_affixD [OF assms(1)] has_suffix_iff
        assms(3) [unfolded gs_slice_ok_def, rule_format])
qed

text \<open>A packing of messages for the witnesses: one question, no records beyond address records.\<close>

definition toy_dns :: dnslib where
  "toy_dns = \<lparr>dl_Pack = (\<lambda>m. case dm_Question m of [q] \<Rightarrow>
       if m = empty_msg\<lparr>dm_Question := [\<lparr>qn_Name = qn_Name q, qn_type = 1, qn_class = 1\<rparr>]\<rparr>
       then Inr (qn_Name q) else Inl (GoErr ''pack'') | _ \<Rightarrow> Inl (GoErr ''pack'')),
     dl_Unpack = (\<lambda>s. Inr (empty_msg\<lparr>dm_Question := [\<lparr>qn_Name = s, qn_type = 1, qn_class = 1\<rparr>]\<rparr>)),
     dl_SetReply = (\<lambda>r. empty_msg\<lparr>dm_Id := dm_Id r, dm_Response := True, dm_Question := take 1 (dm_Question r)\<rparr>),
     dl_Fqdn = (\<lambda>n. if has_suffix n ''.'' then n else n @ ''.'')\<rparr>"

definition toy_query :: dns_msg where
  "toy_query = empty_msg\<lparr>dm_Question := [\<lparr>qn_Name = ''a.'', qn_type = 1, qn_class = 1\<rparr>]\<rparr>"

lemma toy_dns_ok [simp]: "dns_codec_ok toy_dns" "set_reply_ok toy_dns"
  by (auto simp: dns_codec_ok_def set_reply_ok_def toy_dns_def empty_msg_def neq_Nil_conv
      split: list.splits if_splits)

lemma toy_pack [simp]: "dl_Pack toy_dns toy_query = Inr ''a.''"
  by (simp add: toy_dns_def toy_query_def empty_msg_def)

text \<open>A library that packs the query and the answer of the witness.\<close>

definition toy_answered :: dns_msg where
  "toy_answered = toy_query\<lparr>dm_Answer := [A_RR ''a.'' 1 80 [10, 0, 0, 1], A_RR ''a.'' 1 80 (replicate 10 0 @ [255, 255, 10, 0, 0, 2])]\<rparr>"

definition two_dns :: dnslib where
  "two_dns = toy_dns\<lparr>dl_Pack := (\<lambda>m. if m = toy_query then Inr ''q'' else if m = toy_answered then Inr ''r'' else Inl (GoErr ''pack'')),
     dl_Unpack := (\<lambda>s. if s = ''q'' then Inr toy_query else if s = ''r'' then Inr toy_answered else Inl (GoErr ''unpack''))\<rparr>"

theorem ReplyDNS_answers_witness:
  "ReplyDNS gs_std two_dns
     (\<lambda>_. ([[10, 0, 0, 1], [0, 0, 0, 0], replicate 16 7, replicate 10 0 @ [255, 255, 10, 0, 0, 2]], None)) (PackDNS two_dns toy_query) =
    Ret (PackDNS two_dns toy_answered, None) \<and> PackDNS two_dns toy_answered \<noteq> []"
proof -
  have q: "dm_Question toy_query = [\<lparr>qn_Name = ''a.'', qn_type = 1, qn_class = 1\<rparr>]" "dm_Answer toy_query = []"
    by (simp_all add: toy_query_def empty_msg_def)
  have ne: "toy_answered \<noteq> toy_query" by (simp add: toy_answered_def toy_query_def empty_msg_def)
  have codec: "dns_codec_ok two_dns" by (auto simp: dns_codec_ok_def two_dns_def ne split: if_splits)
  have pack: "dl_Pack two_dns toy_query = Inr ''q''" by (simp add: two_dns_def)
  let ?ips = "[[10, 0, 0, 1], [0, 0, 0, 0], replicate 16 7, replicate 10 0 @ [255, 255, 10, 0, 0, 2]] :: ip list"
  have "[A_RR (''a'' @ ''.'') 1 80 ip. ip \<leftarrow> ?ips, usable_v4 ip] =
      [A_RR ''a.'' 1 80 [10, 0, 0, 1], A_RR ''a.'' 1 80 (replicate 10 0 @ [255, 255, 10, 0, 0, 2])]"
    by (simp add: usable_v4_def eval_nat_numeral)
  then show ?thesis
    using ReplyDNS_answers [OF _ _ _ codec pack q(1), of gs_std "''a''" "\<lambda>_. (?ips, None)" ?ips None]
    by (simp add: toy_answered_def q(2)) (simp add: PackDNS_def two_dns_def toy_answered_def)
qed

subsection \<open>The client's handler\<close>

datatype cons_call = CErrRecord string int | CErrVanish string | CReConnect int string

record dns_handler =
  dh_tables :: dns_tables
  dh_queryWait :: int
  dh_Mode :: int
  dh_out :: "dns_msg list"
  dh_closed :: bool
  dh_calls :: "cons_call list"

text \<open>
  What a query meets: the libraries, the clock, whether this is a router (linux on arm), the
  upstream exchange, the tunnel connection (with its id, type, error and queue index) and the
  random index.
\<close>

record dns_env =
  en_gs :: gslib
  en_gl :: "string gslist"
  en_dns :: dnslib
  en_now :: int
  en_router :: bool
  en_exchange :: "dns_msg \<Rightarrow> goerr + dns_msg"
  en_remote :: "conn \<times> string \<times> string \<times> goerr option \<times> int"
  en_rand :: nat

definition write_msg :: "dns_msg \<Rightarrow> dns_handler \<Rightarrow> dns_handler" where
  "write_msg m h = h\<lparr>dh_out := dh_out h @ [m]\<rparr>"

definition call_cons :: "cons_call \<Rightarrow> dns_handler \<Rightarrow> dns_handler" where
  "call_cons e h = h\<lparr>dh_calls := dh_calls h @ [e]\<rparr>"

definition in_tables :: "(dns_tables \<Rightarrow> dns_tables) \<Rightarrow> dns_handler \<Rightarrow> dns_handler" where
  "in_tables f h = h\<lparr>dh_tables := f (dh_tables h)\<rparr>"

text \<open>The addresses of an answer worth keeping, and the last address seen (kept or not).\<close>

fun record_ips :: "string gslist \<Rightarrow> rr list \<Rightarrow> string list \<Rightarrow> string \<Rightarrow> string list \<times> string" where
  "record_ips L [] ips last_ip = (ips, last_ip)"
| "record_ips L (A_RR n c t a # os) ips last_ip =
     (if c = 1 then
        (let ip = ip_str a in
         record_ips L os (if ip \<noteq> [] \<and> ip \<noteq> ''0.0.0.0'' then gl_Add L ips ip else ips) ip)
      else record_ips L os ips last_ip)"
| "record_ips L (Other_RR # os) ips last_ip = record_ips L os ips last_ip"

fun except_ips :: "rr list \<Rightarrow> dns_tables \<Rightarrow> dns_tables go" where
  "except_ips [] st = Ret st"
| "except_ips (A_RR n c t a # os) st =
     (if c = 1 then go_bind (AddLocalIP (ip_str a) st) (except_ips os) else except_ips os st)"
| "except_ips (Other_RR # os) st = except_ips os st"

definition store_record :: "string \<Rightarrow> string \<Rightarrow> string list \<Rightarrow> int \<Rightarrow> dns_tables \<Rightarrow> dns_tables" where
  "store_record domain host ips timeout st = st\<lparr>domainsToAddresses :=
     AList.update domain \<lparr>dr_Host = host, dr_IPs = ips, dr_timeout = timeout\<rparr> (domainsToAddresses st)\<rparr>"

definition map_back :: "string \<Rightarrow> string list \<Rightarrow> dns_tables \<Rightarrow> dns_tables" where
  "map_back domain ips st = foldl (\<lambda>s i. s\<lparr>ip2host := AList.update i domain (ip2host s)\<rparr>) st ips"

text \<open>
  \<open>ResolveProxy\<close> asks the domestic resolver.  Its callback writes \<open>local2host[ip]\<close> with the outer
  \<open>ip\<close> (the last one of the answer) for every address.
\<close>

definition ResolveProxy :: "dns_env \<Rightarrow> dns_msg \<Rightarrow> dns_handler \<Rightarrow> (bool \<times> dns_handler) go" where
  "ResolveProxy E msg h =
     (let m = empty_msg\<lparr>dm_Question := map (\<lambda>q. q\<lparr>qn_Name := dl_Fqdn (en_dns E) (qn_Name q)\<rparr>)
            (dm_Question msg)\<rparr> in
      case en_exchange E m of
        Inl err \<Rightarrow> Ret (False, h)
      | Inr replyMsg \<Rightarrow>
          (case dm_Question msg of
             [] \<Rightarrow> Panic
           | q # _ \<Rightarrow>
               let domain = qn_Name q in
               go_bind (except_ips (dm_Answer replyMsg) (dh_tables h)) (\<lambda>t1.
                 case record_ips (en_gl E) (dm_Answer replyMsg) [] [] of (ips, ip) \<Rightarrow>
                   let t2 = (if dm_Answer replyMsg \<noteq> [] \<and> 0 < gl_Count (en_gl E) ips
                     then foldl (\<lambda>s i. s\<lparr>ip2host := AList.update i domain (ip2host s),
                            local2host := AList.update ip domain (local2host s)\<rparr>)
                          (store_record domain domain ips (en_now E + 60000000000) t1)
                          (gl_Every (en_gl E) ips)
                     else t1) in
                   Ret (True, write_msg replyMsg (h\<lparr>dh_tables := t2\<rparr>)))))"

definition wpad_reply :: dns_msg where
  "wpad_reply = empty_msg\<lparr>dm_Answer := [A_RR ''wpad.lan.'' 1 80 (parse_ipv4 ''127.0.0.1'')]\<rparr>"

text \<open>\<open>ResolveRemoteOld\<close> sends the packed query through the tunnel as a SOCKS5 host name.\<close>

definition ResolveRemoteOld :: "dns_env \<Rightarrow> dns_msg \<Rightarrow> dns_handler \<Rightarrow> (bool \<times> dns_handler) go" where
  "ResolveRemoteOld E msg h =
     (case dm_Question msg of
        [] \<Rightarrow> Panic
      | q # _ \<Rightarrow>
          let domain = qn_Name q in
          if domain = ''wpad.lan.'' then Ret (True, write_msg wpad_reply h)
          else
            let data = PackDNS (en_dns E) msg in
            case en_remote E of (con, eid, proxyType, err, q_ix) \<Rightarrow>
              if err \<noteq> None then
                Ret (False, call_cons (CReConnect q_ix proxyType) (call_cons (CErrRecord eid 2) h))
              else go_bind (HostToRaw (en_gs E) data 99) (\<lambda>r.
                case conn_read 4096 (snd (conn_write r con)) of ((bs, rerr), _) \<Rightarrow>
                  if rerr \<noteq> None then Ret (False, call_cons (CErrRecord eid 1) h)
                  else go_bind (UnpackDNS (en_gs E) (en_dns E) (str_of bs)) (\<lambda>u.
                    case u of
                      Inl _ \<Rightarrow> Ret (False, h)
                    | Inr replymsg \<Rightarrow>
                        (case record_ips (en_gl E) (dm_Answer replymsg) [] [] of (ips, _) \<Rightarrow>
                          let h1 = (if dm_Answer replymsg \<noteq> [] \<and> 0 < gl_Count (en_gl E) ips
                            then in_tables (\<lambda>t. map_back domain (gl_Every (en_gl E) ips)
                                   (store_record domain domain ips (en_now E + 60000000000) t)) h
                            else h) in
                          Ret (True, call_cons (CErrVanish eid) (write_msg replymsg h1))))))"

definition ResolveCache :: "dns_env \<Rightarrow> dns_msg \<Rightarrow> dns_handler \<Rightarrow> (bool \<times> dns_handler) go" where
  "ResolveCache E msg h =
     (case dm_Question msg of
        [] \<Rightarrow> Panic
      | q # _ \<Rightarrow>
          let domain = qn_Name q in
          (case map_of (domainsToAddresses (dh_tables h)) domain of
             None \<Rightarrow> Ret (False, h)
           | Some addressR \<Rightarrow>
               if en_now E < dr_timeout addressR then
                 (let ips = dr_IPs addressR;
                      ip = ips ! (en_rand E mod length ips);
                      rec_of = (\<lambda>i. A_RR domain 1 80 (parse_ipv4 i));
                      ans = (if 0 < gl_Count (en_gl E) ips
                        then rec_of ip # map rec_of (filter (\<lambda>n. n \<noteq> ip) (gl_Every (en_gl E) ips))
                        else []) in
                  Ret (True, write_msg (msg\<lparr>dm_Answer := dm_Answer msg @ ans\<rparr>) h))
               else Ret (False, in_tables (\<lambda>t. t\<lparr>domainsToAddresses :=
                  AList.delete domain (domainsToAddresses t)\<rparr>) h)))"

text \<open>\<open>SetConfigIP\<close> ignores its argument.\<close>

definition SetConfigIP :: "int \<Rightarrow> string \<Rightarrow> dns_tables \<Rightarrow> dns_tables" where
  "SetConfigIP now ip t =
     (let exp = now + 9999 * 3600 * 1000000000 in
      store_record ''local.me.'' ''local.me.'' [''99.254.254.254''] exp
        (store_record ''config.me.'' ''config.me.'' [''99.254.254.254''] exp t))"

definition wait_query :: "int \<Rightarrow> dns_handler \<Rightarrow> dns_handler" where
  "wait_query k h = h\<lparr>dh_queryWait := dh_queryWait h + k\<rparr>"

text \<open>The part of \<open>ServeDNS\<close> for address queries that are not cached; True: a reply was written.\<close>

definition serve_uncached :: "dns_env \<Rightarrow> dns_msg \<Rightarrow> dns_msg \<Rightarrow> dns_handler \<Rightarrow> (bool \<times> dns_handler) go" where
  "serve_uncached E r msg h =
     (if \<not> en_router E then Ret (False, h)
      else case dm_Question r of
        [] \<Rightarrow> Panic
      | q # _ \<Rightarrow>
          (case IsPac (qn_Name q) (dh_tables h) of (pac, t1) \<Rightarrow>
            let h1 = h\<lparr>dh_tables := t1\<rparr> in
            go_bind (if \<not> pac \<and> dh_Mode h = 0 then ResolveProxy E msg h1 else Ret (False, h1))
              (\<lambda>(done, h2).
                if done then Ret (True, wait_query (-1) h2)
                else go_bind (ResolveRemoteOld E msg h2) (\<lambda>(done, h3).
                  if done then Ret (True, wait_query (-1) h3) else Ret (False, h3)))))"

definition ServeDNS :: "dns_env \<Rightarrow> dns_msg \<Rightarrow> dns_handler \<Rightarrow> dns_handler go" where
  "ServeDNS E r h =
     (let msg = dl_SetReply (en_dns E) r; close = (\<lambda>h. h\<lparr>dh_closed := True\<rparr>) in
      case dm_Question r of
        [] \<Rightarrow> Ret (close (write_msg msg h))
      | q # _ \<Rightarrow>
          if qn_type q \<noteq> 1 then Ret (close (write_msg msg h))
          else
            let msg1 = msg\<lparr>dm_Authoritative := True\<rparr> in
            go_bind (ResolveCache E msg1 h) (\<lambda>(hit, h1).
              if hit then Ret (close h1)
              else go_bind (serve_uncached E r msg1 (wait_query 1 h1)) (\<lambda>(done, h2).
                if done then Ret (close h2) else Ret (close (write_msg msg1 h2)))))"

subsection \<open>One reply for every query\<close>

lemma handler_simps [simp]:
  "dh_out (write_msg m h) = dh_out h @ [m]" "dh_queryWait (write_msg m h) = dh_queryWait h"
  "dh_tables (write_msg m h) = dh_tables h" "dh_Mode (write_msg m h) = dh_Mode h"
  "dh_out (call_cons e h) = dh_out h" "dh_queryWait (call_cons e h) = dh_queryWait h"
  "dh_tables (call_cons e h) = dh_tables h"
  "dh_out (in_tables f h) = dh_out h" "dh_queryWait (in_tables f h) = dh_queryWait h"
  "dh_tables (in_tables f h) = f (dh_tables h)"
  "dh_out (wait_query k h) = dh_out h" "dh_queryWait (wait_query k h) = dh_queryWait h + k"
  "dh_tables (wait_query k h) = dh_tables h"
  by (simp_all add: write_msg_def call_cons_def in_tables_def wait_query_def)

text \<open>A resolver writes one message exactly when it reports that it did.\<close>

definition writes_once :: "dns_handler \<Rightarrow> bool \<times> dns_handler \<Rightarrow> bool" where
  "writes_once h r \<longleftrightarrow> length (dh_out (snd r)) = length (dh_out h) + (if fst r then 1 else 0) \<and>
     dh_queryWait (snd r) = dh_queryWait h"

lemma ResolveProxy_once: "ResolveProxy E msg h = Ret r \<Longrightarrow> writes_once h r"
  by (auto simp: ResolveProxy_def Let_def go_bind_Ret_conv writes_once_def case_prod_unfold
      split: sum.splits list.splits)

lemma ResolveRemoteOld_once:
  assumes "ResolveRemoteOld E msg h = Ret r"
  shows "writes_once h r"
proof -
  obtain q qs where q: "dm_Question msg = q # qs"
    using assms by (cases "dm_Question msg") (auto simp: ResolveRemoteOld_def)
  obtain con eid ty err ix where rem: "en_remote E = (con, eid, ty, err, ix)" by (metis prod_cases5)
  note unf = assms [unfolded ResolveRemoteOld_def, simplified q rem list.case prod.case Let_def]
  show ?thesis
  proof (cases "qn_Name q = ''wpad.lan.'' \<or> err \<noteq> None")
    case True
    then show ?thesis using unf by (auto simp: writes_once_def split: if_splits)
  next
    case False
    with unf obtain raw where raw: "HostToRaw (en_gs E) (PackDNS (en_dns E) msg) 99 = Ret raw"
      by (auto simp: go_bind_Ret_conv)
    obtain bs rerr c' where rd: "conn_read 4096 (snd (conn_write raw con)) = ((bs, rerr), c')"
      by (metis prod_cases3 surj_pair)
    show ?thesis
    proof (cases "rerr = None")
      case True
      with unf False raw rd obtain u where u: "UnpackDNS (en_gs E) (en_dns E) (str_of bs) = Ret u"
        by (auto simp: go_bind_Ret_conv)
      show ?thesis
        using unf False raw rd True u by (cases u) (auto simp: writes_once_def split: prod.splits)
    next
      case False
      then show ?thesis using unf raw rd \<open>\<not> (qn_Name q = ''wpad.lan.'' \<or> err \<noteq> None)\<close>
        by (auto simp: writes_once_def)
    qed
  qed
qed

lemma ResolveCache_once: "ResolveCache E msg h = Ret r \<Longrightarrow> writes_once h r"
  by (auto simp: ResolveCache_def Let_def writes_once_def split: option.splits list.splits if_splits)

lemma serve_uncached_once:
  assumes "serve_uncached E r msg h = Ret (done, h')"
  shows "length (dh_out h') = length (dh_out h) + (if done then 1 else 0) \<and>
    dh_queryWait h' = dh_queryWait h - (if done then 1 else 0)"
proof (cases "en_router E")
  case False
  then show ?thesis using assms by (simp add: serve_uncached_def)
next
  case True
  then obtain q qs where q: "dm_Question r = q # qs"
    using assms by (cases "dm_Question r") (auto simp: serve_uncached_def)
  obtain pac t1 where p: "IsPac (qn_Name q) (dh_tables h) = (pac, t1)" by fastforce
  define h1 where "h1 = h\<lparr>dh_tables := t1\<rparr>"
  obtain d1 h2 where one: "(if \<not> pac \<and> dh_Mode h = 0 then ResolveProxy E msg h1 else Ret (False, h1)) = Ret (d1, h2)"
    and rest: "(if d1 then Ret (True, wait_query (-1) h2)
      else go_bind (ResolveRemoteOld E msg h2) (\<lambda>(done, h3).
        if done then Ret (True, wait_query (-1) h3) else Ret (False, h3))) = Ret (done, h')"
    using assms True q p unfolding h1_def by (auto simp: serve_uncached_def go_bind_Ret_conv Let_def)
  have w1: "writes_once h1 (d1, h2)"
    using one ResolveProxy_once by (auto simp: writes_once_def split: if_splits)
  show ?thesis
  proof (cases d1)
    case True
    with rest w1 show ?thesis by (auto simp: writes_once_def h1_def)
  next
    case False
    with rest obtain d2 h3 where two: "ResolveRemoteOld E msg h2 = Ret (d2, h3)"
      and h': "(done, h') = (if d2 then (True, wait_query (-1) h3) else (False, h3))"
      by (auto simp: go_bind_Ret_conv split: if_splits)
    from ResolveRemoteOld_once [OF two] w1 h' False show ?thesis
      by (auto simp: writes_once_def h1_def split: if_splits)
  qed
qed

text \<open>
  Every query is answered by exactly one message and its writer is closed, whichever way it
  is resolved and whatever fails; the counter of waiting queries comes back down exactly when a
  resolver answered, so a query answered by the empty fallback is counted for ever.
\<close>

theorem ServeDNS_one_reply:
  assumes "ServeDNS E r h = Ret h'"
  shows "length (dh_out h') = length (dh_out h) + 1 \<and> dh_closed h' \<and>
    dh_queryWait h \<le> dh_queryWait h' \<and> dh_queryWait h' \<le> dh_queryWait h + 1 \<and>
    (dh_queryWait h' = dh_queryWait h + 1 \<longrightarrow>
      last (dh_out h') = (dl_SetReply (en_dns E) r)\<lparr>dm_Authoritative := True\<rparr>)"
proof (cases "dm_Question r")
  case Nil
  then show ?thesis using assms by (auto simp: ServeDNS_def)
next
  case (Cons q qs)
  define msg where "msg = (dl_SetReply (en_dns E) r)\<lparr>dm_Authoritative := True\<rparr>"
  show ?thesis
  proof (cases "qn_type q = 1")
    case False
    then show ?thesis using assms Cons by (auto simp: ServeDNS_def)
  next
    case True
    from assms Cons True have "go_bind (ResolveCache E msg h) (\<lambda>(hit, h1).
        if hit then Ret (h1\<lparr>dh_closed := True\<rparr>)
        else go_bind (serve_uncached E r msg (wait_query 1 h1)) (\<lambda>(done, h2).
          if done then Ret (h2\<lparr>dh_closed := True\<rparr>) else Ret ((write_msg msg h2)\<lparr>dh_closed := True\<rparr>))) = Ret h'"
      unfolding msg_def by (simp add: ServeDNS_def Let_def)
    then obtain hit h1 where c: "ResolveCache E msg h = Ret (hit, h1)"
      and k: "(if hit then Ret (h1\<lparr>dh_closed := True\<rparr>)
        else go_bind (serve_uncached E r msg (wait_query 1 h1)) (\<lambda>(done, h2).
          if done then Ret (h2\<lparr>dh_closed := True\<rparr>) else Ret ((write_msg msg h2)\<lparr>dh_closed := True\<rparr>))) = Ret h'"
      by (auto simp: go_bind_Ret_conv)
    note once = ResolveCache_once [OF c, unfolded writes_once_def]
    show ?thesis
    proof (cases hit)
      case True
      then show ?thesis using k once by auto
    next
      case False
      with k obtain don h2 where u: "serve_uncached E r msg (wait_query 1 h1) = Ret (don, h2)"
        and h': "h' = (if don then h2\<lparr>dh_closed := True\<rparr> else (write_msg msg h2)\<lparr>dh_closed := True\<rparr>)"
        by (auto simp: go_bind_Ret_conv split: if_splits)
      show ?thesis using serve_uncached_once [OF u] once False
        by (auto simp: h' msg_def)
    qed
  qed
qed

definition toy_env :: dns_env where
  "toy_env = \<lparr>en_gs = gs_std, en_gl = gs_list_std, en_dns = toy_dns, en_now = 0, en_router = False,
     en_exchange = (\<lambda>_. Inl EOF), en_remote = (conn_of [] EOF, [], [], None, 0), en_rand = 0\<rparr>"

definition toy_handler :: dns_handler where
  "toy_handler = \<lparr>dh_tables = no_tables, dh_queryWait = 0, dh_Mode = 0, dh_out = [], dh_closed = False,
     dh_calls = []\<rparr>"

theorem ServeDNS_one_reply_witness:
  "\<exists>h'. ServeDNS toy_env toy_query toy_handler = Ret h' \<and> length (dh_out h') = 1 \<and> dh_queryWait h' = 1"
proof -
  obtain h' where h': "ServeDNS toy_env toy_query toy_handler = Ret h'" "dh_queryWait h' = 1"
    by (simp add: ServeDNS_def toy_env_def toy_query_def toy_handler_def toy_dns_def empty_msg_def
        ResolveCache_def serve_uncached_def no_tables_def wait_query_def write_msg_def)
  with ServeDNS_one_reply [OF h'(1)] show ?thesis by (simp add: toy_handler_def)
qed

subsection \<open>What is remembered\<close>

lemma map_back_simps:
  "map_of (ip2host (map_back d ips st)) i = (if i \<in> set ips then Some d else map_of (ip2host st) i)"
  "domainsToAddresses (map_back d ips st) = domainsToAddresses st"
  by (induction ips arbitrary: st) (auto simp: map_back_def update_conv')

lemma store_record_simps:
  "map_of (domainsToAddresses (store_record d hst ips t st)) d = Some \<lparr>dr_Host = hst, dr_IPs = ips, dr_timeout = t\<rparr>"
  by (simp add: store_record_def update_conv')

lemma ResolveRemoteOld_stores:
  assumes L: "gs_list_ok (en_gl E)" and ok: "ResolveRemoteOld E msg h = Ret (True, h')"
    and q: "dm_Question msg = q # qs" "qn_Name q \<noteq> ''wpad.lan.''"
    and ips: "fst (record_ips (en_gl E) (dm_Answer (last (dh_out h'))) [] []) = ips" "ips \<noteq> []"
  shows "dh_tables h' = map_back (qn_Name q) ips
    (store_record (qn_Name q) (qn_Name q) ips (en_now E + 60000000000) (dh_tables h))"
proof -
  obtain con eid ty err ix where rem: "en_remote E = (con, eid, ty, err, ix)" by (metis prod_cases5)
  note unf = ok [unfolded ResolveRemoteOld_def, simplified q rem list.case prod.case Let_def if_False]
  have err: "err = None" using unf by (auto split: if_splits)
  with unf obtain raw where raw: "HostToRaw (en_gs E) (PackDNS (en_dns E) msg) 99 = Ret raw"
    by (auto simp: go_bind_Ret_conv)
  obtain bs rerr c' where rd: "conn_read 4096 (snd (conn_write raw con)) = ((bs, rerr), c')"
    by (metis prod_cases3 surj_pair)
  have "rerr = None" using unf err raw rd by (auto split: if_splits)
  with unf err raw rd obtain u where u: "UnpackDNS (en_gs E) (en_dns E) (str_of bs) = Ret u"
    by (auto simp: go_bind_Ret_conv)
  obtain reply where reply: "u = Inr reply" using unf err raw rd \<open>rerr = None\<close> u by (cases u) auto
  obtain ips' l where r: "record_ips (en_gl E) (dm_Answer reply) [] [] = (ips', l)" by fastforce
  have h': "h' = call_cons (CErrVanish eid) (write_msg reply
      (if dm_Answer reply \<noteq> [] \<and> 0 < gl_Count (en_gl E) ips'
       then in_tables (\<lambda>t. map_back (qn_Name q) (gl_Every (en_gl E) ips')
              (store_record (qn_Name q) (qn_Name q) ips' (en_now E + 60000000000) t)) h
       else h))"
    using unf err raw rd \<open>rerr = None\<close> u reply r by simp
  have last: "last (dh_out h') = reply" by (simp add: h')
  have "ips' = ips" using ips(1) r last by simp
  moreover have "dm_Answer reply \<noteq> []" using ips r \<open>ips' = ips\<close> by (auto)
  ultimately show ?thesis using ips(2) by (simp add: h' gs_listD [OF L])
qed

text \<open>
  What was resolved through the tunnel is answered from the cache for the next minute, with
  the same addresses (in a different order), and every address leads back to the name it was
  resolved for; after the minute the entry is dropped and the name is resolved again.
\<close>

theorem resolved_names_cached:
  assumes L: "gs_list_ok (en_gl E)" and ok: "ResolveRemoteOld E msg h = Ret (True, h')"
    and q: "dm_Question msg = q # qs" "qn_Name q \<noteq> ''wpad.lan.''"
    and ips: "fst (record_ips (en_gl E) (dm_Answer (last (dh_out h'))) [] []) = ips" "ips \<noteq> []"
    and q': "dm_Question msg' = q # qs'" "dm_Answer msg' = []"
    and E': "E' = E\<lparr>en_now := t, en_rand := k\<rparr>"
  shows "(\<forall>i\<in>set ips. SearchIP i (dh_tables h') = qn_Name q) \<and>
    (\<exists>h'' ans. ResolveCache E' msg' h' = Ret (t < en_now E + 60000000000, h'') \<and>
      (if t < en_now E + 60000000000
       then dh_out h'' = dh_out h' @ [msg'\<lparr>dm_Answer := ans\<rparr>] \<and>
         set ans = (\<lambda>i. A_RR (qn_Name q) 1 80 (parse_ipv4 i)) ` set ips
       else map_of (domainsToAddresses (dh_tables h'')) (qn_Name q) = None))"
proof -
  note tabs = ResolveRemoteOld_stores [OF L ok q ips]
  have entry: "map_of (domainsToAddresses (dh_tables h')) (qn_Name q) =
      Some \<lparr>dr_Host = qn_Name q, dr_IPs = ips, dr_timeout = en_now E + 60000000000\<rparr>"
    unfolding tabs map_back_simps store_record_simps ..
  have found: "\<forall>i\<in>set ips. SearchIP i (dh_tables h') = qn_Name q"
    by (simp add: tabs SearchIP_def map_back_simps)
  show ?thesis
  proof (cases "t < en_now E + 60000000000")
    case True
    define ip where "ip = ips ! (k mod length ips)"
    have "ip \<in> set ips" using ips(2) by (simp add: ip_def)
    then have "set (ip # filter (\<lambda>n. n \<noteq> ip) ips) = set ips" by auto
    then have set: "set (map (\<lambda>i. A_RR (qn_Name q) 1 80 (parse_ipv4 i)) (ip # filter (\<lambda>n. n \<noteq> ip) ips)) =
        (\<lambda>i. A_RR (qn_Name q) 1 80 (parse_ipv4 i)) ` set ips"
      unfolding set_map by (rule arg_cong)
    have "ResolveCache E' msg' h' = Ret (True, write_msg (msg'\<lparr>dm_Answer :=
        map (\<lambda>i. A_RR (qn_Name q) 1 80 (parse_ipv4 i)) (ip # filter (\<lambda>n. n \<noteq> ip) ips)\<rparr>) h')"
      using True entry q' ips(2) unfolding E'
      by (simp add: ResolveCache_def Let_def gs_listD [OF L] ip_def)
    then have "ResolveCache E' msg' h' = Ret (t < en_now E + 60000000000, write_msg (msg'\<lparr>dm_Answer :=
        map (\<lambda>i. A_RR (qn_Name q) 1 80 (parse_ipv4 i)) (ip # filter (\<lambda>n. n \<noteq> ip) ips)\<rparr>) h')"
      using True by simp
    moreover have "dh_out (write_msg m h') = dh_out h' @ [m]" for m by simp
    ultimately show ?thesis using set found True by metis
  next
    case False
    then show ?thesis
      using entry q' found unfolding E' by (simp add: ResolveCache_def delete_conv')
  qed
qed

definition cached_env :: dns_env where
  "cached_env = toy_env\<lparr>en_dns := toy_dns\<lparr>dl_Unpack := (\<lambda>_. Inr (empty_msg\<lparr>dm_Answer :=
       [A_RR ''a.'' 1 80 [10, 0, 0, 1]]\<rparr>))\<rparr>,
     en_remote := (conn_of [bytes_of ''dns://''] EOF, [], [], None, 0)\<rparr>"

theorem resolved_names_cached_witness:
  "\<exists>h'. ResolveRemoteOld cached_env toy_query toy_handler = Ret (True, h') \<and>
     SearchIP ''10.0.0.1'' (dh_tables h') = ''a.''"
proof -
  have ip: "ip_str [10, 0, 0, 1] = ''10.0.0.1''" by code_simp
  have raw: "HostToRaw gs_std (PackDNS d toy_query) 99 = Ret (raw_request (PackDNS d toy_query) 99)" for d
    by (simp add: HostToRaw_def)
  have up: "UnpackDNS gs_std (en_dns cached_env) ''dns://'' = Ret (Inr (empty_msg\<lparr>dm_Answer :=
       [A_RR ''a.'' 1 80 [10, 0, 0, 1]]\<rparr>))"
    by (simp add: UnpackDNS_def gs_std_def has_prefix_def split_str.simps b64_decode_def cached_env_def)
  have q: "dm_Question toy_query = [\<lparr>qn_Name = ''a.'', qn_type = 1, qn_class = 1\<rparr>]"
    by (simp add: toy_query_def empty_msg_def)
  have fields: "en_remote cached_env = (conn_of [bytes_of ''dns://''] EOF, [], [], None, 0)"
    "en_gs cached_env = gs_std" "en_gl cached_env = gs_list_std"
    by (simp_all add: cached_env_def toy_env_def)
  obtain h' where h': "ResolveRemoteOld cached_env toy_query toy_handler = Ret (True, h')"
    "last (dh_out h') = empty_msg\<lparr>dm_Answer := [A_RR ''a.'' 1 80 [10, 0, 0, 1]]\<rparr>"
    by (simp add: ResolveRemoteOld_def q fields raw conn_write_def conn_of_def conn_read.simps up
        Let_def ip gs_list_std_def)
  have "fst (record_ips (en_gl cached_env) (dm_Answer (last (dh_out h'))) [] []) = [''10.0.0.1'']"
    by (simp add: h'(2) fields gs_list_std_def ip Let_def)
  from resolved_names_cached [OF _ h'(1) q _ this _ q _ refl] h'(1) show ?thesis
    by (auto simp: fields toy_query_def empty_msg_def)
qed

end
