(* ===== verification/Protocol_Servers.thy ===== *)
theory Protocol_Servers
  imports Ss_Cipher
begin

text \<open>
  The four listeners of \<open>src/connections\<close>: \<open>protls/tlsserver.go\<close>, \<open>prokcp/kcpserver.go\<close>,
  \<open>proquic/quic_server.go\<close> and \<open>prosss/ss_server.go\<close>.  Each keeps the set of client addresses it
  serves (\<open>ips\<close>, a Go map that may be nil), a flag that asks it to stop and its live listener.
  Binding a socket is a parameter (whether it succeeds); what a listener accepts is a sequence of
  outcomes.  \<open>GetAliveIPS\<close> lists the keys in the order of the association.
\<close>

subsection \<open>The address book\<close>

type_synonym ipmap = "(string \<times> bool) list option"

definition ip_keys :: "ipmap \<Rightarrow> string list" where
  "ip_keys m = (case m of None \<Rightarrow> [] | Some al \<Rightarrow> map fst al)"

definition made :: "ipmap \<Rightarrow> (string \<times> bool) list" where
  "made m = (case m of None \<Rightarrow> [] | Some al \<Rightarrow> al)"

record tls_server =
  ts_config :: config
  ts_ips :: ipmap
  ts_listener :: bool
  ts_AcceptConn :: int
  ts_ZeroToDel :: bool

definition NewTlsServer :: "string \<Rightarrow> config \<Rightarrow> tls_server" where
  "NewTlsServer shared_key c =
     \<lparr>ts_config = c\<lparr>cf_Password := shared_key, cf_ProxyType := ''tls''\<rparr>, ts_ips = None,
      ts_listener = False, ts_AcceptConn = 0, ts_ZeroToDel = False\<rparr>"

definition tls_Record :: "string \<Rightarrow> tls_server \<Rightarrow> tls_server" where
  "tls_Record ip s = s\<lparr>ts_ips := Some (AList.update ip True (made (ts_ips s)))\<rparr>"

definition tls_DelRecord :: "string \<Rightarrow> tls_server \<Rightarrow> tls_server" where
  "tls_DelRecord ip s =
     (let m = made (ts_ips s) in
      s\<lparr>ts_ips := Some (if map_of m ip \<noteq> None then AList.delete ip m else m)\<rparr>)"

definition tls_GetAliveIPS :: "tls_server \<Rightarrow> string list" where
  "tls_GetAliveIPS s = ip_keys (ts_ips s)"

definition tls_DelCon :: "string \<Rightarrow> conn \<Rightarrow> tls_server \<Rightarrow> conn \<times> tls_server" where
  "tls_DelCon ip con s =
     (let s1 = tls_DelRecord ip s in (conn_close con, s1\<lparr>ts_AcceptConn := ts_AcceptConn s1 - 1\<rparr>))"

record kcp_server =
  ks_config :: config
  ks_AcceptConn :: int
  ks_ZeroToDel :: bool
  ks_ips :: ipmap
  ks_listener :: bool

definition NewKcpServer :: "config \<Rightarrow> kcp_server" where
  "NewKcpServer c =
     \<lparr>ks_config = c\<lparr>cf_ProxyType := ''kcp'', cf_Type := ''fast''\<rparr>, ks_AcceptConn = 0,
      ks_ZeroToDel = False, ks_ips = None, ks_listener = False\<rparr>"

definition kcp_Record :: "string \<Rightarrow> kcp_server \<Rightarrow> kcp_server" where
  "kcp_Record ip s = s\<lparr>ks_ips := Some (AList.update ip True (made (ks_ips s)))\<rparr>"

definition kcp_DelRecord :: "string \<Rightarrow> kcp_server \<Rightarrow> kcp_server" where
  "kcp_DelRecord ip s =
     (let m = made (ks_ips s) in
      s\<lparr>ks_ips := Some (if map_of m ip \<noteq> None then AList.delete ip m else m)\<rparr>)"

definition kcp_GetAliveIPS :: "kcp_server \<Rightarrow> string list" where
  "kcp_GetAliveIPS s = ip_keys (ks_ips s)"

definition kcp_DelCon :: "string \<Rightarrow> conn \<Rightarrow> kcp_server \<Rightarrow> conn \<times> kcp_server" where
  "kcp_DelCon ip con s =
     (let s1 = kcp_DelRecord ip s in (conn_close con, s1\<lparr>ks_AcceptConn := ks_AcceptConn s1 - 1\<rparr>))"

record quic_server =
  qs_config :: config
  qs_AcceptConn :: int
  qs_ZeroToDel :: bool
  qs_ips :: ipmap
  qs_listener :: bool

definition NewQuicServer :: "string \<Rightarrow> config \<Rightarrow> quic_server" where
  "NewQuicServer shared_key c =
     \<lparr>qs_config = c\<lparr>cf_Password := shared_key, cf_ProxyType := ''quic''\<rparr>, qs_AcceptConn = 0,
      qs_ZeroToDel = False, qs_ips = None, qs_listener = False\<rparr>"

definition quic_Record :: "string \<Rightarrow> quic_server \<Rightarrow> quic_server" where
  "quic_Record ip s = s\<lparr>qs_ips := Some (AList.update ip True (made (qs_ips s)))\<rparr>"

definition quic_DelRecord :: "string \<Rightarrow> quic_server \<Rightarrow> quic_server" where
  "quic_DelRecord ip s =
     (let m = made (qs_ips s) in
      s\<lparr>qs_ips := Some (if map_of m ip \<noteq> None then AList.delete ip m else m)\<rparr>)"

definition quic_GetAliveIPS :: "quic_server \<Rightarrow> string list" where
  "quic_GetAliveIPS s = ip_keys (qs_ips s)"

definition quic_DelCon :: "string \<Rightarrow> conn \<Rightarrow> quic_server \<Rightarrow> conn \<times> quic_server" where
  "quic_DelCon ip con s =
     (conn_close con, quic_DelRecord ip (s\<lparr>qs_AcceptConn := qs_AcceptConn s - 1\<rparr>))"

text \<open>The transport parameters the server pins: idle timeout, keep-alive (ns), the two windows.\<close>

definition newServerQuicConfig :: "int \<times> int \<times> int \<times> int" where
  "newServerQuicConfig = (90 * 1000000000, 15 * 1000000000, 6 * 2 ^ 20, 16 * 2 ^ 20)"

record ss_server =
  ss_config :: config
  ss_cipher :: cipher
  ss_ips :: ipmap
  ss_ZeroToDel :: bool

definition ss_Record :: "string \<Rightarrow> ss_server \<Rightarrow> ss_server" where
  "ss_Record ip s =
     (let m = made (ss_ips s) in
      s\<lparr>ss_ips := Some (if map_of m ip = None then AList.update ip True m else m)\<rparr>)"

definition ss_DelRecord :: "string \<Rightarrow> ss_server \<Rightarrow> ss_server" where
  "ss_DelRecord ip s =
     (let m = made (ss_ips s) in
      s\<lparr>ss_ips := Some (if map_of m ip \<noteq> None then AList.delete ip m else m)\<rparr>)"

definition ss_GetAliveIPS :: "ss_server \<Rightarrow> string list" where
  "ss_GetAliveIPS s = ip_keys (ss_ips s)"

definition ss_TryClose :: "ss_server \<Rightarrow> ss_server" where
  "ss_TryClose s = s\<lparr>ss_ZeroToDel := True\<rparr>"

definition ss_DelCon :: "string \<Rightarrow> conn \<Rightarrow> ss_server \<Rightarrow> conn \<times> ss_server" where
  "ss_DelCon ip con s = (conn_close con, ss_DelRecord ip s)"

text \<open>The contract of an address book, and what any history of it leaves alive.\<close>

datatype ip_event = Came string | Went string

fun run_ips :: "(string \<Rightarrow> 's \<Rightarrow> 's) \<Rightarrow> (string \<Rightarrow> 's \<Rightarrow> 's) \<Rightarrow> ip_event list \<Rightarrow> 's \<Rightarrow> 's" where
  "run_ips rcd del [] s = s"
| "run_ips rcd del (Came ip # es) s = run_ips rcd del es (rcd ip s)"
| "run_ips rcd del (Went ip # es) s = run_ips rcd del es (del ip s)"

fun alive_after :: "ip_event list \<Rightarrow> string set \<Rightarrow> string set" where
  "alive_after [] A = A"
| "alive_after (Came ip # es) A = alive_after es (insert ip A)"
| "alive_after (Went ip # es) A = alive_after es (A - {ip})"

locale address_book =
  fixes rcd :: "string \<Rightarrow> 's \<Rightarrow> 's" and del :: "string \<Rightarrow> 's \<Rightarrow> 's" and alive :: "'s \<Rightarrow> string list"
  assumes rcd_alive: "set (alive (rcd ip s)) = insert ip (set (alive s))"
    and del_alive: "set (alive (del ip s)) = set (alive s) - {ip}"
    and rcd_distinct: "distinct (alive s) \<Longrightarrow> distinct (alive (rcd ip s))"
    and del_distinct: "distinct (alive s) \<Longrightarrow> distinct (alive (del ip s))"
begin

lemma run_alive: "set (alive (run_ips rcd del es s)) = alive_after es (set (alive s))"
proof (induction es arbitrary: s)
  case (Cons e es)
  then show ?case by (cases e) (simp_all add: rcd_alive del_alive)
qed simp

lemma run_distinct: "distinct (alive s) \<Longrightarrow> distinct (alive (run_ips rcd del es s))"
proof (induction es arbitrary: s)
  case (Cons e es)
  then show ?case by (cases e) (simp_all add: rcd_distinct del_distinct)
qed simp

end

lemma keys_made: "ip_keys m = map fst (made m)"
  by (simp add: ip_keys_def made_def split: option.splits)

lemma keys_update: "set (map fst (AList.update k v al)) = insert k (set (map fst al))"
  using dom_update [of k v al] by simp

lemma keys_delete: "set (map fst (AList.delete k al)) = set (map fst al) - {k}"
  by (simp add: delete_keys)

lemma map_of_None_keys: "map_of al k = None \<longleftrightarrow> k \<notin> set (map fst al)"
  by (simp add: map_of_eq_None_iff)

lemma keys_absorb: "k \<in> set (map fst al) \<Longrightarrow> set (map fst al) = insert k (set (map fst al))"
  by auto

lemmas book_simps = keys_made keys_update keys_delete made_def [of "Some _"] Let_def
  map_of_None_keys distinct_update distinct_delete

interpretation tls: address_book tls_Record tls_DelRecord tls_GetAliveIPS
  by unfold_locales
    (auto simp: tls_Record_def tls_DelRecord_def tls_GetAliveIPS_def book_simps
      simp del: set_map)

interpretation kcp: address_book kcp_Record kcp_DelRecord kcp_GetAliveIPS
  by unfold_locales
    (auto simp: kcp_Record_def kcp_DelRecord_def kcp_GetAliveIPS_def book_simps
      simp del: set_map)

interpretation quic: address_book quic_Record quic_DelRecord quic_GetAliveIPS
  by unfold_locales
    (auto simp: quic_Record_def quic_DelRecord_def quic_GetAliveIPS_def book_simps
      simp del: set_map)

interpretation ss: address_book ss_Record ss_DelRecord ss_GetAliveIPS
  by unfold_locales
    (auto simp: ss_Record_def ss_DelRecord_def ss_GetAliveIPS_def book_simps insert_absorb
      simp del: set_map)

text \<open>
  All four servers report, after any history of connections and disconnections, exactly the
  addresses whose last event was a connection, each once.
\<close>

theorem alive_ips_exact:
  "set (tls_GetAliveIPS (run_ips tls_Record tls_DelRecord es s1)) =
      alive_after es (set (tls_GetAliveIPS s1)) \<and>
   set (kcp_GetAliveIPS (run_ips kcp_Record kcp_DelRecord es s2)) =
      alive_after es (set (kcp_GetAliveIPS s2)) \<and>
   set (quic_GetAliveIPS (run_ips quic_Record quic_DelRecord es s3)) =
      alive_after es (set (quic_GetAliveIPS s3)) \<and>
   set (ss_GetAliveIPS (run_ips ss_Record ss_DelRecord es s4)) =
      alive_after es (set (ss_GetAliveIPS s4))"
  by (simp add: tls.run_alive kcp.run_alive quic.run_alive ss.run_alive)

subsection \<open>Accepting\<close>

text \<open>
  What a listener delivers: an accepted client or the error that ends it.  The accept loop
  records and hands on every client until the error; \<open>None\<close> is a loop that still waits.
\<close>

datatype accepted = Client string | Broken goerr

fun tls_accept_loop :: "accepted list \<Rightarrow> tls_server \<Rightarrow> goerr option \<times> string list \<times> tls_server" where
  "tls_accept_loop [] s = (None, [], s)"
| "tls_accept_loop (Broken e # as) s = (Some e, [], s)"
| "tls_accept_loop (Client ip # as) s =
     (case tls_accept_loop as (tls_Record ip s) of (e, hs, s') \<Rightarrow> (e, ip # hs, s'))"

text \<open>
  \<open>AcceptHandle\<close>: \<open>bound\<close> says whether \<open>GetListener\<close> delivered one.  The result is the outcome
  (\<open>None\<close>: still accepting; \<open>Some None\<close>: nil), the clients handled, the state, and whether the
  listener was closed.
\<close>

definition tls_AcceptHandle ::
  "bool \<Rightarrow> accepted list \<Rightarrow> tls_server \<Rightarrow> goerr option option \<times> string list \<times> tls_server \<times> bool" where
  "tls_AcceptHandle bound as s =
     (if \<not> bound then (Some (Some (GoErr ''listener is closed'')), [], s, False)
      else
        let closedEarly = ts_ZeroToDel s; s1 = s\<lparr>ts_listener := True\<rparr> in
        if closedEarly then (Some None, [], s1, True)
        else (case tls_accept_loop as s1 of
            (None, hs, s2) \<Rightarrow> (None, hs, s2, False)
          | (Some e, hs, s2) \<Rightarrow> (Some (Some e), hs, s2, True)))"

text \<open>\<open>TryClose\<close> returns the new state and whether it closed a listener.\<close>

definition tls_TryClose :: "tls_server \<Rightarrow> tls_server \<times> bool" where
  "tls_TryClose s = (let s1 = s\<lparr>ts_ZeroToDel := True\<rparr> in (s1, ts_listener s1))"

definition tls_Accept :: "bool \<Rightarrow> accepted \<Rightarrow> tls_server \<Rightarrow> (goerr + string) \<times> tls_server" where
  "tls_Accept bound a s =
     (if \<not> bound then (Inl (GoErr ''get listener err! in kcp''), s)
      else case a of
        Broken e \<Rightarrow> (Inl e, s)
      | Client ip \<Rightarrow> (Inr ip, s\<lparr>ts_AcceptConn := ts_AcceptConn s + 1\<rparr>))"

fun kcp_accept_loop :: "accepted list \<Rightarrow> kcp_server \<Rightarrow> goerr option \<times> string list \<times> kcp_server" where
  "kcp_accept_loop [] s = (None, [], s)"
| "kcp_accept_loop (Broken e # as) s = (Some e, [], s)"
| "kcp_accept_loop (Client ip # as) s =
     (case kcp_accept_loop as (kcp_Record ip s) of (e, hs, s') \<Rightarrow> (e, ip # hs, s'))"

definition kcp_AcceptHandle ::
  "bool \<Rightarrow> accepted list \<Rightarrow> kcp_server \<Rightarrow> goerr option option \<times> string list \<times> kcp_server \<times> bool" where
  "kcp_AcceptHandle bound as s =
     (if \<not> bound then (Some (Some (GoErr ''listener is closed'')), [], s, False)
      else
        let closedEarly = ks_ZeroToDel s; s1 = s\<lparr>ks_listener := True\<rparr> in
        if closedEarly then (Some None, [], s1, True)
        else (case kcp_accept_loop as s1 of
            (None, hs, s2) \<Rightarrow> (None, hs, s2, False)
          | (Some e, hs, s2) \<Rightarrow> (Some (Some e), hs, s2, True)))"

definition kcp_TryClose :: "kcp_server \<Rightarrow> kcp_server \<times> bool" where
  "kcp_TryClose s = (let s1 = s\<lparr>ks_ZeroToDel := True\<rparr> in (s1, ks_listener s1))"

fun quic_accept_loop :: "accepted list \<Rightarrow> quic_server \<Rightarrow> goerr option \<times> string list \<times> quic_server" where
  "quic_accept_loop [] s = (None, [], s)"
| "quic_accept_loop (Broken e # as) s = (Some e, [], s)"
| "quic_accept_loop (Client ip # as) s =
     (case quic_accept_loop as (quic_Record ip s) of (e, hs, s') \<Rightarrow> (e, ip # hs, s'))"

definition quic_AcceptHandle ::
  "goerr option \<Rightarrow> accepted list \<Rightarrow> quic_server \<Rightarrow> goerr option option \<times> string list \<times> quic_server \<times> bool" where
  "quic_AcceptHandle listen_err as s =
     (case listen_err of
        Some e \<Rightarrow> (Some (Some e), [], s, False)
      | None \<Rightarrow>
        let closedEarly = qs_ZeroToDel s; s1 = s\<lparr>qs_listener := True\<rparr> in
        if closedEarly then (Some None, [], s1, True)
        else (case quic_accept_loop as s1 of
            (None, hs, s2) \<Rightarrow> (None, hs, s2, False)
          | (Some e, hs, s2) \<Rightarrow> (Some (Some e), hs, s2, True)))"

definition quic_TryClose :: "quic_server \<Rightarrow> quic_server \<times> bool" where
  "quic_TryClose s = (let s1 = s\<lparr>qs_ZeroToDel := True\<rparr> in (s1, qs_listener s1))"

text \<open>The two goroutines of the encrypted server: one accepts, one selects over its events.\<close>

fun ss_accept_loop :: "accepted list \<Rightarrow> ss_server \<Rightarrow> goerr option \<times> string list \<times> ss_server" where
  "ss_accept_loop [] s = (None, [], s)"
| "ss_accept_loop (Broken e # as) s = (if \<not> ss_ZeroToDel s then Some e else None, [], s)"
| "ss_accept_loop (Client ip # as) s =
     (case ss_accept_loop as (ss_Record ip s) of (e, q, s') \<Rightarrow> (e, ip # q, s'))"

datatype ss_event = Tick bool | Failed goerr | Arrived string

text \<open>A tick carries what the stop flag is at that moment; \<open>None\<close> is a select that still waits.\<close>

fun ss_select :: "ss_event list \<Rightarrow> goerr option option \<times> string list" where
  "ss_select [] = (None, [])"
| "ss_select (Tick stop # es) = (if stop then (Some None, []) else ss_select es)"
| "ss_select (Failed e # es) = (Some (Some e), [])"
| "ss_select (Arrived ip # es) = (case ss_select es of (r, hs) \<Rightarrow> (r, ip # hs))"

subsection \<open>Closing while starting\<close>

text \<open>
  \<open>TryClose\<close> may run while \<open>AcceptHandle\<close> is still binding its socket.  Both have one critical
  section.  The handler has not bound, has bound its listener, has passed the section (with what
  it read of the stop flag), accepts, or has returned; the closer has not started, has left
  its section (with whether it saw a listener), or is done.  The same code is in the tls, kcp and
  quic servers.
\<close>

datatype accept_pc = AStart | ABound | APassed bool | AAccepting | AReturned
datatype closer_pc = CStart | CPassed bool | CDone

record close_sys =
  cs_flag :: bool
  cs_listener :: bool
  cs_open :: bool
  cs_handler :: accept_pc
  cs_closer :: closer_pc

inductive close_step :: "close_sys \<Rightarrow> close_sys \<Rightarrow> bool" where
  bind: "cs_handler s = AStart \<Longrightarrow> close_step s (s\<lparr>cs_handler := ABound, cs_open := True\<rparr>)"
| enter: "cs_handler s = ABound \<Longrightarrow>
    close_step s (s\<lparr>cs_handler := APassed (cs_flag s), cs_listener := True\<rparr>)"
| early: "cs_handler s = APassed True \<Longrightarrow> close_step s (s\<lparr>cs_handler := AReturned, cs_open := False\<rparr>)"
| serve: "cs_handler s = APassed False \<Longrightarrow> close_step s (s\<lparr>cs_handler := AAccepting\<rparr>)"
| ended: "cs_handler s = AAccepting \<Longrightarrow> close_step s (s\<lparr>cs_handler := AReturned, cs_open := False\<rparr>)"
| request: "cs_closer s = CStart \<Longrightarrow>
    close_step s (s\<lparr>cs_closer := CPassed (cs_listener s), cs_flag := True\<rparr>)"
| shut: "cs_closer s = CPassed True \<Longrightarrow> close_step s (s\<lparr>cs_closer := CDone, cs_open := False\<rparr>)"
| skip: "cs_closer s = CPassed False \<Longrightarrow> close_step s (s\<lparr>cs_closer := CDone\<rparr>)"

inductive close_reach :: "close_sys \<Rightarrow> bool" where
  start: "close_reach \<lparr>cs_flag = False, cs_listener = False, cs_open = False, cs_handler = AStart,
    cs_closer = CStart\<rparr>"
| step: "close_reach s \<Longrightarrow> close_step s t \<Longrightarrow> close_reach t"

definition close_inv :: "close_sys \<Rightarrow> bool" where
  "close_inv s \<longleftrightarrow>
     (cs_flag s \<longleftrightarrow> cs_closer s \<noteq> CStart) \<and>
     (cs_listener s \<longleftrightarrow> cs_handler s \<notin> {AStart, ABound}) \<and>
     (cs_handler s = AStart \<or> cs_handler s = AReturned \<longrightarrow> \<not> cs_open s) \<and>
     (cs_closer s = CPassed True \<longrightarrow> cs_listener s) \<and>
     (cs_handler s = APassed False \<or> cs_handler s = AAccepting \<longrightarrow>
        cs_closer s \<noteq> CPassed False \<and> (cs_closer s = CDone \<longrightarrow> \<not> cs_open s))"

lemma close_reach_inv: "close_reach s \<Longrightarrow> close_inv s"
proof (induction rule: close_reach.induct)
  case (step s t)
  from step(2,3) show ?case
    by (induction rule: close_step.induct) (auto simp: close_inv_def)
qed (simp add: close_inv_def)

text \<open>
  No listener survives a close request, whichever of the two was faster: once \<open>TryClose\<close>
  has returned, a handler that accepts or has returned has a closed listener, and a handler
  still on its way in finds the stop flag set.
\<close>

theorem TryClose_closes:
  assumes "close_reach s" "cs_closer s = CDone"
  shows "cs_flag s \<and> (cs_handler s \<in> {APassed False, AAccepting, AReturned} \<longrightarrow> \<not> cs_open s)"
  using close_reach_inv [OF assms(1)] assms(2) by (auto simp: close_inv_def)

theorem TryClose_closes_witness:
  "\<exists>s. close_reach s \<and> cs_closer s = CDone \<and> cs_handler s = AReturned \<and> \<not> cs_open s"
proof -
  define s0 where "s0 = \<lparr>cs_flag = False, cs_listener = False, cs_open = False, cs_handler = AStart,
    cs_closer = CStart\<rparr>"
  note step' = close_reach.step
  have 0: "close_reach s0" unfolding s0_def by (rule close_reach.start)
  have 1: "close_reach (s0\<lparr>cs_handler := ABound, cs_open := True\<rparr>)"
    by (rule step' [OF 0]) (rule close_step.bind, simp add: s0_def)
  have 2: "close_reach (s0\<lparr>cs_handler := ABound, cs_open := True, cs_closer := CPassed False, cs_flag := True\<rparr>)"
    using step' [OF 1 close_step.request] by (simp add: s0_def)
  have 3: "close_reach (s0\<lparr>cs_handler := ABound, cs_open := True, cs_closer := CDone, cs_flag := True\<rparr>)"
    using step' [OF 2 close_step.skip] by (simp add: s0_def)
  have 4: "close_reach (s0\<lparr>cs_handler := APassed True, cs_open := True, cs_closer := CDone, cs_flag := True,
      cs_listener := True\<rparr>)"
    using step' [OF 3 close_step.enter] by (simp add: s0_def)
  have 5: "close_reach (s0\<lparr>cs_handler := AReturned, cs_open := False, cs_closer := CDone, cs_flag := True,
      cs_listener := True\<rparr>)"
    using step' [OF 4 close_step.early] by (simp add: s0_def)
  from TryClose_closes [OF 5] 5 show ?thesis by (auto simp: s0_def)
qed

lemma tls_accept_loop_spec:
  "tls_accept_loop (map Client ips @ Broken e # as) s = (Some e, ips, foldl (\<lambda>s ip. tls_Record ip s) s ips)"
  by (induction ips arbitrary: s) auto

lemma foldl_record_alive:
  "set (tls_GetAliveIPS (foldl (\<lambda>s ip. tls_Record ip s) s ips)) = set (tls_GetAliveIPS s) \<union> set ips"
  by (induction ips arbitrary: s) (auto simp: tls.rcd_alive)

text \<open>
  The accept loop hands on exactly the clients before the first error, their addresses are
  alive afterwards, and the listener is closed; a server asked to stop before it started
  accepts nobody, closes its listener and returns nil.
\<close>

theorem AcceptHandle_spec:
  "\<exists>s'. tls_AcceptHandle True (map Client ips @ Broken e # as) s =
     (if ts_ZeroToDel s then (Some None, [], s', True) else (Some (Some e), ips, s', True)) \<and>
     set (tls_GetAliveIPS s') = set (tls_GetAliveIPS s) \<union> (if ts_ZeroToDel s then {} else set ips)"
  using foldl_record_alive [of "s\<lparr>ts_listener := True\<rparr>" ips]
  by (simp add: tls_AcceptHandle_def tls_accept_loop_spec tls_GetAliveIPS_def)

end
