(* ===== verification/Proxy_Tunnel.thy ===== *)
theory Proxy_Tunnel
  imports Health_Metrics Dns_Cache Dns_Server Protocol_Servers
begin

text \<open>
  \<open>src/connections/base/proxytunnel.go\<close>: one tunnel of the server.  \<open>HandleConnAsync\<close> takes a
  stream through the global budget, the tunnel's limit, the request parser and one of three
  handlers, and gives everything back; \<open>Pipe\<close> relays bytes in both directions at once.  The
  underlying protocol is its configuration and the number of connections deleted through it;
  dialling, resolving and the control callback are parameters, as is the order in which the two
  relaying goroutines run.
\<close>

record tunnel =
  pt_alive :: int
  pt_lastActive :: int
  pt_protocl :: "config option"
  pt_dels :: nat
  pt_UseSmux :: bool
  pt_On :: bool
  pt_ZeroToDel :: bool
  pt_metrics :: "health option"
  pt_maxConn :: int

definition NewProxyTunnel :: "config \<Rightarrow> int \<Rightarrow> tunnel" where
  "NewProxyTunnel c now = \<lparr>pt_alive = 0, pt_lastActive = now, pt_protocl = Some c, pt_dels = 0,
     pt_UseSmux = True, pt_On = False, pt_ZeroToDel = False,
     pt_metrics = Some (NewHealthMetrics 1000 now), pt_maxConn = 1000\<rparr>"

definition GetClientNum :: "tunnel \<Rightarrow> int" where "GetClientNum pt = pt_alive pt"
definition LastActive :: "tunnel \<Rightarrow> int" where "LastActive pt = pt_lastActive pt"
definition SetLastActive :: "int \<Rightarrow> tunnel \<Rightarrow> tunnel" where
  "SetLastActive t pt = pt\<lparr>pt_lastActive := t\<rparr>"
definition touchLastActive :: "int \<Rightarrow> tunnel \<Rightarrow> tunnel" where
  "touchLastActive now pt = pt\<lparr>pt_lastActive := now\<rparr>"
definition GetConfig :: "tunnel \<Rightarrow> config option" where "GetConfig pt = pt_protocl pt"

definition GetScore :: "tunnel \<Rightarrow> rat" where
  "GetScore pt = (if pt_metrics pt = None then 1 / 2 else CalculateScore (pt_metrics pt))"
definition tun_IsHealthy :: "tunnel \<Rightarrow> bool" where
  "tun_IsHealthy pt = (if pt_metrics pt = None then True else IsHealthy (pt_metrics pt))"
definition tun_Accepts :: "tunnel \<Rightarrow> bool" where
  "tun_Accepts pt = (if pt_metrics pt = None then True else AcceptsNewConnections (pt_metrics pt))"
definition tun_SetMax :: "int \<Rightarrow> tunnel \<Rightarrow> tunnel" where
  "tun_SetMax m pt = pt\<lparr>pt_maxConn := m, pt_metrics := SetMaxConnections m (pt_metrics pt)\<rparr>"

definition tun_DelCon :: "int \<Rightarrow> conn \<Rightarrow> tunnel \<Rightarrow> conn \<times> tunnel" where
  "tun_DelCon now con pt = (conn_close con, (touchLastActive now pt)\<lparr>pt_dels := pt_dels pt + 1\<rparr>)"

subsection \<open>Relaying\<close>

text \<open>One round of \<open>streamCopy\<close>; the last result says that the goroutine returned (and closed both).\<close>

definition pipeBufferSize :: nat where "pipeBufferSize = 128 * 1024"

definition copy_round :: "nat \<Rightarrow> conn \<Rightarrow> conn \<Rightarrow> conn \<times> conn \<times> bool" where
  "copy_round n dst src =
     (case conn_read n src of ((bs, err), src1) \<Rightarrow>
       case (if bs \<noteq> [] then conn_write bs dst else (None, dst)) of (ew, dst1) \<Rightarrow>
         if ew \<noteq> None \<or> err \<noteq> None then (conn_close dst1, conn_close src1, True)
         else (dst1, src1, False))"

text \<open>Both ends, and which of the two directions (into the first, into the second) has returned.\<close>

datatype relay = ServerPipe | ClientPipe

fun relay_buffer :: "relay \<Rightarrow> nat" where
  "relay_buffer ServerPipe = pipeBufferSize"
| "relay_buffer ClientPipe = 4096"

lemma relay_buffer_pos [simp]: "0 < relay_buffer k"
  by (cases k) (simp_all add: pipeBufferSize_def)

record pipe =
  pi_kind :: relay
  pi_p1 :: conn
  pi_p2 :: conn
  pi_done1 :: bool
  pi_done2 :: bool

definition step1 :: "pipe \<Rightarrow> pipe" where
  "step1 s = (if pi_done1 s then s else
     case copy_round (relay_buffer (pi_kind s)) (pi_p1 s) (pi_p2 s) of (d, r, over) \<Rightarrow> s\<lparr>pi_p1 := d, pi_p2 := r, pi_done1 := over\<rparr>)"

definition step2 :: "pipe \<Rightarrow> pipe" where
  "step2 s = (if pi_done2 s then s else
     case copy_round (relay_buffer (pi_kind s)) (pi_p2 s) (pi_p1 s) of (d, r, over) \<Rightarrow> s\<lparr>pi_p2 := d, pi_p1 := r, pi_done2 := over\<rparr>)"

definition pending :: "conn \<Rightarrow> nat" where
  "pending c = sum_list (map (\<lambda>s. length s + 1) (inq c))"

lemma conn_read_pending:
  assumes "conn_read k c = ((bs, None), c')" "0 < k"
  shows "pending c' < pending c"
  using assms by (auto simp: conn_read.simps pending_def split: list.splits if_splits)

lemma conn_write_inq: "inq (snd (conn_write bs c)) = inq c"
  by (cases "conn_write bs c") (auto dest: conn_write_frame(1))

text \<open>The loop of one goroutine left alone; the other end of the pipe does not change under it.\<close>

function drain1 :: "pipe \<Rightarrow> pipe" where
  "drain1 s = (if pi_done1 s then s else drain1 (step1 s))"
  by auto
termination
proof (relation "measure (\<lambda>s :: pipe. if pi_done1 s then 0 else Suc (pending (pi_p2 s)))")
  fix s :: pipe assume nd: "\<not> pi_done1 s"
  obtain bs err src1 where r: "conn_read (relay_buffer (pi_kind s)) (pi_p2 s) = ((bs, err), src1)"
    by (metis surj_pair)
  have "pending src1 < pending (pi_p2 s)" if "err = None"
    using conn_read_pending [of "relay_buffer (pi_kind s)" "pi_p2 s" bs src1] r that by simp
  then show "(step1 s, s) \<in> measure (\<lambda>s :: pipe. if pi_done1 s then 0 else Suc (pending (pi_p2 s)))"
    using nd r by (auto simp: step1_def copy_round_def split: prod.splits if_splits)
qed simp

function drain2 :: "pipe \<Rightarrow> pipe" where
  "drain2 s = (if pi_done2 s then s else drain2 (step2 s))"
  by auto
termination
proof (relation "measure (\<lambda>s :: pipe. if pi_done2 s then 0 else Suc (pending (pi_p1 s)))")
  fix s :: pipe assume nd: "\<not> pi_done2 s"
  obtain bs err src1 where r: "conn_read (relay_buffer (pi_kind s)) (pi_p1 s) = ((bs, err), src1)"
    by (metis surj_pair)
  have "pending src1 < pending (pi_p1 s)" if "err = None"
    using conn_read_pending [of "relay_buffer (pi_kind s)" "pi_p1 s" bs src1] r that by simp
  then show "(step2 s, s) \<in> measure (\<lambda>s :: pipe. if pi_done2 s then 0 else Suc (pending (pi_p1 s)))"
    using nd r by (auto simp: step2_def copy_round_def split: prod.splits if_splits)
qed simp

declare drain1.simps [simp del] drain2.simps [simp del]

text \<open>
  \<open>Pipe\<close> under a schedule: the rounds named by \<open>sched\<close> (True: the first direction) run first, then
  each goroutine to its end.  Every terminating interleaving is such a run.
\<close>

definition run_sched :: "bool list \<Rightarrow> pipe \<Rightarrow> pipe" where
  "run_sched sched s = foldl (\<lambda>s one. if one then step1 s else step2 s) s sched"

definition relay_run :: "relay \<Rightarrow> bool list \<Rightarrow> conn \<Rightarrow> conn \<Rightarrow> conn \<times> conn" where
  "relay_run kind sched p1 p2 =
     (let s = drain2 (drain1 (run_sched sched \<lparr>pi_kind = kind, pi_p1 = p1, pi_p2 = p2, pi_done1 = False, pi_done2 = False\<rparr>))
      in (pi_p1 s, pi_p2 s))"

definition Pipe :: "bool list \<Rightarrow> conn \<Rightarrow> conn \<Rightarrow> conn \<times> conn" where
  "Pipe = relay_run ServerPipe"

text \<open>
  What has been relayed: the writes since the start followed by what can still be read are the
  bytes that were to come, until the source is closed.
\<close>

definition relayed :: "bytes list \<Rightarrow> bytes \<Rightarrow> conn \<Rightarrow> conn \<Rightarrow> bool" where
  "relayed out0 input dst src \<longleftrightarrow> (\<exists>chunks. outq dst = out0 @ chunks \<and>
     prefix (concat chunks) input \<and> (is_closed src \<or> concat chunks @ concat (inq src) = input))"

lemma copy_round_relayed:
  assumes "copy_round n dst src = (dst', src', over)" "relayed out0 input dst src" "is_closed src \<longrightarrow> inq src = []"
  shows "relayed out0 input dst' src'" "is_closed src' \<longrightarrow> inq src' = []"
    "over \<longrightarrow> is_closed dst' \<and> is_closed src' \<and> inq dst' = []"
    "outq src' = outq src" "\<not> over \<longrightarrow> inq dst' = inq dst \<and> is_closed dst' = is_closed dst"
proof -
  obtain bs err src1 where r: "conn_read n src = ((bs, err), src1)" by (metis surj_pair)
  obtain ew dst1 where w: "(if bs \<noteq> [] then conn_write bs dst else (None, dst)) = (ew, dst1)" by fastforce
  have rd: "bs @ concat (inq src1) = concat (inq src)" "outq src1 = outq src" "is_closed src1 = is_closed src"
    "err \<noteq> None \<longrightarrow> bs = []" "inq src = [] \<longrightarrow> inq src1 = []"
    using r by (auto simp: conn_read.simps split: list.splits if_splits)
  have wr: "outq dst1 = (if ew = None \<and> bs \<noteq> [] then outq dst @ [bs] else outq dst)"
    "inq dst1 = inq dst" "is_closed dst1 = is_closed dst"
    using w conn_write_frame [of bs dst ew dst1] by (auto split: if_splits)
  have res: "(dst', src', over) = (if ew \<noteq> None \<or> err \<noteq> None then (conn_close dst1, conn_close src1, True)
      else (dst1, src1, False))"
    using assms(1) r w by (simp add: copy_round_def)
  obtain chunks where ch: "outq dst = out0 @ chunks" "prefix (concat chunks) input"
    "is_closed src \<or> concat chunks @ concat (inq src) = input"
    using assms(2) by (auto simp: relayed_def)
  define chunks' where "chunks' = (if ew = None \<and> bs \<noteq> [] then chunks @ [bs] else chunks)"
  have out': "outq dst1 = out0 @ chunks'" using wr(1) ch(1) by (simp add: chunks'_def)
  have bs: "bs = []" if "is_closed src" using that assms(3) rd(1) by simp
  have eq: "concat chunks' @ concat (inq src1) = input" if "\<not> is_closed src" "ew = None"
    using that ch(3) rd(1) by (auto simp: chunks'_def)
  have pre: "prefix (concat chunks') input"
  proof (cases "is_closed src \<or> ew \<noteq> None")
    case True
    then show ?thesis using ch(2) bs by (auto simp: chunks'_def)
  next
    case False
    then show ?thesis using eq by (metis prefixI)
  qed
  show "relayed out0 input dst' src'"
    using res out' pre eq rd(3) by (auto simp: relayed_def split: if_splits intro!: exI [of _ chunks'])
  show "is_closed src' \<longrightarrow> inq src' = []" using res rd(3,5) assms(3) by (auto split: if_splits)
  show "over \<longrightarrow> is_closed dst' \<and> is_closed src' \<and> inq dst' = []" using res by (auto split: if_splits)
  show "outq src' = outq src" using res rd(2) by (auto split: if_splits)
  show "\<not> over \<longrightarrow> inq dst' = inq dst \<and> is_closed dst' = is_closed dst"
    using res wr(2,3) by (auto split: if_splits)
qed

definition pipe_inv :: "conn \<Rightarrow> conn \<Rightarrow> pipe \<Rightarrow> bool" where
  "pipe_inv p1 p2 s \<longleftrightarrow> relayed (outq p1) (concat (inq p2)) (pi_p1 s) (pi_p2 s) \<and>
     relayed (outq p2) (concat (inq p1)) (pi_p2 s) (pi_p1 s) \<and>
     (is_closed (pi_p1 s) \<longrightarrow> inq (pi_p1 s) = []) \<and> (is_closed (pi_p2 s) \<longrightarrow> inq (pi_p2 s) = []) \<and>
     (pi_done1 s \<or> pi_done2 s \<longrightarrow> is_closed (pi_p1 s) \<and> is_closed (pi_p2 s))"

lemma relayed_source:
  assumes "relayed o0 i d r" "outq d' = outq d" "is_closed r' \<or> (inq r' = inq r \<and> is_closed r' = is_closed r)"
  shows "relayed o0 i d' r'"
  using assms by (auto simp: relayed_def)

lemma step1_inv: "pipe_inv p1 p2 s \<Longrightarrow> pipe_inv p1 p2 (step1 s)"
proof (cases "pi_done1 s")
  case False
  assume inv: "pipe_inv p1 p2 s"
  obtain d r over where c: "copy_round (relay_buffer (pi_kind s)) (pi_p1 s) (pi_p2 s) = (d, r, over)" by (metis prod_cases3)
  have pre: "relayed (outq p1) (concat (inq p2)) (pi_p1 s) (pi_p2 s)"
    "relayed (outq p2) (concat (inq p1)) (pi_p2 s) (pi_p1 s)"
    "is_closed (pi_p2 s) \<longrightarrow> inq (pi_p2 s) = []" "is_closed (pi_p1 s) \<longrightarrow> inq (pi_p1 s) = []"
    "pi_done1 s \<or> pi_done2 s \<longrightarrow> is_closed (pi_p1 s) \<and> is_closed (pi_p2 s)"
    using inv by (simp_all add: pipe_inv_def)
  note rel = copy_round_relayed [OF c pre(1,3)]
  have "relayed (outq p2) (concat (inq p1)) r d"
    using rel(3-5) by (intro relayed_source [OF pre(2)]) blast+
  moreover have "is_closed d \<longrightarrow> inq d = []" using rel(3,5) pre(4) by metis
  moreover have "is_closed r" if "is_closed (pi_p2 s)"
  proof (cases over)
    case True
    then show ?thesis using rel(3) by simp
  next
    case False
    then show ?thesis using c that by (auto simp: copy_round_def conn_read.simps split: list.splits prod.splits if_splits)
  qed
  ultimately show ?thesis
    using rel(1,2,3,5) pre(5) c False unfolding pipe_inv_def step1_def
    by (cases over) simp_all
qed (simp add: step1_def)

lemma step2_inv: "pipe_inv p1 p2 s \<Longrightarrow> pipe_inv p1 p2 (step2 s)"
proof (cases "pi_done2 s")
  case False
  assume inv: "pipe_inv p1 p2 s"
  obtain d r over where c: "copy_round (relay_buffer (pi_kind s)) (pi_p2 s) (pi_p1 s) = (d, r, over)" by (metis prod_cases3)
  have pre: "relayed (outq p2) (concat (inq p1)) (pi_p2 s) (pi_p1 s)"
    "relayed (outq p1) (concat (inq p2)) (pi_p1 s) (pi_p2 s)"
    "is_closed (pi_p1 s) \<longrightarrow> inq (pi_p1 s) = []" "is_closed (pi_p2 s) \<longrightarrow> inq (pi_p2 s) = []"
    "pi_done1 s \<or> pi_done2 s \<longrightarrow> is_closed (pi_p1 s) \<and> is_closed (pi_p2 s)"
    using inv by (simp_all add: pipe_inv_def)
  note rel = copy_round_relayed [OF c pre(1,3)]
  have "relayed (outq p1) (concat (inq p2)) r d"
    using rel(3-5) by (intro relayed_source [OF pre(2)]) blast+
  moreover have "is_closed d \<longrightarrow> inq d = []" using rel(3,5) pre(4) by metis
  moreover have "is_closed r" if "is_closed (pi_p1 s)"
  proof (cases over)
    case True
    then show ?thesis using rel(3) by simp
  next
    case False
    then show ?thesis using c that by (auto simp: copy_round_def conn_read.simps split: list.splits prod.splits if_splits)
  qed
  ultimately show ?thesis
    using rel(1,2,3,5) pre(5) c False unfolding pipe_inv_def step2_def
    by (cases over) simp_all
qed (simp add: step2_def)

lemma run_sched_inv: "pipe_inv p1 p2 s \<Longrightarrow> pipe_inv p1 p2 (run_sched sched s)"
  by (induction sched arbitrary: s) (auto simp: run_sched_def step1_inv step2_inv)

lemma drain1_inv: "pipe_inv p1 p2 s \<Longrightarrow> pipe_inv p1 p2 (drain1 s) \<and> pi_done1 (drain1 s)"
proof (induction s rule: drain1.induct)
  case (1 s)
  then show ?case by (cases "pi_done1 s") (simp_all add: drain1.simps [of s] step1_inv)
qed

lemma drain2_inv: "pipe_inv p1 p2 s \<Longrightarrow> pipe_inv p1 p2 (drain2 s) \<and> pi_done2 (drain2 s)"
proof (induction s rule: drain2.induct)
  case (1 s)
  then show ?case by (cases "pi_done2 s") (simp_all add: drain2.simps [of s] step2_inv)
qed

lemma relay_facts:
  assumes "\<not> is_closed p1" "\<not> is_closed p2" "relay_run kind sched p1 p2 = (q1, q2)"
  shows "is_closed q1 \<and> is_closed q2 \<and>
    (\<exists>c1 c2. outq q1 = outq p1 @ c1 \<and> prefix (concat c1) (concat (inq p2)) \<and>
      outq q2 = outq p2 @ c2 \<and> prefix (concat c2) (concat (inq p1)))"
proof -
  define s0 where "s0 = \<lparr>pi_kind = kind, pi_p1 = p1, pi_p2 = p2, pi_done1 = False, pi_done2 = False\<rparr>"
  have "pipe_inv p1 p2 s0" using assms(1,2) by (auto simp: s0_def pipe_inv_def relayed_def)
  then have "pipe_inv p1 p2 (drain2 (drain1 (run_sched sched s0)))
      \<and> pi_done2 (drain2 (drain1 (run_sched sched s0)))"
    using drain2_inv drain1_inv run_sched_inv by blast
  then show ?thesis using assms(3) by (auto simp: relay_run_def s0_def [symmetric] Let_def pipe_inv_def relayed_def)
qed

text \<open>
  C8. Relaying ends under every schedule with both connections closed, and each side was sent a
  prefix of the other side's bytes, in order: nothing is reordered, invented or repeated.
\<close>

theorem Pipe_relays:
  assumes "\<not> is_closed p1" "\<not> is_closed p2" "Pipe sched p1 p2 = (q1, q2)"
  shows "is_closed q1 \<and> is_closed q2 \<and>
    (\<exists>c1 c2. outq q1 = outq p1 @ c1 \<and> prefix (concat c1) (concat (inq p2)) \<and>
      outq q2 = outq p2 @ c2 \<and> prefix (concat c2) (concat (inq p1)))"
  by (rule relay_facts [OF assms(1,2) assms(3) [unfolded Pipe_def]])

theorem Pipe_relays_witness:
  "\<exists>q1 q2. Pipe [False] (conn_of [[1]] EOF) (conn_of [[2]] EOF) = (q1, q2) \<and> is_closed q1 \<and> is_closed q2"
  using Pipe_relays [of "conn_of [[1]] EOF" "conn_of [[2]] EOF" "[False]"] by (metis conn_of_simps(5) surj_pair)

text \<open>
  A half-closed connection is not supported: when one side has nothing more to send, the
  relay closes both, and bytes of the other side that had not been relayed yet are lost.
\<close>

theorem Pipe_half_close:
  "outq (snd (Pipe [True] (conn_of segs e) (conn_of [] EOF))) = []"
proof -
  have s1: "step1 \<lparr>pi_kind = ServerPipe, pi_p1 = conn_of segs e, pi_p2 = conn_of [] EOF, pi_done1 = False, pi_done2 = False\<rparr> =
      \<lparr>pi_kind = ServerPipe, pi_p1 = conn_close (conn_of segs e), pi_p2 = conn_close (conn_of [] EOF), pi_done1 = True, pi_done2 = False\<rparr>"
    by (simp add: step1_def copy_round_def conn_read.simps)
  have "step2 \<lparr>pi_kind = ServerPipe, pi_p1 = conn_close (conn_of segs e), pi_p2 = conn_close (conn_of [] EOF), pi_done1 = True,
        pi_done2 = False\<rparr> =
      \<lparr>pi_kind = ServerPipe, pi_p1 = conn_close (conn_close (conn_of segs e)), pi_p2 = conn_close (conn_close (conn_of [] EOF)),
        pi_done1 = True, pi_done2 = True\<rparr>"
    by (simp add: step2_def copy_round_def conn_read.simps)
  with s1 show ?thesis
    by (simp add: Pipe_def relay_run_def run_sched_def Let_def drain1.simps drain2.simps)
qed

subsection \<open>Handling a stream\<close>

text \<open>
  What a stream meets: the libraries, three readings of the clock (start, request done, end), the
  dialer and resolver, the control callback if one is set (its error), and the relay's schedule.
\<close>

record tunnel_env =
  te_gs :: gslib
  te_dns :: dnslib
  te_t0 :: int
  te_t1 :: int
  te_t2 :: int
  te_dial :: "string \<Rightarrow> goerr + conn"
  te_lookup :: "string \<Rightarrow> ip list \<times> goerr option"
  te_controll :: "(string \<Rightarrow> conn \<Rightarrow> conn) option"
  te_sched :: "bool list"

text \<open>
  \<open>DnsNormal\<close> answers a tunnelled query.  When the packed reply is empty but there is no error,
  it calls a method of the nil error.
\<close>

definition DnsNormal :: "tunnel_env \<Rightarrow> string \<Rightarrow> conn \<Rightarrow> tunnel \<Rightarrow> (conn \<times> tunnel) go" where
  "DnsNormal E host con pt =
     go_bind (ReplyDNS (te_gs E) (te_dns E) (te_lookup E) host) (\<lambda>(msg, err).
       if err \<noteq> None then Ret (tun_DelCon (te_t2 E) con pt)
       else if msg = [] then Panic
       else Ret (tun_DelCon (te_t2 E) (snd (conn_write (bytes_of msg) con)) pt))"

definition TcpNormal :: "tunnel_env \<Rightarrow> string \<Rightarrow> conn \<Rightarrow> tunnel \<Rightarrow> conn \<times> tunnel" where
  "TcpNormal E host con pt =
     (case conn_write Socks5Confirm con of
        (Some werr, con1) \<Rightarrow> tun_DelCon (te_t2 E) (conn_close con1) pt
      | (None, con1) \<Rightarrow>
          (case fst (dialCached (te_dial E) (te_lookup E) host) of
             Inl err \<Rightarrow> tun_DelCon (te_t2 E) (conn_close con1) pt
           | Inr remoteConn \<Rightarrow> tun_DelCon (te_t2 E) (snd (Pipe (te_sched E) remoteConn con1)) pt))"

text \<open>
  The choice by the host's prefix; a name between brackets is cut out first.  \<open>te_controll\<close> is what
  \<open>ControllFunc\<close>, if there is one, does with the connection (its error is only logged).
\<close>

definition dispatch :: "tunnel_env \<Rightarrow> string \<Rightarrow> conn \<Rightarrow> tunnel \<Rightarrow> (conn \<times> tunnel) go" where
  "dispatch E host con pt =
     (let G = te_gs E in
      if gs_StartsWith G host ''R://'' then Ret (case te_controll E of None \<Rightarrow> con | Some f \<Rightarrow> f host con, pt)
      else if gs_StartsWith G host ''dns://'' \<or> gs_StartsWith G host ''[dns://'' then
        (case gs_Split G host ''['' of
           _ # p # _ \<Rightarrow>
             (case gs_Split G p '']'' of
                host' # _ \<Rightarrow> DnsNormal E host' con pt
              | [] \<Rightarrow> Panic)
         | _ \<Rightarrow> Panic)
      else Ret (TcpNormal E host con pt))"

definition HandleConnAsync :: "tunnel_env \<Rightarrow> conn \<Rightarrow> budget \<times> tunnel \<Rightarrow> (conn \<times> budget \<times> tunnel) go" where
  "HandleConnAsync E con bpt =
     (case bpt of (b, pt0) \<Rightarrow>
       let pt = touchLastActive (te_t0 E) pt0 in
       case TryAcquireStream b of
         (False, b1) \<Rightarrow> (case tun_DelCon (te_t0 E) (conn_close con) pt of (c, pt1) \<Rightarrow> Ret (c, b1, pt1))
       | (True, b1) \<Rightarrow>
           (case RecordConnection (pt_metrics pt) of
              (False, m) \<Rightarrow>
                (case tun_DelCon (te_t0 E) (conn_close con) (pt\<lparr>pt_metrics := m\<rparr>) of
                   (c, pt1) \<Rightarrow> Ret (c, ReleaseStream b1, pt1))
            | (True, m) \<Rightarrow>
                (case GetServerRequest con of (rq, con1) \<Rightarrow>
                  if rq_err rq \<noteq> None then
                    (case tun_DelCon (te_t1 E) (conn_close con1) (pt\<lparr>pt_metrics := RecordFailure m\<rparr>) of
                       (c, pt1) \<Rightarrow>
                         Ret (c, ReleaseStream b1, pt1\<lparr>pt_metrics := ReleaseConnection (pt_metrics pt1)\<rparr>))
                  else
                    go_bind (dispatch E (rq_host rq) con1
                        (pt\<lparr>pt_metrics := m, pt_alive := pt_alive pt + 1\<rparr>)) (\<lambda>(c, pt1).
                      Ret (c, ReleaseStream b1, pt1\<lparr>pt_alive := pt_alive pt1 - 1, pt_metrics :=
                        ReleaseConnection (RecordLatency (te_t2 E - te_t0 E) (pt_metrics pt1))\<rparr>)))))"

lemma tun_DelCon_simps [simp]:
  "pt_alive (snd (tun_DelCon t c pt)) = pt_alive pt" "pt_metrics (snd (tun_DelCon t c pt)) = pt_metrics pt"
  "is_closed (fst (tun_DelCon t c pt))"
  by (simp_all add: tun_DelCon_def touchLastActive_def)

lemma TcpNormal_frame:
  "pt_alive (snd (TcpNormal E host con pt)) = pt_alive pt"
  "pt_metrics (snd (TcpNormal E host con pt)) = pt_metrics pt"
  "is_closed (fst (TcpNormal E host con pt))"
  by (simp_all add: TcpNormal_def split: prod.splits option.splits sum.splits)

lemma tun_DelCon_eqD:
  "tun_DelCon t c0 pt = (c, pt') \<Longrightarrow> pt_alive pt' = pt_alive pt \<and> pt_metrics pt' = pt_metrics pt \<and> is_closed c"
  using tun_DelCon_simps [of t c0 pt] by simp

lemma TcpNormal_eqD:
  "TcpNormal E host con pt = (c, pt') \<Longrightarrow> pt_alive pt' = pt_alive pt \<and> pt_metrics pt' = pt_metrics pt"
  using TcpNormal_frame [of E host con pt] by simp

lemma DnsNormal_frame:
  "DnsNormal E host con pt = Ret (c, pt') \<Longrightarrow>
    pt_alive pt' = pt_alive pt \<and> pt_metrics pt' = pt_metrics pt \<and> is_closed c"
  by (auto simp: DnsNormal_def go_bind_Ret_conv split: if_splits dest!: tun_DelCon_eqD)

lemma dispatch_frame:
  assumes "dispatch E host con pt = Ret (c, pt')"
  shows "pt_alive pt' = pt_alive pt \<and> pt_metrics pt' = pt_metrics pt"
  using assms
  by (auto simp: dispatch_def Let_def split: if_splits list.splits dest!: DnsNormal_frame TcpNormal_eqD)

subsection \<open>Everything is given back\<close>

lemma record_release:
  assumes "RecordConnection m = (True, m1)"
  shows "GetActiveCount (ReleaseConnection (RecordFailure m1)) = GetActiveCount m"
    "GetActiveCount (ReleaseConnection (RecordLatency k m1)) = GetActiveCount m"
    "GetMaxConnections (ReleaseConnection (RecordFailure m1)) = GetMaxConnections m"
    "GetMaxConnections (ReleaseConnection (RecordLatency k m1)) = GetMaxConnections m"
    "health_ok m \<Longrightarrow> health_ok (ReleaseConnection (RecordFailure m1))"
    "health_ok m \<Longrightarrow> health_ok (ReleaseConnection (RecordLatency k m1))"
  using assms by (cases m; auto split: if_splits)+

lemma record_refused:
  assumes "RecordConnection m = (False, m1)"
  shows "GetActiveCount m1 = GetActiveCount m" "GetMaxConnections m1 = GetMaxConnections m"
    "health_ok m \<Longrightarrow> health_ok m1"
  using assms by (cases m; auto split: if_splits)+

lemma budget_release:
  assumes "TryAcquireStream b = (True, b1)"
  shows "sb_limit (ReleaseStream b1) = sb_limit b"
    "sb_active (ReleaseStream b1) = sb_active b - (if sb_limit b \<le> 0 then 1 else 0)"
  using assms by (auto simp: TryAcquireStream_def ReleaseStream_def Let_def split: if_splits)

lemma budget_refused: "TryAcquireStream b = (False, b1) \<Longrightarrow> b1 = b \<and> 0 < sb_limit b"
  by (cases b) (auto simp: TryAcquireStream_def Let_def split: if_splits)

lemma touch_simps [simp]:
  "pt_alive (touchLastActive t pt) = pt_alive pt" "pt_metrics (touchLastActive t pt) = pt_metrics pt"
  "pt_dels (touchLastActive t pt) = pt_dels pt"
  by (simp_all add: touchLastActive_def)

text \<open>What one stream leaves of the counters, by the three ways through the handler.\<close>

lemma HandleConnAsync_cases:
  assumes "HandleConnAsync E con (b, pt) = Ret (c, b', pt')"
  shows "(TryAcquireStream b = (False, b') \<and> is_closed c \<and> pt_alive pt' = pt_alive pt \<and>
      pt_metrics pt' = pt_metrics pt) \<or>
    (\<exists>b1 m. TryAcquireStream b = (True, b1) \<and> b' = ReleaseStream b1 \<and>
      RecordConnection (pt_metrics pt) = (False, m) \<and> is_closed c \<and> pt_alive pt' = pt_alive pt \<and>
      pt_metrics pt' = m) \<or>
    (\<exists>b1 m k. TryAcquireStream b = (True, b1) \<and> b' = ReleaseStream b1 \<and>
      RecordConnection (pt_metrics pt) = (True, m) \<and> pt_alive pt' = pt_alive pt \<and>
      (pt_metrics pt' = ReleaseConnection (RecordFailure m) \<and> is_closed c \<or>
       pt_metrics pt' = ReleaseConnection (RecordLatency k m)))"
proof -
  obtain ok b1 where b1: "TryAcquireStream b = (ok, b1)" by fastforce
  show ?thesis
  proof (cases ok)
    case False
    then show ?thesis using assms b1
      by (auto simp: HandleConnAsync_def Let_def split: prod.splits dest!: tun_DelCon_eqD)
  next
    case True
    obtain ok2 m where m: "RecordConnection (pt_metrics pt) = (ok2, m)" by fastforce
    show ?thesis
    proof (cases ok2)
      case False
      then show ?thesis using assms b1 True m
        by (auto simp: HandleConnAsync_def Let_def split: prod.splits dest!: tun_DelCon_eqD)
    next
      case ok2: True
      obtain rq con1 where rq: "GetServerRequest con = (rq, con1)" by fastforce
      show ?thesis
      proof (cases "rq_err rq = None")
        case False
        then show ?thesis using assms b1 True m ok2 rq
          by (auto simp: HandleConnAsync_def Let_def split: prod.splits dest!: tun_DelCon_eqD)
      next
        case none: True
        then obtain c1 pt1 where d: "dispatch E (rq_host rq) con1 ((touchLastActive (te_t0 E) pt)
              \<lparr>pt_metrics := m, pt_alive := pt_alive pt + 1\<rparr>) = Ret (c1, pt1)"
          and r: "(c, b', pt') = (c1, ReleaseStream b1, pt1\<lparr>pt_alive := pt_alive pt1 - 1, pt_metrics :=
              ReleaseConnection (RecordLatency (te_t2 E - te_t0 E) (pt_metrics pt1))\<rparr>)"
          using assms b1 True m ok2 rq by (auto simp: HandleConnAsync_def Let_def go_bind_Ret_conv)
        from dispatch_frame [OF d] r show ?thesis using b1 True m ok2 by auto
      qed
    qed
  qed
qed

text \<open>
  C9. However a stream ends (refused by the budget or by the limit, unreadable, served), the
  handler gives back what it took: the tunnel's active connections and live streams are what
  they were, the counters stay consistent, and so does the global budget, unless no limit is
  set: then it loses one for every stream, since only the release is unconditional.
\<close>

theorem HandleConnAsync_balanced:
  assumes "HandleConnAsync E con (b, pt) = Ret (c, b', pt')"
  shows "pt_alive pt' = pt_alive pt \<and>
    GetActiveCount (pt_metrics pt') = GetActiveCount (pt_metrics pt) \<and>
    (health_ok (pt_metrics pt) \<longrightarrow> health_ok (pt_metrics pt')) \<and>
    sb_limit b' = sb_limit b \<and> sb_active b' = sb_active b - (if sb_limit b \<le> 0 then 1 else 0)"
  using HandleConnAsync_cases [OF assms]
proof (elim disjE exE conjE)
  assume "TryAcquireStream b = (False, b')" "pt_alive pt' = pt_alive pt" "pt_metrics pt' = pt_metrics pt"
  then show ?thesis using budget_refused [of b b'] by simp
next
  fix b1 m
  assume "TryAcquireStream b = (True, b1)" "b' = ReleaseStream b1" "RecordConnection (pt_metrics pt) = (False, m)"
    "pt_alive pt' = pt_alive pt" "pt_metrics pt' = m"
  then show ?thesis using budget_release [of b b1] record_refused [of "pt_metrics pt" m] by simp
next
  fix b1 m
  assume "TryAcquireStream b = (True, b1)" "b' = ReleaseStream b1" "RecordConnection (pt_metrics pt) = (True, m)"
    "pt_alive pt' = pt_alive pt" "pt_metrics pt' = ReleaseConnection (RecordFailure m)"
  then show ?thesis using budget_release [of b b1] record_release [of "pt_metrics pt" m] by simp
next
  fix b1 m k
  assume "TryAcquireStream b = (True, b1)" "b' = ReleaseStream b1" "RecordConnection (pt_metrics pt) = (True, m)"
    "pt_alive pt' = pt_alive pt" "pt_metrics pt' = ReleaseConnection (RecordLatency k m)"
  then show ?thesis using budget_release [of b b1] record_release [of "pt_metrics pt" m] by simp
qed

definition toy_tunnel_env :: tunnel_env where
  "toy_tunnel_env = \<lparr>te_gs = gs_std, te_dns = toy_dns, te_t0 = 1, te_t1 = 2, te_t2 = 3,
     te_dial = (\<lambda>_. Inl ErrTimeout), te_lookup = (\<lambda>_. ([], Some EOF)), te_controll = None, te_sched = []\<rparr>"

theorem HandleConnAsync_balanced_witness:
  "\<exists>c b' pt'. HandleConnAsync toy_tunnel_env (conn_of [] EOF)
     (\<lparr>sb_limit = 0, sb_active = 0\<rparr>, NewProxyTunnel zero_config 0) = Ret (c, b', pt') \<and> sb_active b' = -1"
proof -
  obtain c b' pt' where h: "HandleConnAsync toy_tunnel_env (conn_of [] EOF)
     (\<lparr>sb_limit = 0, sb_active = 0\<rparr>, NewProxyTunnel zero_config 0) = Ret (c, b', pt')"
    by (simp add: HandleConnAsync_def TryAcquireStream_def Let_def NewProxyTunnel_def
        NewHealthMetrics_def GetServerRequest_def read_full_short req_fail_def tun_DelCon_def touchLastActive_def)
  from HandleConnAsync_balanced [OF h] h show ?thesis by auto
qed



subsection \<open>Tunnelled DNS queries\<close>

lemma split_brackets:
  assumes "gs_split_ok G" "CHR ''['' \<notin> set q" "CHR '']'' \<notin> set q"
  shows "gs_Split G (CHR ''['' # q @ CHR '']'' # t) ''['' = [] # (case split_on CHR ''['' (q @ CHR '']'' # t) of p # ps \<Rightarrow> p # ps)"
    "CHR ''['' \<notin> set t \<Longrightarrow> gs_Split G (CHR ''['' # q @ CHR '']'' # t) ''['' = [[], q @ CHR '']'' # t]"
    "gs_Split G (q @ CHR '']'' # t) '']'' = q # split_on CHR '']'' t"
  using assms(2,3)
  by (simp_all add: gs_splitD [OF assms(1)] split_str_single split_on_absent split_on_append
      split: list.splits)

lemma PackDNS_no_bracket: "CHR ''['' \<notin> set (PackDNS D m)" "CHR '']'' \<notin> set (PackDNS D m)"
proof -
  have "b64_char n \<noteq> CHR ''['' \<and> b64_char n \<noteq> CHR '']''" if "n < 64" for n
  proof -
    have "b64_code n \<notin> {91, 93}" using that by (auto simp: b64_code_def)
    then have "of_char (b64_char n) \<noteq> (91::nat)" "of_char (b64_char n) \<noteq> (93::nat)"
      unfolding of_b64_char [OF that] by auto
    then show ?thesis by auto
  qed
  then have "c \<noteq> CHR ''['' \<and> c \<noteq> CHR '']''" if "c \<in> set (b64_encode s)" for c s
    using b64_encode_chars [OF that] by auto
  then show "CHR ''['' \<notin> set (PackDNS D m)" "CHR '']'' \<notin> set (PackDNS D m)"
    by (auto simp: PackDNS_def split: sum.splits)
qed

lemma dispatch_dns:
  assumes G: "gs_affix_ok (te_gs E)" "gs_split_ok (te_gs E)" and q: "q = PackDNS D m" "q \<noteq> []"
  shows "dispatch E (join_host_port q (itoa p)) con pt = DnsNormal E q con pt"
proof -
  obtain t where t: "q = ''dns://'' @ t" using q by (auto simp: PackDNS_def split: sum.splits)
  have nb: "CHR ''['' \<notin> set q" "CHR '']'' \<notin> set q" unfolding q(1) by (rule PackDNS_no_bracket)+
  have h: "join_host_port q (itoa p) = CHR ''['' # q @ CHR '']'' # (CHR '':'' # itoa p)"
    by (simp add: join_host_port_def t)
  have "\<not> gs_StartsWith (te_gs E) (join_host_port q (itoa p)) ''R://''"
    "gs_StartsWith (te_gs E) (join_host_port q (itoa p)) ''[dns://''"
    unfolding h gs_affixD [OF G(1)] by (simp_all add: has_prefix_def t)
  then show ?thesis
    using split_brackets(2,3) [OF G(2) nb, of "CHR '':'' # itoa p"]
    by (simp add: dispatch_def h)
qed

lemma HandleConnAsync_served:
  assumes "TryAcquireStream b = (True, b1)" "RecordConnection (pt_metrics pt) = (True, m)"
    and "GetServerRequest con = (rq, con1)" "rq_err rq = None"
  shows "HandleConnAsync E con (b, pt) = go_bind (dispatch E (rq_host rq) con1
      ((touchLastActive (te_t0 E) pt)\<lparr>pt_metrics := m, pt_alive := pt_alive pt + 1\<rparr>)) (\<lambda>(c, pt1).
        Ret (c, ReleaseStream b1, pt1\<lparr>pt_alive := pt_alive pt1 - 1, pt_metrics :=
          ReleaseConnection (RecordLatency (te_t2 E - te_t0 E) (pt_metrics pt1))\<rparr>))"
  using assms by (simp add: HandleConnAsync_def Let_def)

lemma GetServerRequest_outq:
  assumes "GetServerRequest con = (rq, con1)"
  shows "outq con1 = outq con \<and> wleft con1 = wleft con \<and> is_closed con1 = is_closed con"
proof -
  have rf: "outq c' = outq c \<and> wleft c' = wleft c \<and> is_closed c' = is_closed c"
    if "read_full k c = (r, c')" for k c r c'
    using that read_full_frame(4,5,6) [of k c "fst r" "snd r" c'] by simp
  have rd: "outq c' = outq c \<and> wleft c' = wleft c \<and> is_closed c' = is_closed c"
    if "conn_read k c = (r, c')" for k c r c'
    using that by (auto simp: conn_read.simps split: list.splits if_splits)
  have sp: "outq c' = outq c \<and> wleft c' = wleft c \<and> is_closed c' = is_closed c"
    if "server_span bf c = (r, b', c')" for bf c r b' c'
    using that by (auto simp: server_span_def Let_def split: if_splits prod.splits option.splits dest!: rf)
  have bd: "outq c' = outq c \<and> wleft c' = wleft c \<and> is_closed c' = is_closed c"
    if "server_body bf udp c = (r, c')" for bf udp c r c'
    using that by (auto simp: server_body_def Let_def split: if_splits prod.splits option.splits sum.splits
        dest!: rf sp)
  show ?thesis using assms
    by (auto simp: GetServerRequest_def Let_def split: if_splits prod.splits option.splits dest!: rf rd bd)
qed

text \<open>
  A DNS query of at most 255 packed bytes travels through a tunnel as a SOCKS5 host name and
  comes out whole: the stream the client writes is answered with the server's reply to exactly
  that query, then closed.
\<close>

theorem dns_query_tunnelled:
  assumes G: "gs_affix_ok (te_gs E)" "gs_split_ok (te_gs E)"
    and q: "PackDNS D msg = q" "q \<noteq> []" "length q \<le> 255" "HostToRaw (te_gs E) q 99 = Ret raw"
    and con: "concat (inq con) = raw" "\<not> is_closed con" "wleft con = None"
    and room: "TryAcquireStream b = (True, b1)" "RecordConnection (pt_metrics pt) = (True, m)"
    and reply: "ReplyDNS (te_gs E) (te_dns E) (te_lookup E) q = Ret (ans, None)" "ans \<noteq> []"
  shows "\<exists>c b' pt'. HandleConnAsync E con (b, pt) = Ret (c, b', pt') \<and>
    outq c = outq con @ [bytes_of ans] \<and> is_closed c"
proof -
  obtain con1 where rq: "GetServerRequest con =
      (\<lparr>rq_host = join_host_port q (itoa (99 mod 65536)), rq_raw = raw, rq_udp = False, rq_err = None\<rparr>, con1)"
    using server_reads_request [OF q(4) _ q(3), of con "[]"] con(1) by auto
  note served = HandleConnAsync_served [OF room rq, of E, unfolded request.simps, OF refl]
  have out: "outq con1 = outq con" "wleft con1 = None" "\<not> is_closed con1"
    using GetServerRequest_outq [OF rq] con by auto
  have "dispatch E (join_host_port q (itoa (99 mod 65536))) con1 p = DnsNormal E q con1 p" for p
    using q by (intro dispatch_dns [OF G]) auto
  then show ?thesis
    unfolding served using reply out
    by (simp add: DnsNormal_def tun_DelCon_def conn_write_def)
qed

definition packed_env :: tunnel_env where
  "packed_env = toy_tunnel_env\<lparr>te_lookup := (\<lambda>_. ([], None))\<rparr>"

theorem dns_query_tunnelled_witness:
  "\<exists>c b' pt'. HandleConnAsync packed_env (conn_of [raw_request (PackDNS toy_dns toy_query) 99] EOF)
     (\<lparr>sb_limit = 9, sb_active = 0\<rparr>, NewProxyTunnel zero_config 0) = Ret (c, b', pt') \<and>
     outq c = [bytes_of (PackDNS toy_dns toy_query)]"
proof -
  have q: "\<exists>t. PackDNS toy_dns toy_query = ''dns://'' @ t \<and> length t \<le> 200"
    by (simp add: PackDNS_def toy_pack b64_encode.simps)
  have "dm_Question toy_query = [\<lparr>qn_Name = ''a.'', qn_type = 1, qn_class = 1\<rparr>]"
    by (simp add: toy_query_def empty_msg_def)
  then have r: "ReplyDNS (te_gs packed_env) (te_dns packed_env) (te_lookup packed_env) (PackDNS toy_dns toy_query)
      = Ret (PackDNS toy_dns toy_query, None)"
    using Unpack_Pack [of gs_std toy_dns toy_query]
    by (simp add: ReplyDNS_def packed_env_def toy_tunnel_env_def answer_ips_def)
  have h: "HostToRaw (te_gs packed_env) (PackDNS toy_dns toy_query) 99 = Ret (raw_request (PackDNS toy_dns toy_query) 99)"
    by (rule HostToRaw_port) simp
  have a: "TryAcquireStream \<lparr>sb_limit = 9, sb_active = 0\<rparr> = (True, \<lparr>sb_limit = 9, sb_active = 1\<rparr>)"
    by (simp add: TryAcquireStream_def Let_def)
  obtain m where m: "RecordConnection (pt_metrics (NewProxyTunnel zero_config 0)) = (True, m)"
    by (simp add: NewProxyTunnel_def NewHealthMetrics_def)
  from dns_query_tunnelled [OF _ _ refl _ _ h _ _ _ a m r, of "conn_of [raw_request (PackDNS toy_dns toy_query) 99] EOF"]
  moreover have "length (PackDNS toy_dns toy_query) \<le> 255" "PackDNS toy_dns toy_query \<noteq> []" using q by auto
  ultimately show ?thesis by (auto simp: packed_env_def toy_tunnel_env_def)
qed

lemma redirect_request:
  assumes "length name \<le> 255" "concat (inq c) = [5, 1, 0, 9, to_byte (int (length name))] @ bytes_of name @ rest"
  shows "\<exists>rq c'. GetServerRequest c = (rq, c') \<and> rq_err rq = None \<and> rq_host rq = name"
proof -
  define d where "d = concat (inq c)"
  have nth: "d ! 0 = 5" "d ! Suc 0 = 1" "d ! 3 = 9" "unat (d ! 4) = length name"
    using assms by (simp_all add: d_def unat_to_byte)
  have long: "length name + 5 \<le> length d" using assms(2) by (simp add: d_def)
  have "slice d 5 (5 + length name) = bytes_of name" using assms(2) by (simp add: d_def slice_def)
  then have "server_host d = name" using nth by (simp add: server_host_def)
  moreover have "flat_len d = Some (5 + length name)" using nth long by (simp add: flat_len_def)
  ultimately have "flat_request d = Some (\<lparr>rq_host = name, rq_raw = take (5 + length name) d,
      rq_udp = False, rq_err = None\<rparr>, drop (5 + length name) d)"
    using nth long by (simp add: flat_request_def flat_host_def)
  with GetServerRequest_flat [of c] show ?thesis
    by (cases "GetServerRequest c") (simp add: d_def [symmetric])
qed

text \<open>
  One request stops the server: a request of the redirect type whose name starts with
  \<open>dns://\<close> is not put in brackets, so cutting out the name indexes past the end of the split and
  the goroutine panics.
\<close>

theorem redirect_dns_panics:
  assumes G: "gs_affix_ok (te_gs E)" "gs_split_ok (te_gs E)"
    and name: "has_prefix name ''dns://''" "CHR ''['' \<notin> set name" "length name \<le> 255"
    and con: "concat (inq con) = [5, 1, 0, 9, to_byte (int (length name))] @ bytes_of name @ rest"
    and room: "TryAcquireStream b = (True, b1)" "RecordConnection (pt_metrics pt) = (True, m)"
  shows "HandleConnAsync E con (b, pt) = Panic"
proof -
  obtain rq con1 where rq: "GetServerRequest con = (rq, con1)" "rq_err rq = None" "rq_host rq = name"
    using redirect_request [OF name(3) con] by auto
  have "gs_Split (te_gs E) name ''['' = [name]"
    using name(2) by (simp add: gs_splitD [OF G(2)] split_str_single split_on_absent)
  moreover have "\<not> has_prefix name ''R://''" using name(1) by (cases name) (auto simp: has_prefix_def)
  ultimately have "dispatch E name con1 p = Panic" for p
    using name(1) by (simp add: dispatch_def Let_def gs_affixD [OF G(1)])
  then show ?thesis unfolding HandleConnAsync_served [OF room rq(1,2)] by (simp add: rq(3))
qed

theorem redirect_dns_panics_witness:
  "HandleConnAsync toy_tunnel_env (conn_of [[5, 1, 0, 9, 6], bytes_of ''dns://''] EOF)
     (\<lparr>sb_limit = 9, sb_active = 0\<rparr>, NewProxyTunnel zero_config 0) = Panic"
proof -
  have a: "TryAcquireStream \<lparr>sb_limit = 9, sb_active = 0\<rparr> = (True, \<lparr>sb_limit = 9, sb_active = 1\<rparr>)"
    by (simp add: TryAcquireStream_def Let_def)
  obtain m where m: "RecordConnection (pt_metrics (NewProxyTunnel zero_config 0)) = (True, m)"
    by (simp add: NewProxyTunnel_def NewHealthMetrics_def)
  show ?thesis
    by (rule redirect_dns_panics [OF _ _ _ _ _ _ a m, of _ "''dns://''" _ "[]"])
      (simp_all add: toy_tunnel_env_def has_prefix_def to_byte_def)
qed

end
