(* ===== verification/Tunnel_Pool.thy ===== *)
theory Tunnel_Pool
  imports Proxy_Tunnel Port_Pool
begin

text \<open>
  \<open>src/servercontroll/proxy_release.go\<close> with \<open>Start\<close> and the end of \<open>Server\<close> of
  \<open>src/connections/base/proxytunnel.go\<close>: the tunnels a server keeps, how one is selected, made,
  started and deleted.  A \<open>*ProxyTunnel\<close> is an address into the list of all tunnels ever made
  (None is nil), so that the pool, the handler that starts a tunnel and the goroutine that serves
  it share one state.  \<open>pl_closed\<close> records the calls of the protocol's \<open>TryClose\<close>, \<open>pl_serving\<close>
  the goroutines that run \<open>Server\<close>.
\<close>

subsection \<open>State\<close>

record pool =
  pl_mem :: "tunnel list"
  pl_Tunnels :: "nat option list"
  pl_ErrTypeCount :: "(string \<times> int) list"
  pl_MaxTunnels :: int
  pl_ports :: ports
  pl_closed :: "nat list"
  pl_serving :: "nat list"

definition empty_pool :: "ports \<Rightarrow> pool" where
  "empty_pool ps = \<lparr>pl_mem = [], pl_Tunnels = [],
     pl_ErrTypeCount = [(''tls'', 0), (''kcp'', 0), (''quic'', 0), (''ss'', 0)], pl_MaxTunnels = 16,
     pl_ports = ps, pl_closed = [], pl_serving = []\<rparr>"

text \<open>
  What one request draws from its surroundings: the operating system, which ports can be
  listened on and which random strings are drawn by each of its (at most two) calls of
  \<open>RandomConfig\<close>, the clock, the ciphers, the password shared by the TLS and QUIC servers, and the
  order in which Go visits the entries of a map.
\<close>

record maker =
  mk_goos :: string
  mk_listens :: "nat \<Rightarrow> int \<Rightarrow> bool"
  mk_rand :: "nat \<Rightarrow> nat \<Rightarrow> nat \<Rightarrow> string"
  mk_now :: int
  mk_crypto :: crypto
  mk_key :: string
  mk_order :: "(string \<times> int \<times> int \<times> nat) list \<Rightarrow> (string \<times> int \<times> int \<times> nat) list"
  mk_gl :: "nat option gslist"

subsection \<open>Making tunnels\<close>

definition random_config :: "maker \<Rightarrow> nat \<Rightarrow> ports \<Rightarrow> config \<times> ports" where
  "random_config M k ps = RandomConfig (mk_rand M k) (mk_goos M) (mk_listens M k) ps"

definition new_tls :: "maker \<Rightarrow> nat \<Rightarrow> ports \<Rightarrow> tunnel \<times> ports" where
  "new_tls M k ps = (case random_config M k ps of (c, ps') \<Rightarrow>
     (NewProxyTunnel (ts_config (NewTlsServer (mk_key M) c)) (mk_now M), ps'))"

definition NewProxy :: "maker \<Rightarrow> string \<Rightarrow> ports \<Rightarrow> tunnel \<times> ports" where
  "NewProxy M tp ps =
     (if tp = ''kcp'' then
        case random_config M 0 ps of (c, ps') \<Rightarrow>
          (NewProxyTunnel (ks_config (NewKcpServer c)) (mk_now M), ps')
      else if tp = ''quic'' then
        case random_config M 0 ps of (c, ps') \<Rightarrow>
          (NewProxyTunnel (qs_config (NewQuicServer (mk_key M) c)) (mk_now M), ps')
      else if tp = ''ss'' then
        case random_config M 0 ps of (c, ps') \<Rightarrow>
          (case NewSSServer (mk_crypto M) (c\<lparr>cf_SSMethod := ''aes-256-gcm''\<rparr>) of
             Inl _ \<Rightarrow> new_tls M 1 ps'
           | Inr (_, c') \<Rightarrow> (NewProxyTunnel c' (mk_now M), ps'))
      else new_tls M 0 ps)"

definition AddProxy :: "nat option \<Rightarrow> pool \<Rightarrow> pool" where
  "AddProxy t pl = pl\<lparr>pl_Tunnels := pl_Tunnels pl @ [t]\<rparr>"

text \<open>\<open>NewProxy\<close> followed by \<open>AddProxy\<close>: the tunnel gets the next address.\<close>

definition add_new :: "maker \<Rightarrow> string \<Rightarrow> pool \<Rightarrow> nat \<times> pool" where
  "add_new M tp pl = (case NewProxy M tp (pl_ports pl) of (t, ps) \<Rightarrow>
     (length (pl_mem pl),
      AddProxy (Some (length (pl_mem pl))) (pl\<lparr>pl_mem := pl_mem pl @ [t], pl_ports := ps\<rparr>)))"

subsection \<open>Selecting a tunnel\<close>

fun best_scan :: "tunnel list \<Rightarrow> nat option list \<Rightarrow> nat option \<times> rat \<times> string \<Rightarrow> (nat option \<times> rat \<times> string) go"
  where
  "best_scan mem [] s = Ret s"
| "best_scan mem (None # ts) s = best_scan mem ts s"
| "best_scan mem (Some a # ts) (bestTunnel, bestScore, bestType) =
     (let t = mem ! a in
      if \<not> pt_On t then best_scan mem ts (bestTunnel, bestScore, bestType)
      else if \<not> tun_Accepts t then best_scan mem ts (bestTunnel, bestScore, bestType)
      else case GetConfig t of
        None \<Rightarrow> Panic
      | Some c \<Rightarrow>
          (let adjusted = GetScore t + (if cf_ProxyType c \<noteq> bestType then 1 / 10 else 0) in
           if bestScore < adjusted then best_scan mem ts (Some a, adjusted, cf_ProxyType c)
           else best_scan mem ts (bestTunnel, bestScore, bestType)))"

fun type_scan :: "tunnel list \<Rightarrow> string \<Rightarrow> nat option list \<Rightarrow> nat option \<times> rat \<Rightarrow> (nat option \<times> rat) go" where
  "type_scan mem tp [] s = Ret s"
| "type_scan mem tp (None # ts) s = type_scan mem tp ts s"
| "type_scan mem tp (Some a # ts) (bestTunnel, bestScore) =
     (let t = mem ! a in
      if \<not> pt_On t then type_scan mem tp ts (bestTunnel, bestScore)
      else case GetConfig t of
        None \<Rightarrow> Panic
      | Some c \<Rightarrow>
          if cf_ProxyType c = tp \<and> tun_Accepts t \<and> bestScore < GetScore t
          then type_scan mem tp ts (Some a, GetScore t)
          else type_scan mem tp ts (bestTunnel, bestScore))"

text \<open>
  What both selections do when nothing was found: at the cap the first tunnel is reused,
  otherwise one of the given type is made.
\<close>

definition or_create :: "maker \<Rightarrow> string \<Rightarrow> nat option \<Rightarrow> pool \<Rightarrow> nat \<times> pool" where
  "or_create M tp found pl =
     (case found of
        Some a \<Rightarrow> (a, pl)
      | None \<Rightarrow>
          if pl_MaxTunnels pl \<le> int (gl_Count (mk_gl M) (pl_Tunnels pl))
          then (case (if 0 < gl_Count (mk_gl M) (pl_Tunnels pl) then pl_Tunnels pl ! 0 else None) of
                  Some a \<Rightarrow> (a, pl) | None \<Rightarrow> add_new M tp pl)
          else add_new M tp pl)"

definition selectBestTunnel :: "maker \<Rightarrow> pool \<Rightarrow> (nat \<times> pool) go" where
  "selectBestTunnel M pl =
     go_bind (best_scan (pl_mem pl) (pl_Tunnels pl) (None, -1, [])) (\<lambda>(found, _, _).
       Ret (or_create M ''quic'' found pl))"

definition selectByType :: "maker \<Rightarrow> string \<Rightarrow> pool \<Rightarrow> (nat \<times> pool) go" where
  "selectByType M tp pl =
     go_bind (type_scan (pl_mem pl) tp (pl_Tunnels pl) (None, -1)) (\<lambda>(found, _).
       Ret (or_create M tp found pl))"

definition GetProxy :: "maker \<Rightarrow> string list \<Rightarrow> pool \<Rightarrow> (nat \<times> pool) go" where
  "GetProxy M proxyType pl =
     (case proxyType of
        [] \<Rightarrow> if gl_Count (mk_gl M) (pl_Tunnels pl) = 0 then Ret (add_new M ''quic'' pl)
              else selectBestTunnel M pl
      | tp # _ \<Rightarrow> selectByType M tp pl)"

subsection \<open>Deleting a tunnel\<close>

text \<open>The scan under the lock: the tunnels kept, the hits and the counts by type.\<close>

fun del_scan ::
  "nat option gslist \<Rightarrow> tunnel list \<Rightarrow> string \<Rightarrow> nat option list \<Rightarrow>
    bool \<times> nat option list \<times> nat option list \<times> (string \<times> int) list \<Rightarrow>
    (bool \<times> nat option list \<times> nat option list \<times> (string \<times> int) list) go" where
  "del_scan L mem name [] s = Ret s"
| "del_scan L mem name (None # ts) s = del_scan L mem name ts s"
| "del_scan L mem name (Some a # ts) (found, e, hits, counts) =
     (case GetConfig (mem ! a) of
        None \<Rightarrow> Panic
      | Some c \<Rightarrow>
          if cf_ID c = name
          then del_scan L mem name ts (True, e, gl_Add L hits (Some a),
                 case map_of counts (cf_ProxyType c) of
                   None \<Rightarrow> counts | Some num \<Rightarrow> AList.update (cf_ProxyType c) (num + 1) counts)
          else del_scan L mem name ts (found, gl_Add L e (Some a), hits, counts))"

fun retire_all :: "string \<Rightarrow> nat option list \<Rightarrow> pool \<Rightarrow> pool go" where
  "retire_all goos [] pl = Ret pl"
| "retire_all goos (None # ts) pl = Panic"
| "retire_all goos (Some a # ts) pl =
     (case GetConfig (pl_mem pl ! a) of
        None \<Rightarrow> Panic
      | Some c \<Rightarrow> retire_all goos ts (pl\<lparr>pl_closed := pl_closed pl @ [a],
          pl_ports := ReleasePort (cf_ServerPort c) (ClosePortUFW goos (cf_ServerPort c) (pl_ports pl))\<rparr>))"

definition DelProxy :: "maker \<Rightarrow> string \<Rightarrow> pool \<Rightarrow> (bool \<times> pool) go" where
  "DelProxy M name pl =
     go_bind (del_scan (mk_gl M) (pl_mem pl) name (pl_Tunnels pl) (False, [], [], pl_ErrTypeCount pl))
       (\<lambda>(found, e, hits, counts).
          go_bind (retire_all (mk_goos M) hits (pl\<lparr>pl_Tunnels := e, pl_ErrTypeCount := counts\<rparr>))
            (\<lambda>pl'. Ret (found, pl')))"

text \<open>The first tunnel of an id; a nil entry is dereferenced here.\<close>

fun GetProxyByID :: "tunnel list \<Rightarrow> string \<Rightarrow> nat option list \<Rightarrow> nat option go" where
  "GetProxyByID mem name [] = Ret None"
| "GetProxyByID mem name (None # ts) = Panic"
| "GetProxyByID mem name (Some a # ts) =
     (case GetConfig (mem ! a) of
        None \<Rightarrow> Panic
      | Some c \<Rightarrow> if cf_ID c = name then Ret (Some a) else GetProxyByID mem name ts)"

subsection \<open>Making a tunnel after an error\<close>

fun stats_scan ::
  "tunnel list \<Rightarrow> nat option list \<Rightarrow> (string \<times> int \<times> int \<times> nat) list \<Rightarrow> (string \<times> int \<times> int \<times> nat) list go" where
  "stats_scan mem [] m = Ret m"
| "stats_scan mem (None # ts) m = stats_scan mem ts m"
| "stats_scan mem (Some a # ts) m =
     (case GetConfig (mem ! a) of
        None \<Rightarrow> Panic
      | Some c \<Rightarrow>
          (case pt_metrics (mem ! a) of
             None \<Rightarrow> stats_scan mem ts m
           | Some h \<Rightarrow>
               (case GetStats (Some h) of (tot, _, failed, _, _) \<Rightarrow>
                case map_of m (cf_ProxyType c) of
                  None \<Rightarrow> stats_scan mem ts (AList.update (cf_ProxyType c) (tot, failed, 1) m)
                | Some (t, f, n) \<Rightarrow>
                    stats_scan mem ts (AList.update (cf_ProxyType c) (t + tot, f + failed, n + 1) m))))"

text \<open>
  The choice, in the order of the map's iteration; 0 / 0 and x / 0 compare false with every
  bound (NaN and infinity).
\<close>

fun pick_type :: "(string \<times> int \<times> int \<times> nat) list \<Rightarrow> string \<Rightarrow> rat \<Rightarrow> string" where
  "pick_type [] bestType lowest = bestType"
| "pick_type ((ptype, tot, failed, n) # m) bestType lowest =
     (if n = 0 then ptype
      else if tot \<noteq> 0 \<and> of_int failed / of_int tot < lowest
      then pick_type m ptype (of_int failed / of_int tot)
      else pick_type m bestType lowest)"

definition NewProxyByErrCount :: "maker \<Rightarrow> pool \<Rightarrow> (nat \<times> pool) go" where
  "NewProxyByErrCount M pl =
     go_bind (stats_scan (pl_mem pl) (pl_Tunnels pl)
         [(''tls'', 0, 0, 0), (''kcp'', 0, 0, 0), (''quic'', 0, 0, 0), (''ss'', 0, 0, 0)])
       (\<lambda>m. Ret (add_new M (pick_type (mk_order M m) ''quic'' 1) pl))"

subsection \<open>Serving\<close>

text \<open>
  \<open>Start\<close> marks the tunnel and leaves its goroutine running \<open>Server\<close>; when the protocol's accept
  loop ends, the deferred calls of \<open>Server\<close> run, the last of them the callback \<open>after\<close>, which both
  callers of \<open>Start\<close> set to \<open>DelProxy\<close> of the tunnel's id.
\<close>

definition Start :: "nat \<Rightarrow> pool \<Rightarrow> pool" where
  "Start a pl = pl\<lparr>pl_mem := (pl_mem pl)[a := (pl_mem pl ! a)\<lparr>pt_On := True\<rparr>],
     pl_serving := pl_serving pl @ [a]\<rparr>"

definition Server_end :: "maker \<Rightarrow> nat \<Rightarrow> pool \<Rightarrow> pool go" where
  "Server_end M a pl =
     (case GetConfig (pl_mem pl ! a) of
        None \<Rightarrow> Panic
      | Some c \<Rightarrow>
          go_bind (DelProxy M (cf_ID c)
              (pl\<lparr>pl_mem := (pl_mem pl)[a := (pl_mem pl ! a)\<lparr>pt_On := False\<rparr>],
                  pl_serving := remove1 a (pl_serving pl),
                  pl_ports := ReleasePort (cf_ServerPort c)
                    (ClosePortUFW (mk_goos M) (cf_ServerPort c) (pl_ports pl))\<rparr>))
            (\<lambda>(_, pl'). Ret pl'))"

subsection \<open>The pool at work\<close>

text \<open>
  What changes the pool: the two requests that ask for a tunnel, a deletion, the end of a serving
  goroutine, and traffic, which leaves a tunnel with any consistent counters.
\<close>

datatype pool_op = Get "string list" | ErrReport | Del string | ServerEnds nat | Traffic nat health

definition proxy_get :: "maker \<Rightarrow> string list \<Rightarrow> pool \<Rightarrow> (nat \<times> pool) go" where
  "proxy_get M tps pl = go_bind (GetProxy M tps pl) (\<lambda>(a, pl').
     Ret (a, if pt_On (pl_mem pl' ! a) then pl' else Start a pl'))"

definition proxy_err :: "maker \<Rightarrow> pool \<Rightarrow> (nat \<times> pool) go" where
  "proxy_err M pl = go_bind (NewProxyByErrCount M pl) (\<lambda>(a, pl'). Ret (a, Start a pl'))"

fun pool_step :: "maker \<Rightarrow> pool_op \<Rightarrow> pool \<Rightarrow> pool go" where
  "pool_step M (Get tps) pl = go_bind (proxy_get M tps pl) (\<lambda>(_, pl'). Ret pl')"
| "pool_step M ErrReport pl = go_bind (proxy_err M pl) (\<lambda>(_, pl'). Ret pl')"
| "pool_step M (Del name) pl = go_bind (DelProxy M name pl) (\<lambda>(_, pl'). Ret pl')"
| "pool_step M (ServerEnds a) pl = (if a \<in> set (pl_serving pl) then Server_end M a pl else Ret pl)"
| "pool_step M (Traffic a h) pl =
     Ret (pl\<lparr>pl_mem := (pl_mem pl)[a := (pl_mem pl ! a)\<lparr>pt_metrics := Some h\<rparr>]\<rparr>)"

fun op_ok :: "pool_op \<Rightarrow> bool" where
  "op_ok (Traffic a h) = health_ok (Some h)"
| "op_ok _ = True"

definition tun_ok :: "tunnel \<Rightarrow> bool" where
  "tun_ok t \<longleftrightarrow> pt_protocl t \<noteq> None \<and> pt_metrics t \<noteq> None \<and> health_ok (pt_metrics t)"

definition pool_ok :: "pool \<Rightarrow> bool" where
  "pool_ok pl \<longleftrightarrow> (\<forall>t \<in> set (pl_mem pl). tun_ok t) \<and>
     (\<forall>t \<in> set (pl_Tunnels pl). \<exists>a < length (pl_mem pl). t = Some a) \<and>
     distinct (pl_Tunnels pl) \<and> distinct (pl_serving pl) \<and>
     (\<forall>a \<in> set (pl_serving pl). a < length (pl_mem pl)) \<and>
     (\<forall>a < length (pl_mem pl). pt_On (pl_mem pl ! a) \<longleftrightarrow> a \<in> set (pl_serving pl))"

definition addr_ok :: "tunnel list \<Rightarrow> nat option \<Rightarrow> bool" where
  "addr_ok mem t \<longleftrightarrow> (\<exists>a. t = Some a \<and> tun_ok (mem ! a))"

lemma pool_addrs: "pool_ok pl \<Longrightarrow> \<forall>t \<in> set (pl_Tunnels pl). addr_ok (pl_mem pl) t"
  by (fastforce simp: pool_ok_def addr_ok_def)

lemma tun_ok_config: "tun_ok t \<Longrightarrow> \<exists>c. GetConfig t = Some c"
  by (auto simp: tun_ok_def GetConfig_def)

lemma tun_ok_score: "tun_ok t \<Longrightarrow> 0 \<le> GetScore t"
  by (simp add: tun_ok_def GetScore_def score_nonneg)

definition candidate :: "tunnel list \<Rightarrow> nat option list \<Rightarrow> nat \<Rightarrow> bool" where
  "candidate mem ts a \<longleftrightarrow> Some a \<in> set ts \<and> pt_On (mem ! a) \<and> tun_Accepts (mem ! a)"

text \<open>What the scan for the best tunnel finds, wherever it starts.\<close>

lemma best_scan_spec:
  assumes "\<forall>t \<in> set ts. addr_ok mem t"
  shows "\<exists>b' s' ty'. best_scan mem ts (b, s, ty) = Ret (b', s', ty') \<and> s \<le> s' \<and>
    (\<forall>a. candidate mem ts a \<longrightarrow> GetScore (mem ! a) \<le> s') \<and>
    (b' = b \<and> s' = s \<or> (\<exists>a. b' = Some a \<and> candidate mem ts a \<and> s' \<le> GetScore (mem ! a) + 1 / 10))"
  using assms
proof (induction ts arbitrary: b s ty)
  case (Cons t ts)
  obtain a c where a: "t = Some a" "GetConfig (mem ! a) = Some c"
    using Cons.prems tun_ok_config by (fastforce simp: addr_ok_def)
  have rest: "\<forall>t \<in> set ts. addr_ok mem t" using Cons.prems by simp
  have cand: "candidate mem (t # ts) x \<longleftrightarrow> x = a \<and> pt_On (mem ! a) \<and> tun_Accepts (mem ! a) \<or> candidate mem ts x" for x
    by (auto simp: candidate_def a(1))
  define adj where "adj = GetScore (mem ! a) + (if cf_ProxyType c \<noteq> ty then 1 / 10 else 0)"
  have adj: "GetScore (mem ! a) \<le> adj" "adj \<le> GetScore (mem ! a) + 1 / 10" by (auto simp: adj_def)
  show ?case
  proof (cases "pt_On (mem ! a) \<and> tun_Accepts (mem ! a)")
    case False
    then have "best_scan mem (t # ts) (b, s, ty) = best_scan mem ts (b, s, ty)"
      by (auto simp: a(1) Let_def)
    with Cons.IH [OF rest, of b s ty] False show ?thesis unfolding cand by fastforce
  next
    case True
    show ?thesis
    proof (cases "s < adj")
      case True
      then have "best_scan mem (t # ts) (b, s, ty) = best_scan mem ts (Some a, adj, cf_ProxyType c)"
        using \<open>pt_On (mem ! a) \<and> tun_Accepts (mem ! a)\<close> by (simp add: a Let_def adj_def)
      with Cons.IH [OF rest, of "Some a" adj "cf_ProxyType c"] True adj
        \<open>pt_On (mem ! a) \<and> tun_Accepts (mem ! a)\<close>
      show ?thesis unfolding cand by fastforce
    next
      case False
      then have "best_scan mem (t # ts) (b, s, ty) = best_scan mem ts (b, s, ty)"
        using \<open>pt_On (mem ! a) \<and> tun_Accepts (mem ! a)\<close> by (simp add: a Let_def adj_def)
      with Cons.IH [OF rest, of b s ty] False adj show ?thesis unfolding cand by fastforce
    qed
  qed
qed (auto simp: candidate_def)

lemma type_scan_spec:
  assumes "\<forall>t \<in> set ts. addr_ok mem t"
  shows "\<exists>b' s'. type_scan mem tp ts (b, s) = Ret (b', s') \<and> s \<le> s' \<and>
    (\<forall>a. candidate mem ts a \<and> map_option cf_ProxyType (GetConfig (mem ! a)) = Some tp \<longrightarrow> GetScore (mem ! a) \<le> s') \<and>
    (b' = b \<and> s' = s \<or> (\<exists>a. b' = Some a \<and> candidate mem ts a \<and> s' = GetScore (mem ! a) \<and>
       map_option cf_ProxyType (GetConfig (mem ! a)) = Some tp))"
  using assms
proof (induction ts arbitrary: b s)
  case (Cons t ts)
  obtain a c where a: "t = Some a" "GetConfig (mem ! a) = Some c"
    using Cons.prems tun_ok_config by (fastforce simp: addr_ok_def)
  have rest: "\<forall>t \<in> set ts. addr_ok mem t" using Cons.prems by simp
  have cand: "candidate mem (t # ts) x \<longleftrightarrow> x = a \<and> pt_On (mem ! a) \<and> tun_Accepts (mem ! a) \<or> candidate mem ts x" for x
    by (auto simp: candidate_def a(1))
  show ?case
  proof (cases "pt_On (mem ! a) \<and> cf_ProxyType c = tp \<and> tun_Accepts (mem ! a) \<and> s < GetScore (mem ! a)")
    case True
    then have "type_scan mem tp (t # ts) (b, s) = type_scan mem tp ts (Some a, GetScore (mem ! a))"
      by (simp add: a Let_def)
    with Cons.IH [OF rest, of "Some a" "GetScore (mem ! a)"] True a show ?thesis
      unfolding cand by fastforce
  next
    case False
    then have "type_scan mem tp (t # ts) (b, s) = type_scan mem tp ts (b, s)"
      by (auto simp: a Let_def)
    with Cons.IH [OF rest, of b s] False a show ?thesis unfolding cand by fastforce
  qed
qed (auto simp: candidate_def)

subsection \<open>What each operation leaves\<close>

definition port_of :: "tunnel \<Rightarrow> int" where
  "port_of t = (case GetConfig t of None \<Rightarrow> -1 | Some c \<Rightarrow> cf_ServerPort c)"

definition id_of :: "tunnel \<Rightarrow> string" where
  "id_of t = (case GetConfig t of None \<Rightarrow> [] | Some c \<Rightarrow> cf_ID c)"

lemma NewProxyTunnel_ok [simp]: "tun_ok (NewProxyTunnel c now)" "\<not> pt_On (NewProxyTunnel c now)"
  "GetConfig (NewProxyTunnel c now) = Some c"
  by (simp_all add: tun_ok_def NewProxyTunnel_def NewHealthMetrics_def GetConfig_def)

lemma random_config_port:
  assumes "random_config M k ps = (c, ps')"
  shows "(cf_ServerPort c = -1 \<or> cf_ServerPort c \<notin> used_ports ps \<and> cf_ServerPort c \<in> used_ports ps') \<and>
    used_ports ps \<subseteq> used_ports ps'"
proof -
  obtain p where g: "GiveAPort (mk_goos M) (mk_listens M k) ps = (p, ps')" "cf_ServerPort c = p"
    using assms by (auto simp: random_config_def RandomConfig_def split: prod.splits)
  show ?thesis using pp.give_fresh [OF g(1)] pp.give_none [of "mk_goos M" "mk_listens M k" ps ps'] g
    by (cases "p = -1") auto
qed

lemma NewSSServer_port:
  "NewSSServer C c = Inr (ci, c') \<Longrightarrow> cf_ServerPort c' = cf_ServerPort c \<and> cf_ID c' = cf_ID c"
  by (auto simp: NewSSServer_def split: prod.splits if_splits sum.splits goerr.splits)

lemma new_tls_cases:
  assumes "new_tls M k ps = (t, ps')"
  shows "\<exists>c c'. random_config M k ps = (c, ps') \<and> t = NewProxyTunnel c' (mk_now M) \<and>
    cf_ServerPort c' = cf_ServerPort c"
  using assms by (auto simp: new_tls_def NewTlsServer_def split: prod.splits)

lemma NewProxy_spec:
  assumes "NewProxy M tp ps = (t, ps')"
  shows "tun_ok t \<and> \<not> pt_On t \<and> used_ports ps \<subseteq> used_ports ps' \<and>
    (port_of t = -1 \<or> port_of t \<notin> used_ports ps \<and> port_of t \<in> used_ports ps')"
proof -
  have new: ?thesis if "random_config M k ps0 = (c, ps')" "t = NewProxyTunnel c' (mk_now M)"
    "cf_ServerPort c' = cf_ServerPort c" "used_ports ps \<subseteq> used_ports ps0" for k ps0 c c'
    using random_config_port [OF that(1)] that(2-4) by (auto simp: port_of_def)
  have tls: ?thesis if "new_tls M k ps0 = (t, ps')" "used_ports ps \<subseteq> used_ports ps0" for k ps0
    using new_tls_cases [OF that(1)] new that(2) by blast
  obtain c ps1 where c: "random_config M 0 ps = (c, ps1)" by fastforce
  have sub: "used_ports ps \<subseteq> used_ports ps1" using random_config_port [OF c] by simp
  consider "tp = ''kcp''" | "tp = ''quic''" | "tp = ''ss''" | "tp \<notin> {''kcp'', ''quic'', ''ss''}" by auto
  then show ?thesis
  proof cases
    case 1
    then show ?thesis using assms c by (intro new [of 0 ps c "ks_config (NewKcpServer c)"]) (auto simp: NewProxy_def NewKcpServer_def)
  next
    case 2
    then show ?thesis using assms c by (intro new [of 0 ps c "qs_config (NewQuicServer (mk_key M) c)"]) (auto simp: NewProxy_def NewQuicServer_def)
  next
    case 3
    then show ?thesis
    proof (cases "NewSSServer (mk_crypto M) (c\<lparr>cf_SSMethod := ''aes-256-gcm''\<rparr>)")
      case (Inl e)
      then have "new_tls M 1 ps1 = (t, ps')" using assms c 3 by (simp add: NewProxy_def)
      then show ?thesis using tls sub by blast
    next
      case (Inr r)
      obtain ci c' where r: "r = (ci, c')" by fastforce
      then have "cf_ServerPort c' = cf_ServerPort c" using NewSSServer_port Inr by force
      moreover have "t = NewProxyTunnel c' (mk_now M)" "ps' = ps1"
        using assms c 3 Inr r by (simp_all add: NewProxy_def)
      ultimately show ?thesis using new [OF _ _ _ subset_refl] c by blast
    qed
  next
    case 4
    then show ?thesis using assms by (intro tls) (auto simp: NewProxy_def)
  qed
qed

text \<open>
  \<open>added\<close> relates a pool to the same pool with one fresh tunnel; \<open>taken\<close> also allows that an
  existing tunnel was chosen.
\<close>

definition added :: "pool \<Rightarrow> nat \<Rightarrow> pool \<Rightarrow> bool" where
  "added pl a pl' \<longleftrightarrow> a = length (pl_mem pl) \<and> (\<exists>t. pl_mem pl' = pl_mem pl @ [t] \<and> tun_ok t \<and> \<not> pt_On t \<and>
     (port_of t = -1 \<or> port_of t \<notin> used_ports (pl_ports pl) \<and> port_of t \<in> used_ports (pl_ports pl'))) \<and>
     used_ports (pl_ports pl) \<subseteq> used_ports (pl_ports pl') \<and>
     pl_Tunnels pl' = pl_Tunnels pl @ [Some a] \<and> pl_MaxTunnels pl' = pl_MaxTunnels pl \<and>
     pl_closed pl' = pl_closed pl \<and> pl_serving pl' = pl_serving pl"

lemma add_new_added: "add_new M tp pl = (a, pl') \<Longrightarrow> added pl a pl'"
proof -
  assume h: "add_new M tp pl = (a, pl')"
  obtain t ps where n: "NewProxy M tp (pl_ports pl) = (t, ps)" by fastforce
  show "added pl a pl'" using h NewProxy_spec [OF n]
    by (auto simp: add_new_def n AddProxy_def added_def)
qed

lemma or_create_cases:
  assumes "or_create M tp found pl = (a, pl')" "pool_ok pl" "gs_list_ok (mk_gl M)"
  shows "found = Some a \<and> pl' = pl \<or>
    found = None \<and> pl' = pl \<and> Some a \<in> set (pl_Tunnels pl) \<and> pl_MaxTunnels pl \<le> int (length (pl_Tunnels pl)) \<or>
    found = None \<and> (pl_MaxTunnels pl \<le> int (length (pl_Tunnels pl)) \<longrightarrow> pl_Tunnels pl = []) \<and> added pl a pl'"
proof (cases found)
  case (Some b)
  then show ?thesis using assms(1) by (simp add: or_create_def)
next
  case None
  show ?thesis
  proof (cases "pl_MaxTunnels pl \<le> int (length (pl_Tunnels pl)) \<and> pl_Tunnels pl \<noteq> []")
    case True
    then obtain b where "pl_Tunnels pl ! 0 = Some b" using assms(2) unfolding pool_ok_def
      by (meson length_greater_0_conv nth_mem)
    moreover have "pl_Tunnels pl ! 0 \<in> set (pl_Tunnels pl)" using True by (intro nth_mem) simp
    ultimately show ?thesis using True assms(1) None
      by (auto simp: or_create_def gs_listD [OF assms(3)])
  next
    case False
    then have "add_new M tp pl = (a, pl')" using assms(1) None
      by (auto simp: or_create_def gs_listD [OF assms(3)] split: if_splits)
    then show ?thesis using None False add_new_added by blast
  qed
qed

lemma GetProxy_cases:
  assumes "pool_ok pl" "gs_list_ok (mk_gl M)"
  shows "\<exists>a pl'. GetProxy M tps pl = Ret (a, pl') \<and>
    (pl' = pl \<and> candidate (pl_mem pl) (pl_Tunnels pl) a \<or>
     pl' = pl \<and> Some a \<in> set (pl_Tunnels pl) \<and> pl_MaxTunnels pl \<le> int (length (pl_Tunnels pl)) \<or>
     (pl_MaxTunnels pl \<le> int (length (pl_Tunnels pl)) \<longrightarrow> pl_Tunnels pl = []) \<and> added pl a pl')"
proof -
  note ok = pool_addrs [OF assms(1)]
  show ?thesis
  proof (cases tps)
    case Nil
    show ?thesis
    proof (cases "pl_Tunnels pl = []")
      case True
      then show ?thesis using Nil add_new_added [of M "''quic''" pl]
        by (cases "add_new M ''quic'' pl") (auto simp: GetProxy_def gs_listD [OF assms(2)])
    next
      case False
      obtain b s ty where b: "best_scan (pl_mem pl) (pl_Tunnels pl) (None, -1, []) = Ret (b, s, ty)"
        "b = None \<or> (\<exists>a. b = Some a \<and> candidate (pl_mem pl) (pl_Tunnels pl) a)"
        using best_scan_spec [OF ok, of None "-1" "[]"] by auto
      obtain a pl' where o: "or_create M ''quic'' b pl = (a, pl')" by fastforce
      then show ?thesis using Nil False b or_create_cases [OF o assms]
        by (auto simp: GetProxy_def selectBestTunnel_def gs_listD [OF assms(2)])
    qed
  next
    case (Cons tp r)
    obtain b s where b: "type_scan (pl_mem pl) tp (pl_Tunnels pl) (None, -1) = Ret (b, s)"
      "b = None \<or> (\<exists>a. b = Some a \<and> candidate (pl_mem pl) (pl_Tunnels pl) a)"
      using type_scan_spec [OF ok, of tp None "-1"] by auto
    obtain a pl' where o: "or_create M tp b pl = (a, pl')" by fastforce
    then show ?thesis using Cons b or_create_cases [OF o assms]
      by (auto simp: GetProxy_def selectByType_def)
  qed
qed

definition has_id :: "tunnel list \<Rightarrow> string \<Rightarrow> nat option \<Rightarrow> bool" where
  "has_id mem name t \<longleftrightarrow> (\<exists>a. t = Some a \<and> id_of (mem ! a) = name)"

definition ports_at :: "tunnel list \<Rightarrow> nat option list \<Rightarrow> int set" where
  "ports_at mem ts = {port_of (mem ! a) | a. Some a \<in> set ts}"

lemma ports_at_simps [simp]:
  "ports_at mem [] = {}" "ports_at mem (Some a # ts) = insert (port_of (mem ! a)) (ports_at mem ts)"
  by (auto simp: ports_at_def)

lemma used_ClosePortUFW [simp]: "used_ports (ClosePortUFW goos p st) = used_ports st"
  by (simp add: ClosePortUFW_def)

lemma used_ReleasePort [simp]: "used_ports (ReleasePort p st) = used_ports st - {q. q = p \<and> 0 < p}"
  by (auto simp: ReleasePort_def)

lemma del_scan_spec:
  assumes "\<forall>t \<in> set ts. addr_ok mem t" "gs_list_ok L"
  shows "\<exists>counts'. del_scan L mem name ts (found, e, hits, counts) =
    Ret (found \<or> (\<exists>t \<in> set ts. has_id mem name t), e @ filter (\<lambda>t. \<not> has_id mem name t) ts,
      hits @ filter (has_id mem name) ts, counts')"
  using assms(1)
proof (induction ts arbitrary: found e hits counts)
  case (Cons t ts)
  obtain a c where a: "t = Some a" "GetConfig (mem ! a) = Some c"
    using Cons.prems tun_ok_config by (fastforce simp: addr_ok_def)
  have i: "has_id mem name t \<longleftrightarrow> cf_ID c = name" by (auto simp: has_id_def a id_of_def)
  have rest: "\<forall>t \<in> set ts. addr_ok mem t" using Cons.prems by simp
  show ?case
  proof (cases "cf_ID c = name")
    case True
    then show ?thesis using Cons.IH [OF rest, of True e "hits @ [t]" "case map_of counts (cf_ProxyType c) of
          None \<Rightarrow> counts | Some num \<Rightarrow> AList.update (cf_ProxyType c) (num + 1) counts"] a i
      by (simp add: gs_listD [OF assms(2)])
  next
    case False
    then show ?thesis using Cons.IH [OF rest, of found "e @ [t]" hits counts] a i
      by (simp add: gs_listD [OF assms(2)])
  qed
qed simp

lemma retire_all_spec:
  assumes "\<forall>t \<in> set ts. addr_ok (pl_mem pl) t"
  shows "\<exists>ps cl. retire_all goos ts pl = Ret (pl\<lparr>pl_closed := pl_closed pl @ cl, pl_ports := ps\<rparr>) \<and>
    map Some cl = ts \<and> used_ports ps = used_ports (pl_ports pl) - {p \<in> ports_at (pl_mem pl) ts. 0 < p}"
  using assms
proof (induction ts arbitrary: pl)
  case Nil
  show ?case by (intro exI [of _ "pl_ports pl"] exI [of _ "[]"]) simp
next
  case (Cons t ts)
  obtain a c where a: "t = Some a" "GetConfig (pl_mem pl ! a) = Some c"
    using Cons.prems tun_ok_config by (fastforce simp: addr_ok_def)
  define pl1 where "pl1 = pl\<lparr>pl_closed := pl_closed pl @ [a],
    pl_ports := ReleasePort (cf_ServerPort c) (ClosePortUFW goos (cf_ServerPort c) (pl_ports pl))\<rparr>"
  have "\<forall>t \<in> set ts. addr_ok (pl_mem pl1) t" using Cons.prems by (simp add: pl1_def)
  from Cons.IH [OF this] obtain ps cl where r: "retire_all goos ts pl1 =
      Ret (pl1\<lparr>pl_closed := pl_closed pl1 @ cl, pl_ports := ps\<rparr>)" "map Some cl = ts"
    "used_ports ps = used_ports (pl_ports pl1) - {p \<in> ports_at (pl_mem pl1) ts. 0 < p}"
    by blast
  have p: "port_of (pl_mem pl ! a) = cf_ServerPort c" by (simp add: port_of_def a)
  show ?case using r a p
    by (intro exI [of _ ps] exI [of _ "a # cl"]) (auto simp: pl1_def)
qed

lemma DelProxy_cases:
  assumes "pool_ok pl" "gs_list_ok (mk_gl M)"
  shows "\<exists>ps cl counts. DelProxy M name pl = Ret (\<exists>t \<in> set (pl_Tunnels pl). has_id (pl_mem pl) name t,
      pl\<lparr>pl_Tunnels := filter (\<lambda>t. \<not> has_id (pl_mem pl) name t) (pl_Tunnels pl), pl_ErrTypeCount := counts,
         pl_closed := pl_closed pl @ cl, pl_ports := ps\<rparr>) \<and>
    map Some cl = filter (has_id (pl_mem pl) name) (pl_Tunnels pl) \<and>
    used_ports ps = used_ports (pl_ports pl) -
      {p \<in> ports_at (pl_mem pl) (filter (has_id (pl_mem pl) name) (pl_Tunnels pl)). 0 < p}"
proof -
  note ok = pool_addrs [OF assms(1)]
  obtain counts where d: "del_scan (mk_gl M) (pl_mem pl) name (pl_Tunnels pl) (False, [], [], pl_ErrTypeCount pl) =
      Ret (\<exists>t \<in> set (pl_Tunnels pl). has_id (pl_mem pl) name t,
        filter (\<lambda>t. \<not> has_id (pl_mem pl) name t) (pl_Tunnels pl),
        filter (has_id (pl_mem pl) name) (pl_Tunnels pl), counts)"
    using del_scan_spec [OF ok assms(2), of name False "[]" "[]"] by auto
  define pl1 where "pl1 = pl\<lparr>pl_Tunnels := filter (\<lambda>t. \<not> has_id (pl_mem pl) name t) (pl_Tunnels pl),
    pl_ErrTypeCount := counts\<rparr>"
  have "\<forall>t \<in> set (filter (has_id (pl_mem pl) name) (pl_Tunnels pl)). addr_ok (pl_mem pl1) t"
    using ok by (simp add: pl1_def)
  from retire_all_spec [OF this, of "mk_goos M"] obtain ps cl where r:
    "retire_all (mk_goos M) (filter (has_id (pl_mem pl) name) (pl_Tunnels pl)) pl1 =
      Ret (pl1\<lparr>pl_closed := pl_closed pl1 @ cl, pl_ports := ps\<rparr>)"
    "map Some cl = filter (has_id (pl_mem pl) name) (pl_Tunnels pl)"
    "used_ports ps = used_ports (pl_ports pl1) -
      {p \<in> ports_at (pl_mem pl1) (filter (has_id (pl_mem pl) name) (pl_Tunnels pl)). 0 < p}"
    by blast
  then show ?thesis using d
    by (intro exI [of _ ps] exI [of _ cl] exI [of _ counts]) (simp add: DelProxy_def pl1_def)
qed

lemma stats_scan_total:
  assumes "\<forall>t \<in> set ts. addr_ok mem t"
  shows "\<exists>m'. stats_scan mem ts m = Ret m'"
  using assms
proof (induction ts arbitrary: m)
  case (Cons t ts)
  obtain a c h where "t = Some a" "GetConfig (mem ! a) = Some c" "pt_metrics (mem ! a) = Some h"
    using Cons.prems tun_ok_config by (fastforce simp: addr_ok_def tun_ok_def)
  with Cons show ?case by (auto split: prod.splits option.splits)
qed simp

lemma proxy_err_cases:
  assumes "pool_ok pl"
  shows "\<exists>a pl'. proxy_err M pl = Ret (a, Start a pl') \<and> added pl a pl'"
proof -
  obtain m where m: "stats_scan (pl_mem pl) (pl_Tunnels pl)
      [(''tls'', 0, 0, 0), (''kcp'', 0, 0, 0), (''quic'', 0, 0, 0), (''ss'', 0, 0, 0)] = Ret m"
    using stats_scan_total [OF pool_addrs [OF assms]] by blast
  obtain a pl' where n: "add_new M (pick_type (mk_order M m) ''quic'' 1) pl = (a, pl')" by fastforce
  then have "proxy_err M pl = Ret (a, Start a pl')" by (simp add: proxy_err_def NewProxyByErrCount_def m)
  then show ?thesis using add_new_added [OF n] by blast
qed

subsection \<open>The invariant\<close>

lemma pool_ok_added: "pool_ok pl \<Longrightarrow> added pl a pl' \<Longrightarrow> pool_ok pl'"
  by (auto simp: pool_ok_def added_def less_Suc_eq nth_append)

lemma nth_update_if: "xs[a := v] ! i = (if i = a \<and> a < length xs then v else xs ! i)"
  by (cases "a < length xs") (auto simp: nth_list_update list_update_beyond)

lemma pool_ok_tunnels: "pool_ok pl \<Longrightarrow> a < length (pl_mem pl) \<Longrightarrow> tun_ok (pl_mem pl ! a)"
  by (simp add: pool_ok_def)

lemma all_update: "(\<forall>t \<in> set xs. P t) \<Longrightarrow> P v \<Longrightarrow> t \<in> set (xs[a := v]) \<Longrightarrow> P t"
  by (auto dest!: set_update_subset_insert [THEN subsetD])

lemma pool_ok_Start:
  assumes "pool_ok pl" "Some a \<in> set (pl_Tunnels pl)" "\<not> pt_On (pl_mem pl ! a)"
  shows "pool_ok (Start a pl)"
proof -
  have l: "a < length (pl_mem pl)" using assms by (auto simp: pool_ok_def)
  have "tun_ok ((pl_mem pl ! a)\<lparr>pt_On := True\<rparr>)"
    using pool_ok_tunnels [OF assms(1) l] by (simp add: tun_ok_def)
  then show ?thesis using assms l
    by (auto simp: pool_ok_def Start_def nth_update_if intro: all_update)
qed

lemma pool_ok_tunnel_update:
  assumes "pool_ok pl" "tun_ok t" "pt_On t = pt_On (pl_mem pl ! a)"
  shows "pool_ok (pl\<lparr>pl_mem := (pl_mem pl)[a := t]\<rparr>)"
  using assms by (auto simp: pool_ok_def nth_update_if intro: all_update)

lemma pool_ok_irrelevant:
  "pool_ok (pl\<lparr>pl_ports := ps\<rparr>) = pool_ok pl" "pool_ok (pl\<lparr>pl_closed := cl\<rparr>) = pool_ok pl"
  "pool_ok (pl\<lparr>pl_ErrTypeCount := cn\<rparr>) = pool_ok pl"
  "pool_ok pl \<Longrightarrow> pool_ok (pl\<lparr>pl_Tunnels := filter P (pl_Tunnels pl)\<rparr>)"
  by (auto simp: pool_ok_def)

lemma DelProxy_ok:
  assumes "pool_ok pl" "gs_list_ok (mk_gl M)"
  shows "\<exists>b pl'. DelProxy M name pl = Ret (b, pl') \<and> pool_ok pl' \<and> pl_mem pl' = pl_mem pl \<and>
    pl_Tunnels pl' = filter (\<lambda>t. \<not> has_id (pl_mem pl) name t) (pl_Tunnels pl) \<and>
    pl_MaxTunnels pl' = pl_MaxTunnels pl \<and> pl_serving pl' = pl_serving pl \<and>
    used_ports (pl_ports pl') = used_ports (pl_ports pl) -
      {p \<in> ports_at (pl_mem pl) (filter (has_id (pl_mem pl) name) (pl_Tunnels pl)). 0 < p}"
proof -
  obtain ps cl counts where d: "DelProxy M name pl = Ret (\<exists>t \<in> set (pl_Tunnels pl). has_id (pl_mem pl) name t,
      pl\<lparr>pl_Tunnels := filter (\<lambda>t. \<not> has_id (pl_mem pl) name t) (pl_Tunnels pl), pl_ErrTypeCount := counts,
         pl_closed := pl_closed pl @ cl, pl_ports := ps\<rparr>)"
    "used_ports ps = used_ports (pl_ports pl) -
      {p \<in> ports_at (pl_mem pl) (filter (has_id (pl_mem pl) name) (pl_Tunnels pl)). 0 < p}"
    using DelProxy_cases [OF assms] by blast
  show ?thesis unfolding d(1) using assms(1) d(2) by (simp add: pool_ok_irrelevant)
qed

text \<open>The state in which the deferred \<open>DelProxy\<close> of a serving goroutine runs.\<close>

definition server_off :: "maker \<Rightarrow> nat \<Rightarrow> pool \<Rightarrow> pool" where
  "server_off M a pl = pl\<lparr>pl_mem := (pl_mem pl)[a := (pl_mem pl ! a)\<lparr>pt_On := False\<rparr>],
     pl_serving := remove1 a (pl_serving pl),
     pl_ports := ReleasePort (port_of (pl_mem pl ! a))
       (ClosePortUFW (mk_goos M) (port_of (pl_mem pl ! a)) (pl_ports pl))\<rparr>"

lemma id_port_update [simp]:
  "id_of (t\<lparr>pt_On := b\<rparr>) = id_of t" "port_of (t\<lparr>pt_On := b\<rparr>) = port_of t"
  "id_of (t\<lparr>pt_metrics := h\<rparr>) = id_of t" "port_of (t\<lparr>pt_metrics := h\<rparr>) = port_of t"
  by (simp_all add: id_of_def port_of_def GetConfig_def)

lemma same_at_update [simp]:
  "id_of ((mem[a := (mem ! a)\<lparr>pt_On := b\<rparr>]) ! i) = id_of (mem ! i)"
  "port_of ((mem[a := (mem ! a)\<lparr>pt_On := b\<rparr>]) ! i) = port_of (mem ! i)"
  "id_of ((mem[a := (mem ! a)\<lparr>pt_metrics := h\<rparr>]) ! i) = id_of (mem ! i)"
  "port_of ((mem[a := (mem ! a)\<lparr>pt_metrics := h\<rparr>]) ! i) = port_of (mem ! i)"
  by (simp_all add: nth_update_if)

lemma ids_at_update [simp]:
  "has_id (mem[a := (mem ! a)\<lparr>pt_On := b\<rparr>]) name = has_id mem name"
  "ports_at (mem[a := (mem ! a)\<lparr>pt_On := b\<rparr>]) ts = ports_at mem ts"
  by (simp_all add: has_id_def ports_at_def fun_eq_iff)

lemma Server_end_DelProxy:
  assumes "pool_ok pl" "a < length (pl_mem pl)"
  shows "Server_end M a pl = go_bind (DelProxy M (id_of (pl_mem pl ! a)) (server_off M a pl)) (\<lambda>(_, pl'). Ret pl')"
    "pool_ok (server_off M a pl)"
proof -
  have t: "tun_ok (pl_mem pl ! a)" using assms by (simp add: pool_ok_def)
  then obtain c where c: "GetConfig (pl_mem pl ! a) = Some c" using tun_ok_config by blast
  show "Server_end M a pl = go_bind (DelProxy M (id_of (pl_mem pl ! a)) (server_off M a pl)) (\<lambda>(_, pl'). Ret pl')"
    by (simp add: Server_end_def c server_off_def id_of_def port_of_def)
  have "tun_ok ((pl_mem pl ! a)\<lparr>pt_On := False\<rparr>)" using t by (simp add: tun_ok_def)
  then show "pool_ok (server_off M a pl)"
    using assms by (auto simp: pool_ok_def server_off_def nth_update_if intro: all_update)
qed

text \<open>
  Pools as they come about from the empty one, whatever requests arrive; \<open>tidy\<close> says that
  serving goroutines only ended for tunnels still in the pool.
\<close>

inductive pool_reach :: "bool \<Rightarrow> pool \<Rightarrow> bool" where
  pool_start: "pool_reach tidy (empty_pool ps)"
| pool_more: "pool_reach tidy pl \<Longrightarrow> gs_list_ok (mk_gl M) \<Longrightarrow> op_ok op \<Longrightarrow>
    (tidy \<longrightarrow> (\<forall>a. op = ServerEnds a \<longrightarrow> Some a \<in> set (pl_Tunnels pl))) \<Longrightarrow>
    pool_step M op pl = Ret pl' \<Longrightarrow> pool_reach tidy pl'"

lemma proxy_get_cases:
  assumes "pool_ok pl" "gs_list_ok (mk_gl M)"
  shows "\<exists>a pl1 pl'. proxy_get M tps pl = Ret (a, pl') \<and>
    (pl1 = pl \<and> Some a \<in> set (pl_Tunnels pl) \<or>
     (pl_MaxTunnels pl \<le> int (length (pl_Tunnels pl)) \<longrightarrow> pl_Tunnels pl = []) \<and> added pl a pl1) \<and>
    pl' = (if pt_On (pl_mem pl1 ! a) then pl1 else Start a pl1)"
proof -
  obtain a pl1 where g: "GetProxy M tps pl = Ret (a, pl1)"
    "pl1 = pl \<and> Some a \<in> set (pl_Tunnels pl) \<or>
     (pl_MaxTunnels pl \<le> int (length (pl_Tunnels pl)) \<longrightarrow> pl_Tunnels pl = []) \<and> added pl a pl1"
    using GetProxy_cases [OF assms, of tps] by (auto simp: candidate_def)
  show ?thesis
    by (intro exI [of _ a] exI [of _ pl1] exI [of _ "if pt_On (pl_mem pl1 ! a) then pl1 else Start a pl1"])
      (use g in \<open>simp add: proxy_get_def\<close>)
qed

lemma pool_step_ok:
  assumes "pool_ok pl" "gs_list_ok (mk_gl M)" "op_ok op"
  shows "\<exists>pl'. pool_step M op pl = Ret pl' \<and> pool_ok pl'"
proof (cases op)
  case (Get tps)
  obtain a pl1 pl' where g: "proxy_get M tps pl = Ret (a, pl')"
    "pl1 = pl \<and> Some a \<in> set (pl_Tunnels pl) \<or> added pl a pl1"
    "pl' = (if pt_On (pl_mem pl1 ! a) then pl1 else Start a pl1)"
    using proxy_get_cases [OF assms(1,2), of tps] by blast
  have "pool_ok pl1 \<and> Some a \<in> set (pl_Tunnels pl1)" using g(2) assms(1) pool_ok_added
    by (auto simp: added_def)
  then show ?thesis using g pool_ok_Start by (simp add: Get)
next
  case ErrReport
  obtain a pl1 where g: "proxy_err M pl = Ret (a, Start a pl1)" "added pl a pl1"
    using proxy_err_cases [OF assms(1), of M] by blast
  have "pool_ok pl1 \<and> Some a \<in> set (pl_Tunnels pl1) \<and> \<not> pt_On (pl_mem pl1 ! a)"
    using g(2) assms(1) pool_ok_added by (auto simp: added_def)
  then show ?thesis using g pool_ok_Start by (simp add: ErrReport)
next
  case (Del name)
  then show ?thesis using DelProxy_ok [OF assms(1,2), of name] by auto
next
  case (ServerEnds a)
  show ?thesis
  proof (cases "a \<in> set (pl_serving pl)")
    case True
    then have "a < length (pl_mem pl)" using assms(1) by (simp add: pool_ok_def)
    note se = Server_end_DelProxy [OF assms(1) this]
    obtain b pl' where "DelProxy M (id_of (pl_mem pl ! a)) (server_off M a pl) = Ret (b, pl')" "pool_ok pl'"
      using DelProxy_ok [OF se(2) assms(2), of "id_of (pl_mem pl ! a)"] by blast
    then show ?thesis using True by (simp add: ServerEnds se(1))
  qed (use assms in \<open>simp add: ServerEnds\<close>)
next
  case (Traffic a h)
  show ?thesis
  proof (cases "a < length (pl_mem pl)")
    case True
    then have "tun_ok (pl_mem pl ! a)" using assms(1) by (simp add: pool_ok_def)
    then have "tun_ok ((pl_mem pl ! a)\<lparr>pt_metrics := Some h\<rparr>)" using assms(3) Traffic by (simp add: tun_ok_def)
    then show ?thesis using pool_ok_tunnel_update [OF assms(1)] by (simp add: Traffic)
  qed (use assms in \<open>simp add: Traffic list_update_beyond\<close>)
qed

lemma pool_reach_ok: "pool_reach tidy pl \<Longrightarrow> pool_ok pl"
proof (induction rule: pool_reach.induct)
  case (pool_more tidy pl M op pl')
  then show ?case using pool_step_ok [of pl M op] by auto
qed (simp add: pool_ok_def empty_pool_def)

subsection \<open>Properties of the pool\<close>

text \<open>
  C6. Whatever requests, deletions, failures and traffic a server has seen, the next operation
  on its tunnels does not panic; every tunnel in the pool exists once, and a tunnel is marked as
  running exactly while one goroutine serves it.
\<close>

theorem pool_never_panics:
  assumes "pool_reach tidy pl" "gs_list_ok (mk_gl M)" "op_ok op"
  shows "pool_step M op pl \<noteq> Panic \<and> distinct (pl_Tunnels pl) \<and> distinct (pl_serving pl) \<and>
    (\<forall>a < length (pl_mem pl). pt_On (pl_mem pl ! a) \<longleftrightarrow> a \<in> set (pl_serving pl))"
proof -
  note ok = pool_reach_ok [OF assms(1)]
  obtain pl' where "pool_step M op pl = Ret pl'" using pool_step_ok [OF ok assms(2,3)] by blast
  with ok show ?thesis by (simp add: pool_ok_def)
qed

definition toy_crypto :: crypto where
  "toy_crypto = \<lparr>cr_pbkdf2 = (\<lambda>_ _ _ n. replicate n 0), cr_aes_gcm = (\<lambda>_. Inr plain_aead),
     cr_chacha = (\<lambda>_. Inr plain_aead)\<rparr>"

definition toy_maker :: "string \<Rightarrow> maker" where
  "toy_maker r = \<lparr>mk_goos = ''linux'', mk_listens = (\<lambda>_ _. True), mk_rand = (\<lambda>_ _ _. r), mk_now = 0,
     mk_crypto = toy_crypto, mk_key = ''key'', mk_order = (\<lambda>m. m), mk_gl = gs_list_std\<rparr>"

lemma toy_maker_gl [simp]: "gs_list_ok (mk_gl (toy_maker r))"
  by (simp add: toy_maker_def)

definition no_ports :: ports where
  "no_ports = \<lparr>used_ports = {}, ufw_log = []\<rparr>"

theorem pool_never_panics_witness:
  "pool_step (toy_maker ''x'') (Get []) (empty_pool no_ports) \<noteq> Panic"
  using pool_never_panics [OF pool_start [of True no_ports] toy_maker_gl [of "''x''"], of "Get []"] by simp

text \<open>
  C23. The tunnel chosen when no type is asked for runs and accepts connections, nothing is
  created, and no running tunnel that accepts connections scores more than a tenth higher (the
  bonus for changing the type).
\<close>

theorem select_near_best:
  assumes "pool_reach tidy pl" "gs_list_ok (mk_gl M)" "candidate (pl_mem pl) (pl_Tunnels pl) b"
    and sel: "GetProxy M [] pl = Ret (a, pl')"
  shows "pl' = pl \<and> candidate (pl_mem pl) (pl_Tunnels pl) a \<and>
    GetScore (pl_mem pl ! b) \<le> GetScore (pl_mem pl ! a) + 1 / 10"
proof -
  note ok = pool_reach_ok [OF assms(1)]
  obtain f s ty where scan: "best_scan (pl_mem pl) (pl_Tunnels pl) (None, -1, []) = Ret (f, s, ty)"
    "GetScore (pl_mem pl ! b) \<le> s"
    "f = None \<and> s = -1 \<or> (\<exists>a. f = Some a \<and> candidate (pl_mem pl) (pl_Tunnels pl) a \<and>
       s \<le> GetScore (pl_mem pl ! a) + 1 / 10)"
    using best_scan_spec [OF pool_addrs [OF ok], of None "-1" "[]"] assms(3) by blast
  have "0 \<le> GetScore (pl_mem pl ! b)"
    using assms(3) pool_addrs [OF ok] tun_ok_score by (auto simp: candidate_def addr_ok_def)
  then obtain a' where a': "f = Some a'" "candidate (pl_mem pl) (pl_Tunnels pl) a'"
    "s \<le> GetScore (pl_mem pl ! a') + 1 / 10" using scan(2,3) by auto
  have "pl_Tunnels pl \<noteq> []" using assms(3) by (auto simp: candidate_def)
  then have "a = a'" "pl' = pl" using sel scan(1) a'(1)
    by (auto simp: GetProxy_def selectBestTunnel_def or_create_def gs_listD [OF assms(2)])
  with a' scan(2) show ?thesis by auto
qed

text \<open>
  Asked for a type, the server returns a running tunnel of that type that accepts
  connections and has the highest score of them, if there is one.
\<close>

theorem select_by_type_best:
  assumes "pool_reach tidy pl" "candidate (pl_mem pl) (pl_Tunnels pl) b"
    and tp: "map_option cf_ProxyType (GetConfig (pl_mem pl ! b)) = Some tp"
    and sel: "GetProxy M (tp # r) pl = Ret (a, pl')"
  shows "pl' = pl \<and> candidate (pl_mem pl) (pl_Tunnels pl) a \<and>
    map_option cf_ProxyType (GetConfig (pl_mem pl ! a)) = Some tp \<and>
    GetScore (pl_mem pl ! b) \<le> GetScore (pl_mem pl ! a)"
proof -
  note ok = pool_reach_ok [OF assms(1)]
  obtain f s where scan: "type_scan (pl_mem pl) tp (pl_Tunnels pl) (None, -1) = Ret (f, s)"
    "GetScore (pl_mem pl ! b) \<le> s"
    "f = None \<and> s = -1 \<or> (\<exists>a. f = Some a \<and> candidate (pl_mem pl) (pl_Tunnels pl) a \<and>
       s = GetScore (pl_mem pl ! a) \<and> map_option cf_ProxyType (GetConfig (pl_mem pl ! a)) = Some tp)"
    using type_scan_spec [OF pool_addrs [OF ok], of tp None "-1"] assms(2) tp by blast
  have "0 \<le> GetScore (pl_mem pl ! b)"
    using assms(2) pool_addrs [OF ok] tun_ok_score by (auto simp: candidate_def addr_ok_def)
  then obtain a' where a': "f = Some a'" "candidate (pl_mem pl) (pl_Tunnels pl) a'"
    "s = GetScore (pl_mem pl ! a')" "map_option cf_ProxyType (GetConfig (pl_mem pl ! a')) = Some tp"
    using scan(2,3) by auto
  then have "a = a'" "pl' = pl" using sel scan(1)
    by (auto simp: GetProxy_def selectByType_def or_create_def)
  with a' scan(2) show ?thesis by auto
qed

text \<open>
  A request for a tunnel is answered with one that is in the pool and being served.
\<close>

theorem proxy_get_serves:
  assumes "pool_reach tidy pl" "gs_list_ok (mk_gl M)"
  shows "\<exists>a pl'. proxy_get M tps pl = Ret (a, pl') \<and> Some a \<in> set (pl_Tunnels pl') \<and>
    pt_On (pl_mem pl' ! a) \<and> a \<in> set (pl_serving pl')"
proof -
  note ok = pool_reach_ok [OF assms(1)]
  obtain a pl1 pl' where g: "proxy_get M tps pl = Ret (a, pl')"
    "pl1 = pl \<and> Some a \<in> set (pl_Tunnels pl) \<or> added pl a pl1"
    "pl' = (if pt_On (pl_mem pl1 ! a) then pl1 else Start a pl1)"
    using proxy_get_cases [OF ok assms(2), of tps] by blast
  have ok1: "pool_ok pl1" "Some a \<in> set (pl_Tunnels pl1)"
    using g(2) ok pool_ok_added by (auto simp: added_def)
  then have a: "a < length (pl_mem pl1)" by (auto simp: pool_ok_def)
  have "pool_ok pl'" "Some a \<in> set (pl_Tunnels pl')" "a < length (pl_mem pl')" "pt_On (pl_mem pl' ! a)"
    using g(3) ok1 a pool_ok_Start by (auto simp: Start_def)
  with g(1) show ?thesis by (auto simp: pool_ok_def)
qed

text \<open>
  The cap on the number of tunnels holds for every operation except one: only an error
  report makes the pool grow at or beyond the cap, and it does so every time.
\<close>

theorem tunnel_cap:
  assumes "pool_reach tidy pl" "gs_list_ok (mk_gl M)" "pool_step M op pl = Ret pl'"
  shows "(op \<noteq> ErrReport \<and> 0 < pl_MaxTunnels pl \<and> pl_MaxTunnels pl \<le> int (length (pl_Tunnels pl)) \<longrightarrow>
      length (pl_Tunnels pl') \<le> length (pl_Tunnels pl)) \<and>
    (op = ErrReport \<longrightarrow> length (pl_Tunnels pl') = length (pl_Tunnels pl) + 1)"
proof -
  note ok = pool_reach_ok [OF assms(1)]
  show ?thesis
  proof (cases op)
    case (Get tps)
    then show ?thesis using proxy_get_cases [OF ok assms(2), of tps] assms(3)
      by (auto simp: added_def Start_def split: if_splits)
  next
    case ErrReport
    then show ?thesis using proxy_err_cases [OF ok, of M] assms(3) by (auto simp: added_def Start_def)
  next
    case (Del name)
    then show ?thesis using DelProxy_ok [OF ok assms(2), of name] assms(3) by (auto intro: length_filter_le)
  next
    case (ServerEnds a)
    show ?thesis
    proof (cases "a \<in> set (pl_serving pl)")
      case True
      then have "a < length (pl_mem pl)" using ok by (simp add: pool_ok_def)
      note se = Server_end_DelProxy [OF ok this, of M]
      obtain b pl1 where "DelProxy M (id_of (pl_mem pl ! a)) (server_off M a pl) = Ret (b, pl1)"
        "length (pl_Tunnels pl1) \<le> length (pl_Tunnels pl)"
        using DelProxy_ok [OF se(2) assms(2), of "id_of (pl_mem pl ! a)"]
        by (auto simp: server_off_def intro: length_filter_le)
      then show ?thesis using True assms(3) by (simp add: ServerEnds se(1))
    qed (use assms in \<open>simp add: ServerEnds\<close>)
  next
    case (Traffic a h)
    then show ?thesis using assms(3) by auto
  qed
qed

text \<open>
  C25. Deleting removes exactly the tunnels of that id, keeps the others in order, asks each
  removed tunnel's protocol to close and frees its port, and reports whether there was one.
\<close>

theorem DelProxy_exact:
  assumes "pool_reach tidy pl" "gs_list_ok (mk_gl M)"
  shows "\<exists>pl' cl. DelProxy M name pl = Ret (cl \<noteq> [], pl') \<and>
    pl_Tunnels pl' = filter (\<lambda>t. \<not> has_id (pl_mem pl) name t) (pl_Tunnels pl) \<and>
    map Some cl = filter (has_id (pl_mem pl) name) (pl_Tunnels pl) \<and>
    pl_closed pl' = pl_closed pl @ cl \<and> pl_mem pl' = pl_mem pl \<and>
    used_ports (pl_ports pl') = used_ports (pl_ports pl) - {port_of (pl_mem pl ! a) | a. a \<in> set cl \<and> 0 < port_of (pl_mem pl ! a)}"
proof -
  obtain ps cl counts where d: "DelProxy M name pl = Ret (\<exists>t \<in> set (pl_Tunnels pl). has_id (pl_mem pl) name t,
      pl\<lparr>pl_Tunnels := filter (\<lambda>t. \<not> has_id (pl_mem pl) name t) (pl_Tunnels pl), pl_ErrTypeCount := counts,
         pl_closed := pl_closed pl @ cl, pl_ports := ps\<rparr>)"
    "map Some cl = filter (has_id (pl_mem pl) name) (pl_Tunnels pl)"
    "used_ports ps = used_ports (pl_ports pl) -
      {p \<in> ports_at (pl_mem pl) (filter (has_id (pl_mem pl) name) (pl_Tunnels pl)). 0 < p}"
    using DelProxy_cases [OF pool_reach_ok [OF assms(1)] assms(2)] by blast
  have "(\<exists>t \<in> set (pl_Tunnels pl). has_id (pl_mem pl) name t) \<longleftrightarrow> map Some cl \<noteq> []"
    unfolding d(2) by (auto simp: filter_empty_conv)
  then have f: "(\<exists>t \<in> set (pl_Tunnels pl). has_id (pl_mem pl) name t) \<longleftrightarrow> cl \<noteq> []" by simp
  have p: "{p \<in> ports_at (pl_mem pl) (filter (has_id (pl_mem pl) name) (pl_Tunnels pl)). 0 < p} =
      {port_of (pl_mem pl ! a) | a. a \<in> set cl \<and> 0 < port_of (pl_mem pl ! a)}"
    unfolding d(2) [symmetric] by (auto simp: ports_at_def)
  show ?thesis unfolding d(1) f using d(2,3) unfolding p by simp
qed

text \<open>A concrete pool: one request for a QUIC tunnel on an idle machine.\<close>

definition toy_config :: "string \<Rightarrow> int \<Rightarrow> config" where
  "toy_config r p = zero_config\<lparr>cf_ServerPort := p, cf_Server := SrvStr ''0.0.0.0'', cf_ServerPassword := r,
     cf_SALT := r, cf_Method := ''aes-256'', cf_EBUFLEN := 4096, cf_ID := r, cf_Password := ''key'',
     cf_ProxyType := ''quic''\<rparr>"

lemma toy_NewProxy:
  assumes "20000 \<notin> used_ports ps"
  shows "NewProxy (toy_maker r) ''quic'' ps = (NewProxyTunnel (toy_config r 20000) 0,
    ps\<lparr>used_ports := insert 20000 (used_ports ps), ufw_log := ufw_log ps @ [UfwAllow 20000]\<rparr>)"
  using assms by (simp add: NewProxy_def random_config_def RandomConfig_def GiveAPort_def give_loop.simps [of _ 20000]
      toy_maker_def NewQuicServer_def toy_config_def OpenPortUFW_def)

definition one_tunnel :: pool where
  "one_tunnel = (empty_pool no_ports)\<lparr>pl_mem := [(NewProxyTunnel (toy_config ''a'' 20000) 0)\<lparr>pt_On := True\<rparr>],
     pl_Tunnels := [Some 0], pl_ports := \<lparr>used_ports = {20000}, ufw_log = [UfwAllow 20000]\<rparr>,
     pl_serving := [0]\<rparr>"

lemma one_tunnel_step:
  "pool_step (toy_maker ''a'') (Get []) (empty_pool no_ports) = Ret one_tunnel"
proof -
  have "gl_Count (mk_gl (toy_maker ''a'')) [] = 0" by (simp add: toy_maker_def gs_list_std_def)
  moreover have "add_new (toy_maker ''a'') ''quic'' (empty_pool no_ports) =
      (0, (empty_pool no_ports)\<lparr>pl_mem := [NewProxyTunnel (toy_config ''a'' 20000) 0],
        pl_Tunnels := [Some 0], pl_ports := \<lparr>used_ports = {20000}, ufw_log = [UfwAllow 20000]\<rparr>\<rparr>)"
    by (simp add: add_new_def empty_pool_def toy_NewProxy no_ports_def AddProxy_def)
  ultimately show ?thesis
    by (simp add: proxy_get_def GetProxy_def empty_pool_def Start_def one_tunnel_def)
qed

lemma one_tunnel_reach: "pool_reach tidy one_tunnel"
  by (rule pool_more [OF pool_start toy_maker_gl _ _ one_tunnel_step]) auto

lemma one_tunnel_candidate:
  "candidate (pl_mem one_tunnel) (pl_Tunnels one_tunnel) 0"
  "map_option cf_ProxyType (GetConfig (pl_mem one_tunnel ! 0)) = Some ''quic''"
  by (simp_all add: candidate_def one_tunnel_def tun_Accepts_def NewProxyTunnel_def NewHealthMetrics_def
      GetConfig_def toy_config_def)

theorem select_near_best_witness:
  "\<exists>a. GetProxy (toy_maker ''a'') [] one_tunnel = Ret (a, one_tunnel) \<and> candidate (pl_mem one_tunnel) [Some 0] a"
proof -
  obtain a pl' where g: "GetProxy (toy_maker ''a'') [] one_tunnel = Ret (a, pl')"
    using GetProxy_cases [OF pool_reach_ok [OF one_tunnel_reach [of True]] toy_maker_gl, of "''a''" "[]"] by blast
  from select_near_best [OF one_tunnel_reach [of True] toy_maker_gl one_tunnel_candidate(1) g] g show ?thesis
    by (simp add: one_tunnel_def)
qed

theorem select_by_type_best_witness:
  "\<exists>a. GetProxy (toy_maker ''a'') [''quic''] one_tunnel = Ret (a, one_tunnel) \<and> candidate (pl_mem one_tunnel) [Some 0] a"
proof -
  obtain a pl' where g: "GetProxy (toy_maker ''a'') [''quic''] one_tunnel = Ret (a, pl')"
    using GetProxy_cases [OF pool_reach_ok [OF one_tunnel_reach [of True]] toy_maker_gl, of "''a''" "[''quic'']"] by blast
  from select_by_type_best [OF one_tunnel_reach [of True] one_tunnel_candidate g] g show ?thesis
    by (simp add: one_tunnel_def)
qed

theorem proxy_get_serves_witness:
  "\<exists>a pl'. proxy_get (toy_maker ''b'') [''tls''] one_tunnel = Ret (a, pl') \<and> a \<in> set (pl_serving pl')"
  using proxy_get_serves [OF one_tunnel_reach [of True] toy_maker_gl [of "''b''"], of "[''tls'']"] by blast

theorem tunnel_cap_witness:
  "\<exists>pl'. pool_step (toy_maker ''b'') ErrReport one_tunnel = Ret pl' \<and> length (pl_Tunnels pl') = 2"
proof -
  obtain pl' where p: "pool_step (toy_maker ''b'') ErrReport one_tunnel = Ret pl'"
    using pool_step_ok [OF pool_reach_ok [OF one_tunnel_reach [of True]] toy_maker_gl, of ErrReport] by auto
  with tunnel_cap [OF one_tunnel_reach [of True] toy_maker_gl p] show ?thesis by (simp add: one_tunnel_def)
qed

theorem DelProxy_exact_witness:
  "\<exists>pl'. DelProxy (toy_maker ''b'') ''a'' one_tunnel = Ret (True, pl') \<and> pl_Tunnels pl' = []"
proof -
  have h: "filter (has_id (pl_mem one_tunnel) ''a'') (pl_Tunnels one_tunnel) = [Some 0]"
    "filter (\<lambda>t. \<not> has_id (pl_mem one_tunnel) ''a'' t) (pl_Tunnels one_tunnel) = []"
    by (simp_all add: one_tunnel_def has_id_def id_of_def GetConfig_def NewProxyTunnel_def toy_config_def)
  show ?thesis using DelProxy_exact [OF one_tunnel_reach [of True] toy_maker_gl [of "''b''"], of "''a''"]
    unfolding h by auto
qed

subsection \<open>Ports of the pool\<close>

definition pool_ports :: "tunnel list \<Rightarrow> nat option list \<Rightarrow> int list" where
  "pool_ports mem ts = filter (\<lambda>p. p \<noteq> -1) (map (\<lambda>t. port_of (mem ! the t)) ts)"

definition ports_ok :: "pool \<Rightarrow> bool" where
  "ports_ok pl \<longleftrightarrow> distinct (pool_ports (pl_mem pl) (pl_Tunnels pl)) \<and>
     set (pool_ports (pl_mem pl) (pl_Tunnels pl)) \<subseteq> used_ports (pl_ports pl)"

lemma pool_ports_update [simp]:
  "pool_ports (mem[a := (mem ! a)\<lparr>pt_On := b\<rparr>]) ts = pool_ports mem ts"
  "pool_ports (mem[a := (mem ! a)\<lparr>pt_metrics := h\<rparr>]) ts = pool_ports mem ts"
  by (simp_all add: pool_ports_def)

lemma ports_ok_Start [simp]: "ports_ok (Start a pl) = ports_ok pl"
  by (simp add: ports_ok_def Start_def)

lemma ports_ok_added:
  assumes "pool_ok pl" "ports_ok pl" "added pl a pl'"
  shows "ports_ok pl'"
proof -
  obtain t where t: "pl_mem pl' = pl_mem pl @ [t]" "a = length (pl_mem pl)" "pl_Tunnels pl' = pl_Tunnels pl @ [Some a]"
    "used_ports (pl_ports pl) \<subseteq> used_ports (pl_ports pl')"
    "port_of t = -1 \<or> port_of t \<notin> used_ports (pl_ports pl) \<and> port_of t \<in> used_ports (pl_ports pl')"
    using assms(3) by (auto simp: added_def)
  have same: "map (\<lambda>t'. port_of ((pl_mem pl @ [t]) ! the t')) (pl_Tunnels pl) =
      map (\<lambda>t'. port_of (pl_mem pl ! the t')) (pl_Tunnels pl)"
    using assms(1) by (auto simp: pool_ok_def nth_append)
  have "pool_ports (pl_mem pl') (pl_Tunnels pl') =
      pool_ports (pl_mem pl) (pl_Tunnels pl) @ (if port_of t = -1 then [] else [port_of t])"
    by (simp add: pool_ports_def t same del: map_eq_conv)
  then show ?thesis using assms(2) t(4,5) unfolding ports_ok_def by auto
qed

lemma distinct_filter_map_inj:
  "distinct (filter P (map f xs)) \<Longrightarrow> x \<in> set xs \<Longrightarrow> y \<in> set xs \<Longrightarrow> f x = f y \<Longrightarrow> P (f x) \<Longrightarrow> x = y"
proof (induction xs)
  case (Cons a xs)
  have i: "f z \<in> set (filter P (map f xs))" if "z \<in> set xs" "f z = f x" for z
  proof -
    have "P (f z)" using that(2) Cons.prems(5) by simp
    with that(1) show ?thesis by simp
  qed
  have d: "distinct (filter P (map f xs))" "P (f a) \<Longrightarrow> f a \<notin> set (filter P (map f xs))"
    using Cons.prems(1) by (simp_all split: if_splits)
  consider "x = a" "y = a" | "x = a" "y \<in> set xs" | "x \<in> set xs" "y = a" | "x \<in> set xs" "y \<in> set xs"
    using Cons.prems(2,3) by auto
  then show ?case
  proof cases
    case 1
    then show ?thesis by simp
  next
    case 2
    then show ?thesis using i [of y] d(2) Cons.prems(4,5) by simp
  next
    case 3
    then show ?thesis using i [of x] d(2) Cons.prems(4,5) by simp
  next
    case 4
    then show ?thesis by (rule Cons.IH [OF d(1) _ _ Cons.prems(4,5)])
  qed
qed simp

lemma kept_ports:
  assumes "distinct (pool_ports mem ts)" "p \<in> set (pool_ports mem (filter (\<lambda>t. \<not> Q t) ts))" "Some a \<in> set ts" "Q (Some a)"
  shows "p \<noteq> port_of (mem ! a)"
proof
  assume e: "p = port_of (mem ! a)"
  obtain t where t: "t \<in> set ts" "\<not> Q t" "p = port_of (mem ! the t)" "p \<noteq> -1"
    using assms(2) by (auto simp: pool_ports_def)
  have "t = Some a"
    using assms(1) unfolding pool_ports_def
    by (rule distinct_filter_map_inj) (use t assms(3) e in auto)
  with t(2) assms(4) show False by simp
qed

lemma pool_ports_filter:
  "set (pool_ports mem (filter Q ts)) \<subseteq> set (pool_ports mem ts)"
  "distinct (pool_ports mem ts) \<Longrightarrow> distinct (pool_ports mem (filter Q ts))"
  by (induction ts) (auto simp: pool_ports_def)

lemma ports_ok_del:
  assumes "distinct (pool_ports mem ts)" "set (pool_ports mem ts) \<subseteq> U"
    "used = U - {p \<in> ports_at mem (filter Q ts). 0 < p}"
  shows "distinct (pool_ports mem (filter (\<lambda>t. \<not> Q t) ts))"
    "set (pool_ports mem (filter (\<lambda>t. \<not> Q t) ts)) \<subseteq> used"
proof -
  show "distinct (pool_ports mem (filter (\<lambda>t. \<not> Q t) ts))" by (rule pool_ports_filter(2) [OF assms(1)])
  show "set (pool_ports mem (filter (\<lambda>t. \<not> Q t) ts)) \<subseteq> used"
    using pool_ports_filter(1) [of mem "\<lambda>t. \<not> Q t" ts] assms(2) kept_ports [OF assms(1), of _ Q]
    unfolding assms(3) by (fastforce simp: ports_at_def)
qed

lemma tidy_step_ports:
  assumes ok: "pool_ok pl" "ports_ok pl" and M: "gs_list_ok (mk_gl M)"
    and tidy: "\<forall>a. op = ServerEnds a \<longrightarrow> Some a \<in> set (pl_Tunnels pl)"
    and step: "pool_step M op pl = Ret pl'"
  shows "ports_ok pl'"
proof (cases op)
  case (Get tps)
  then show ?thesis using proxy_get_cases [OF ok(1) M, of tps] ok ports_ok_added step
    by (auto split: if_splits)
next
  case ErrReport
  then show ?thesis using proxy_err_cases [OF ok(1), of M] ok ports_ok_added step by auto
next
  case (Del name)
  obtain b where d: "DelProxy M name pl = Ret (b, pl')" "pl_mem pl' = pl_mem pl"
    "pl_Tunnels pl' = filter (\<lambda>t. \<not> has_id (pl_mem pl) name t) (pl_Tunnels pl)"
    "used_ports (pl_ports pl') = used_ports (pl_ports pl) -
      {p \<in> ports_at (pl_mem pl) (filter (has_id (pl_mem pl) name) (pl_Tunnels pl)). 0 < p}"
    using DelProxy_ok [OF ok(1) M, of name] step by (auto simp: Del)
  show ?thesis using ports_ok_del [OF _ _ d(4)] ok(2) unfolding ports_ok_def d(2,3) by blast
next
  case (ServerEnds a)
  show ?thesis
  proof (cases "a \<in> set (pl_serving pl)")
    case True
    then have "a < length (pl_mem pl)" using ok by (simp add: pool_ok_def)
    note se = Server_end_DelProxy [OF ok(1) this, of M]
    let ?Q = "has_id (pl_mem pl) (id_of (pl_mem pl ! a))"
    obtain b where d: "DelProxy M (id_of (pl_mem pl ! a)) (server_off M a pl) = Ret (b, pl')"
      "pl_mem pl' = (pl_mem pl)[a := (pl_mem pl ! a)\<lparr>pt_On := False\<rparr>]"
      "pl_Tunnels pl' = filter (\<lambda>t. \<not> ?Q t) (pl_Tunnels pl)"
      "used_ports (pl_ports pl') = used_ports (pl_ports pl) - {q. q = port_of (pl_mem pl ! a) \<and> 0 < port_of (pl_mem pl ! a)} -
        {p \<in> ports_at (pl_mem pl) (filter ?Q (pl_Tunnels pl)). 0 < p}"
      using DelProxy_ok [OF se(2) M, of "id_of (pl_mem pl ! a)"] step True
      by (auto simp: ServerEnds se(1) server_off_def)
    have "port_of (pl_mem pl ! a) \<in> ports_at (pl_mem pl) (filter ?Q (pl_Tunnels pl))"
      using tidy ServerEnds by (auto simp: ports_at_def has_id_def)
    then have "used_ports (pl_ports pl') = used_ports (pl_ports pl) -
        {p \<in> ports_at (pl_mem pl) (filter ?Q (pl_Tunnels pl)). 0 < p}" using d(4) by auto
    note del = ports_ok_del [OF _ _ this]
    show ?thesis using del ok(2) unfolding ports_ok_def d(2,3) pool_ports_update by blast
  qed (use step ok in \<open>simp add: ServerEnds\<close>)
next
  case (Traffic a h)
  then show ?thesis using step ok(2) by (auto simp: ports_ok_def)
qed

lemma tidy_reach_ports: "pool_reach tidy pl \<Longrightarrow> tidy \<Longrightarrow> ports_ok pl"
proof (induction rule: pool_reach.induct)
  case (pool_start tidy ps)
  then show ?case by (simp add: ports_ok_def pool_ports_def empty_pool_def)
next
  case (pool_more tidy pl M op pl')
  then show ?case using tidy_step_ports [OF pool_reach_ok] by blast
qed

text \<open>
  As long as serving goroutines end only for tunnels that are still in the pool, two tunnels
  of the pool never have the same port.
\<close>

theorem tunnel_ports_distinct:
  assumes "pool_reach True pl" "Some a \<in> set (pl_Tunnels pl)" "Some b \<in> set (pl_Tunnels pl)" "a \<noteq> b"
    "port_of (pl_mem pl ! a) \<noteq> -1"
  shows "port_of (pl_mem pl ! a) \<noteq> port_of (pl_mem pl ! b)"
proof
  assume e: "port_of (pl_mem pl ! a) = port_of (pl_mem pl ! b)"
  have "distinct (pool_ports (pl_mem pl) (pl_Tunnels pl))"
    using tidy_reach_ports [OF assms(1)] by (simp add: ports_ok_def)
  from distinct_filter_map_inj [OF this [unfolded pool_ports_def] assms(2,3)] e assms(4,5)
  show False by simp
qed

theorem tunnel_ports_distinct_witness:
  "\<exists>pl. pool_step (toy_maker ''b'') ErrReport one_tunnel = Ret pl \<and>
     port_of (pl_mem pl ! 0) \<noteq> port_of (pl_mem pl ! 1)"
proof -
  obtain pl' where p: "proxy_err (toy_maker ''b'') one_tunnel = Ret (1, Start 1 pl')" "added one_tunnel 1 pl'"
    using proxy_err_cases [OF pool_reach_ok [OF one_tunnel_reach [of True]], of "toy_maker ''b''"]
    by (auto simp: added_def one_tunnel_def)
  then have step: "pool_step (toy_maker ''b'') ErrReport one_tunnel = Ret (Start 1 pl')" by simp
  have r: "pool_reach True (Start 1 pl')"
    by (rule pool_more [OF one_tunnel_reach toy_maker_gl _ _ step]) auto
  have "Some 0 \<in> set (pl_Tunnels (Start 1 pl'))" "Some 1 \<in> set (pl_Tunnels (Start 1 pl'))"
    "port_of (pl_mem (Start 1 pl') ! 0) = 20000"
    using p(2) by (auto simp: added_def one_tunnel_def Start_def port_of_def GetConfig_def NewProxyTunnel_def toy_config_def)
  then show ?thesis using tunnel_ports_distinct [OF r, of 0 1] step by auto
qed

subsection \<open>A port released twice\<close>

definition quic_tunnel :: "string \<Rightarrow> tunnel" where
  "quic_tunnel r = NewProxyTunnel (toy_config r 20000) 0"

lemma quic_tunnel_simps [simp]:
  "GetConfig (quic_tunnel r) = Some (toy_config r 20000)" "\<not> pt_On (quic_tunnel r)"
  "GetConfig (quic_tunnel r\<lparr>pt_On := b\<rparr>) = Some (toy_config r 20000)"
  "cf_ID (toy_config r p) = r" "cf_ServerPort (toy_config r p) = p" "cf_ProxyType (toy_config r p) = ''quic''"
  by (simp_all add: quic_tunnel_def GetConfig_def NewProxyTunnel_def toy_config_def)

definition kcp_config :: config where
  "kcp_config = zero_config\<lparr>cf_ServerPort := 20000, cf_Server := SrvStr ''0.0.0.0'', cf_ServerPassword := ''c'',
     cf_Password := ''c'', cf_SALT := ''c'', cf_Method := ''aes-256'', cf_EBUFLEN := 4096, cf_ID := ''c'',
     cf_ProxyType := ''kcp'', cf_Type := ''fast''\<rparr>"

definition retired :: pool where
  "retired = one_tunnel\<lparr>pl_Tunnels := [], pl_closed := [0],
     pl_ErrTypeCount := [(''tls'', 0), (''kcp'', 0), (''quic'', 1), (''ss'', 0)],
     pl_ports := \<lparr>used_ports = {}, ufw_log = [UfwAllow 20000, UfwDelete 20000]\<rparr>\<rparr>"

definition reissued :: pool where
  "reissued = retired\<lparr>pl_mem := [quic_tunnel ''a''\<lparr>pt_On := True\<rparr>, quic_tunnel ''b''\<lparr>pt_On := True\<rparr>],
     pl_Tunnels := [Some 1], pl_serving := [0, 1],
     pl_ports := \<lparr>used_ports = {20000}, ufw_log = [UfwAllow 20000, UfwDelete 20000, UfwAllow 20000]\<rparr>\<rparr>"

definition released_again :: pool where
  "released_again = reissued\<lparr>pl_mem := [quic_tunnel ''a'', quic_tunnel ''b''\<lparr>pt_On := True\<rparr>], pl_serving := [1],
     pl_ports := \<lparr>used_ports = {}, ufw_log = [UfwAllow 20000, UfwDelete 20000, UfwAllow 20000, UfwDelete 20000]\<rparr>\<rparr>"

definition shared :: pool where
  "shared = released_again\<lparr>pl_mem := [quic_tunnel ''a'', quic_tunnel ''b''\<lparr>pt_On := True\<rparr>,
       (NewProxyTunnel kcp_config 0)\<lparr>pt_On := True\<rparr>],
     pl_Tunnels := [Some 1, Some 2], pl_serving := [1, 2],
     pl_ports := \<lparr>used_ports = {20000}, ufw_log = [UfwAllow 20000, UfwDelete 20000, UfwAllow 20000,
       UfwDelete 20000, UfwAllow 20000]\<rparr>\<rparr>"

lemmas toy_simps = toy_maker_def gs_list_std_def ClosePortUFW_def ReleasePort_def

lemma retire_step: "pool_step (toy_maker ''x'') (Del ''a'') one_tunnel = Ret retired"
  by (simp add: DelProxy_def one_tunnel_def quic_tunnel_def [symmetric] toy_simps retired_def empty_pool_def)

lemma reissue_step: "pool_step (toy_maker ''b'') (Get []) retired = Ret reissued"
proof -
  have "add_new (toy_maker ''b'') ''quic'' retired = (1, retired\<lparr>
      pl_mem := [quic_tunnel ''a''\<lparr>pt_On := True\<rparr>, quic_tunnel ''b''],
      pl_Tunnels := [Some 1], pl_ports := \<lparr>used_ports = {20000}, ufw_log = [UfwAllow 20000, UfwDelete 20000, UfwAllow 20000]\<rparr>\<rparr>)"
    by (simp add: add_new_def retired_def one_tunnel_def toy_NewProxy AddProxy_def quic_tunnel_def)
  moreover have "gl_Count (mk_gl (toy_maker ''b'')) [] = 0" by (simp add: toy_simps)
  moreover have "pl_Tunnels retired = []" by (simp add: retired_def)
  ultimately show ?thesis
    by (simp add: proxy_get_def GetProxy_def Start_def) (simp add: reissued_def retired_def one_tunnel_def)
qed

lemma release_step: "pool_step (toy_maker ''x'') (ServerEnds 0) reissued = Ret released_again"
proof -
  have e: "quic_tunnel ''a''\<lparr>pt_On := False\<rparr> = quic_tunnel ''a''" by (simp add: quic_tunnel_def NewProxyTunnel_def)
  show ?thesis
    by (simp add: Server_end_def DelProxy_def reissued_def retired_def e toy_simps released_again_def)
qed

lemma share_step: "pool_step (toy_maker ''c'') (Get [''kcp'']) released_again = Ret shared"
proof -
  have k: "NewProxy (toy_maker ''c'') ''kcp'' (pl_ports released_again) = (NewProxyTunnel kcp_config 0,
      \<lparr>used_ports = {20000}, ufw_log = [UfwAllow 20000, UfwDelete 20000, UfwAllow 20000, UfwDelete 20000, UfwAllow 20000]\<rparr>)"
    by (simp add: NewProxy_def random_config_def RandomConfig_def GiveAPort_def give_loop.simps [of _ 20000]
        toy_maker_def NewKcpServer_def kcp_config_def OpenPortUFW_def released_again_def)
  have "add_new (toy_maker ''c'') ''kcp'' released_again = (2, released_again\<lparr>pl_mem :=
      [quic_tunnel ''a'', quic_tunnel ''b''\<lparr>pt_On := True\<rparr>, NewProxyTunnel kcp_config 0],
      pl_Tunnels := [Some 1, Some 2], pl_ports :=
      \<lparr>used_ports = {20000}, ufw_log = [UfwAllow 20000, UfwDelete 20000, UfwAllow 20000, UfwDelete 20000, UfwAllow 20000]\<rparr>\<rparr>)"
    unfolding add_new_def k by (simp add: AddProxy_def released_again_def reissued_def)
  moreover have "type_scan (pl_mem released_again) ''kcp'' (pl_Tunnels released_again) (None, -1) = Ret (None, -1)"
    by (simp add: released_again_def reissued_def)
  moreover have "\<not> pl_MaxTunnels released_again \<le> int (gl_Count (mk_gl (toy_maker ''c'')) (pl_Tunnels released_again))"
    by (simp add: released_again_def reissued_def retired_def one_tunnel_def empty_pool_def toy_simps)
  ultimately show ?thesis
    by (simp add: proxy_get_def GetProxy_def selectByType_def or_create_def Start_def)
      (simp add: shared_def released_again_def reissued_def)
qed

text \<open>
  In general two tunnels of the pool can get the same port: \<open>DelProxy\<close> releases the port of
  the tunnel it deletes, and the tunnel's own goroutine releases it again when its accept loop
  ends, by which time the port may belong to another tunnel.
\<close>

theorem retired_port_shared:
  "\<exists>pl a b. pool_reach False pl \<and> a \<noteq> b \<and> Some a \<in> set (pl_Tunnels pl) \<and> Some b \<in> set (pl_Tunnels pl) \<and>
    pt_On (pl_mem pl ! a) \<and> pt_On (pl_mem pl ! b) \<and>
    port_of (pl_mem pl ! a) = port_of (pl_mem pl ! b) \<and> port_of (pl_mem pl ! a) \<noteq> -1"
proof -
  have "pool_reach False retired"
    by (rule pool_more [OF one_tunnel_reach toy_maker_gl _ _ retire_step]) auto
  then have "pool_reach False reissued"
    by (rule pool_more [OF _ toy_maker_gl _ _ reissue_step]) auto
  then have "pool_reach False released_again"
    by (rule pool_more [OF _ toy_maker_gl _ _ release_step]) auto
  then have "pool_reach False shared"
    by (rule pool_more [OF _ toy_maker_gl _ _ share_step]) auto
  moreover have "GetConfig ((NewProxyTunnel kcp_config 0)\<lparr>pt_On := True\<rparr>) = Some kcp_config"
    by (simp add: GetConfig_def NewProxyTunnel_def)
  then have "port_of (pl_mem shared ! 1) = 20000" "port_of (pl_mem shared ! 2) = 20000"
    "pt_On (pl_mem shared ! 1)" "pt_On (pl_mem shared ! 2)" "pl_Tunnels shared = [Some 1, Some 2]"
    by (simp_all add: shared_def port_of_def kcp_config_def)
  ultimately show ?thesis by (intro exI [of _ shared] exI [of _ 1] exI [of _ 2]) simp
qed

end
