(* ===== verification/Server_Api.thy ===== *)
theory Server_Api
  imports Tunnel_Pool Base64
begin

text \<open>
  \<open>src/servercontroll/all_servers.go\<close>, with \<open>Recv\<close> and \<open>Reply\<close> of \<open>server.go\<close>,
  \<open>server_upload.go\<close> and \<open>test.go\<close>: the HTTP API of the server, one definition per handler, over
  the pool of \<open>Tunnel_Pool\<close>.  A handler returns the response it wrote and the new pool, or panics
  (net/http then drops the connection).  JSON values are what \<open>encoding/json\<close> decodes into an
  \<open>interface{}\<close>: every number is a float64.  JSON decoding, DNS, the reachability test, the output
  of \<open>ufw status\<close> and the year are parameters.
\<close>

subsection \<open>Requests and responses\<close>

datatype jval = JNull | JBool bool | JNum rat | JStr string | JArr "jval list"
  | JObj "(string \<times> jval) list"

type_synonym jdict = "(string \<times> jval) list"

record http_req =
  hr_auth :: string
  hr_body :: "goerr + string"

record tunnel_info =
  ti_type :: string
  ti_score :: rat
  ti_total :: int
  ti_active :: int
  ti_failed :: int
  ti_error_rate :: rat
  ti_load_factor :: rat
  ti_avg_latency :: int
  ti_max_conn :: int
  ti_is_healthy :: bool
  ti_accepts_new :: bool

record server_info =
  si_ids :: "string list"
  si_proxy :: "(string \<times> int) list"
  si_alive :: "(string \<times> int) list"
  si_client :: "string list"
  si_scores :: "(string \<times> tunnel_info) list"
  si_errorRates :: "(string \<times> rat) list"
  si_loadFactors :: "(string \<times> rat) list"

datatype msg = MStr string | MErr goerr | MConfig config | MBool bool | MIds "string list"
  | MDns "(string \<times> string) list" | MVal jval | MInfo server_info

record http_resp =
  hs_status :: int
  hs_replies :: "(msg \<times> bool) list"
  hs_challenge :: bool

definition no_resp :: http_resp where
  "no_resp = \<lparr>hs_status = 200, hs_replies = [], hs_challenge = False\<rparr>"

definition Reply :: "msg \<Rightarrow> bool \<Rightarrow> http_resp \<Rightarrow> http_resp" where
  "Reply m status r = r\<lparr>hs_replies := hs_replies r @ [(m, status)]\<rparr>"

definition WriteHeader :: "int \<Rightarrow> http_resp \<Rightarrow> http_resp" where
  "WriteHeader code r = r\<lparr>hs_status := code\<rparr>"

record api_env =
  ae_M :: maker
  ae_G :: gslib
  ae_year :: int
  ae_unmarshal :: "string \<Rightarrow> jdict option \<times> goerr option"
  ae_lookup :: "string \<Rightarrow> ip list \<times> goerr option"
  ae_reach :: "string \<Rightarrow> bool"
  ae_ufw :: "string list"
  ae_ips :: "nat \<Rightarrow> string list"

text \<open>The body decoded into a dictionary; None is the nil map.\<close>

definition Recv :: "api_env \<Rightarrow> goerr + string \<Rightarrow> jdict option \<times> goerr option" where
  "Recv E body =
     (case body of
        Inl e \<Rightarrow> if e = EOF then (None, None) else (None, Some e)
      | Inr buf \<Rightarrow> if buf = [] then (None, None) else ae_unmarshal E buf)"

definition dict_get :: "jdict option \<Rightarrow> string \<Rightarrow> jval option" where
  "dict_get d k = (case d of None \<Rightarrow> None | Some m \<Rightarrow> map_of m k)"

type_synonym handler = "http_req \<Rightarrow> pool \<Rightarrow> (http_resp \<times> pool) go"

definition unauthorized :: http_resp where
  "unauthorized = \<lparr>hs_status = 401, hs_replies = [(MStr ''Unauthorized'', False)], hs_challenge = True\<rparr>"

definition basicAuth :: "api_env \<Rightarrow> handler \<Rightarrow> handler" where
  "basicAuth E nxt rq pl =
     (if hr_auth rq = [] then Ret (unauthorized, pl)
      else case splitn2 CHR '' '' (hr_auth rq) of
        [scheme, token] \<Rightarrow>
          if scheme \<noteq> ''Basic'' then Ret (unauthorized, pl)
          else (case b64_decode token of
            None \<Rightarrow> Ret (unauthorized, pl)
          | Some decoded \<Rightarrow>
              (case splitn2 CHR '':'' decoded of
                 [user, pass] \<Rightarrow>
                   if user \<noteq> ''admin@example.com'' \<or> pass \<noteq> itoa (ae_year E) @ ''@2pwd''
                   then Ret (unauthorized, pl) else nxt rq pl
               | _ \<Rightarrow> Ret (unauthorized, pl)))
      | _ \<Rightarrow> Ret (unauthorized, pl))"

subsection \<open>Handlers that do not touch the tunnels\<close>

definition z_info :: "api_env \<Rightarrow> handler" where
  "z_info E rq pl =
     (case Recv E (hr_body rq) of (d, err) \<Rightarrow>
       let r = (case err of None \<Rightarrow> no_resp | Some e \<Rightarrow> Reply (MErr e) False (WriteHeader 400 no_resp)) in
       Ret (if d = None then Reply (MStr ''alive'') True r else r, pl))"

fun as_string :: "jval \<Rightarrow> string go" where
  "as_string (JStr s) = Ret s"
| "as_string _ = Panic"

definition z_set :: "api_env \<Rightarrow> handler" where
  "z_set E rq pl =
     (case Recv E (hr_body rq) of
        (_, Some e) \<Rightarrow> Ret (Reply (MErr e) False (WriteHeader 400 no_resp), pl)
      | (None, None) \<Rightarrow> Ret (Reply (MStr ''no val'') False no_resp, pl)
      | (d, None) \<Rightarrow>
          (case (dict_get d ''name'', dict_get d ''val'') of
             (Some name, Some val) \<Rightarrow>
               go_bind (as_string val) (\<lambda>_. go_bind (as_string name) (\<lambda>_.
                 Ret (Reply (MStr ''Good '') True no_resp, pl)))
           | _ \<Rightarrow> Ret (no_resp, pl)))"

fun dns_ips :: "string \<Rightarrow> ip list \<Rightarrow> (string \<times> string) list \<Rightarrow> (string \<times> string) list" where
  "dns_ips host [] res = res"
| "dns_ips host (ip # ips) res =
     dns_ips host ips (if to4 ip \<noteq> None then AList.update (ip_str ip) host res else res)"

fun dns_hosts :: "api_env \<Rightarrow> string list \<Rightarrow> (string \<times> string) list \<Rightarrow> (string \<times> string) list" where
  "dns_hosts E [] res = res"
| "dns_hosts E (host # hosts) res =
     (case ae_lookup E host of
        (ips, None) \<Rightarrow> dns_hosts E hosts (dns_ips host ips res)
      | (_, Some _) \<Rightarrow> dns_hosts E hosts res)"

definition z_dns :: "api_env \<Rightarrow> handler" where
  "z_dns E rq pl =
     (case Recv E (hr_body rq) of
        (_, Some e) \<Rightarrow> Ret (Reply (MErr e) False no_resp, pl)
      | (d, None) \<Rightarrow>
          (case dict_get d ''hosts'' of
             None \<Rightarrow> Ret (Reply (MStr ''no dns'') False no_resp, pl)
           | Some h \<Rightarrow> go_bind (as_string h) (\<lambda>hosts.
               Ret (Reply (MDns (dns_hosts E (gs_Split (ae_G E) hosts '','') [])) True no_resp, pl))))"

subsection \<open>The firewall\<close>

definition z_ufw_close_all :: "api_env \<Rightarrow> handler" where
  "z_ufw_close_all E rq pl =
     go_bind (CloseALLPortUFW (ae_G E) (mk_goos (ae_M E)) (ae_ufw E) (pl_ports pl)) (\<lambda>ps.
       Ret (Reply (MStr (GetUFW (ae_G E) (ae_ufw E))) True no_resp, pl\<lparr>pl_ports := ps\<rparr>))"

text \<open>Closing every port of a list of decimal numbers; what is not a number is skipped.\<close>

fun close_ports :: "api_env \<Rightarrow> string list \<Rightarrow> ports \<Rightarrow> ports" where
  "close_ports E [] ps = ps"
| "close_ports E (i # is) ps =
     close_ports E is (case atoi (gs_Trim (ae_G E) i) of (n, err) \<Rightarrow>
       if err then ps else ClosePortUFW (mk_goos (ae_M E)) n ps)"

definition close_string :: "api_env \<Rightarrow> string \<Rightarrow> ports \<Rightarrow> ports" where
  "close_string E port ps =
     (let ps1 = (if gs_In (ae_G E) port [CHR 0x0A] then close_ports E (gs_Split (ae_G E) port [CHR 0x0A]) ps
                 else if gs_In (ae_G E) port '','' then close_ports E (gs_Split (ae_G E) port '','') ps
                 else ps) in
      case atoi port of (i, err) \<Rightarrow> if err then ps1 else ClosePortUFW (mk_goos (ae_M E)) i ps1)"

text \<open>
  The type switch on \<open>port\<close> has the cases \<open>int\<close> and \<open>string\<close>; decoded JSON never holds an \<open>int\<close>.
\<close>

definition z_ufw :: "api_env \<Rightarrow> handler" where
  "z_ufw E rq pl =
     (case Recv E (hr_body rq) of
        (_, Some e) \<Rightarrow> Ret (Reply (MErr e) False no_resp, pl)
      | (None, None) \<Rightarrow> Ret (Reply (MStr (GetUFW (ae_G E) (ae_ufw E))) True no_resp, pl)
      | (d, None) \<Rightarrow>
          Ret (Reply (MStr (GetUFW (ae_G E) (ae_ufw E))) True no_resp,
            case dict_get d ''port'' of
              Some (JStr port) \<Rightarrow> pl\<lparr>pl_ports := close_string E port (pl_ports pl)\<rparr>
            | _ \<Rightarrow> pl))"

subsection \<open>Handlers over the tunnels\<close>

definition reply_config :: "nat \<Rightarrow> pool \<Rightarrow> (http_resp \<times> pool) go" where
  "reply_config a pl = (case GetConfig (pl_mem pl ! a) of
     None \<Rightarrow> Panic | Some c \<Rightarrow> Ret (Reply (MConfig c) True no_resp, pl))"

definition proxy_get_handler :: "api_env \<Rightarrow> handler" where
  "proxy_get_handler E rq pl =
     (case Recv E (hr_body rq) of
        (_, Some e) \<Rightarrow> Ret (Reply (MErr e) False no_resp, pl)
      | (d, None) \<Rightarrow>
          go_bind (proxy_get (ae_M E) (case dict_get d ''type'' of Some (JStr tp) \<Rightarrow> [tp] | _ \<Rightarrow> []) pl)
            (\<lambda>(a, pl'). reply_config a pl'))"

fun all_strings :: "jval list \<Rightarrow> string list go" where
  "all_strings [] = Ret []"
| "all_strings (v # vs) = go_bind (as_string v) (\<lambda>s. go_bind (all_strings vs) (\<lambda>ss. Ret (s # ss)))"

text \<open>Does the report name hosts that can all be reached?\<close>

fun reachable_report :: "api_env \<Rightarrow> jval option \<Rightarrow> bool go" where
  "reachable_report E (Some (JArr hosts)) =
     go_bind (all_strings hosts) (\<lambda>hs. Ret (list_all (ae_reach E) hs))"
| "reachable_report E (Some (JStr h)) = Ret (ae_reach E h)"
| "reachable_report E _ = Ret False"

definition delete_reported :: "api_env \<Rightarrow> jval option \<Rightarrow> pool \<Rightarrow> pool go" where
  "delete_reported E rid pl =
     (case rid of
        None \<Rightarrow> Ret pl
      | Some v \<Rightarrow>
          if v = JNull then Ret pl
          else go_bind (as_string v) (\<lambda>name. go_bind (DelProxy (ae_M E) name pl) (\<lambda>(_, pl'). Ret pl')))"

definition proxy_err_handler :: "api_env \<Rightarrow> handler" where
  "proxy_err_handler E rq pl =
     (case Recv E (hr_body rq) of (d, err) \<Rightarrow>
       let r = (case err of None \<Rightarrow> no_resp | Some e \<Rightarrow> Reply (MErr e) False (WriteHeader 400 no_resp)) in
       go_bind (reachable_report E (dict_get d ''Host'')) (\<lambda>fine.
         if fine then Ret (Reply (MVal (the (dict_get d ''Host''))) False r, pl)
         else
           go_bind (delete_reported E (dict_get d ''ID'') pl) (\<lambda>pl1.
           go_bind (proxy_err (ae_M E) pl1) (\<lambda>(a, pl2).
             case GetConfig (pl_mem pl2 ! a) of
               None \<Rightarrow> Panic | Some c \<Rightarrow> Ret (Reply (MConfig c) True r, pl2)))))"

text \<open>\<open>/proxy-new\<close> makes a tunnel that it neither adds to the pool nor starts.\<close>

definition proxy_new_handler :: "api_env \<Rightarrow> handler" where
  "proxy_new_handler E rq pl =
     (case NewProxy (ae_M E) ''tls'' (pl_ports pl) of (t, ps) \<Rightarrow>
       reply_config (length (pl_mem pl)) (pl\<lparr>pl_mem := pl_mem pl @ [t], pl_ports := ps\<rparr>))"

definition proxy_del_handler :: "api_env \<Rightarrow> handler" where
  "proxy_del_handler E rq pl =
     (case Recv E (hr_body rq) of (d, err) \<Rightarrow>
       let r = (case err of None \<Rightarrow> no_resp | Some e \<Rightarrow> Reply (MErr e) False (WriteHeader 400 no_resp)) in
       case dict_get d ''msg'' of
         None \<Rightarrow> Panic
       | Some v \<Rightarrow> go_bind (as_string v) (\<lambda>name. go_bind (DelProxy (ae_M E) name pl) (\<lambda>(found, pl').
           Ret (Reply (MBool found) True r, pl'))))"

fun all_ids :: "tunnel list \<Rightarrow> nat option list \<Rightarrow> string list go" where
  "all_ids mem [] = Ret []"
| "all_ids mem (None # ts) = Panic"
| "all_ids mem (Some a # ts) =
     (case GetConfig (mem ! a) of
        None \<Rightarrow> Panic | Some c \<Rightarrow> go_bind (all_ids mem ts) (\<lambda>ids. Ret (cf_ID c # ids)))"

fun del_all :: "maker \<Rightarrow> string list \<Rightarrow> pool \<Rightarrow> pool go" where
  "del_all M [] pl = Ret pl"
| "del_all M (i # is) pl = go_bind (DelProxy M i pl) (\<lambda>(_, pl'). del_all M is pl')"

definition close_all_handler :: "api_env \<Rightarrow> handler" where
  "close_all_handler E rq pl =
     go_bind (all_ids (pl_mem pl) (pl_Tunnels pl)) (\<lambda>ids. go_bind (del_all (ae_M E) ids pl) (\<lambda>pl'.
       Ret (Reply (MIds ids) True no_resp, pl')))"

definition update_handler :: "api_env \<Rightarrow> handler" where
  "update_handler E rq pl =
     go_bind (all_ids (pl_mem pl) (pl_Tunnels pl)) (\<lambda>ids. go_bind (del_all (ae_M E) ids pl) (\<lambda>pl'.
       Ret (Reply (MStr ''updaing... wait 3 s'') True no_resp, pl')))"

subsection \<open>Cleaning up\<close>

definition IdleTunnelThreshold :: int where
  "IdleTunnelThreshold = 3600 * 1000000000"

fun CollectIdleTunnelIDs :: "int \<Rightarrow> tunnel list \<Rightarrow> nat option list \<Rightarrow> string list go" where
  "CollectIdleTunnelIDs now mem [] = Ret []"
| "CollectIdleTunnelIDs now mem (None # ts) = CollectIdleTunnelIDs now mem ts"
| "CollectIdleTunnelIDs now mem (Some a # ts) =
     (if GetClientNum (mem ! a) = 0 \<and> IdleTunnelThreshold < now - LastActive (mem ! a)
      then (case GetConfig (mem ! a) of
              None \<Rightarrow> Panic
            | Some c \<Rightarrow> go_bind (CollectIdleTunnelIDs now mem ts) (\<lambda>ids. Ret (cf_ID c # ids)))
      else CollectIdleTunnelIDs now mem ts)"

text \<open>One round of the half-hourly goroutine of \<open>setupHandler\<close>.\<close>

definition clean_round :: "maker \<Rightarrow> int \<Rightarrow> int \<Rightarrow> pool \<Rightarrow> pool go" where
  "clean_round M hour now pl =
     (if hour = 0
      then go_bind (CollectIdleTunnelIDs now (pl_mem pl) (pl_Tunnels pl)) (\<lambda>ids. del_all M ids pl)
      else Ret pl)"

subsection \<open>The overview\<close>

text \<open>
  \<open>/proxy-info\<close>: one pass over the tunnels, then the averages by type.  The order of the keys of
  the JSON object is not kept.
\<close>

definition type_counts :: "(string \<times> int) list" where
  "type_counts = [(''tls'', 0), (''quic'', 0), (''kcp'', 0), (''ss'', 0)]"

definition count_up :: "string \<Rightarrow> int \<Rightarrow> (string \<times> int) list \<Rightarrow> (string \<times> int) list" where
  "count_up k n m = AList.update k ((case map_of m k of None \<Rightarrow> 0 | Some c \<Rightarrow> c) + n) m"

definition rate_up :: "string \<Rightarrow> rat \<Rightarrow> (string \<times> rat) list \<Rightarrow> (string \<times> rat) list" where
  "rate_up k x m = AList.update k ((case map_of m k of None \<Rightarrow> 0 | Some c \<Rightarrow> c) + x) m"

definition add_client :: "string list \<Rightarrow> string \<Rightarrow> string list" where
  "add_client cs ip = (if ip \<in> set cs then cs else cs @ [ip])"

definition tunnel_info_of :: "tunnel \<Rightarrow> config \<Rightarrow> tunnel_info" where
  "tunnel_info_of t c = (case GetStats (pt_metrics t) of (tot, active, failed, _, avgLatency) \<Rightarrow>
     \<lparr>ti_type = cf_ProxyType c, ti_score = GetScore t, ti_total = tot, ti_active = active, ti_failed = failed,
      ti_error_rate = GetErrorRate (pt_metrics t), ti_load_factor = GetLoadFactor (pt_metrics t),
      ti_avg_latency = go_div avgLatency 1000000, ti_max_conn = GetMaxConnections (pt_metrics t),
      ti_is_healthy = tun_IsHealthy t, ti_accepts_new = tun_Accepts t\<rparr>)"

definition info_of :: "api_env \<Rightarrow> nat \<Rightarrow> tunnel \<Rightarrow> config \<Rightarrow> server_info \<Rightarrow> server_info" where
  "info_of E a t c si =
     (let tp = cf_ProxyType c;
          si1 = si\<lparr>si_proxy := count_up tp 1 (si_proxy si), si_alive := count_up tp (GetClientNum t) (si_alive si)\<rparr>;
          si2 = (if pt_metrics t = None then si1 else
            si1\<lparr>si_scores := AList.update (cf_ID c) (tunnel_info_of t c) (si_scores si1),
                si_errorRates := rate_up tp (GetErrorRate (pt_metrics t)) (si_errorRates si1),
                si_loadFactors := rate_up tp (GetLoadFactor (pt_metrics t)) (si_loadFactors si1)\<rparr>)
      in si2\<lparr>si_client := foldl add_client (si_client si2) (ae_ips E a), si_ids := si_ids si2 @ [cf_ID c]\<rparr>)"

fun info_scan :: "api_env \<Rightarrow> tunnel list \<Rightarrow> nat option list \<Rightarrow> server_info \<Rightarrow> server_info go" where
  "info_scan E mem [] si = Ret si"
| "info_scan E mem (None # ts) si = Panic"
| "info_scan E mem (Some a # ts) si =
     (case GetConfig (mem ! a) of
        None \<Rightarrow> Panic | Some c \<Rightarrow> info_scan E mem ts (info_of E a (mem ! a) c si))"

definition average :: "(string \<times> int) list \<Rightarrow> (string \<times> rat) list \<Rightarrow> (string \<times> rat) list" where
  "average counts m = map (\<lambda>(k, x). (k, case map_of counts k of
     None \<Rightarrow> x | Some n \<Rightarrow> if 0 < n then x / of_int n else x)) m"

definition proxy_info_handler :: "api_env \<Rightarrow> handler" where
  "proxy_info_handler E rq pl =
     go_bind (info_scan E (pl_mem pl) (pl_Tunnels pl)
         \<lparr>si_ids = [], si_proxy = type_counts, si_alive = type_counts, si_client = [], si_scores = [],
          si_errorRates = [], si_loadFactors = []\<rparr>)
       (\<lambda>si. Ret (Reply (MInfo (si\<lparr>si_errorRates := average (si_proxy si) (si_errorRates si),
          si_loadFactors := average (si_proxy si) (si_loadFactors si)\<rparr>)) True no_resp, pl))"

subsection \<open>Routing\<close>

text \<open>
  The handlers by path.  Uploads, downloads and the log files are not part of the table; the
  periodic cleaning is separate.
\<close>

definition route :: "api_env \<Rightarrow> string \<Rightarrow> handler option" where
  "route E path = map_of
     [(''/z-info'', z_info E), (''/z-set'', z_set E), (''/proxy-info'', proxy_info_handler E),
      (''/z-dns'', z_dns E), (''/z-ufw-close-all'', z_ufw_close_all E), (''/z-ufw'', z_ufw E),
      (''/proxy-get'', proxy_get_handler E), (''/__close-all'', close_all_handler E),
      (''/z11-update'', update_handler E), (''/proxy-err'', proxy_err_handler E),
      (''/proxy-new'', proxy_new_handler E), (''/proxy-del'', proxy_del_handler E)] path"

definition serve :: "api_env \<Rightarrow> string \<Rightarrow> http_req \<Rightarrow> pool \<Rightarrow> (http_resp \<times> pool) go" where
  "serve E path rq pl = (case route E path of
     None \<Rightarrow> Ret (WriteHeader 404 no_resp, pl) | Some h \<Rightarrow> basicAuth E h rq pl)"

subsection \<open>Authentication\<close>

lemma splitn2_eq: "splitn2 c s = [a, b] \<longleftrightarrow> c \<notin> set a \<and> s = a @ c # b"
proof
  assume h: "splitn2 c s = [a, b]"
  then have "c \<in> set s" "a = takeWhile (\<lambda>x. x \<noteq> c) s" "b = tl (dropWhile (\<lambda>x. x \<noteq> c) s)"
    by (auto simp: splitn2_def split: if_splits)
  moreover from this(1) have "dropWhile (\<lambda>x. x \<noteq> c) s = c # tl (dropWhile (\<lambda>x. x \<noteq> c) s)"
    by (induction s) auto
  ultimately show "c \<notin> set a \<and> s = a @ c # b"
    using takeWhile_dropWhile_id [of "\<lambda>x. x \<noteq> c" s] by (auto dest: set_takeWhileD)
next
  assume "c \<notin> set a \<and> s = a @ c # b"
  then show "splitn2 c s = [a, b]" by (simp add: splitn2_append)
qed

text \<open>
  C16. A handler runs exactly for requests whose \<open>Authorization\<close> header is \<open>Basic\<close> followed by the
  base64 text of the user and this year's password; every other request is answered 401 with a
  challenge, and changes nothing.
\<close>

theorem basicAuth_exact:
  "basicAuth E nxt rq pl =
    (if \<exists>token. hr_auth rq = ''Basic '' @ token \<and>
        b64_decode token = Some (''admin@example.com:'' @ itoa (ae_year E) @ ''@2pwd'')
     then nxt rq pl else Ret (unauthorized, pl))"
proof (cases "\<exists>token. hr_auth rq = ''Basic '' @ token")
  case False
  then have "hr_auth rq \<noteq> ''Basic'' @ CHR '' '' # token" for token by auto
  then have "splitn2 CHR '' '' (hr_auth rq) \<noteq> [''Basic'', token]" for token unfolding splitn2_eq by blast
  then have "basicAuth E nxt rq pl = Ret (unauthorized, pl)"
    by (auto simp: basicAuth_def split: list.splits)
  with False show ?thesis by auto
next
  case True
  then obtain token where t: "hr_auth rq = ''Basic'' @ CHR '' '' # token" by auto
  have s: "splitn2 CHR '' '' (hr_auth rq) = [''Basic'', token]" unfolding splitn2_eq using t by simp
  let ?pw = "itoa (ae_year E) @ ''@2pwd''"
  have ne: "hr_auth rq \<noteq> []" using t by simp
  have dec: "(case splitn2 CHR '':'' decoded of [user, pass] \<Rightarrow>
        if user \<noteq> ''admin@example.com'' \<or> pass \<noteq> ?pw then Ret (unauthorized, pl) else nxt rq pl
      | _ \<Rightarrow> Ret (unauthorized, pl)) =
      (if decoded = ''admin@example.com:'' @ ?pw then nxt rq pl else Ret (unauthorized, pl))" for decoded
  proof (cases "decoded = ''admin@example.com:'' @ ?pw")
    case True
    then have "splitn2 CHR '':'' decoded = [''admin@example.com'', ?pw]" unfolding splitn2_eq by simp
    then show ?thesis using True by simp
  next
    case False
    then have "splitn2 CHR '':'' decoded \<noteq> [''admin@example.com'', ?pw]" unfolding splitn2_eq by simp
    with False show ?thesis by (auto split: list.splits)
  qed
  have "basicAuth E nxt rq pl = (case b64_decode token of None \<Rightarrow> Ret (unauthorized, pl)
      | Some decoded \<Rightarrow> if decoded = ''admin@example.com:'' @ ?pw then nxt rq pl else Ret (unauthorized, pl))"
    unfolding basicAuth_def s using ne by (simp only: dec list.case if_False simp_thms)
  then show ?thesis by (auto simp: t split: option.splits)
qed

text \<open>The header a request needs: the server's fixed user, and the year in the password.\<close>

definition credentials :: "api_env \<Rightarrow> string" where
  "credentials S = ''Basic '' @ b64_encode (''admin@example.com'' @ CHR '':'' # (itoa (ae_year S) @ ''@2pwd''))"

lemma credentials_pass: "hr_auth rq = credentials S \<Longrightarrow> basicAuth S h rq pl = h rq pl"
proof -
  assume a: "hr_auth rq = credentials S"
  let ?t = "b64_encode (''admin@example.com'' @ CHR '':'' # (itoa (ae_year S) @ ''@2pwd''))"
  have "splitn2 CHR '' '' (''Basic'' @ CHR '' '' # ?t) = [''Basic'', ?t]" by (rule splitn2_append) simp
  then have "splitn2 CHR '' '' (hr_auth rq) = [''Basic'', ?t]"
    by (simp add: a credentials_def del: b64_encode.simps)
  moreover have "splitn2 CHR '':'' (''admin@example.com'' @ CHR '':'' # (itoa (ae_year S) @ ''@2pwd'')) =
      [''admin@example.com'', itoa (ae_year S) @ ''@2pwd'']"
    by (rule splitn2_append) simp
  moreover have "hr_auth rq \<noteq> []" by (simp add: a credentials_def)
  ultimately show ?thesis by (simp add: basicAuth_def b64_decode_encode del: b64_encode.simps)
qed

subsection \<open>Requests and the pool\<close>

lemma del_all_ok:
  assumes "pool_ok pl" "gs_list_ok (mk_gl M)"
  shows "\<exists>pl'. del_all M ids pl = Ret pl' \<and> pool_ok pl' \<and> pl_mem pl' = pl_mem pl \<and>
    pl_Tunnels pl' = filter (\<lambda>t. \<forall>i \<in> set ids. \<not> has_id (pl_mem pl) i t) (pl_Tunnels pl)"
  using assms(1)
proof (induction ids arbitrary: pl)
  case (Cons i ids)
  obtain b pl1 where d: "DelProxy M i pl = Ret (b, pl1)" "pool_ok pl1" "pl_mem pl1 = pl_mem pl"
    "pl_Tunnels pl1 = filter (\<lambda>t. \<not> has_id (pl_mem pl) i t) (pl_Tunnels pl)"
    using DelProxy_ok [OF Cons.prems assms(2), of i] by blast
  from Cons.IH [OF d(2)] show ?case using d by (auto simp: conj_commute intro!: filter_cong)
qed simp

lemma ids_Cons:
  "{f a | a. Some a \<in> set (Some b # ts) \<and> P a} = (if P b then {f b} else {}) \<union> {f a | a. Some a \<in> set ts \<and> P a}"
  by auto

lemma all_ids_total:
  assumes "\<forall>t \<in> set ts. addr_ok mem t"
  shows "\<exists>ids. all_ids mem ts = Ret ids"
  using assms
proof (induction ts)
  case (Cons t ts)
  obtain a c where "t = Some a" "GetConfig (mem ! a) = Some c"
    using Cons.prems tun_ok_config by (fastforce simp: addr_ok_def)
  with Cons show ?case by auto
qed simp

definition idle_at :: "int \<Rightarrow> tunnel \<Rightarrow> bool" where
  "idle_at now t \<longleftrightarrow> GetClientNum t = 0 \<and> IdleTunnelThreshold < now - LastActive t"

lemma CollectIdle_spec:
  assumes "\<forall>t \<in> set ts. addr_ok mem t"
  shows "\<exists>ids. CollectIdleTunnelIDs now mem ts = Ret ids \<and>
    set ids = {id_of (mem ! a) | a. Some a \<in> set ts \<and> idle_at now (mem ! a)}"
  using assms
proof (induction ts)
  case (Cons t ts)
  obtain a c where t: "t = Some a" "GetConfig (mem ! a) = Some c"
    using Cons.prems tun_ok_config by (fastforce simp: addr_ok_def)
  obtain ids where i: "CollectIdleTunnelIDs now mem ts = Ret ids"
    "set ids = {id_of (mem ! a) | a. Some a \<in> set ts \<and> idle_at now (mem ! a)}" using Cons by auto
  have "id_of (mem ! a) = cf_ID c" using t(2) by (simp add: id_of_def)
  then show ?case using i t(2) unfolding t(1) ids_Cons by (simp add: idle_at_def)
qed simp

text \<open>
  C38. The cleaning at midnight removes exactly the tunnels whose id is that of a tunnel without
  clients and without activity for more than an hour, and leaves the pool consistent.
\<close>

theorem midnight_cleanup:
  assumes "pool_ok pl" "gs_list_ok (mk_gl M)"
  shows "\<exists>pl'. clean_round M 0 now pl = Ret pl' \<and> pool_ok pl' \<and>
    (\<forall>a. Some a \<in> set (pl_Tunnels pl') \<longleftrightarrow> Some a \<in> set (pl_Tunnels pl) \<and>
      \<not> (\<exists>b. Some b \<in> set (pl_Tunnels pl) \<and> idle_at now (pl_mem pl ! b) \<and>
          id_of (pl_mem pl ! b) = id_of (pl_mem pl ! a)))"
proof -
  obtain ids where i: "CollectIdleTunnelIDs now (pl_mem pl) (pl_Tunnels pl) = Ret ids"
    "set ids = {id_of (pl_mem pl ! a) | a. Some a \<in> set (pl_Tunnels pl) \<and> idle_at now (pl_mem pl ! a)}"
    using CollectIdle_spec [OF pool_addrs [OF assms(1)]] by blast
  obtain pl' where d: "del_all M ids pl = Ret pl'" "pool_ok pl'"
    "pl_Tunnels pl' = filter (\<lambda>t. \<forall>i \<in> set ids. \<not> has_id (pl_mem pl) i t) (pl_Tunnels pl)"
    using del_all_ok [OF assms] by blast
  have "(\<forall>i \<in> set ids. \<not> has_id (pl_mem pl) i (Some a)) \<longleftrightarrow>
      \<not> (\<exists>b. Some b \<in> set (pl_Tunnels pl) \<and> idle_at now (pl_mem pl ! b) \<and>
          id_of (pl_mem pl ! b) = id_of (pl_mem pl ! a))" for a
    unfolding i(2) has_id_def by auto
  then show ?thesis using i(1) d by (auto simp: clean_round_def)
qed

lemma pool_ok_append:
  "pool_ok pl \<Longrightarrow> tun_ok t \<Longrightarrow> \<not> pt_On t \<Longrightarrow> pool_ok (pl\<lparr>pl_mem := pl_mem pl @ [t], pl_ports := ps\<rparr>)"
  by (fastforce simp: pool_ok_def less_Suc_eq nth_append)

lemma proxy_get_ok:
  assumes "pool_ok pl" "gs_list_ok (mk_gl M)"
  shows "\<exists>a pl'. proxy_get M tps pl = Ret (a, pl') \<and> pool_ok pl' \<and> Some a \<in> set (pl_Tunnels pl') \<and>
    pt_On (pl_mem pl' ! a)"
proof -
  obtain a pl1 pl' where g: "proxy_get M tps pl = Ret (a, pl')"
    "pl1 = pl \<and> Some a \<in> set (pl_Tunnels pl) \<or> added pl a pl1"
    "pl' = (if pt_On (pl_mem pl1 ! a) then pl1 else Start a pl1)"
    using proxy_get_cases [OF assms, of tps] by blast
  have ok1: "pool_ok pl1" "Some a \<in> set (pl_Tunnels pl1)"
    using g(2) assms(1) pool_ok_added by (auto simp: added_def)
  then have "a < length (pl_mem pl1)" by (auto simp: pool_ok_def)
  then show ?thesis using g ok1 pool_ok_Start by (auto simp: Start_def)
qed

lemma proxy_err_ok:
  assumes "pool_ok pl"
  shows "\<exists>a pl'. proxy_err M pl = Ret (a, pl') \<and> pool_ok pl' \<and> Some a \<in> set (pl_Tunnels pl') \<and>
    pt_On (pl_mem pl' ! a)"
proof -
  obtain a pl1 where g: "proxy_err M pl = Ret (a, Start a pl1)" "added pl a pl1"
    using proxy_err_cases [OF assms] by blast
  then have "pool_ok pl1" "Some a \<in> set (pl_Tunnels pl1)" "\<not> pt_On (pl_mem pl1 ! a)" "a < length (pl_mem pl1)"
    using assms pool_ok_added by (auto simp: added_def)
  then show ?thesis using g pool_ok_Start by (auto simp: Start_def)
qed

text \<open>
  Asked for a tunnel with any body that decodes, the server answers with the configuration of
  a tunnel that is in the pool and running; it never panics, and the pool stays consistent.
\<close>

theorem proxy_get_reply:
  assumes "pool_ok pl" "gs_list_ok (mk_gl (ae_M E))" "Recv E (hr_body rq) = (d, None)"
  shows "\<exists>a c pl'. proxy_get_handler E rq pl = Ret (Reply (MConfig c) True no_resp, pl') \<and> pool_ok pl' \<and>
    Some a \<in> set (pl_Tunnels pl') \<and> pt_On (pl_mem pl' ! a) \<and> GetConfig (pl_mem pl' ! a) = Some c"
proof -
  obtain a pl' where g: "proxy_get (ae_M E) (case dict_get d ''type'' of Some (JStr tp) \<Rightarrow> [tp] | _ \<Rightarrow> []) pl = Ret (a, pl')"
    "pool_ok pl'" "Some a \<in> set (pl_Tunnels pl')" "pt_On (pl_mem pl' ! a)"
    using proxy_get_ok [OF assms(1,2)] by blast
  have "a < length (pl_mem pl')" using g(2,3) by (auto simp: pool_ok_def)
  then obtain c where "GetConfig (pl_mem pl' ! a) = Some c" using pool_ok_tunnels [OF g(2)] tun_ok_config by blast
  with g show ?thesis by (auto simp: proxy_get_handler_def assms(3) reply_config_def)
qed

text \<open>
  C7. Whatever request the server answers, its pool stays consistent: every address in it is a
  tunnel with a protocol and counters, none twice, and exactly the running ones are served.
\<close>

theorem serve_keeps_pool:
  assumes ok: "pool_ok pl" and M: "gs_list_ok (mk_gl (ae_M E))" and srv: "serve E path rq pl = Ret (r, pl')"
  shows "pool_ok pl'"
proof -
  have del: "pool_ok pl2" if "DelProxy (ae_M E) name pl1 = Ret (b, pl2)" "pool_ok pl1" for name pl1 b pl2
    using DelProxy_ok [OF that(2) M, of name] that(1) by auto
  have dels: "pool_ok pl2" if "del_all (ae_M E) ids pl = Ret pl2" for ids pl2
    using del_all_ok [OF ok M, of ids] that by auto
  have err: "pool_ok pl2" if "proxy_err (ae_M E) pl1 = Ret (a, pl2)" "pool_ok pl1" for pl1 a pl2
    using proxy_err_ok [OF that(2), of "ae_M E"] that(1) by auto
  have get: "pool_ok pl2" if "proxy_get (ae_M E) tps pl = Ret (a, pl2)" for tps a pl2
    using proxy_get_ok [OF ok M, of tps] that by auto
  show ?thesis
  proof (cases "route E path")
    case None
    then show ?thesis using srv ok by (simp add: serve_def)
  next
    case (Some h)
    then have "basicAuth E h rq pl = Ret (r, pl')" using srv by (simp add: serve_def)
    then consider "pl' = pl" | "h rq pl = Ret (r, pl')"
      by (auto simp: basicAuth_def split: if_splits list.splits option.splits)
    then show ?thesis
    proof cases
      case 1
      then show ?thesis using ok by simp
    next
      case 2
      have "h \<in> {z_info E, z_set E, proxy_info_handler E, z_dns E, z_ufw_close_all E, z_ufw E,
          proxy_get_handler E, close_all_handler E, update_handler E, proxy_err_handler E,
          proxy_new_handler E, proxy_del_handler E}"
        using Some by (auto simp: route_def split: if_splits)
      then show ?thesis using 2 ok
        by (elim insertE emptyE)
          (auto simp: z_info_def z_set_def proxy_info_handler_def z_dns_def z_ufw_close_all_def z_ufw_def
            proxy_get_handler_def close_all_handler_def update_handler_def proxy_err_handler_def
            proxy_new_handler_def proxy_del_handler_def reply_config_def delete_reported_def
            go_bind_Ret_conv Let_def pool_ok_irrelevant NewProxy_spec
            split: prod.splits option.splits if_splits jval.splits
            intro: del dels err get pool_ok_append)
    qed
  qed
qed

definition toy_api :: api_env where
  "toy_api = \<lparr>ae_M = toy_maker ''a'', ae_G = gs_std, ae_year = 2024, ae_unmarshal = (\<lambda>s. (Some [(''port'', JNum 20000)], None)),
     ae_lookup = (\<lambda>_. ([], None)), ae_reach = (\<lambda>_. False), ae_ufw = [], ae_ips = (\<lambda>_. [])\<rparr>"

lemma toy_api_gl [simp]: "gs_list_ok (mk_gl (ae_M toy_api))"
  by (simp add: toy_api_def)

theorem midnight_cleanup_witness:
  "\<exists>pl'. clean_round (toy_maker ''a'') 0 (4000 * 1000000000) one_tunnel = Ret pl' \<and> Some 0 \<notin> set (pl_Tunnels pl')"
proof -
  have i: "idle_at (4000 * 1000000000) (pl_mem one_tunnel ! 0)"
    by (simp add: idle_at_def one_tunnel_def GetClientNum_def LastActive_def NewProxyTunnel_def IdleTunnelThreshold_def)
  have m: "Some 0 \<in> set (pl_Tunnels one_tunnel)" by (simp add: one_tunnel_def)
  show ?thesis
    using midnight_cleanup [OF pool_reach_ok [OF one_tunnel_reach [of True]] toy_maker_gl [of "''a''"], of "4000 * 1000000000"] i m
    by blast
qed

theorem proxy_get_reply_witness:
  "\<exists>c pl'. proxy_get_handler toy_api \<lparr>hr_auth = [], hr_body = Inr []\<rparr> one_tunnel = Ret (Reply (MConfig c) True no_resp, pl')"
  using proxy_get_reply [OF pool_reach_ok [OF one_tunnel_reach [of True]] toy_api_gl, of "\<lparr>hr_auth = [], hr_body = Inr []\<rparr>" None]
  by (auto simp: Recv_def)

text \<open>A request with the password that closes every tunnel.\<close>

definition close_all_rq :: http_req where
  "close_all_rq = \<lparr>hr_auth = credentials toy_api, hr_body = Inr []\<rparr>"

lemma close_all_served:
  "\<exists>r pl'. serve toy_api ''/__close-all'' close_all_rq one_tunnel = Ret (r, pl') \<and> pl_Tunnels pl' = []"
proof -
  note ok = pool_reach_ok [OF one_tunnel_reach [of True]]
  have conf: "GetConfig (pl_mem one_tunnel ! 0) = Some (toy_config ''a'' 20000)"
    by (simp add: one_tunnel_def GetConfig_def NewProxyTunnel_def)
  define ids where "ids = [''a'']"
  have ids: "all_ids (pl_mem one_tunnel) (pl_Tunnels one_tunnel) = Ret ids" "ids = [''a'']"
    using conf by (simp_all add: one_tunnel_def toy_config_def ids_def)
  obtain pl' where d: "del_all (ae_M toy_api) ids one_tunnel = Ret pl'"
    "pl_Tunnels pl' = filter (\<lambda>t. \<forall>i \<in> set ids. \<not> has_id (pl_mem one_tunnel) i t) (pl_Tunnels one_tunnel)"
    using del_all_ok [OF ok toy_api_gl] by blast
  have "pl_Tunnels pl' = []" using d(2) ids(2) conf by (simp add: one_tunnel_def has_id_def id_of_def toy_config_def)
  then show ?thesis using ids(1) d(1)
    by (simp add: serve_def route_def credentials_pass close_all_rq_def close_all_handler_def)
qed

theorem serve_keeps_pool_witness:
  "\<exists>r pl'. serve toy_api ''/__close-all'' close_all_rq one_tunnel = Ret (r, pl') \<and> pl_Tunnels pl' = [] \<and> pool_ok pl'"
proof -
  obtain r pl' where s: "serve toy_api ''/__close-all'' close_all_rq one_tunnel = Ret (r, pl')" "pl_Tunnels pl' = []"
    using close_all_served by blast
  from serve_keeps_pool [OF pool_reach_ok [OF one_tunnel_reach [of True]] toy_api_gl s(1)] s show ?thesis by blast
qed

subsection \<open>Names resolved for a client\<close>

text \<open>A name stands for an address if its lookup succeeds and has it among its IPv4 addresses.\<close>

definition stands_for :: "api_env \<Rightarrow> string \<Rightarrow> string \<Rightarrow> bool" where
  "stands_for E ip host \<longleftrightarrow> snd (ae_lookup E host) = None \<and>
     (\<exists>a \<in> set (fst (ae_lookup E host)). to4 a \<noteq> None \<and> ip = ip_str a)"

definition last_of :: "'a list \<Rightarrow> 'a option" where
  "last_of xs = (if xs = [] then None else Some (last xs))"

lemma dns_ips_map:
  "map_of (dns_ips host ips res) ip =
    (if \<exists>a \<in> set ips. to4 a \<noteq> None \<and> ip = ip_str a then Some host else map_of res ip)"
  by (induction host ips res rule: dns_ips.induct) (auto simp: update_conv')

lemma dns_hosts_map:
  "map_of (dns_hosts E hosts res) ip =
    (case last_of (filter (stands_for E ip) hosts) of None \<Rightarrow> map_of res ip | Some h \<Rightarrow> Some h)"
proof (induction E hosts res rule: dns_hosts.induct)
  case (2 E host hosts res)
  obtain ips e where l: "ae_lookup E host = (ips, e)" by fastforce
  show ?case
  proof (cases e)
    case None
    then show ?thesis using "2.IH"(1) [OF l [symmetric] None] l
      by (auto simp: dns_ips_map stands_for_def last_of_def)
  next
    case (Some x)
    then show ?thesis using "2.IH"(2) [OF l [symmetric] Some] l by (simp add: stands_for_def)
  qed
qed (simp add: last_of_def)

text \<open>
  C15. Asked for a list of names by a request that carries the password, the server maps every address to
  the last of the names that resolve to it, IPv4 addresses only; a name whose lookup fails is left out and
  does not stop the others, and the pool of tunnels is untouched.
\<close>

theorem z_dns_answers:
  assumes "hr_auth rq = credentials E" "Recv E (hr_body rq) = (Some d, None)" "map_of d ''hosts'' = Some (JStr hosts)"
  shows "\<exists>m. serve E ''/z-dns'' rq pl = Ret (Reply (MDns m) True no_resp, pl) \<and>
    (\<forall>ip. map_of m ip = last_of (filter (stands_for E ip) (gs_Split (ae_G E) hosts '','')))"
  using assms(2,3) dns_hosts_map [of E "gs_Split (ae_G E) hosts '',''" "[]"]
  by (auto simp: serve_def route_def credentials_pass [OF assms(1)] z_dns_def dict_get_def split: option.splits)

definition names_api :: api_env where
  "names_api = toy_api\<lparr>ae_unmarshal := (\<lambda>s. (Some [(''hosts'', JStr s)], None)),
     ae_lookup := (\<lambda>h. if h = ''b'' then ([], Some EOF) else ([[10, 0, 0, 1]], None))\<rparr>"

theorem z_dns_answers_witness:
  "\<exists>m. serve names_api ''/z-dns'' \<lparr>hr_auth = credentials names_api, hr_body = Inr ''a,b,c''\<rparr> one_tunnel =
      Ret (Reply (MDns m) True no_resp, one_tunnel) \<and> map_of m ''10.0.0.1'' = Some ''c''"
proof -
  let ?rq = "\<lparr>hr_auth = credentials names_api, hr_body = Inr ''a,b,c''\<rparr>"
  have split: "gs_Split (ae_G names_api) ''a,b,c'' '','' = [''a'', ''b'', ''c'']"
    and ip: "ip_str [10, 0, 0, 1] = ''10.0.0.1''" by code_simp+
  have "filter (stands_for names_api ''10.0.0.1'') [''a'', ''b'', ''c''] = [''a'', ''c'']"
    by (simp add: stands_for_def names_api_def to4_def ip)
  then have "last_of (filter (stands_for names_api ''10.0.0.1'') (gs_Split (ae_G names_api) ''a,b,c'' '','')) = Some ''c''"
    unfolding split by (simp add: last_of_def)
  then show ?thesis
    using z_dns_answers [of ?rq names_api "[(''hosts'', JStr ''a,b,c'')]" "''a,b,c''" one_tunnel]
    by (auto simp: Recv_def names_api_def)
qed

subsection \<open>Two requests that do not do their work\<close>

text \<open>
  A port given as a JSON number is ignored: the request is answered as successful and no
  firewall command is run, because the type switch expects an \<open>int\<close> and decoded numbers are
  floating point.
\<close>

theorem z_ufw_ignores_numbers:
  assumes "Recv E (hr_body rq) = (Some d, None)" "map_of d ''port'' = Some (JNum x)"
  shows "z_ufw E rq pl = Ret (Reply (MStr (GetUFW (ae_G E) (ae_ufw E))) True no_resp, pl)"
  using assms by (simp add: z_ufw_def dict_get_def)

theorem z_ufw_ignores_numbers_witness:
  "z_ufw toy_api \<lparr>hr_auth = [], hr_body = Inr ''{}''\<rparr> one_tunnel =
    Ret (Reply (MStr (GetUFW gs_std [])) True no_resp, one_tunnel)"
  using z_ufw_ignores_numbers [of toy_api "\<lparr>hr_auth = [], hr_body = Inr ''{}''\<rparr>" "[(''port'', JNum 20000)]" 20000]
  by (simp add: Recv_def toy_api_def)

text \<open>
  \<open>/proxy-new\<close> takes a port out of the pool of free ports for a tunnel that is neither added to
  the tunnels nor served, so that nothing will ever release it.
\<close>

theorem proxy_new_leaks_port:
  "\<exists>c pl'. proxy_new_handler E rq pl = Ret (Reply (MConfig c) True no_resp, pl') \<and>
    pl_Tunnels pl' = pl_Tunnels pl \<and> pl_serving pl' = pl_serving pl \<and>
    (cf_ServerPort c = -1 \<or> cf_ServerPort c \<notin> used_ports (pl_ports pl) \<and> cf_ServerPort c \<in> used_ports (pl_ports pl'))"
proof -
  obtain t ps where n: "NewProxy (ae_M E) ''tls'' (pl_ports pl) = (t, ps)" by fastforce
  note t = NewProxy_spec [OF n]
  then obtain c where c: "GetConfig t = Some c" using tun_ok_config by blast
  with n t show ?thesis by (auto simp: proxy_new_handler_def reply_config_def port_of_def)
qed

subsection \<open>The overview counts every tunnel\<close>

lemma count_up_sum:
  "distinct (map fst m) \<Longrightarrow> sum_list (map snd (count_up k n m)) = sum_list (map snd m) + n"
  "distinct (map fst m) \<Longrightarrow> distinct (map fst (count_up k n m))"
proof (induction m)
  case (Cons x m)
  {
    case 1
    obtain k' c where x: "x = (k', c)" by fastforce
    have "count_up k n (x # m) = x # count_up k n m" if "k' \<noteq> k" using that by (simp add: count_up_def x)
    then show ?case using Cons.IH 1 by (cases "k' = k") (simp_all add: count_up_def x)
  next
    case 2
    then show ?case unfolding count_up_def by (rule distinct_update)
  }
qed (simp_all add: count_up_def)

lemma info_scan_counts:
  assumes "\<forall>t \<in> set ts. addr_ok mem t" "distinct (map fst (si_proxy si))" "distinct (si_client si)"
  shows "\<exists>si'. info_scan E mem ts si = Ret si' \<and>
    sum_list (map snd (si_proxy si')) = sum_list (map snd (si_proxy si)) + int (length ts) \<and>
    length (si_ids si') = length (si_ids si) + length ts \<and> distinct (si_client si')"
  using assms
proof (induction ts arbitrary: si)
  case (Cons t ts)
  obtain a c where t: "t = Some a" "GetConfig (mem ! a) = Some c"
    using Cons.prems tun_ok_config by (fastforce simp: addr_ok_def)
  let ?si = "info_of E a (mem ! a) c si"
  have cl: "distinct (foldl add_client cs ips)" if "distinct cs" for cs ips
    using that by (induction ips arbitrary: cs) (auto simp: add_client_def)
  have f: "si_proxy ?si = count_up (cf_ProxyType c) 1 (si_proxy si)"
    "si_client ?si = foldl add_client (si_client si) (ae_ips E a)" "length (si_ids ?si) = length (si_ids si) + 1"
    by (simp_all add: info_of_def Let_def)
  have "\<forall>t \<in> set ts. addr_ok mem t" "distinct (map fst (si_proxy ?si))" "distinct (si_client ?si)"
    using Cons.prems count_up_sum(2) cl by (auto simp: f)
  from Cons.IH [OF this] show ?case using t Cons.prems count_up_sum(1) [OF Cons.prems(2)] by (auto simp: f)
qed simp

text \<open>
  The overview counts every tunnel once: the counts by protocol type add up to the size of
  the pool, every tunnel's id is listed, and no client address is listed twice.
\<close>

theorem proxy_info_counts:
  assumes "pool_ok pl"
  shows "\<exists>si. proxy_info_handler E rq pl = Ret (Reply (MInfo si) True no_resp, pl) \<and>
    sum_list (map snd (si_proxy si)) = int (length (pl_Tunnels pl)) \<and>
    length (si_ids si) = length (pl_Tunnels pl) \<and> distinct (si_client si)"
  using info_scan_counts [OF pool_addrs [OF assms], where E = E and si = "\<lparr>si_ids = [], si_proxy = type_counts,
      si_alive = type_counts, si_client = [], si_scores = [], si_errorRates = [], si_loadFactors = []\<rparr>"]
  by (auto simp: proxy_info_handler_def type_counts_def)

theorem proxy_info_counts_witness:
  "\<exists>si. proxy_info_handler toy_api \<lparr>hr_auth = [], hr_body = Inr []\<rparr> one_tunnel =
    Ret (Reply (MInfo si) True no_resp, one_tunnel) \<and> length (si_ids si) = 1"
  using proxy_info_counts [OF pool_reach_ok [OF one_tunnel_reach [of True]], of toy_api "\<lparr>hr_auth = [], hr_body = Inr []\<rparr>"]
  by (fastforce simp: one_tunnel_def)

subsection \<open>Uploads\<close>

text \<open>
  \<open>uploadFileFunc\<close>: what the form holds under \<open>myFile\<close> (name and content), the temporary file and
  the renaming are parameters; the result is the status and the path the file ended up at.  The
  name is used before the error of \<open>FormFile\<close> is looked at, and a failed temporary file is used
  as well: both are nil dereferences.
\<close>

record upload_env =
  ue_G :: gslib
  ue_Printable :: "string \<Rightarrow> string"
  ue_PathJoin :: "string \<Rightarrow> string \<Rightarrow> string"
  ue_temp :: "goerr + string"
  ue_rename :: "string \<Rightarrow> string \<Rightarrow> goerr option"

definition uploadFile :: "upload_env \<Rightarrow> string \<Rightarrow> goerr + (string \<times> string) \<Rightarrow> (int \<times> string option) go" where
  "uploadFile U www form =
     (case form of
        Inl _ \<Rightarrow> Panic
      | Inr (Filename, content) \<Rightarrow>
          let name = ue_Printable U Filename in
          if gs_In (ue_G U) name ''..'' then Ret (501, None)
          else if gs_In (ue_G U) name ''/'' then Ret (501, None)
          else
            let name = (if gs_In (ue_G U) name '' '' then gs_Replace (ue_G U) name '' '' ''_'' else name) in
            case ue_temp U of
              Inl _ \<Rightarrow> Panic
            | Inr temp \<Rightarrow>
                (case ue_rename U temp (ue_PathJoin U www name) of
                   Some _ \<Rightarrow> Ret (504, None)
                 | None \<Rightarrow> Ret (200, Some (ue_PathJoin U www name))))"

definition gs_underscore_ok :: "gslib \<Rightarrow> bool" where
  "gs_underscore_ok G \<longleftrightarrow> (\<forall>s. gs_Replace G s '' '' ''_'' = map (\<lambda>c. if c = CHR '' '' then CHR ''_'' else c) s)"

lemma underscore_contains:
  assumes "\<forall>c \<in> set sub. c \<noteq> CHR '' '' \<and> c \<noteq> CHR ''_''"
  shows "str_contains (map (\<lambda>c. if c = CHR '' '' then CHR ''_'' else c) s) sub \<longleftrightarrow> str_contains s sub"
proof -
  have p: "has_prefix (map (\<lambda>c. if c = CHR '' '' then CHR ''_'' else c) s) sub \<longleftrightarrow> has_prefix s sub" for s
    using assms
  proof (induction s arbitrary: sub)
    case (Cons c s)
    then show ?case by (cases sub) (auto simp: has_prefix_def)
  qed (simp add: has_prefix_def)
  show ?thesis by (induction s) (simp_all add: p p [of "_ # _", simplified])
qed

text \<open>
  An uploaded file lands directly in the served directory: the last path element has no
  slash, no two dots in a row and no space.
\<close>

theorem upload_confined:
  assumes "gs_in_ok (ue_G U)" "gs_underscore_ok (ue_G U)" "uploadFile U www form = Ret (code, Some path)"
  shows "\<exists>name. path = ue_PathJoin U www name \<and> CHR ''/'' \<notin> set name \<and> CHR '' '' \<notin> set name \<and>
    \<not> str_contains name ''..''"
proof -
  obtain Filename content where f: "form = Inr (Filename, content)"
    using assms(3) by (cases form) (auto simp: uploadFile_def)
  define n where "n = ue_Printable U Filename"
  define m where "m = (if CHR '' '' \<in> set n then map (\<lambda>c. if c = CHR '' '' then CHR ''_'' else c) n else n)"
  have "path = ue_PathJoin U www m \<and> \<not> str_contains n ''..'' \<and> \<not> str_contains n ''/''"
    using assms(3) gs_inD [OF assms(1)] assms(2)
    by (auto simp: uploadFile_def f n_def [symmetric] m_def gs_underscore_ok_def Let_def str_contains_char
        split: if_splits sum.splits option.splits)
  moreover from this have "\<not> str_contains m ''..''" "\<not> str_contains m ''/''"
    using underscore_contains [of "''..''" n] underscore_contains [of "''/''" n] by (auto simp: m_def)
  moreover have "CHR '' '' \<notin> set m" by (auto simp: m_def)
  ultimately show ?thesis by (auto simp: str_contains_char)
qed

definition toy_upload :: upload_env where
  "toy_upload = \<lparr>ue_G = gs_std\<lparr>gs_Replace := (\<lambda>s a b. map (\<lambda>c. if [c] = a then hd b else c) s)\<rparr>,
     ue_Printable = (\<lambda>s. s), ue_PathJoin = (\<lambda>a b. a @ ''/'' @ b), ue_temp = Inr ''/tmp/upload-1.file'',
     ue_rename = (\<lambda>_ _. None)\<rparr>"

theorem upload_confined_witness:
  "uploadFile toy_upload ''/www'' (Inr (''my file'', ''data'')) = Ret (200, Some ''/www/my_file'') \<and>
   (\<exists>name. ''/www/my_file'' = ''/www/'' @ name \<and> CHR ''/'' \<notin> set name)"
proof -
  have G: "gs_in_ok (ue_G toy_upload)" "gs_underscore_ok (ue_G toy_upload)"
    by (simp_all add: toy_upload_def gs_in_ok_def gs_underscore_ok_def gs_std_def)
  have u: "uploadFile toy_upload ''/www'' (Inr (''my file'', ''data'')) = Ret (200, Some ''/www/my_file'')"
    by (simp add: uploadFile_def toy_upload_def gs_std_def Let_def has_prefix_def)
  from upload_confined [OF G u] obtain name where n: "''/www/my_file'' = ue_PathJoin toy_upload ''/www'' name"
    "CHR ''/'' \<notin> set name" by blast
  then have "''/www/my_file'' = ''/www/'' @ name" by (simp add: toy_upload_def)
  with u n(2) show ?thesis by blast
qed

end
