(* ===== verification/Smux_Client.thy ===== *)
theory Smux_Client
  imports Proto_Config Net_Conn
begin

text \<open>
  \<open>src/connections/prosmux/smux.go\<close> and \<open>src/connections/proquic/quic_client.go\<close>: the two kinds of
  multiplexed session a client keeps.  Here the libraries smux and quic-go are parameters: a smux
  session is whether it is closed, and what opening a stream, making a session anew or dialling
  gives is an argument of the call that does it.  A stream is a connection.  The inside of smux,
  a fork of which is kept in the tree, is the subject of the theories \<open>Smux_Frame\<close> to \<open>Smux_Delivery\<close>.
\<close>

subsection \<open>Configuration\<close>

record smux_conf =
  sm_Mode :: string
  sm_NoDelay :: int
  sm_Interval :: int
  sm_Resend :: int
  sm_NoCongestion :: int
  sm_AutoExpire :: int
  sm_ScavengeTTL :: int
  sm_MTU :: int
  sm_SndWnd :: int
  sm_RcvWnd :: int
  sm_DataShard :: int
  sm_ParityShard :: int
  sm_KeepAlive :: int
  sm_SmuxBuf :: int
  sm_StreamBuf :: int
  sm_AckNodelay :: bool
  sm_SocketBuf :: int

definition zero_smux :: smux_conf where
  "zero_smux = \<lparr>sm_Mode = [], sm_NoDelay = 0, sm_Interval = 0, sm_Resend = 0, sm_NoCongestion = 0,
     sm_AutoExpire = 0, sm_ScavengeTTL = 0, sm_MTU = 0, sm_SndWnd = 0, sm_RcvWnd = 0, sm_DataShard = 0,
     sm_ParityShard = 0, sm_KeepAlive = 0, sm_SmuxBuf = 0, sm_StreamBuf = 0, sm_AckNodelay = False,
     sm_SocketBuf = 0\<rparr>"

definition SetAsDefault :: "smux_conf \<Rightarrow> smux_conf" where
  "SetAsDefault k = k\<lparr>sm_Mode := ''fast4'', sm_KeepAlive := 20, sm_MTU := 1350, sm_DataShard := 10,
     sm_ParityShard := 3, sm_SndWnd := 2048 * 2, sm_RcvWnd := 2048 * 2, sm_ScavengeTTL := 600,
     sm_AutoExpire := 7, sm_SmuxBuf := 16777216, sm_StreamBuf := 1048576, sm_AckNodelay := True,
     sm_SocketBuf := 4194304\<rparr>"

definition set_nodelay :: "int \<times> int \<times> int \<times> int \<Rightarrow> smux_conf \<Rightarrow> smux_conf" where
  "set_nodelay v k = (case v of (nodelay, interval, resend, nc) \<Rightarrow>
     k\<lparr>sm_NoDelay := nodelay, sm_Interval := interval, sm_Resend := resend, sm_NoCongestion := nc\<rparr>)"

definition UpdateMode :: "smux_conf \<Rightarrow> smux_conf" where
  "UpdateMode k =
     (if sm_Mode k = ''normal'' then set_nodelay (0, 40, 2, 1) k
      else if sm_Mode k = ''fast'' then set_nodelay (0, 30, 2, 1) k
      else if sm_Mode k = ''fast2'' then set_nodelay (1, 20, 2, 1) k
      else if sm_Mode k = ''fast3'' then set_nodelay (1, 10, 2, 1) k
      else if sm_Mode k = ''fast4'' then set_nodelay (1, 5, 2, 1) k
      else k)"

text \<open>The library's configuration, as far as it is set here; times in nanoseconds.\<close>

record mux_config =
  mx_MaxReceiveBuffer :: int
  mx_MaxStreamBuffer :: int
  mx_KeepAliveInterval :: int
  mx_KeepAliveTimeout :: int

definition GenerateConfig :: "smux_conf \<Rightarrow> mux_config \<times> smux_conf" where
  "GenerateConfig k0 =
     (let k = UpdateMode k0 in
      (\<lparr>mx_MaxReceiveBuffer = sm_SmuxBuf k, mx_MaxStreamBuffer = sm_StreamBuf k,
        mx_KeepAliveInterval = sm_KeepAlive k * 1000000000, mx_KeepAliveTimeout = 60 * 1000000000\<rparr>, k))"

text \<open>
  What \<open>smux.VerifyConfig\<close> documents: positive, ordered intervals (the timeout at least the
  interval), positive buffers, a stream buffer no larger than the session's and of 32 bits.
\<close>

definition mux_config_ok :: "mux_config \<Rightarrow> bool" where
  "mux_config_ok m \<longleftrightarrow> 0 < mx_KeepAliveInterval m \<and> mx_KeepAliveInterval m \<le> mx_KeepAliveTimeout m \<and>
     0 < mx_MaxReceiveBuffer m \<and> 0 < mx_MaxStreamBuffer m \<and> mx_MaxStreamBuffer m \<le> mx_MaxReceiveBuffer m \<and>
     mx_MaxStreamBuffer m \<le> 2147483647"

subsection \<open>The smux client\<close>

text \<open>\<open>Session\<close> is None for nil, otherwise whether the session is closed.\<close>

record smux_client =
  sx_conf :: smux_conf
  sx_Session :: "bool option"
  sx_ClientConn :: "conn option"
  sx_ProxyType :: string
  sx_eid :: string

definition NewSmuxClient :: "conn option \<Rightarrow> string \<Rightarrow> string \<Rightarrow> goerr option \<Rightarrow> smux_client option" where
  "NewSmuxClient con eid proxyType client_err =
     (let s = \<lparr>sx_conf = snd (GenerateConfig (SetAsDefault zero_smux)), sx_Session = None,
               sx_ClientConn = con, sx_ProxyType = proxyType, sx_eid = []\<rparr> in
      if con = None then None
      else Some (if client_err = None then s\<lparr>sx_Session := Some False\<rparr> else s))"

definition sx_ID :: "smux_client \<Rightarrow> string" where "sx_ID s = sx_eid s"

definition sx_IsClosed :: "smux_client \<Rightarrow> bool" where
  "sx_IsClosed s = (case sx_Session s of None \<Rightarrow> False | Some c \<Rightarrow> c)"

definition sx_GetProxyType :: "smux_client \<Rightarrow> string" where "sx_GetProxyType s = sx_ProxyType s"

text \<open>
  \<open>open1\<close> and \<open>open2\<close> are what the two calls of \<open>OpenStream\<close> give, \<open>again\<close> what \<open>smux.Client\<close> gives
  the second time (an error, or a session and whether it is closed already).
\<close>

record mux_env =
  me_open1 :: "goerr + conn"
  me_again :: "goerr + bool"
  me_open2 :: "goerr + conn"

definition sx_NewConnnect :: "mux_env \<Rightarrow> smux_client \<Rightarrow> ((goerr + conn) \<times> smux_client) go" where
  "sx_NewConnnect E s =
     (case sx_Session s of
        None \<Rightarrow> Ret (Inl (GoErr ''session closed''), s)
      | Some True \<Rightarrow> Ret (Inl (GoErr ''session closed''), s)
      | Some False \<Rightarrow>
          (case me_open1 E of
             Inr stream \<Rightarrow> Ret (Inr stream, s)
           | Inl _ \<Rightarrow>
               (case me_again E of
                  Inl e \<Rightarrow> Ret (Inl (GoErr ''[reclient smux err conn is break]: ''), s\<lparr>sx_Session := None\<rparr>)
                | Inr True \<Rightarrow> Panic
                | Inr False \<Rightarrow>
                    (case me_open2 E of
                       Inl e \<Rightarrow> Ret (Inl (GoErr ''[re open smux session err]: ''), s\<lparr>sx_Session := Some False\<rparr>)
                     | Inr stream \<Rightarrow> Ret (Inr stream, s\<lparr>sx_Session := Some False\<rparr>)))))"

definition sx_Close :: "smux_client \<Rightarrow> smux_client" where
  "sx_Close s = s\<lparr>sx_Session := map_option (\<lambda>_. True) (sx_Session s),
     sx_ClientConn := map_option conn_close (sx_ClientConn s)\<rparr>"

subsection \<open>The QUIC client\<close>

record quic_client =
  qc_addr :: string
  qc_isclosed :: bool
  qc_qcon :: bool
  qc_eid :: string

text \<open>
  \<open>NewQuicClient\<close>: on a failed dial the client is returned closed, with the error.  A
  configuration without certificate has no TLS configuration to write to (a nil dereference).
\<close>

definition NewQuicClient :: "string \<Rightarrow> bool \<Rightarrow> goerr option \<Rightarrow> config \<Rightarrow> (quic_client \<times> goerr option) go" where
  "NewQuicClient addr has_tls dial_err c =
     (if \<not> has_tls then Panic
      else case dial_err of
        Some e \<Rightarrow> Ret (\<lparr>qc_addr = addr, qc_isclosed = True, qc_qcon = False, qc_eid = []\<rparr>, Some e)
      | None \<Rightarrow> Ret (\<lparr>qc_addr = addr, qc_isclosed = False, qc_qcon = True, qc_eid = cf_ID c\<rparr>, None))"

definition qc_NewConnnect :: "mux_env \<Rightarrow> quic_client \<Rightarrow> (goerr + conn) \<times> quic_client" where
  "qc_NewConnnect E q =
     (if qc_isclosed q \<or> \<not> qc_qcon q then (Inl (GoErr ''dia quic err''), q)
      else case me_open1 E of
        Inr stream \<Rightarrow> (Inr stream, q)
      | Inl _ \<Rightarrow>
          (case me_again E of
             Inl e \<Rightarrow> (Inl (GoErr ''[try agin quic new connect err]: ''), q\<lparr>qc_isclosed := True\<rparr>)
           | Inr _ \<Rightarrow>
               (case me_open2 E of
                  Inl e \<Rightarrow> (Inl (GoErr ''[try agin  quic reconnect err]: ''), q\<lparr>qc_qcon := True\<rparr>)
                | Inr stream \<Rightarrow> (Inr stream, q\<lparr>qc_qcon := True\<rparr>))))"

definition qc_Close :: "quic_client \<Rightarrow> quic_client" where
  "qc_Close q = q\<lparr>qc_isclosed := True\<rparr>"

subsection \<open>The session interface\<close>

text \<open>
  \<open>SmuxorQuicClient\<close>: the contract both kinds of session fulfil towards the client that holds
  them.  A closed session opens no stream and stays closed; a stream comes only from a session
  that is not closed.
\<close>

datatype csess = Smux smux_client | Quic quic_client

fun IsClosed :: "csess \<Rightarrow> bool" where
  "IsClosed (Smux s) = sx_IsClosed s"
| "IsClosed (Quic q) = qc_isclosed q"

fun ID :: "csess \<Rightarrow> string" where
  "ID (Smux s) = sx_ID s"
| "ID (Quic q) = qc_eid q"

fun GetProxyType :: "csess \<Rightarrow> string" where
  "GetProxyType (Smux s) = sx_GetProxyType s"
| "GetProxyType (Quic q) = ''quic''"

fun NewConnnect :: "mux_env \<Rightarrow> csess \<Rightarrow> ((goerr + conn) \<times> csess) go" where
  "NewConnnect E (Smux s) = go_bind (sx_NewConnnect E s) (\<lambda>(r, s'). Ret (r, Smux s'))"
| "NewConnnect E (Quic q) = (case qc_NewConnnect E q of (r, q') \<Rightarrow> Ret (r, Quic q'))"

fun CloseSession :: "csess \<Rightarrow> csess" where
  "CloseSession (Smux s) = Smux (sx_Close s)"
| "CloseSession (Quic q) = Quic (qc_Close q)"

fun live :: "csess \<Rightarrow> bool" where
  "live (Smux s) = (sx_Session s = Some False)"
| "live (Quic q) = (\<not> qc_isclosed q \<and> qc_qcon q)"

locale session_contract =
  fixes opens :: "mux_env \<Rightarrow> 's \<Rightarrow> ((goerr + conn) \<times> 's) go" and shut :: "'s \<Rightarrow> 's" and usable :: "'s \<Rightarrow> bool"
  assumes dead_fails: "\<not> usable s \<Longrightarrow> \<exists>e. opens E s = Ret (Inl e, s)"
    and stream_live: "opens E s = Ret (Inr c, s') \<Longrightarrow> usable s \<and> usable s'"
    and shut_dead: "\<not> usable (shut s)"
begin

lemma no_stream_after_close: "opens E (shut s) \<noteq> Ret (Inr c, s')"
  using dead_fails [OF shut_dead, of E s] by auto

fun open_all :: "mux_env list \<Rightarrow> 's \<Rightarrow> ((goerr + conn) list \<times> 's) go" where
  "open_all [] s = Ret ([], s)"
| "open_all (E # Es) s = go_bind (opens E s) (\<lambda>(r, s'). go_bind (open_all Es s') (\<lambda>(rs, s''). Ret (r # rs, s'')))"

lemma dead_stays_dead:
  "\<not> usable s \<Longrightarrow> \<exists>rs. open_all Es s = Ret (rs, s) \<and> (\<forall>r \<in> set rs. \<exists>e. r = Inl e)"
proof (induction Es)
  case (Cons E Es)
  then obtain rs where "open_all Es s = Ret (rs, s)" "\<forall>r \<in> set rs. \<exists>e. r = Inl e" by auto
  moreover obtain e where "opens E s = Ret (Inl e, s)" using dead_fails [OF Cons.prems] by blast
  ultimately show ?case by auto
qed simp

end

interpretation sess: session_contract NewConnnect CloseSession live
proof unfold_locales
  show "\<exists>e. NewConnnect E s = Ret (Inl e, s)" if "\<not> live s" for s E
    using that by (cases s) (auto simp: sx_NewConnnect_def qc_NewConnnect_def split: option.splits bool.splits)
  show "live s \<and> live s'" if "NewConnnect E s = Ret (Inr c, s')" for E s c s'
    using that by (cases s) (auto simp: sx_NewConnnect_def qc_NewConnnect_def go_bind_Ret_conv
        split: option.splits bool.splits sum.splits if_splits)
  show "\<not> live (CloseSession s)" for s
    by (cases s) (auto simp: sx_Close_def qc_Close_def)
qed

text \<open>
  The default smux configuration passes the library's verification, with the keep-alive
  timeout three times the interval and a stream window a sixteenth of the session's, whatever
  mode was set before.
\<close>

theorem default_config_verified:
  "mux_config_ok (fst (GenerateConfig (SetAsDefault k))) \<and>
   mx_KeepAliveTimeout (fst (GenerateConfig (SetAsDefault k))) = 3 * mx_KeepAliveInterval (fst (GenerateConfig (SetAsDefault k))) \<and>
   16 * mx_MaxStreamBuffer (fst (GenerateConfig (SetAsDefault k))) = mx_MaxReceiveBuffer (fst (GenerateConfig (SetAsDefault k))) \<and>
   sm_Interval (snd (GenerateConfig (SetAsDefault k))) = 5"
  by (simp add: GenerateConfig_def SetAsDefault_def UpdateMode_def set_nodelay_def mux_config_ok_def Let_def)

text \<open>
  A session that has lost its connection is stuck without saying so: when making the smux
  session anew fails, every later attempt to open a stream fails too, yet \<open>IsClosed\<close> reports the
  session as open for ever, so that whoever rebuilds closed sessions leaves it alone.
\<close>

theorem lost_session_looks_open:
  assumes "sx_Session s = Some False" "me_open1 E = Inl e1" "me_again E = Inl e2"
  shows "\<exists>e s'. NewConnnect E (Smux s) = Ret (Inl e, s') \<and> \<not> IsClosed s' \<and> \<not> live s' \<and>
    (\<forall>E'. \<exists>e'. NewConnnect E' s' = Ret (Inl e', s'))"
proof -
  let ?s = "Smux (s\<lparr>sx_Session := None\<rparr>)"
  have "NewConnnect E (Smux s) = Ret (Inl (GoErr ''[reclient smux err conn is break]: ''), ?s)"
    using assms by (simp add: sx_NewConnnect_def)
  moreover have "\<not> live ?s" "\<not> IsClosed ?s" by (simp_all add: sx_IsClosed_def)
  ultimately show ?thesis using sess.dead_fails by blast
qed

definition down_env :: mux_env where
  "down_env = \<lparr>me_open1 = Inl EOF, me_again = Inl EOF, me_open2 = Inl EOF\<rparr>"

theorem lost_session_looks_open_witness:
  "\<exists>s e s'. NewSmuxClient (Some (conn_of [] EOF)) ''id'' ''tls'' None = Some s \<and>
    NewConnnect down_env (Smux s) = Ret (Inl e, s') \<and> \<not> IsClosed s'"
proof -
  obtain s where s: "NewSmuxClient (Some (conn_of [] EOF)) ''id'' ''tls'' None = Some s" "sx_Session s = Some False"
    by (simp add: NewSmuxClient_def Let_def)
  from lost_session_looks_open [OF s(2), of down_env EOF EOF] s(1) show ?thesis by (auto simp: down_env_def)
qed

text \<open>
  If the session made anew is closed already, the error path reads the text of a nil error
  and the goroutine panics.
\<close>

theorem reopened_closed_panics:
  assumes "sx_Session s = Some False" "me_open1 E = Inl e" "me_again E = Inr True"
  shows "NewConnnect E (Smux s) = Panic"
  using assms by (simp add: sx_NewConnnect_def)

theorem reopened_closed_panics_witness:
  "NewConnnect (down_env\<lparr>me_again := Inr True\<rparr>) (Smux \<lparr>sx_conf = zero_smux, sx_Session = Some False,
     sx_ClientConn = None, sx_ProxyType = ''tls'', sx_eid = []\<rparr>) = Panic"
  by (rule reopened_closed_panics) (simp_all add: down_env_def)

end
