(* ===== verification/Client_Core.thy ===== *)
theory Client_Core
  imports Smux_Client Server_Api
begin

text \<open>
  The client of \<open>src/clientcontroll/controll.go\<close>: its state, the queue of tunnel profiles, and how
  a session is found or built for a connection (\<open>GetAviableProxy\<close>, \<open>RebuildSmux\<close>, \<open>GetSession\<close>),
  with \<open>Wrap\<close> of \<open>localPAC.go\<close>.  An operation runs alone here: one that waits for a profile no
  other goroutine supplies never returns, which is the value None.  The n-th time the client
  asks the outside world (a request to the server, a dial, a library call, the clock) it gets
  the answer number n of the environment.
\<close>

subsection \<open>Computations that may wait for ever\<close>

type_synonym 'a act = "'a go option"

definition act_bind :: "'a act \<Rightarrow> ('a \<Rightarrow> 'b act) \<Rightarrow> 'b act" where
  "act_bind m f = Option.bind m (\<lambda>r. case r of Panic \<Rightarrow> Some Panic | Ret x \<Rightarrow> f x)"

definition ret :: "'a \<Rightarrow> 'a act" where "ret x = Some (Ret x)"

lemma act_bind_simps [simp]:
  "act_bind None f = None" "act_bind (Some Panic) f = Some Panic"
  "act_bind (Some (Ret x)) f = f x" "act_bind (ret x) f = f x"
  by (simp_all add: act_bind_def ret_def)

lemma act_bind_Ret: "act_bind m f = Some (Ret y) \<longleftrightarrow> (\<exists>x. m = Some (Ret x) \<and> f x = Some (Ret y))"
  by (cases m) (auto simp: act_bind_def split: go.splits)

lemma act_bind_None: "act_bind m f = None \<longleftrightarrow> m = None \<or> (\<exists>x. m = Some (Ret x) \<and> f x = None)"
  by (cases m) (auto simp: act_bind_def split: go.splits)

lemma ret_eq [simp]: "ret x = ret y \<longleftrightarrow> x = y" "ret x = Some (Ret y) \<longleftrightarrow> x = y" "Some (Ret y) = ret x \<longleftrightarrow> x = y" "ret x \<noteq> None" "None \<noteq> ret x" "\<exists>y. ret x = Some y"
  "ret x \<noteq> Some Panic"
  by (auto simp: ret_def)

text \<open>A loop over indices that goes on with the state each round leaves.\<close>

fun act_each :: "('i \<Rightarrow> 'c \<Rightarrow> ('r \<times> 'c) act) \<Rightarrow> 'i list \<Rightarrow> 'c \<Rightarrow> ('r list \<times> 'c) act" where
  "act_each f [] c = ret ([], c)"
| "act_each f (i # is) c =
     act_bind (f i c) (\<lambda>(r, c1). act_bind (act_each f is c1) (\<lambda>(rs, c2). ret (r # rs, c2)))"

text \<open>
  The contract a repair loop needs of what it repeats: from a state in which the invariant holds
  the operation does not wait for ever, and it keeps the invariant.
\<close>

locale returning =
  fixes inv :: "'c \<Rightarrow> bool" and op :: "'i \<Rightarrow> 'c \<Rightarrow> ('r \<times> 'c) act"
  assumes returns: "inv c \<Longrightarrow> op i c \<noteq> None"
    and keeps: "inv c \<Longrightarrow> op i c = Some (Ret (r, c')) \<Longrightarrow> inv c'"
begin

lemma each_returns: "inv c \<Longrightarrow> act_each op is c \<noteq> None"
proof (induction "is" arbitrary: c)
  case (Cons i "is")
  then show ?case using returns keeps by (auto simp: act_bind_None split: prod.splits)
qed simp

lemma each_keeps: "inv c \<Longrightarrow> act_each op is c = Some (Ret (rs, c')) \<Longrightarrow> inv c'"
proof (induction "is" arbitrary: c rs)
  case (Cons i "is")
  then show ?case using keeps by (auto simp: act_bind_Ret split: prod.splits) blast
qed simp

end

subsection \<open>The client and its environment\<close>

datatype task = ScanFix | ReportErrors

record client =
  cl_slots :: "csess option list"
  cl_profiles :: "config list"
  cl_init :: int
  cl_confNum :: nat
  cl_ClientNum :: nat
  cl_lastUse :: int
  cl_errorid :: "(string \<times> int) list"
  cl_mark :: "(string \<times> bool) list"
  cl_ErrCount :: int
  cl_RouteErrCount :: int
  cl_AliveCount :: int
  cl_acceptCount :: int
  cl_errCon :: int
  cl_errHit :: int
  cl_errTime :: int
  cl_lastRestart :: int
  cl_Addr :: string
  cl_Loc :: string
  cl_Mode :: int
  cl_ListenPort :: int
  cl_closed :: bool
  cl_closeFlag :: bool
  cl_dnsservice :: bool
  cl_inited :: bool
  cl_IsBreak :: bool
  cl_IsRunning :: bool
  cl_fixing :: bool
  cl_tick :: nat
  cl_spawned :: "task list"

record url =
  ul_Scheme :: string
  ul_Host :: string
  ul_Port :: string

record client_env =
  ce_gs :: gslib
  ce_gl :: "string gslist"
  ce_gl_In :: "string list \<Rightarrow> string \<Rightarrow> bool"
  ce_gl_Nth :: "string list \<Rightarrow> int \<Rightarrow> string"
  ce_url :: "string \<Rightarrow> goerr + url"
  ce_post :: "nat \<Rightarrow> string \<Rightarrow> jdict option \<Rightarrow> string \<times> goerr option"
  ce_get :: "nat \<Rightarrow> string \<Rightarrow> string \<times> goerr option"
  ce_json :: "string \<Rightarrow> jdict"
  ce_decode :: "jval \<Rightarrow> goerr + config"
  ce_dial :: "nat \<Rightarrow> config \<Rightarrow> goerr + conn"
  ce_mux :: "nat \<Rightarrow> goerr option"
  ce_quic :: "nat \<Rightarrow> config \<Rightarrow> bool \<times> goerr option \<times> string"
  ce_open :: "nat \<Rightarrow> mux_env"
  ce_now :: "nat \<Rightarrow> int"

fun err_text :: "goerr \<Rightarrow> string" where
  "err_text EOF = ''EOF''"
| "err_text UnexpectedEOF = ''unexpected EOF''"
| "err_text ErrShortBuffer = ''short buffer''"
| "err_text ErrClosed = ''use of closed network connection''"
| "err_text ErrTimeout = ''i/o timeout''"
| "err_text (GoErr s) = s"

definition Wrap :: "client_env \<Rightarrow> string \<Rightarrow> string" where
  "Wrap E addr =
     (case ce_url E addr of
        Inl _ \<Rightarrow>
          let a = (if \<not> gs_In (ce_gs E) addr ''://'' then ''https://'' @ addr else addr) in
          if \<not> gs_EndsWith (ce_gs E) a '':55443'' then a @ '':55443'' else a
      | Inr u \<Rightarrow>
          let a = (if ul_Scheme u = [] then ''https://'' @ addr else addr) in
          if ul_Port u = [] then a @ '':55443'' else a)"

text \<open>\<open>Split\<close> of the library gives at least one part; with none the index would panic.\<close>

definition WrapIPPort :: "client_env \<Rightarrow> string \<Rightarrow> string go" where
  "WrapIPPort E addr =
     (case ce_url E addr of
        Inl e \<Rightarrow> Ret (err_text e)
      | Inr u \<Rightarrow> (case gs_Split (ce_gs E) (ul_Host u) '':'' of [] \<Rightarrow> Panic | h # _ \<Rightarrow> Ret h))"

definition tick :: "client \<Rightarrow> client" where
  "tick c = c\<lparr>cl_tick := cl_tick c + 1\<rparr>"

definition spawn :: "task \<Rightarrow> client \<Rightarrow> client" where
  "spawn t c = c\<lparr>cl_spawned := cl_spawned c @ [t]\<rparr>"

definition post :: "client_env \<Rightarrow> string \<Rightarrow> jdict option \<Rightarrow> client \<Rightarrow> (string \<times> goerr option) \<times> client" where
  "post E path data c = (ce_post E (cl_tick c) (Wrap E (cl_Addr c) @ path) data, tick c)"

text \<open>A status that is not a string makes the type assertion panic.\<close>

definition RecvMsg :: "client_env \<Rightarrow> string \<Rightarrow> (jval \<times> bool) go" where
  "RecvMsg E reply =
     (let d = ce_json E reply in
      case map_of d ''status'' of
        None \<Rightarrow> Ret (JNull, False)
      | Some v \<Rightarrow> go_bind (as_string v) (\<lambda>s.
          Ret (case map_of d ''msg'' of None \<Rightarrow> JNull | Some m \<Rightarrow> m, s = ''ok'')))"

definition NewClientControll :: "client_env \<Rightarrow> string \<Rightarrow> int \<Rightarrow> nat \<Rightarrow> int \<Rightarrow> client" where
  "NewClientControll E addr listenport channelNum now =
     \<lparr>cl_slots = replicate channelNum None, cl_profiles = [], cl_init = 0, cl_confNum = channelNum,
      cl_ClientNum = channelNum, cl_lastUse = -1, cl_errorid = [], cl_mark = [], cl_ErrCount = 0,
      cl_RouteErrCount = 0, cl_AliveCount = 0, cl_acceptCount = 0, cl_errCon = 0, cl_errHit = 0,
      cl_errTime = 0, cl_lastRestart = now, cl_Addr = Wrap E addr, cl_Loc = [], cl_Mode = 0,
      cl_ListenPort = listenport, cl_closed = False, cl_closeFlag = False, cl_dnsservice = False,
      cl_inited = False, cl_IsBreak = False, cl_IsRunning = False, cl_fixing = False, cl_tick = 0,
      cl_spawned = []\<rparr>"

subsection \<open>Profiles\<close>

definition map_add :: "string \<Rightarrow> int \<Rightarrow> (string \<times> int) list \<Rightarrow> (string \<times> int) list" where
  "map_add k i m = AList.update k ((case map_of m k of None \<Rightarrow> 0 | Some v \<Rightarrow> v) + i) m"

definition route_fail :: "client \<Rightarrow> client" where
  "route_fail c = c\<lparr>cl_RouteErrCount := cl_RouteErrCount c + 1, cl_init := cl_init c - 1\<rparr>"

text \<open>The loop makes up to two requests; what counts is the last one.\<close>

fun post_retry :: "client_env \<Rightarrow> nat \<Rightarrow> jdict option \<Rightarrow> string \<times> goerr option \<Rightarrow> client \<Rightarrow>
    (string \<times> goerr option) \<times> client" where
  "post_retry E 0 data res c = (res, c)"
| "post_retry E (Suc n) data res c =
     (case post E ''/proxy-get'' data c of (res', c') \<Rightarrow>
        if snd res' \<noteq> None then post_retry E n data res' c' else (res', c'))"

definition fetch_profile :: "client_env \<Rightarrow> string option \<Rightarrow> client \<Rightarrow> (config option \<times> client) go" where
  "fetch_profile E tp c0 =
     (let data = map_option (\<lambda>t. [(''type'', JStr t)]) tp in
      case post_retry E 2 data ([], None) (c0\<lparr>cl_init := cl_init c0 + 1\<rparr>) of ((reply, err), c) \<Rightarrow>
        if err \<noteq> None then Ret (None, route_fail c)
        else if reply = [] then Ret (None, route_fail c)
        else go_bind (RecvMsg E reply) (\<lambda>(obj, ok).
          if ok then
            (case ce_decode E obj of
               Inl _ \<Rightarrow> Ret (None, route_fail c)
             | Inr conf \<Rightarrow>
                 go_bind (if cf_Server conf = SrvStr ''0.0.0.0''
                    then go_bind (WrapIPPort E (Wrap E (cl_Addr c))) (\<lambda>h. Ret (conf\<lparr>cf_Server := SrvStr h\<rparr>))
                    else Ret conf)
                  (\<lambda>conf'. Ret (Some conf', c\<lparr>cl_errorid := AList.update (cf_ID conf') 0 (cl_errorid c)\<rparr>)))
          else Ret (None, route_fail c)))"

text \<open>With all profiles handed out, the caller polls the queue until one comes back.\<close>

definition GetAviableProxy :: "client_env \<Rightarrow> string option \<Rightarrow> client \<Rightarrow> (config option \<times> client) act" where
  "GetAviableProxy E tp c =
     (if int (cl_confNum c) \<le> cl_init c
      then (case cl_profiles c of
              [] \<Rightarrow> None
            | conf # rest \<Rightarrow> ret (Some conf, c\<lparr>cl_profiles := rest\<rparr>))
      else Some (fetch_profile E tp c))"

text \<open>A send on the queue blocks when it is full.\<close>

definition send_profile :: "config \<Rightarrow> client \<Rightarrow> client act" where
  "send_profile conf c =
     (if length (cl_profiles c) < cl_confNum c
      then ret (c\<lparr>cl_profiles := cl_profiles c @ [conf]\<rparr>) else None)"

definition rotate_profile :: "config \<Rightarrow> client \<Rightarrow> client act" where
  "rotate_profile conf c =
     (if length (cl_profiles c) = cl_confNum c
      then (case cl_profiles c of
              [] \<Rightarrow> None
            | _ # rest \<Rightarrow> send_profile conf (c\<lparr>cl_profiles := rest\<rparr>))
      else send_profile conf c)"

subsection \<open>Building a session\<close>

definition ErrRouteISBreak :: goerr where "ErrRouteISBreak = GoErr ''route is break''"

definition close_slot :: "nat \<Rightarrow> client \<Rightarrow> client go" where
  "close_slot no c =
     (if no < length (cl_slots c)
      then Ret (c\<lparr>cl_slots := (cl_slots c)[no := map_option CloseSession (cl_slots c ! no)]\<rparr>)
      else Panic)"

definition set_slot :: "nat \<Rightarrow> csess \<Rightarrow> client \<Rightarrow> client" where
  "set_slot no s c = c\<lparr>cl_slots := (cl_slots c)[no := Some s]\<rparr>"

text \<open>
  Slots 0, 3, 6 ask for a quic tunnel, the others for tls; the server may answer with any type.
  The dial is skipped for quic, whose client dials itself.
\<close>

definition connect_tunnel :: "client_env \<Rightarrow> nat \<Rightarrow> config \<Rightarrow> client \<Rightarrow> (goerr option \<times> client) go" where
  "connect_tunnel E no conf c =
     (if cf_ProxyType conf \<noteq> ''quic'' then
        (case ce_dial E (cl_tick c) conf of
           Inl e \<Rightarrow> Ret (Some (GoErr (err_text e @ '' [Rebuild Err] in Protocol '' @ cf_ProxyType conf)), tick c)
         | Inr con \<Rightarrow>
             go_bind (close_slot no (tick c)) (\<lambda>c1.
               case NewSmuxClient (Some con) (cf_ID conf) (cf_ProxyType conf) (ce_mux E (cl_tick c1)) of
                 None \<Rightarrow> Panic
               | Some s \<Rightarrow> Ret (None, set_slot no (Smux s) (tick c1))))
      else
        go_bind (close_slot no c) (\<lambda>c1.
          case ce_quic E (cl_tick c1) conf of (has_tls, dial_err, addr) \<Rightarrow>
            go_bind (NewQuicClient addr has_tls dial_err conf) (\<lambda>(q, err).
              case err of
                Some e \<Rightarrow> Ret (Some (GoErr (''[quic-rebuild] '' @ err_text e)), tick c1)
              | None \<Rightarrow> Ret (None, set_slot no (Quic q) (tick c1)))))"

definition RebuildSmux :: "client_env \<Rightarrow> nat \<Rightarrow> client \<Rightarrow> ((goerr option \<times> config option) \<times> client) act" where
  "RebuildSmux E no c =
     act_bind (GetAviableProxy E (Some (if no mod 3 = 0 then ''quic'' else ''tls'')) c) (\<lambda>(conf, c1).
       case conf of
         None \<Rightarrow> ret ((Some ErrRouteISBreak, None), c1)
       | Some cf \<Rightarrow> act_bind (rotate_profile cf c1) (\<lambda>c2.
           act_bind (Some (connect_tunnel E no cf c2)) (\<lambda>(err, c3). ret ((err, Some cf), c3))))"

subsection \<open>Finding a session\<close>

text \<open>
  For an empty slot two attempts to build; the result is the error of the last, the session found
  in the slot, and the id and type seen.
\<close>

fun build_slot :: "client_env \<Rightarrow> nat \<Rightarrow> nat \<Rightarrow> goerr option \<times> csess option \<times> string \<times> string \<Rightarrow> client \<Rightarrow>
    ((goerr option \<times> csess option \<times> string \<times> string) \<times> client) act" where
  "build_slot E 0 q r c = ret (r, c)"
| "build_slot E (Suc n) q (err0, e0, ident, pt) c =
     act_bind (RebuildSmux E q c) (\<lambda>((err, cf), c1).
       let ident1 = (case cf of None \<Rightarrow> ident | Some k \<Rightarrow> cf_ID k);
           pt1 = (case cf of None \<Rightarrow> pt | Some k \<Rightarrow> cf_ProxyType k);
           e = cl_slots c1 ! q in
       if err = None
       then ret ((None, e, case e of None \<Rightarrow> ident1 | Some s \<Rightarrow> ID s, pt1), c1)
       else build_slot E n q (err, e, ident1, pt1) c1)"

record session_result =
  sr_con :: "goerr + conn"
  sr_id :: string
  sr_type :: string
  sr_ix :: nat

text \<open>A closed session is rebuilt; the stream is then asked of the session found before.\<close>

definition reopen_session :: "client_env \<Rightarrow> nat \<Rightarrow> csess \<Rightarrow> string \<Rightarrow> string \<Rightarrow> client \<Rightarrow> (session_result \<times> client) act" where
  "reopen_session E q s ident pt c =
     act_bind (RebuildSmux E q c) (\<lambda>((err, cf), c1).
       let ident1 = (case cf of None \<Rightarrow> ident | Some k \<Rightarrow> cf_ID k);
           pt1 = (case cf of None \<Rightarrow> pt | Some k \<Rightarrow> cf_ProxyType k) in
       case err of
         Some x \<Rightarrow>
           ret (\<lparr>sr_con = Inl (GoErr (err_text x @ '' in rebuild '')), sr_id = ident1, sr_type = pt1, sr_ix = q\<rparr>,
             spawn ScanFix c1)
       | None \<Rightarrow>
           act_bind (Some (NewConnnect (ce_open E (cl_tick c1)) (CloseSession s))) (\<lambda>(con, _).
             ret (\<lparr>sr_con = con, sr_id = ident1, sr_type = pt1, sr_ix = q\<rparr>, tick c1)))"

definition use_session ::
  "client_env \<Rightarrow> nat \<Rightarrow> goerr option \<times> csess option \<times> string \<times> string \<Rightarrow> client \<Rightarrow> (session_result \<times> client) act" where
  "use_session E q r c =
     (case r of
        (Some x, e, ident, pt) \<Rightarrow> ret (\<lparr>sr_con = Inl x, sr_id = ident, sr_type = pt, sr_ix = q\<rparr>, c)
      | (None, None, ident, pt) \<Rightarrow>
          ret (\<lparr>sr_con = Inl (GoErr ''no session create!!''), sr_id = ident, sr_type = pt, sr_ix = q\<rparr>, c)
      | (None, Some s, ident, pt) \<Rightarrow>
          let ident1 = (if ID s \<noteq> [] then ID s else ident) in
          if IsClosed s then reopen_session E q s ident1 pt c
          else act_bind (Some (NewConnnect (ce_open E (cl_tick c)) s)) (\<lambda>(con, s').
            ret (\<lparr>sr_con = con, sr_id = ident1, sr_type = GetProxyType s, sr_ix = q\<rparr>, set_slot q s' (tick c))))"

text \<open>The slots are used in turn; with no slots the remainder panics.\<close>

definition next_slot :: "client \<Rightarrow> nat" where
  "next_slot c = nat ((cl_lastUse c + 1) mod int (cl_ClientNum c))"

definition GetSession :: "client_env \<Rightarrow> client \<Rightarrow> (session_result \<times> client) act" where
  "GetSession E c =
     (if cl_ClientNum c = 0 then Some Panic
      else
        let q = next_slot c; c1 = c\<lparr>cl_lastUse := int q\<rparr> in
        if length (cl_slots c) \<le> q then Some Panic
        else act_bind
          (case cl_slots c1 ! q of
             None \<Rightarrow> build_slot E 2 q (None, None, [], []) c1
           | Some e \<Rightarrow> ret ((None, Some e, [], []), c1))
          (\<lambda>(r, c2). use_session E q r c2))"

subsection \<open>The queue of profiles is balanced\<close>

text \<open>
  The invariant behind the queue: as many profiles are in it as have been handed out, and no more
  than it holds.  Fetching a profile breaks it, sending the profile back restores it.
\<close>

definition balanced :: "client \<Rightarrow> bool" where
  "balanced c \<longleftrightarrow> 0 < cl_confNum c \<and> int (length (cl_profiles c)) = cl_init c \<and>
     length (cl_profiles c) \<le> cl_confNum c"

definition same_queue :: "client \<Rightarrow> client \<Rightarrow> bool" where
  "same_queue c c' \<longleftrightarrow> cl_profiles c' = cl_profiles c \<and> cl_init c' = cl_init c \<and> cl_confNum c' = cl_confNum c"

lemma balanced_same: "same_queue c c' \<Longrightarrow> balanced c' = balanced c"
  by (simp add: same_queue_def balanced_def)

lemma tick_simps [simp]:
  "cl_profiles (tick c) = cl_profiles c" "cl_init (tick c) = cl_init c" "cl_confNum (tick c) = cl_confNum c"
  "cl_slots (tick c) = cl_slots c" "cl_errorid (tick c) = cl_errorid c" "cl_Addr (tick c) = cl_Addr c"
  "cl_RouteErrCount (tick c) = cl_RouteErrCount c" "cl_ClientNum (tick c) = cl_ClientNum c"
  "cl_lastUse (tick c) = cl_lastUse c"
  by (simp_all add: tick_def)

lemma set_slot_simps [simp]:
  "cl_profiles (set_slot q s c) = cl_profiles c" "cl_init (set_slot q s c) = cl_init c"
  "cl_confNum (set_slot q s c) = cl_confNum c" "cl_slots (set_slot q s c) = (cl_slots c)[q := Some s]"
  "cl_ClientNum (set_slot q s c) = cl_ClientNum c" "cl_lastUse (set_slot q s c) = cl_lastUse c"
  by (simp_all add: set_slot_def)

lemma spawn_simps [simp]:
  "cl_profiles (spawn t c) = cl_profiles c" "cl_init (spawn t c) = cl_init c"
  "cl_confNum (spawn t c) = cl_confNum c" "cl_slots (spawn t c) = cl_slots c"
  "cl_ClientNum (spawn t c) = cl_ClientNum c" "cl_lastUse (spawn t c) = cl_lastUse c"
  by (simp_all add: spawn_def)

lemma post_retry_frame: "post_retry E n data res c = (res', c') \<Longrightarrow> \<exists>k. c' = c\<lparr>cl_tick := k\<rparr>"
proof (induction n arbitrary: res c)
  case 0
  then show ?case by (auto intro: exI [of _ "cl_tick c"])
next
  case (Suc n)
  then show ?case by (fastforce simp: post_def tick_def split: if_splits prod.splits)
qed

lemma fetch_profile_frame:
  assumes "fetch_profile E tp c = Ret (r, c')"
  shows "cl_profiles c' = cl_profiles c" "cl_confNum c' = cl_confNum c" "cl_ClientNum c' = cl_ClientNum c"
    "cl_slots c' = cl_slots c" "cl_lastUse c' = cl_lastUse c"
    "cl_init c' = (if r = None then cl_init c else cl_init c + 1)"
    "cl_Addr c' = cl_Addr c" "r = None \<Longrightarrow> cl_RouteErrCount c' = cl_RouteErrCount c + 1"
    "\<And>conf. r = Some conf \<Longrightarrow> cl_errorid c' = AList.update (cf_ID conf) 0 (cl_errorid c)"
proof -
  obtain reply err c1 where p: "post_retry E 2 (map_option (\<lambda>t. [(''type'', JStr t)]) tp) ([], None)
      (c\<lparr>cl_init := cl_init c + 1\<rparr>) = ((reply, err), c1)"
    by (metis surj_pair)
  obtain k where c1: "c1 = c\<lparr>cl_init := cl_init c + 1, cl_tick := k\<rparr>" using post_retry_frame [OF p] by auto
  show "cl_profiles c' = cl_profiles c" "cl_confNum c' = cl_confNum c" "cl_ClientNum c' = cl_ClientNum c"
    "cl_slots c' = cl_slots c" "cl_lastUse c' = cl_lastUse c"
    "cl_init c' = (if r = None then cl_init c else cl_init c + 1)"
    "cl_Addr c' = cl_Addr c" "r = None \<Longrightarrow> cl_RouteErrCount c' = cl_RouteErrCount c + 1"
    "\<And>conf. r = Some conf \<Longrightarrow> cl_errorid c' = AList.update (cf_ID conf) 0 (cl_errorid c)"
    using assms unfolding fetch_profile_def Let_def p c1
    by (auto simp: route_fail_def go_bind_Ret_conv split: if_splits sum.splits)
qed

lemma connect_tunnel_frame:
  assumes "connect_tunnel E no conf c = Ret (err, c')"
  shows "same_queue c c'" "length (cl_slots c') = length (cl_slots c)" "cl_ClientNum c' = cl_ClientNum c"
    "cl_lastUse c' = cl_lastUse c" "cl_Addr c' = cl_Addr c"
    "err = None \<Longrightarrow> no < length (cl_slots c) \<and> (\<exists>s. cl_slots c' = (cl_slots c)[no := Some s] \<and> \<not> IsClosed s)"
  using assms
  by (auto simp: connect_tunnel_def same_queue_def close_slot_def set_slot_def tick_def NewSmuxClient_def
      NewQuicClient_def sx_IsClosed_def Let_def go_bind_Ret_conv
      split: if_splits sum.splits option.splits prod.splits)

lemma rotate_balanced:
  assumes "cl_init c = int (length (cl_profiles c)) + 1 \<and> length (cl_profiles c) < cl_confNum c"
  shows "rotate_profile conf c = ret (c\<lparr>cl_profiles := cl_profiles c @ [conf]\<rparr>)"
    "balanced (c\<lparr>cl_profiles := cl_profiles c @ [conf]\<rparr>)"
  using assms by (auto simp: rotate_profile_def send_profile_def balanced_def)

lemma GetAviableProxy_returns: "balanced c \<Longrightarrow> GetAviableProxy E tp c \<noteq> None"
  by (auto simp: GetAviableProxy_def balanced_def ret_def split: list.splits)

lemma GetAviableProxy_balanced:
  assumes "balanced c" "GetAviableProxy E tp c = Some (Ret (r, c1))"
  shows "r = None \<Longrightarrow> balanced c1"
    "r \<noteq> None \<Longrightarrow> cl_init c1 = int (length (cl_profiles c1)) + 1 \<and> length (cl_profiles c1) < cl_confNum c1"
    "length (cl_slots c1) = length (cl_slots c)" "cl_ClientNum c1 = cl_ClientNum c" "cl_lastUse c1 = cl_lastUse c"
    "cl_confNum c1 = cl_confNum c"
  using assms fetch_profile_frame [of E tp c r c1]
  by (auto simp: GetAviableProxy_def balanced_def split: if_splits list.splits)

lemma RebuildSmux_returns:
  assumes "balanced c"
  shows "RebuildSmux E no c \<noteq> None"
proof
  assume "RebuildSmux E no c = None"
  then obtain cf c1 where g: "GetAviableProxy E (Some (if no mod 3 = 0 then ''quic'' else ''tls'')) c = Some (Ret (Some cf, c1))"
    "rotate_profile cf c1 = None"
    using GetAviableProxy_returns [OF assms]
    by (auto simp: RebuildSmux_def act_bind_None split: option.splits prod.splits)
  then show False
    using rotate_balanced(1) GetAviableProxy_balanced(2) [OF assms g(1)] by (simp add: ret_def)
qed

lemma RebuildSmux_frame:
  assumes "balanced c" "RebuildSmux E no c = Some (Ret ((err, cf), c'))"
  shows "balanced c'" "length (cl_slots c') = length (cl_slots c)" "cl_ClientNum c' = cl_ClientNum c"
    "cl_lastUse c' = cl_lastUse c" "cl_confNum c' = cl_confNum c"
    "err = None \<Longrightarrow> no < length (cl_slots c) \<and> (\<exists>s. cl_slots c' ! no = Some s \<and> \<not> IsClosed s) \<and> cf \<noteq> None"
proof -
  obtain r c1 where g: "GetAviableProxy E (Some (if no mod 3 = 0 then ''quic'' else ''tls'')) c = Some (Ret (r, c1))"
    and rest: "(case r of None \<Rightarrow> ret ((Some ErrRouteISBreak, None), c1)
       | Some cf \<Rightarrow> act_bind (rotate_profile cf c1) (\<lambda>c2.
           act_bind (Some (connect_tunnel E no cf c2)) (\<lambda>(err, c3). ret ((err, Some cf), c3))))
       = Some (Ret ((err, cf), c'))"
    using assms(2) by (auto simp: RebuildSmux_def act_bind_Ret)
  note gb = GetAviableProxy_balanced [OF assms(1) g]
  have "balanced c' \<and> length (cl_slots c') = length (cl_slots c) \<and> cl_ClientNum c' = cl_ClientNum c \<and>
    cl_lastUse c' = cl_lastUse c \<and> cl_confNum c' = cl_confNum c \<and>
    (err = None \<longrightarrow> no < length (cl_slots c) \<and> (\<exists>s. cl_slots c' ! no = Some s \<and> \<not> IsClosed s) \<and> cf \<noteq> None)"
  proof (cases r)
    case None
    then show ?thesis using rest gb by auto
  next
    case (Some k)
    let ?c2 = "c1\<lparr>cl_profiles := cl_profiles c1 @ [k]\<rparr>"
    have rb: "rotate_profile k c1 = ret ?c2" "balanced ?c2" using rotate_balanced [of c1 k] gb(2) Some by auto
    then have ct: "connect_tunnel E no k ?c2 = Ret (err, c')" "cf = Some k"
      using rest Some by (auto simp: act_bind_Ret split: prod.splits)
    note fr = connect_tunnel_frame [OF ct(1)]
    show ?thesis using fr rb(2) gb(3-6) ct(2) balanced_same [OF fr(1)]
      by (auto simp: same_queue_def nth_list_update)
  qed
  then show "balanced c'" "length (cl_slots c') = length (cl_slots c)" "cl_ClientNum c' = cl_ClientNum c"
    "cl_lastUse c' = cl_lastUse c" "cl_confNum c' = cl_confNum c"
    "err = None \<Longrightarrow> no < length (cl_slots c) \<and> (\<exists>s. cl_slots c' ! no = Some s \<and> \<not> IsClosed s) \<and> cf \<noteq> None"
    by blast+
qed

interpretation rebuild: returning balanced "RebuildSmux E" for E
proof unfold_locales
  show "RebuildSmux E i c \<noteq> None" if "balanced c" for c i using that by (rule RebuildSmux_returns)
  show "balanced c'" if "balanced c" "RebuildSmux E i c = Some (Ret (r, c'))" for c i r c'
    using that RebuildSmux_frame(1) by (cases r) blast
qed

subsection \<open>Sessions\<close>

lemma build_slot_frame:
  "balanced c \<Longrightarrow> build_slot E n q r c \<noteq> None \<and>
    (\<forall>r' c'. build_slot E n q r c = Some (Ret (r', c')) \<longrightarrow> balanced c' \<and>
      length (cl_slots c') = length (cl_slots c) \<and> cl_ClientNum c' = cl_ClientNum c \<and> cl_lastUse c' = cl_lastUse c)"
proof (induction n arbitrary: r c)
  case (Suc n)
  obtain err0 e0 ident pt where r: "r = (err0, e0, ident, pt)" by (metis prod_cases4)
  show ?case
  proof (cases "RebuildSmux E q c")
    case None
    then show ?thesis using RebuildSmux_returns [OF Suc.prems] by simp
  next
    case (Some g)
    show ?thesis
    proof (cases g)
      case Panic
      then show ?thesis using Some r by simp
    next
      case (Ret x)
      obtain err cf c1 where x: "x = ((err, cf), c1)" by (metis surj_pair)
      note fr = RebuildSmux_frame [OF Suc.prems Some [unfolded Ret x]]
      then show ?thesis
        using Some Ret x r Suc.IH [OF fr(1)] by (auto simp: Let_def)
    qed
  qed
qed simp

text \<open>What a finished call leaves: a balanced queue, and the turn with the slot it used.\<close>

definition session_ok :: "nat \<Rightarrow> nat \<Rightarrow> nat \<Rightarrow> (session_result \<times> client) act \<Rightarrow> bool" where
  "session_ok q n k m \<longleftrightarrow> m \<noteq> None \<and> (\<forall>r c'. m = Some (Ret (r, c')) \<longrightarrow> balanced c' \<and> sr_ix r = q \<and>
     cl_lastUse c' = int q \<and> length (cl_slots c') = n \<and> cl_ClientNum c' = k)"

lemma session_ok_bind:
  "m \<noteq> None \<Longrightarrow> (\<And>x. m = Some (Ret x) \<Longrightarrow> session_ok q n k (f x)) \<Longrightarrow> session_ok q n k (act_bind m f)"
  unfolding session_ok_def by (simp add: act_bind_None act_bind_Ret) blast

lemma balanced_simps [simp]:
  "balanced (tick c) = balanced c" "balanced (set_slot q s c) = balanced c" "balanced (spawn t c) = balanced c"
  by (simp_all add: balanced_def)

lemma reopen_session_ok:
  assumes "balanced c" "cl_lastUse c = int q"
  shows "session_ok q (length (cl_slots c)) (cl_ClientNum c) (reopen_session E q s ident pt c)"
proof (cases "RebuildSmux E q c")
  case None
  then show ?thesis using RebuildSmux_returns [OF assms(1)] by simp
next
  case (Some g)
  show ?thesis
  proof (cases g)
    case Panic
    then show ?thesis using Some by (simp add: reopen_session_def session_ok_def)
  next
    case (Ret x)
    obtain err cf c1 where x: "x = ((err, cf), c1)" by (metis surj_pair)
    note fr = RebuildSmux_frame [OF assms(1) Some [unfolded Ret x]]
    have "session_ok q (length (cl_slots c)) (cl_ClientNum c) (ret (R, c'))"
      if "balanced c'" "sr_ix R = q" "cl_lastUse c' = int q" "length (cl_slots c') = length (cl_slots c)"
        "cl_ClientNum c' = cl_ClientNum c" for R c'
      using that by (simp add: session_ok_def)
    then show ?thesis using Some Ret x fr assms(2)
      by (auto simp: reopen_session_def Let_def intro!: session_ok_bind split: option.splits)
  qed
qed

lemma use_session_ok:
  assumes "balanced c" "cl_lastUse c = int q"
  shows "session_ok q (length (cl_slots c)) (cl_ClientNum c) (use_session E q r c)"
proof -
  obtain err e ident pt where r: "r = (err, e, ident, pt)" by (metis prod_cases4)
  have "session_ok q (length (cl_slots c)) (cl_ClientNum c) (ret (R, c'))"
    if "balanced c'" "sr_ix R = q" "cl_lastUse c' = int q" "length (cl_slots c') = length (cl_slots c)"
      "cl_ClientNum c' = cl_ClientNum c" for R c'
    using that by (simp add: session_ok_def)
  then show ?thesis
    using reopen_session_ok [OF assms] assms
    by (auto simp: r use_session_def Let_def intro!: session_ok_bind split: option.splits prod.splits)
qed

lemma GetSession_ok:
  assumes b: "balanced c"
  shows "session_ok (next_slot c) (length (cl_slots c)) (cl_ClientNum c) (GetSession E c)"
proof -
  define q c1 where qd: "q = next_slot c" and "c1 = c\<lparr>cl_lastUse := int q\<rparr>"
  have b1: "balanced c1" using b by (simp add: c1_def balanced_def)
  define start where "start = (case cl_slots c1 ! q of
             None \<Rightarrow> build_slot E 2 q (None, None, [], []) c1
           | Some e \<Rightarrow> ret ((None, Some e, [], []), c1))"
  have start: "start \<noteq> None" "\<And>r c2. start = Some (Ret (r, c2)) \<Longrightarrow> balanced c2 \<and>
      length (cl_slots c2) = length (cl_slots c) \<and> cl_ClientNum c2 = cl_ClientNum c \<and> cl_lastUse c2 = int q"
    using build_slot_frame [OF b1, of E 2 q "(None, None, [], [])"] b1
    unfolding start_def by (auto simp: c1_def split: option.splits)
  have "session_ok q (length (cl_slots c)) (cl_ClientNum c) (act_bind start (\<lambda>(r, c2). use_session E q r c2))"
    using start(2) use_session_ok
    by (intro session_ok_bind [OF start(1)]) (metis (no_types, lifting) case_prod_conv surj_pair)
  moreover have "session_ok q n k (Some Panic)" for n k by (simp add: session_ok_def)
  ultimately show ?thesis
    unfolding GetSession_def Let_def qd [symmetric] c1_def [symmetric] start_def [symmetric] by simp
qed

interpretation sessions: returning balanced "\<lambda>_ :: unit. GetSession E" for E
proof unfold_locales
  show "GetSession E c \<noteq> None" if "balanced c" for c using GetSession_ok [OF that] by (simp add: session_ok_def)
  show "balanced c'" if "balanced c" "GetSession E c = Some (Ret (r, c'))" for c r c'
    using GetSession_ok [OF that(1)] that(2) by (simp add: session_ok_def)
qed

subsection \<open>What a connection gets\<close>

lemma turns:
  "balanced c \<Longrightarrow> act_each (\<lambda>_ :: unit. GetSession E) us c = Some (Ret (rs, c')) \<Longrightarrow> 0 < cl_ClientNum c \<Longrightarrow>
    length rs = length us \<and>
    (\<forall>k<length rs. int (sr_ix (rs ! k)) = (cl_lastUse c + 1 + int k) mod int (cl_ClientNum c))"
proof (induction us arbitrary: c rs)
  case (Cons u us)
  then obtain r c1 rs' where g: "GetSession E c = Some (Ret (r, c1))"
    "act_each (\<lambda>_ :: unit. GetSession E) us c1 = Some (Ret (rs', c'))" "rs = r # rs'"
    by (auto simp: act_bind_Ret split: prod.splits)
  have ok: "balanced c1" "sr_ix r = next_slot c" "cl_lastUse c1 = int (next_slot c)" "cl_ClientNum c1 = cl_ClientNum c"
    using GetSession_ok [OF Cons.prems(1), of E] g(1) by (auto simp: session_ok_def)
  have nx: "int (next_slot c) = (cl_lastUse c + 1) mod int (cl_ClientNum c)"
    using Cons.prems(3) by (simp add: next_slot_def)
  have IH: "length rs' = length us"
    "\<And>k. k < length rs' \<Longrightarrow> int (sr_ix (rs' ! k)) = (int (next_slot c) + 1 + int k) mod int (cl_ClientNum c)"
    using Cons.IH [OF ok(1) g(2)] Cons.prems(3) ok by auto
  have "int (sr_ix (rs ! k)) = (cl_lastUse c + 1 + int k) mod int (cl_ClientNum c)" if "k < length rs" for k
  proof (cases k)
    case 0
    then show ?thesis using ok(2) nx g(3) by simp
  next
    case (Suc j)
    then have "int (sr_ix (rs ! k)) = (int (next_slot c) + (1 + int j)) mod int (cl_ClientNum c)"
      using IH(2) [of j] that g(3) by (simp add: ac_simps)
    also have "\<dots> = (cl_lastUse c + 1 + int k) mod int (cl_ClientNum c)"
      unfolding nx mod_add_left_eq by (simp add: Suc ac_simps)
    finally show ?thesis .
  qed
  then show ?case using IH(1) g(3) by auto
qed (simp add: ret_def)

lemma consecutive_mod_distinct:
  fixes a :: int
  assumes "k < n" "j < n" "(a + int k) mod int n = (a + int j) mod int n"
  shows "k = j"
proof -
  have "int n dvd (a + int k) - (a + int j)" using assms(3) mod_eq_dvd_iff by blast
  then have "int n dvd \<bar>int k - int j\<bar>" by simp
  moreover have "\<bar>int k - int j\<bar> < int n" using assms by linarith
  ultimately show ?thesis using zdvd_not_zless [of "\<bar>int k - int j\<bar>" "int n"] by force
qed

text \<open>
  The slots are used in turn: as many consecutive requests as there are slots use every slot
  exactly once, whether the sessions in them work or not.
\<close>

theorem slots_in_turn:
  assumes "balanced c" "0 < cl_ClientNum c"
    "act_each (\<lambda>_ :: unit. GetSession E) (replicate (cl_ClientNum c) ()) c = Some (Ret (rs, c'))"
  shows "distinct (map sr_ix rs) \<and> set (map sr_ix rs) = {..<cl_ClientNum c}"
proof -
  let ?n = "cl_ClientNum c"
  have len: "length rs = ?n" and ix: "\<And>k. k < ?n \<Longrightarrow> int (sr_ix (rs ! k)) = (cl_lastUse c + 1 + int k) mod int ?n"
    using turns [OF assms(1,3,2)] by auto
  have d: "distinct (map sr_ix rs)"
    unfolding distinct_conv_nth
  proof (intro allI impI notI)
    fix i j assume a: "i < length (map sr_ix rs)" "j < length (map sr_ix rs)" "i \<noteq> j"
      "map sr_ix rs ! i = map sr_ix rs ! j"
    then have "(cl_lastUse c + 1 + int i) mod int ?n = (cl_lastUse c + 1 + int j) mod int ?n"
      using len ix [of i] ix [of j] by simp
    then show False using consecutive_mod_distinct [of i ?n j "cl_lastUse c + 1"] a len by simp
  qed
  moreover have "set (map sr_ix rs) \<subseteq> {..<?n}"
  proof
    fix x assume "x \<in> set (map sr_ix rs)"
    then obtain k where k: "k < ?n" "x = sr_ix (rs ! k)" using len by (auto simp: in_set_conv_nth)
    have "int x < int ?n" using ix [OF k(1)] k(2) assms(2) by simp
    then show "x \<in> {..<?n}" by simp
  qed
  moreover have "card (set (map sr_ix rs)) = ?n" using d len by (simp only: distinct_card length_map)
  ultimately show ?thesis using card_subset_eq [of "{..<?n}" "set (map sr_ix rs)"] by simp
qed

text \<open>
  Rebuilding a closed session does not serve the connection that found it closed: although the
  slot then holds an open session, the stream is asked of the old one, and the connection fails.
\<close>

theorem rebuilt_session_unused:
  assumes "balanced c" "cl_slots c ! next_slot c = Some s" "IsClosed s" "GetSession E c = Some (Ret (r, c'))"
  shows "\<exists>e. sr_con r = Inl e"
proof -
  define c1 where "c1 = c\<lparr>cl_lastUse := int (next_slot c)\<rparr>"
  have "use_session E (next_slot c) (None, Some s, [], []) c1 = Some (Ret (r, c'))"
    using assms(2,4) by (auto simp: GetSession_def Let_def c1_def split: if_splits)
  then obtain err cf c2 where rb: "reopen_session E (next_slot c) s (if ID s \<noteq> [] then ID s else []) [] c1 = Some (Ret (r, c'))"
    "RebuildSmux E (next_slot c) c1 = Some (Ret ((err, cf), c2))"
    using assms(3) by (auto simp: use_session_def Let_def reopen_session_def act_bind_Ret)
  show ?thesis
  proof (cases err)
    case (Some x)
    then show ?thesis using rb by (auto simp: reopen_session_def Let_def)
  next
    case None
    then obtain con s' where "NewConnnect (ce_open E (cl_tick c2)) (CloseSession s) = Ret (con, s')" "sr_con r = con"
      using rb by (auto simp: reopen_session_def Let_def act_bind_Ret)
    then show ?thesis using sess.no_stream_after_close [of "ce_open E (cl_tick c2)" s] by (cases con) auto
  qed
qed

text \<open>An environment in which the server answers every request and every library call succeeds.\<close>

definition toy_decode :: "jval \<Rightarrow> goerr + config" where
  "toy_decode v = (case v of
     JStr t \<Rightarrow> Inr (zero_config\<lparr>cf_ID := ''id-'' @ t, cf_ProxyType := t, cf_Server := SrvStr ''0.0.0.0''\<rparr>)
   | _ \<Rightarrow> Inl (GoErr ''bad''))"

definition toy_client_env :: client_env where
  "toy_client_env = \<lparr>ce_gs = gs_std, ce_gl = gs_list_std, ce_gl_In = (\<lambda>xs x. x \<in> set xs),
     ce_gl_Nth = (\<lambda>xs i. xs ! nat i), ce_url = (\<lambda>s. Inr \<lparr>ul_Scheme = ''https'', ul_Host = ''h:55443'', ul_Port = ''55443''\<rparr>),
     ce_post = (\<lambda>n path d. (''tls'', None)), ce_get = (\<lambda>n path. (''ok'', None)), ce_json = (\<lambda>s. [(''status'', JStr ''ok''), (''msg'', JStr s)]),
     ce_decode = toy_decode, ce_dial = (\<lambda>n c. Inr (conn_of [] EOF)), ce_mux = (\<lambda>n. None),
     ce_quic = (\<lambda>n c. (True, None, ''h:1'')),
     ce_open = (\<lambda>n. \<lparr>me_open1 = Inr (conn_of [] EOF), me_again = Inl EOF, me_open2 = Inl EOF\<rparr>), ce_now = int\<rparr>"

definition toy_client :: client where
  "toy_client = NewClientControll toy_client_env ''h:55443'' 1091 2 0"

lemma toy_client_balanced [simp]: "balanced toy_client"
  by (simp add: toy_client_def NewClientControll_def balanced_def)

lemma toy_two:
  "\<exists>rs c'. act_each (\<lambda>_ :: unit. GetSession toy_client_env) [(), ()] toy_client = Some (Ret (rs, c'))"
proof -
  have "case act_each (\<lambda>_ :: unit. GetSession toy_client_env) [(), ()] toy_client of
      Some (Ret _) \<Rightarrow> True | _ \<Rightarrow> False"
    by code_simp
  then show ?thesis by (auto split: option.splits go.splits)
qed

theorem slots_in_turn_witness:
  "\<exists>rs c'. act_each (\<lambda>_ :: unit. GetSession toy_client_env) [(), ()] toy_client = Some (Ret (rs, c')) \<and>
     set (map sr_ix rs) = {0, 1}"
proof -
  obtain rs c' where r: "act_each (\<lambda>_ :: unit. GetSession toy_client_env) [(), ()] toy_client = Some (Ret (rs, c'))"
    using toy_two by blast
  have n: "cl_ClientNum toy_client = 2" by (simp add: toy_client_def NewClientControll_def)
  have "set (map sr_ix rs) = {..<2}"
    using slots_in_turn [of toy_client toy_client_env rs c'] r by (simp add: n numeral_2_eq_2)
  then show ?thesis using r by auto
qed

definition toy_closed :: client where
  "toy_closed = toy_client\<lparr>cl_slots := [Some (Smux \<lparr>sx_conf = zero_smux, sx_Session = Some True,
     sx_ClientConn = None, sx_ProxyType = ''tls'', sx_eid = []\<rparr>), None]\<rparr>"

theorem rebuilt_session_unused_witness:
  "\<exists>r c' s e. GetSession toy_client_env toy_closed = Some (Ret (r, c')) \<and> cl_slots c' ! 0 = Some s \<and> live s \<and>
     sr_con r = Inl e"
proof -
  have "case GetSession toy_client_env toy_closed of Some (Ret (r, c')) \<Rightarrow>
      (case cl_slots c' ! 0 of Some s \<Rightarrow> live s | None \<Rightarrow> False) | _ \<Rightarrow> False"
    by code_simp
  then obtain r c' s where r: "GetSession toy_client_env toy_closed = Some (Ret (r, c'))" "cl_slots c' ! 0 = Some s" "live s"
    by (auto split: option.splits go.splits prod.splits)
  have "balanced toy_closed" "cl_slots toy_closed ! next_slot toy_closed = Some (Smux \<lparr>sx_conf = zero_smux,
     sx_Session = Some True, sx_ClientConn = None, sx_ProxyType = ''tls'', sx_eid = []\<rparr>)"
    by (simp_all add: toy_closed_def toy_client_def NewClientControll_def balanced_def next_slot_def)
  from rebuilt_session_unused [OF this _ r(1)] r show ?thesis by (auto simp: sx_IsClosed_def)
qed

end
