(* ===== verification/Client_Repair.thy ===== *)
theory Client_Repair
  imports Client_Core
begin

text \<open>
  The repair side of \<open>src/clientcontroll/controll.go\<close>: error counting, the replacement of
  profiles the server is asked for, the clearing of the queue, the scans that rebuild sessions,
  the initial building of all tunnels, and the head of the loop that accepts connections.  The
  loops that poll the queue are partial functions: None is a loop that never ends.
\<close>

lemma act_bind_mono [partial_function_mono]:
  assumes "mono_option B" "\<And>y. mono_option (\<lambda>f. C y f)"
  shows "mono_option (\<lambda>f. act_bind (B f) (\<lambda>y. C y f))"
  unfolding act_bind_def
proof (intro bind_mono assms(1))
  show "mono_option (\<lambda>f. case r of Panic \<Rightarrow> Some Panic | Ret x \<Rightarrow> C x f)" for r
    by (cases r) (simp_all add: assms(2) option.const_mono)
qed

subsection \<open>Counting errors\<close>

definition second :: int where "second = 1000000000"

definition ErrRecord :: "client_env \<Rightarrow> string \<Rightarrow> int \<Rightarrow> client \<Rightarrow> client" where
  "ErrRecord E eid i c =
     (let c1 = (tick c)\<lparr>cl_errTime := ce_now E (cl_tick c), cl_errorid := map_add eid i (cl_errorid c),
            cl_ErrCount := cl_ErrCount c + i, cl_errCon := cl_errCon c + i\<rparr> in
      if 1 < i then c1\<lparr>cl_RouteErrCount := cl_RouteErrCount c1 + 1\<rparr> else c1)"

definition ErrVanish :: "string \<Rightarrow> client \<Rightarrow> client" where
  "ErrVanish eid c =
     c\<lparr>cl_errorid := (case map_of (cl_errorid c) eid of
          Some k \<Rightarrow> if 0 < k then AList.update eid (k - 1) (cl_errorid c) else cl_errorid c
        | None \<Rightarrow> cl_errorid c),
       cl_ErrCount := (if 0 < cl_ErrCount c then cl_ErrCount c - 1 else cl_ErrCount c),
       cl_RouteErrCount := (if 0 < cl_RouteErrCount c then cl_RouteErrCount c - 1 else cl_RouteErrCount c)\<rparr>"

definition ConnectRemote :: "client_env \<Rightarrow> client \<Rightarrow> (session_result \<times> client) act" where
  "ConnectRemote E c =
     act_bind (GetSession E c) (\<lambda>(r, c1).
       case sr_con r of
         Inr _ \<Rightarrow> ret (r, c1)
       | Inl _ \<Rightarrow>
           if ce_now E (cl_tick c1) - cl_errTime c1 < second then ret (r, spawn ScanFix (tick c1))
           else ret (r, ErrRecord E (sr_id r) 2 (tick c1)))"

definition Health :: "client \<Rightarrow> rat \<times> client" where
  "Health c0 =
     (let c = (if cl_acceptCount c0 = 0 then c0\<lparr>cl_acceptCount := 1\<rparr> else c0) in
      (100 - of_int (cl_errCon c) * 100 / of_int (cl_acceptCount c), c))"

subsection \<open>Clearing and scanning\<close>

fun clear_count :: "config list \<Rightarrow> int \<Rightarrow> int" where
  "clear_count [] n = n"
| "clear_count (_ # ps) n = clear_count ps (if 0 < n then n - 1 else n)"

definition ClearPofiles :: "client \<Rightarrow> client" where
  "ClearPofiles c =
     (if cl_fixing c then c
      else c\<lparr>cl_profiles := [], cl_init := clear_count (cl_profiles c) (cl_init c), cl_fixing := False\<rparr>)"

definition ReConnect :: "client_env \<Rightarrow> nat \<Rightarrow> client \<Rightarrow> (goerr option \<times> client) act" where
  "ReConnect E q c = act_bind (RebuildSmux E q (ClearPofiles c)) (\<lambda>((err, _), c1). ret (err, c1))"

definition scan_slot :: "client_env \<Rightarrow> nat \<Rightarrow> client \<Rightarrow> (unit \<times> client) act" where
  "scan_slot E no c =
     (case cl_slots c ! no of
        None \<Rightarrow> ret ((), c)
      | Some e \<Rightarrow>
          if IsClosed e then act_bind (RebuildSmux E no c) (\<lambda>(_, c1). ret ((), c1)) else ret ((), c))"

definition ScanSessionAndFix :: "client_env \<Rightarrow> client \<Rightarrow> client act" where
  "ScanSessionAndFix E c =
     (if cl_fixing c then ret c
      else act_bind (act_each (scan_slot E) [0..<length (cl_slots c)]
          (c\<lparr>cl_fixing := True, cl_profiles := [], cl_init := 0\<rparr>))
        (\<lambda>(_, c1). ret (c1\<lparr>cl_fixing := False\<rparr>)))"

definition fix_slot :: "client_env \<Rightarrow> string \<Rightarrow> nat \<Rightarrow> client \<Rightarrow> (unit \<times> client) act" where
  "fix_slot E errid no c =
     (case cl_slots c ! no of
        None \<Rightarrow> ret ((), c)
      | Some e \<Rightarrow>
          if ID e = errid then act_bind (RebuildSmux E no c) (\<lambda>(_, c1). ret ((), c1)) else ret ((), c))"

definition FixBuildSmux :: "client_env \<Rightarrow> string \<Rightarrow> client \<Rightarrow> client act" where
  "FixBuildSmux E errid c =
     act_bind (act_each (fix_slot E errid) [0..<length (cl_slots c)] c) (\<lambda>(_, c1). ret c1)"

subsection \<open>Reporting a broken profile\<close>

definition route_up :: "client \<Rightarrow> client" where
  "route_up c = c\<lparr>cl_RouteErrCount := cl_RouteErrCount c + 1\<rparr>"

text \<open>The new profile is sent to the queue inside the lock, so a full queue blocks.\<close>

definition ErrSoGetNew :: "client_env \<Rightarrow> string \<Rightarrow> client \<Rightarrow> client act" where
  "ErrSoGetNew E ident c =
     (if ident = [] then ret c
      else case post E ''/proxy-err'' (Some [(''ID'', JStr ident)]) c of ((reply, err), c0) \<Rightarrow>
        let c1 = (if err \<noteq> None then route_up c0 else c0) in
        if reply = [] then ret (route_up c1)
        else act_bind (Some (RecvMsg E reply)) (\<lambda>(obj, ok).
          if \<not> ok then ret c1
          else case ce_decode E obj of
            Inl _ \<Rightarrow> ret c1
          | Inr conf \<Rightarrow>
              act_bind (if cf_Server conf = SrvStr ''0.0.0.0''
                 then (case gs_Split (ce_gs E) (Wrap E (cl_Addr c)) '':'' of
                         [] \<Rightarrow> Some Panic
                       | h # _ \<Rightarrow> ret (conf\<lparr>cf_Server := SrvStr (gs_Trim (ce_gs E) h)\<rparr>))
                 else ret conf)
               (\<lambda>conf'. act_bind (send_profile conf' c1) (\<lambda>c2.
                  FixBuildSmux E ident
                    (c2\<lparr>cl_errorid := AList.update (cf_ID conf') 0 (cl_errorid c2),
                        cl_RouteErrCount := (if 0 < cl_RouteErrCount c2 then cl_RouteErrCount c2 - 1 else cl_RouteErrCount c2),
                        cl_mark := AList.delete ident (cl_mark c2)\<rparr>)))))"

text \<open>The ids with more than four errors that are not being reported already.\<close>

fun mark_bad :: "client_env \<Rightarrow> (string \<times> int) list \<Rightarrow> string list \<Rightarrow> (string \<times> bool) list \<Rightarrow>
    string list \<times> (string \<times> bool) list" where
  "mark_bad E [] ids mark = (ids, mark)"
| "mark_bad E ((i, k) # es) ids mark =
     (if 4 < k \<and> map_of mark i = None
      then mark_bad E es (gl_Add (ce_gl E) ids i) (AList.update i True mark)
      else mark_bad E es ids mark)"

partial_function (option) report_loop :: "client_env \<Rightarrow> string list \<Rightarrow> nat \<Rightarrow> client \<Rightarrow> client act" where
  "report_loop E ids left c =
     (if left = 0 then ret c
      else case cl_profiles c of
        [] \<Rightarrow> report_loop E ids left c
      | conf # rest \<Rightarrow>
          if ce_gl_In E ids (cf_ID conf)
          then act_bind (ErrSoGetNew E (cf_ID conf) (c\<lparr>cl_profiles := rest,
              cl_ErrCount := cl_ErrCount c - (case map_of (cl_errorid c) (cf_ID conf) of None \<Rightarrow> 0 | Some k \<Rightarrow> k)\<rparr>))
            (\<lambda>c1. report_loop E ids (left - 1) c1)
          else act_bind (send_profile conf (c\<lparr>cl_profiles := rest\<rparr>)) (\<lambda>c1. report_loop E ids left c1))"

text \<open>In the end every session of the first \<open>ClientNum\<close> slots is closed and dropped.\<close>

fun drop_slots :: "nat \<Rightarrow> csess option list \<Rightarrow> csess option list go" where
  "drop_slots 0 ss = Ret ss"
| "drop_slots (Suc n) ss = (case ss of [] \<Rightarrow> Panic | _ # r \<Rightarrow> go_bind (drop_slots n r) (\<lambda>r'. Ret (None # r')))"

definition ReportErrorProxy :: "client_env \<Rightarrow> client \<Rightarrow> client act" where
  "ReportErrorProxy E c =
     (case mark_bad E (cl_errorid c) [] (cl_mark c) of (ids, mark) \<Rightarrow>
        act_bind (report_loop E ids (length ids) (c\<lparr>cl_mark := mark\<rparr>)) (\<lambda>c1.
          act_bind (Some (drop_slots (cl_ClientNum c1) (cl_slots c1))) (\<lambda>ss. ret (c1\<lparr>cl_slots := ss\<rparr>))))"

subsection \<open>Switching profiles\<close>

text \<open>The search for the profile with most errors; the maximum is compared with but never set.\<close>

fun auto_scan :: "(string \<times> int) list \<Rightarrow> int \<Rightarrow> string \<Rightarrow> string" where
  "auto_scan [] maxnum maxid = maxid"
| "auto_scan ((i, enum) # es) maxnum maxid = auto_scan es maxnum (if maxnum < enum then i else maxid)"

partial_function (option) switch_loop :: "client_env \<Rightarrow> string \<Rightarrow> client \<Rightarrow> client act" where
  "switch_loop E maxid c =
     (case cl_profiles c of
        [] \<Rightarrow> switch_loop E maxid c
      | conf # rest \<Rightarrow>
          if cf_ID conf = maxid
          then act_bind (GetAviableProxy E None (c\<lparr>cl_profiles := rest, cl_init := cl_init c - 1\<rparr>)) (\<lambda>(nc, c1).
            case nc of
              None \<Rightarrow> ret c1
            | Some k \<Rightarrow> act_bind (send_profile k c1) (\<lambda>c2.
                ret (c2\<lparr>cl_errorid := AList.update (cf_ID k) 0 (cl_errorid c2)\<rparr>)))
          else act_bind (send_profile conf (c\<lparr>cl_profiles := rest\<rparr>)) (\<lambda>c1. switch_loop E maxid c1))"

definition AutoSwitchProfile :: "client_env \<Rightarrow> client \<Rightarrow> client act" where
  "AutoSwitchProfile E c =
     (let maxid = auto_scan (cl_errorid c) 0 [] in
      if maxid = [] then ret c
      else switch_loop E maxid (c\<lparr>cl_errorid := AList.delete maxid (cl_errorid c)\<rparr>))"

subsection \<open>Building every tunnel\<close>

text \<open>The result says whether the shared counter of broken routes went up.\<close>

definition BuildChannel :: "client_env \<Rightarrow> nat \<Rightarrow> client \<Rightarrow> (bool \<times> client) act" where
  "BuildChannel E channelID c =
     act_bind (RebuildSmux E channelID c) (\<lambda>((err, _), c1). ret (err = Some ErrRouteISBreak, c1))"

text \<open>
  \<open>order\<close> lists the channels whose goroutine is through when the waiting ends, in the order they
  ran; only the first ten are waited for.
\<close>

definition waited_for :: "nat list \<Rightarrow> client \<Rightarrow> bool" where
  "waited_for order c \<longleftrightarrow> distinct order \<and> set order \<subseteq> {..<cl_ClientNum c} \<and> {..<min 10 (cl_ClientNum c)} \<subseteq> set order"

definition InitializationTunnels :: "client_env \<Rightarrow> nat list \<Rightarrow> client \<Rightarrow> (bool \<times> client) act" where
  "InitializationTunnels E order c =
     act_bind (act_each (BuildChannel E) order c) (\<lambda>(broken, c1).
       let errnum = length (filter (\<lambda>b. b) broken); c2 = c1\<lparr>cl_inited := True\<rparr> in
       if cl_ClientNum c2 div 2 < errnum
       then ret (False, c2\<lparr>cl_Loc := ''this is break, try next !!!''\<rparr>)
       else ret (True, c2))"

definition drained :: "client \<Rightarrow> client" where
  "drained c = c\<lparr>cl_profiles := [], cl_init := 0, cl_errorid := []\<rparr>"

definition fetch_drop :: "client_env \<Rightarrow> string \<Rightarrow> nat \<Rightarrow> client \<Rightarrow> (unit \<times> client) act" where
  "fetch_drop E tp i c = act_bind (GetAviableProxy E (Some tp) c) (\<lambda>(_, c1). ret ((), c1))"

definition ChangeProxyType :: "client_env \<Rightarrow> nat list \<Rightarrow> string \<Rightarrow> client \<Rightarrow> client act" where
  "ChangeProxyType E order tp c =
     act_bind (act_each (fetch_drop E tp) [0..<cl_confNum c] (drained c)) (\<lambda>(_, c1).
       act_bind (InitializationTunnels E order c1) (\<lambda>(_, c2). ret c2))"

definition ControllCode :: "client_env \<Rightarrow> nat list \<Rightarrow> string \<Rightarrow> client \<Rightarrow> client act" where
  "ControllCode E order host c =
     (if gs_StartsWith (ce_gs E) host ''c://change/''
      then ChangeProxyType E order
        (gs_Trim (ce_gs E) (ce_gl_Nth E (gs_Split (ce_gs E) host ''c://change/'') 1)) c
      else ret c)"

definition ChangeNewRoute :: "client_env \<Rightarrow> string option \<Rightarrow> client \<Rightarrow> client" where
  "ChangeNewRoute E getNewRoute c =
     (case getNewRoute of
        None \<Rightarrow> c
      | Some newroute \<Rightarrow>
          if newroute = [] then c
          else
            let n1 = (if \<not> gs_In (ce_gs E) newroute '':'' then newroute @ '':55443'' else newroute);
                n2 = (if \<not> gs_In (ce_gs E) n1 ''://'' then ''https://'' @ n1 else n1) in
            (drained (c\<lparr>cl_Addr := n2\<rparr>))\<lparr>cl_RouteErrCount := 0, cl_ErrCount := 0\<rparr>)"

text \<open>The sessions are closed, but the loop meant to drop them only assigns its own variable.\<close>

definition Init :: "client \<Rightarrow> client" where
  "Init c = c\<lparr>cl_lastUse := 0, cl_profiles := [], cl_init := 0, cl_errorid := [], cl_ErrCount := 0,
     cl_errCon := 0, cl_acceptCount := 100, cl_slots := map (map_option CloseSession) (cl_slots c),
     cl_inited := False, cl_dnsservice := False, cl_IsRunning := False, cl_IsBreak := False,
     cl_RouteErrCount := 0\<rparr>"

subsection \<open>The accepting loop\<close>

datatype round = Switch | Stop | Accept

text \<open>
  What precedes each \<open>Accept\<close>: a requested restart at most every five minutes, a switch to
  another route (if one can be had) when errors pile up, a report of broken profiles.
\<close>

definition loop_head :: "client_env \<Rightarrow> bool \<Rightarrow> nat list \<Rightarrow> bool \<Rightarrow> client \<Rightarrow> (round \<times> bool \<times> client) act" where
  "loop_head E has_route order restart c =
     act_bind
       (if restart \<and> 5 * 60 * second < ce_now E (cl_tick c) - cl_lastRestart c
        then act_bind (InitializationTunnels E order
            (Init ((tick (tick c))\<lparr>cl_lastRestart := ce_now E (cl_tick c + 1)\<rparr>))) (\<lambda>(_, c1). ret (False, c1))
        else ret (restart, if restart then tick c else c))
       (\<lambda>(rs, c1).
          if has_route \<and> (10 < cl_RouteErrCount c1 \<or> 70 < cl_ErrCount c1) then ret (Switch, rs, c1)
          else
            let c2 = (if 12 < cl_ErrCount c1 \<and> has_route then spawn ReportErrors c1 else c1) in
            if cl_closeFlag c2 then ret (Stop, rs, c2) else ret (Accept, rs, c2))"

text \<open>
  One round of the goroutine beside it.  Its tickers are made anew in every round and the select
  has a default, so that \<open>waited\<close>, the time since they were made, decides whether one has fired;
  the result says whether a restart is asked for.
\<close>

definition monitor_round :: "client_env \<Rightarrow> int \<Rightarrow> client \<Rightarrow> bool \<times> client" where
  "monitor_round E waited c =
     (if 10 * second \<le> waited then
        (if 3 * second < ce_now E (cl_tick c) - cl_errTime c \<and> 0 < cl_errCon c
         then (False, (tick c)\<lparr>cl_errCon := cl_errCon c - 1\<rparr>) else (False, tick c))
      else if ce_now E (cl_tick c) - cl_errTime c < 3 * second then
        (case Health ((tick c)\<lparr>cl_errHit := cl_errHit c + 1\<rparr>) of (h, c1) \<Rightarrow> (h < 20, c1))
      else (False, (tick c)\<lparr>cl_errHit := 1\<rparr>))"

subsection \<open>Repairs that never end\<close>

definition lists_ok :: "client_env \<Rightarrow> bool" where
  "lists_ok E \<longleftrightarrow> gs_list_ok (ce_gl E) \<and> (\<forall>xs x. ce_gl_In E xs x = (x \<in> set xs))"

definition bad_ids :: "client \<Rightarrow> string list" where
  "bad_ids c = map fst (filter (\<lambda>(i, k). 4 < k \<and> map_of (cl_mark c) i = None) (cl_errorid c))"

lemma mark_bad_spec:
  assumes "gs_list_ok (ce_gl E)"
  shows "distinct (map fst es) \<Longrightarrow>
    fst (mark_bad E es ids mark) = ids @ map fst (filter (\<lambda>(i, k). 4 < k \<and> map_of mark i = None) es)"
proof (induction es arbitrary: ids mark)
  case (Cons e es)
  obtain i k where e: "e = (i, k)" by (cases e)
  have "filter (\<lambda>(j, k). 4 < k \<and> map_of (AList.update i True mark) j = None) es =
      filter (\<lambda>(j, k). 4 < k \<and> map_of mark j = None) es"
  proof (rule filter_cong [OF refl])
    fix x assume "x \<in> set es"
    then have "fst x \<noteq> i" using Cons.prems e by (force simp: image_iff)
    then show "(case x of (j, k) \<Rightarrow> 4 < k \<and> map_of (AList.update i True mark) j = None) =
        (case x of (j, k) \<Rightarrow> 4 < k \<and> map_of mark j = None)"
      by (cases x) (simp add: update_conv')
  qed
  then show ?case using Cons e by (simp add: gs_listD [OF assms])
qed simp

lemma marked:
  assumes "lists_ok E" "distinct (map fst (cl_errorid c))"
  obtains mark where "mark_bad E (cl_errorid c) [] (cl_mark c) = (bad_ids c, mark)"
  using mark_bad_spec [of E "cl_errorid c" "[]" "cl_mark c"] assms
  by (metis append_Nil bad_ids_def lists_ok_def prod.collapse)

lemma report_loop_spins:
  assumes "report_loop E ids left c = Some y"
  shows "0 < left \<longrightarrow> (\<exists>conf \<in> set (cl_profiles c). ce_gl_In E ids (cf_ID conf))"
proof (rule report_loop.raw_induct [OF _ assms], goal_cases)
  case (1 rl E ids left c y)
  show ?case
  proof (cases "cl_profiles c")
    case Nil
    then show ?thesis using 1(1) [of E ids left c y] 1(2) by (auto split: if_splits)
  next
    case (Cons conf rest)
    show ?thesis
    proof (cases "ce_gl_In E ids (cf_ID conf)")
      case False
      show ?thesis
      proof
        assume l: "0 < left"
        have m: "act_bind (send_profile conf (c\<lparr>cl_profiles := rest\<rparr>)) (\<lambda>c1. rl E ids left c1) = Some y"
          using 1(2) Cons False l by simp
        show "\<exists>conf \<in> set (cl_profiles c). ce_gl_In E ids (cf_ID conf)"
        proof (cases "length rest < cl_confNum c")
          case True
          then have "rl E ids left (c\<lparr>cl_profiles := rest @ [conf]\<rparr>) = Some y"
            using m by (simp add: send_profile_def)
          from 1(1) [OF this] l Cons show ?thesis by auto
        next
          case False
          then show ?thesis using m by (simp add: send_profile_def)
        qed
      qed
    qed (auto simp: Cons)
  qed
qed

text \<open>
  Reporting broken profiles never ends when none of the ids to be replaced is in the queue:
  the loop takes each profile out and puts it back for ever.  This is the rule for smux
  sessions, whose errors are all counted under the empty id.
\<close>

theorem report_spins:
  assumes "lists_ok E" "distinct (map fst (cl_errorid c))" "bad_ids c \<noteq> []"
    "\<forall>p \<in> set (cl_profiles c). cf_ID p \<notin> set (bad_ids c)"
  shows "ReportErrorProxy E c = None"
proof -
  obtain mark where m: "mark_bad E (cl_errorid c) [] (cl_mark c) = (bad_ids c, mark)"
    using marked [OF assms(1,2)] .
  have "report_loop E (bad_ids c) (length (bad_ids c)) (c\<lparr>cl_mark := mark\<rparr>) = None"
  proof (rule ccontr)
    assume "report_loop E (bad_ids c) (length (bad_ids c)) (c\<lparr>cl_mark := mark\<rparr>) \<noteq> None"
    then obtain y where "report_loop E (bad_ids c) (length (bad_ids c)) (c\<lparr>cl_mark := mark\<rparr>) = Some y" by blast
    from report_loop_spins [OF this] assms show False by (auto simp: lists_ok_def)
  qed
  then show ?thesis by (simp add: ReportErrorProxy_def m)
qed

lemma toy_lists [simp]: "lists_ok toy_client_env"
  by (simp add: lists_ok_def toy_client_env_def)

theorem report_spins_witness:
  "ReportErrorProxy toy_client_env (ErrRecord toy_client_env [] 5
     (toy_client\<lparr>cl_profiles := [zero_config\<lparr>cf_ID := ''a''\<rparr>], cl_init := 1\<rparr>)) = None"
  by (rule report_spins)
    (simp_all add: ErrRecord_def bad_ids_def map_add_def tick_def toy_client_def NewClientControll_def Let_def)

lemma switch_loop_spins:
  assumes "switch_loop E i c = Some y"
  shows "\<exists>conf \<in> set (cl_profiles c). cf_ID conf = i"
proof (rule switch_loop.raw_induct [OF _ assms], goal_cases)
  case (1 sl E i c y)
  show ?case
  proof (cases "cl_profiles c")
    case Nil
    then show ?thesis using 1(1) [of E i c y] 1(2) by auto
  next
    case (Cons conf rest)
    show ?thesis
    proof (cases "cf_ID conf = i")
      case False
      have m: "act_bind (send_profile conf (c\<lparr>cl_profiles := rest\<rparr>)) (\<lambda>c1. sl E i c1) = Some y"
        using 1(2) Cons False by simp
      show ?thesis
      proof (cases "length rest < cl_confNum c")
        case True
        then have "sl E i (c\<lparr>cl_profiles := rest @ [conf]\<rparr>) = Some y"
          using m by (simp add: send_profile_def)
        from 1(1) [OF this] Cons show ?thesis by auto
      next
        case False
        then show ?thesis using m by (simp add: send_profile_def)
      qed
    qed (auto simp: Cons)
  qed
qed

lemma auto_scan_last:
  "auto_scan es 0 i0 = (case filter (\<lambda>(_, k). 0 < k) es of [] \<Rightarrow> i0 | _ \<Rightarrow> fst (last (filter (\<lambda>(_, k). 0 < k) es)))"
  by (induction es arbitrary: i0) (auto split: list.splits)

text \<open>
  The profile to be switched is not the one with most errors but the last one with any, in
  the iteration order of the map; and if that profile is no longer in the queue, the switch never
  ends.
\<close>

theorem auto_switch_spins:
  assumes "filter (\<lambda>(_, k). 0 < k) (cl_errorid c) = es @ [(i, k)]" "i \<noteq> []" "\<forall>p \<in> set (cl_profiles c). cf_ID p \<noteq> i"
  shows "auto_scan (cl_errorid c) 0 [] = i \<and> AutoSwitchProfile E c = None"
proof -
  have a: "auto_scan (cl_errorid c) 0 [] = i"
    using assms(1) by (cases es) (simp_all add: auto_scan_last)
  have "switch_loop E i (c\<lparr>cl_errorid := AList.delete i (cl_errorid c)\<rparr>) = None"
  proof (rule ccontr)
    assume "switch_loop E i (c\<lparr>cl_errorid := AList.delete i (cl_errorid c)\<rparr>) \<noteq> None"
    then obtain y where "switch_loop E i (c\<lparr>cl_errorid := AList.delete i (cl_errorid c)\<rparr>) = Some y" by blast
    from switch_loop_spins [OF this] assms(3) show False by auto
  qed
  then show ?thesis using a assms(2) by (simp add: AutoSwitchProfile_def Let_def)
qed

theorem auto_switch_spins_witness:
  "auto_scan [(''bad'', 9), (''ok'', 1)] 0 [] = ''ok'' \<and>
   AutoSwitchProfile toy_client_env (toy_client\<lparr>cl_errorid := [(''bad'', 9), (''ok'', 1)],
     cl_profiles := [zero_config\<lparr>cf_ID := ''bad''\<rparr>], cl_init := 1\<rparr>) = None"
  using auto_switch_spins [of "toy_client\<lparr>cl_errorid := [(''bad'', 9), (''ok'', 1)],
     cl_profiles := [zero_config\<lparr>cf_ID := ''bad''\<rparr>], cl_init := 1\<rparr>" "[(''bad'', 9)]" "''ok''" 1 toy_client_env]
  by simp

subsection \<open>An unreachable server\<close>

definition down :: "client_env \<Rightarrow> bool" where
  "down E \<longleftrightarrow> (\<forall>n url data. \<exists>e. ce_post E n url data = ([], Some e))"

lemma down_post: "down E \<Longrightarrow> \<exists>e. post E path data c = (([], Some e), tick c)"
  by (auto simp: down_def post_def)

lemma down_retry: "down E \<Longrightarrow> \<exists>e c'. post_retry E (Suc n) data res c = (([], Some e), c')"
proof (induction n arbitrary: res c)
  case 0
  from down_post [OF 0, of "''/proxy-get''" data c] show ?case by auto
next
  case (Suc n)
  from down_post [OF Suc.prems, of "''/proxy-get''" data c] obtain e where
    "post E ''/proxy-get'' data c = (([], Some e), tick c)" by blast
  then have "post_retry E (Suc (Suc n)) data res c = post_retry E (Suc n) data ([], Some e) (tick c)"
    by (simp only: post_retry.simps) simp
  then show ?case using Suc.IH [OF Suc.prems] by simp
qed

lemma down_fetch:
  assumes "down E"
  obtains c' where "fetch_profile E tp c = Ret (None, c')"
proof -
  obtain e c' where "post_retry E 2 (map_option (\<lambda>t. [(''type'', JStr t)]) tp) ([], None)
      (c\<lparr>cl_init := cl_init c + 1\<rparr>) = (([], Some e), c')"
    using down_retry [OF assms, of 1] by (metis Suc_1)
  then have "fetch_profile E tp c = Ret (None, route_fail c')" by (simp add: fetch_profile_def)
  then show ?thesis by (rule that)
qed

lemma down_rebuild:
  assumes "down E" "cl_init c < int (cl_confNum c)"
  shows "\<exists>c'. RebuildSmux E no c = ret ((Some ErrRouteISBreak, None), c') \<and> cl_init c' = cl_init c \<and>
    cl_confNum c' = cl_confNum c \<and> cl_ClientNum c' = cl_ClientNum c"
proof -
  obtain c' where f: "fetch_profile E (Some (if no mod 3 = 0 then ''quic'' else ''tls'')) c = Ret (None, c')"
    using down_fetch [OF assms(1)] by blast
  then show ?thesis using assms(2) fetch_profile_frame [OF f]
    by (auto simp: RebuildSmux_def GetAviableProxy_def)
qed

lemma down_build:
  "down E \<Longrightarrow> cl_init c < int (cl_confNum c) \<Longrightarrow>
    \<exists>c'. act_each (BuildChannel E) order c = ret (replicate (length order) True, c') \<and> cl_ClientNum c' = cl_ClientNum c"
proof (induction order arbitrary: c)
  case (Cons i order)
  obtain c1 where r: "RebuildSmux E i c = ret ((Some ErrRouteISBreak, None), c1)" "cl_init c1 = cl_init c"
    "cl_confNum c1 = cl_confNum c" "cl_ClientNum c1 = cl_ClientNum c"
    using down_rebuild [OF Cons.prems] by blast
  then have b: "BuildChannel E i c = ret (True, c1)" by (simp add: BuildChannel_def)
  obtain c' where "act_each (BuildChannel E) order c1 = ret (replicate (length order) True, c')"
    "cl_ClientNum c' = cl_ClientNum c1"
    using Cons.IH [of c1] Cons.prems r by auto
  then show ?case using b r(4) by simp
qed simp

text \<open>
  With a server that cannot be reached, the initial building declares the route usable exactly
  if no more than half of the goroutines are through when it stops waiting.  Below twenty tunnels
  that never happens; from twenty on, waiting for the first ten only, it does.
\<close>

theorem broken_route_verdict:
  assumes "down E" "cl_init c < int (cl_confNum c)"
  shows "\<exists>c'. InitializationTunnels E order c = Some (Ret (length order \<le> cl_ClientNum c div 2, c')) \<and>
    (waited_for order c \<longrightarrow> 0 < cl_ClientNum c \<longrightarrow> cl_ClientNum c < 20 \<longrightarrow> \<not> length order \<le> cl_ClientNum c div 2)"
proof -
  obtain c' where b: "act_each (BuildChannel E) order c = ret (replicate (length order) True, c')"
    "cl_ClientNum c' = cl_ClientNum c"
    using down_build [OF assms] by blast
  have "\<exists>c'. InitializationTunnels E order c = Some (Ret (length order \<le> cl_ClientNum c div 2, c'))"
    using b by (auto simp: InitializationTunnels_def Let_def ret_def)
  moreover have "min 10 (cl_ClientNum c) \<le> length order" if "waited_for order c"
  proof -
    have "card {..<min 10 (cl_ClientNum c)} \<le> card (set order)"
      using that by (intro card_mono) (auto simp: waited_for_def)
    then show ?thesis using that by (simp add: waited_for_def distinct_card)
  qed
  ultimately show ?thesis by (auto simp: min_def split: if_splits)
qed

definition down_client_env :: client_env where
  "down_client_env = toy_client_env\<lparr>ce_post := (\<lambda>_ _ _. ([], Some ErrTimeout))\<rparr>"

lemma down_client_env [simp]: "down down_client_env"
  by (simp add: down_def down_client_env_def)

theorem broken_route_verdict_witness:
  "\<exists>c'. InitializationTunnels down_client_env [0..<10] (NewClientControll toy_client_env ''h:55443'' 1091 20 0) =
      Some (Ret (True, c')) \<and>
    waited_for [0..<10] (NewClientControll toy_client_env ''h:55443'' 1091 20 0)"
  using broken_route_verdict [of down_client_env "NewClientControll toy_client_env ''h:55443'' 1091 20 0" "[0..<10]"]
  by (auto simp: NewClientControll_def waited_for_def)

lemma report_loop_down:
  assumes "down E" "lists_ok E"
  shows "\<forall>p \<in> set (cl_profiles c). cf_ID p \<in> set ids \<Longrightarrow>
    \<exists>c'. report_loop E ids (length (cl_profiles c)) c = ret c' \<and> cl_profiles c' = [] \<and> cl_init c' = cl_init c \<and>
      cl_confNum c' = cl_confNum c \<and> cl_ClientNum c' = cl_ClientNum c \<and> cl_slots c' = cl_slots c"
proof (induction "cl_profiles c" arbitrary: c)
  case Nil
  then show ?case by (auto simp: report_loop.simps)
next
  case (Cons p ps)
  define c0 where "c0 = c\<lparr>cl_profiles := ps, cl_ErrCount := cl_ErrCount c -
    (case map_of (cl_errorid c) (cf_ID p) of None \<Rightarrow> 0 | Some k \<Rightarrow> k)\<rparr>"
  obtain e where "post E ''/proxy-err'' (Some [(''ID'', JStr (cf_ID p))]) c0 = (([], Some e), tick c0)"
    using down_post [OF assms(1)] by blast
  then have e: "ErrSoGetNew E (cf_ID p) c0 = ret (if cf_ID p = [] then c0 else route_up (route_up (tick c0)))"
    by (simp add: ErrSoGetNew_def)
  define c1 where "c1 = (if cf_ID p = [] then c0 else route_up (route_up (tick c0)))"
  have c1: "cl_profiles c1 = ps" "cl_init c1 = cl_init c" "cl_confNum c1 = cl_confNum c"
    "cl_ClientNum c1 = cl_ClientNum c" "cl_slots c1 = cl_slots c"
    by (simp_all add: c1_def c0_def route_up_def)
  have "report_loop E ids (length (cl_profiles c)) c = report_loop E ids (length ps) c1"
    using Cons.prems Cons.hyps(2) [symmetric] assms(2) e
    by (subst report_loop.simps) (simp add: lists_ok_def c0_def [symmetric] c1_def [symmetric])
  moreover have "\<exists>c'. report_loop E ids (length (cl_profiles c1)) c1 = ret c' \<and> cl_profiles c' = [] \<and>
      cl_init c' = cl_init c1 \<and> cl_confNum c' = cl_confNum c1 \<and> cl_ClientNum c' = cl_ClientNum c1 \<and>
      cl_slots c' = cl_slots c1"
  proof (rule Cons.hyps(1))
    show "ps = cl_profiles c1" using c1 by simp
    show "\<forall>p \<in> set (cl_profiles c1). cf_ID p \<in> set ids" using Cons.prems Cons.hyps(2) [symmetric] c1(1) by simp
  qed
  ultimately show ?case using c1 by auto
qed

lemma drop_slots_spec: "n \<le> length ss \<Longrightarrow> drop_slots n ss = Ret (replicate n None @ drop n ss)"
proof (induction n arbitrary: ss)
  case (Suc n)
  then show ?case by (cases ss) simp_all
qed simp

lemma starved_session:
  assumes "cl_profiles c = []" "int (cl_confNum c) \<le> cl_init c" "0 < cl_ClientNum c"
    "next_slot c < length (cl_slots c)" "cl_slots c ! next_slot c = None"
  shows "GetSession E c = None"
  using assms unfolding GetSession_def Let_def
  by (simp add: numeral_2_eq_2 RebuildSmux_def GetAviableProxy_def)

text \<open>
  A report of broken profiles while the server does not answer starves the client: when it
  concerned every profile of the queue, the queue is empty for good, and the next connection waits
  for ever, whatever the server answers from then on.
\<close>

theorem report_starves:
  assumes "lists_ok E" "distinct (map fst (cl_errorid c))" "down E"
    "0 < cl_ClientNum c" "cl_ClientNum c \<le> length (cl_slots c)" "int (cl_confNum c) \<le> cl_init c"
    "length (cl_profiles c) = length (bad_ids c)" "\<forall>p \<in> set (cl_profiles c). cf_ID p \<in> set (bad_ids c)"
  shows "\<exists>c'. ReportErrorProxy E c = Some (Ret c') \<and> (\<forall>E'. GetSession E' c' = None)"
proof -
  obtain mark where m: "mark_bad E (cl_errorid c) [] (cl_mark c) = (bad_ids c, mark)"
    using marked [OF assms(1,2)] .
  obtain c1 where c1: "report_loop E (bad_ids c) (length (bad_ids c)) (c\<lparr>cl_mark := mark\<rparr>) = ret c1"
    "cl_profiles c1 = []" "cl_init c1 = cl_init c" "cl_confNum c1 = cl_confNum c"
    "cl_ClientNum c1 = cl_ClientNum c" "cl_slots c1 = cl_slots c"
    using report_loop_down [OF assms(3,1), of "c\<lparr>cl_mark := mark\<rparr>" "bad_ids c"] assms(7,8) by auto
  define c' where "c' = c1\<lparr>cl_slots := replicate (cl_ClientNum c) None @ drop (cl_ClientNum c) (cl_slots c)\<rparr>"
  have "ReportErrorProxy E c = Some (Ret c')"
    using m c1 assms(5) by (simp add: ReportErrorProxy_def drop_slots_spec c'_def ret_def)
  moreover have "GetSession E' c' = None" for E'
  proof (rule starved_session)
    have "nat ((cl_lastUse c' + 1) mod int (cl_ClientNum c)) < cl_ClientNum c"
      using assms(4) by (simp add: nat_less_iff)
    then have n: "next_slot c' < cl_ClientNum c" by (simp add: next_slot_def c'_def c1)
    then show "next_slot c' < length (cl_slots c')" "cl_slots c' ! next_slot c' = None"
      by (simp_all add: c'_def nth_append)
    show "0 < cl_ClientNum c'" "cl_profiles c' = []" "int (cl_confNum c') \<le> cl_init c'"
      using assms(4,6) c1 by (simp_all add: c'_def)
  qed
  ultimately show ?thesis by blast
qed

definition all_bad :: client where
  "all_bad = toy_client\<lparr>cl_profiles := [zero_config\<lparr>cf_ID := ''a''\<rparr>, zero_config\<lparr>cf_ID := ''b''\<rparr>],
     cl_init := 2, cl_errorid := [(''a'', 5), (''b'', 7)]\<rparr>"

theorem report_starves_witness:
  "\<exists>c'. ReportErrorProxy down_client_env all_bad = Some (Ret c') \<and> GetSession toy_client_env c' = None"
proof -
  have "lists_ok down_client_env" using toy_lists by (simp add: lists_ok_def down_client_env_def)
  from report_starves [OF this, of all_bad] show ?thesis
    by (auto simp: all_bad_def bad_ids_def toy_client_def NewClientControll_def)
qed

subsection \<open>Changing the tunnel type\<close>

definition serves :: "client_env \<Rightarrow> bool" where
  "serves E \<longleftrightarrow> (\<forall>c tp. \<exists>conf c'. fetch_profile E (Some tp) c = Ret (Some conf, c'))"

lemma fetch_all:
  assumes "serves E"
  shows "cl_profiles c = [] \<Longrightarrow> cl_init c + int (length is) \<le> int (cl_confNum c) \<Longrightarrow>
    \<exists>us c'. act_each (fetch_drop E tp) is c = ret (us, c') \<and> cl_profiles c' = [] \<and>
      cl_init c' = cl_init c + int (length is) \<and> cl_confNum c' = cl_confNum c"
proof (induction "is" arbitrary: c)
  case (Cons i "is")
  obtain conf c1 where f: "fetch_profile E (Some tp) c = Ret (Some conf, c1)"
    using assms unfolding serves_def by metis
  have "cl_init c < int (cl_confNum c)" using Cons.prems(2) by simp
  then have d: "fetch_drop E tp i c = ret ((), c1)"
    using f by (simp add: fetch_drop_def GetAviableProxy_def)
  note fr = fetch_profile_frame [OF f]
  obtain us c' where "act_each (fetch_drop E tp) is c1 = ret (us, c')" "cl_profiles c' = []"
    "cl_init c' = cl_init c1 + int (length is)" "cl_confNum c' = cl_confNum c1"
    using Cons.IH [of c1] Cons.prems fr by auto
  then show ?case using d fr by auto
qed simp

text \<open>
  Changing the tunnel type hangs the client when the server answers: the new profiles are
  counted as handed out but never sent to the queue, and the building of the tunnels that
  follows waits for one.
\<close>

theorem change_type_blocks:
  assumes "serves E" "order \<noteq> []"
  shows "ChangeProxyType E order tp c = None"
proof -
  have dr: "cl_profiles (drained c) = []" "cl_init (drained c) = 0" "cl_confNum (drained c) = cl_confNum c"
    by (simp_all add: drained_def)
  obtain us c' where r: "act_each (fetch_drop E tp) [0..<cl_confNum c] (drained c) = ret (us, c')"
    "cl_profiles c' = []" "cl_init c' = int (cl_confNum c)" "cl_confNum c' = cl_confNum c"
    using fetch_all [OF assms(1), of "drained c" "[0..<cl_confNum c]" tp] dr by auto
  obtain i rest where "order = i # rest" using assms(2) by (cases order) auto
  then have "InitializationTunnels E order c' = None"
    using r by (simp add: InitializationTunnels_def BuildChannel_def RebuildSmux_def GetAviableProxy_def)
  then show ?thesis using r(1) by (simp add: ChangeProxyType_def)
qed

lemma toy_serves: "serves toy_client_env"
  by (auto simp: serves_def fetch_profile_def Let_def numeral_2_eq_2 post_def toy_client_env_def RecvMsg_def
      toy_decode_def WrapIPPort_def gs_std_def split_str.simps has_prefix_def)

theorem change_type_blocks_witness:
  "ChangeProxyType toy_client_env [0, 1] ''tls'' toy_client = None"
  by (rule change_type_blocks [OF toy_serves]) simp

subsection \<open>Replacing and scanning\<close>

lemma rebuild_only:
  assumes "balanced c"
  shows "act_bind (RebuildSmux E no c) (\<lambda>(_, c1). ret ((), c1)) \<noteq> None"
    "act_bind (RebuildSmux E no c) (\<lambda>(_, c1). ret ((), c1)) = Some (Ret (r, c')) \<Longrightarrow> balanced c'"
  using rebuild.returns [OF assms, of E no] rebuild.keeps [OF assms, of E no]
  by (auto simp: act_bind_None act_bind_Ret simp del: not_None_eq split: prod.splits)

interpretation scan: returning balanced "scan_slot E" for E
proof unfold_locales
  show "scan_slot E no c \<noteq> None" if "balanced c" for c no
    using rebuild_only(1) [OF that, of E no] by (cases "cl_slots c ! no") (simp_all add: scan_slot_def del: not_None_eq)
  show "balanced c'" if "balanced c" "scan_slot E no c = Some (Ret (r, c'))" for c no r c'
    using rebuild_only(2) [OF that(1), of E no] that
    by (cases "cl_slots c ! no") (auto simp: scan_slot_def split: if_splits)
qed

interpretation fix_ids: returning balanced "fix_slot E i" for E i
proof unfold_locales
  show "fix_slot E i no c \<noteq> None" if "balanced c" for c no
    using rebuild_only(1) [OF that, of E no] by (cases "cl_slots c ! no") (simp_all add: fix_slot_def del: not_None_eq)
  show "balanced c'" if "balanced c" "fix_slot E i no c = Some (Ret (r, c'))" for c no r c'
    using rebuild_only(2) [OF that(1), of E no] that
    by (cases "cl_slots c ! no") (auto simp: fix_slot_def split: if_splits)
qed

interpretation build: returning balanced "BuildChannel E" for E
proof unfold_locales
  show "BuildChannel E i c \<noteq> None" if "balanced c" for c i
    using rebuild.returns [OF that] by (auto simp: BuildChannel_def act_bind_None split: prod.splits)
  show "balanced c'" if "balanced c" "BuildChannel E i c = Some (Ret (r, c'))" for c i r c'
    using that rebuild.keeps by (auto simp: BuildChannel_def act_bind_Ret split: prod.splits)
qed

text \<open>
  C31. Scanning the sessions repairs the queue: whatever it held and however far it was out of
  balance, a scan comes to its end with a balanced queue unless one is running already (then it does nothing) or a
  malformed answer of the server makes it panic.
\<close>

theorem scan_restores:
  assumes "0 < cl_confNum c" "\<not> cl_fixing c"
  shows "ScanSessionAndFix E c \<noteq> None \<and>
    (\<forall>c'. ScanSessionAndFix E c = Some (Ret c') \<longrightarrow> balanced c' \<and> \<not> cl_fixing c')"
proof -
  have b: "balanced (c\<lparr>cl_fixing := True, cl_profiles := [], cl_init := 0\<rparr>)"
    using assms(1) by (simp add: balanced_def)
  have "balanced (c1\<lparr>cl_fixing := False\<rparr>)" if "balanced c1" for c1
    using that by (simp add: balanced_def)
  then show ?thesis
    using assms(2) scan.each_returns [OF b] scan.each_keeps [OF b]
    by (auto simp: ScanSessionAndFix_def act_bind_None act_bind_Ret split: prod.splits)
qed

theorem scan_restores_witness:
  "ScanSessionAndFix toy_client_env (all_bad\<lparr>cl_profiles := []\<rparr>) \<noteq> None \<and> GetSession toy_client_env (all_bad\<lparr>cl_profiles := []\<rparr>) = None"
proof
  show "ScanSessionAndFix toy_client_env (all_bad\<lparr>cl_profiles := []\<rparr>) \<noteq> None"
    using scan_restores [of "all_bad\<lparr>cl_profiles := []\<rparr>" toy_client_env]
    by (simp add: all_bad_def toy_client_def NewClientControll_def)
  show "GetSession toy_client_env (all_bad\<lparr>cl_profiles := []\<rparr>) = None"
    by (rule starved_session) (simp_all add: all_bad_def toy_client_def NewClientControll_def next_slot_def numeral_2_eq_2)
qed

text \<open>
  The requests of a client together with what goes on beside them: a session whose connection breaks
  is closed at any time; a scan that a request started runs, as a whole, when it gets to run.
\<close>

datatype client_op = Request | Breaks nat | Scan

fun client_step :: "client_env \<Rightarrow> client_op \<Rightarrow> client \<Rightarrow> (session_result option \<times> client) act" where
  "client_step E Request c = act_bind (GetSession E c) (\<lambda>(r, c1). ret (Some r, c1))"
| "client_step E (Breaks no) c =
     ret (None, c\<lparr>cl_slots := (cl_slots c)[no := map_option CloseSession (cl_slots c ! no)]\<rparr>)"
| "client_step E Scan c =
     (if ScanFix \<in> set (cl_spawned c)
      then act_bind (ScanSessionAndFix E (c\<lparr>cl_spawned := remove1 ScanFix (cl_spawned c)\<rparr>)) (\<lambda>c1. ret (None, c1))
      else ret (None, c))"

lemma scan_balanced:
  assumes "balanced c"
  shows "ScanSessionAndFix E c \<noteq> None" "ScanSessionAndFix E c = Some (Ret c') \<Longrightarrow> balanced c'"
proof -
  have b: "balanced (c\<lparr>cl_fixing := True, cl_profiles := [], cl_init := 0\<rparr>)"
    using assms by (simp add: balanced_def)
  have "balanced (c1\<lparr>cl_fixing := False\<rparr>)" if "balanced c1" for c1
    using that by (simp add: balanced_def)
  then show "ScanSessionAndFix E c \<noteq> None" "ScanSessionAndFix E c = Some (Ret c') \<Longrightarrow> balanced c'"
    using assms scan.each_returns [OF b] scan.each_keeps [OF b]
    by (auto simp: ScanSessionAndFix_def act_bind_None act_bind_Ret simp del: not_None_eq split: prod.splits if_splits)
qed

interpretation client_ops: returning balanced "client_step E" for E
proof unfold_locales
  fix i c assume b: "balanced c"
  have b1: "balanced (c\<lparr>cl_spawned := remove1 ScanFix (cl_spawned c)\<rparr>)" using b by (simp add: balanced_def)
  show "client_step E i c \<noteq> None"
    using sessions.returns [OF b] scan_balanced(1) [OF b1]
    by (cases i) (auto simp: act_bind_None simp del: not_None_eq split: prod.splits)
  show "balanced c'" if "client_step E i c = Some (Ret (r, c'))" for r c'
  proof (cases i)
    case Request
    then show ?thesis using sessions.keeps [OF b] that by (auto simp: act_bind_Ret split: prod.splits)
  next
    case (Breaks no)
    then show ?thesis using b that by (auto simp: balanced_def)
  next
    case Scan
    then show ?thesis using scan_balanced(2) [OF b1] b that by (auto simp: act_bind_Ret split: if_splits)
  qed
qed

text \<open>
  C12. On a fresh client any sequence of requests for a session, of sessions that break and of the scans
  the requests start, run one after the other, comes to its end (or panics on a malformed answer), whatever the
  server, the network and the libraries answer; in the end as many profiles are in the queue as
  count as handed out.  What two of
  them do that overlap is not covered: see \<open>scan_overlap_starves\<close>.
\<close>

theorem requests_and_scans_end:
  assumes "0 < n"
  shows "\<exists>x. act_each (client_step E) ops (NewClientControll E addr p n now) = Some x \<and>
    (\<forall>rs c. x = Ret (rs, c) \<longrightarrow> int (length (cl_profiles c)) = cl_init c \<and> length (cl_profiles c) \<le> cl_confNum c)"
proof -
  have b: "balanced (NewClientControll E addr p n now)" using assms by (simp add: balanced_def NewClientControll_def)
  obtain x where x: "act_each (client_step E) ops (NewClientControll E addr p n now) = Some x"
    using client_ops.each_returns [OF b, of E ops] by blast
  then show ?thesis using client_ops.each_keeps [OF b, of E ops] by (auto simp: balanced_def)
qed

text \<open>
  A scan that overlaps a request can starve it.  The scan first empties the queue, under the lock, and
  only then resets the number of profiles handed out; a request in between finds all of them
  handed out and polls the empty queue, and with a server that does not answer the rest of the scan
  sends nothing to it.
\<close>

definition scan_begin :: "client \<Rightarrow> client" where
  "scan_begin c = c\<lparr>cl_fixing := True, cl_profiles := []\<rparr>"

definition scan_rest :: "client_env \<Rightarrow> client \<Rightarrow> client act" where
  "scan_rest E c = act_bind (act_each (scan_slot E) [0..<length (cl_slots c)] (c\<lparr>cl_init := 0\<rparr>))
     (\<lambda>(_, c1). ret (c1\<lparr>cl_fixing := False\<rparr>))"

lemma scan_in_two: "ScanSessionAndFix E c = (if cl_fixing c then ret c else scan_rest E (scan_begin c))"
  by (simp add: ScanSessionAndFix_def scan_rest_def scan_begin_def)

lemma scan_slots_down:
  "down E \<Longrightarrow> cl_profiles c = [] \<Longrightarrow> cl_init c < int (cl_confNum c) \<Longrightarrow>
    \<exists>us c'. act_each (scan_slot E) is c = ret (us, c') \<and> cl_profiles c' = []"
proof (induction "is" arbitrary: c)
  case (Cons i "is")
  have "\<exists>c1. scan_slot E i c = ret ((), c1) \<and> cl_profiles c1 = [] \<and> cl_init c1 < int (cl_confNum c1)"
  proof (cases "cl_slots c ! i")
    case (Some e)
    obtain c1 where f: "fetch_profile E (Some (if i mod 3 = 0 then ''quic'' else ''tls'')) c = Ret (None, c1)"
      using down_fetch [OF Cons.prems(1)] by blast
    have "RebuildSmux E i c = ret ((Some ErrRouteISBreak, None), c1)"
      using f Cons.prems(3) by (simp add: RebuildSmux_def GetAviableProxy_def)
    then show ?thesis using Some Cons.prems fetch_profile_frame [OF f] by (cases "IsClosed e") (auto simp: scan_slot_def)
  qed (use Cons.prems in \<open>auto simp: scan_slot_def\<close>)
  then obtain c1 where c1: "scan_slot E i c = ret ((), c1)" "cl_profiles c1 = []" "cl_init c1 < int (cl_confNum c1)" by blast
  then show ?case using Cons.IH [OF Cons.prems(1) c1(2,3)] by auto
qed (simp add: ret_def)

theorem scan_overlap_starves:
  assumes "down E" "0 < cl_confNum c" "int (cl_confNum c) \<le> cl_init c"
  shows "GetAviableProxy E tp (scan_begin c) = None \<and> (\<exists>c'. scan_rest E (scan_begin c) = Some (Ret c') \<and> cl_profiles c' = [])"
proof -
  have "cl_profiles ((scan_begin c)\<lparr>cl_init := 0\<rparr>) = []"
    "cl_init ((scan_begin c)\<lparr>cl_init := 0\<rparr>) < int (cl_confNum ((scan_begin c)\<lparr>cl_init := 0\<rparr>))"
    using assms(2) by (simp_all add: scan_begin_def)
  from scan_slots_down [OF assms(1) this, of "[0..<length (cl_slots c)]"] obtain us c' where
    "act_each (scan_slot E) [0..<length (cl_slots c)] ((scan_begin c)\<lparr>cl_init := 0\<rparr>) = ret (us, c')" "cl_profiles c' = []"
    by blast
  then show ?thesis using assms(3)
    by (auto simp: scan_rest_def scan_begin_def GetAviableProxy_def ret_def)
qed

theorem scan_overlap_starves_witness:
  "GetAviableProxy down_client_env (Some ''tls'') (scan_begin all_bad) = None"
  using scan_overlap_starves [of down_client_env all_bad] by (simp add: all_bad_def toy_client_def NewClientControll_def)

text \<open>A network that fails after two dials: the third request starts a scan, which runs.\<close>

definition fading_env :: client_env where
  "fading_env = toy_client_env\<lparr>ce_dial := (\<lambda>n c. if n < 5 then Inr (conn_of [] EOF) else Inl EOF)\<rparr>"

theorem requests_and_scans_end_witness:
  "\<exists>x. act_each (client_step fading_env) [Request, Request, Breaks 0, Breaks 1, Request, Scan, Request]
    (NewClientControll fading_env ''h:55443'' 1091 2 0) = Some x"
  using requests_and_scans_end [of 2 fading_env "[Request, Request, Breaks 0, Breaks 1, Request, Scan, Request]" "''h:55443''" 1091 0]
  by auto

lemma clear_count_balanced: "n = int (length ps) \<Longrightarrow> clear_count ps n = 0"
  by (induction ps arbitrary: n) auto

lemma clear_balanced: "balanced c \<Longrightarrow> balanced (ClearPofiles c)"
  by (auto simp: balanced_def ClearPofiles_def clear_count_balanced)

lemma ReConnect_returns:
  assumes "balanced c"
  shows "ReConnect E q c \<noteq> None" "ReConnect E q c = Some (Ret (err, c')) \<Longrightarrow> balanced c'"
  using rebuild.returns [OF clear_balanced [OF assms]] rebuild.keeps [OF clear_balanced [OF assms]]
  by (auto simp: ReConnect_def act_bind_None act_bind_Ret split: prod.splits)

lemma unclear_count: "int (length ps) \<le> n \<Longrightarrow> clear_count ps n = n - int (length ps)"
  by (induction ps arbitrary: n) auto

text \<open>
  A profile the server replaced cannot be connected to: the server says \<open>0.0.0.0\<close>, and the
  client puts in its place what precedes the first colon of the API address, which is the scheme.
\<close>

theorem replaced_profile_unreachable:
  assumes "gs_split_ok (ce_gs E)" "gs_Trim (ce_gs E) ''https'' = ''https''" "Wrap E (cl_Addr c) = ''https://'' @ rest"
    and "post E ''/proxy-err'' (Some [(''ID'', JStr ident)]) c = ((reply, None), c1)" "reply \<noteq> []" "ident \<noteq> []"
    and "RecvMsg E reply = Ret (obj, True)" "ce_decode E obj = Inr conf" "cf_Server conf = SrvStr ''0.0.0.0''"
    and "length (cl_profiles c) < cl_confNum c" "\<forall>s \<in> set (cl_slots c). \<forall>e. s = Some e \<longrightarrow> ID e \<noteq> ident"
  shows "\<exists>c'. ErrSoGetNew E ident c = Some (Ret c') \<and>
    cl_profiles c' = cl_profiles c @ [conf\<lparr>cf_Server := SrvStr ''https''\<rparr>]"
proof -
  have c1: "c1 = tick c" using assms(4) by (simp add: post_def)
  have "gs_Split (ce_gs E) (Wrap E (cl_Addr c)) '':'' = split_str '':'' (''https'' @ CHR '':'' # (''//'' @ rest))"
    using assms(1,3) by (simp add: gs_splitD)
  also have "\<dots> = ''https'' # split_on CHR '':'' (''//'' @ rest)"
    by (rule split_str_head) simp
  finally have sp: "gs_Split (ce_gs E) (Wrap E (cl_Addr c)) '':'' = ''https'' # split_on CHR '':'' (''//'' @ rest)" .
  define c2 where "c2 = (c1\<lparr>cl_profiles := cl_profiles c @ [conf\<lparr>cf_Server := SrvStr ''https''\<rparr>]\<rparr>)
    \<lparr>cl_errorid := AList.update (cf_ID conf) 0 (cl_errorid c),
     cl_RouteErrCount := (if 0 < cl_RouteErrCount c then cl_RouteErrCount c - 1 else cl_RouteErrCount c),
     cl_mark := AList.delete ident (cl_mark c)\<rparr>"
  have slots: "cl_slots c2 = cl_slots c" by (simp add: c2_def c1)
  have none: "act_each (fix_slot E ident) is d = ret (replicate (length is) (), d)"
    if "\<forall>no \<in> set is. no < length (cl_slots d)" "cl_slots d = cl_slots c" for "is" d
    using that
  proof (induction "is")
    case (Cons no "is")
    have "fix_slot E ident no d = ret ((), d)"
      using Cons.prems assms(11) by (auto simp: fix_slot_def split: option.splits) (metis nth_mem)
    then show ?case using Cons by simp
  qed simp
  have "FixBuildSmux E ident c2 = ret c2"
    using none [of "[0..<length (cl_slots c2)]" c2] slots by (simp add: FixBuildSmux_def)
  moreover have "ErrSoGetNew E ident c = FixBuildSmux E ident c2"
    using assms(4-10) sp assms(2) by (simp add: ErrSoGetNew_def send_profile_def c1 c2_def tick_def)
  ultimately show ?thesis by (auto simp: c2_def)
qed

theorem replaced_profile_unreachable_witness:
  "\<exists>c' conf. ErrSoGetNew toy_client_env ''a'' (toy_client\<lparr>cl_init := 1, cl_Addr := ''https://h:55443''\<rparr>) = Some (Ret c') \<and>
    cl_profiles c' = [conf\<lparr>cf_Server := SrvStr ''https''\<rparr>]"
proof -
  let ?c = "toy_client\<lparr>cl_init := 1, cl_Addr := ''https://h:55443''\<rparr>"
  let ?conf = "zero_config\<lparr>cf_ID := ''id-'' @ ''tls'', cf_ProxyType := ''tls'', cf_Server := SrvStr ''0.0.0.0''\<rparr>"
  have "\<exists>c'. ErrSoGetNew toy_client_env ''a'' ?c = Some (Ret c') \<and>
      cl_profiles c' = cl_profiles ?c @ [?conf\<lparr>cf_Server := SrvStr ''https''\<rparr>]"
  proof (rule replaced_profile_unreachable)
    show "gs_split_ok (ce_gs toy_client_env)" by (simp add: toy_client_env_def)
    show "gs_Trim (ce_gs toy_client_env) ''https'' = ''https''"
      by (simp add: toy_client_env_def gs_std_def trim_space_def is_space_def)
    show "Wrap toy_client_env (cl_Addr ?c) = ''https://'' @ ''h:55443''"
      by (simp add: Wrap_def toy_client_env_def)
    show "post toy_client_env ''/proxy-err'' (Some [(''ID'', JStr ''a'')]) ?c = ((''tls'', None), tick ?c)"
      by (simp add: post_def toy_client_env_def)
    show "RecvMsg toy_client_env ''tls'' = Ret (JStr ''tls'', True)"
      by (simp add: RecvMsg_def toy_client_env_def)
    show "ce_decode toy_client_env (JStr ''tls'') = Inr ?conf"
      by (simp add: toy_client_env_def toy_decode_def)
    show "length (cl_profiles ?c) < cl_confNum ?c" by (simp add: toy_client_def NewClientControll_def)
    show "\<forall>s\<in>set (cl_slots ?c). \<forall>e. s = Some e \<longrightarrow> ID e \<noteq> ''a''"
      by (simp add: toy_client_def NewClientControll_def)
  qed simp_all
  then show ?thesis by (auto simp: toy_client_def NewClientControll_def)
qed

end
