(* ===== verification/Client_Relay.thy ===== *)
theory Client_Relay
  imports Client_Repair Proxy_Tunnel
begin

text \<open>
  What the client does with an accepted connection: where it is routed (\<open>Socks5Listen\<close> of
  \<open>src/clientcontroll/controll.go\<close>), how it is relayed through a session (\<open>OnBodyBeforeGetRemote\<close>,
  \<open>OnBodyDo\<close>, \<open>OldPipe\<close>), the configuration address (\<open>socksControl.go\<close>), the probe of \<open>test.go\<close>, the
  HTTP proxy's authorization (\<open>httpcontrollproxy.go\<close>), \<open>inCN\<close> of \<open>localPAC.go\<close> and the set of
  \<open>failedHost.go\<close>.
\<close>

subsection \<open>Relaying through a session\<close>

definition OldPipe :: "bool list \<Rightarrow> conn \<Rightarrow> conn \<Rightarrow> conn \<times> conn" where
  "OldPipe = relay_run ClientPipe"

record relay_out =
  ro_continued :: bool
  ro_err :: "goerr option"
  ro_sock :: conn
  ro_remote :: conn

text \<open>
  The request is written, then one read must bring the whole confirmation.  The first bytes of the
  request are inspected for logging after the write, which panics on a request that is too short.
\<close>

definition OnBodyDo ::
  "client_env \<Rightarrow> bool list \<Rightarrow> conn \<Rightarrow> conn \<Rightarrow> string \<Rightarrow> nat \<Rightarrow> bool \<Rightarrow> bytes \<Rightarrow> client \<Rightarrow> (relay_out \<times> client) act" where
  "OnBodyDo E sched sock remote eid q isSocks5 raw c =
     (case conn_write raw remote of (ew, remote1) \<Rightarrow>
        if length raw \<le> 3 \<or> (raw ! 3 = 1 \<and> length raw < 10) then Some Panic
        else case ew of
          Some e \<Rightarrow>
            ret (\<lparr>ro_continued = True, ro_err = Some e, ro_sock = sock, ro_remote = remote1\<rparr>,
              ErrRecord E eid 1 (route_up c))
        | None \<Rightarrow>
            (case conn_read (length Socks5Confirm) remote1 of
               ((_, Some _), remote2) \<Rightarrow>
                 act_bind (ReConnect E q (ErrRecord E eid 1 c)) (\<lambda>(err2, c1).
                   ret (\<lparr>ro_continued = False, ro_err = err2,
                       ro_sock = conn_close (snd (conn_write Socks5Failed sock)), ro_remote = conn_close remote2\<rparr>,
                     if err2 = None then ErrVanish eid c1 else c1))
             | ((bs, None), remote2) \<Rightarrow>
                 let buf = buf_put (replicate (length Socks5Confirm) 0) 0 bs in
                 if buf = Socks5Confirm then
                   (case (if isSocks5 then conn_write buf sock else (None, sock)) of
                      (Some e, sock1) \<Rightarrow>
                        ret (\<lparr>ro_continued = False, ro_err = Some e, ro_sock = sock1, ro_remote = conn_close remote2\<rparr>,
                          ErrRecord E eid 1 c)
                    | (None, sock1) \<Rightarrow>
                        (case OldPipe sched sock1 remote2 of (sock2, remote3) \<Rightarrow>
                           ret (\<lparr>ro_continued = False, ro_err = None, ro_sock = conn_close sock2,
                             ro_remote = conn_close remote3\<rparr>, ErrVanish eid c)))
                 else ret (\<lparr>ro_continued = False, ro_err = None,
                     ro_sock = conn_close (snd (conn_write Socks5Failed sock)), ro_remote = conn_close remote2\<rparr>, c)))"

definition OnBodyBeforeGetRemote ::
  "client_env \<Rightarrow> nat list \<Rightarrow> bool list \<Rightarrow> conn \<Rightarrow> bool \<Rightarrow> bytes \<Rightarrow> string \<Rightarrow> client \<Rightarrow> ((goerr option \<times> conn) \<times> client) act" where
  "OnBodyBeforeGetRemote E order sched sock isSocks5 raw host c =
     (if gs_StartsWith (ce_gs E) host ''c://''
      then act_bind (ControllCode E order host c) (\<lambda>c1.
        ret ((None, conn_close (snd (conn_write (bytes_of (''END Controll :'' @ host)) sock))), c1))
      else act_bind (ConnectRemote E c) (\<lambda>(r, c1).
        case sr_con r of
          Inl e \<Rightarrow>
            act_bind (ReConnect E (sr_ix r) (route_up (ErrRecord E (sr_id r) 1 c1))) (\<lambda>(err2, c2).
              ret ((Some e, conn_close sock), if err2 = None then ErrVanish (sr_id r) c2 else c2))
        | Inr remote \<Rightarrow>
            act_bind (OnBodyDo E sched sock remote (sr_id r) (sr_ix r) isSocks5 raw c1) (\<lambda>(ro, c2).
              ret ((ro_err ro, conn_close (ro_sock ro)), c2))))"

text \<open>A connection made directly; its address is the host and port as text.\<close>

definition tcppipe :: "(string \<Rightarrow> goerr + conn) \<Rightarrow> bool list \<Rightarrow> conn \<Rightarrow> string \<Rightarrow> conn" where
  "tcppipe dial sched comcon host =
     (case dial host of
        Inl _ \<Rightarrow> conn_close comcon
      | Inr con \<Rightarrow>
          (case conn_write Socks5Confirm comcon of
             (Some _, comcon1) \<Rightarrow> conn_close comcon1
           | (None, comcon1) \<Rightarrow> conn_close (fst (OldPipe sched comcon1 con))))"

lemma conn_close_outq [simp]: "outq (conn_close c) = outq c" "is_closed (conn_close c)"
  by (simp_all add: conn_close_def)

lemma write_out: "outq (snd (conn_write bs c)) = outq c \<or> outq (snd (conn_write bs c)) = outq c @ [bs]"
  by (auto simp: conn_write_def split: option.splits nat.splits)

lemma write_open: "conn_write bs c = (None, c') \<Longrightarrow> \<not> is_closed c' \<and> outq c' = outq c @ [bs] \<and> inq c' = inq c"
  by (auto simp: conn_write_def split: option.splits nat.splits if_splits)

lemma read_open: "conn_read n c = (r, c') \<Longrightarrow> is_closed c' = is_closed c \<and> outq c' = outq c"
  by (auto simp: conn_read.simps split: list.splits if_splits)

text \<open>How the exchange with the server ends: with a confirmation, or with nothing or the refusal.\<close>

lemma OnBodyDo_confirmed:
  assumes "OnBodyDo E sched sock remote i ix True raw c1 = Some (Ret (ro, c2))"
    and "conn_write raw remote = (None, remote1)" "\<not> (length raw \<le> 3 \<or> (raw ! 3 = 1 \<and> length raw < 10))"
    and "conn_read (length Socks5Confirm) remote1 = ((bs, None), remote2)"
    and "buf_put (replicate (length Socks5Confirm) 0) 0 bs = Socks5Confirm"
  shows "\<exists>chunks. outq (ro_sock ro) = outq sock \<or> (outq (ro_sock ro) = outq sock @ Socks5Confirm # chunks \<and> ro_err ro = None)"
proof -
  obtain ew2 sock1 where w2: "conn_write Socks5Confirm sock = (ew2, sock1)" by fastforce
  show ?thesis
  proof (cases ew2)
    case (Some e)
    then have "ro_sock ro = sock1" using assms w2 by (auto simp: OnBodyDo_def Let_def)
    moreover have "outq sock1 = outq sock"
      using w2 Some by (auto simp: conn_write_def split: option.splits nat.splits if_splits)
    ultimately show ?thesis by auto
  next
    case none2: None
    obtain sock2 remote3 where p: "OldPipe sched sock1 remote2 = (sock2, remote3)" by fastforce
    have "ro_sock ro = conn_close sock2" "ro_err ro = None"
      using assms w2 none2 p by (auto simp: OnBodyDo_def Let_def)
    moreover have "\<not> is_closed sock1" "outq sock1 = outq sock @ [Socks5Confirm]"
      using w2 none2 write_open by auto
    moreover have "\<not> is_closed remote2"
      using write_open [of raw remote remote1] assms(2) read_open [OF assms(4)] by simp
    ultimately show ?thesis
      using relay_facts [of sock1 remote2 ClientPipe sched sock2 remote3] p by (auto simp: OldPipe_def)
  qed
qed

lemma OnBodyDo_answers:
  assumes "OnBodyDo E sched sock remote i ix True raw c1 = Some (Ret (ro, c2))"
  shows "\<exists>chunks. outq (ro_sock ro) = outq sock \<or> outq (ro_sock ro) = outq sock @ [Socks5Failed] \<or>
    (outq (ro_sock ro) = outq sock @ Socks5Confirm # chunks \<and> ro_err ro = None)"
proof -
  obtain ew remote1 where w: "conn_write raw remote = (ew, remote1)" by fastforce
  obtain bs er remote2 where r2: "conn_read (length Socks5Confirm) remote1 = ((bs, er), remote2)"
    by (metis surj_pair)
  have len: "\<not> (length raw \<le> 3 \<or> (raw ! 3 = 1 \<and> length raw < 10))"
    using assms w by (auto simp: OnBodyDo_def)
  consider "ew \<noteq> None" | "ew = None" "er \<noteq> None \<or> buf_put (replicate (length Socks5Confirm) 0) 0 bs \<noteq> Socks5Confirm"
    | "ew = None" "er = None" "buf_put (replicate (length Socks5Confirm) 0) 0 bs = Socks5Confirm" by blast
  then show ?thesis
  proof cases
    case 1
    then show ?thesis using assms w len by (auto simp: OnBodyDo_def)
  next
    case 2
    then have "ro_sock ro = conn_close (snd (conn_write Socks5Failed sock))"
      using assms w len r2 by (cases er) (auto simp: OnBodyDo_def Let_def act_bind_Ret)
    then show ?thesis using write_out [of Socks5Failed sock] by auto
  next
    case 3
    then show ?thesis using OnBodyDo_confirmed [OF assms _ len] w r2 by blast
  qed
qed

text \<open>
  C13. A SOCKS client gets exactly one answer at most, and its connection is always closed in the
  end: nothing, or the refusal, or the confirmation followed by what is relayed.
\<close>

theorem one_socks_answer:
  assumes "\<not> gs_StartsWith (ce_gs E) host ''c://''"
    "OnBodyBeforeGetRemote E order sched sock True raw host c = Some (Ret ((err, sock'), c'))"
  shows "is_closed sock' \<and> (\<exists>chunks. outq sock' = outq sock \<or> outq sock' = outq sock @ [Socks5Failed] \<or>
    (outq sock' = outq sock @ Socks5Confirm # chunks \<and> err = None))"
proof -
  obtain r c1 where cr: "ConnectRemote E c = Some (Ret (r, c1))"
    using assms by (auto simp: OnBodyBeforeGetRemote_def act_bind_Ret)
  show ?thesis
  proof (cases "sr_con r")
    case (Inl e)
    then show ?thesis using assms cr by (auto simp: OnBodyBeforeGetRemote_def act_bind_Ret)
  next
    case (Inr remote)
    then obtain ro c2 where "OnBodyDo E sched sock remote (sr_id r) (sr_ix r) True raw c1 = Some (Ret (ro, c2))"
      and "err = ro_err ro" "sock' = conn_close (ro_sock ro)"
      using assms cr by (auto simp: OnBodyBeforeGetRemote_def act_bind_Ret)
    then show ?thesis using OnBodyDo_answers by fastforce
  qed
qed

text \<open>
  The confirmation of the server has to arrive in one piece: when the network delivers fewer
  than its ten bytes first, the client refuses the connection, although the server opened it, and
  counts no error.
\<close>

theorem split_confirmation_refused:
  assumes "inq remote = s # segs" "length s < 10" "is_closed remote = False" "wleft remote = None"
    "3 < length raw" "raw ! 3 = 1 \<longrightarrow> 10 \<le> length raw"
  shows "\<exists>ro. OnBodyDo E sched sock remote eid q b raw c = Some (Ret (ro, c)) \<and> ro_err ro = None \<and>
    ro_sock ro = conn_close (snd (conn_write Socks5Failed sock))"
proof -
  have w: "conn_write raw remote = (None, remote\<lparr>outq := outq remote @ [raw]\<rparr>)"
    using assms by (simp add: conn_write_def)
  have l: "length Socks5Confirm = 10" by (simp add: Socks5Confirm_def)
  have r: "conn_read (length Socks5Confirm) (remote\<lparr>outq := outq remote @ [raw]\<rparr>) =
      ((s, None), remote\<lparr>outq := outq remote @ [raw], inq := segs\<rparr>)"
    using assms by (simp add: conn_read.simps l)
  have "buf_put (replicate 10 0) 0 s ! 9 = (0 :: byte)"
    using assms(2) by (simp add: nth_buf_put)
  moreover have "Socks5Confirm ! 9 \<noteq> 0" by (simp add: Socks5Confirm_def)
  ultimately have "buf_put (replicate (length Socks5Confirm) 0) 0 s \<noteq> Socks5Confirm" using l by metis
  then show ?thesis using w r assms(5,6) by (auto simp: OnBodyDo_def Let_def)
qed

theorem split_confirmation_refused_witness:
  "\<exists>ro. OnBodyDo toy_client_env [] (conn_of [] EOF)
      (conn_of [[5, 0, 0, 1], [0, 0, 0, 0, 8, 0x43]] EOF) ''id'' 0 True (raw_request ''a.com'' 443) toy_client =
     Some (Ret (ro, toy_client)) \<and> outq (ro_sock ro) = [Socks5Failed]"
proof -
  obtain ro where ro: "OnBodyDo toy_client_env [] (conn_of [] EOF)
      (conn_of [[5, 0, 0, 1], [0, 0, 0, 0, 8, 0x43]] EOF) ''id'' 0 True (raw_request ''a.com'' 443) toy_client =
     Some (Ret (ro, toy_client))" "ro_sock ro = conn_close (snd (conn_write Socks5Failed (conn_of [] EOF)))"
    using split_confirmation_refused [of "conn_of [[5, 0, 0, 1], [0, 0, 0, 0, 8, 0x43]] EOF" "[5, 0, 0, 1]"
        "[[0, 0, 0, 0, 8, 0x43]]" "raw_request ''a.com'' 443" toy_client_env "[]" "conn_of [] EOF" "''id''" 0 True toy_client]
    by (auto simp: conn_of_def raw_request_def)
  then show ?thesis by (simp add: conn_write_def conn_of_def)
qed

definition good_remote :: client_env where
  "good_remote = toy_client_env\<lparr>ce_open := (\<lambda>n. \<lparr>me_open1 = Inr (conn_of [Socks5Confirm] EOF),
     me_again = Inl EOF, me_open2 = Inl EOF\<rparr>)\<rparr>"

theorem one_socks_answer_witness:
  "\<exists>err sock' c' chunks. OnBodyBeforeGetRemote good_remote [] [] (conn_of [] EOF) True (raw_request ''a.com'' 443)
      ''a.com'' toy_client = Some (Ret ((err, sock'), c')) \<and> is_closed sock' \<and> hd (outq sock') = Socks5Confirm"
proof -
  have "case OnBodyBeforeGetRemote good_remote [] [] (conn_of [] EOF) True (raw_request ''a.com'' 443)
      ''a.com'' toy_client of Some (Ret ((err, sock'), c')) \<Rightarrow> outq sock' = [Socks5Confirm] | _ \<Rightarrow> False"
    by code_simp
  then obtain err sock' c' where r: "OnBodyBeforeGetRemote good_remote [] [] (conn_of [] EOF) True
      (raw_request ''a.com'' 443) ''a.com'' toy_client = Some (Ret ((err, sock'), c'))" "outq sock' = [Socks5Confirm]"
    by (auto split: option.splits go.splits prod.splits)
  have "\<not> gs_StartsWith (ce_gs good_remote) ''a.com'' ''c://''"
    by (simp add: good_remote_def toy_client_env_def gs_std_def has_prefix_def)
  from one_socks_answer [OF this r(1)] r show ?thesis by auto
qed

end
