(* ===== verification/Client_Routing.thy ===== *)
theory Client_Routing
  imports Client_Relay Dns_Rules Socks5
begin

text \<open>
  Where the client sends an accepted connection (\<open>Socks5Listen\<close> of \<open>controll.go\<close>), the
  configuration address (\<open>socksControl.go\<close>), the probe of \<open>test.go\<close>, the HTTP proxy in front of it
  (\<open>httpcontrollproxy.go\<close>, \<open>httpcontroll.go\<close>), \<open>inCN\<close> of \<open>localPAC.go\<close> and the set of
  \<open>failedHost.go\<close>, all under \<open>src/clientcontroll/\<close>.
\<close>

subsection \<open>Routing\<close>

definition MODE_GLOBAL :: int where "MODE_GLOBAL = 1"
definition MODE_SMART :: int where "MODE_SMART = 0"

datatype routed = Direct string | ConfigMe | Proxied

record routing =
  rt_gs :: gslib
  rt_linux :: bool
  rt_country :: "string \<Rightarrow> string"

definition config_ip :: string where "config_ip = ''99.254.254.254''"

text \<open>Modes, rules and countries only matter for addresses, and only on linux.\<close>

definition route_ip :: "routing \<Rightarrow> int \<Rightarrow> string \<Rightarrow> string \<Rightarrow> dns_tables \<Rightarrow> (routed \<times> dns_tables) go" where
  "route_ip R mode ip port st =
     (if \<not> rt_linux R \<or> mode \<noteq> MODE_SMART then Ret (Proxied, st)
      else if IsLocal (rt_gs R) ip st then Ret (Direct (ip @ '':'' @ port), st)
      else if ip = config_ip then Ret (ConfigMe, st)
      else if rt_country R ip = ''China''
      then go_bind (AddLocalIP ip st) (\<lambda>st'. Ret (Direct (ip @ '':'' @ port), st'))
      else Ret (Proxied, st))"

definition route_name :: "routing \<Rightarrow> string \<Rightarrow> string \<Rightarrow> dns_tables \<Rightarrow> routed \<times> dns_tables" where
  "route_name R host port st =
     (if host = ''config.me'' then (ConfigMe, st)
      else if IsLocal (rt_gs R) host st then (Direct (host @ '':'' @ port), st)
      else case IsPac host st of
        (True, st') \<Rightarrow> (Proxied, st')
      | (False, st') \<Rightarrow> (Direct (host @ '':'' @ port), st'))"

definition route_request ::
  "routing \<Rightarrow> int \<Rightarrow> bytes \<Rightarrow> string \<Rightarrow> string \<Rightarrow> dns_tables \<Rightarrow> (routed \<times> dns_tables) go" where
  "route_request R mode raw host port st =
     (if 9 < length raw \<and> raw ! 0 = 5 \<and> raw ! 3 = 1
      then route_ip R mode (ip_str (slice raw 4 8)) port st
      else Ret (route_name R host port st))"

subsection \<open>The configuration address\<close>

record socks_control =
  so_Op :: string
  so_Data :: string

text \<open>The JSON of two strings without characters to escape.\<close>

definition quoted :: "string \<Rightarrow> string" where
  "quoted s = CHR 0x22 # s @ [CHR 0x22]"

definition ToData :: "socks_control \<Rightarrow> bytes" where
  "ToData s = bytes_of (''{'' @ quoted ''op'' @ '':'' @ quoted (so_Op s) @ '','' @ quoted ''data'' @ '':'' @
     quoted (so_Data s) @ ''}'')"

definition control_Reply :: "socks_control \<Rightarrow> conn \<Rightarrow> client \<Rightarrow> conn \<times> client" where
  "control_Reply s w c =
     (let (dat, c1) =
        (if so_Op s = ''mode'' then
           (if so_Data s = ''global'' then (''global mode'', c\<lparr>cl_Mode := MODE_GLOBAL\<rparr>)
            else if so_Data s = ''smart'' then (''smart mode'', c\<lparr>cl_Mode := MODE_SMART\<rparr>)
            else ([], c))
         else ([], c)) in
      (conn_close (snd (conn_write (ToData \<lparr>so_Op = ''reply'', so_Data = dat\<rparr>) w)), c1))"

text \<open>\<open>FromData\<close> is the JSON decoding; at most 4096 bytes of one read are decoded.\<close>

definition RedirectConfig :: "(bytes \<Rightarrow> goerr + socks_control) \<Rightarrow> conn \<Rightarrow> client \<Rightarrow> conn \<times> client" where
  "RedirectConfig FromData l c =
     (case conn_read 4096 (snd (conn_write Socks5Confirm l)) of ((bs, _), l1) \<Rightarrow>
        (case FromData bs of
           Inl e \<Rightarrow> (conn_close (snd (conn_write (bytes_of (err_text e @ [CHR 0x0D, CHR 0x0A, CHR 0x0D, CHR 0x0A])) l1)), c)
         | Inr s \<Rightarrow> (case control_Reply s l1 c of (l2, c1) \<Rightarrow> (conn_close l2, c1))))"

text \<open>
  The sender of a command: the result is what it prints at the end, if it gets that far.  The
  answer is read into the buffer that held the command.
\<close>

definition SendCommand :: "gslib \<Rightarrow> goerr + conn \<Rightarrow> socks_control \<Rightarrow> (string option \<times> conn option) go" where
  "SendCommand G dial s =
     (case dial of
        Inl _ \<Rightarrow> Ret (None, None)
      | Inr con0 \<Rightarrow>
          (case conn_write SOCKS5Init con0 of
             (Some _, con1) \<Rightarrow> Ret (None, Some con1)
           | (None, con1) \<Rightarrow>
               go_bind (HostToRaw G ''config.me'' 0) (\<lambda>b.
                 case conn_write b (snd (conn_read 10 con1)) of
                   (Some _, con2) \<Rightarrow> Ret (None, Some (conn_close con2))
                 | (None, con2) \<Rightarrow>
                     (case conn_read 200 con2 of ((bs, _), con3) \<Rightarrow>
                        if bs = Socks5Confirm then
                          (case conn_read (length (ToData s)) (snd (conn_write (ToData s) con3)) of
                             ((reply, _), con4) \<Rightarrow> Ret (Some (str_of reply), Some con4))
                        else Ret (None, Some con3)))))"

definition TestDomain :: "gslib \<Rightarrow> goerr + conn \<Rightarrow> string \<Rightarrow> string go" where
  "TestDomain G dial testHost =
     (case dial of
        Inl e \<Rightarrow> Ret (err_text e)
      | Inr con0 \<Rightarrow>
          (case conn_write SOCKS5Init con0 of
             (Some e, _) \<Rightarrow> Ret (''write init err'' @ err_text e)
           | (None, con1) \<Rightarrow>
               go_bind (HostToRaw G testHost 443) (\<lambda>b.
                 case conn_write b (snd (conn_read 10 con1)) of
                   (Some e, _) \<Rightarrow> Ret (err_text e)
                 | (None, con2) \<Rightarrow>
                     (case conn_read 8192 con2 of
                        ((bs, Some e), _) \<Rightarrow> Ret (err_text e)
                      | ((bs, None), _) \<Rightarrow> Ret (str_of bs)))))"

subsection \<open>The HTTP proxy\<close>

record http_proxy =
  hp_AuthUser :: string
  hp_AuthPass :: string
  hp_Avoid :: string

record proxy_request =
  pq_auth :: string
  pq_scheme :: string
  pq_method :: string
  pq_host :: string

datatype proxy_answer = ServerClosed | HttpError string int | Forwarded | Tunnelled string

definition parseBasicProxyAuth :: "string \<Rightarrow> string \<times> string \<times> bool" where
  "parseBasicProxyAuth authz =
     (if \<not> has_prefix authz ''Basic '' then ([], [], False)
      else case b64_decode (drop 6 authz) of
        None \<Rightarrow> ([], [], False)
      | Some cs \<Rightarrow> (case find_index CHR '':'' cs of
          None \<Rightarrow> ([], [], False)
        | Some s \<Rightarrow> (take s cs, drop (s + 1) cs, True)))"

definition avoided :: "http_proxy \<Rightarrow> proxy_request \<Rightarrow> bool" where
  "avoided p r \<longleftrightarrow> hp_Avoid p \<noteq> [] \<and> str_contains (pq_host r) (hp_Avoid p)"

definition handleHTTP :: "http_proxy \<Rightarrow> proxy_request \<Rightarrow> proxy_answer" where
  "handleHTTP p r = (if avoided p r then HttpError ''Forbidden'' 405 else Forwarded)"

text \<open>
  \<open>hijack\<close> is None if the writer cannot be hijacked, otherwise the result of the attempt.  The status 200
  is written before the attempt: the errors after it come with that status, whatever the code
  gives them.
\<close>

definition handleTunneling :: "http_proxy \<Rightarrow> (goerr option) option \<Rightarrow> proxy_request \<Rightarrow> proxy_answer" where
  "handleTunneling p hijack r =
     (if avoided p r then HttpError ''Forbidden'' 405
      else if pq_method r \<noteq> ''CONNECT'' then HttpError ''Method Not Allowed'' 405
      else case hijack of
        None \<Rightarrow> HttpError ''Hijacking not supported'' 200
      | Some (Some e) \<Rightarrow> HttpError (err_text e) 200
      | Some None \<Rightarrow> Tunnelled (pq_host r))"

definition ServeHTTP :: "bool \<Rightarrow> http_proxy \<Rightarrow> (goerr option) option \<Rightarrow> proxy_request \<Rightarrow> proxy_answer" where
  "ServeHTTP wait_close p hijack r =
     (if wait_close then ServerClosed
      else
        let (user, pass, ok) = parseBasicProxyAuth (pq_auth r) in
        if hp_AuthUser p \<noteq> [] \<and> hp_AuthPass p \<noteq> [] \<and> (\<not> ok \<or> user \<noteq> hp_AuthUser p \<or> pass \<noteq> hp_AuthPass p)
        then HttpError ''Proxy Authentication Required'' 407
        else if pq_scheme r = ''http'' then handleHTTP p r
        else handleTunneling p hijack r)"

text \<open>What a tunnelled host becomes: a raw request for the relay, not a SOCKS connection.\<close>

definition HandleBody ::
  "client_env \<Rightarrow> nat list \<Rightarrow> bool list \<Rightarrow> conn \<Rightarrow> string \<Rightarrow> client \<Rightarrow> ((goerr option \<times> conn) \<times> client) act" where
  "HandleBody E order sched p1 host c =
     act_bind (Some (HostToRaw (ce_gs E) host (-1))) (\<lambda>raw. OnBodyBeforeGetRemote E order sched p1 False raw host c)"

subsection \<open>Regions and failed hosts\<close>

definition inCN :: "gslib \<Rightarrow> (string \<Rightarrow> bool option) option \<Rightarrow> string \<Rightarrow> bool go" where
  "inCN G geo host =
     go_bind (if gs_In G host '':'' then (case gs_Split G host '':'' of [] \<Rightarrow> Panic | d # _ \<Rightarrow> Ret d) else Ret [])
       (\<lambda>d0.
         let d = (if gs_StartsWith G d0 ''['' \<and> gs_EndsWith G d0 '']'' then gs_Slice G d0 1 (-1) else d0) in
         if gs_EndsWith G d ''.gstatic.com'' then Ret False
         else if gs_EndsWith G d ''.cn'' then Ret True
         else case geo of
           None \<Rightarrow> Ret False
         | Some lookup \<Rightarrow> Ret (case lookup d of None \<Rightarrow> False | Some cn \<Rightarrow> cn))"

definition regionFilter ::
  "gslib \<Rightarrow> (string \<Rightarrow> bool option) option \<Rightarrow> (string \<Rightarrow> goerr + conn) \<Rightarrow> bool list \<Rightarrow> conn \<Rightarrow> string \<Rightarrow> (bool \<times> conn) go" where
  "regionFilter G geo dial sched comcon h =
     (if gs_In G h ''://'' then Ret (False, comcon)
      else go_bind (inCN G geo h) (\<lambda>cn.
        if cn then Ret (True, tcppipe dial sched comcon h) else Ret (False, comcon)))"

text \<open>The set is a slice; membership is the library's \<open>In\<close> with the comparison given.\<close>

definition set_In :: "('a list \<Rightarrow> 'a \<Rightarrow> ('a \<Rightarrow> 'a \<Rightarrow> bool) \<Rightarrow> bool) \<Rightarrow> 'a \<Rightarrow> 'a list \<Rightarrow> bool" where
  "set_In list_In one c = list_In c one (\<lambda>x y. x = y)"

definition set_Add :: "('a list \<Rightarrow> 'a \<Rightarrow> ('a \<Rightarrow> 'a \<Rightarrow> bool) \<Rightarrow> bool) \<Rightarrow> 'a \<Rightarrow> 'a list \<Rightarrow> 'a list" where
  "set_Add list_In one c = (if \<not> set_In list_In one c then c @ [one] else c)"

definition set_Del :: "'a gslist \<Rightarrow> 'a \<Rightarrow> 'a list \<Rightarrow> 'a list" where
  "set_Del L one c = filter (\<lambda>i. i \<noteq> one) (gl_Every L c)"

definition list_in_ok :: "('a list \<Rightarrow> 'a \<Rightarrow> ('a \<Rightarrow> 'a \<Rightarrow> bool) \<Rightarrow> bool) \<Rightarrow> bool" where
  "list_in_ok list_In \<longleftrightarrow> (\<forall>xs x eq. list_In xs x eq = (\<exists>y \<in> set xs. eq y x))"

subsection \<open>Addresses shown to the user\<close>

definition GetRoute :: "client_env \<Rightarrow> client \<Rightarrow> string go" where
  "GetRoute E c =
     (let e = cl_Addr c; G = ce_gs E in
      go_bind (if gs_In G e ''://'' then (case gs_Split G e ''://'' of _ # x # _ \<Rightarrow> Ret x | _ \<Rightarrow> Panic) else Ret e)
        (\<lambda>e1. if gs_In G e1 '':'' then (case gs_Split G e1 '':'' of h # _ \<Rightarrow> Ret h | [] \<Rightarrow> Panic) else Ret e1))"

definition GetListenPort :: "int \<Rightarrow> client \<Rightarrow> int \<times> int \<times> int" where
  "GetListenPort dnsport c = (cl_ListenPort c, cl_ListenPort c + 1, dnsport)"

subsection \<open>What is proxied\<close>

text \<open>
  A name is proxied exactly if it is not the configuration name, matches no local rule, and no
  proxy list is loaded or the list has it or one of its parent domains; the mode of the client
  has no say in it.
\<close>

theorem name_proxied_iff:
  assumes "\<not> (9 < length raw \<and> raw ! 0 = 5 \<and> raw ! 3 = 1)" "host_ok host"
  shows "(\<exists>st'. route_request R mode raw host port st = Ret (Proxied, st')) \<longleftrightarrow>
    host \<noteq> ''config.me'' \<and> \<not> IsLocal (rt_gs R) host st \<and> (PAC_HOSTS st = {} \<or> dot_in (PAC_HOSTS st) host)"
  using assms(1) IsPac_iff(1) [OF assms(2), of st]
  by (auto simp: route_request_def route_name_def split: prod.splits bool.splits)

definition toy_routing :: routing where
  "toy_routing = \<lparr>rt_gs = gs_std, rt_linux = True, rt_country = (\<lambda>_. ''China'')\<rparr>"

theorem name_proxied_iff_witness:
  "\<exists>st'. route_request toy_routing 1 (raw_request ''a.b.com'' 443) ''a.b.com'' ''443''
     (no_tables\<lparr>PAC_HOSTS := {''b.com''}\<rparr>) = Ret (Proxied, st')"
proof -
  have "host_ok ''a.b.com''" by (simp add: host_ok_def)
  moreover have "dot_in {''b.com''} ''a.b.com''" by (simp add: dot_in_def suffix_def)
  moreover have "\<not> IsLocal gs_std ''a.b.com'' (no_tables\<lparr>PAC_HOSTS := {''b.com''}\<rparr>)"
    by (simp add: IsLocal_def no_tables_def)
  ultimately show ?thesis
    using name_proxied_iff [of "raw_request ''a.b.com'' 443" "''a.b.com''" toy_routing 1 "''443''"
        "no_tables\<lparr>PAC_HOSTS := {''b.com''}\<rparr>"]
    by (simp add: raw_request_def toy_routing_def)
qed

text \<open>
  The command that selects the global mode locks the configuration address: from then on every
  IPv4 request is proxied, the one to the configuration address included, while requests by
  name are routed as before.
\<close>

theorem global_mode_scope:
  assumes "control_Reply \<lparr>so_Op = ''mode'', so_Data = ''global''\<rparr> w c = (w', c')"
  shows "(if 9 < length raw \<and> raw ! 0 = 5 \<and> raw ! 3 = 1
     then route_request R (cl_Mode c') raw host port st = Ret (Proxied, st)
     else route_request R (cl_Mode c') raw host port st = route_request R (cl_Mode c) raw host port st)"
  using assms by (auto simp: control_Reply_def route_request_def route_ip_def MODE_GLOBAL_def MODE_SMART_def)

theorem global_mode_scope_witness:
  "\<exists>c'. snd (control_Reply \<lparr>so_Op = ''mode'', so_Data = ''global''\<rparr> (conn_of [] EOF) toy_client) = c' \<and>
    route_request toy_routing (cl_Mode c') [5, 1, 0, 1, 99, 254, 254, 254, 0, 80] [] ''80'' no_tables = Ret (Proxied, no_tables) \<and>
    route_request toy_routing (cl_Mode toy_client) [5, 1, 0, 1, 99, 254, 254, 254, 0, 80] [] ''80'' no_tables = Ret (ConfigMe, no_tables)"
proof -
  obtain w' c' where r: "control_Reply \<lparr>so_Op = ''mode'', so_Data = ''global''\<rparr> (conn_of [] EOF) toy_client = (w', c')"
    by fastforce
  have "ip_str [99, 254, 254, 254] = config_ip" by code_simp
  moreover have "slice [5, 1, 0, 1, 99, 254, 254, 254, 0, 80 :: byte] 4 8 = [99, 254, 254, 254]" by (simp add: slice_def)
  ultimately have "route_request toy_routing (cl_Mode toy_client) [5, 1, 0, 1, 99, 254, 254, 254, 0, 80] [] ''80'' no_tables =
      Ret (ConfigMe, no_tables)"
    by (simp add: route_request_def route_ip_def toy_routing_def toy_client_def NewClientControll_def MODE_SMART_def
        IsLocal_def no_tables_def)
  then show ?thesis
    using global_mode_scope [OF r, of "[5, 1, 0, 1, 99, 254, 254, 254, 0, 80]" toy_routing "[]" "''80''" no_tables] r
    by simp
qed

text \<open>
  An IPv6 address that is not to be proxied cannot be reached at all: host and port are joined
  without brackets, which no dialler takes apart again.
\<close>

theorem direct_ipv6_undialable:
  assumes "route_name R host port st = (Direct addr, st')" "CHR '':'' \<in> set host" "CHR '':'' \<notin> set port"
    "CHR ''['' \<notin> set host"
  shows "split_host_port addr = None"
proof -
  have a: "addr = host @ CHR '':'' # port"
    using assms(1) by (auto simp: route_name_def split: if_splits prod.splits bool.splits)
  have "hd addr \<noteq> CHR ''[''" using assms(2,4) a by (cases host) auto
  moreover have "find_last CHR '':'' addr = Some (length host)" unfolding a by (rule find_last_append [OF assms(3)])
  ultimately show ?thesis using assms(2) by (simp add: split_host_port_def a)
qed

theorem direct_ipv6_undialable_witness:
  "\<exists>addr st'. route_name toy_routing ''2001:db8::1'' ''443'' (no_tables\<lparr>PAC_HOSTS := {''b.com''}\<rparr>) = (Direct addr, st') \<and>
    split_host_port addr = None"
proof -
  let ?st = "no_tables\<lparr>PAC_HOSTS := {''b.com''}\<rparr>"
  have "host_ok ''2001:db8::1''" by (simp add: host_ok_def)
  moreover have "\<not> dot_in {''b.com''} ''2001:db8::1''" by (auto simp: dot_in_def suffix_def Cons_eq_append_conv)
  ultimately have "\<not> fst (IsPac ''2001:db8::1'' ?st)" using IsPac_iff(1) by simp
  then obtain st' where "route_name toy_routing ''2001:db8::1'' ''443'' ?st = (Direct (''2001:db8::1'' @ '':'' @ ''443''), st')"
    by (cases "IsPac ''2001:db8::1'' ?st") (simp add: route_name_def IsLocal_def no_tables_def)
  from direct_ipv6_undialable [OF this] this show ?thesis by auto
qed

subsection \<open>Commands\<close>

text \<open>
  The sender of a mode command prints a truncated answer: it reads it into the buffer of its
  own command, which is shorter than the confirmation.
\<close>

theorem mode_answer_cut:
  assumes "s = \<lparr>so_Op = ''mode'', so_Data = d\<rparr>" "d \<in> {''global'', ''smart''}"
    "reply = ToData \<lparr>so_Op = ''reply'', so_Data = d @ '' mode''\<rparr>" "gs_in_ok G"
  shows "\<exists>con. SendCommand G (Inr (conn_of [[5, 0], Socks5Confirm, reply] EOF)) s =
      Ret (Some (str_of (take (length (ToData s)) reply)), Some con) \<and> length (ToData s) + 6 = length reply"
proof -
  have l: "length (ToData s) + 6 = length reply"
    using assms(1-3) by (auto simp: ToData_def quoted_def)
  have nc: "HostToRaw G ''config.me'' 0 = Ret (raw_request ''config.me'' 0)" by (simp add: HostToRaw_def)
  have c: "length Socks5Confirm = 10" by (simp add: Socks5Confirm_def)
  show ?thesis
    using l nc by (auto simp: SendCommand_def conn_write_def conn_of_def conn_read.simps c)
qed

theorem mode_answer_cut_witness:
  "\<exists>r con. SendCommand gs_std (Inr (conn_of [[5, 0], Socks5Confirm,
      ToData \<lparr>so_Op = ''reply'', so_Data = ''smart mode''\<rparr>] EOF)) \<lparr>so_Op = ''mode'', so_Data = ''smart''\<rparr> = Ret (Some r, con) \<and>
    last r \<noteq> CHR ''}''"
proof -
  obtain con where "SendCommand gs_std (Inr (conn_of [[5, 0], Socks5Confirm,
      ToData \<lparr>so_Op = ''reply'', so_Data = ''smart mode''\<rparr>] EOF)) \<lparr>so_Op = ''mode'', so_Data = ''smart''\<rparr> =
      Ret (Some (str_of (take (length (ToData \<lparr>so_Op = ''mode'', so_Data = ''smart''\<rparr>))
        (ToData \<lparr>so_Op = ''reply'', so_Data = ''smart mode''\<rparr>))), Some con)"
    using mode_answer_cut [of "\<lparr>so_Op = ''mode'', so_Data = ''smart''\<rparr>" "''smart''"
        "ToData \<lparr>so_Op = ''reply'', so_Data = ''smart mode''\<rparr>" gs_std]
    by auto
  moreover have "last (str_of (take (length (ToData \<lparr>so_Op = ''mode'', so_Data = ''smart''\<rparr>))
        (ToData \<lparr>so_Op = ''reply'', so_Data = ''smart mode''\<rparr>))) \<noteq> CHR ''}''"
    by code_simp
  ultimately show ?thesis by blast
qed

subsection \<open>Authorization\<close>

lemma parse_colon_free: "parseBasicProxyAuth a = (u, p, True) \<Longrightarrow> CHR '':'' \<notin> set u"
  by (auto simp: parseBasicProxyAuth_def split: if_splits option.splits dest: find_index_SomeD)

lemma parse_encoded:
  assumes "CHR '':'' \<notin> set u"
  shows "parseBasicProxyAuth (''Basic '' @ b64_encode (u @ CHR '':'' # p)) = (u, p, True)"
  using assms by (simp add: parseBasicProxyAuth_def has_prefix_def b64_decode_encode find_index_append)

lemma tunneling_not_407: "handleTunneling p h r \<noteq> HttpError m 407" "handleHTTP p r \<noteq> HttpError m 407"
  by (auto simp: handleTunneling_def handleHTTP_def split: option.splits)

text \<open>
  C39. With credentials configured, the HTTP proxy asks for authorization exactly when the header
  does not carry them; the header a client forms of them is accepted, unless the configured user
  has a colon: then nobody gets in.
\<close>

theorem proxy_auth_exact:
  assumes "hp_AuthUser p \<noteq> []" "hp_AuthPass p \<noteq> []"
  shows "((\<exists>m. ServeHTTP False p hijack r = HttpError m 407) \<longleftrightarrow>
      parseBasicProxyAuth (pq_auth r) \<noteq> (hp_AuthUser p, hp_AuthPass p, True)) \<and>
    (pq_auth r = ''Basic '' @ b64_encode (hp_AuthUser p @ CHR '':'' # hp_AuthPass p) \<longrightarrow>
      ((\<exists>m. ServeHTTP False p hijack r = HttpError m 407) \<longleftrightarrow> CHR '':'' \<in> set (hp_AuthUser p)))"
    (is "?exact \<and> (?pre \<longrightarrow> ?iff)")
proof -
  obtain u q ok where x: "parseBasicProxyAuth (pq_auth r) = (u, q, ok)" by (metis prod_cases3)
  have e: ?exact
    using assms tunneling_not_407 x
    by (cases ok) (auto simp: ServeHTTP_def Let_def)
  have ?iff if pre: ?pre
  proof (cases "CHR '':'' \<in> set (hp_AuthUser p)")
    case True
    then have "parseBasicProxyAuth (pq_auth r) \<noteq> (hp_AuthUser p, hp_AuthPass p, True)"
      using parse_colon_free by blast
    with e True show ?thesis by blast
  next
    case False
    then show ?thesis using e pre parse_encoded by simp
  qed
  with e show ?thesis by blast
qed

theorem proxy_auth_exact_witness:
  "\<not> (\<exists>m. ServeHTTP False \<lparr>hp_AuthUser = ''u'', hp_AuthPass = ''p'', hp_Avoid = []\<rparr> None
     \<lparr>pq_auth = ''Basic '' @ b64_encode ''u:p'', pq_scheme = ''http'', pq_method = ''GET'', pq_host = ''h''\<rparr> = HttpError m 407)"
  using proxy_auth_exact [of "\<lparr>hp_AuthUser = ''u'', hp_AuthPass = ''p'', hp_Avoid = []\<rparr>" None
      "\<lparr>pq_auth = ''Basic '' @ b64_encode ''u:p'', pq_scheme = ''http'', pq_method = ''GET'', pq_host = ''h''\<rparr>"]
  by simp

subsection \<open>The set of failed hosts\<close>

locale set_model =
  fixes add :: "'a \<Rightarrow> 's \<Rightarrow> 's" and del :: "'a \<Rightarrow> 's \<Rightarrow> 's" and has :: "'a \<Rightarrow> 's \<Rightarrow> bool"
    and elems :: "'s \<Rightarrow> 'a set" and ok :: "'s \<Rightarrow> bool"
  assumes add_elems: "ok c \<Longrightarrow> elems (add x c) = insert x (elems c)"
    and add_ok: "ok c \<Longrightarrow> ok (add x c)"
    and del_elems: "ok c \<Longrightarrow> elems (del x c) = elems c - {x}"
    and del_ok: "ok c \<Longrightarrow> ok (del x c)"
    and has_elems: "ok c \<Longrightarrow> has x c = (x \<in> elems c)"
begin

lemma add_twice: "ok c \<Longrightarrow> elems (add x (add x c)) = elems (add x c)"
  by (simp add: add_elems add_ok)

lemma del_add: "ok c \<Longrightarrow> \<not> has x c \<Longrightarrow> elems (del x (add x c)) = elems c"
  by (simp add: add_elems add_ok del_elems has_elems)

lemma adds: "ok c \<Longrightarrow> ok (foldr add xs c) \<and> elems (foldr add xs c) = set xs \<union> elems c"
  by (induction xs) (auto simp: add_elems add_ok)

end

definition std_in :: "'a list \<Rightarrow> 'a \<Rightarrow> ('a \<Rightarrow> 'a \<Rightarrow> bool) \<Rightarrow> bool" where
  "std_in xs x eq = list_ex (\<lambda>y. eq y x) xs"

lemma std_in_ok [simp]: "list_in_ok std_in"
  by (auto simp: list_in_ok_def std_in_def list_ex_iff)

lemma set_ops:
  assumes "list_in_ok list_In" "gs_list_ok L"
  shows "set_In list_In x c = (x \<in> set c)" "set (set_Add list_In x c) = insert x (set c)"
    "distinct c \<Longrightarrow> distinct (set_Add list_In x c)" "set (set_Del L x c) = set c - {x}"
    "distinct c \<Longrightarrow> distinct (set_Del L x c)"
  using assms by (auto simp: set_In_def set_Add_def set_Del_def list_in_ok_def gs_listD)

lemma set_model_holds:
  "list_in_ok list_In \<Longrightarrow> gs_list_ok L \<Longrightarrow> set_model (set_Add list_In) (set_Del L) (set_In list_In) set distinct"
  by unfold_locales (simp_all add: set_ops)

interpretation failed: set_model "set_Add std_in" "set_Del gs_list_std" "set_In std_in" set distinct
  by (rule set_model_holds) simp_all

text \<open>
  The slice behind the set of hosts represents a mathematical set: adding, deleting and
  membership are those of sets, no host is listed twice, and any sequence of additions leaves
  the union, each host once.
\<close>

theorem host_set_refines:
  assumes "list_in_ok list_In" "gs_list_ok L" "distinct c"
  shows "set (foldr (set_Add list_In) xs c) = set xs \<union> set c \<and>
    length (foldr (set_Add list_In) xs c) = card (set xs \<union> set c) \<and>
    set (set_Del L x c) = set c - {x} \<and> (set_In list_In x c \<longleftrightarrow> x \<in> set c)"
proof -
  note sm = set_model_holds [OF assms(1,2)]
  show ?thesis
    using set_model.adds [OF sm assms(3), of xs] set_model.del_elems [OF sm assms(3), of x]
      set_model.has_elems [OF sm assms(3), of x]
    by (metis distinct_card)
qed

theorem host_set_refines_witness:
  "length (foldr (set_Add std_in) [''a'', ''b'', ''a''] []) = 2"
  using host_set_refines [of std_in gs_list_std "[] :: string list" "[''a'', ''b'', ''a'']" "''a''"]
  by (simp add: insert_commute card_insert_if)

end
