(* ===== verification/Client_Server.thy ===== *)
theory Client_Server
  imports Client_Repair
begin

text \<open>
  The client and the server together: the remaining requests of \<open>controll.go\<close> to the API of
  \<open>all_servers.go\<close>, and what a client gets whose n-th request is answered by \<open>serve\<close>: nothing, for its
  requests carry no password.
\<close>

subsection \<open>Requests that succeed or fail\<close>

definition verdict :: "client_env \<Rightarrow> string \<Rightarrow> client \<Rightarrow> (bool \<times> client) go" where
  "verdict E reply c =
     (if reply = [] then Ret (False, c)
      else go_bind (RecvMsg E reply) (\<lambda>(_, ok). Ret (ok, c)))"

definition ConfigServer :: "client_env \<Rightarrow> string \<Rightarrow> string \<Rightarrow> client \<Rightarrow> (bool \<times> client) go" where
  "ConfigServer E name val c =
     (case post E ''/z-set'' (Some [(''name'', JStr name), (''val'', JStr val)]) c of ((reply, err), c1) \<Rightarrow>
        verdict E reply (if err \<noteq> None then route_up c1 else c1))"

definition get_verdict :: "client_env \<Rightarrow> string \<Rightarrow> client \<Rightarrow> (bool \<times> client) go" where
  "get_verdict E path c =
     (case ce_get E (cl_tick c) (Wrap E (cl_Addr c) @ path) of (reply, err) \<Rightarrow>
        if err \<noteq> None then Ret (False, route_up (tick c)) else verdict E reply (tick c))"

definition ClearAllRoute :: "client_env \<Rightarrow> client \<Rightarrow> (bool \<times> client) go" where
  "ClearAllRoute E c = get_verdict E ''/__close-all'' c"

definition ClearALLOpenUFW :: "client_env \<Rightarrow> client \<Rightarrow> (bool \<times> client) go" where
  "ClearALLOpenUFW E c = get_verdict E ''/z-ufw-close'' c"

subsection \<open>An exchange with the server\<close>

text \<open>
  What the client decodes of a response: one reply is a JSON object, anything else (no reply, or
  two in a row) does not decode.  \<open>enc\<close> is the JSON of a configuration.
\<close>

fun msg_json :: "(config \<Rightarrow> jval) \<Rightarrow> msg \<Rightarrow> jval" where
  "msg_json enc (MStr s) = JStr s"
| "msg_json enc (MConfig c) = enc c"
| "msg_json enc (MBool b) = JBool b"
| "msg_json enc (MIds ids) = JArr (map JStr ids)"
| "msg_json enc (MVal v) = v"
| "msg_json enc _ = JNull"

definition body_dict :: "(config \<Rightarrow> jval) \<Rightarrow> http_resp \<Rightarrow> jdict" where
  "body_dict enc r =
     (case hs_replies r of
        [(m, st)] \<Rightarrow> [(''status'', JStr (if st then ''ok'' else ''fail'')), (''msg'', msg_json enc m)]
      | _ \<Rightarrow> [])"

definition answered :: "client_env \<Rightarrow> api_env \<Rightarrow> (config \<Rightarrow> jval) \<Rightarrow> string \<Rightarrow> string \<Rightarrow> http_req \<Rightarrow> pool \<Rightarrow> pool \<Rightarrow> bool" where
  "answered E S enc reply path rq pl pl' \<longleftrightarrow> reply \<noteq> [] \<and>
     (\<exists>resp. serve S path rq pl = Ret (resp, pl') \<and> ce_json E reply = body_dict enc resp \<and>
        (\<forall>conf. (MConfig conf, True) \<in> set (hs_replies resp) \<longrightarrow> ce_decode E (enc conf) = Inr conf))"

text \<open>The JSON text of a request for a tunnel of some type.\<close>

definition get_data :: "string option \<Rightarrow> jdict option" where
  "get_data tp = map_option (\<lambda>t. [(''type'', JStr t)]) tp"

definition asks :: "client_env \<Rightarrow> string option \<Rightarrow> client \<Rightarrow> string \<Rightarrow> bool" where
  "asks E tp c reply \<longleftrightarrow>
     ce_post E (cl_tick c) (Wrap E (cl_Addr c) @ ''/proxy-get'') (get_data tp) = (reply, None)"

lemma fetch_answered:
  assumes "asks E tp c reply" "reply \<noteq> []"
  shows "fetch_profile E tp c =
    go_bind (RecvMsg E reply) (\<lambda>(obj, ok).
      let c1 = tick (c\<lparr>cl_init := cl_init c + 1\<rparr>) in
      if ok then
        (case ce_decode E obj of
           Inl _ \<Rightarrow> Ret (None, route_fail c1)
         | Inr conf \<Rightarrow>
             go_bind (if cf_Server conf = SrvStr ''0.0.0.0''
                then go_bind (WrapIPPort E (Wrap E (cl_Addr c))) (\<lambda>h. Ret (conf\<lparr>cf_Server := SrvStr h\<rparr>))
                else Ret conf)
              (\<lambda>conf'. Ret (Some conf', c1\<lparr>cl_errorid := AList.update (cf_ID conf') 0 (cl_errorid c1)\<rparr>)))
      else Ret (None, route_fail c1))"
proof -
  have "post_retry E 2 (get_data tp) ([], None) (c\<lparr>cl_init := cl_init c + 1\<rparr>) =
      ((reply, None), tick (c\<lparr>cl_init := cl_init c + 1\<rparr>))"
    using assms(1) by (simp add: numeral_2_eq_2 post_def asks_def tick_def)
  moreover have a: "cl_Addr (tick (c\<lparr>cl_init := cl_init c + 1\<rparr>)) = cl_Addr c" by simp
  ultimately show ?thesis
    using assms(2) unfolding fetch_profile_def get_data_def [symmetric] Let_def by (simp only: prod.case a) simp
qed

lemma recv_body:
  assumes "ce_json E reply = body_dict enc resp"
  shows "RecvMsg E reply = (case hs_replies resp of
    [(m, st)] \<Rightarrow> Ret (msg_json enc m, st) | _ \<Rightarrow> Ret (JNull, False))"
  by (auto simp: RecvMsg_def assms body_dict_def split: list.splits)

text \<open>
  What the server sees of \<open>HTTPSPost\<close>: no header but the type of the content is set, so there is no
  \<open>Authorization\<close>; the body is the JSON text of the data.  Whatever the client posts changes nothing.
\<close>

definition posted :: "(jdict option \<Rightarrow> string) \<Rightarrow> jdict option \<Rightarrow> http_req" where
  "posted json data = \<lparr>hr_auth = [], hr_body = Inr (json data)\<rparr>"

lemma posted_refused:
  assumes "serve S path (posted json data) pl = Ret (resp, pl')"
  shows "pl' = pl" "resp = (if route S path = None then WriteHeader 404 no_resp else unauthorized)"
  using assms by (auto simp: serve_def basicAuth_def posted_def split: option.splits)


text \<open>
  The client's request to close the open firewall ports is never served: the path it uses is
  not a path of the server, whatever credentials come with it, and the ports stay as they are.
\<close>

theorem clear_ufw_unserved:
  assumes "ce_get E (cl_tick c) (Wrap E (cl_Addr c) @ ''/z-ufw-close'') = (reply, None)"
    "answered E S enc reply ''/z-ufw-close'' rq pl pl'"
  shows "ClearALLOpenUFW E c = Ret (False, tick c) \<and> pl' = pl"
proof -
  have n: "route S ''/z-ufw-close'' = None" by (simp add: route_def)
  obtain resp where r: "serve S ''/z-ufw-close'' rq pl = Ret (resp, pl')" "ce_json E reply = body_dict enc resp" "reply \<noteq> []"
    using assms(2) by (auto simp: answered_def)
  have "resp = WriteHeader 404 no_resp" "pl' = pl" using r(1) n by (auto simp: serve_def)
  then have "RecvMsg E reply = Ret (JNull, False)"
    using recv_body [OF r(2)] by (simp add: WriteHeader_def no_resp_def)
  then show ?thesis using assms(1) r(3) \<open>pl' = pl\<close> by (simp add: ClearALLOpenUFW_def get_verdict_def verdict_def)
qed

subsection \<open>The two ends set up\<close>

text \<open>A server whose pool holds one tunnel, and a client that talks to it.\<close>

definition wired_env :: "http_resp \<Rightarrow> client_env" where
  "wired_env resp = toy_client_env\<lparr>ce_json := (\<lambda>_. body_dict (\<lambda>_. JNull) resp),
     ce_decode := (\<lambda>_. case hs_replies resp of [(MConfig c, _)] \<Rightarrow> Inr c | _ \<Rightarrow> Inl EOF)\<rparr>"

lemma wired_answered:
  assumes "serve S path rq pl = Ret (resp, pl')" "\<forall>m \<in> set (hs_replies resp). hs_replies resp = [m]"
  shows "answered (wired_env resp) S (\<lambda>_. JNull) ''tls'' path rq pl pl'"
  using assms by (fastforce simp: answered_def wired_env_def)

lemma wired_asks: "asks (wired_env resp) tp c ''tls''"
  by (simp add: asks_def wired_env_def toy_client_env_def)


theorem clear_ufw_unserved_witness:
  "ClearALLOpenUFW (wired_env (WriteHeader 404 no_resp)) toy_client = Ret (False, tick toy_client)"
proof -
  have "serve toy_api ''/z-ufw-close'' (posted (\<lambda>_. []) None) one_tunnel = Ret (WriteHeader 404 no_resp, one_tunnel)"
    by (simp add: serve_def route_def)
  then have "answered (wired_env (WriteHeader 404 no_resp)) toy_api (\<lambda>_. JNull) ''ok'' ''/z-ufw-close''
      (posted (\<lambda>_. []) None) one_tunnel one_tunnel"
    by (auto simp: answered_def wired_env_def WriteHeader_def no_resp_def)
  then show ?thesis using clear_ufw_unserved by (auto simp: wired_env_def toy_client_env_def)
qed

end
