(* ===== verification/Client_Locks.thy ===== *)
theory Client_Locks
  imports Prelude
begin

text \<open>
  The queue of profiles and the client's lock as goroutines use them at once, step by step
  (\<open>src/clientcontroll/controll.go\<close>): \<open>GetAviableProxy\<close> reads a counter under the lock and polls the
  queue without it, \<open>RebuildSmux\<close> sends the profile back under the lock, and \<open>ClearPofiles\<close> drains
  the queue under the lock with receives that wait.  A goroutine that polls an empty queue makes
  no step; the queue is its length.
\<close>

datatype user_pc = UStart | UPoll | UGot | UCheck | URotate | UPush | UDone
datatype clear_pc = CStart | CLen | CRecv | CDone

record queue_sys =
  qs_queue :: nat
  qs_cap :: nat
  qs_locked :: bool
  qs_clear :: clear_pc
  qs_users :: "user_pc list"

definition queue_start :: "nat \<Rightarrow> nat \<Rightarrow> nat \<Rightarrow> queue_sys" where
  "queue_start cap q n = \<lparr>qs_queue = q, qs_cap = cap, qs_locked = False, qs_clear = CStart,
     qs_users = replicate n UStart\<rparr>"

definition user_at :: "nat \<Rightarrow> user_pc \<Rightarrow> queue_sys \<Rightarrow> bool" where
  "user_at i p s \<longleftrightarrow> i < length (qs_users s) \<and> qs_users s ! i = p"

definition user_to :: "nat \<Rightarrow> user_pc \<Rightarrow> queue_sys \<Rightarrow> queue_sys" where
  "user_to i p s = s\<lparr>qs_users := (qs_users s)[i := p]\<rparr>"

inductive queue_step :: "queue_sys \<Rightarrow> queue_sys \<Rightarrow> bool" where
  read_counter: "user_at i UStart s \<Longrightarrow> \<not> qs_locked s \<Longrightarrow> queue_step s (user_to i UPoll s)"
| take_profile: "user_at i UPoll s \<Longrightarrow> 0 < qs_queue s \<Longrightarrow>
    queue_step s ((user_to i UGot s)\<lparr>qs_queue := qs_queue s - 1\<rparr>)"
| enter: "user_at i UGot s \<Longrightarrow> \<not> qs_locked s \<Longrightarrow> queue_step s ((user_to i UCheck s)\<lparr>qs_locked := True\<rparr>)"
| check_full: "user_at i UCheck s \<Longrightarrow>
    queue_step s (user_to i (if qs_queue s = qs_cap s then URotate else UPush) s)"
| rotate: "user_at i URotate s \<Longrightarrow> 0 < qs_queue s \<Longrightarrow>
    queue_step s ((user_to i UPush s)\<lparr>qs_queue := qs_queue s - 1\<rparr>)"
| push: "user_at i UPush s \<Longrightarrow> qs_queue s < qs_cap s \<Longrightarrow>
    queue_step s ((user_to i UDone s)\<lparr>qs_queue := qs_queue s + 1, qs_locked := False\<rparr>)"
| clear_enter: "qs_clear s = CStart \<Longrightarrow> \<not> qs_locked s \<Longrightarrow> queue_step s (s\<lparr>qs_clear := CLen, qs_locked := True\<rparr>)"
| clear_more: "qs_clear s = CLen \<Longrightarrow> 0 < qs_queue s \<Longrightarrow> queue_step s (s\<lparr>qs_clear := CRecv\<rparr>)"
| clear_recv: "qs_clear s = CRecv \<Longrightarrow> 0 < qs_queue s \<Longrightarrow>
    queue_step s (s\<lparr>qs_clear := CLen, qs_queue := qs_queue s - 1\<rparr>)"
| clear_leave: "qs_clear s = CLen \<Longrightarrow> qs_queue s = 0 \<Longrightarrow> queue_step s (s\<lparr>qs_clear := CDone, qs_locked := False\<rparr>)"

inductive queue_reach :: "queue_sys \<Rightarrow> queue_sys \<Rightarrow> bool" for s0 where
  queue_init: "queue_reach s0 s0"
| queue_next: "queue_reach s0 s \<Longrightarrow> queue_step s s' \<Longrightarrow> queue_reach s0 s'"

inductive_simps queue_step_simps: "queue_step s s'"

subsection \<open>Mutual exclusion\<close>

definition inside :: "user_pc \<Rightarrow> bool" where
  "inside p \<longleftrightarrow> p \<in> {UCheck, URotate, UPush}"

definition holding :: "user_pc \<Rightarrow> bool" where
  "holding p \<longleftrightarrow> p \<in> {UGot, UCheck, URotate, UPush}"

definition clear_inside :: "queue_sys \<Rightarrow> int" where
  "clear_inside s = (if qs_clear s \<in> {CLen, CRecv} then 1 else 0)"

text \<open>The lock is held by exactly one goroutine; no profile is made up.\<close>

definition queue_inv :: "nat \<Rightarrow> queue_sys \<Rightarrow> bool" where
  "queue_inv q0 s \<longleftrightarrow> cnt inside (qs_users s) + clear_inside s = (if qs_locked s then 1 else 0) \<and>
     qs_queue s \<le> qs_cap s \<and> int (qs_queue s) + cnt holding (qs_users s) \<le> int q0"

lemma pc_simps [simp]:
  "inside UCheck" "inside URotate" "inside UPush" "\<not> inside UStart" "\<not> inside UPoll" "\<not> inside UGot" "\<not> inside UDone"
  "holding UGot" "holding UCheck" "holding URotate" "holding UPush" "\<not> holding UStart" "\<not> holding UPoll" "\<not> holding UDone"
  by (simp_all add: inside_def holding_def)

lemma queue_inv_step: "queue_step s s' \<Longrightarrow> queue_inv q0 s \<Longrightarrow> queue_inv q0 s'"
proof (induction rule: queue_step.induct)
  case (check_full i s)
  then show ?case
    by (cases "qs_queue s = qs_cap s") (auto simp: queue_inv_def user_at_def user_to_def cnt_update clear_inside_def)
next
  case (push i s)
  then have "1 \<le> cnt inside (qs_users s)" by (intro cnt_pos [of i]) (auto simp: user_at_def)
  with push show ?case by (auto simp: queue_inv_def user_at_def user_to_def cnt_update clear_inside_def split: if_splits)
next
  case (clear_leave s)
  then show ?case using cnt_nonneg [of inside "qs_users s"]
    by (auto simp: queue_inv_def clear_inside_def simp del: cnt_nonneg split: if_splits)
qed (auto simp: queue_inv_def user_at_def user_to_def cnt_update clear_inside_def split: if_splits)

lemma queue_inv_reach: "queue_reach s0 s \<Longrightarrow> queue_inv q0 s0 \<Longrightarrow> queue_inv q0 s"
  by (induction rule: queue_reach.induct) (auto intro: queue_inv_step)

text \<open>
  However the goroutines interleave, at most one is inside the lock, the queue stays within its
  capacity, and profiles are never multiplied: those queued and those in a goroutine's hands are
  at most the ones there were.
\<close>

theorem queue_exclusive:
  assumes "queue_reach (queue_start cap q n) s" "q \<le> cap"
  shows "cnt inside (qs_users s) + clear_inside s \<le> 1 \<and> qs_queue s \<le> cap \<and>
    int (qs_queue s) + cnt holding (qs_users s) \<le> int q"
proof -
  have "queue_inv q (queue_start cap q n)"
    using assms(2) by (simp add: queue_inv_def queue_start_def cnt_replicate clear_inside_def)
  then have "queue_inv q s" using queue_inv_reach assms(1) by blast
  moreover have "qs_cap s = cap" using assms(1)
    by (induction rule: queue_reach.induct) (auto simp: queue_start_def queue_step_simps user_to_def)
  ultimately show ?thesis by (auto simp: queue_inv_def split: if_splits)
qed

theorem queue_exclusive_witness:
  "\<exists>s. queue_reach (queue_start 2 1 2) s \<and> qs_clear s = CLen \<and> cnt inside (qs_users s) = 0"
proof -
  let ?s = "(queue_start 2 1 2)\<lparr>qs_clear := CLen, qs_locked := True\<rparr>"
  have "queue_step (queue_start 2 1 2) ?s"
    using clear_enter [of "queue_start 2 1 2"] by (simp add: queue_start_def)
  then have r: "queue_reach (queue_start 2 1 2) ?s" using queue_init queue_next by blast
  have "clear_inside ?s = 1" by (simp add: clear_inside_def)
  with queue_exclusive [OF r] have "cnt inside (qs_users ?s) \<le> 0" by simp
  then have "cnt inside (qs_users ?s) = 0" using cnt_nonneg [of inside "qs_users ?s"] by (rule order_antisym)
  with r show ?thesis by (intro exI [of _ ?s]) simp
qed

subsection \<open>The deadlock\<close>

text \<open>
  C32. Clearing the queue can deadlock the client: between the test that the queue is not empty
  and the receive, another goroutine takes the last profile; the clearing then waits inside the
  lock for a profile that can only be sent back under that lock, and no goroutine ever moves
  again.
\<close>

theorem clear_deadlocks:
  assumes "0 < n" "0 < cap"
  shows "\<exists>s. queue_reach (queue_start cap 1 n) s \<and> qs_locked s \<and> qs_clear s = CRecv \<and>
    user_at 0 UGot s \<and> (\<forall>s'. \<not> queue_step s s')"
proof -
  let ?s0 = "queue_start cap 1 n"
  define s1 where "s1 = user_to 0 UPoll ?s0"
  define s2 where "s2 = s1\<lparr>qs_clear := CLen, qs_locked := True\<rparr>"
  define s3 where "s3 = s2\<lparr>qs_clear := CRecv\<rparr>"
  define s4 where "s4 = (user_to 0 UGot s3)\<lparr>qs_queue := qs_queue s3 - 1\<rparr>"
  note defs = s4_def s3_def s2_def s1_def user_to_def queue_start_def
  have "queue_step ?s0 s1" unfolding s1_def
    by (rule read_counter) (use assms(1) in \<open>simp_all add: user_at_def queue_start_def\<close>)
  moreover have "queue_step s1 s2" unfolding s2_def by (rule clear_enter) (simp_all add: defs)
  moreover have "queue_step s2 s3" unfolding s3_def by (rule clear_more) (simp_all add: defs)
  moreover have "queue_step s3 s4" unfolding s4_def
    by (rule take_profile) (use assms(1) in \<open>simp_all add: user_at_def defs\<close>)
  ultimately have reach: "queue_reach ?s0 s4" by (meson queue_init queue_next)
  have state: "qs_locked s4" "qs_clear s4 = CRecv" "qs_queue s4 = 0"
    "qs_users s4 = (replicate n UStart)[0 := UGot]"
    by (simp_all add: defs)
  have users: "qs_users s4 ! i \<in> {UStart, UGot}" if "i < length (qs_users s4)" for i
    using that by (simp add: state(4) nth_list_update)
  have "\<not> queue_step s4 s'" for s'
  proof
    assume "queue_step s4 s'"
    then show False
    proof (cases rule: queue_step.cases)
      case (check_full i)
      then show False using users [of i] by (auto simp: user_at_def)
    next
      case (push i)
      then show False using users [of i] by (auto simp: user_at_def)
    qed (use state(1-3) in auto)
  qed
  moreover have "user_at 0 UGot s4" using assms(1) by (simp add: user_at_def state(4))
  ultimately show ?thesis using reach state by blast
qed

theorem clear_deadlocks_witness:
  "\<exists>s. queue_reach (queue_start 4 1 3) s \<and> (\<forall>s'. \<not> queue_step s s') \<and> qs_locked s"
  using clear_deadlocks [of 3 4] by auto

end
