(* ===== verification/Debug_Log.thy ===== *)
theory Debug_Log
  imports Go_Strings
begin

text \<open>
  \<open>src/connections/debuglog/debuglog.go\<close>: the log file that is reopened every ten thousand writes,
  the gate for hot-path lines, and the sampler.  A file handle is a number, the number of the
  opening that gave it; what each opening gives (a handle or an error) and the formatting of a
  line are parameters.  The 64-bit counters are counted without wrap-around.
\<close>

subsection \<open>The writer\<close>

definition reopenEvery :: nat where "reopenEvery = 10000"

text \<open>\<open>lw_lines\<close> is what was written, oldest first, each line with the handle it went to.\<close>

record log_writer =
  lw_f :: "nat option"
  lw_writes :: nat
  lw_opens :: nat
  lw_closed :: "nat list"
  lw_lines :: "(nat \<times> string) list"

definition new_writer :: log_writer where
  "new_writer = \<lparr>lw_f = None, lw_writes = 0, lw_opens = 0, lw_closed = [], lw_lines = []\<rparr>"

definition append_line :: "string \<Rightarrow> log_writer \<Rightarrow> log_writer" where
  "append_line line w = (case lw_f w of
     None \<Rightarrow> w
   | Some h \<Rightarrow> w\<lparr>lw_writes := lw_writes w + 1, lw_lines := lw_lines w @ [(h, line)]\<rparr>)"

definition log_write :: "(nat \<Rightarrow> bool) \<Rightarrow> string \<Rightarrow> log_writer \<Rightarrow> log_writer" where
  "log_write openable line w =
     (if lw_f w = None \<or> lw_writes w mod reopenEvery = 0 then
        let w1 = (case lw_f w of None \<Rightarrow> w | Some h \<Rightarrow> w\<lparr>lw_closed := lw_closed w @ [h], lw_f := None\<rparr>) in
        if openable (lw_opens w1)
        then append_line line (w1\<lparr>lw_f := Some (lw_opens w1), lw_opens := lw_opens w1 + 1\<rparr>)
        else w1\<lparr>lw_opens := lw_opens w1 + 1\<rparr>
      else append_line line w)"

subsection \<open>The gate and the sampler\<close>

definition gatedPrefixes :: "string list" where
  "gatedPrefixes = [''[req]'', ''[dial] SLOW'']"

fun gated_scan :: "string list \<Rightarrow> string \<Rightarrow> bool" where
  "gated_scan [] format = False"
| "gated_scan (p # ps) format = (if has_prefix format p then True else gated_scan ps format)"

definition gated :: "string \<Rightarrow> bool" where
  "gated format = gated_scan gatedPrefixes format"

definition Write :: "(nat \<Rightarrow> bool) \<Rightarrow> bool \<Rightarrow> string \<Rightarrow> string \<Rightarrow> log_writer \<Rightarrow> log_writer" where
  "Write openable enabled format line w =
     (if gated format \<and> \<not> enabled then w else log_write openable line w)"

text \<open>With a modulus of zero the remainder panics once the first lines are through.\<close>

definition Allow :: "string \<Rightarrow> nat \<Rightarrow> nat \<Rightarrow> (string \<times> nat) list \<Rightarrow> (bool \<times> (string \<times> nat) list) go" where
  "Allow category firstN modN counters =
     (let n = (case map_of counters category of None \<Rightarrow> 0 | Some k \<Rightarrow> k) + 1;
          counters' = AList.update category n counters in
      if n \<le> firstN then Ret (True, counters')
      else if modN = 0 then Panic
      else Ret (n mod modN = 0, counters'))"

fun allow_run :: "string \<Rightarrow> nat \<Rightarrow> nat \<Rightarrow> nat \<Rightarrow> (string \<times> nat) list \<Rightarrow> (nat \<times> (string \<times> nat) list) go" where
  "allow_run category firstN modN 0 cs = Ret (0, cs)"
| "allow_run category firstN modN (Suc m) cs =
     go_bind (Allow category firstN modN cs) (\<lambda>(a, cs1).
       go_bind (allow_run category firstN modN m cs1) (\<lambda>(k, cs2). Ret ((if a then 1 else 0) + k, cs2)))"

subsection \<open>What is written\<close>

text \<open>
  The lines of one file: between two openings at most \<open>reopenEvery\<close> lines go to a handle, every
  handle but the current one is closed, and no line goes to a closed one.
\<close>

definition lines_to :: "nat \<Rightarrow> log_writer \<Rightarrow> nat" where
  "lines_to h w = length (filter (\<lambda>(k, _). k = h) (lw_lines w))"

definition writer_inv :: "log_writer \<Rightarrow> bool" where
  "writer_inv w \<longleftrightarrow> lw_writes w = length (lw_lines w) \<and>
     (\<forall>(k, _) \<in> set (lw_lines w). k < lw_opens w) \<and>
     (\<forall>h. lines_to h w \<le> reopenEvery) \<and>
     (\<forall>h. lw_f w = Some h \<longrightarrow> h < lw_opens w \<and> h \<notin> set (lw_closed w) \<and> 0 < lines_to h w \<and>
        lines_to h w \<le> (lw_writes w - 1) mod reopenEvery + 1) \<and>
     (\<forall>h \<in> set (lw_closed w). h < lw_opens w)"

lemma new_writer_inv: "writer_inv new_writer"
  by (simp add: writer_inv_def new_writer_def lines_to_def)

lemma lines_to_fresh: "\<forall>(k, _) \<in> set (lw_lines w). k < h \<Longrightarrow> lines_to h w = 0"
  by (auto simp: lines_to_def filter_empty_conv)

lemma lines_append:
  "lines_to h (w\<lparr>lw_writes := n, lw_lines := lw_lines w @ [(k, l)]\<rparr>) = lines_to h w + (if k = h then 1 else 0)"
  by (simp add: lines_to_def)

lemma log_write_inv:
  assumes "writer_inv w"
  shows "writer_inv (log_write openable line w)"
proof -
  have inv: "lw_writes w = length (lw_lines w)" "\<forall>(k, _) \<in> set (lw_lines w). k < lw_opens w"
    "\<And>h. lines_to h w \<le> reopenEvery"
    "\<And>h. lw_f w = Some h \<Longrightarrow> h < lw_opens w \<and> h \<notin> set (lw_closed w) \<and> 0 < lines_to h w \<and>
        lines_to h w \<le> (lw_writes w - 1) mod reopenEvery + 1"
    "\<forall>h \<in> set (lw_closed w). h < lw_opens w"
    using assms by (auto simp: writer_inv_def)
  show ?thesis
  proof (cases "lw_f w = None \<or> lw_writes w mod reopenEvery = 0")
    case True
    define w1 where "w1 = (case lw_f w of None \<Rightarrow> w | Some h \<Rightarrow> w\<lparr>lw_closed := lw_closed w @ [h], lw_f := None\<rparr>)"
    have w1: "lw_writes w1 = lw_writes w" "lw_lines w1 = lw_lines w" "lw_opens w1 = lw_opens w" "lw_f w1 = None"
      "\<forall>h \<in> set (lw_closed w1). h < lw_opens w"
      using inv(4,5) by (auto simp: w1_def split: option.splits)
    have lt: "lines_to h w1 = lines_to h w" for h by (simp add: lines_to_def w1)
    show ?thesis
    proof (cases "openable (lw_opens w)")
      case False
      then have "log_write openable line w = w1\<lparr>lw_opens := lw_opens w + 1\<rparr>"
        using True w1(3) by (simp add: log_write_def w1_def [symmetric] Let_def)
      moreover have "lines_to h (w1\<lparr>lw_opens := lw_opens w + 1\<rparr>) = lines_to h w" for h by (simp add: lines_to_def w1)
      ultimately show ?thesis using inv(1-3) w1 by (fastforce simp: writer_inv_def)
    next
      case True': True
      let ?o = "lw_opens w"
      define w2 where "w2 = w1\<lparr>lw_f := Some ?o, lw_opens := ?o + 1\<rparr>"
      define w3 where "w3 = w2\<lparr>lw_writes := lw_writes w + 1, lw_lines := lw_lines w2 @ [(?o, line)]\<rparr>"
      have "log_write openable line w = w3"
        using True True' w1 by (simp add: log_write_def w1_def [symmetric] Let_def append_line_def w3_def w2_def)
      moreover have "lines_to h w3 = lines_to h w + (if ?o = h then 1 else 0)" for h
        by (simp add: w3_def lines_to_def w2_def w1)
      moreover have "lines_to ?o w = 0" by (rule lines_to_fresh [OF inv(2)])
      moreover have "lw_writes w3 = length (lw_lines w3)" "lw_f w3 = Some ?o" "lw_opens w3 = ?o + 1"
        "lw_closed w3 = lw_closed w1" "\<forall>(k, _) \<in> set (lw_lines w3). k < ?o + 1"
        using inv(1,2) w1 by (auto simp: w3_def w2_def)
      moreover have "1 \<le> reopenEvery" by (simp add: reopenEvery_def)
      ultimately show ?thesis using inv(3) w1(5) unfolding writer_inv_def
        by (auto simp: less_Suc_eq)
    qed
  next
    case False
    then obtain h where h: "lw_f w = Some h" "lw_writes w mod reopenEvery \<noteq> 0" by auto
    define w3 where "w3 = w\<lparr>lw_writes := lw_writes w + 1, lw_lines := lw_lines w @ [(h, line)]\<rparr>"
    have "log_write openable line w = w3" using False h by (simp add: log_write_def append_line_def w3_def)
    moreover have l3: "lines_to k w3 = lines_to k w + (if h = k then 1 else 0)" for k
      by (simp add: w3_def lines_to_def)
    moreover have step: "(lw_writes w - 1) mod reopenEvery + 1 = lw_writes w mod reopenEvery"
      using h(2) by (metis Suc_eq_plus1 Suc_pred' mod_Suc not_gr_zero mod_0)
    have "lines_to h w3 \<le> lw_writes w mod reopenEvery + 1" using inv(4) [OF h(1)] l3 step by simp
    moreover have "lw_writes w mod reopenEvery + 1 \<le> reopenEvery"
      using mod_less_divisor [of reopenEvery "lw_writes w"] by (simp add: reopenEvery_def)
    moreover have "lines_to k w3 \<le> reopenEvery" for k
      using l3 [of k] inv(3) [of k] calculation by (cases "h = k") auto
    ultimately show ?thesis using inv h l3 unfolding writer_inv_def
      by (auto simp: w3_def)
  qed
qed

text \<open>
  No file handle gets more than ten thousand lines, and no line is written to a handle after it
  was closed, whatever openings fail; lines that find no file are dropped and not counted.
\<close>

theorem log_file_rotated:
  assumes "w = foldl (\<lambda>w (openable, line). log_write openable line w) new_writer calls"
  shows "lines_to h w \<le> reopenEvery \<and> lw_writes w = length (lw_lines w) \<and> lw_writes w \<le> length calls \<and>
    (lw_f w = Some h \<longrightarrow> h \<notin> set (lw_closed w))"
proof -
  have "writer_inv (foldl (\<lambda>w (openable, line). log_write openable line w) w0 cs)" if "writer_inv w0" for w0 cs
    using that by (induction cs arbitrary: w0) (auto simp: log_write_inv)
  moreover have "lw_writes (log_write p l v) \<le> lw_writes v + 1" for p l v
    by (auto simp: log_write_def append_line_def Let_def split: option.splits)
  then have "lw_writes (foldl (\<lambda>w (openable, line). log_write openable line w) w0 cs) \<le> lw_writes w0 + length cs" for w0 cs
  proof (induction cs arbitrary: w0)
    case (Cons c cs)
    show ?case using Cons.IH [OF Cons.prems, of "case c of (p, l) \<Rightarrow> log_write p l w0"]
        Cons.prems [of "fst c" "snd c" w0] by (cases c) simp
  qed simp
  ultimately have "writer_inv w" "lw_writes w \<le> lw_writes new_writer + length calls"
    using assms new_writer_inv by blast+
  then show ?thesis by (auto simp: writer_inv_def new_writer_def)
qed

theorem log_file_rotated_witness:
  "lw_writes (foldl (\<lambda>w (openable, line). log_write openable line w) new_writer
     [(\<lambda>n. n \<noteq> 0, ''a''), (\<lambda>n. n \<noteq> 0, ''b'')]) \<le> 2"
  using log_file_rotated [OF refl, where calls = "[(\<lambda>n. n \<noteq> 0, ''a''), (\<lambda>n. n \<noteq> 0, ''b'')]" and h = 0] by simp

subsection \<open>What is sampled\<close>

definition allowed_of :: "nat \<Rightarrow> nat \<Rightarrow> nat \<Rightarrow> nat \<Rightarrow> nat" where
  "allowed_of firstN modN a m = length (filter (\<lambda>n. n \<le> firstN \<or> n mod modN = 0) [a + 1..<a + m + 1])"

text \<open>
  Of \<open>m\<close> calls for one category the sampler lets through exactly the first ones and every
  multiple of the modulus, and the counters of other categories are untouched.
\<close>

theorem sampler_exact:
  assumes "0 < modN"
  shows "\<exists>cs'. allow_run category firstN modN m cs =
      Ret (allowed_of firstN modN (case map_of cs category of None \<Rightarrow> 0 | Some k \<Rightarrow> k) m, cs') \<and>
    (\<forall>other. other \<noteq> category \<longrightarrow> map_of cs' other = map_of cs other)"
proof (induction m arbitrary: cs)
  case 0
  show ?case by (simp add: allowed_of_def)
next
  case (Suc m)
  define a where "a = (case map_of cs category of None \<Rightarrow> 0 | Some k \<Rightarrow> k)"
  define cs1 where "cs1 = AList.update category (a + 1) cs"
  have A: "Allow category firstN modN cs = Ret (a + 1 \<le> firstN \<or> (a + 1) mod modN = 0, cs1)"
    using assms by (auto simp: Allow_def a_def [symmetric] cs1_def Let_def)
  have m1: "map_of cs1 category = Some (a + 1)" by (simp add: cs1_def update_conv')
  obtain cs' where IH: "allow_run category firstN modN m cs1 = Ret (allowed_of firstN modN (a + 1) m, cs')"
    "\<forall>other. other \<noteq> category \<longrightarrow> map_of cs' other = map_of cs1 other"
    using Suc.IH [of cs1] m1 by auto
  have "[a + 1..<a + Suc m + 1] = (a + 1) # [a + 1 + 1..<a + 1 + m + 1]" by (simp add: upt_rec)
  then have "allowed_of firstN modN a (Suc m) =
      (if a + 1 \<le> firstN \<or> (a + 1) mod modN = 0 then 1 else 0) + allowed_of firstN modN (a + 1) m"
    by (simp add: allowed_of_def)
  then show ?case
    using A IH unfolding a_def [symmetric] by (auto simp: cs1_def update_conv')
qed

theorem sampler_exact_witness:
  "\<exists>cs'. allow_run ''smux-idle'' 2 3 6 [] = Ret (4, cs')"
proof -
  have "allowed_of 2 3 0 6 = 4" by code_simp
  with sampler_exact [of 3 "''smux-idle''" 2 6 "[]"] show ?thesis by auto
qed

end
