(* ===== verification/Os_Shell.thy ===== *)
theory Os_Shell
  imports Client_Routing
begin

text \<open>
  The processes of the client: the shell commands of \<open>src/clientcontroll/cmd.go\<close> and \<open>src/router/r.go\<close>,
  and the functions of \<open>src/clientcontroll/controll.go\<close> that start, find and stop the process which
  serves a route.  What a command prints and the pid of a background process are parameters,
  functions of the number of commands run before; the state \<open>os\<close> records the commands and the
  files.  Sleeping, and where a background process sends its output, is left out.
\<close>

subsection \<open>Operations on a state\<close>

text \<open>An operation returns or panics and leaves a state either way: a panic keeps what was done.\<close>

type_synonym ('s, 'a) io = "'s \<Rightarrow> 'a go \<times> 's"

definition io_ret :: "'a \<Rightarrow> ('s, 'a) io" where
  "io_ret x s = (Ret x, s)"

definition io_panic :: "('s, 'a) io" where
  "io_panic s = (Panic, s)"

definition io_go :: "'a go \<Rightarrow> ('s, 'a) io" where
  "io_go r s = (r, s)"

definition io_do :: "('s \<Rightarrow> 's) \<Rightarrow> ('s, unit) io" where
  "io_do f s = (Ret (), f s)"

definition io_get :: "('s \<Rightarrow> 'a) \<Rightarrow> ('s, 'a) io" where
  "io_get f s = (Ret (f s), s)"

definition io_bind :: "('s, 'a) io \<Rightarrow> ('a \<Rightarrow> ('s, 'b) io) \<Rightarrow> ('s, 'b) io" where
  "io_bind m f s = (case m s of (Panic, s') \<Rightarrow> (Panic, s') | (Ret x, s') \<Rightarrow> f x s')"

definition io_then :: "('s, unit) io \<Rightarrow> ('s, 'b) io \<Rightarrow> ('s, 'b) io" where
  "io_then m k = io_bind m (\<lambda>_. k)"

definition io_when :: "bool \<Rightarrow> ('s, unit) io \<Rightarrow> ('s, unit) io" where
  "io_when b m = (if b then m else io_ret ())"

fun io_seq :: "('s, unit) io list \<Rightarrow> ('s, unit) io" where
  "io_seq [] = io_ret ()"
| "io_seq (m # ms) = io_then m (io_seq ms)"

lemma io_simps [simp]:
  "io_bind (io_ret x) f = f x"
  "io_bind io_panic f = io_panic"
  "io_bind (io_bind m f) g = io_bind m (\<lambda>x. io_bind (f x) g)"
  "io_then (io_ret ()) k = k"
  "io_then io_panic k = io_panic"
  by (auto simp: io_bind_def io_ret_def io_panic_def io_then_def fun_eq_iff split: prod.splits go.splits)

lemma io_run [simp]:
  "io_ret x s = (Ret x, s)" "io_panic s = (Panic, s)" "io_go r s = (r, s)" "io_do f s = (Ret (), f s)"
  "io_get h s = (Ret (h s), s)"
  "io_bind (io_do f) k s = k () (f s)" "io_bind (io_get h) k2 s = k2 (h s) s"
  "io_then (io_do f) k' s = k' (f s)"
  by (simp_all add: io_ret_def io_panic_def io_go_def io_do_def io_get_def io_bind_def io_then_def)

lemma io_bind_Ret: "m s = (Ret x, s') \<Longrightarrow> io_bind m f s = f x s'"
  by (simp add: io_bind_def)

lemma io_then_Ret: "m s = (Ret (), s') \<Longrightarrow> io_then m k s = k s'"
  by (simp add: io_then_def io_bind_Ret)

lemma io_seq_snoc:
  "io_seq ms s = (Ret (), s1) \<Longrightarrow> m s1 = (Ret (), s2) \<Longrightarrow> io_seq (ms @ [m]) s = (Ret (), s2)"
proof (induction ms arbitrary: s)
  case Nil
  then show ?case by (simp add: io_then_Ret)
next
  case (Cons m' ms)
  then obtain s0 where "m' s = (Ret (), s0)" "io_seq ms s0 = (Ret (), s1)"
    by (cases "m' s") (auto simp: io_then_def io_bind_def split: go.splits)
  then show ?case using Cons.IH Cons.prems(2) by (simp add: io_then_Ret)
qed

subsection \<open>Commands\<close>

record os =
  os_ran :: "string list list"
  os_files :: "(string \<times> string) list"

record os_env =
  oe_gs :: gslib
  oe_GOOS :: string
  oe_GOARCH :: string
  oe_self :: string
  oe_out :: "nat \<Rightarrow> string list \<Rightarrow> string"
  oe_pid :: "nat \<Rightarrow> string list \<Rightarrow> int option"

text \<open>A single quote and a backslash.\<close>

definition sq :: string where "sq = [CHR 0x27]"
definition bs :: string where "bs = [CHR 0x5C]"

definition shell_args :: "os_env \<Rightarrow> string \<Rightarrow> string list" where
  "shell_args E str =
     (if oe_GOOS E = ''windows'' then [''C:'' @ bs @ ''Windows'' @ bs @ ''System32'' @ bs @ ''Cmd.exe'', ''/C''] else [''sh'', ''-c'']) @ [str]"

definition Exec :: "os_env \<Rightarrow> string \<Rightarrow> os \<Rightarrow> string \<times> os" where
  "Exec E str w = (let args = shell_args E str in
     (oe_out E (length (os_ran w)) args, w\<lparr>os_ran := os_ran w @ [args]\<rparr>))"

text \<open>The error of a failed start is dropped; the pid of a process that does not exist panics.\<close>

definition ExecBackgroud :: "os_env \<Rightarrow> string \<Rightarrow> (os, int) io" where
  "ExecBackgroud E str w = (let args = shell_args E str; w' = w\<lparr>os_ran := os_ran w @ [args]\<rparr> in
     case oe_pid E (length (os_ran w)) args of None \<Rightarrow> (Panic, w') | Some pid \<Rightarrow> (Ret pid, w'))"

definition KillProcess :: "os_env \<Rightarrow> int \<Rightarrow> os \<Rightarrow> os" where
  "KillProcess E pid w = snd (Exec E (gs_F (oe_gs E) ''kill -9 %d'' [FInt pid]) w)"

definition CheckProcess :: "os_env \<Rightarrow> string \<Rightarrow> os \<Rightarrow> bool \<times> os" where
  "CheckProcess E key w =
     (let (out, w') = Exec E (gs_F (oe_gs E) (''ps|grep %s | grep -v '' @ sq @ ''(grep|egrep)'' @ sq) [FStr key]) w in
      (gs_Trim (oe_gs E) out \<noteq> [], w'))"

definition IsRouter :: "os_env \<Rightarrow> bool" where
  "IsRouter E \<longleftrightarrow> oe_GOOS E = ''linux'' \<and> gs_In (oe_gs E) (oe_GOARCH E) ''arm''"

definition pid_key :: "string \<Rightarrow> string" where
  "pid_key v = ''grep \"'' @ (if has_prefix v ''-'' then bs @ v else v) @ ''\"|''"

fun pid_scan :: "gslib \<Rightarrow> string list \<Rightarrow> int \<Rightarrow> int" where
  "pid_scan G [] pid = pid"
| "pid_scan G (line # ls) pid =
     (case gs_SplitSpace G line of
        a # b # c # fs \<Rightarrow> (case atoi b of (n, err) \<Rightarrow> if err then pid_scan G ls n else n)
      | _ \<Rightarrow> pid_scan G ls pid)"

definition GetProcessPID :: "os_env \<Rightarrow> string list \<Rightarrow> os \<Rightarrow> int \<times> os" where
  "GetProcessPID E keys w =
     (let key = concat (map pid_key keys); G = oe_gs E in
      if key = [] then (-1, w)
      else
        let PRE = (if \<not> IsRouter E then ''ps aux'' else ''ps'');
            (out, w') = Exec E (gs_F G (PRE @ ''|%s  grep -v '' @ sq @ ''grep'' @ sq) [FStr key]) w;
            res = gs_Trim G out
        in if res = [] then (-1, w') else (pid_scan G (gs_EveryLine G res) (-1), w'))"

subsection \<open>The process of a route\<close>

text \<open>
  The client of the control page runs its route as a process of its own: the fields of
  \<open>ClientControl\<close> in \<open>rc_c\<close>, and \<open>RuningRoutePID\<close>.
\<close>

record route_client =
  rc_c :: client
  rc_PID :: int

definition route_cmd :: "os_env \<Rightarrow> client \<Rightarrow> string" where
  "route_cmd E c = oe_self E @ '' -H '' @ cl_Addr c"

definition CheckRoute :: "os_env \<Rightarrow> route_client \<Rightarrow> os \<Rightarrow> bool \<times> os" where
  "CheckRoute E c w = CheckProcess E (cl_Addr (rc_c c)) w"

definition set_running :: "bool \<Rightarrow> route_client \<Rightarrow> route_client" where
  "set_running b c = c\<lparr>rc_c := (rc_c c)\<lparr>cl_IsRunning := b\<rparr>\<rparr>"

definition CloseRoute :: "os_env \<Rightarrow> route_client \<Rightarrow> os \<Rightarrow> bool \<times> route_client \<times> os" where
  "CloseRoute E c w =
     (if rc_PID c \<noteq> 0 then
        let w1 = KillProcess E (rc_PID c) w; (seen, w2) = CheckProcess E (cl_Addr (rc_c c)) w1 in
        if \<not> seen then (True, set_running False c, w2) else (False, c, w2)
      else (False, c, w))"

definition StartRoute :: "os_env \<Rightarrow> route_client \<Rightarrow> os \<Rightarrow> route_client go \<times> os" where
  "StartRoute E c w =
     (let (pid, w1) = GetProcessPID E [oe_self E, ''-H''] w;
          w2 = (if 0 < pid then KillProcess E pid w1 else w1)
      in case ExecBackgroud E (route_cmd E (rc_c c)) w2 of
           (Panic, w3) \<Rightarrow> (Panic, w3)
         | (Ret p, w3) \<Rightarrow>
             let c1 = c\<lparr>rc_PID := p\<rparr>; (seen, w4) = CheckRoute E c1 w3 in
             (Ret (if seen then set_running True c1 else c1), w4))"

definition ChangeRoute :: "client_env \<Rightarrow> os_env \<Rightarrow> string \<Rightarrow> route_client \<Rightarrow> os \<Rightarrow> (bool \<times> route_client) go \<times> os" where
  "ChangeRoute C E host c w =
     (let (shut, c1, w1) = CloseRoute E c w;
          c2 = (if shut then c1\<lparr>rc_PID := 0\<rparr> else c1);
          c3 = c2\<lparr>rc_c := (rc_c c2)\<lparr>cl_Addr := Wrap C host\<rparr>\<rparr>
      in case StartRoute E c3 w1 of
           (Panic, w2) \<Rightarrow> (Panic, w2)
         | (Ret c4, w2) \<Rightarrow> let (ok, w3) = CheckRoute E c4 w2 in (Ret (ok, c4), w3))"

definition SetRouteLoc :: "string \<Rightarrow> route_client \<Rightarrow> route_client" where
  "SetRouteLoc loc c = c\<lparr>rc_c := (rc_c c)\<lparr>cl_Loc := loc\<rparr>\<rparr>"

text \<open>The server \<open>srv\<close> and the connection that wakes the accepting loop belong to the other process.\<close>

definition TryClose :: "os_env \<Rightarrow> route_client \<Rightarrow> os \<Rightarrow> route_client \<times> os" where
  "TryClose E c w =
     (let c1 = SetRouteLoc ''Closing...'' (c\<lparr>rc_c := (rc_c c)\<lparr>cl_closeFlag := True\<rparr>\<rparr>);
          (_, c2, w2) = CloseRoute E c1 w in (c2, w2))"

definition IfRunning :: "route_client \<Rightarrow> bool" where
  "IfRunning c = cl_IsRunning (rc_c c)"

definition cityMap :: "(string \<times> string) list" where
  "cityMap =
    [(''Los Angeles'', ''US''), (''Los-Angeles'', ''US''), (''Seattle'', ''US''), (''Dallas'', ''US''),
     (''Tokyo'', ''Japen''), (''Chicago'', ''US''), (''Atlanta'', ''US''), (''London'', ''UK''),
     (''Singapore'', ''Singa.''), (''Silicon Valley'', ''US''), (''Osaka'', ''Japen''),
     (''New Jersey'', ''US''), (''Miami'', ''US''), (''Toronto'', ''Cana''), (''Santiago'', ''Chile''),
     (''Stockholm'', ''Swit''), (''Honolulu'', ''US''), (''Paris'', ''Fran''), (''Warsaw'', ''Polan''),
     (''Mardri'', ''Spain''), (''Frankfurt'', ''German''), (''Amsterdam'', ''Neth..''), (''Seoul'', ''Koral''),
     (''Sydney'', ''Austr'')]"

definition GetRouteLoc :: "gslib \<Rightarrow> client \<Rightarrow> string" where
  "GetRouteLoc G c =
     (if \<not> cl_IsRunning c then ''Connecting ....''
      else let fs = gs_SplitSpace G (cl_Loc c) in
        if fs = [] then cl_Loc c
        else case map_of cityMap (gs_Join G (butlast fs) '' '') of
               Some ee \<Rightarrow> ee @ '' '' @ last fs
             | None \<Rightarrow> cl_Loc c)"


subsection \<open>Which processes are killed\<close>

text \<open>
  \<open>ps\<close> of a router lists the pid before the user; the second word of a line is then a name.
\<close>

definition named_second :: "gslib \<Rightarrow> string \<Rightarrow> bool" where
  "named_second G line = (case gs_SplitSpace G line of
     a # b # c # fs \<Rightarrow> (case b of x # xs \<Rightarrow> \<not> is_digit x \<and> x \<noteq> CHR ''-'' \<and> x \<noteq> CHR ''+'' | [] \<Rightarrow> False)
   | _ \<Rightarrow> True)"

lemma atoi_name: "\<not> is_digit x \<Longrightarrow> x \<noteq> CHR ''-'' \<Longrightarrow> x \<noteq> CHR ''+'' \<Longrightarrow> atoi (x # xs) = (0, True)"
  by (simp add: atoi_def)

lemma pid_scan_names: "\<forall>line \<in> set ls. named_second G line \<Longrightarrow> pid \<le> 0 \<Longrightarrow> pid_scan G ls pid \<le> 0"
proof (induction ls arbitrary: pid)
  case (Cons line ls)
  show ?case
  proof (cases "\<exists>a b c fs. gs_SplitSpace G line = a # b # c # fs")
    case True
    then obtain a b c fs where l: "gs_SplitSpace G line = a # b # c # fs" by blast
    with Cons.prems(1) obtain x xs where "b = x # xs" "\<not> is_digit x" "x \<noteq> CHR ''-''" "x \<noteq> CHR ''+''"
      by (auto simp: named_second_def split: list.splits)
    then have "atoi b = (0, True)" by (simp add: atoi_name)
    then show ?thesis using l Cons.IH [of 0] Cons.prems(1) by simp
  next
    case False
    then show ?thesis using Cons.IH [OF _ Cons.prems(2)] Cons.prems(1) by (auto split: list.splits)
  qed
qed simp

lemma Exec_simps [simp]:
  "fst (Exec E str w) = oe_out E (length (os_ran w)) (shell_args E str)"
  "os_ran (snd (Exec E str w)) = os_ran w @ [shell_args E str]"
  "os_files (snd (Exec E str w)) = os_files w"
  by (simp_all add: Exec_def Let_def)

lemma CheckProcess_ran: "os_ran (snd (CheckProcess E key w)) = os_ran w @
    [shell_args E (gs_F (oe_gs E) (''ps|grep %s | grep -v '' @ sq @ ''(grep|egrep)'' @ sq) [FStr key])]"
  by (simp add: CheckProcess_def Exec_def Let_def)

definition ps_command :: "os_env \<Rightarrow> string \<Rightarrow> string list" where
  "ps_command E PRE = shell_args E (gs_F (oe_gs E) (PRE @ ''|%s  grep -v '' @ sq @ ''grep'' @ sq)
     [FStr (concat (map pid_key [oe_self E, ''-H'']))])"

definition check_command :: "os_env \<Rightarrow> string \<Rightarrow> string list" where
  "check_command E key =
     shell_args E (gs_F (oe_gs E) (''ps|grep %s | grep -v '' @ sq @ ''(grep|egrep)'' @ sq) [FStr key])"

lemma pid_key_nonempty [simp]: "pid_key v \<noteq> []"
  by (simp add: pid_key_def)

lemma GetProcessPID_run:
  "os_ran (snd (GetProcessPID E [oe_self E, ''-H''] w)) =
     os_ran w @ [ps_command E (if \<not> IsRouter E then ''ps aux'' else ''ps'')]"
  by (simp add: GetProcessPID_def Let_def ps_command_def Exec_def)

lemma GetProcessPID_pid:
  "fst (GetProcessPID E [oe_self E, ''-H''] w) \<in>
     insert (-1) {pid_scan (oe_gs E) (gs_EveryLine (oe_gs E) (gs_Trim (oe_gs E) (oe_out E n args))) (-1) | n args. True}"
  by (auto simp: GetProcessPID_def Let_def Exec_def)

lemma StartRoute_run:
  assumes "GetProcessPID E [oe_self E, ''-H''] w = (pid, w1)" "pid \<le> 0"
    and "oe_pid E (length (os_ran w1)) (shell_args E (route_cmd E (rc_c c))) = Some p"
  shows "os_ran (snd (StartRoute E c w)) =
    os_ran w1 @ [shell_args E (route_cmd E (rc_c c)), check_command E (cl_Addr (rc_c c))]"
  using assms by (simp add: StartRoute_def Let_def ExecBackgroud_def CheckRoute_def CheckProcess_def Exec_def check_command_def)

text \<open>
  On a router, where every line of \<open>ps\<close> has a user name as its second word, starting a route
  kills nothing: the process of the old route is not found and keeps running beside the new one.
\<close>

theorem router_keeps_old_process:
  assumes "IsRouter E" "\<And>n args line. line \<in> set (gs_EveryLine (oe_gs E) (gs_Trim (oe_gs E) (oe_out E n args))) \<Longrightarrow>
      named_second (oe_gs E) line"
    and "oe_pid E (Suc (length (os_ran w))) (shell_args E (route_cmd E (rc_c c))) \<noteq> None"
  shows "os_ran (snd (StartRoute E c w)) = os_ran w @
    [ps_command E ''ps'', shell_args E (route_cmd E (rc_c c)), check_command E (cl_Addr (rc_c c))]"
proof -
  obtain pid w1 where g: "GetProcessPID E [oe_self E, ''-H''] w = (pid, w1)" by (cases "GetProcessPID E [oe_self E, ''-H''] w")
  have ran: "os_ran w1 = os_ran w @ [ps_command E ''ps'']" using GetProcessPID_run [of E w] g assms(1) by simp
  have "pid \<le> 0" using GetProcessPID_pid [of E w] g pid_scan_names [OF _, of _ "oe_gs E" "-1"] assms(2) by force
  moreover obtain p where "oe_pid E (length (os_ran w1)) (shell_args E (route_cmd E (rc_c c))) = Some p"
    using assms(3) ran by auto
  ultimately show ?thesis using StartRoute_run [OF g] ran by simp
qed

definition toy_os_env :: os_env where
  "toy_os_env = \<lparr>oe_gs = gs_std, oe_GOOS = ''linux'', oe_GOARCH = ''arm64'', oe_self = ''./Puzzle'',
     oe_out = (\<lambda>n args. if n = 0 then ''  812 root     12304 S    ./Puzzle -H https://1.2.3.4:55443'' else []),
     oe_pid = (\<lambda>n args. Some 900)\<rparr>"

theorem router_keeps_old_process_witness:
  "length (os_ran (snd (StartRoute toy_os_env \<lparr>rc_c = toy_client, rc_PID = 0\<rparr> \<lparr>os_ran = [], os_files = []\<rparr>))) = 3"
proof -
  have r: "IsRouter toy_os_env" by code_simp
  have "named_second (oe_gs toy_os_env) line"
    if "line \<in> set (gs_EveryLine (oe_gs toy_os_env) (gs_Trim (oe_gs toy_os_env) (oe_out toy_os_env n args)))" for n args line
  proof -
    have "list_all (named_second gs_std) (split_on (CHR 10) (trim_space ''  812 root     12304 S    ./Puzzle -H https://1.2.3.4:55443''))"
      "list_all (named_second gs_std) (split_on (CHR 10) (trim_space []))" by code_simp+
    then show ?thesis using that by (cases "n = 0") (auto simp: toy_os_env_def gs_std_def list_all_iff)
  qed
  from router_keeps_old_process [OF r this, where w = "\<lparr>os_ran = [], os_files = []\<rparr>" and
      c = "\<lparr>rc_c = toy_client, rc_PID = 0\<rparr>"]
  show ?thesis by (simp add: toy_os_env_def)
qed

subsection \<open>What the user is shown\<close>

text \<open>
  What the display relies on: \<open>SplitSpace\<close> gives the words, \<open>Join\<close> puts a separator between them.
\<close>

definition gs_words_ok :: "gslib \<Rightarrow> bool" where
  "gs_words_ok G \<longleftrightarrow> (\<forall>s. gs_SplitSpace G s = split_space s) \<and> (\<forall>ps sep. gs_Join G ps sep = join_str sep ps)"

lemma gs_std_words [simp]: "gs_words_ok gs_std"
  by (simp add: gs_words_ok_def gs_std_def)

lemma split_on_app_sep: "split_on c (a @ c # b) = split_on c a @ split_on c b"
  by (induction a) (auto split: list.splits)

lemma split_space_app: "is_space c \<Longrightarrow> split_space (a @ c # b) = split_space a @ split_space b"
  by (simp add: split_space_def split_on_app_sep)

lemma split_space_word: "w \<noteq> [] \<Longrightarrow> \<forall>c \<in> set w. \<not> is_space c \<Longrightarrow> split_space w = [w]"
proof -
  assume w: "w \<noteq> []" "\<forall>c \<in> set w. \<not> is_space c"
  have "is_space (CHR '' '')" by (simp add: is_space_def)
  with w(2) have n: "CHR '' '' \<notin> set w" by blast
  have "map (\<lambda>c. if is_space c then CHR '' '' else c) w = w"
    by (rule map_idI) (use w(2) in auto)
  then show ?thesis using w n by (simp add: split_space_def split_on_absent)
qed

lemma city_words: "list_all (\<lambda>(city, _). join_str '' '' (split_space city) = city) cityMap"
  by code_simp

text \<open>
  A running route whose location is a known city is shown with the country of the city and the
  last word of what was set, its quality; one that is not running is never shown.
\<close>

theorem known_city_shown:
  assumes "gs_words_ok G" "(city, country) \<in> set cityMap" "quality \<noteq> []" "\<forall>c \<in> set quality. \<not> is_space c"
    and "cl_Loc c = city @ '' '' @ quality"
  shows "GetRouteLoc G c = (if cl_IsRunning c then country @ '' '' @ quality else ''Connecting ....'')"
proof -
  have sp: "is_space (CHR '' '')" by (simp add: is_space_def)
  have words: "split_space (cl_Loc c) = split_space city @ [quality]"
    using split_space_app [OF sp, of city quality] split_space_word [OF assms(3,4)] assms(5) by simp
  have "join_str '' '' (split_space city) = city" using city_words assms(2) by (auto simp: list_all_iff)
  moreover have "map_of cityMap city = Some country"
  proof -
    have "distinct (map fst cityMap)" by code_simp
    then show ?thesis using assms(2) by simp
  qed
  ultimately show ?thesis using assms(1) words by (simp add: GetRouteLoc_def gs_words_ok_def Let_def)
qed

theorem known_city_shown_witness:
  "GetRouteLoc gs_std (toy_client\<lparr>cl_Loc := ''Silicon Valley 120ms'', cl_IsRunning := True\<rparr>) = ''US 120ms''"
  using known_city_shown [of gs_std "''Silicon Valley''" "''US''" "''120ms''"
      "toy_client\<lparr>cl_Loc := ''Silicon Valley 120ms'', cl_IsRunning := True\<rparr>"]
  by (simp add: cityMap_def is_space_def)

text \<open>
  The address made for a plain host is shown as that host again: the client keeps
  \<open>https://\<close>host\<open>:55443\<close>.
\<close>

definition plain_host :: "client_env \<Rightarrow> string \<Rightarrow> bool" where
  "plain_host C h \<longleftrightarrow> CHR '':'' \<notin> set h \<and>
     (\<exists>u. ce_url C h = Inr u \<and> ul_Scheme u = [] \<and> ul_Port u = [])"

lemma GetRoute_Wrap:
  assumes "gs_in_ok (ce_gs C)" "gs_split_ok (ce_gs C)" "plain_host C h" "cl_Addr c = Wrap C h"
  shows "GetRoute C c = Ret h"
proof -
  have W: "cl_Addr c = ''https://'' @ h @ '':55443''" using assms(3,4) by (auto simp: Wrap_def plain_host_def Let_def)
  have h: "CHR '':'' \<notin> set h" using assms(3) by (simp add: plain_host_def)
  have tail: "split_str ''://'' (s @ '':55443'') = [s @ '':55443'']" if "CHR '':'' \<notin> set s" for s
    using that by (induction s) (auto simp: split_str.simps has_prefix_def)
  have "split_str ''://'' (cl_Addr c) = [''https'', h @ '':55443'']"
    by (simp add: W split_str.simps has_prefix_def tail [OF h])
  moreover have "str_contains (cl_Addr c) ''://''" by (simp add: W has_prefix_def)
  moreover have "split_str '':'' (h @ '':55443'') = [h, ''55443'']"
    using split_str_head [OF h, of "''55443''"] by (simp add: split_str_single)
  moreover have "str_contains (h @ '':55443'') '':''" by (simp add: str_contains_char)
  ultimately show ?thesis using assms(1,2)
    by (simp add: GetRoute_def Let_def gs_inD gs_splitD)
qed

end
