(* ===== verification/Router_Mode.thy ===== *)
theory Router_Mode
  imports Os_Shell
begin

text \<open>
  The router mode, \<open>src/router/r.go\<close> and \<open>src/router/g*.go\<close>: finding the gateway interface, writing
  the firewall script and the configuration of redsocks, starting and stopping, and the tests of
  the state, which read what commands print.  Parameters: the interfaces of the machine, the
  embedded files, which files can be created, the hosts the control page answers and those the
  saved answer decodes to.  File modes are left out.
\<close>

record router_env =
  re_os :: os_env
  re_ifaces :: "goerr + (string \<times> (goerr + string list)) list"
  re_asset :: "string \<Rightarrow> string option"
  re_openable :: "string \<Rightarrow> bool"
  re_api_hosts :: "nat \<Rightarrow> string list option"
  re_file_hosts :: "string \<Rightarrow> string list option"
  re_hpath :: string

text \<open>The package variables, the address \<open>prodns\<close> answers for the configuration name, and the machine.\<close>

record router =
  ro_os :: os
  ro_last :: string
  ro_LOCALIP :: string
  ro_configip :: string

definition run :: "router_env \<Rightarrow> string \<Rightarrow> router \<Rightarrow> string \<times> router" where
  "run R cmd s = (let (out, w) = Exec (re_os R) cmd (ro_os s) in (out, s\<lparr>ro_os := w\<rparr>))"

definition ran :: "router_env \<Rightarrow> string \<Rightarrow> router \<Rightarrow> router" where
  "ran R cmd s = snd (run R cmd s)"

definition to_file :: "string \<Rightarrow> string \<Rightarrow> router \<Rightarrow> router" where
  "to_file path text s = s\<lparr>ro_os := (ro_os s)\<lparr>os_files := AList.update path text (os_files (ro_os s))\<rparr>\<rparr>"

definition file_exists :: "string \<Rightarrow> router \<Rightarrow> bool" where
  "file_exists path s \<longleftrightarrow> map_of (os_files (ro_os s)) path \<noteq> None"

definition file_text :: "string \<Rightarrow> router \<Rightarrow> string" where
  "file_text path s = (case map_of (os_files (ro_os s)) path of None \<Rightarrow> [] | Some t \<Rightarrow> t)"

subsection \<open>The gateway interface\<close>

definition guest :: "gslib \<Rightarrow> string \<Rightarrow> bool" where
  "guest G name \<longleftrightarrow> gs_In G name ''Guest'' \<or> gs_In G name ''guest''"

fun iface_addrs :: "gslib \<Rightarrow> string \<Rightarrow> string list \<Rightarrow> (string \<times> string) option go" where
  "iface_addrs G name [] = Ret None"
| "iface_addrs G name (ip # ips) =
     (if gs_In G ip ''127.0.0.1'' then iface_addrs G name ips
      else if gs_In G ip ''.1/'' then
        if guest G name then iface_addrs G name ips
        else (case gs_Split G ip ''/'' of [] \<Rightarrow> Panic | p # _ \<Rightarrow> Ret (Some (name, p)))
      else if gs_EndsWith G ip ''.1'' then
        if guest G name then iface_addrs G name ips else Ret (Some (name, ip))
      else iface_addrs G name ips)"

fun iface_scan :: "gslib \<Rightarrow> (string \<times> (goerr + string list)) list \<Rightarrow> (string \<times> string) go" where
  "iface_scan G [] = Ret ([], [])"
| "iface_scan G ((name, ad) # is) =
     (case ad of Inl _ \<Rightarrow> iface_scan G is
      | Inr ips \<Rightarrow> go_bind (iface_addrs G name ips) (\<lambda>r. case r of None \<Rightarrow> iface_scan G is | Some p \<Rightarrow> Ret p))"

definition GetIface :: "router_env \<Rightarrow> (string \<times> string) go" where
  "GetIface R = (case re_ifaces R of Inl _ \<Rightarrow> Ret (''wlan'', []) | Inr is \<Rightarrow> iface_scan (oe_gs (re_os R)) is)"

subsection \<open>The firewall script\<close>

definition nl :: char where "nl = CHR 10"

definition pre_lines :: "string list" where
  "pre_lines =
    [''iptables -P INPUT ACCEPT'',
     ''iptables -P FORWARD ACCEPT'',
     ''iptables -P OUTPUT ACCEPT'',
     ''iptables -t nat -N REDSOCKS'',
     ''iptables -t nat -A $${PRE} -i $${IFACE} -p tcp -j REDSOCKS'',
     ''# redirct dns'',
     ''iptables -t nat -A $${PRE} -p udp --dport  53 -j REDIRECT --to-ports 60053'']"

definition post_lines :: "string list" where
  "post_lines =
    [''iptables -t nat -A REDSOCKS -d 0.0.0.0/8 -j RETURN'',
     ''iptables -t nat -A REDSOCKS -d 10.0.0.0/8 -j RETURN'',
     ''iptables -t nat -A REDSOCKS -d 127.0.0.0/8 -j RETURN'',
     ''iptables -t nat -A REDSOCKS -d 192.168.0.0/16 -j RETURN'',
     ''iptables -t nat -A REDSOCKS -d 169.254.0.0/16 -j RETURN'',
     ''iptables -t nat -A REDSOCKS -d 172.16.0.0/12 -j RETURN'',
     ''iptables -t nat -A REDSOCKS -d 224.0.0.0/4 -j RETURN'',
     ''iptables -t nat -A REDSOCKS -d 240.0.0.0/4 -j RETURN'',
     '''',
     '''',
     ''iptables -t nat -A REDSOCKS -p tcp -s $${IP} --dport $${PORT} -j RETURN'',
     ''iptables -t nat -A REDSOCKS -d $${IP} -j RETURN'',
     ''iptables -t nat -A REDSOCKS -p tcp -j REDIRECT --to-ports 1081'',
     ''iptables -t nat -A $${PRE} -p tcp -j REDSOCKS'']"

definition host_rule :: "gslib \<Rightarrow> string \<Rightarrow> string" where
  "host_rule G h = gs_F G (''iptables -t nat -A REDSOCKS -d %s -j RETURN'' @ [nl]) [FStr h]"

text \<open>The two templates of the source differ in the newline the first one starts with.\<close>

definition render_rules :: "gslib \<Rightarrow> string list \<Rightarrow> string \<Rightarrow> string \<Rightarrow> string \<Rightarrow> string list \<Rightarrow> string" where
  "render_rules G lead gatewayip iface Pre hosts =
     gs_Format G
       (gs_F G (join_with nl (lead @ pre_lines @ [''%s''] @ post_lines)) [FStr (concat (map (host_rule G) hosts))])
       [(''IP'', gatewayip), (''IFACE'', iface), (''PRE'', Pre)]"

definition IPTahbleRouteSet :: "router_env \<Rightarrow> string \<Rightarrow> router \<Rightarrow> string go \<times> router" where
  "IPTahbleRouteSet R Pre s =
     (case GetIface R of
        Panic \<Rightarrow> (Panic, s)
      | Ret (iface, gatewayip) \<Rightarrow>
          let s1 = s\<lparr>ro_configip := gatewayip, ro_LOCALIP := gatewayip\<rparr>; G = oe_gs (re_os R) in
          case re_api_hosts R (length (os_ran (ro_os s1))) of
            Some hosts \<Rightarrow> (Ret (render_rules G [[]] gatewayip iface Pre hosts), s1)
          | None \<Rightarrow>
              if file_exists (re_hpath R) s1 then
                (case re_file_hosts R (file_text (re_hpath R) s1) of
                   Some hosts \<Rightarrow> (Ret (render_rules G [] gatewayip iface Pre hosts), s1)
                 | None \<Rightarrow> (Ret [], s1))
              else (Ret [], s1))"

subsection \<open>Starting and stopping\<close>

definition redsocks_conf :: "string list" where
  "redsocks_conf =
    ['''', ''base {'', ''    log_debug = on;'', ''    log_info = on;'', ''    redirector = iptables;'',
     ''    daemon = on;'', ''}'', '''', ''redsocks{'', ''    bind = \"0.0.0.0:1081\";'',
     ''    relay = \"$${ip}:$${port}\";'', ''    type = socks5;'', ''    autoproxy = 0;'',
     ''    timeout = 12;'', ''}'']"

text \<open>Install an embedded file that is missing and can be created.\<close>

definition release :: "router_env \<Rightarrow> string \<Rightarrow> string \<Rightarrow> router \<Rightarrow> router" where
  "release R path res s =
     (if file_exists path s then s
      else case re_asset R res of
        None \<Rightarrow> s
      | Some buf \<Rightarrow> if re_openable R path then to_file path buf s else s)"

fun port_scan :: "gslib \<Rightarrow> nat \<Rightarrow> string list \<Rightarrow> string \<Rightarrow> string" where
  "port_scan G no [] port = port"
| "port_scan G no (i # is) port = port_scan G (no + 1) is (if no = 1 then gs_Trim G i else port)"

definition start_redsocks :: "router_env \<Rightarrow> string \<Rightarrow> string \<Rightarrow> router \<Rightarrow> router" where
  "start_redsocks R gatewayip port s =
     (let G = oe_gs (re_os R); (cpu, s1) = run R ''cat /proc/cpuinfo'' s; isv7 = gs_In G cpu ''ARMv7'';
          conf = gs_Format G (join_with nl (redsocks_conf @ (if isv7 then ['''', ''''] else [''''])))
                   [(''ip'', gatewayip), (''port'', port)];
          s2 = to_file ''/tmp/redsocks.conf'' conf s1;
          s3 = release R ''/usr/sbin/redsocks2'' (if isv7 then ''Resources/bin/redsocks2-armv7'' else ''Resources/bin/redsocks2'') s2
      in ran R ''redsocks2 -c /tmp/redsocks.conf'' s3)"

definition StartFireWall :: "router_env \<Rightarrow> string \<Rightarrow> router \<Rightarrow> unit go \<times> router" where
  "StartFireWall R proxyAddr s0 =
     (let s = s0\<lparr>ro_last := proxyAddr\<rparr>; G = oe_gs (re_os R) in
      if oe_GOOS (re_os R) \<noteq> ''linux'' then (Ret (), s)
      else case GetIface R of
        Panic \<Rightarrow> (Panic, s)
      | Ret (_, gatewayip) \<Rightarrow>
          let port = port_scan G 0 (gs_Split G proxyAddr '':'') ''1091'';
              s1 = start_redsocks R gatewayip port s;
              (tables, s2) = run R ''iptables -t nat  -L'' s1;
              Pre = (if gs_In G tables ''prerouting_rule'' then ''prerouting_rule'' else ''PREROUTING'')
          in case IPTahbleRouteSet R Pre s2 of
               (Panic, s3) \<Rightarrow> (Panic, s3)
             | (Ret script, s3) \<Rightarrow>
                 let s4 = to_file ''/etc/firewall.user'' (gs_Format G script [(''PORT'', port)]) s3;
                     s5 = ran R ''/etc/init.d/firewall restart 2> /dev/null;'' s4;
                     (now, s6) = run R ''iptables -t nat -L '' s5
                 in (Ret (), if \<not> gs_In G now ''1091'' then ran R ''cat /etc/firewall.user | sh '' s6 else s6))"

definition kill :: "router_env \<Rightarrow> string \<Rightarrow> router \<Rightarrow> router" where
  "kill R name s = ran R (gs_F (oe_gs (re_os R))
     (''ps | grep %s | grep -v grep | awk '' @ sq @ ''{ print $1 } '' @ sq @ '' | xargs kill -9 2>/dev/null;'') [FStr name]) s"

definition StopFirewall :: "router_env \<Rightarrow> router \<Rightarrow> router" where
  "StopFirewall R s =
     (if oe_GOOS (re_os R) \<noteq> ''linux'' then s
      else
        let s1 = to_file ''/etc/firewall.user'' [] s;
            s2 = ran R ''/etc/init.d/firewall restart 2> /dev/null;'' s1;
            (now, s3) = run R ''iptables -t nat -L '' s2;
            s4 = (if gs_In (oe_gs (re_os R)) now ''1091''
              then ran R ''/etc/init.d/firewall restart 2> /dev/null;'' (ran R ''iptables -t nat -F'' s3) else s3)
        in kill R ''redsocks'' s4)"

definition RestartRouterMode :: "router_env \<Rightarrow> router \<Rightarrow> unit go \<times> router" where
  "RestartRouterMode R s =
     (if ro_last s \<noteq> [] then StartFireWall R (ro_last s) (StopFirewall R s) else (Ret (), s))"

subsection \<open>Tests of the state\<close>

definition printed :: "router_env \<Rightarrow> string \<Rightarrow> string \<Rightarrow> router \<Rightarrow> bool \<times> router" where
  "printed R cmd text s = (let (out, s') = run R cmd s in (gs_In (oe_gs (re_os R)) out text, s'))"

definition IsOpen :: "router_env \<Rightarrow> router \<Rightarrow> bool \<times> router" where
  "IsOpen R s = (if IsRouter (re_os R) then printed R ''iptables -t nat -L '' ''REDIRECT'' s else (False, s))"

definition IsDNSRunning :: "router_env \<Rightarrow> router \<Rightarrow> bool \<times> router" where
  "IsDNSRunning R s = printed R ''netstat -anup'' ''60053'' s"

definition IsRedsocksRunning :: "router_env \<Rightarrow> router \<Rightarrow> bool \<times> router" where
  "IsRedsocksRunning R s = printed R ''ps | grep redsocks| grep -v grep'' ''/tmp/redsocks.conf'' s"

definition IsRouteRedirectOk :: "router_env \<Rightarrow> router \<Rightarrow> bool \<times> router" where
  "IsRouteRedirectOk R s = printed R ''iptables -t nat -L | grep 1081 | grep -v grep'' ''REDIRECT'' s"

definition IsStartRouteMode :: "router_env \<Rightarrow> router \<Rightarrow> bool \<times> router" where
  "IsStartRouteMode R s = printed R ''iptables -t nat -L | grep REDSOCKS | grep -v grep'' ''tcp'' s"

text \<open>The text of the command is split; the command is not run.\<close>

definition findProc :: "gslib \<Rightarrow> string \<Rightarrow> int list" where
  "findProc G name = concat (map (\<lambda>i. case atoi i of (ei, err) \<Rightarrow> if err then [] else [ei])
     (gs_SplitSpace G (gs_F G (''ps | grep %s  |grep -v grep | awk '' @ sq @ ''{ print $1 } '' @ sq @ '' | xargs '') [FStr name])))"

definition active_line :: "gslib \<Rightarrow> string \<Rightarrow> bool" where
  "active_line G line = (case gs_Trim G line of [] \<Rightarrow> False | c # _ \<Rightarrow> c \<noteq> CHR ''#'')"

text \<open>
  The desktop proxy, on macOS: \<open>Exec\<close> of the library runs the command itself.  The other builds
  have no such proxy to ask (\<open>g_other.go\<close>) or answer no in every case (\<open>g_windows.go\<close>); the
  PowerShell scripts of Windows are left out.
\<close>

definition gs_exec :: "router_env \<Rightarrow> string \<Rightarrow> router \<Rightarrow> string \<times> router" where
  "gs_exec R cmd s = (oe_out (re_os R) (length (os_ran (ro_os s))) [cmd],
     s\<lparr>ro_os := (ro_os s)\<lparr>os_ran := os_ran (ro_os s) @ [[cmd]]\<rparr>\<rparr>)"

definition IfProxyStart :: "router_env \<Rightarrow> router \<Rightarrow> bool \<times> router" where
  "IfProxyStart R s =
     (if oe_GOOS (re_os R) = ''darwin'' then
        (let (out, s') = gs_exec R ''networksetup -getwebproxy \"Wi-Fi\"'' s in
         (\<not> gs_In (oe_gs (re_os R)) out ''Enabled: No'', s'))
      else (False, s))"

definition ProxySet :: "router_env \<Rightarrow> int \<Rightarrow> router \<Rightarrow> router" where
  "ProxySet R i s =
     (if oe_GOOS (re_os R) = ''darwin'' then
        let G = oe_gs (re_os R); arm = (\<lambda>f s. snd (gs_exec R (gs_F G f [FInt (i + 1)]) s)) in
        snd (gs_exec R ''networksetup -setwebproxystate \"Wi-Fi\" on''
          (arm ''networksetup -setwebproxy \"Wi-Fi\" 127.0.0.1 %d''
            (snd (gs_exec R ''networksetup -setsecurewebproxystate \"Wi-Fi\" on''
              (arm ''networksetup -setsecurewebproxy \"Wi-Fi\" 127.0.0.1 %d'' s)))))
      else s)"

definition StopProxy :: "router_env \<Rightarrow> router \<Rightarrow> router" where
  "StopProxy R s =
     (if oe_GOOS (re_os R) = ''darwin'' then
        snd (gs_exec R ''networksetup -setsecurewebproxystate \"Wi-Fi\" off''
          (snd (gs_exec R ''networksetup -setwebproxystate \"Wi-Fi\" off'' s)))
      else s)"

text \<open>\<open>g.go\<close> only renames the three.\<close>

definition IfOpenGloabl :: "router_env \<Rightarrow> router \<Rightarrow> bool \<times> router" where
  "IfOpenGloabl R s = IfProxyStart R s"

definition SetGloabl :: "router_env \<Rightarrow> int \<Rightarrow> router \<Rightarrow> router" where
  "SetGloabl R port s = ProxySet R port s"

definition SetGloablOff :: "router_env \<Rightarrow> router \<Rightarrow> router" where
  "SetGloablOff R s = StopProxy R s"

definition CheckStatus :: "router_env \<Rightarrow> router \<Rightarrow> (bool \<times> bool \<times> bool) go \<times> router" where
  "CheckStatus R s =
     (let D = re_os R; G = oe_gs D; can = (oe_GOOS D = ''linux'' \<and> oe_GOARCH D = ''arm'') in
      if \<not> IsRouter D then let (on, s') = IfOpenGloabl R s in (Ret (can, on, False), s')
      else
        let res = file_text ''/etc/firewall.user'' s in
        if res = [] then (Ret (can, False, False), kill R ''redsocks'' s)
        else if \<not> list_ex (active_line G) (gs_EveryLine G res) then (Ret (can, False, False), kill R ''redsocks'' s)
        else
          let (ok, s1) = IsRouteRedirectOk R s;
              (on, s2) = (if ok then IsStartRouteMode R s1 else (False, s1))
          in case (if \<not> ok \<or> \<not> on then RestartRouterMode R s2 else (Ret (), s2)) of
               (Panic, s3) \<Rightarrow> (Panic, s3)
             | (Ret _, s3) \<Rightarrow> (Ret (can, True, findProc G ''redsocks'' \<noteq> []), s3))"


subsection \<open>Filling in a template line by line\<close>

definition gs_format_ok :: "gslib \<Rightarrow> bool" where
  "gs_format_ok G \<longleftrightarrow> (\<forall>s d. gs_Format G s d = fill_keys d s)"

lemma gs_std_format [simp]: "gs_format_ok gs_std"
  by (simp add: gs_format_ok_def gs_std_def)

definition repl :: "string \<Rightarrow> string \<Rightarrow> string \<Rightarrow> string" where
  "repl a new s = replace_str a new (split_str a s)"

lemma replace_str_Nil: "ps \<noteq> [] \<Longrightarrow> replace_str a new ([] # ps) = new @ replace_str a new ps"
  by (cases ps) auto

lemma split_str_nonempty: "split_str a s \<noteq> []"
  by (induction a s rule: split_str.induct) (auto simp: split_str.simps split: list.splits)

lemma repl_simps:
  "repl a new [] = []"
  "repl a new (c # s) = (if a \<noteq> [] \<and> has_prefix (c # s) a then new @ repl a new (drop (length a) (c # s)) else c # repl a new s)"
proof -
  show "repl a new [] = []" by (simp add: repl_def split_str.simps)
  obtain p ps where p: "split_str a s = p # ps" using split_str_nonempty [of a s] by (cases "split_str a s") auto
  have "replace_str a new ((c # p) # ps) = c # replace_str a new (p # ps)" by (cases ps) auto
  then show "repl a new (c # s) = (if a \<noteq> [] \<and> has_prefix (c # s) a then new @ repl a new (drop (length a) (c # s)) else c # repl a new s)"
  proof (cases "a \<noteq> [] \<and> has_prefix (c # s) a")
    case True
    then show ?thesis by (simp add: repl_def split_str.simps(2) [of a c s] replace_str_Nil split_str_nonempty)
  next
    case False
    have "split_str a (c # s) = (c # p) # ps"
      unfolding split_str.simps(2) [of a c s] if_not_P [OF False] p by simp
    then have "repl a new (c # s) = c # repl a new s"
      using \<open>replace_str a new ((c # p) # ps) = c # replace_str a new (p # ps)\<close> p by (simp only: repl_def)
    then show ?thesis unfolding if_not_P [OF False] .
  qed
qed

text \<open>A character that is not in the key separates.\<close>

lemma has_prefix_apart: "c \<notin> set a \<Longrightarrow> has_prefix (s @ c # t) a = has_prefix s a"
  by (auto simp: has_prefix_iff prefix_append prefix_Cons)

lemma repl_match: "a \<noteq> [] \<and> has_prefix (c # s) a \<Longrightarrow> repl a new (c # s) = new @ repl a new (drop (length a) (c # s))"
  by (simp add: repl_simps(2))

lemma repl_step: "\<not> (a \<noteq> [] \<and> has_prefix (c # s) a) \<Longrightarrow> repl a new (c # s) = c # repl a new s"
  unfolding repl_simps(2) by (rule if_not_P)

lemma repl_apart:
  assumes "c \<notin> set a"
  shows "repl a new (s @ c # t) = repl a new s @ c # repl a new t"
proof (induction "length s" arbitrary: s rule: less_induct)
  case less
  show ?case
  proof (cases s)
    case Nil
    have "\<not> (a \<noteq> [] \<and> has_prefix (c # t) a)" using assms by (cases a) (auto simp: has_prefix_def)
    from repl_step [OF this] show ?thesis using Nil by (simp add: repl_simps(1))
  next
    case (Cons x r)
    have hp: "has_prefix (x # r @ c # t) a = has_prefix (x # r) a"
      using has_prefix_apart [OF assms, of "x # r" t] by simp
    show ?thesis
    proof (cases "a \<noteq> [] \<and> has_prefix (x # r) a")
      case True
      then have l: "length a \<le> length (x # r)" by (metis has_prefix_iff prefix_length_le)
      have lt: "length (drop (length a) (x # r)) < length s" using Cons True by simp
      have d: "drop (length a) (x # r @ c # t) = drop (length a) (x # r) @ c # t" using l by (cases a) auto
      have "repl a new (x # r @ c # t) = new @ repl a new (drop (length a) (x # r) @ c # t)"
        using repl_match [of a x "r @ c # t" new] True hp d by simp
      then show ?thesis using less [OF lt] repl_match [OF True, of new] Cons by simp
    next
      case False
      have "length r < length s" using Cons by simp
      from less [OF this] repl_step [OF False] repl_step [of a x "r @ c # t"] show ?thesis using False hp Cons by simp
    qed
  qed
qed

lemma repl_plain: "c \<in> set a \<Longrightarrow> c \<notin> set s \<Longrightarrow> repl a new s = s"
proof (induction s)
  case (Cons x s)
  have "\<not> has_prefix (x # s) a" using Cons.prems by (metis has_prefix_iff set_mono_prefix subsetD)
  then show ?case using Cons repl_step [of a x s] by simp
qed (simp add: repl_simps(1))

lemma set_repl: "set (repl a new s) \<subseteq> set s \<union> set new"
proof (induction "length s" arbitrary: s rule: less_induct)
  case less
  show ?case
  proof (cases s)
    case (Cons x r)
    show ?thesis
    proof (cases "a \<noteq> [] \<and> has_prefix (x # r) a")
      case True
      then have "set (repl a new (drop (length a) s)) \<subseteq> set (drop (length a) s) \<union> set new" using less Cons by simp
      then show ?thesis using repl_match [OF True, of new] Cons set_drop_subset [of "length a" s] by auto
    next
      case False
      have "set (repl a new r) \<subseteq> set r \<union> set new" using less [of r] Cons by simp
      then show ?thesis using repl_step [OF False, of new] Cons by auto
    qed
  qed (simp add: repl_simps(1))
qed

lemma fill_keys_Cons: "fill_keys ((k, v) # d) s = fill_keys d (repl (''$${'' @ k @ ''}'') v s)"
  by (simp add: repl_def)

declare fill_keys.simps(2) [simp del] fill_keys_Cons [simp]

text \<open>The keys are words: no blank and no newline in them.\<close>

definition word_keys :: "(string \<times> string) list \<Rightarrow> bool" where
  "word_keys d \<longleftrightarrow> (\<forall>(k, v) \<in> set d. nl \<notin> set k \<and> CHR '' '' \<notin> set k)"

lemma fill_apart: "word_keys d \<Longrightarrow> c = nl \<or> c = CHR '' '' \<Longrightarrow> fill_keys d (s @ c # t) = fill_keys d s @ c # fill_keys d t"
proof (induction d arbitrary: s t)
  case (Cons kv d)
  obtain k v where kv: "kv = (k, v)" by (cases kv)
  have "c \<notin> set (''$${'' @ k @ ''}'')" using Cons.prems kv by (auto simp: word_keys_def nl_def)
  then show ?case using Cons kv by (auto simp: repl_apart word_keys_def)
qed simp

lemma fill_plain: "CHR ''$'' \<notin> set s \<Longrightarrow> fill_keys d s = s"
proof (induction d)
  case (Cons kv d)
  obtain k v where kv: "kv = (k, v)" by (cases kv)
  show ?case using Cons by (simp add: kv repl_plain [of "CHR ''$''"])
qed simp

lemma set_fill: "set (fill_keys d s) \<subseteq> set s \<union> (\<Union>(k, v) \<in> set d. set v)"
proof (induction d arbitrary: s)
  case (Cons kv d)
  obtain k v where kv: "kv = (k, v)" by (cases kv)
  show ?case using Cons [of "repl (''$${'' @ k @ ''}'') v s"] set_repl [of "''$${'' @ k @ ''}''" v s]
    by (fastforce simp: kv)
qed simp

lemma fill_lines: "word_keys d \<Longrightarrow> fill_keys d (join_with nl ls) = join_with nl (map (fill_keys d) ls)"
proof (induction ls rule: induct_list012)
  case 1
  show ?case by (simp add: fill_plain)
next
  case (3 s s' ss)
  then show ?case using fill_apart [of d nl] by simp
qed simp

subsection \<open>The servers are exempt\<close>

definition exempt :: "string \<Rightarrow> string" where
  "exempt h = ''iptables -t nat -A REDSOCKS -d '' @ h @ '' -j RETURN''"

definition redirect_rule :: string where
  "redirect_rule = ''iptables -t nat -A REDSOCKS -p tcp -j REDIRECT --to-ports 1081''"

lemma sprintf_plain: "CHR ''%'' \<notin> set s \<Longrightarrow> sprintf s args = s"
proof (induction s)
  case (Cons c s)
  then show ?case by (cases s) auto
qed simp

lemma sprintf_one: "CHR ''%'' \<notin> set a \<Longrightarrow> CHR ''%'' \<notin> set b \<Longrightarrow> sprintf (a @ ''%s'' @ b) [FStr t] = a @ t @ b"
proof (induction a)
  case Nil
  then show ?case by (simp add: sprintf_plain)
next
  case (Cons c a)
  then show ?case by (cases "a @ ''%s'' @ b") auto
qed

lemma join_more: "xs \<noteq> [] \<Longrightarrow> ys \<noteq> [] \<Longrightarrow> join_with c (xs @ ys) = join_with c xs @ c # join_with c ys"
  by (induction xs rule: induct_list012) (auto simp: neq_Nil_conv)

lemma join_rules: "ys \<noteq> [] \<Longrightarrow> concat (map (\<lambda>h. f h @ [c]) hs) @ c # join_with c ys = join_with c (map f hs @ [[]] @ ys)"
proof (induction hs)
  case Nil
  then show ?case by (cases ys) auto
next
  case (Cons h hs)
  then show ?case by (cases hs) auto
qed

lemma template_lines:
  assumes "gs_fmt_ok G" "CHR ''%'' \<notin> \<Union> (set ` set lead)"
  shows "gs_F G (join_with nl (lead @ pre_lines @ [''%s''] @ post_lines)) [FStr (concat (map (host_rule G) hosts))]
    = join_with nl (lead @ pre_lines @ map exempt hosts @ [[]] @ post_lines)"
proof -
  have p: "CHR ''%'' \<notin> set (join_with nl ls)" if "CHR ''%'' \<notin> \<Union> (set ` set ls)" for ls
    using join_with_set [of nl ls] that by (auto simp: nl_def)
  have "CHR ''%'' \<notin> \<Union> (set ` set (lead @ pre_lines))" using assms(2) by (simp add: pre_lines_def)
  from p [OF this] have pre: "CHR ''%'' \<notin> set (join_with nl (lead @ pre_lines))" .
  have "CHR ''%'' \<notin> \<Union> (set ` set post_lines)" by (simp add: post_lines_def)
  from p [OF this] have post: "CHR ''%'' \<notin> set (join_with nl post_lines)" .
  have ne: "lead @ pre_lines \<noteq> []" "post_lines \<noteq> []" by (simp_all add: pre_lines_def post_lines_def)
  have "host_rule G = (\<lambda>h. exempt h @ [nl])"
    using assms(1) sprintf_one [of "''iptables -t nat -A REDSOCKS -d ''" "'' -j RETURN'' @ [nl]"]
    by (simp add: fun_eq_iff host_rule_def gs_fmtD exempt_def nl_def)
  then have rules: "concat (map (host_rule G) hosts) @ nl # join_with nl post_lines = join_with nl (map exempt hosts @ [[]] @ post_lines)"
    using join_rules [OF ne(2), of exempt nl hosts] by simp
  define X where "X = join_with nl (lead @ pre_lines) @ [nl]"
  define Y where "Y = nl # join_with nl post_lines"
  have "join_with nl (lead @ pre_lines @ [''%s''] @ post_lines) = X @ ''%s'' @ Y"
    using join_more [OF ne(1), of "[''%s''] @ post_lines" nl] join_more [of "[''%s'']" post_lines nl] ne(2)
    by (simp add: X_def Y_def)
  moreover have "CHR ''%'' \<notin> set X" "CHR ''%'' \<notin> set Y" using pre post by (simp_all add: X_def Y_def nl_def)
  ultimately have "gs_F G (join_with nl (lead @ pre_lines @ [''%s''] @ post_lines)) [FStr (concat (map (host_rule G) hosts))]
      = X @ concat (map (host_rule G) hosts) @ Y"
    using gs_fmtD [OF assms(1)] sprintf_one [of X Y] by metis
  also have "\<dots> = join_with nl ((lead @ pre_lines) @ map exempt hosts @ [[]] @ post_lines)"
    using rules join_more [OF ne(1), of "map exempt hosts @ [[]] @ post_lines" nl] by (simp add: X_def Y_def)
  finally show ?thesis by simp
qed

lemma file_simps [simp]:
  "file_text p (snd (run R c s)) = file_text p s"
  "file_text p (ran R c s) = file_text p s"
  "file_text p (to_file p t s) = t"
  "file_text p (s\<lparr>ro_configip := i\<rparr>) = file_text p s"
  "file_text p (s\<lparr>ro_LOCALIP := i\<rparr>) = file_text p s"
  "file_text p (s\<lparr>ro_last := i\<rparr>) = file_text p s"
  by (simp_all add: file_text_def run_def ran_def Exec_def to_file_def update_conv' Let_def split: prod.splits)

definition script_lines :: "string \<Rightarrow> string \<Rightarrow> string \<Rightarrow> string \<Rightarrow> string list \<Rightarrow> string list" where
  "script_lines port ip iface Pre hosts =
     map (\<lambda>l. fill_keys [(''PORT'', port)] (fill_keys [(''IP'', ip), (''IFACE'', iface), (''PRE'', Pre)] l))
       ([[]] @ pre_lines @ map exempt hosts @ [[]] @ post_lines)"

lemma StartFireWall_file:
  assumes "gs_fmt_ok G" "gs_format_ok G" "oe_gs (re_os R) = G" "oe_GOOS (re_os R) = ''linux''" "GetIface R = Ret (iface, ip)"
    and "\<And>n. re_api_hosts R n = Some hosts"
  shows "\<exists>s' Pre. StartFireWall R addr s = (Ret (), s') \<and> Pre \<in> {''PREROUTING'', ''prerouting_rule''} \<and>
    file_text ''/etc/firewall.user'' s' = join_with nl (script_lines (port_scan G 0 (gs_Split G addr '':'') ''1091'') ip iface Pre hosts)"
proof -
  define port where "port = port_scan G 0 (gs_Split G addr '':'') ''1091''"
  obtain tables s2 where t: "run R ''iptables -t nat  -L'' (start_redsocks R ip port (s\<lparr>ro_last := addr\<rparr>)) = (tables, s2)"
    by (cases "run R ''iptables -t nat  -L'' (start_redsocks R ip port (s\<lparr>ro_last := addr\<rparr>))")
  define Pre where "Pre = (if gs_In G tables ''prerouting_rule'' then ''prerouting_rule'' else ''PREROUTING'')"
  define s3 where "s3 = s2\<lparr>ro_configip := ip, ro_LOCALIP := ip\<rparr>"
  define scr where "scr = gs_Format G (render_rules G [[]] ip iface Pre hosts) [(''PORT'', port)]"
  have i: "IPTahbleRouteSet R Pre s2 = (Ret (render_rules G [[]] ip iface Pre hosts), s3)"
    using assms by (simp add: IPTahbleRouteSet_def Let_def s3_def)
  obtain tabs s6 where n: "run R ''iptables -t nat -L '' (ran R ''/etc/init.d/firewall restart 2> /dev/null;'' (to_file ''/etc/firewall.user'' scr s3)) = (tabs, s6)"
    by (cases "run R ''iptables -t nat -L '' (ran R ''/etc/init.d/firewall restart 2> /dev/null;'' (to_file ''/etc/firewall.user'' scr s3))")
  have f6: "file_text ''/etc/firewall.user'' s6 = scr"
    using arg_cong [OF n, of "\<lambda>p. file_text ''/etc/firewall.user'' (snd p)"] by simp
  have "StartFireWall R addr s = (Ret (), if \<not> gs_In G tabs ''1091'' then ran R ''cat /etc/firewall.user | sh '' s6 else s6)"
    using assms(3,4,5) i t n
    by (simp add: StartFireWall_def Let_def port_def [symmetric] Pre_def [symmetric] scr_def [symmetric])
  moreover have "scr = join_with nl (script_lines port ip iface Pre hosts)"
  proof -
    have "render_rules G [[]] ip iface Pre hosts = fill_keys [(''IP'', ip), (''IFACE'', iface), (''PRE'', Pre)]
        (join_with nl ([[]] @ pre_lines @ map exempt hosts @ [[]] @ post_lines))"
      using assms(2) template_lines [OF assms(1), of "[[]]" hosts] by (simp only: render_rules_def gs_format_ok_def) simp
    moreover have "word_keys [(''IP'', ip), (''IFACE'', iface), (''PRE'', Pre)]" "word_keys [(''PORT'', port)]"
      by (simp_all add: word_keys_def nl_def)
    ultimately show ?thesis using assms(2) fill_lines
      by (simp only: scr_def gs_format_ok_def script_lines_def map_map comp_def)
  qed
  moreover have "Pre \<in> {''PREROUTING'', ''prerouting_rule''}" by (simp add: Pre_def)
  ultimately show ?thesis using f6 unfolding port_def [symmetric] by auto
qed

text \<open>The last word of a line stays what it is.\<close>

definition last_word :: "string \<Rightarrow> string" where
  "last_word l = rev (takeWhile (\<lambda>c. c \<noteq> CHR '' '') (rev l))"

lemma last_word_app: "CHR '' '' \<notin> set w \<Longrightarrow> last_word (a @ CHR '' '' # w) = w"
  by (simp add: last_word_def takeWhile_append)

lemma last_word_split: "CHR '' '' \<in> set l \<Longrightarrow> \<exists>a. l = a @ CHR '' '' # last_word l \<and> CHR '' '' \<notin> set (last_word l)"
proof -
  assume "CHR '' '' \<in> set l"
  then obtain a b where ab: "l = a @ CHR '' '' # b" "CHR '' '' \<notin> set b" by (meson split_list_last)
  then show ?thesis using last_word_app by metis
qed

lemma fill_last_word:
  assumes "word_keys d" "CHR '' '' \<in> set l" "CHR ''$'' \<notin> set (last_word l)"
  shows "last_word (fill_keys d l) = last_word l" "CHR '' '' \<in> set (fill_keys d l)"
proof -
  obtain a where a: "l = a @ CHR '' '' # last_word l" "CHR '' '' \<notin> set (last_word l)" using last_word_split [OF assms(2)] by blast
  have "fill_keys d (a @ CHR '' '' # last_word l) = fill_keys d a @ CHR '' '' # last_word l"
    using fill_apart [OF assms(1)] fill_plain [OF assms(3)] by simp
  then have "fill_keys d l = fill_keys d a @ CHR '' '' # last_word l" using a(1) by simp
  then show "last_word (fill_keys d l) = last_word l" "CHR '' '' \<in> set (fill_keys d l)"
    using last_word_app [OF a(2)] by simp_all
qed

lemma pre_last_words:
  "list_all (\<lambda>l. CHR '' '' \<in> set l \<and> CHR ''$'' \<notin> set (last_word l) \<and> last_word l \<noteq> ''1081'') pre_lines"
  by code_simp

lemma script_parts:
  assumes "h \<in> set hosts" "\<And>k. k \<in> set hosts \<Longrightarrow> CHR ''$'' \<notin> set k"
  shows "\<exists>before after. script_lines port ip iface Pre hosts = before @ exempt h # after \<and>
    redirect_rule \<in> set after \<and> redirect_rule \<notin> set before"
proof -
  define f where "f = (\<lambda>l. fill_keys [(''PORT'', port)] (fill_keys [(''IP'', ip), (''IFACE'', iface), (''PRE'', Pre)] l))"
  have keys: "word_keys [(''PORT'', port)]" "word_keys [(''IP'', ip), (''IFACE'', iface), (''PRE'', Pre)]"
    by (simp_all add: word_keys_def nl_def)
  obtain hs hs' where hs: "hosts = hs @ h # hs'" using assms(1) by (meson split_list)
  have plain: "f l = l" if "CHR ''$'' \<notin> set l" for l using that by (simp add: f_def fill_plain del: fill_keys_Cons)
  have ex: "f (exempt k) = exempt k" if "k \<in> set hosts" for k
    using assms(2) [OF that] by (intro plain) (simp add: exempt_def)
  have "last_word (f l) \<noteq> ''1081''" if "l \<in> set pre_lines" for l
    using pre_last_words that fill_last_word [OF keys(2), of l] fill_last_word [OF keys(1)]
    by (simp add: f_def list_all_iff del: fill_keys_Cons)
  moreover have "last_word redirect_rule = ''1081''" by (simp add: redirect_rule_def last_word_def)
  moreover have "last_word (exempt k) \<noteq> ''1081''" for k
    using last_word_app [of "''RETURN''" "''iptables -t nat -A REDSOCKS -d '' @ k @ '' -j''"] by (simp add: exempt_def)
  moreover have "f [] \<noteq> redirect_rule" using plain [of "[]"] by (simp add: redirect_rule_def)
  ultimately have "redirect_rule \<notin> set (map f ([[]] @ pre_lines) @ map exempt hs)" by (force dest: arg_cong [where f = last_word])
  moreover have "redirect_rule \<in> set (map exempt hs' @ map f ([[]] @ post_lines))"
  proof -
    have "f redirect_rule = redirect_rule" by (rule plain) (simp add: redirect_rule_def)
    moreover have "redirect_rule \<in> set post_lines" by (simp add: post_lines_def redirect_rule_def)
    ultimately show ?thesis by (metis (no_types, lifting) Un_iff image_eqI set_append set_map)
  qed
  moreover have "map f (map exempt hosts) = map exempt hosts" using ex by simp
  then have "map f (map exempt hosts) = map exempt hs @ exempt h # map exempt hs'" using hs by simp
  then have "script_lines port ip iface Pre hosts =
      (map f ([[]] @ pre_lines) @ map exempt hs) @ exempt h # (map exempt hs' @ map f ([[]] @ post_lines))"
    unfolding script_lines_def f_def [symmetric] by simp
  ultimately show ?thesis by blast
qed

lemma fill_no_nl: "nl \<notin> set l \<Longrightarrow> \<forall>(k, v) \<in> set d. nl \<notin> set v \<Longrightarrow> nl \<notin> set (fill_keys d l)"
  using set_fill [of d l] by blast

lemma script_no_nl:
  assumes "\<And>t. t \<in> set (port # ip # iface # Pre # hosts) \<Longrightarrow> nl \<notin> set t"
  shows "\<forall>l \<in> set (script_lines port ip iface Pre hosts). nl \<notin> set l"
proof -
  have fl: "nl \<notin> set (fill_keys [(''PORT'', port)] (fill_keys [(''IP'', ip), (''IFACE'', iface), (''PRE'', Pre)] l))"
    if "nl \<notin> set l" for l
    using that assms by (intro fill_no_nl) auto
  have "list_all (\<lambda>l. nl \<notin> set l) (pre_lines @ post_lines)" by code_simp
  moreover have "nl \<notin> set (exempt h)" if "h \<in> set hosts" for h
    using assms [of h] that by (simp add: exempt_def nl_def)
  ultimately have "\<forall>l \<in> set ([[]] @ pre_lines @ map exempt hosts @ [[]] @ post_lines). nl \<notin> set l"
    by (auto simp: list_all_iff)
  then show ?thesis unfolding script_lines_def using fl by (simp only: set_map) blast
qed

text \<open>
  C28. When the control page answers with its hosts, the firewall script written at the start of the router
  mode exempts every one of them from the redirection of TCP: in the chain \<open>REDSOCKS\<close> the rule that
  returns for the host stands before the rule that redirects all TCP traffic, so the tunnel's own
  traffic is not redirected into the tunnel.  (Names are another matter: the rule that redirects
  UDP to port 53 belongs to another chain and stands before both.)
\<close>

theorem servers_exempt:
  assumes "gs_fmt_ok (oe_gs (re_os R))" "gs_format_ok (oe_gs (re_os R))" "oe_GOOS (re_os R) = ''linux''"
    and "GetIface R = Ret (iface, ip)" "\<And>n. re_api_hosts R n = Some hosts" "h \<in> set hosts"
    and "\<And>k. k \<in> set hosts \<Longrightarrow> CHR ''$'' \<notin> set k"
    and "\<And>t. t \<in> set (port_scan (oe_gs (re_os R)) 0 (gs_Split (oe_gs (re_os R)) addr '':'') ''1091'' # ip # iface # hosts) \<Longrightarrow> nl \<notin> set t"
  shows "\<exists>s' before after. StartFireWall R addr s = (Ret (), s') \<and>
    split_on nl (file_text ''/etc/firewall.user'' s') = before @ exempt h # after \<and>
    redirect_rule \<in> set after \<and> redirect_rule \<notin> set before"
proof -
  let ?port = "port_scan (oe_gs (re_os R)) 0 (gs_Split (oe_gs (re_os R)) addr '':'') ''1091''"
  obtain s' Pre where s': "StartFireWall R addr s = (Ret (), s')" "Pre \<in> {''PREROUTING'', ''prerouting_rule''}"
    "file_text ''/etc/firewall.user'' s' = join_with nl (script_lines ?port ip iface Pre hosts)"
    using StartFireWall_file [OF assms(1,2) refl assms(3-5), of addr s] by blast
  have "nl \<notin> set t" if "t \<in> set (?port # ip # iface # Pre # hosts)" for t
    using assms(8) [of t] s'(2) that by (auto simp: nl_def)
  then have "\<forall>l \<in> set (script_lines ?port ip iface Pre hosts). nl \<notin> set l" by (rule script_no_nl)
  moreover have "script_lines ?port ip iface Pre hosts \<noteq> []" by (simp add: script_lines_def)
  ultimately have "split_on nl (file_text ''/etc/firewall.user'' s') = script_lines ?port ip iface Pre hosts"
    using split_join s'(3) by simp
  then show ?thesis using s'(1) script_parts [OF assms(6,7), of ?port ip iface Pre] by metis
qed

definition toy_router_env :: router_env where
  "toy_router_env = \<lparr>re_os = toy_os_env, re_ifaces = Inr [(''lo'', Inr [''127.0.0.1/8'']), (''br-lan'', Inr [''192.168.1.1/24''])],
     re_asset = (\<lambda>_. Some ''ELF''), re_openable = (\<lambda>_. True), re_api_hosts = (\<lambda>_. Some [''1.2.3.4'', ''5.6.7.8'']),
     re_file_hosts = (\<lambda>_. None), re_hpath = ''/root/.config/proxy-z.host.conf''\<rparr>"

definition toy_router :: router where
  "toy_router = \<lparr>ro_os = \<lparr>os_ran = [], os_files = []\<rparr>, ro_last = [], ro_LOCALIP = [], ro_configip = []\<rparr>"

theorem servers_exempt_witness:
  "\<exists>s' before after. StartFireWall toy_router_env ''127.0.0.1:1091'' toy_router = (Ret (), s') \<and>
    split_on nl (file_text ''/etc/firewall.user'' s') = before @ exempt ''5.6.7.8'' # after \<and>
    redirect_rule \<in> set after \<and> redirect_rule \<notin> set before"
proof (rule servers_exempt)
  show "GetIface toy_router_env = Ret (''br-lan'', ''192.168.1.1'')" by code_simp
  show "re_api_hosts toy_router_env n = Some [''1.2.3.4'', ''5.6.7.8'']" for n by (simp add: toy_router_env_def)
  have "port_scan (oe_gs (re_os toy_router_env)) 0 (gs_Split (oe_gs (re_os toy_router_env)) ''127.0.0.1:1091'' '':'') ''1091'' = ''1091''"
    by code_simp
  then show "nl \<notin> set t" if "t \<in> set (port_scan (oe_gs (re_os toy_router_env)) 0
      (gs_Split (oe_gs (re_os toy_router_env)) ''127.0.0.1:1091'' '':'') ''1091'' # ''192.168.1.1'' # ''br-lan'' # [''1.2.3.4'', ''5.6.7.8''])" for t
    using that by (auto simp: nl_def)
qed (auto simp: toy_router_env_def toy_os_env_def)

subsection \<open>The reported state\<close>

lemma findProc_empty:
  assumes "gs_fmt_ok G" "gs_words_ok G"
  shows "findProc G ''redsocks'' = []"
proof -
  have "findProc gs_std ''redsocks'' = []" by code_simp
  then show ?thesis using assms by (simp add: findProc_def gs_fmtD gs_words_ok_def gs_std_def)
qed

text \<open>
  The state reported for the router mode is never healthy: \<open>findProc\<close> looks for numbers in the
  text of its command instead of running it.
\<close>

theorem status_never_healthy:
  assumes "gs_fmt_ok (oe_gs (re_os R))" "gs_words_ok (oe_gs (re_os R))"
    and "CheckStatus R s = (Ret (can, on, healthy), s')"
  shows "\<not> healthy"
  using assms findProc_empty [OF assms(1,2)]
  by (auto simp: CheckStatus_def Let_def split: prod.splits if_splits go.splits)

theorem status_never_healthy_witness:
  "case CheckStatus toy_router_env (to_file ''/etc/firewall.user'' ''iptables'' toy_router) of
     (Ret (can, on, healthy), s') \<Rightarrow> on \<and> \<not> healthy | _ \<Rightarrow> False"
proof -
  have "case CheckStatus toy_router_env (to_file ''/etc/firewall.user'' ''iptables'' toy_router) of
     (Ret (can, on, healthy), s') \<Rightarrow> on | _ \<Rightarrow> False" by code_simp
  then obtain can healthy s' where c: "CheckStatus toy_router_env (to_file ''/etc/firewall.user'' ''iptables'' toy_router)
      = (Ret (can, True, healthy), s')"
    by (auto split: prod.splits go.splits)
  from status_never_healthy [OF _ _ c] c show ?thesis by (simp add: toy_router_env_def toy_os_env_def)
qed

lemma StopFirewall_file: "oe_GOOS (re_os R) = ''linux'' \<Longrightarrow> file_text ''/etc/firewall.user'' (StopFirewall R s) = []"
proof -
  assume l: "oe_GOOS (re_os R) = ''linux''"
  show ?thesis using l by (simp add: StopFirewall_def Let_def kill_def case_prod_beta)
qed

text \<open>
  Starting the router mode while no host list is at hand (the control page does not answer and
  none is saved) leaves an empty script: the next look at the state reports the mode as off and
  kills redsocks, as after a stop.
\<close>

theorem start_without_hosts_is_off:
  assumes "IsRouter (re_os R)" "gs_format_ok (oe_gs (re_os R))" "GetIface R \<noteq> Panic"
    and "\<And>n. re_api_hosts R n = None" "\<And>t. re_file_hosts R t = None"
  shows "\<exists>can. CheckStatus R (snd (StartFireWall R addr s)) =
      (Ret (can, False, False), kill R ''redsocks'' (snd (StartFireWall R addr s)))"
    and "\<exists>can. CheckStatus R (StopFirewall R s) = (Ret (can, False, False), kill R ''redsocks'' (StopFirewall R s))"
proof -
  have l: "oe_GOOS (re_os R) = ''linux''" using assms(1) by (simp add: IsRouter_def)
  have off: "\<exists>can. CheckStatus R t = (Ret (can, False, False), kill R ''redsocks'' t)"
    if "file_text ''/etc/firewall.user'' t = []" for t
    using that assms(1) by (simp add: CheckStatus_def Let_def)
  show "\<exists>can. CheckStatus R (StopFirewall R s) = (Ret (can, False, False), kill R ''redsocks'' (StopFirewall R s))"
    by (rule off [OF StopFirewall_file [OF l]])
  obtain iface ip where i: "GetIface R = Ret (iface, ip)" using assms(3) by (cases "GetIface R") auto
  have e: "gs_Format (oe_gs (re_os R)) [] d = []" for d
    using assms(2) by (simp add: gs_format_ok_def fill_plain del: fill_keys_Cons)
  have p: "IPTahbleRouteSet R Pre t = (Ret [], t\<lparr>ro_configip := ip, ro_LOCALIP := ip\<rparr>)" for Pre t
    using i assms(4,5) by (simp add: IPTahbleRouteSet_def Let_def)
  have "file_text ''/etc/firewall.user'' (snd (StartFireWall R addr s)) = []"
    using l i p e by (simp add: StartFireWall_def Let_def case_prod_beta)
  then show "\<exists>can. CheckStatus R (snd (StartFireWall R addr s)) =
      (Ret (can, False, False), kill R ''redsocks'' (snd (StartFireWall R addr s)))" by (rule off)
qed

end
