(* ===== verification/Iptables.thy ===== *)
theory Iptables
  imports Router_Mode
begin

text \<open>
  \<open>src/router/iptables_man.go\<close>: firewall rules as records, the commands made of them, and the list of
  rules read back from \<open>iptables -L\<close>.  A setter takes \<open>None\<close> where the source is called without
  its optional argument.  The lock around \<open>Add\<close> and \<open>Delete\<close> is left out: one operation at a time.
\<close>

record rule =
  ru_Table :: string
  ru_Chains :: string
  ru_ID :: int
  ru_Target :: string
  ru_Prot :: string
  ru_Opt :: string
  ru_Comment :: string
  ru_Source :: string
  ru_Destination :: string
  ru_Policy :: string
  ru_Interface :: string
  ru_SourcePort :: int
  ru_DestinationPort :: int
  ru_ToPort :: int
  ru_ToDestination :: string

definition zero_rule :: rule where
  "zero_rule = \<lparr>ru_Table = [], ru_Chains = [], ru_ID = 0, ru_Target = [], ru_Prot = [], ru_Opt = [],
     ru_Comment = [], ru_Source = [], ru_Destination = [], ru_Policy = [], ru_Interface = [],
     ru_SourcePort = 0, ru_DestinationPort = 0, ru_ToPort = 0, ru_ToDestination = []\<rparr>"

definition NewRule :: rule where
  "NewRule = zero_rule\<lparr>ru_Prot := ''any'', ru_Source := ''0.0.0.0/0'', ru_Destination := ''0.0.0.0/0'',
     ru_Target := ''ACCEPT'', ru_ID := -1\<rparr>"

subsection \<open>Reading the rules of a table\<close>

record table_scan =
  tb_chains :: string
  tb_default :: string
  tb_actions :: "(string \<times> string) list"
  tb_rules :: "rule list"

definition builtin_targets :: "string list" where
  "builtin_targets = [''RETURN'', ''REDIRECT'', ''REJECT'', ''ACCEPT'', ''DROP'', ''LOG'', ''ULOG'', ''SNAT'',
     ''NAT'', ''MASQUERADE'', ''MARK'']"

definition table_header :: "gslib \<Rightarrow> string list \<Rightarrow> table_scan \<Rightarrow> table_scan" where
  "table_header G fs st =
     (case fs of
        [_, chain, _, act] \<Rightarrow> st\<lparr>tb_chains := chain,
          tb_default := (if act = ''references)'' then
              (case map_of (tb_actions st) chain of None \<Rightarrow> [] | Some a \<Rightarrow> a)
            else gs_Replace G act '')'' [])\<rparr>
      | _ \<Rightarrow> st)"

definition rule_of_fields ::
  "gslib \<Rightarrow> string \<Rightarrow> table_scan \<Rightarrow> int \<Rightarrow> string \<Rightarrow> string \<Rightarrow> string \<Rightarrow> string \<Rightarrow> string \<Rightarrow> string list \<Rightarrow> rule" where
  "rule_of_fields G table st n target prot opt source destination comment =
     zero_rule\<lparr>ru_ID := n, ru_Table := table, ru_Chains := tb_chains st, ru_Policy := tb_default st,
       ru_Target := target, ru_Prot := prot, ru_Opt := opt, ru_Source := source, ru_Destination := destination,
       ru_Comment := (if comment \<noteq> [] then gs_Join G comment '' '' else [])\<rparr>"

definition target_action :: "string \<Rightarrow> table_scan \<Rightarrow> (string \<times> string) list" where
  "target_action target st =
     (if target \<in> set builtin_targets \<or> map_of (tb_actions st) target \<noteq> None then tb_actions st
      else AList.update target (tb_default st) (tb_actions st))"

definition table_rule :: "gslib \<Rightarrow> string \<Rightarrow> string list \<Rightarrow> table_scan \<Rightarrow> table_scan" where
  "table_rule G table fs st =
     (case fs of
        num # target # prot # opt # source # destination # comment \<Rightarrow>
          (if num = ''num'' then st
           else case atoi num of (n, err) \<Rightarrow>
             if err then st
             else st\<lparr>tb_actions := target_action target st,
               tb_rules := tb_rules st @ [rule_of_fields G table st n target prot opt source destination comment]\<rparr>)
      | _ \<Rightarrow> st)"

definition table_line :: "gslib \<Rightarrow> string \<Rightarrow> string \<Rightarrow> table_scan \<Rightarrow> table_scan" where
  "table_line G table l st =
     (let line = gs_Trim G l; fs = gs_SplitSpace G line in
      if line = [] then st
      else if gs_StartsWith G line ''Chain '' then table_header G fs st
      else table_rule G table fs st)"

definition LoadTableRules :: "router_env \<Rightarrow> string \<Rightarrow> router \<Rightarrow> rule list \<times> router" where
  "LoadTableRules R table s =
     (let G = oe_gs (re_os R); (out, s') = run R (gs_F G ''iptables -t %s -L -n  --line-number'' [FStr table]) s in
      (tb_rules (fold (table_line G table) (gs_EveryLine G out)
         \<lparr>tb_chains = [], tb_default = [], tb_actions = [], tb_rules = []\<rparr>), s'))"

subsection \<open>Setters and tests\<close>

definition IsFromAny :: "bool option \<Rightarrow> rule \<Rightarrow> bool \<times> rule" where
  "IsFromAny b r = (let r1 = (if b = Some True then r\<lparr>ru_Source := ''0.0.0.0/0''\<rparr> else r) in (ru_Source r1 = ''0.0.0.0/0'', r1))"

definition IsFromAnyPort :: "int option \<Rightarrow> rule \<Rightarrow> bool \<times> rule" where
  "IsFromAnyPort p r =
     (let r1 = (case p of Some n \<Rightarrow> if -1 < n \<and> n < 65536 then r\<lparr>ru_SourcePort := n\<rparr> else r | None \<Rightarrow> r) in
      (ru_SourcePort r1 = 0, r1))"

definition IsToAnyPort :: "int option \<Rightarrow> rule \<Rightarrow> bool \<times> rule" where
  "IsToAnyPort p r =
     (let r1 = (case p of Some n \<Rightarrow> if -1 < n \<and> n < 65536 then r\<lparr>ru_DestinationPort := n\<rparr> else r | None \<Rightarrow> r) in
      (ru_DestinationPort r1 = 0, r1))"

definition IsToAny :: "bool option \<Rightarrow> rule \<Rightarrow> bool \<times> rule" where
  "IsToAny b r = (let r1 = (if b = Some True then r\<lparr>ru_Destination := ''0.0.0.0/0''\<rparr> else r) in (ru_Destination r1 = ''0.0.0.0/0'', r1))"

definition IsAnyProtocol :: "bool option \<Rightarrow> rule \<Rightarrow> bool \<times> rule" where
  "IsAnyProtocol b r = (let r1 = (if b = Some True then r\<lparr>ru_Prot := ''all''\<rparr> else r) in (ru_Prot r1 = ''all'', r1))"

definition IsAnyInterface :: "bool option \<Rightarrow> rule \<Rightarrow> bool \<times> rule" where
  "IsAnyInterface b r = (let r1 = (if b = Some True then r\<lparr>ru_Interface := []\<rparr> else r) in (ru_Interface r1 = [], r1))"

datatype filter_by = ByProc | BySrcIP | ByDstIP | BySrcPort | ByDstPort
datatype filter_val = FvStr string | FvInt int

definition SetFilter :: "filter_by \<Rightarrow> filter_val \<Rightarrow> rule \<Rightarrow> rule" where
  "SetFilter by v r =
     (case v of
        FvStr t \<Rightarrow> (case by of
            ByDstIP \<Rightarrow> r\<lparr>ru_Destination := t\<rparr> | BySrcIP \<Rightarrow> r\<lparr>ru_Source := t\<rparr> | ByProc \<Rightarrow> r\<lparr>ru_Prot := t\<rparr> | _ \<Rightarrow> r)
      | FvInt n \<Rightarrow> (case by of
            BySrcPort \<Rightarrow> r\<lparr>ru_SourcePort := n\<rparr> | ByDstPort \<Rightarrow> r\<lparr>ru_DestinationPort := n\<rparr> | _ \<Rightarrow> r))"

definition SetTable :: "string \<Rightarrow> rule \<Rightarrow> rule" where "SetTable t r = r\<lparr>ru_Table := t\<rparr>"

definition SetChains :: "string \<Rightarrow> rule \<Rightarrow> rule" where "SetChains t r = r\<lparr>ru_Chains := t\<rparr>"

definition SetPortRedirect :: "int \<Rightarrow> rule \<Rightarrow> rule" where
  "SetPortRedirect dport r = r\<lparr>ru_ToPort := dport, ru_Target := ''REDIRECT''\<rparr>"

definition SetIPAndPortRedirect :: "gslib \<Rightarrow> string \<Rightarrow> int \<Rightarrow> rule \<Rightarrow> rule" where
  "SetIPAndPortRedirect G ip dport r =
     (SetChains ''PREROUTING'' r)\<lparr>ru_ToDestination := gs_F G ''%s:%d'' [FStr ip, FInt dport], ru_Target := ''DNAT''\<rparr>"

subsection \<open>Commands\<close>

definition TargetCommand :: "gslib \<Rightarrow> rule \<Rightarrow> string" where
  "TargetCommand G r =
     (if ru_Target r = ''REDIRECT'' then (if 0 < ru_ToPort r then gs_F G ''--to-ports %d'' [FInt (ru_ToPort r)] else [])
      else if ru_Target r = ''OUTPUT'' then
        (if ru_ToDestination r \<noteq> [] then gs_F G ''--to-destication %s'' [FStr (ru_ToDestination r)] else [])
      else ru_Target r)"

definition FilterCommand :: "gslib \<Rightarrow> rule \<Rightarrow> string" where
  "FilterCommand G r =
     (let Interface = (if \<not> fst (IsAnyInterface None r) then ''-i '' @ ru_Interface r else []);
          filter_prot = (if \<not> fst (IsAnyProtocol None r) then ''-p '' @ ru_Prot r else []);
          sip = (if \<not> fst (IsFromAny None r) then ''-s '' @ ru_Source r else []);
          sport = (if \<not> fst (IsFromAny None r) then gs_F G ''-sport %d'' [FInt (ru_SourcePort r)] else []);
          dport = (if \<not> fst (IsToAny None r) then gs_F G ''-dport %d'' [FInt (ru_DestinationPort r)] else [])
      in gs_Join G (filter (\<lambda>c. c \<noteq> []) [Interface, filter_prot, sip, sport, dport]) '' '')"

definition AddCommand :: "gslib \<Rightarrow> bool option \<Rightarrow> rule \<Rightarrow> string" where
  "AddCommand G toTop r =
     (let target_cmd = TargetCommand G r in
      if target_cmd \<noteq> [] then
        gs_F G ''iptable -t %s -%s %s %s -j %s''
          [FStr (ru_Table r), FStr (if toTop = Some True then ''I'' else ''A''), FStr (ru_Chains r),
           FStr (FilterCommand G r), FStr target_cmd]
      else [])"

definition DelCommand :: "gslib \<Rightarrow> rule \<Rightarrow> string" where
  "DelCommand G r = gs_F G ''iptables -t %s -D %s %d'' [FStr (ru_Table r), FStr (ru_Chains r), FInt (ru_ID r)]"

definition usable :: "rule \<Rightarrow> bool" where
  "usable r \<longleftrightarrow> -1 < ru_ID r \<and> ru_Chains r \<noteq> [] \<and> ru_Table r \<noteq> []"

definition ipt_Delete :: "router_env \<Rightarrow> rule option \<Rightarrow> rule list \<Rightarrow> router \<Rightarrow> rule list \<times> router" where
  "ipt_Delete R ro rules s =
     (case ro of None \<Rightarrow> (rules, s)
      | Some r \<Rightarrow> if usable r then LoadTableRules R (ru_Table r) (ran R (DelCommand (oe_gs (re_os R)) r) s) else (rules, s))"

definition ipt_Add :: "router_env \<Rightarrow> rule option \<Rightarrow> rule list \<Rightarrow> router \<Rightarrow> rule list \<times> router" where
  "ipt_Add R ro rules s =
     (case ro of None \<Rightarrow> (rules, s)
      | Some r \<Rightarrow> if usable r then LoadTableRules R (ru_Table r) (ran R (AddCommand (oe_gs (re_os R)) None r) s) else (rules, s))"

definition ipt_Save :: "router_env \<Rightarrow> string \<Rightarrow> router \<Rightarrow> router" where
  "ipt_Save R dpath s = ran R (''iptables-save > '' @ dpath) s"

definition ipt_Restore :: "router_env \<Rightarrow> string \<Rightarrow> router \<Rightarrow> router" where
  "ipt_Restore R dpath s = (if file_exists dpath s then ran R (''iptables-restore  '' @ dpath) s else s)"

subsection \<open>New rules are never added\<close>

datatype rule_op = OpFilter filter_by filter_val | OpTable string | OpChains string | OpPort int | OpIPPort string int
  | OpFrom bool | OpTo bool | OpFromPort int | OpToPort int | OpProt bool | OpIface bool

fun apply_op :: "gslib \<Rightarrow> rule_op \<Rightarrow> rule \<Rightarrow> rule" where
  "apply_op G (OpFilter by v) r = SetFilter by v r"
| "apply_op G (OpTable t) r = SetTable t r"
| "apply_op G (OpChains t) r = SetChains t r"
| "apply_op G (OpPort n) r = SetPortRedirect n r"
| "apply_op G (OpIPPort ip n) r = SetIPAndPortRedirect G ip n r"
| "apply_op G (OpFrom b) r = snd (IsFromAny (Some b) r)"
| "apply_op G (OpTo b) r = snd (IsToAny (Some b) r)"
| "apply_op G (OpFromPort n) r = snd (IsFromAnyPort (Some n) r)"
| "apply_op G (OpToPort n) r = snd (IsToAnyPort (Some n) r)"
| "apply_op G (OpProt b) r = snd (IsAnyProtocol (Some b) r)"
| "apply_op G (OpIface b) r = snd (IsAnyInterface (Some b) r)"

lemma apply_op_ID [simp]: "ru_ID (apply_op G o' r) = ru_ID r"
  by (cases o') (auto simp: SetFilter_def SetTable_def SetChains_def SetPortRedirect_def SetIPAndPortRedirect_def
      IsFromAny_def IsToAny_def IsFromAnyPort_def IsToAnyPort_def IsAnyProtocol_def IsAnyInterface_def Let_def
      split: filter_val.splits filter_by.splits)

text \<open>
  Adding a rule made with \<open>NewRule\<close>, whatever setters were called on it, runs no command and
  leaves the table as it is: the guard asks for a non-negative number, which only rules read back
  from the table have.
\<close>

theorem new_rule_never_added:
  "ipt_Add R (Some (fold (apply_op G) ops NewRule)) rules s = (rules, s)"
proof -
  have "ru_ID (fold (apply_op G) ops r) = ru_ID r" for r by (induction ops arbitrary: r) auto
  then have "\<not> usable (fold (apply_op G) ops NewRule)" by (simp add: usable_def NewRule_def)
  then show ?thesis by (simp add: ipt_Add_def)
qed

subsection \<open>The listing is read back\<close>

text \<open>A line of the listing, trimmed, that shows a rule; a chain with a policy and its rules.\<close>

definition shows_rule :: "string \<Rightarrow> rule \<Rightarrow> bool" where
  "shows_rule l r \<longleftrightarrow> trim_space l \<noteq> [] \<and> \<not> has_prefix (trim_space l) ''Chain '' \<and>
     (\<exists>cs. split_space (trim_space l) = itoa (ru_ID r) # ru_Target r # ru_Prot r # ru_Opt r # ru_Source r # ru_Destination r # cs \<and>
       ru_Comment r = join_str '' '' cs)"

definition shows_chain :: "string list \<Rightarrow> string \<Rightarrow> string \<Rightarrow> rule list \<Rightarrow> bool" where
  "shows_chain ls chain policy rules \<longleftrightarrow>
     (\<exists>h cols rls. ls = h # cols # rls @ [[]] \<and> has_prefix (trim_space h) ''Chain '' \<and>
        split_space (trim_space h) = [''Chain'', chain, ''(policy'', policy @ '')''] \<and>
        \<not> has_prefix (trim_space cols) ''Chain '' \<and> (\<exists>ws. split_space (trim_space cols) = ''num'' # ws) \<and>
        list_all2 shows_rule rls rules)"

definition listed_rule :: "string \<Rightarrow> string \<Rightarrow> string \<Rightarrow> rule \<Rightarrow> bool" where
  "listed_rule table chain policy r \<longleftrightarrow> ru_Table r = table \<and> ru_Chains r = chain \<and> ru_Policy r = policy \<and>
     ru_Interface r = [] \<and> ru_SourcePort r = 0 \<and> ru_DestinationPort r = 0 \<and> ru_ToPort r = 0 \<and> ru_ToDestination r = [] \<and>
     - (2 ^ 63) \<le> ru_ID r \<and> ru_ID r < 2 ^ 63"

definition gs_lines_ok :: "gslib \<Rightarrow> bool" where
  "gs_lines_ok G \<longleftrightarrow> (\<forall>s. gs_EveryLine G s = split_on nl s) \<and> (\<forall>s. gs_Trim G s = trim_space s) \<and>
     (\<forall>s. CHR '')'' \<notin> set s \<longrightarrow> gs_Replace G (s @ '')'') '')'' [] = s)"

lemma gs_std_lines [simp]: "gs_lines_ok gs_std"
proof -
  have "split_on (CHR '')'') (s @ '')'') = [s, []]" if "CHR '')'' \<notin> set s" for s
    using split_on_append [OF that, of "[]"] by simp
  then show ?thesis by (simp add: gs_lines_ok_def gs_std_def nl_def split_str_single)
qed

lemma table_line_rule:
  assumes "gs_lines_ok G" "gs_words_ok G" "gs_affix_ok G" "shows_rule l r" "listed_rule table (tb_chains st) (tb_default st) r"
  shows "\<exists>acts. table_line G table l st = st\<lparr>tb_actions := acts, tb_rules := tb_rules st @ [r]\<rparr>"
proof -
  obtain cs where l: "split_space (trim_space l) = itoa (ru_ID r) # ru_Target r # ru_Prot r # ru_Opt r # ru_Source r # ru_Destination r # cs"
    "ru_Comment r = join_str '' '' cs" "trim_space l \<noteq> []" "\<not> has_prefix (trim_space l) ''Chain ''"
    using assms(4) by (auto simp: shows_rule_def)
  have a: "atoi (itoa (ru_ID r)) = (ru_ID r, False)" using assms(5) by (intro atoi_itoa) (simp_all add: listed_rule_def)
  moreover have "atoi ''num'' = (0, True)" by code_simp
  ultimately have n: "itoa (ru_ID r) \<noteq> ''num''" by auto
  have "rule_of_fields G table st (ru_ID r) (ru_Target r) (ru_Prot r) (ru_Opt r) (ru_Source r) (ru_Destination r) cs = r"
    using assms(2,5) l(2) by (cases r) (auto simp: rule_of_fields_def gs_words_ok_def zero_rule_def listed_rule_def)
  then have "table_line G table l st = st\<lparr>tb_actions := target_action (ru_Target r) st, tb_rules := tb_rules st @ [r]\<rparr>"
    using assms(1-3) l a n by (simp add: table_line_def table_rule_def gs_lines_ok_def gs_words_ok_def gs_affixD Let_def)
  then show ?thesis by blast
qed

lemma table_lines_rules:
  assumes "gs_lines_ok G" "gs_words_ok G" "gs_affix_ok G"
  shows "list_all2 shows_rule rls rules \<Longrightarrow> \<forall>r \<in> set rules. listed_rule table (tb_chains st) (tb_default st) r \<Longrightarrow>
    \<exists>acts. fold (table_line G table) rls st = st\<lparr>tb_actions := acts, tb_rules := tb_rules st @ rules\<rparr>"
proof (induction rls rules arbitrary: st rule: list_all2_induct)
  case Nil
  show ?case by (intro exI [of _ "tb_actions st"]) simp
next
  case (Cons l rls r rules)
  obtain acts where 1: "table_line G table l st = st\<lparr>tb_actions := acts, tb_rules := tb_rules st @ [r]\<rparr>"
    using table_line_rule [OF assms Cons.hyps(1), of table st] Cons.prems by auto
  then show ?case using Cons.IH [of "st\<lparr>tb_actions := acts, tb_rules := tb_rules st @ [r]\<rparr>"] Cons.prems by auto
qed

lemma table_lines_chain:
  assumes "gs_lines_ok G" "gs_words_ok G" "gs_affix_ok G" "shows_chain ls chain policy rules"
    and "\<forall>r \<in> set rules. listed_rule table chain policy r" "CHR '')'' \<notin> set policy" "policy \<noteq> ''references''"
  shows "tb_rules (fold (table_line G table) ls st) = tb_rules st @ rules"
proof -
  obtain h cols rls where ls: "ls = h # cols # rls @ [[]]" "has_prefix (trim_space h) ''Chain ''"
    "split_space (trim_space h) = [''Chain'', chain, ''(policy'', policy @ '')'']"
    "\<not> has_prefix (trim_space cols) ''Chain ''" "\<exists>ws. split_space (trim_space cols) = ''num'' # ws"
    "list_all2 shows_rule rls rules"
    using assms(4) by (auto simp: shows_chain_def)
  have ne: "trim_space h \<noteq> []" using ls(2) by (auto simp: has_prefix_def)
  have "policy @ '')'' \<noteq> ''references'' @ '')''" using assms(7) append_same_eq by blast
  then have "policy @ '')'' \<noteq> ''references)''" by simp
  then have 1: "table_line G table h st = st\<lparr>tb_chains := chain, tb_default := policy\<rparr>"
    using assms(1-3,6) ls(2,3) ne by (simp add: table_line_def table_header_def gs_lines_ok_def gs_words_ok_def gs_affixD Let_def)
  have 2: "table_line G table cols st' = st'" for st'
    using assms(1-3) ls(4,5) by (auto simp: table_line_def table_rule_def gs_lines_ok_def gs_words_ok_def gs_affixD Let_def split: list.splits)
  have 3: "table_line G table [] st' = st'" for st'
    using assms(1) by (simp add: table_line_def gs_lines_ok_def trim_space_def)
  show ?thesis using table_lines_rules [OF assms(1-3) ls(6), of table "st\<lparr>tb_chains := chain, tb_default := policy\<rparr>"] assms(5)
    by (auto simp: ls(1) 1 2 3)
qed

text \<open>
  Loading a table reads back what it lists: for any sequence of chains with a policy, each
  shown as its header, the column titles, its rules and an empty line, the result is exactly these
  rules in order, each with its chain, policy, number and comment.
\<close>

theorem table_read_back:
  assumes "gs_lines_ok (oe_gs (re_os R))" "gs_words_ok (oe_gs (re_os R))" "gs_affix_ok (oe_gs (re_os R))"
    and "split_on nl (fst (run R (gs_F (oe_gs (re_os R)) ''iptables -t %s -L -n  --line-number'' [FStr table]) s)) =
      concat (map (\<lambda>(ls, _). ls) tables)"
    and "\<And>ls chain policy rules. (ls, chain, policy, rules) \<in> set tables \<Longrightarrow> shows_chain ls chain policy rules \<and>
      (\<forall>r \<in> set rules. listed_rule table chain policy r) \<and> CHR '')'' \<notin> set policy \<and> policy \<noteq> ''references''"
  shows "fst (LoadTableRules R table s) = concat (map (\<lambda>(ls, chain, policy, rules). rules) tables)"
proof -
  let ?G = "oe_gs (re_os R)"
  have "tb_rules (fold (table_line ?G table) (concat (map (\<lambda>(ls, _). ls) ts)) st) =
      tb_rules st @ concat (map (\<lambda>(ls, chain, policy, rules). rules) ts)" if "set ts \<subseteq> set tables" for ts st
    using that
  proof (induction ts arbitrary: st)
    case (Cons t ts)
    obtain ls chain policy rules where t: "t = (ls, chain, policy, rules)" by (cases t)
    then have "tb_rules (fold (table_line ?G table) ls st) = tb_rules st @ rules"
      using table_lines_chain [OF assms(1-3)] assms(5) [of ls chain policy rules] Cons.prems by auto
    then show ?case using Cons t by simp
  qed simp
  then show ?thesis using assms(1,4) by (simp add: LoadTableRules_def gs_lines_ok_def case_prod_beta Let_def)
qed

end
