(* ===== verification/Route_Book.thy ===== *)
theory Route_Book
  imports Router_Mode "HOL-Library.Multiset"
begin

text \<open>
  The list of servers a user logs in to: \<open>Onevps\<close> and the route cache of \<open>src/deploy/dev_server.go\<close>,
  the encrypted book in a git repository of \<open>src/deploy/git.go\<close>, and the parsing of SSH targets.  The
  git commands succeed or fail as a parameter says; encryption, JSON, the speed test and the
  answers of the user are parameters too.  \<open>log.Fatal\<close> ends the process.
\<close>

record vps =
  vp_Host :: string
  vp_Pwd :: string
  vp_Location :: string
  vp_Tag :: string
  vp_Speed :: string
  vp_ConnectedQuality :: int
  vp_IDS :: int

definition zero_vps :: vps where
  "zero_vps = \<lparr>vp_Host = [], vp_Pwd = [], vp_Location = [], vp_Tag = [], vp_Speed = [], vp_ConnectedQuality = 0, vp_IDS = 0\<rparr>"

record book_env =
  be_gs :: gslib
  be_Nth :: "string list \<Rightarrow> int \<Rightarrow> string"
  be_encrypt :: "string \<Rightarrow> string \<Rightarrow> string"
  be_decrypt :: "string \<Rightarrow> string \<Rightarrow> string"
  be_to_json :: "vps list \<Rightarrow> string option"
  be_of_json :: "string \<Rightarrow> vps list"
  be_ok :: "string \<Rightarrow> bool"
  be_auth :: "string \<Rightarrow> (string \<times> string) option \<Rightarrow> bool"
  be_stdin :: "nat \<Rightarrow> string"

text \<open>A repository: what the server has, and the clone in the temporary directory.\<close>

record git =
  gt_remote :: "(string \<times> string) list"
  gt_clone :: "(string \<times> string) list option"

datatype fate = Returned | Exited

subsection \<open>The book of a user\<close>

record gbook =
  gb_Repo :: string
  gb_GPasswd :: string
  gb_User :: string
  gb_Pwd :: string
  gb_Logined :: bool
  gb_UsedBook :: "vps list"

definition GitName :: "book_env \<Rightarrow> gbook \<Rightarrow> string" where
  "GitName E g = be_Nth E (gs_Split (be_gs E) (gb_Repo g) ''/'') 3"

definition PlainClone :: "book_env \<Rightarrow> string \<Rightarrow> (string \<times> string) option \<Rightarrow> git \<Rightarrow> bool \<times> git" where
  "PlainClone E repo auth t =
     (if gt_clone t = None \<and> be_auth E repo auth then (True, t\<lparr>gt_clone := Some (gt_remote t)\<rparr>) else (False, t))"

definition rm_clone :: "book_env \<Rightarrow> git \<Rightarrow> git" where
  "rm_clone E t = (if be_ok E ''rm'' then t\<lparr>gt_clone := None\<rparr> else t)"

definition Login :: "book_env \<Rightarrow> gbook \<Rightarrow> git \<Rightarrow> gbook \<times> git" where
  "Login E g t =
     (if gt_clone t \<noteq> None \<and> \<not> be_ok E ''rm'' then (g, t)
      else
        let t1 = t\<lparr>gt_clone := None\<rparr>;
            (ok, t2) = PlainClone E (gb_Repo g)
              (Some (GitName E g, gb_GPasswd g)) t1
        in if \<not> ok then (g, t2) else (g\<lparr>gb_Logined := True\<rparr>, t2))"

definition ChooseUser :: "book_env \<Rightarrow> string \<Rightarrow> string \<Rightarrow> gbook \<Rightarrow> git \<Rightarrow> gbook \<times> git" where
  "ChooseUser E user pwd g0 t0 =
     (let (g1, t) = (if \<not> gb_Logined g0 then Login E g0 t0 else (g0, t0));
          g = g1\<lparr>gb_User := user, gb_Pwd := pwd\<rparr>
      in case (case gt_clone t of None \<Rightarrow> None | Some fs \<Rightarrow> map_of fs user) of
           None \<Rightarrow> (g, t)
         | Some buf \<Rightarrow>
             if buf \<noteq> [] then
               let plain = be_decrypt E buf pwd in
               if gs_In (be_gs E) plain ''.'' then (g\<lparr>gb_UsedBook := be_of_json E plain\<rparr>, t) else (g, t)
             else (g, t))"

text \<open>Committing and pushing; every failure of git is fatal.\<close>

definition publish :: "book_env \<Rightarrow> git \<Rightarrow> fate \<times> git" where
  "publish E t =
     (if \<not> be_ok E ''add'' \<or> \<not> be_ok E ''commit'' then (Exited, t)
      else if \<not> be_ok E ''push'' then (Exited, t)
      else (Returned, case gt_clone t of None \<Rightarrow> t | Some fs \<Rightarrow> t\<lparr>gt_remote := fs\<rparr>))"

definition store :: "string \<Rightarrow> string \<Rightarrow> git \<Rightarrow> git" where
  "store name body t = (case gt_clone t of None \<Rightarrow> t | Some fs \<Rightarrow> t\<lparr>gt_clone := Some (AList.update name body fs)\<rparr>)"

definition gb_Update :: "book_env \<Rightarrow> gbook \<Rightarrow> git \<Rightarrow> fate \<times> git" where
  "gb_Update E g t =
     (if length (gb_UsedBook g) < 1 then (Returned, t)
      else case be_to_json E (gb_UsedBook g) of
        None \<Rightarrow> (Returned, t)
      | Some jtext \<Rightarrow>
          let EncryptedText = be_encrypt E (gs_Trim (be_gs E) jtext) (gb_Pwd g) in
          if gt_clone t = None then (Returned, t)
          else if \<not> be_ok E ''open'' then (Returned, t)
          else publish E (store (gb_User g) EncryptedText t))"

definition SyncToGit :: "book_env \<Rightarrow> string \<Rightarrow> string \<Rightarrow> string \<Rightarrow> string \<Rightarrow> string \<Rightarrow> vps list \<Rightarrow> git \<Rightarrow> fate \<times> git" where
  "SyncToGit E gitrepo gitName gitPwd loginName loginPwd vpss t =
     (case be_to_json E vpss of
        None \<Rightarrow> (Returned, t)
      | Some jtext \<Rightarrow>
          let EncryptedText = be_encrypt E (gs_Trim (be_gs E) jtext) loginPwd;
              (ok, t1) = PlainClone E gitrepo (Some (gitName, gitPwd)) (rm_clone E t)
          in if \<not> ok then (Exited, t1) else publish E (store loginName EncryptedText t1))"

definition gb_Clear :: "book_env \<Rightarrow> git \<Rightarrow> git" where
  "gb_Clear E t = rm_clone E t"

fun last_tag :: "vps list \<Rightarrow> string \<Rightarrow> string" where
  "last_tag [] user = user"
| "last_tag (v # vs) user = last_tag vs (trim_space (vp_Tag v))"

definition Upload :: "book_env \<Rightarrow> vps list \<Rightarrow> gbook \<Rightarrow> git \<Rightarrow> (bool \<times> fate) \<times> gbook \<times> git" where
  "Upload E vpses g t =
     (let user = last_tag vpses [] in
      if user \<noteq> [] then
        let pwd = be_stdin E 0 in
        if gs_Trim (be_gs E) pwd \<noteq> [] then
          let g1 = g\<lparr>gb_Pwd := pwd, gb_User := user, gb_UsedBook := vpses\<rparr>; (f, t1) = gb_Update E g1 t in
          ((f = Returned, f), g1, t1)
        else ((False, Returned), g, t)
      else ((False, Returned), g, t))"

subsection \<open>Logging in\<close>

definition book_line :: "book_env \<Rightarrow> string \<Rightarrow> vps" where
  "book_line E line =
     (let G = be_gs E in
      if gs_In G line ''|'' then
        zero_vps\<lparr>vp_Location := gs_Trim G (be_Nth E (gs_Split G line ''|'') 0),
          vp_Host := gs_Trim G (be_Nth E (gs_Split G line ''|'') 1)\<rparr>
      else zero_vps\<lparr>vp_Host := gs_Trim G line\<rparr>)"

definition open_book :: "book_env \<Rightarrow> string \<Rightarrow> vps list" where
  "open_book E plain =
     (let G = be_gs E in
      if \<not> gs_In G plain ''.'' then []
      else if gs_StartsWith G plain ''['' \<and> gs_EndsWith G plain '']'' then be_of_json E plain
      else map (book_line E) (gs_EveryLine G plain))"

definition GitGetAccount :: "book_env \<Rightarrow> string \<Rightarrow> string list \<Rightarrow> git \<Rightarrow> vps list \<times> git" where
  "GitGetAccount E gitrepo namePwd t =
     (let G = be_gs E;
          name0 = (case namePwd of n # _ \<Rightarrow> n | [] \<Rightarrow> []);
          pwd0 = (case namePwd of _ # p # _ \<Rightarrow> p | _ \<Rightarrow> []);
          gitpwd = (case namePwd of _ # _ # g # _ \<Rightarrow> g | _ \<Rightarrow> [])
      in if gt_clone t \<noteq> None \<and> \<not> be_ok E ''rm'' then ([], t)
      else
        let (ok, t1) = PlainClone E gitrepo
          (if gitpwd \<noteq> [] then Some (be_Nth E (gs_Split G gitrepo ''/'') 3, gitpwd) else None) (t\<lparr>gt_clone := None\<rparr>)
        in if \<not> ok then ([], rm_clone E t1)
        else
          let name = (if name0 = [] then gs_Trim G (be_stdin E 0) else name0);
              pwd = (if pwd0 = [] then gs_Trim G (be_stdin E (if name0 = [] then 1 else 0)) else pwd0)
          in (case (case gt_clone t1 of None \<Rightarrow> None | Some fs \<Rightarrow> map_of fs name) of
                None \<Rightarrow> ([], rm_clone E t1)
              | Some buf \<Rightarrow> (if buf \<noteq> [] then open_book E (be_decrypt E buf pwd) else [], rm_clone E t1)))"

subsection \<open>Testing and choosing routes\<close>

text \<open>\<open>test h\<close> is what \<open>TestServer\<close> measures for a host, and how many tunnels it reports.\<close>

definition vps_Test :: "(string \<Rightarrow> int \<times> int) \<Rightarrow> (int \<Rightarrow> string) \<Rightarrow> vps \<Rightarrow> vps" where
  "vps_Test test dur v = (let (ol, ids) = test (vp_Host v) in
     v\<lparr>vp_ConnectedQuality := ol, vp_IDS := ids, vp_Speed := dur ol\<rparr>)"

definition TestRoutes ::
  "((vps \<Rightarrow> vps \<Rightarrow> bool) \<Rightarrow> vps list \<Rightarrow> vps list) \<Rightarrow> (string \<Rightarrow> int \<times> int) \<Rightarrow> (int \<Rightarrow> string) \<Rightarrow> vps list \<Rightarrow> vps list" where
  "TestRoutes sorter test dur vpss =
     sorter (\<lambda>l r. vp_ConnectedQuality l < vp_ConnectedQuality r) (map (vps_Test test dur) vpss)"

definition SetRoutes :: "vps list \<Rightarrow> vps list \<Rightarrow> vps list" where
  "SetRoutes ss cacheRoutes = cacheRoutes @ ss"

definition GetNewRoute :: "nat \<Rightarrow> vps list \<Rightarrow> string" where
  "GetNewRoute rand cacheRoutes =
     (if 0 < length cacheRoutes then vp_Host (cacheRoutes ! (if 3 < length cacheRoutes then rand mod 3 else 0)) else [])"

definition RouteModeTest ::
  "((vps \<Rightarrow> vps \<Rightarrow> bool) \<Rightarrow> vps list \<Rightarrow> vps list) \<Rightarrow> (string \<Rightarrow> int \<times> int) \<Rightarrow> (int \<Rightarrow> string) \<Rightarrow> vps list \<Rightarrow> vps list" where
  "RouteModeTest sorter test dur cacheRoutes = (if 0 < length cacheRoutes then TestRoutes sorter test dur cacheRoutes else cacheRoutes)"

definition RouteModeInit ::
  "book_env \<Rightarrow> ((vps \<Rightarrow> vps \<Rightarrow> bool) \<Rightarrow> vps list \<Rightarrow> vps list) \<Rightarrow> (string \<Rightarrow> int \<times> int) \<Rightarrow> (int \<Rightarrow> string) \<Rightarrow>
    string \<Rightarrow> string list \<Rightarrow> git \<Rightarrow> (fate \<times> vps list) \<times> git" where
  "RouteModeInit E sorter test dur gitrepo namepwd t =
     (let (vs, t1) = GitGetAccount E gitrepo namepwd t in
      if vs = [] then ((Exited, []), t1) else ((Returned, RouteModeTest sorter test dur vs), t1))"

subsection \<open>Targets of SSH\<close>

fun slash_parts :: "nat \<Rightarrow> string list \<Rightarrow> string \<times> string \<Rightarrow> string \<times> string" where
  "slash_parts no [] (host, pwd) = (host, pwd)"
| "slash_parts no (i # is) (host, pwd) = slash_parts (no + 1) is (if no = 0 then (i, pwd) else (host, i))"

fun at_parts :: "gslib \<Rightarrow> nat \<Rightarrow> string list \<Rightarrow> string \<times> string \<times> string \<Rightarrow> string \<times> string \<times> string" where
  "at_parts G no [] (user, host, pwd) = (user, host, pwd)"
| "at_parts G no (i # is) (user, host, pwd) =
     at_parts G (no + 1) is
       (if no = 0 then (i, host, pwd)
        else if gs_In G i ''/'' then (user, slash_parts 0 (gs_Split G i ''/'') (host, pwd))
        else (user, i, pwd))"

definition ssh_target :: "gslib \<Rightarrow> string \<Rightarrow> string \<times> string \<times> string" where
  "ssh_target G sshStr =
     (let (user, host, pwd) =
        (if gs_In G sshStr ''@'' then at_parts G 0 (gs_Split G sshStr ''@'') (''root'', [], [])
         else if gs_In G sshStr ''/'' then (''root'', slash_parts 0 (gs_Split G sshStr ''/'') ([], []))
         else (''root'', sshStr, []))
      in (user, if \<not> gs_In G host '':'' then host @ '':22'' else host, pwd))"

text \<open>Deploying to a target, or the usage line.\<close>

definition DepBySSH :: "gslib \<Rightarrow> string \<Rightarrow> (string \<times> string \<times> string) option" where
  "DepBySSH G sshStr = (let (user, host, pwd) = ssh_target G sshStr in
     if user \<noteq> [] \<and> host \<noteq> [] then Some (user, host, pwd) else None)"

definition BuildFrom_auth :: "book_env \<Rightarrow> string \<Rightarrow> (string \<times> string \<times> string) option" where
  "BuildFrom_auth E g =
     (let G = be_gs E; part = (\<lambda>i. be_Nth E (gs_Split G g '':'') i) in
      if \<not> gs_StartsWith G g ''http'' \<or> \<not> gs_In G g ''.git'' \<or> gs_Count G g '':'' \<noteq> 2 then None
      else if part 2 = [] then None
      else Some (part 0 @ '':'' @ part 1, be_Nth E (gs_Split G g ''/'') 3, part 2))"

definition BuildFrom_list :: "book_env \<Rightarrow> string \<Rightarrow> vps list" where
  "BuildFrom_list E listing = map (book_line E) (filter (\<lambda>line. gs_In (be_gs E) line ''|'') (gs_EveryLine (be_gs E) listing))"


subsection \<open>A published book is read back\<close>

definition json_ok :: "book_env \<Rightarrow> bool" where
  "json_ok E \<longleftrightarrow> (\<forall>vs j. be_to_json E vs = Some j \<longrightarrow>
     be_of_json E j = vs \<and> has_prefix j ''['' \<and> has_suffix j '']'' \<and> gs_Trim (be_gs E) j = j)"

definition crypt_ok :: "book_env \<Rightarrow> bool" where
  "crypt_ok E \<longleftrightarrow> (\<forall>t k. be_decrypt E (be_encrypt E t k) k = t) \<and> (\<forall>t k. t \<noteq> [] \<longrightarrow> be_encrypt E t k \<noteq> [])"

lemma published_book:
  assumes "gs_in_ok (be_gs E)" "gs_affix_ok (be_gs E)" "json_ok E" "crypt_ok E"
    and "be_to_json E (gb_UsedBook g) = Some j" "gb_UsedBook g \<noteq> []" "gb_User g \<noteq> []" "gb_Pwd g \<noteq> []"
    and "gt_clone t \<noteq> None" "be_ok E ''open''" "gb_Update E g t = (Returned, t')"
    and "be_ok E ''rm''" "be_auth E repo None"
  shows "fst (GitGetAccount E repo [gb_User g, gb_Pwd g] t') = (if CHR ''.'' \<in> set j then gb_UsedBook g else [])"
proof -
  have j: "be_of_json E j = gb_UsedBook g" "has_prefix j ''[''" "has_suffix j '']''" "gs_Trim (be_gs E) j = j"
    using assms(3,5) by (auto simp: json_ok_def)
  then have ne: "j \<noteq> []" by (auto simp: has_prefix_def)
  obtain fs where fs: "gt_clone t = Some fs" using assms(9) by auto
  let ?e = "be_encrypt E j (gb_Pwd g)"
  have "publish E (t\<lparr>gt_clone := Some (AList.update (gb_User g) ?e fs)\<rparr>) = (Returned, t')"
    using assms(5,6,10,11) fs j(4) by (simp add: gb_Update_def store_def Suc_le_eq)
  then have "gt_remote t' = AList.update (gb_User g) ?e fs" by (auto simp: publish_def split: if_splits)
  then have m: "map_of (gt_remote t') (gb_User g) = Some ?e" by (simp add: update_conv')
  have "?e \<noteq> []" "be_decrypt E ?e (gb_Pwd g) = j" using assms(4) ne by (simp_all add: crypt_ok_def)
  then show ?thesis using assms(1,2,7,8,12,13) j m
    by (simp add: GitGetAccount_def PlainClone_def open_book_def gs_inD gs_affixD str_contains_char)
qed

text \<open>
  A book that was published is what its user gets when logging in with the same password,
  provided its text has a dot anywhere; a book without a dot (hosts named by words or IPv6) is
  taken for a wrong password and comes back empty.
\<close>

theorem book_roundtrip:
  assumes "gs_in_ok (be_gs E)" "gs_affix_ok (be_gs E)" "json_ok E" "crypt_ok E"
    and "be_to_json E (gb_UsedBook g) = Some j" "gb_UsedBook g \<noteq> []" "gb_User g \<noteq> []" "gb_Pwd g \<noteq> []"
    and "gt_clone t \<noteq> None" "be_ok E ''open''" "gb_Update E g t = (Returned, t')"
    and "be_ok E ''rm''" "be_auth E repo None"
  shows "fst (GitGetAccount E repo [gb_User g, gb_Pwd g] t') = (if CHR ''.'' \<in> set j then gb_UsedBook g else [])"
  by (rule published_book [OF assms])

subsection \<open>The best routes\<close>

text \<open>What the library's \<open>Sort\<close> promises for an order given by a key: a sorted permutation.\<close>

definition sort_ok :: "((vps \<Rightarrow> vps \<Rightarrow> bool) \<Rightarrow> vps list \<Rightarrow> vps list) \<Rightarrow> bool" where
  "sort_ok sorter \<longleftrightarrow> (\<forall>f :: vps \<Rightarrow> int. \<forall>xs. mset (sorter (\<lambda>l r. f l < f r) xs) = mset xs \<and>
     sorted (map f (sorter (\<lambda>l r. f l < f r) xs)))"

definition better :: "vps \<Rightarrow> vps list \<Rightarrow> vps list" where
  "better v vs = filter (\<lambda>u. vp_ConnectedQuality u < vp_ConnectedQuality v) vs"

lemma sorted_better:
  assumes "sorted (map vp_ConnectedQuality xs)" "i < length xs"
  shows "length (better (xs ! i) xs) \<le> i"
proof -
  have "\<not> vp_ConnectedQuality u < vp_ConnectedQuality (xs ! i)" if "u \<in> set (drop i xs)" for u
  proof -
    note u = that
    obtain k where "k < length (drop i xs)" "drop i xs ! k = u" using u by (metis in_set_conv_nth)
    then have "k < length xs - i" "u = xs ! (i + k)" using assms(2) by auto
    then have k: "i + k < length xs" "u = xs ! (i + k)" by linarith+
    show ?thesis using sorted_nth_mono [OF assms(1), of i "i + k"] k by simp
  qed
  then have "better (xs ! i) (drop i xs) = []" by (auto simp: better_def filter_empty_conv)
  then have "better (xs ! i) xs = better (xs ! i) (take i xs)"
    by (metis append_Nil2 append_take_drop_id better_def filter_append)
  moreover have "length (better (xs ! i) (take i xs)) \<le> length (take i xs)"
    unfolding better_def by (rule length_filter_le)
  ultimately show ?thesis by simp
qed

lemma better_mset: "mset xs = mset ys \<Longrightarrow> length (better v xs) = length (better v ys)"
  unfolding better_def by (metis mset_filter size_mset)

lemma new_route_position:
  assumes "sort_ok sorter" "cache \<noteq> []"
  shows "\<exists>v \<in> set (map (vps_Test test dur) cache).
    GetNewRoute rand (RouteModeTest sorter test dur cache) = vp_Host v \<and>
    length (better v (map (vps_Test test dur) cache)) \<le> 2"
proof -
  let ?T = "map (vps_Test test dur) cache"
  define xs where "xs = TestRoutes sorter test dur cache"
  have xs: "mset xs = mset ?T" "sorted (map vp_ConnectedQuality xs)"
    using assms(1) by (auto simp: xs_def TestRoutes_def sort_ok_def)
  have len: "length xs = length cache" by (metis xs(1) length_map size_mset)
  define i where "i = (if 3 < length xs then rand mod 3 else 0)"
  have i: "i < length xs" "i \<le> 2"
  proof -
    have "rand mod 3 < 3" by simp
    then show "i < length xs" "i \<le> 2" using assms(2) len unfolding i_def by (cases "3 < length xs"; linarith | simp)+
  qed
  have "length (better (xs ! i) ?T) \<le> 2" using sorted_better [OF xs(2) i(1)] better_mset [OF xs(1)] i(2) by simp
  moreover have "xs ! i \<in> set ?T" using i(1) xs(1) by (metis mset_eq_setD nth_mem)
  moreover have "GetNewRoute rand (RouteModeTest sorter test dur cache) = vp_Host (xs ! i)"
    using assms(2) len by (simp add: RouteModeTest_def GetNewRoute_def xs_def [symmetric] i_def)
  ultimately show ?thesis by blast
qed

text \<open>
  A route drawn after a test is one of the three best: at most two of the tested routes
  answer faster.
\<close>

theorem new_route_among_best:
  assumes "sort_ok sorter" "cache \<noteq> []"
  shows "\<exists>v \<in> set (map (vps_Test test dur) cache).
    GetNewRoute rand (RouteModeTest sorter test dur cache) = vp_Host v \<and>
    length (better v (map (vps_Test test dur) cache)) \<le> 2"
  by (rule new_route_position [OF assms])

text \<open>
  Every login appends its routes to the cache again: after three logins to the same book the
  three best entries are one and the same server, and no draw ever gives another one.
\<close>

theorem repeated_logins_one_route:
  assumes "sort_ok sorter" "b \<in> set vs" "\<And>v. v \<in> set vs \<Longrightarrow> vp_Host v \<noteq> vp_Host b \<Longrightarrow> fst (test (vp_Host b)) < fst (test (vp_Host v))"
  shows "GetNewRoute rand (RouteModeTest sorter test dur (SetRoutes vs (SetRoutes vs (SetRoutes vs [])))) = vp_Host b"
proof -
  let ?c = "vs @ vs @ vs" and ?T = "map (vps_Test test dur)"
  have host: "vp_Host (vps_Test test dur v) = vp_Host v" "vp_ConnectedQuality (vps_Test test dur v) = fst (test (vp_Host v))" for v
    by (simp_all add: vps_Test_def split: prod.splits)
  obtain v where v: "v \<in> set (?T ?c)" "GetNewRoute rand (RouteModeTest sorter test dur ?c) = vp_Host v" "length (better v (?T ?c)) \<le> 2"
    using new_route_position [OF assms(1), of ?c test dur rand] assms(2) by force
  have "vp_Host v = vp_Host b"
  proof (rule ccontr)
    assume other: "vp_Host v \<noteq> vp_Host b"
    obtain u where u: "u \<in> set vs" "v = vps_Test test dur u" using v(1) by auto
    then have "vp_ConnectedQuality (vps_Test test dur b) < vp_ConnectedQuality v" using assms(3) [of u] other host by auto
    then have "better v (?T vs) \<noteq> []" using assms(2) by (auto simp: better_def filter_empty_conv)
    then have "1 \<le> length (better v (?T vs))" by (simp add: Suc_le_eq)
    moreover have "length (better v (?T ?c)) = 3 * length (better v (?T vs))" by (simp add: better_def)
    ultimately show False using v(3) by linarith
  qed
  then show ?thesis using v(2) by (simp add: SetRoutes_def)
qed

subsection \<open>Passwords in SSH targets\<close>

text \<open>
  A target \<open>user@host/password\<close> is taken apart as written, with port 22 if none is given, as long
  as the password has no slash; of a password with slashes only the part after the last one is
  used.
\<close>

theorem ssh_target_parsed:
  assumes "gs_in_ok G" "gs_split_ok G" "CHR ''@'' \<notin> set (user @ host @ concat ps)"
    and "CHR ''/'' \<notin> set (user @ host @ concat ps)" "ps \<noteq> []"
  shows "ssh_target G (user @ CHR ''@'' # host @ CHR ''/'' # join_with (CHR ''/'') ps) =
    (user, if CHR '':'' \<in> set host then host else host @ '':22'', last ps)"
proof -
  have pc: "\<forall>p \<in> set ps. CHR ''/'' \<notin> set p" using assms(4) by auto
  have parts: "split_on (CHR ''/'') (host @ CHR ''/'' # join_with (CHR ''/'') ps) = host # ps"
    using split_on_append [of "CHR ''/''" host] split_join [OF assms(5) pc] assms(4) by simp
  have sl: "slash_parts (Suc n) qs (h, p) = (h, if qs = [] then p else last qs)" for n qs h p
    by (induction qs arbitrary: n p) auto
  have noat: "CHR ''@'' \<notin> set (host @ CHR ''/'' # join_with (CHR ''/'') ps)"
    using assms(3) join_with_set [of "CHR ''/''" ps] by auto
  have at: "split_on (CHR ''@'') (user @ CHR ''@'' # host @ CHR ''/'' # join_with (CHR ''/'') ps) =
      [user, host @ CHR ''/'' # join_with (CHR ''/'') ps]"
    using split_on_append [of "CHR ''@''" user] split_on_absent [OF noat] assms(3) by simp
  show ?thesis using assms(1,2,5) at parts sl [of 0 ps host "[]"]
    by (simp add: ssh_target_def gs_inD gs_splitD str_contains_char split_str_single)
qed

subsection \<open>Examples\<close>

fun ins_by :: "(vps \<Rightarrow> vps \<Rightarrow> bool) \<Rightarrow> vps \<Rightarrow> vps list \<Rightarrow> vps list" where
  "ins_by lt x [] = [x]"
| "ins_by lt x (y # ys) = (if lt y x then y # ins_by lt x ys else x # y # ys)"

definition sort_by :: "(vps \<Rightarrow> vps \<Rightarrow> bool) \<Rightarrow> vps list \<Rightarrow> vps list" where
  "sort_by lt xs = foldr (ins_by lt) xs []"

lemma sort_by_ok [simp]: "sort_ok sort_by"
proof -
  have i: "mset (ins_by (\<lambda>l r. f l < f r) x ys) = add_mset x (mset ys)" for f :: "vps \<Rightarrow> int" and x ys
    by (induction ys) auto
  then have set_i: "set (ins_by (\<lambda>l r. f l < f r) x ys) = insert x (set ys)" for f :: "vps \<Rightarrow> int" and x ys
    by (metis set_mset_add_mset_insert set_mset_mset)
  have s: "sorted (map f ys) \<Longrightarrow> sorted (map f (ins_by (\<lambda>l r. f l < f r) x ys))" for f :: "vps \<Rightarrow> int" and x ys
    by (induction ys) (auto simp: set_i)
  have "mset (foldr (ins_by (\<lambda>l r. f l < f r)) xs []) = mset xs" for f :: "vps \<Rightarrow> int" and xs
    by (induction xs) (auto simp: i)
  moreover have "sorted (map f (foldr (ins_by (\<lambda>l r. f l < f r)) xs []))" for f :: "vps \<Rightarrow> int" and xs
    by (induction xs) (auto simp: s)
  ultimately show ?thesis by (simp add: sort_ok_def sort_by_def)
qed

definition toy_vps :: "string \<Rightarrow> vps" where
  "toy_vps h = zero_vps\<lparr>vp_Host := h, vp_Location := ''Tokyo''\<rparr>"

definition toy_routes :: "vps list" where
  "toy_routes = [toy_vps ''1.2.3.4'', toy_vps ''5.6.7.8'', toy_vps ''9.9.9.9'', toy_vps ''8.8.4.4'']"

definition toy_test :: "string \<Rightarrow> int \<times> int" where
  "toy_test h = (if h = ''8.8.4.4'' then 10000000 else if h = ''5.6.7.8'' then 20000000 else 300000000, 1)"

theorem new_route_among_best_witness:
  "GetNewRoute 1 (RouteModeTest sort_by toy_test itoa toy_routes) \<noteq> []"
proof -
  have "toy_routes \<noteq> []" by (simp add: toy_routes_def)
  from new_route_among_best [OF sort_by_ok this, of toy_test itoa 1]
  show ?thesis by (auto simp: toy_routes_def toy_vps_def vps_Test_def split: prod.splits)
qed

theorem repeated_logins_one_route_witness:
  "GetNewRoute 2 (RouteModeTest sort_by toy_test itoa (SetRoutes toy_routes (SetRoutes toy_routes (SetRoutes toy_routes [])))) = ''8.8.4.4''"
proof -
  have "toy_vps ''8.8.4.4'' \<in> set toy_routes" by (simp add: toy_routes_def)
  from repeated_logins_one_route [OF sort_by_ok this, of toy_test 2 itoa]
  show ?thesis by (auto simp: toy_routes_def toy_vps_def toy_test_def)
qed

definition toy_book_env :: book_env where
  "toy_book_env = \<lparr>be_gs = gs_std, be_Nth = (\<lambda>xs i. xs ! nat i), be_encrypt = (\<lambda>t k. CHR ''E'' # t), be_decrypt = (\<lambda>t k. tl t),
     be_to_json = (\<lambda>vs. if vs = toy_routes then Some ''[1.2.3.4]'' else None), be_of_json = (\<lambda>_. toy_routes), be_ok = (\<lambda>_. True),
     be_auth = (\<lambda>_ _. True), be_stdin = (\<lambda>_. ''x'')\<rparr>"

definition toy_gbook :: gbook where
  "toy_gbook = \<lparr>gb_Repo = [], gb_GPasswd = [], gb_User = ''ann'', gb_Pwd = ''secret'', gb_Logined = True, gb_UsedBook = toy_routes\<rparr>"

definition toy_git :: git where
  "toy_git = snd (gb_Update toy_book_env toy_gbook \<lparr>gt_remote = [], gt_clone = Some []\<rparr>)"

lemma toy_book_ok [simp]: "json_ok toy_book_env" "crypt_ok toy_book_env"
proof -
  have "has_prefix ''[1.2.3.4]'' ''['' \<and> has_suffix ''[1.2.3.4]'' '']'' \<and> trim_space ''[1.2.3.4]'' = ''[1.2.3.4]''" by code_simp
  then show "json_ok toy_book_env" by (simp add: json_ok_def toy_book_env_def gs_std_def)
  show "crypt_ok toy_book_env" by (simp add: crypt_ok_def toy_book_env_def)
qed

lemma toy_update: "gb_Update toy_book_env toy_gbook \<lparr>gt_remote = [], gt_clone = Some []\<rparr> = (Returned, toy_git)"
  by (simp add: toy_git_def gb_Update_def toy_gbook_def toy_book_env_def toy_routes_def publish_def store_def Let_def)

theorem book_roundtrip_witness:
  "fst (GitGetAccount toy_book_env ''https://gitee.com/x'' [''ann'', ''secret''] toy_git) = toy_routes"
  using book_roundtrip [OF _ _ toy_book_ok _ _ _ _ _ _ toy_update, of "''[1.2.3.4]''" "''https://gitee.com/x''"]
  by (simp add: toy_book_env_def toy_gbook_def toy_routes_def)

theorem ssh_target_parsed_witness:
  "ssh_target gs_std ''root@1.2.3.4/pa/ss'' = (''root'', ''1.2.3.4:22'', ''ss'')"
  using ssh_target_parsed [of gs_std "''root''" "''1.2.3.4''" "[''pa'', ''ss'']"] by simp

end
