(* ===== verification/Local_Api.thy ===== *)
theory Local_Api
  imports Route_Book
begin

text \<open>
  The control page of the client, \<open>src/deploy/httpcontroll.go\<close>, with the tests of
  \<open>src/deploy/web_base.go\<close> and the automatic login of \<open>src/deploy/g.go\<close>.  The closure variables of
  \<open>localSetupHandler\<close>, the global client and the saved files are one state; a handler is an operation on it
  that may panic, which \<open>net/http\<close> turns into a broken answer while the state keeps what was done.  An
  answer is the list of the pages, redirects, status codes and messages written; the JSON and
  HTML texts themselves, and the directories made at the start, are left out.  Goroutines are
  tasks, in the order they were started.
\<close>

datatype amsg = MText string | MErr "goerr option" | MState string string string | MStatus bool bool bool
  | MRoutes "vps list"

datatype answer = Page string | Redirect string | Header int | Msg amsg bool

datatype later = GoChangeRoute string bool | GoChangeType string | GoConnect jval jval | GoTest | GoFirewall | GoHttpListen

record local_env =
  le_c :: client_env
  le_r :: router_env
  le_book :: book_env
  le_sort :: "(vps \<Rightarrow> vps \<Rightarrow> bool) \<Rightarrow> vps list \<Rightarrow> vps list"
  le_test :: "string \<Rightarrow> int \<times> int"
  le_dur :: "int \<Rightarrow> string"
  le_float :: "string \<Rightarrow> rat option"
  le_json :: "string \<Rightarrow> jdict"
  le_default_repo :: string
  le_now :: int

abbreviation le_gs :: "local_env \<Rightarrow> gslib" where "le_gs E \<equiv> be_gs (le_book E)"
abbreviation le_os :: "local_env \<Rightarrow> os_env" where "le_os E \<equiv> re_os (le_r E)"

record local_api =
  la_client :: "route_client option"
  la_Routes :: "vps list"
  la_cache :: "vps list"
  la_repo_uri :: string
  la_repo_passwd :: string
  la_user :: string
  la_pwd :: string
  la_last :: string
  la_proxy :: string
  la_ST :: bool
  la_auth :: "jdict option"
  la_hosts :: "vps list option"
  la_rule :: "string option"
  la_loaded :: "string list"
  la_router :: router
  la_git :: git
  la_out :: "answer list"
  la_later :: "later list"

definition LOCAL_PORT :: int where "LOCAL_PORT = 1091"

type_synonym 'a api = "(local_api, 'a) io"

subsection \<open>Steps on the state\<close>

definition Reply :: "amsg \<Rightarrow> bool \<Rightarrow> unit api" where
  "Reply m status = io_do (\<lambda>s. s\<lparr>la_out := la_out s @ [Msg m status]\<rparr>)"

definition answer :: "answer \<Rightarrow> unit api" where
  "answer a = io_do (\<lambda>s. s\<lparr>la_out := la_out s @ [a]\<rparr>)"

definition go_do :: "later \<Rightarrow> unit api" where
  "go_do t = io_do (\<lambda>s. s\<lparr>la_later := la_later s @ [t]\<rparr>)"

definition on_router :: "(router \<Rightarrow> 'a go \<times> router) \<Rightarrow> 'a api" where
  "on_router f s = (let (r, ro) = f (la_router s) in (r, s\<lparr>la_router := ro\<rparr>))"

definition ask_router :: "(router \<Rightarrow> 'a \<times> router) \<Rightarrow> 'a api" where
  "ask_router f = on_router (\<lambda>ro. let (x, ro') = f ro in (Ret x, ro'))"

text \<open>A method of the client interface: with no client the call panics.\<close>

definition on_client :: "(route_client \<Rightarrow> os \<Rightarrow> ('a \<times> route_client) go \<times> os) \<Rightarrow> 'a api" where
  "on_client f s = (case la_client s of
     None \<Rightarrow> (Panic, s)
   | Some c \<Rightarrow> (case f c (ro_os (la_router s)) of
        (Panic, w) \<Rightarrow> (Panic, s\<lparr>la_router := (la_router s)\<lparr>ro_os := w\<rparr>\<rparr>)
      | (Ret (x, c'), w) \<Rightarrow> (Ret x, s\<lparr>la_client := Some c', la_router := (la_router s)\<lparr>ro_os := w\<rparr>\<rparr>)))"

definition has_client :: "local_api \<Rightarrow> bool" where "has_client s \<longleftrightarrow> la_client s \<noteq> None"

definition c_TryClose :: "local_env \<Rightarrow> unit api" where
  "c_TryClose E = on_client (\<lambda>c w. let (c', w') = TryClose (le_os E) c w in (Ret ((), c'), w'))"

definition c_StartRoute :: "local_env \<Rightarrow> unit api" where
  "c_StartRoute E = on_client (\<lambda>c w. case StartRoute (le_os E) c w of
     (Panic, w') \<Rightarrow> (Panic, w') | (Ret c', w') \<Rightarrow> (Ret ((), c'), w'))"

definition c_ChangeRoute :: "local_env \<Rightarrow> string \<Rightarrow> bool api" where
  "c_ChangeRoute E host = on_client (ChangeRoute (le_c E) (le_os E) host)"

definition c_CheckRoute :: "local_env \<Rightarrow> bool api" where
  "c_CheckRoute E = on_client (\<lambda>c w. let (ok, w') = CheckRoute (le_os E) c w in (Ret (ok, c), w'))"

definition c_SetRouteLoc :: "string \<Rightarrow> unit api" where
  "c_SetRouteLoc loc = on_client (\<lambda>c w. (Ret ((), SetRouteLoc loc c), w))"

definition c_GetRoute :: "local_env \<Rightarrow> string api" where
  "c_GetRoute E = on_client (\<lambda>c w. (go_bind (GetRoute (le_c E) (rc_c c)) (\<lambda>h. Ret (h, c)), w))"

definition c_GetRouteLoc :: "local_env \<Rightarrow> string api" where
  "c_GetRouteLoc E = on_client (\<lambda>c w. (Ret (GetRouteLoc (ce_gs (le_c E)) (rc_c c), c), w))"

definition new_client :: "local_env \<Rightarrow> string \<Rightarrow> unit api" where
  "new_client E host = io_do (\<lambda>s. s\<lparr>la_client :=
     Some \<lparr>rc_c = NewClientControll (le_c E) host LOCAL_PORT 70 (le_now E), rc_PID = 0\<rparr>\<rparr>)"

text \<open>Writing the file of the last login.\<close>

definition save_auth :: "string \<Rightarrow> string \<Rightarrow> unit api" where
  "save_auth lst proxy = io_do (\<lambda>s. s\<lparr>la_auth := Some [(''name'', JStr (la_user s)), (''password'', JStr (la_pwd s)),
     (''last'', JStr lst), (''proxy'', JStr proxy)]\<rparr>)"

text \<open>The body of a request: unreadable, not JSON, or a non-empty dictionary.\<close>

definition Recv :: "local_env \<Rightarrow> goerr + string \<Rightarrow> goerr + jdict option" where
  "Recv E body = (case body of
     Inl e \<Rightarrow> Inl e
   | Inr buf \<Rightarrow> if buf = [] then Inr None else let d = le_json E buf in if d \<noteq> [] then Inr (Some d) else Inr None)"

text \<open>\<open>d[k].(string)\<close>: a missing key is a nil value, and the assertion on it panics.\<close>

definition str_of_key :: "jdict \<Rightarrow> string \<Rightarrow> string api" where
  "str_of_key d k = io_go (case map_of d k of None \<Rightarrow> Panic | Some v \<Rightarrow> as_string v)"

definition router_addr :: string where
  "router_addr = ''127.0.0.1:'' @ itoa LOCAL_PORT"

subsection \<open>Choosing a route\<close>

definition switch_speed :: "local_env \<Rightarrow> string \<Rightarrow> rat option" where
  "switch_speed E i = (let G = le_gs E in
     if gs_In G i ''ms'' then le_float E (gs_Replace G i ''ms'' [])
     else if gs_In G i ''s'' then map_option (\<lambda>t. t * 1000) (le_float E (gs_Replace G i ''s'' []))
     else if gs_In G i ''minute'' then map_option (\<lambda>t. t * 1000 * 60) (le_float E (gs_Replace G i ''minute'' []))
     else if gs_In G i ''hour'' then map_option (\<lambda>t. t * 1000 * 60 * 60) (le_float E (gs_Replace G i ''hour'' []))
     else Some 0)"

fun pick_scan :: "local_env \<Rightarrow> vps list \<Rightarrow> vps option \<Rightarrow> vps option" where
  "pick_scan E [] it = it"
| "pick_scan E (i # is) None = pick_scan E is (Some i)"
| "pick_scan E (i # is) (Some it) =
     pick_scan E is (case (switch_speed E (vp_Speed i), switch_speed E (vp_Speed it)) of
       (Some fi, Some fit) \<Rightarrow> if fit < fi then Some i else Some it
     | _ \<Rightarrow> Some it)"

text \<open>The function given to \<open>SetChangeRoute\<close>.\<close>

definition pick_route :: "local_env \<Rightarrow> vps list \<Rightarrow> string" where
  "pick_route E routes = (case pick_scan E routes None of None \<Rightarrow> [] | Some it \<Rightarrow> vp_Host it)"

definition Milliseconds :: "int \<Rightarrow> int" where
  "Milliseconds d = (if d < 0 then - ((- d) div 1000000) else d div 1000000)"

definition loc_of :: "local_env \<Rightarrow> vps \<Rightarrow> string" where
  "loc_of E i = vp_Location i @ '' '' @ gs_F (le_gs E) ''%4dms'' [FInt (Milliseconds (vp_ConnectedQuality i))]"

fun find_loc :: "(vps \<Rightarrow> string) \<Rightarrow> string \<Rightarrow> vps list \<Rightarrow> string \<Rightarrow> string" where
  "find_loc f lst [] loc = loc"
| "find_loc f lst (i # is) loc = find_loc f lst is (if vp_Host i = lst then f i else loc)"

fun next_scan :: "(vps \<Rightarrow> string) \<Rightarrow> string \<Rightarrow> int \<Rightarrow> vps list \<Rightarrow> int \<Rightarrow> vps option \<Rightarrow> string \<Rightarrow> vps option \<times> string" where
  "next_scan f nowhost no [] nowix oo loc = (oo, loc)"
| "next_scan f nowhost no (i # is) nowix oo loc =
     (let nowix' = (if vp_Host i = nowhost then no else nowix) in
      case oo of
        None \<Rightarrow> next_scan f nowhost (no + 1) is nowix' (Some i) loc
      | Some _ \<Rightarrow>
          if no = nowix' + 1 then next_scan f nowhost (no + 1) is nowix' (Some i) (f i)
          else next_scan f nowhost (no + 1) is nowix' oo loc)"

text \<open>The scan for the next route and what follows it; with no route at all the last step panics.\<close>

definition go_next :: "local_env \<Rightarrow> string \<Rightarrow> unit api" where
  "go_next E nowhost =
     io_bind (io_get la_Routes) (\<lambda>routes.
       let (oo, loc) = next_scan (loc_of E) nowhost 0 routes (-1) None ''unknow'' in
       io_then (c_SetRouteLoc loc)
         (case oo of
            None \<Rightarrow> io_panic
          | Some v \<Rightarrow> io_then (go_do (GoChangeRoute (vp_Host v) False))
              (io_bind (io_get la_proxy) (\<lambda>proxy.
                io_then (save_auth (vp_Host v) proxy) (Reply (MText (CHR ''!'' # vp_Host v)) True)))))"

subsection \<open>The rule page and the state of the connection\<close>

definition bad_body :: "goerr \<Rightarrow> unit api" where
  "bad_body e = io_then (answer (Header 400)) (Reply (MErr (Some e)) False)"

definition show_rule :: "unit api" where
  "show_rule = io_bind (io_get la_rule) (\<lambda>r. Reply (MText (case r of Some t \<Rightarrow> t | None \<Rightarrow> ''# no rule '')) True)"

definition z_rule :: "local_env \<Rightarrow> string \<Rightarrow> goerr + string \<Rightarrow> unit api" where
  "z_rule E method body =
     (if method = ''GET'' then answer (Page ''local.html'')
      else case Recv E body of
        Inl e \<Rightarrow> bad_body e
      | Inr od \<Rightarrow>
          let d = (case od of None \<Rightarrow> [] | Some d \<Rightarrow> d) in
          io_bind (str_of_key d ''op'') (\<lambda>op.
            if op = ''get-rule'' then show_rule
            else if op = ''set-rule'' then
              (if map_of d ''rule'' \<noteq> None then
                 io_bind (str_of_key d ''rule'') (\<lambda>rule.
                   io_then (io_do (\<lambda>s. s\<lparr>la_rule := Some rule, la_loaded := la_loaded s @ [rule]\<rparr>)) (Reply (MText rule) True))
               else show_rule)
            else io_ret ()))"

definition local_state :: "local_env \<Rightarrow> string \<Rightarrow> goerr + string \<Rightarrow> unit api" where
  "local_state E method body =
     (if method \<noteq> ''POST'' then io_ret ()
      else case Recv E body of
        Inl e \<Rightarrow> bad_body e
      | Inr od \<Rightarrow>
          io_bind (str_of_key (case od of None \<Rightarrow> [] | Some d \<Rightarrow> d) ''connected'') (\<lambda>connected.
            if connected = ''ok'' then Reply (MText ''ok'') True
            else
              io_bind (c_GetRoute E) (\<lambda>nowhost.
              io_then (c_TryClose E)
              (io_then (new_client E nowhost)
              (io_then (c_StartRoute E)
              (io_bind (io_get la_proxy) (\<lambda>proxy.
              io_then (save_auth nowhost proxy)
              (io_then (go_next E nowhost) (Reply (MText ''no'') True)))))))))"

subsection \<open>Logging in\<close>

definition opt_str :: "jdict \<Rightarrow> string \<Rightarrow> (string \<Rightarrow> unit api) \<Rightarrow> unit api" where
  "opt_str d k f = (if map_of d k \<noteq> None then io_bind (str_of_key d k) f else io_ret ())"

definition login_fields :: "jdict \<Rightarrow> unit api" where
  "login_fields d =
     io_bind (str_of_key d ''repo'') (\<lambda>r. io_then (io_do (\<lambda>s. s\<lparr>la_repo_uri := r\<rparr>))
     (io_bind (str_of_key d ''repo-password'') (\<lambda>p. io_then (io_do (\<lambda>s. s\<lparr>la_repo_passwd := p\<rparr>))
     (io_bind (str_of_key d ''name'') (\<lambda>n. io_then (io_do (\<lambda>s. s\<lparr>la_user := n\<rparr>))
     (io_bind (str_of_key d ''password'') (\<lambda>w. io_then (io_do (\<lambda>s. s\<lparr>la_pwd := w\<rparr>))
     (io_then (opt_str d ''last'' (\<lambda>l. io_do (\<lambda>s. s\<lparr>la_last := l\<rparr>)))
     (opt_str d ''proxy'' (\<lambda>x. io_do (\<lambda>s. s\<lparr>la_proxy := x\<rparr>)))))))))))"

definition pull_routes :: "local_env \<Rightarrow> vps list api" where
  "pull_routes E s =
     (if la_repo_uri s \<noteq> [] \<and> la_repo_passwd s \<noteq> [] then
        let s1 = (if \<not> gs_StartsWith (le_gs E) (la_repo_uri s) ''https://''
                  then s\<lparr>la_repo_uri := ''https://gitee.com/'' @ la_repo_uri s\<rparr> else s);
            (vs, t) = GitGetAccount (le_book E) (la_repo_uri s1) [la_user s1, la_pwd s1, la_repo_passwd s1] (la_git s1)
        in (Ret vs, s1\<lparr>la_git := t\<rparr>)
      else
        let (vs, t) = GitGetAccount (le_book E) (''https://'' @ le_default_repo E) [la_user s, la_pwd s] (la_git s)
        in (Ret vs, s\<lparr>la_git := t\<rparr>))"

definition login_loc :: "local_env \<Rightarrow> vps \<Rightarrow> string" where
  "login_loc E i = vp_Location i @ '' '' @ gs_F (le_gs E) ''%5s'' [FStr (le_dur E (vp_ConnectedQuality i))]"

definition resume_last :: "local_env \<Rightarrow> string \<Rightarrow> unit api" where
  "resume_last E lst =
     io_bind (io_get has_client) (\<lambda>has.
       if \<not> has then
         io_then (new_client E lst)
         (io_bind (io_get la_Routes) (\<lambda>routes.
           io_then (c_SetRouteLoc (find_loc (login_loc E) lst routes ''Unknow''))
           (io_then (c_StartRoute E) (io_bind (c_CheckRoute E) (\<lambda>_. io_ret ())))))
       else io_then (c_TryClose E) (go_do (GoChangeRoute lst True)))"

definition login_with :: "local_env \<Rightarrow> jdict \<Rightarrow> unit api" where
  "login_with E d =
     io_then (login_fields d)
     (io_bind (pull_routes E) (\<lambda>vpss.
        if 0 < length vpss then
          io_then (io_do (\<lambda>s. s\<lparr>la_Routes := vpss, la_cache := SetRoutes vpss (la_cache s), la_hosts := Some vpss\<rparr>))
          (io_bind (io_get la_proxy) (\<lambda>proxy.
           io_then (io_when (proxy = ''ok'') (go_do GoFirewall))
          (io_bind (io_get la_last) (\<lambda>lst.
           io_then (io_do (\<lambda>s. s\<lparr>la_auth := Some d\<rparr>))
          (io_then (go_do GoTest)
          (io_then (io_when (lst \<noteq> [] \<and> list_ex (\<lambda>i. vp_Host i = lst) vpss) (resume_last E lst))
            (Reply (MText ''Login Success!'') True)))))))
        else io_then (answer (Header 400)) (Reply (MText []) False)))"

definition z_login :: "local_env \<Rightarrow> string \<Rightarrow> goerr + string \<Rightarrow> unit api" where
  "z_login E method body =
     (if method = ''GET'' then answer (Page ''login.html'')
      else case Recv E body of
        Inl e \<Rightarrow> bad_body e
      | Inr None \<Rightarrow> io_then (answer (Header 400)) (Reply (MErr None) False)
      | Inr (Some d) \<Rightarrow> login_with E d)"

subsection \<open>The router switch\<close>

definition known_user :: "local_api \<Rightarrow> bool" where
  "known_user s \<longleftrightarrow> la_user s \<noteq> [] \<and> la_pwd s \<noteq> [] \<and> la_last s \<noteq> []"

definition save_if_known :: "string \<Rightarrow> unit api" where
  "save_if_known proxy = io_bind (io_get (\<lambda>s. (known_user s, la_last s))) (\<lambda>(known, lst). io_when known (save_auth lst proxy))"

definition stop_router :: "local_env \<Rightarrow> unit api" where
  "stop_router E = io_then (ask_router (\<lambda>r. ((), StopFirewall (le_r E) r))) (io_do (\<lambda>s. s\<lparr>la_proxy := []\<rparr>))"

definition start_router :: "local_env \<Rightarrow> unit api" where
  "start_router E = on_router (StartFireWall (le_r E) router_addr)"

definition toggle :: "local_env \<Rightarrow> unit api" where
  "toggle E = io_bind (io_get la_ST) (\<lambda>st.
     if st then
       io_then (stop_router E)
       (io_then (Reply (MText ''stop'') True)
       (io_then (save_if_known []) (io_do (\<lambda>s. s\<lparr>la_ST := False\<rparr>))))
     else
       io_then (start_router E)
       (io_then (io_do (\<lambda>s. s\<lparr>la_ST := True\<rparr>))
       (io_bind (io_get has_client) (\<lambda>has.
          if has then io_bind (c_GetRoute E) (\<lambda>h. Reply (MText (CHR ''>'' # h)) True)
          else Reply (MText ''> no host '') True))))"

definition z_route_op :: "local_env \<Rightarrow> string \<Rightarrow> unit api" where
  "z_route_op E op =
     (if op = ''open/close'' then toggle E
      else if op = ''start'' then
        (if IsRouter (le_os E) then
           io_then (start_router E) (io_then (save_if_known ''ok'') (Reply (MText ''start'') True))
         else
           io_bind (ask_router (IfOpenGloabl (le_r E))) (\<lambda>on.
             io_then (io_when (\<not> on) (ask_router (\<lambda>r. ((), SetGloabl (le_r E) LOCAL_PORT r))))
               (Reply (MText ''start'') True)))
      else if op = ''check'' then
        io_bind (on_router (CheckStatus (le_r E))) (\<lambda>(can, ifstart, status).
          Reply (MStatus (if IsRouter (le_os E) then can else False) ifstart status) True)
      else if op = ''stop'' then
        (if IsRouter (le_os E) then
           io_then (stop_router E) (io_then (save_if_known []) (Reply (MText ''stop'') True))
         else io_then (ask_router (\<lambda>r. ((), SetGloablOff (le_r E) r))) (Reply (MText ''stop'') True))
      else Reply (MText ''err'') False)"

text \<open>A handler behind the login: with no routes it only redirects.\<close>

definition behind_login :: "local_env \<Rightarrow> goerr + string \<Rightarrow> (jdict \<Rightarrow> unit api) \<Rightarrow> unit api" where
  "behind_login E body h =
     io_bind (io_get la_Routes) (\<lambda>routes.
       if length routes = 0 then answer (Redirect ''/z-login'')
       else case Recv E body of
         Inl e \<Rightarrow> bad_body e
       | Inr None \<Rightarrow> Reply (MText ''alive'') True
       | Inr (Some d) \<Rightarrow> h d)"

definition op_of :: "jdict \<Rightarrow> string" where
  "op_of d = (case map_of d ''op'' of Some (JStr op) \<Rightarrow> op | _ \<Rightarrow> [])"

definition z_route :: "local_env \<Rightarrow> goerr + string \<Rightarrow> unit api" where
  "z_route E body = behind_login E body (\<lambda>d. z_route_op E (op_of d))"

subsection \<open>The operations of the page\<close>

definition present :: "jdict \<Rightarrow> string \<Rightarrow> bool" where
  "present d k \<longleftrightarrow> (case map_of d k of None \<Rightarrow> False | Some v \<Rightarrow> v \<noteq> JNull)"

definition darwin_exec :: "local_env \<Rightarrow> string \<Rightarrow> unit api" where
  "darwin_exec E cmd = ask_router (\<lambda>r. ((), snd (gs_exec (le_r E) cmd r)))"

text \<open>\<open>global_mode.go\<close>; the Windows build is left out.\<close>

definition SetGlobalMode :: "local_env \<Rightarrow> int \<Rightarrow> unit api" where
  "SetGlobalMode E i = io_when (oe_GOOS (le_os E) = ''darwin'')
     (io_then (darwin_exec E (gs_F (le_gs E) ''networksetup -setsocksfirewallproxy wi-fi 127.0.0.1 %d'' [FInt i]))
       (darwin_exec E ''networksetup -setsocksfirewallproxystate wi-fi on''))"

definition SetGlobalModeOff :: "local_env \<Rightarrow> unit api" where
  "SetGlobalModeOff E = io_when (oe_GOOS (le_os E) = ''darwin'')
     (darwin_exec E ''networksetup -setsocksfirewallproxystate wi-fi off'')"

definition api_connect :: "jdict \<Rightarrow> unit api" where
  "api_connect d =
     (if present d ''user'' \<and> present d ''pwd'' then
        io_then (go_do (GoConnect (the (map_of d ''user'')) (the (map_of d ''pwd'')))) (Reply (MText ''ok'') True)
      else Reply (MText ''err'') False)"

definition api_change :: "jdict \<Rightarrow> unit api" where
  "api_change d =
     (if map_of d ''proxy-type'' \<noteq> None then
        io_bind (io_get has_client) (\<lambda>has.
          if \<not> has then io_panic
          else io_bind (str_of_key d ''proxy-type'') (\<lambda>tp.
            io_then (go_do (GoChangeType tp)) (Reply (MText (''change proxy :'' @ tp)) True)))
      else Reply (MText ''faled'') False)"

definition api_global :: "local_env \<Rightarrow> jdict \<Rightarrow> unit api" where
  "api_global E d =
     (if present d ''state'' then
        io_then
          (case map_of d ''state'' of
             Some (JStr st) \<Rightarrow>
               if st = ''on'' \<or> st = ''start'' then
                 io_bind (on_client (\<lambda>c w. (Ret (fst (GetListenPort 0 (rc_c c)), c), w))) (\<lambda>sport. SetGlobalMode E sport)
               else SetGlobalModeOff E
           | _ \<Rightarrow> io_ret ())
          (Reply (MText ''ok'') True)
      else Reply (MText ''failed'') False)"

definition switch_to :: "local_env \<Rightarrow> string \<Rightarrow> unit api" where
  "switch_to E host =
     io_bind (io_get (\<lambda>s. (has_client s, la_Routes s, la_proxy s))) (\<lambda>(has, routes, proxy).
       let loc = find_loc (loc_of E) host routes ''Unknow'' in
       io_then
         (if \<not> has then
            io_then (new_client E host)
            (io_then (io_do (\<lambda>s. s\<lparr>la_last := host\<rparr>))
            (io_then (save_auth host proxy)
            (io_then (c_SetRouteLoc loc) (c_StartRoute E))))
          else
            io_then (c_TryClose E)
            (io_then (io_do (\<lambda>s. s\<lparr>la_last := host\<rparr>))
            (io_then (c_SetRouteLoc loc)
            (io_then (io_bind (c_ChangeRoute E host) (\<lambda>_. io_ret ())) (save_auth host proxy)))))
         (Reply (MText ''ok'') True))"

definition switch_next :: "local_env \<Rightarrow> unit api" where
  "switch_next E =
     io_bind (io_get (\<lambda>s. (has_client s, la_Routes s, la_proxy s))) (\<lambda>(has, routes, proxy).
       if has then io_then (c_TryClose E) (io_bind (c_GetRoute E) (go_next E))
       else case routes of
         [] \<Rightarrow> io_panic
       | r # _ \<Rightarrow>
           io_then (new_client E (vp_Host r))
           (io_then (io_when (\<not> IsRouter (le_os E)) (go_do GoHttpListen))
           (io_then (c_StartRoute E)
           (io_then (save_auth (vp_Host r) proxy) (Reply (MText (CHR ''!'' # vp_Host r)) True)))))"

definition api_switch :: "local_env \<Rightarrow> jdict \<Rightarrow> unit api" where
  "api_switch E d =
     io_bind (io_get la_client) (\<lambda>oc.
       if (case oc of Some c \<Rightarrow> \<not> IfRunning c | None \<Rightarrow> False) then Reply (MText ''wait ...'') False
       else if present d ''host'' then io_bind (str_of_key d ''host'') (switch_to E)
       else switch_next E)"

definition api_check :: "local_env \<Rightarrow> unit api" where
  "api_check E =
     io_bind (io_get (\<lambda>s. (has_client s, la_ST s))) (\<lambda>(has, st).
       if \<not> has then Reply (MState [] ''China-no-login'' ''login first!'') True
       else if IsRouter (le_os E) \<and> \<not> st then
         io_bind (c_GetRoute E) (\<lambda>h. Reply (MState [] ''China'' h) True)
       else
         io_bind (c_GetRouteLoc E) (\<lambda>loc. io_bind (c_GetRoute E) (\<lambda>h.
           Reply (MState (if IsRouter (le_os E) then ''route'' else ''normal'') loc h) True)))"

definition z_api_op :: "local_env \<Rightarrow> string \<Rightarrow> jdict \<Rightarrow> unit api" where
  "z_api_op E op d =
     (if op = ''connect'' then api_connect d
      else if op = ''change'' then api_change d
      else if op = ''global'' then api_global E d
      else if op = ''switch'' then api_switch E d
      else if op = ''check'' then api_check E
      else if op = ''test'' then io_bind (io_get la_Routes) (\<lambda>r. Reply (MRoutes r) True)
      else Reply (MText ''err'') False)"

definition z_api :: "local_env \<Rightarrow> goerr + string \<Rightarrow> unit api" where
  "z_api E body = behind_login E body (\<lambda>d. z_api_op E (op_of d) d)"

definition old_page :: "string \<Rightarrow> unit api" where
  "old_page method = io_bind (io_get la_Routes) (\<lambda>routes.
     if length routes = 0 then answer (Redirect ''/z-login'')
     else io_when (method = ''GET'') (answer (Page ''map.html'')))"

definition AuthCheck :: "bool api" where
  "AuthCheck = io_bind (io_get la_Routes) (\<lambda>routes.
     if length routes = 0 then io_then (answer (Redirect ''/z-login'')) (io_ret False) else io_ret True)"

definition LogOut :: "unit api" where
  "LogOut = io_do (\<lambda>s. s\<lparr>la_Routes := []\<rparr>)"


subsection \<open>Goroutines and timers\<close>

text \<open>
  The tasks that work on the modelled state; a panic in one of them ends the process.  \<open>GoChangeType\<close> is \<open>ChangeProxyType\<close> of \<open>Client_Repair\<close>, \<open>GoHttpListen\<close>
  the proxy of \<open>Client_Routing\<close>; neither touches this state.  The entries of the cache keep the measures of their login.
\<close>

definition go_change_route :: "local_env \<Rightarrow> string \<Rightarrow> bool \<Rightarrow> unit api" where
  "go_change_route E host report =
     io_bind (c_ChangeRoute E host) (\<lambda>ok. io_when (report \<and> \<not> ok) (c_SetRouteLoc ''this is break, try next !!!''))"

definition go_connect :: "local_env \<Rightarrow> jval \<Rightarrow> jval \<Rightarrow> unit api" where
  "go_connect E user pwd =
     io_bind (io_go (as_string user)) (\<lambda>u. io_bind (io_go (as_string pwd)) (\<lambda>p.
       io_do (\<lambda>s. let (vs, t) = GitGetAccount (le_book E) (''https://'' @ le_default_repo E) [u, p] (la_git s) in
         if 0 < length vs then s\<lparr>la_git := t, la_Routes := vs\<rparr> else s\<lparr>la_git := t\<rparr>)))"

definition go_firewall :: "local_env \<Rightarrow> unit api" where
  "go_firewall E = io_then (ask_router (\<lambda>r. ((), StopFirewall (le_r E) r))) (start_router E)"

text \<open>A started task; the routes that were measured stay in their order.\<close>

fun run_task :: "local_env \<Rightarrow> later \<Rightarrow> unit api" where
  "run_task E (GoChangeRoute host report) = go_change_route E host report"
| "run_task E (GoConnect user pwd) = go_connect E user pwd"
| "run_task E GoFirewall = go_firewall E"
| "run_task E GoTest = io_do (\<lambda>s. s\<lparr>la_Routes := map (vps_Test (le_test E) (le_dur E)) (la_Routes s)\<rparr>)"
| "run_task E _ = io_ret ()"

definition run_tasks :: "local_env \<Rightarrow> unit api" where
  "run_tasks E = io_bind (io_get la_later) (\<lambda>ts.
     io_then (io_do (\<lambda>s. s\<lparr>la_later := []\<rparr>)) (io_seq (map (run_task E) ts)))"

fun loc_tick :: "local_env \<Rightarrow> vps list \<Rightarrow> unit api" where
  "loc_tick E [] = io_ret ()"
| "loc_tick E (i # is) =
     io_then
       (io_bind (io_get has_client) (\<lambda>has.
          if has then io_bind (c_GetRoute E) (\<lambda>h. io_when (vp_Host i = h) (c_SetRouteLoc (loc_of E i)))
          else io_ret ()))
       (loc_tick E is)"

definition test_tick :: "local_env \<Rightarrow> unit api" where
  "test_tick E = io_bind (io_get la_Routes) (\<lambda>routes.
     if 0 < length routes then
       let tested = TestRoutes (le_sort E) (le_test E) (le_dur E) routes in
       io_then (io_do (\<lambda>s. s\<lparr>la_Routes := tested\<rparr>)) (loc_tick E tested)
     else io_ret ())"

definition dns_tick :: "local_env \<Rightarrow> unit api" where
  "dns_tick E = io_bind (ask_router (IsStartRouteMode (le_r E))) (\<lambda>on.
     if on then
       io_bind (ask_router (IsRedsocksRunning (le_r E))) (\<lambda>running.
       io_then (io_when (\<not> running) (on_router (RestartRouterMode (le_r E))))
       (io_bind (ask_router (IsRouteRedirectOk (le_r E))) (\<lambda>ok.
         io_when (\<not> ok) (on_router (RestartRouterMode (le_r E))))))
     else io_ret ())"

definition setup_ST :: "local_env \<Rightarrow> unit api" where
  "setup_ST E =
     io_then (io_when (IsRouter (le_os E)) (io_then (start_router E) (io_do (\<lambda>s. s\<lparr>la_ST := True\<rparr>))))
     (io_bind (ask_router (IsOpen (le_r E))) (\<lambda>open'. io_when open' (io_do (\<lambda>s. s\<lparr>la_ST := True\<rparr>))))"

subsection \<open>The automatic login\<close>

record auto =
  au_name :: string
  au_pwd :: string
  au_con :: bool
  au_last :: string
  au_proxy :: string

text \<open>What the saved file gives: it is decoded as a dictionary of strings, any other value is an error.\<close>

definition str_at :: "jdict \<Rightarrow> string \<Rightarrow> string option" where
  "str_at e k = (case map_of e k of Some (JStr v) \<Rightarrow> Some v | _ \<Rightarrow> None)"

definition auto_saved :: "jdict \<Rightarrow> auto option" where
  "auto_saved e =
     (if list_ex (\<lambda>(k, v). case v of JStr _ \<Rightarrow> False | _ \<Rightarrow> True) e then None
      else let get = (\<lambda>k. case str_at e k of Some v \<Rightarrow> v | None \<Rightarrow> []);
               con = (str_at e ''name'' \<noteq> None \<and> str_at e ''password'' \<noteq> None) in
        Some \<lparr>au_name = get ''name'', au_pwd = (if str_at e ''name'' \<noteq> None then get ''password'' else []), au_con = con,
          au_last = (if con then get ''last'' else []), au_proxy = (if con then get ''proxy'' else [])\<rparr>)"

definition auto_body :: "auto \<Rightarrow> jdict" where
  "auto_body a = [(''name'', JStr (au_name a)), (''password'', JStr (au_pwd a)), (''last'', JStr (au_last a)),
     (''proxy'', JStr (au_proxy a))]"

text \<open>One request to the page: whether the answer has the text of success.\<close>

definition auto_post :: "local_env \<Rightarrow> auto \<Rightarrow> local_api \<Rightarrow> bool \<times> local_api" where
  "auto_post E a s = (case login_with E (auto_body a) (s\<lparr>la_out := []\<rparr>) of
     (Panic, s') \<Rightarrow> (False, s')
   | (Ret _, s') \<Rightarrow> (Msg (MText ''Login Success!'') True \<in> set (la_out s'), s'))"

definition auto_round :: "local_env \<Rightarrow> auto \<Rightarrow> local_api \<Rightarrow> bool \<times> local_api" where
  "auto_round E a s =
     (let (ok, s1) = (if \<not> au_con a \<or> au_last a \<noteq> [] then auto_post E a s else (False, s)) in
      if ok then (True, s1) else (False, s1\<lparr>la_auth := Some (auto_body a)\<rparr>))"

partial_function (option) AutoLogin :: "local_env \<Rightarrow> auto \<Rightarrow> local_api \<Rightarrow> local_api option" where
  "AutoLogin E a s = (let (ok, s1) = auto_round E a s in if ok then Some s1 else AutoLogin E a s1)"

lemma login_without_repo: "map_of d ''repo'' = None \<Longrightarrow> login_with E d s = (Panic, s)"
  by (simp add: login_with_def login_fields_def str_of_key_def io_then_def io_bind_def io_go_def)

lemma auto_round_fails: "\<not> fst (auto_round E a s)"
  using login_without_repo [of "auto_body a" E "s\<lparr>la_out := []\<rparr>"]
  by (simp add: auto_round_def auto_post_def auto_body_def)

text \<open>
  The automatic login never ends: the request it sends has no \<open>repo\<close>, on which the page's handler
  panics, so no round succeeds, whatever was saved and however long the page runs.
\<close>

theorem auto_login_never_ends: "AutoLogin E a s = None"
proof -
  have "False" if run: "AutoLogin E a s = Some r" for r
  proof (rule AutoLogin.raw_induct [OF _ run, of "\<lambda>_ _ _ _. False"], goal_cases)
    case (1 f E a s r)
    then show ?case using auto_round_fails [of E a s] by (auto simp: Let_def split: prod.splits if_splits)
  qed
  then show ?thesis by (metis option.exhaust)
qed


subsection \<open>Before the login\<close>

lemma behind_login_in:
  assumes "la_Routes s \<noteq> []" "Recv E body = Inr (Some d)"
  shows "behind_login E body h s = h d s"
  using assms by (simp add: behind_login_def)

text \<open>
  As long as nobody has logged in, the switch of the router and every operation of the page only
  redirect to the login: whatever the request, the client, the router and the files stay as they
  are.
\<close>

theorem nothing_before_login:
  assumes "la_Routes s = []" "h \<in> {z_api E body, z_route E body}"
  shows "h s = (Ret (), s\<lparr>la_out := la_out s @ [Redirect ''/z-login'']\<rparr>)"
  using assms by (auto simp: z_api_def z_route_def behind_login_def answer_def)

subsection \<open>The chosen route\<close>

lemma pick_scan_slowest:
  assumes "\<forall>u \<in> set (it # is). switch_speed E (vp_Speed u) \<noteq> None"
  shows "\<exists>v \<in> set (it # is). pick_scan E is (Some it) = Some v \<and>
    (\<forall>u \<in> set (it # is). the (switch_speed E (vp_Speed u)) \<le> the (switch_speed E (vp_Speed v)))"
  using assms
proof (induction "is" arbitrary: it)
  case (Cons i "is")
  obtain fi fit where f: "switch_speed E (vp_Speed i) = Some fi" "switch_speed E (vp_Speed it) = Some fit" using Cons.prems by auto
  define m where "m = (if fit < fi then i else it)"
  have m: "m \<in> {i, it}" "fi \<le> the (switch_speed E (vp_Speed m))" "fit \<le> the (switch_speed E (vp_Speed m))"
    using f by (auto simp: m_def)
  have "pick_scan E (i # is) (Some it) = pick_scan E is (Some m)" using f by (simp add: m_def)
  moreover have "\<forall>u \<in> set (m # is). switch_speed E (vp_Speed u) \<noteq> None" using Cons.prems m(1) by auto
  then obtain v where v: "v \<in> set (m # is)" "pick_scan E is (Some m) = Some v"
    "\<forall>u \<in> set (m # is). the (switch_speed E (vp_Speed u)) \<le> the (switch_speed E (vp_Speed v))"
    using Cons.IH [of m] by blast
  moreover have "v \<in> set (it # i # is)" using v(1) m(1) by auto
  moreover have "\<forall>u \<in> set (it # i # is). the (switch_speed E (vp_Speed u)) \<le> the (switch_speed E (vp_Speed v))"
    using v(3) m f by (auto intro: order_trans)
  ultimately show ?case by auto
qed simp

text \<open>
  The function that is to give the client its next route chooses the slowest one: of all
  routes whose measured time can be read, that with the largest.
\<close>

theorem slowest_route_chosen:
  assumes "routes \<noteq> []" "\<And>u. u \<in> set routes \<Longrightarrow> switch_speed E (vp_Speed u) \<noteq> None"
  shows "\<exists>v \<in> set routes. pick_route E routes = vp_Host v \<and>
    (\<forall>u \<in> set routes. the (switch_speed E (vp_Speed u)) \<le> the (switch_speed E (vp_Speed v)))"
proof -
  obtain it "is" where r: "routes = it # is" using assms(1) by (cases routes) auto
  then obtain v where "v \<in> set routes" "pick_scan E is (Some it) = Some v"
    "\<forall>u \<in> set routes. the (switch_speed E (vp_Speed u)) \<le> the (switch_speed E (vp_Speed v))"
    using pick_scan_slowest [of it "is" E] assms(2) by blast
  then show ?thesis using r by (intro bexI [of _ v]) (simp_all add: pick_route_def)
qed

subsection \<open>The next route\<close>

lemma distinct_hd_nth: "distinct (map f (x # xs)) \<Longrightarrow> k < length xs \<Longrightarrow> f (xs ! k) \<noteq> f x"
  by (metis distinct.simps(2) length_map list.simps(9) nth_map nth_mem)

lemma next_scan_done:
  "vp_Host ` set xs \<subseteq> - {h} \<Longrightarrow> nowix + 1 < no \<Longrightarrow> next_scan f h no xs nowix (Some o') loc = (Some o', loc)"
  by (induction xs arbitrary: no) (auto simp: Let_def)

lemma next_scan_found:
  "distinct (map vp_Host (x # xs)) \<Longrightarrow> vp_Host x = h \<Longrightarrow>
    fst (next_scan f h (no + 1) xs no (Some o') loc) = (case xs of [] \<Rightarrow> Some o' | y # _ \<Rightarrow> Some y)"
proof (cases xs)
  case (Cons y ys)
  assume "distinct (map vp_Host (x # xs))" "vp_Host x = h"
  then have "vp_Host y \<noteq> h" "vp_Host ` set ys \<subseteq> - {h}" using Cons by auto
  then show ?thesis using next_scan_done [of ys h no "2 + no"] Cons by (simp add: Let_def)
qed simp

lemma next_scan_later:
  assumes "distinct (map vp_Host xs)" "j < length xs" "0 < no"
  shows "fst (next_scan f (vp_Host (xs ! j)) no xs (-1) (Some o') loc) =
    (if j + 1 < length xs then Some (xs ! (j + 1)) else Some o')"
  using assms
proof (induction xs arbitrary: j no)
  case (Cons x xs)
  show ?case
  proof (cases j)
    case 0
    then show ?thesis using next_scan_found [OF Cons.prems(1), of "vp_Host x" f no o' loc] Cons.prems(3)
      by (cases xs) (simp_all add: Let_def)
  next
    case (Suc k)
    then have "vp_Host (xs ! k) \<noteq> vp_Host x" using distinct_hd_nth [OF Cons.prems(1)] Cons.prems(2) by simp
    then show ?thesis using Cons.IH [of k "no + 1"] Cons.prems Suc by (simp add: Let_def)
  qed
qed simp

lemma next_scan_cyclic:
  assumes "distinct (map vp_Host rs)" "i < length rs"
  shows "fst (next_scan f (vp_Host (rs ! i)) 0 rs (-1) None loc) = Some (rs ! ((i + 1) mod length rs))"
proof (cases rs)
  case (Cons x xs)
  show ?thesis
  proof (cases i)
    case 0
    then show ?thesis using next_scan_found [of x xs "vp_Host x" f 0 x loc] assms Cons
      by (cases xs) (simp_all add: Let_def)
  next
    case (Suc k)
    then have k: "k < length xs" using assms(2) Cons by simp
    then have "vp_Host (xs ! k) \<noteq> vp_Host x" using distinct_hd_nth [of vp_Host x xs k] assms(1) Cons by simp
    then have "fst (next_scan f (vp_Host (rs ! i)) 0 rs (-1) None loc) =
        (if k + 1 < length xs then Some (xs ! (k + 1)) else Some x)"
      using next_scan_later [of xs k 1 f x loc] assms Cons Suc k by (simp add: Let_def)
    then show ?thesis using Cons Suc k by (auto simp: not_less le_Suc_eq)
  qed
qed (use assms in simp)

subsection \<open>Switching in turn\<close>

text \<open>A machine on which every process starts and \<open>ps\<close> always prints something for it.\<close>

definition visible :: "os_env \<Rightarrow> bool" where
  "visible D \<longleftrightarrow> (\<forall>n args. gs_Trim (oe_gs D) (oe_out D n args) \<noteq> []) \<and> (\<forall>n args. oe_pid D n args \<noteq> None)"

lemma visible_check: "visible D \<Longrightarrow> \<exists>w'. CheckProcess D key w = (True, w')"
  by (simp add: visible_def CheckProcess_def Exec_def Let_def)

lemma visible_TryClose:
  assumes "visible D"
  shows "\<exists>w'. TryClose D c w = (c\<lparr>rc_c := (rc_c c)\<lparr>cl_closeFlag := True, cl_Loc := ''Closing...''\<rparr>\<rparr>, w')"
proof -
  obtain w' where "CheckProcess D (cl_Addr (rc_c c)) (KillProcess D (rc_PID c) w) = (True, w')" using visible_check [OF assms] by blast
  then show ?thesis by (simp add: TryClose_def CloseRoute_def SetRouteLoc_def Let_def)
qed

lemma visible_StartRoute:
  assumes "visible D"
  shows "\<exists>p w'. StartRoute D c w = (Ret (c\<lparr>rc_PID := p, rc_c := (rc_c c)\<lparr>cl_IsRunning := True\<rparr>\<rparr>), w')"
proof -
  obtain pid w1 where g: "GetProcessPID D [oe_self D, ''-H''] w = (pid, w1)" by (cases "GetProcessPID D [oe_self D, ''-H''] w")
  define w2 where "w2 = (if 0 < pid then KillProcess D pid w1 else w1)"
  obtain p where "oe_pid D (length (os_ran w2)) (shell_args D (route_cmd D (rc_c c))) = Some p"
    using assms unfolding visible_def by (metis not_None_eq)
  then obtain w3 where b: "ExecBackgroud D (route_cmd D (rc_c c)) w2 = (Ret p, w3)" by (simp add: ExecBackgroud_def Let_def)
  obtain w4 where "CheckRoute D (c\<lparr>rc_PID := p\<rparr>) w3 = (True, w4)" using visible_check [OF assms] by (auto simp: CheckRoute_def)
  then show ?thesis using g b by (auto simp: StartRoute_def Let_def w2_def [symmetric] set_running_def)
qed

lemma visible_ChangeRoute:
  assumes "visible D"
  shows "\<exists>c' w'. ChangeRoute C D host c w = (Ret (True, c'), w') \<and> cl_Addr (rc_c c') = Wrap C host \<and> IfRunning c'"
proof -
  obtain b c1 w1 where cl: "CloseRoute D c w = (b, c1, w1)" by (cases "CloseRoute D c w") auto
  define c3 where "c3 = (if b then c1\<lparr>rc_PID := 0\<rparr> else c1)\<lparr>rc_c := (rc_c (if b then c1\<lparr>rc_PID := 0\<rparr> else c1))\<lparr>cl_Addr := Wrap C host\<rparr>\<rparr>"
  obtain p w2 where st: "StartRoute D c3 w1 = (Ret (c3\<lparr>rc_PID := p, rc_c := (rc_c c3)\<lparr>cl_IsRunning := True\<rparr>\<rparr>), w2)"
    using visible_StartRoute [OF assms] by blast
  obtain w3 where "CheckRoute D (c3\<lparr>rc_PID := p, rc_c := (rc_c c3)\<lparr>cl_IsRunning := True\<rparr>\<rparr>) w2 = (True, w3)"
    using visible_check [OF assms] by (auto simp: CheckRoute_def)
  then show ?thesis using cl st by (simp add: ChangeRoute_def Let_def c3_def [symmetric] IfRunning_def) (simp add: c3_def)
qed

text \<open>The client runs the \<open>i\<close>-th route.\<close>

definition on_route :: "local_env \<Rightarrow> nat \<Rightarrow> local_api \<Rightarrow> bool" where
  "on_route E i s \<longleftrightarrow> i < length (la_Routes s) \<and>
     (\<exists>c. la_client s = Some c \<and> cl_Addr (rc_c c) = Wrap (le_c E) (vp_Host (la_Routes s ! i)) \<and> IfRunning c)"

definition routes_ok :: "local_env \<Rightarrow> vps list \<Rightarrow> bool" where
  "routes_ok E rs \<longleftrightarrow> distinct (map vp_Host rs) \<and> (\<forall>v \<in> set rs. plain_host (le_c E) (vp_Host v))"

text \<open>A request for the next route, and the goroutine it starts.\<close>

definition next_switch :: "local_env \<Rightarrow> goerr + string \<Rightarrow> unit api" where
  "next_switch E body = io_then (z_api E body) (run_tasks E)"

lemma switch_next_step:
  assumes "visible (le_os E)" "gs_in_ok (ce_gs (le_c E))" "gs_split_ok (ce_gs (le_c E))"
    and "Recv E body = Inr (Some d)" "op_of d = ''switch''" "\<not> present d ''host''"
    and "routes_ok E (la_Routes s)" "on_route E i s" "la_later s = []"
  shows "\<exists>s'. next_switch E body s = (Ret (), s') \<and> la_Routes s' = la_Routes s \<and> la_later s' = [] \<and>
    on_route E ((i + 1) mod length (la_Routes s)) s' \<and> la_last s' = la_last s \<and> la_user s' = la_user s \<and> la_pwd s' = la_pwd s"
proof -
  let ?rs = "la_Routes s" and ?n = "length (la_Routes s)"
  let ?v = "?rs ! ((i + 1) mod ?n)"
  obtain c where c: "la_client s = Some c" "cl_Addr (rc_c c) = Wrap (le_c E) (vp_Host (?rs ! i))" "IfRunning c" and i: "i < ?n"
    using assms(8) by (auto simp: on_route_def)
  have ne: "?rs \<noteq> []" using i by auto
  obtain w1 where close: "TryClose (le_os E) c (ro_os (la_router s)) =
      (c\<lparr>rc_c := (rc_c c)\<lparr>cl_closeFlag := True, cl_Loc := ''Closing...''\<rparr>\<rparr>, w1)"
    using visible_TryClose [OF assms(1)] by blast
  define c1 where "c1 = c\<lparr>rc_c := (rc_c c)\<lparr>cl_closeFlag := True, cl_Loc := ''Closing...''\<rparr>\<rparr>"
  have "plain_host (le_c E) (vp_Host (?rs ! i))" using assms(7) i by (simp add: routes_ok_def)
  then have route: "GetRoute (le_c E) (rc_c c1) = Ret (vp_Host (?rs ! i))"
    using GetRoute_Wrap [OF assms(2,3), of "vp_Host (?rs ! i)" "rc_c c1"] c(2) by (simp add: c1_def)
  obtain loc where scan: "next_scan (loc_of E) (vp_Host (?rs ! i)) 0 ?rs (-1) None ''unknow'' = (Some ?v, loc)"
    using next_scan_cyclic [OF _ i, of "loc_of E" "''unknow''"] assms(7)
    by (cases "next_scan (loc_of E) (vp_Host (?rs ! i)) 0 ?rs (-1) None ''unknow''") (auto simp: routes_ok_def)
  define s1 where "s1 = s\<lparr>la_client := Some c1, la_router := (la_router s)\<lparr>ro_os := w1\<rparr>\<rparr>"
  define s2 where "s2 = s1\<lparr>la_client := Some (SetRouteLoc loc c1), la_later := [GoChangeRoute (vp_Host ?v) False],
    la_auth := Some [(''name'', JStr (la_user s)), (''password'', JStr (la_pwd s)), (''last'', JStr (vp_Host ?v)), (''proxy'', JStr (la_proxy s))],
    la_out := la_out s @ [Msg (MText (CHR ''!'' # vp_Host ?v)) True]\<rparr>"
  have "z_api E body s = switch_next E s"
    using behind_login_in [OF ne assms(4)] assms(5,6) c(1,3)
    by (simp add: z_api_def z_api_op_def api_switch_def)
  also have "\<dots> = go_next E (vp_Host (?rs ! i)) s1"
    using c(1) close route
    by (simp add: switch_next_def has_client_def c_TryClose_def c_GetRoute_def io_then_def io_bind_def on_client_def
        c1_def [symmetric] s1_def [symmetric]) (simp add: s1_def)
  also have "\<dots> = (Ret (), s2)"
    using scan c1_def by (simp add: go_next_def s1_def s2_def io_then_def io_bind_def c_SetRouteLoc_def on_client_def go_do_def
        save_auth_def Reply_def assms(9))
  finally have api: "z_api E body s = (Ret (), s2)" .
  obtain c' w' where ch: "ChangeRoute (le_c E) (le_os E) (vp_Host ?v) (SetRouteLoc loc c1) w1 = (Ret (True, c'), w')"
    "cl_Addr (rc_c c') = Wrap (le_c E) (vp_Host ?v)" "IfRunning c'"
    using visible_ChangeRoute [OF assms(1)] by blast
  define s3 where "s3 = s2\<lparr>la_later := [], la_client := Some c', la_router := (la_router s)\<lparr>ro_os := w'\<rparr>\<rparr>"
  have "next_switch E body s = run_tasks E s2" using api by (simp add: next_switch_def io_then_Ret)
  also have "\<dots> = (Ret (), s3)"
    using ch(1) by (simp add: run_tasks_def s2_def s1_def s3_def go_change_route_def c_ChangeRoute_def on_client_def
        io_then_def io_bind_def io_when_def)
  finally show ?thesis using ch(2,3) ne by (simp add: s3_def s2_def s1_def on_route_def)
qed

text \<open>
  Asking for the next route again and again goes through the routes in turn: after \<open>k\<close> requests
  without a host, each followed by its goroutine, the client runs the route \<open>k\<close> places further,
  around the end of the list, and this is the route shown.
\<close>

theorem switch_round_robin:
  assumes "visible (le_os E)" "gs_in_ok (ce_gs (le_c E))" "gs_split_ok (ce_gs (le_c E))"
    and "Recv E body = Inr (Some d)" "op_of d = ''switch''" "\<not> present d ''host''"
    and "routes_ok E (la_Routes s)" "on_route E i s" "la_later s = []"
  shows "\<exists>s' c. io_seq (replicate k (next_switch E body)) s = (Ret (), s') \<and> la_client s' = Some c \<and>
    GetRoute (le_c E) (rc_c c) = Ret (vp_Host (la_Routes s ! ((i + k) mod length (la_Routes s))))"
proof -
  have "\<exists>s'. io_seq (replicate k (next_switch E body)) s = (Ret (), s') \<and> la_Routes s' = la_Routes s \<and> la_later s' = [] \<and>
      on_route E ((i + k) mod length (la_Routes s)) s'"
  proof (induction k)
    case 0
    have "i mod length (la_Routes s) = i" using assms(8) by (simp add: on_route_def)
    then show ?case using assms(8,9) by simp
  next
    case (Suc k)
    then obtain s1 where s1: "io_seq (replicate k (next_switch E body)) s = (Ret (), s1)" "la_Routes s1 = la_Routes s"
      "la_later s1 = []" "on_route E ((i + k) mod length (la_Routes s)) s1" by blast
    obtain s2 where s2: "next_switch E body s1 = (Ret (), s2)" "la_Routes s2 = la_Routes s" "la_later s2 = []"
      "on_route E (((i + k) mod length (la_Routes s) + 1) mod length (la_Routes s)) s2"
      using switch_next_step [OF assms(1-6), of s1] assms(7) s1(2-4) by auto
    have "io_seq (replicate (Suc k) (next_switch E body)) s = (Ret (), s2)"
      using io_seq_snoc [of "replicate k (next_switch E body)" s s1 "next_switch E body" s2] s1(1) s2(1)
      by (simp only: replicate_append_same replicate_Suc)
    then show ?case using s2 by (auto simp: mod_simps)
  qed
  then obtain s' where s': "io_seq (replicate k (next_switch E body)) s = (Ret (), s')" "la_Routes s' = la_Routes s"
    "on_route E ((i + k) mod length (la_Routes s)) s'" by blast
  then obtain c where c: "la_client s' = Some c"
    "cl_Addr (rc_c c) = Wrap (le_c E) (vp_Host (la_Routes s ! ((i + k) mod length (la_Routes s))))" by (auto simp: on_route_def)
  have "(i + k) mod length (la_Routes s) < length (la_Routes s)" using s'(2,3) by (simp add: on_route_def)
  then have "plain_host (le_c E) (vp_Host (la_Routes s ! ((i + k) mod length (la_Routes s))))"
    using assms(7) by (simp add: routes_ok_def)
  from GetRoute_Wrap [OF assms(2,3) this c(2)] s'(1) c(1) show ?thesis by blast
qed

subsection \<open>Requests that change nothing, or too little\<close>

text \<open>
  If the process of the route is not seen after its start, the client does not count as
  running, and then no switch is possible any more: every further request to switch, with a host
  or without, is answered with \<open>wait ...\<close> and leaves client, router and files as they are.
\<close>

theorem dead_route_sticks:
  assumes "la_client s = Some c" "\<not> IfRunning c" "la_Routes s \<noteq> []"
    and "\<And>b. b \<in> set bodies \<Longrightarrow> \<exists>d. Recv E b = Inr (Some d) \<and> op_of d = ''switch''"
  shows "io_seq (map (z_api E) bodies) s =
    (Ret (), s\<lparr>la_out := la_out s @ replicate (length bodies) (Msg (MText ''wait ...'') False)\<rparr>)"
  using assms
proof (induction bodies arbitrary: s)
  case (Cons b bodies)
  obtain d where d: "Recv E b = Inr (Some d)" "op_of d = ''switch''" using Cons.prems(4) [of b] by auto
  have "z_api E b s = (Ret (), s\<lparr>la_out := la_out s @ [Msg (MText ''wait ...'') False]\<rparr>)"
    using behind_login_in [OF Cons.prems(3) d(1)] d(2) Cons.prems(1,2)
    by (simp add: z_api_def z_api_op_def api_switch_def Reply_def)
  then show ?case using Cons.IH [of "s\<lparr>la_out := la_out s @ [Msg (MText ''wait ...'') False]\<rparr>"] Cons.prems
    by (simp add: io_then_Ret)
qed simp

lemma z_route_in:
  assumes "la_Routes s \<noteq> []" "Recv E body = Inr (Some d)"
  shows "z_route E body s = z_route_op E (op_of d) s"
  using behind_login_in [OF assms] by (simp add: z_route_def)

lemma stop_on_router:
  assumes "IsRouter (le_os E)"
  shows "z_route_op E ''stop'' s =
    (Ret (), (let s1 = s\<lparr>la_router := StopFirewall (le_r E) (la_router s), la_proxy := []\<rparr>;
       s2 = (if known_user s then s1\<lparr>la_auth := Some [(''name'', JStr (la_user s)), (''password'', JStr (la_pwd s)),
          (''last'', JStr (la_last s)), (''proxy'', JStr [])]\<rparr> else s1)
     in s2\<lparr>la_out := la_out s @ [Msg (MText ''stop'') True]\<rparr>))"
  using assms
  by (simp add: z_route_op_def stop_router_def ask_router_def on_router_def save_if_known_def known_user_def save_auth_def
      Reply_def io_when_def io_then_def io_bind_def)

text \<open>
  Stopping the router mode does not clear the flag the toggle goes by: the next press of the
  toggle stops it a second time, and only then the flag says that it is off.
\<close>

theorem stop_then_toggle:
  assumes "IsRouter (le_os E)" "la_ST s" "la_Routes s \<noteq> []"
    and "Recv E b1 = Inr (Some d1)" "op_of d1 = ''stop''" "Recv E b2 = Inr (Some d2)" "op_of d2 = ''open/close''"
  shows "\<exists>s1 s2. z_route E b1 s = (Ret (), s1) \<and> la_ST s1 \<and> z_route E b2 s1 = (Ret (), s2) \<and> \<not> la_ST s2 \<and>
    la_out s2 = la_out s @ [Msg (MText ''stop'') True, Msg (MText ''stop'') True] \<and>
    la_router s2 = StopFirewall (le_r E) (StopFirewall (le_r E) (la_router s))"
proof -
  obtain s1 where s1: "z_route E b1 s = (Ret (), s1)" "la_ST s1" "la_Routes s1 = la_Routes s"
    "la_out s1 = la_out s @ [Msg (MText ''stop'') True]" "la_router s1 = StopFirewall (le_r E) (la_router s)"
    using z_route_in [OF assms(3,4)] stop_on_router [OF assms(1), of s] assms(2,5) by (simp add: Let_def)
  have "\<exists>s2. toggle E s1 = (Ret (), s2) \<and> \<not> la_ST s2 \<and> la_out s2 = la_out s1 @ [Msg (MText ''stop'') True] \<and>
      la_router s2 = StopFirewall (le_r E) (la_router s1)"
    using s1(2) by (simp add: toggle_def stop_router_def ask_router_def on_router_def save_if_known_def save_auth_def
        Reply_def io_when_def io_then_def io_bind_def)
  moreover have "z_route E b2 s1 = toggle E s1"
    using z_route_in [of s1 E b2 d2] assms(3,6,7) s1(3) by (simp add: z_route_op_def)
  ultimately show ?thesis using s1 by auto
qed

text \<open>
  A switch to the next route is forgotten by a stop of the router mode: the file then names
  the route of the last explicit choice, not the one the client runs.
\<close>

theorem stop_saves_old_route:
  assumes "visible (le_os E)" "gs_in_ok (ce_gs (le_c E))" "gs_split_ok (ce_gs (le_c E))" "IsRouter (le_os E)"
    and "Recv E b1 = Inr (Some d1)" "op_of d1 = ''switch''" "\<not> present d1 ''host''"
    and "Recv E b2 = Inr (Some d2)" "op_of d2 = ''stop''"
    and "routes_ok E (la_Routes s)" "on_route E i s" "la_later s = []" "known_user s"
  shows "\<exists>s' a. io_then (next_switch E b1) (z_route E b2) s = (Ret (), s') \<and>
    on_route E ((i + 1) mod length (la_Routes s)) s' \<and> la_auth s' = Some a \<and> map_of a ''last'' = Some (JStr (la_last s))"
proof -
  obtain s1 where s1: "next_switch E b1 s = (Ret (), s1)" "la_Routes s1 = la_Routes s"
    "on_route E ((i + 1) mod length (la_Routes s)) s1" "la_last s1 = la_last s" "la_user s1 = la_user s" "la_pwd s1 = la_pwd s"
    using switch_next_step [OF assms(1-3,5-7,10-12)] by blast
  have "la_Routes s1 \<noteq> []" using s1(2,3) by (auto simp: on_route_def)
  from z_route_in [OF this assms(8)] have z: "z_route E b2 s1 = z_route_op E ''stop'' s1" using assms(9) by simp
  have "known_user s1" using assms(13) s1(4-6) by (simp add: known_user_def)
  then show ?thesis using stop_on_router [OF assms(4), of s1] z s1 by (simp add: io_then_Ret Let_def on_route_def)
qed

subsection \<open>Logging in with a published book\<close>

lemma str_of_key_at: "map_of d k = Some (JStr v) \<Longrightarrow> str_of_key d k = io_ret v"
  by (simp add: str_of_key_def io_go_def io_ret_def fun_eq_iff)

lemma login_fields_run:
  assumes "map_of d ''repo'' = Some (JStr r)" "map_of d ''repo-password'' = Some (JStr rp)" "map_of d ''name'' = Some (JStr n)"
    and "map_of d ''password'' = Some (JStr w)" "map_of d ''last'' = Some (JStr l)" "map_of d ''proxy'' = None"
  shows "login_fields d s = (Ret (), s\<lparr>la_repo_uri := r, la_repo_passwd := rp, la_user := n, la_pwd := w, la_last := l\<rparr>)"
  using assms by (simp add: login_fields_def str_of_key_at opt_str_def io_then_def io_bind_def)

text \<open>
  Logging in with the name and the password under which a book was published gives exactly its
  servers as routes; if the last route is among them and no client runs, a client for that route is
  started, and it is the route shown.
\<close>

theorem login_gives_book:
  assumes "visible (le_os E)" "gs_in_ok (ce_gs (le_c E))" "gs_split_ok (ce_gs (le_c E))"
    and "gs_in_ok (le_gs E)" "gs_affix_ok (le_gs E)" "json_ok (le_book E)" "crypt_ok (le_book E)"
    and "be_to_json (le_book E) (gb_UsedBook g) = Some j" "CHR ''.'' \<in> set j" "gb_UsedBook g \<noteq> []" "gb_User g \<noteq> []" "gb_Pwd g \<noteq> []"
    and "gt_clone t \<noteq> None" "be_ok (le_book E) ''open''" "be_ok (le_book E) ''rm''"
    and "gb_Update (le_book E) g t = (Returned, la_git s)" "be_auth (le_book E) (''https://'' @ le_default_repo E) None"
    and "map_of d ''repo'' = Some (JStr [])" "map_of d ''repo-password'' = Some (JStr [])" "map_of d ''name'' = Some (JStr (gb_User g))"
    and "map_of d ''password'' = Some (JStr (gb_Pwd g))" "map_of d ''last'' = Some (JStr lst)" "map_of d ''proxy'' = None"
    and "la_client s = None" "la_proxy s = []" "v \<in> set (gb_UsedBook g)" "vp_Host v = lst" "lst \<noteq> []" "plain_host (le_c E) lst"
  shows "\<exists>s' c. login_with E d s = (Ret (), s') \<and> la_Routes s' = gb_UsedBook g \<and> la_client s' = Some c \<and>
    GetRoute (le_c E) (rc_c c) = Ret lst \<and> la_auth s' = Some d"
proof -
  let ?bk = "gb_UsedBook g"
  define s1 where "s1 = s\<lparr>la_repo_uri := [], la_repo_passwd := [], la_user := gb_User g, la_pwd := gb_Pwd g, la_last := lst\<rparr>"
  have f: "login_fields d s = (Ret (), s1)" using login_fields_run [OF assms(18-23)] by (simp add: s1_def)
  obtain t' where p: "GitGetAccount (le_book E) (''https://'' @ le_default_repo E) [gb_User g, gb_Pwd g] (la_git s) = (?bk, t')"
    using published_book [OF assms(4-8,10-14,16,15,17)] assms(9)
    by (cases "GitGetAccount (le_book E) (''https://'' @ le_default_repo E) [gb_User g, gb_Pwd g] (la_git s)") simp
  define s2 where "s2 = s1\<lparr>la_git := t'\<rparr>"
  have pull: "pull_routes E s1 = (Ret ?bk, s2)" using p by (simp add: pull_routes_def s1_def s2_def)
  define s3 where "s3 = s2\<lparr>la_Routes := ?bk, la_cache := SetRoutes ?bk (la_cache s2), la_hosts := Some ?bk, la_auth := Some d,
    la_later := la_later s2 @ [GoTest]\<rparr>"
  have old: "list_ex (\<lambda>i. vp_Host i = lst) ?bk" using assms(26,27) by (auto simp: list_ex_iff)
  have "login_with E d s = io_then (resume_last E lst) (Reply (MText ''Login Success!'') True) s3"
    using f pull assms(10,25,28) old
    by (simp add: login_with_def io_then_def io_bind_def io_when_def s1_def s2_def go_do_def) 
       (simp add: s3_def s2_def s1_def)
  moreover have "\<exists>c w. resume_last E lst s3 = (Ret (), s3\<lparr>la_client := Some c, la_router := (la_router s3)\<lparr>ro_os := w\<rparr>\<rparr>) \<and>
      cl_Addr (rc_c c) = Wrap (le_c E) lst"
  proof -
    define loc where "loc = find_loc (login_loc E) lst ?bk ''Unknow''"
    define c0 where "c0 = SetRouteLoc loc \<lparr>rc_c = NewClientControll (le_c E) lst LOCAL_PORT 70 (le_now E), rc_PID = 0\<rparr>"
    obtain p w1 where st: "StartRoute (le_os E) c0 (ro_os (la_router s3)) =
        (Ret (c0\<lparr>rc_PID := p, rc_c := (rc_c c0)\<lparr>cl_IsRunning := True\<rparr>\<rparr>), w1)"
      using visible_StartRoute [OF assms(1)] by blast
    define c1 where "c1 = c0\<lparr>rc_PID := p, rc_c := (rc_c c0)\<lparr>cl_IsRunning := True\<rparr>\<rparr>"
    obtain w2 where ck: "CheckRoute (le_os E) c1 w1 = (True, w2)" using visible_check [OF assms(1)] by (auto simp: CheckRoute_def)
    have s3: "la_client s3 = None" "la_Routes s3 = ?bk" using assms(24) by (simp_all add: s3_def s2_def s1_def)
    have "resume_last E lst s3 = (Ret (), s3\<lparr>la_client := Some c1, la_router := (la_router s3)\<lparr>ro_os := w2\<rparr>\<rparr>)"
      using s3 st ck
      by (simp add: resume_last_def has_client_def new_client_def c_SetRouteLoc_def c_StartRoute_def c_CheckRoute_def on_client_def
          io_then_def io_bind_def loc_def [symmetric] c0_def [symmetric] c1_def [symmetric])
    moreover have "cl_Addr (rc_c c1) = Wrap (le_c E) lst" by (simp add: c1_def c0_def SetRouteLoc_def NewClientControll_def)
    ultimately show ?thesis by blast
  qed
  then obtain c w where r: "resume_last E lst s3 = (Ret (), s3\<lparr>la_client := Some c, la_router := (la_router s3)\<lparr>ro_os := w\<rparr>\<rparr>)"
    "cl_Addr (rc_c c) = Wrap (le_c E) lst" by blast
  ultimately have "login_with E d s = (Ret (), s3\<lparr>la_client := Some c, la_router := (la_router s3)\<lparr>ro_os := w\<rparr>,
      la_out := la_out s3 @ [Msg (MText ''Login Success!'') True]\<rparr>)"
    by (simp add: io_then_Ret Reply_def)
  then show ?thesis using GetRoute_Wrap [OF assms(2,3,29) r(2)] by (simp add: s3_def)
qed

subsection \<open>Examples\<close>

definition toy_local_env :: local_env where
  "toy_local_env = \<lparr>le_c = toy_client_env\<lparr>ce_url := (\<lambda>_. Inr \<lparr>ul_Scheme = [], ul_Host = [], ul_Port = []\<rparr>)\<rparr>,
     le_r = toy_router_env\<lparr>re_os := toy_os_env\<lparr>oe_out := (\<lambda>_ _. ''x'')\<rparr>\<rparr>, le_book = toy_book_env, le_sort = sort_by,
     le_test = toy_test, le_dur = itoa, le_float = (\<lambda>s. Some (of_nat (length s))),
     le_json = (\<lambda>s. if s = ''next'' then [(''op'', JStr ''switch'')] else if s = ''stop'' then [(''op'', JStr ''stop'')]
       else [(''op'', JStr ''open/close'')]),
     le_default_repo = ''gitee.com/x'', le_now = 0\<rparr>"

definition toy_local :: local_api where
  "toy_local = \<lparr>la_client = None, la_Routes = [], la_cache = [], la_repo_uri = [], la_repo_passwd = [], la_user = [], la_pwd = [],
     la_last = [], la_proxy = [], la_ST = True, la_auth = None, la_hosts = None, la_rule = None, la_loaded = [],
     la_router = toy_router, la_git = toy_git, la_out = [], la_later = []\<rparr>"

definition toy_running :: local_api where
  "toy_running = toy_local\<lparr>la_Routes := toy_routes, la_user := ''ann'', la_pwd := ''secret'', la_last := ''9.9.9.9'', la_client := Some
     \<lparr>rc_c = (NewClientControll (le_c toy_local_env) ''1.2.3.4'' LOCAL_PORT 70 0)\<lparr>cl_IsRunning := True\<rparr>, rc_PID = 900\<rparr>\<rparr>"

lemma toy_local_props [simp]:
  "visible (le_os toy_local_env)" "gs_in_ok (ce_gs (le_c toy_local_env))" "gs_split_ok (ce_gs (le_c toy_local_env))"
  "gs_in_ok (be_gs toy_book_env)" "gs_affix_ok (be_gs toy_book_env)" "le_book toy_local_env = toy_book_env"
  "Recv toy_local_env (Inr ''next'') = Inr (Some [(''op'', JStr ''switch'')])"
  "Recv toy_local_env (Inr ''stop'') = Inr (Some [(''op'', JStr ''stop'')])"
  "Recv toy_local_env (Inr ''toggle'') = Inr (Some [(''op'', JStr ''open/close'')])"
proof -
  have "trim_space ''x'' = ''x''" by code_simp
  then show "visible (le_os toy_local_env)" by (simp add: visible_def toy_local_env_def toy_os_env_def gs_std_def)
qed (simp_all add: toy_local_env_def toy_client_env_def toy_book_env_def Recv_def Let_def)

lemma toy_running_props [simp]:
  "routes_ok toy_local_env toy_routes" "on_route toy_local_env 0 toy_running" "la_later toy_running = []"
  "known_user toy_running" "la_Routes toy_running = toy_routes" "la_ST toy_running"
  by (simp_all add: routes_ok_def toy_running_def toy_local_def toy_routes_def toy_vps_def plain_host_def toy_local_env_def
      on_route_def NewClientControll_def IfRunning_def known_user_def)

theorem switch_round_robin_witness:
  "\<exists>s' c. io_seq (replicate 5 (next_switch toy_local_env (Inr ''next''))) toy_running = (Ret (), s') \<and> la_client s' = Some c \<and>
    GetRoute (le_c toy_local_env) (rc_c c) = Ret ''5.6.7.8''"
proof -
  have "length toy_routes = 4" "vp_Host (toy_routes ! 1) = ''5.6.7.8''" by (simp_all add: toy_routes_def toy_vps_def)
  then show ?thesis
    using switch_round_robin [of toy_local_env "Inr ''next''" "[(''op'', JStr ''switch'')]" toy_running 0 5]
    by (simp add: op_of_def present_def del: io_seq.simps)
qed

theorem stop_saves_old_route_witness:
  "\<exists>s' a. io_then (next_switch toy_local_env (Inr ''next'')) (z_route toy_local_env (Inr ''stop'')) toy_running = (Ret (), s') \<and>
    on_route toy_local_env 1 s' \<and> la_auth s' = Some a \<and> map_of a ''last'' = Some (JStr ''9.9.9.9'')"
proof -
  have "IsRouter (le_os toy_local_env)" by code_simp
  moreover have "la_last toy_running = ''9.9.9.9''" "length toy_routes = 4" by (simp_all add: toy_running_def toy_local_def toy_routes_def)
  ultimately show ?thesis
    using stop_saves_old_route [of toy_local_env "Inr ''next''" "[(''op'', JStr ''switch'')]" "Inr ''stop''" "[(''op'', JStr ''stop'')]" toy_running 0]
    by (simp add: op_of_def present_def)
qed

theorem stop_then_toggle_witness:
  "\<exists>s1 s2. z_route toy_local_env (Inr ''stop'') toy_running = (Ret (), s1) \<and> la_ST s1 \<and>
    z_route toy_local_env (Inr ''toggle'') s1 = (Ret (), s2) \<and> \<not> la_ST s2"
proof -
  have "IsRouter (le_os toy_local_env)" by code_simp
  moreover have "toy_routes \<noteq> []" by (simp add: toy_routes_def)
  ultimately show ?thesis
    using stop_then_toggle [of toy_local_env toy_running "Inr ''stop''" "[(''op'', JStr ''stop'')]" "Inr ''toggle''" "[(''op'', JStr ''open/close'')]"]
    by (auto simp: op_of_def)
qed

theorem dead_route_sticks_witness:
  "\<exists>s'. io_seq (map (z_api toy_local_env) [Inr ''next'', Inr ''next''])
     (toy_running\<lparr>la_client := Some \<lparr>rc_c = toy_client, rc_PID = 900\<rparr>\<rparr>) = (Ret (), s') \<and> length (la_out s') = 2"
proof -
  have "toy_routes \<noteq> []" by (simp add: toy_routes_def)
  moreover have "\<not> IfRunning \<lparr>rc_c = toy_client, rc_PID = 900\<rparr>" by (simp add: IfRunning_def toy_client_def NewClientControll_def)
  moreover have "la_out toy_running = []" by (simp add: toy_running_def toy_local_def)
  ultimately show ?thesis
    using dead_route_sticks [of "toy_running\<lparr>la_client := Some \<lparr>rc_c = toy_client, rc_PID = 900\<rparr>\<rparr>" "\<lparr>rc_c = toy_client, rc_PID = 900\<rparr>"
        "[Inr ''next'', Inr ''next'']" toy_local_env]
    by (simp add: op_of_def)
qed

theorem nothing_before_login_witness:
  "z_api toy_local_env (Inr ''next'') toy_local = (Ret (), toy_local\<lparr>la_out := [Redirect ''/z-login'']\<rparr>)"
  using nothing_before_login [of toy_local "z_api toy_local_env (Inr ''next'')" toy_local_env "Inr ''next''"]
  by (simp add: toy_local_def)

theorem slowest_route_chosen_witness:
  "pick_route toy_local_env (toy_routes @ [(toy_vps ''7.7.7.7'')\<lparr>vp_Speed := ''1234567ms''\<rparr>]) = ''7.7.7.7''"
proof -
  let ?rs = "toy_routes @ [(toy_vps ''7.7.7.7'')\<lparr>vp_Speed := ''1234567ms''\<rparr>]"
  have sp: "switch_speed toy_local_env [] = Some 0" "switch_speed toy_local_env ''1234567ms'' = Some 7" by code_simp+
  have "switch_speed toy_local_env (vp_Speed u) \<noteq> None" if "u \<in> set ?rs" for u
    using that sp by (auto simp: toy_routes_def toy_vps_def zero_vps_def)
  from slowest_route_chosen [OF _ this] obtain v where v: "v \<in> set ?rs" "pick_route toy_local_env ?rs = vp_Host v"
    "\<forall>u \<in> set ?rs. the (switch_speed toy_local_env (vp_Speed u)) \<le> the (switch_speed toy_local_env (vp_Speed v))" by blast
  then show ?thesis using sp by (auto simp: toy_routes_def toy_vps_def zero_vps_def)
qed

definition toy_body :: jdict where
  "toy_body = [(''repo'', JStr []), (''repo-password'', JStr []), (''name'', JStr ''ann''), (''password'', JStr ''secret''), (''last'', JStr ''5.6.7.8'')]"

theorem login_gives_book_witness:
  "\<exists>s' c. login_with toy_local_env toy_body toy_local = (Ret (), s') \<and> la_Routes s' = toy_routes \<and> la_client s' = Some c \<and>
    GetRoute (le_c toy_local_env) (rc_c c) = Ret ''5.6.7.8''"
proof -
  have u: "gb_Update (le_book toy_local_env) toy_gbook \<lparr>gt_remote = [], gt_clone = Some []\<rparr> = (Returned, la_git toy_local)"
    using toy_update by (simp add: toy_local_def)
  have bk: "be_to_json toy_book_env toy_routes = Some ''[1.2.3.4]''" "be_ok toy_book_env x" "be_auth toy_book_env y z" for x y z
    by (simp_all add: toy_book_env_def)
  have gb: "gb_UsedBook toy_gbook = toy_routes" "gb_User toy_gbook = ''ann''" "gb_Pwd toy_gbook = ''secret''"
    by (simp_all add: toy_gbook_def)
  have body: "map_of toy_body ''repo'' = Some (JStr [])" "map_of toy_body ''repo-password'' = Some (JStr [])"
    "map_of toy_body ''name'' = Some (JStr ''ann'')" "map_of toy_body ''password'' = Some (JStr ''secret'')"
    "map_of toy_body ''last'' = Some (JStr ''5.6.7.8'')" "map_of toy_body ''proxy'' = None"
    by (simp_all add: toy_body_def)
  have la: "la_client toy_local = None" "la_proxy toy_local = []" by (simp_all add: toy_local_def)
  have h: "plain_host (le_c toy_local_env) ''5.6.7.8''" by (simp add: plain_host_def toy_local_env_def)
  have v: "toy_routes \<noteq> []" "toy_vps ''5.6.7.8'' \<in> set toy_routes" "vp_Host (toy_vps ''5.6.7.8'') = ''5.6.7.8''"
    by (simp_all add: toy_routes_def toy_vps_def)
  show ?thesis
    using login_gives_book [of toy_local_env toy_gbook "''[1.2.3.4]''", OF _ _ _ _ _ _ _ _ _ _ _ _ _ _ _ u, of toy_body "''5.6.7.8''" "toy_vps ''5.6.7.8''"]
    by (simp add: bk gb body la h v del: map_of.simps) blast
qed

end
