(* ===== verification/Utf8.thy ===== *)
theory Utf8
  imports Prelude
begin

text \<open>
  The functions of Go's \<open>unicode/utf8\<close> that the prompts use.  A rune is a natural number; decoding gives
  the rune and the bytes it takes, and the replacement rune with one byte for anything that is
  not the shortest encoding of a scalar value.
\<close>

type_synonym rune = nat

definition RuneError :: rune where "RuneError = 0xFFFD"

definition scalar :: "rune \<Rightarrow> bool" where
  "scalar r \<longleftrightarrow> r < 0xD800 \<or> (0xE000 \<le> r \<and> r < 0x110000)"

definition rune_byte :: "nat \<Rightarrow> byte" where
  "rune_byte n = of_nat n"

definition low6 :: "nat \<Rightarrow> byte" where
  "low6 n = rune_byte (0x80 + n mod 64)"

definition EncodeRune :: "rune \<Rightarrow> bytes" where
  "EncodeRune r =
     (if r < 0x80 then [rune_byte r]
      else if r < 0x800 then [rune_byte (0xC0 + r div 64), low6 r]
      else let r = (if scalar r then r else RuneError) in
        if r < 0x10000 then [rune_byte (0xE0 + r div 4096), low6 (r div 64), low6 r]
        else [rune_byte (0xF0 + r div 262144), low6 (r div 4096), low6 (r div 64), low6 r])"

definition cont :: "byte \<Rightarrow> bool" where
  "cont b \<longleftrightarrow> 0x80 \<le> unat b \<and> unat b < 0xC0"

text \<open>The range of the second byte, which rules out surrogates and encodings that are too long.\<close>

definition second_ok :: "nat \<Rightarrow> byte \<Rightarrow> bool" where
  "second_ok b x \<longleftrightarrow> cont x \<and> (b = 0xE0 \<longrightarrow> 0xA0 \<le> unat x) \<and> (b = 0xED \<longrightarrow> unat x < 0xA0)
     \<and> (b = 0xF0 \<longrightarrow> 0x90 \<le> unat x) \<and> (b = 0xF4 \<longrightarrow> unat x < 0x90)"

definition bad_rune :: "rune \<times> nat" where "bad_rune = (RuneError, 1)"

definition decode2 :: "nat \<Rightarrow> bytes \<Rightarrow> rune \<times> nat" where
  "decode2 b ws = (case ws of x # _ \<Rightarrow> if second_ok b x then (b mod 32 * 64 + unat x mod 64, 2) else bad_rune | _ \<Rightarrow> bad_rune)"

definition decode3 :: "nat \<Rightarrow> bytes \<Rightarrow> rune \<times> nat" where
  "decode3 b ws = (case ws of x # y # _ \<Rightarrow>
       if second_ok b x \<and> cont y then (b mod 16 * 4096 + unat x mod 64 * 64 + unat y mod 64, 3) else bad_rune
     | _ \<Rightarrow> bad_rune)"

definition decode4 :: "nat \<Rightarrow> bytes \<Rightarrow> rune \<times> nat" where
  "decode4 b ws = (case ws of x # y # z # _ \<Rightarrow>
       if second_ok b x \<and> cont y \<and> cont z
       then (b mod 8 * 262144 + unat x mod 64 * 4096 + unat y mod 64 * 64 + unat z mod 64, 4) else bad_rune
     | _ \<Rightarrow> bad_rune)"

fun DecodeRune :: "bytes \<Rightarrow> rune \<times> nat" where
  "DecodeRune [] = (RuneError, 0)"
| "DecodeRune (w # ws) =
     (let b = unat w in
      if b < 0x80 then (b, 1)
      else if b < 0xC2 then bad_rune
      else if b < 0xE0 then decode2 b ws
      else if b < 0xF0 then decode3 b ws
      else if b < 0xF5 then decode4 b ws
      else bad_rune)"

lemma decode_sizes:
  "snd (decode2 b ws) \<in> {1..Suc (length ws)}" "snd (decode3 b ws) \<in> {1..Suc (length ws)}"
  "snd (decode4 b ws) \<in> {1..Suc (length ws)}"
  by (simp_all add: decode2_def decode3_def decode4_def bad_rune_def split: list.split)

lemma DecodeRune_size: "p \<noteq> [] \<Longrightarrow> snd (DecodeRune p) \<in> {1..length p}"
  using decode_sizes by (cases p) (simp_all add: Let_def bad_rune_def)

text \<open>
  From the last byte back to a byte that may start a rune, at most \<open>UTFMax\<close> bytes from the end: the
  index where the scan stops, \<open>lim - 1\<close> when there is none.
\<close>

fun start_scan :: "bytes \<Rightarrow> int \<Rightarrow> nat \<Rightarrow> int" where
  "start_scan p start 0 = start"
| "start_scan p start (Suc n) = (if \<not> cont (p ! nat start) then start else start_scan p (start - 1) n)"

definition DecodeLastRune :: "bytes \<Rightarrow> rune \<times> nat" where
  "DecodeLastRune p =
     (if p = [] then (RuneError, 0)
      else
        let k = length p; r = unat (p ! (k - 1)) in
        if r < 0x80 then (r, 1)
        else
          let lim = k - 4; start = start_scan p (int k - 2) (k - 1 - lim);
              from' = nat (max 0 start); (r', size') = DecodeRune (drop from' p) in
          if from' + size' \<noteq> k then bad_rune else (r', size'))"

subsection \<open>Round trips\<close>

lemma unat_byte: "n < 256 \<Longrightarrow> unat (rune_byte n) = n"
  by (simp add: rune_byte_def unat_of_nat)

lemma unat_low6: "unat (low6 n) = 0x80 + n mod 64"
proof -
  have "0x80 + n mod 64 < 256" using mod_less_divisor [of 64 n] by linarith
  then show ?thesis unfolding low6_def by (rule unat_byte)
qed

lemma cont_low6 [simp]: "cont (low6 n)"
  using mod_less_divisor [of 64 n] by (simp add: cont_def unat_low6)

lemma mod_digit: "d < m \<Longrightarrow> (q * m + d) mod m = (d::nat)"
  by simp

lemma low6_mod [simp]: "unat (low6 n) mod 64 = n mod 64"
  using mod_digit [of "n mod 64" 64 2] by (simp only: unat_low6) simp

lemma second_ok_low6 [simp]: "second_ok b (low6 n) \<longleftrightarrow> (b = 0xE0 \<longrightarrow> 32 \<le> n mod 64) \<and> (b = 0xED \<longrightarrow> n mod 64 < 32)
    \<and> (b = 0xF0 \<longrightarrow> 16 \<le> n mod 64) \<and> (b = 0xF4 \<longrightarrow> n mod 64 < 16)"
  by (simp add: second_ok_def unat_low6)

lemma EncodeRune_length: "0 < length (EncodeRune r) \<and> length (EncodeRune r) \<le> 4"
  by (simp add: EncodeRune_def Let_def)

text \<open>A rune by its groups of six bits.\<close>

lemma group6: "(n::nat) = n div 64 * 64 + n mod 64 \<and> n mod 64 < 64"
  by simp

lemma div_groups: "(r::nat) div 4096 = r div 64 div 64" "(r::nat) div 262144 = r div 64 div 64 div 64"
  by (simp_all add: div_mult2_eq [symmetric])

lemma rune2:
  fixes r :: nat
  obtains d c where "r = d * 64 + c" "r div 64 = d" "r mod 64 = c" "c < 64"
  using group6 [of r] by blast

lemma rune3:
  fixes r :: nat
  obtains d e c where "r = d * 4096 + e * 64 + c" "r div 4096 = d" "r div 64 mod 64 = e" "r mod 64 = c" "c < 64" "e < 64"
proof -
  have "r = r div 64 div 64 * 4096 + r div 64 mod 64 * 64 + r mod 64"
    using group6 [of r] group6 [of "r div 64"] by linarith
  then show thesis using that div_groups(1) [of r] by simp
qed

lemma rune4:
  fixes r :: nat
  obtains d f e c where "r = d * 262144 + f * 4096 + e * 64 + c" "r div 262144 = d" "r div 4096 mod 64 = f"
    "r div 64 mod 64 = e" "r mod 64 = c" "c < 64" "e < 64" "f < 64"
proof -
  have "r = r div 64 div 64 div 64 * 262144 + r div 64 div 64 mod 64 * 4096 + r div 64 mod 64 * 64 + r mod 64"
    using group6 [of r] group6 [of "r div 64"] group6 [of "r div 64 div 64"] by linarith
  then show thesis using that div_groups [of r] by simp
qed

lemma decode_encode1: "r < 0x80 \<Longrightarrow> DecodeRune (EncodeRune r @ rest) = (r, length (EncodeRune r))"
  by (simp add: EncodeRune_def unat_byte)

lemma decode_encode2:
  assumes "0x80 \<le> r" "r < 0x800"
  shows "DecodeRune (EncodeRune r @ rest) = (r, length (EncodeRune r))"
proof -
  obtain d c where r: "r = d * 64 + c" "r div 64 = d" "r mod 64 = c" "c < 64" by (rule rune2 [of r])
  have d: "2 \<le> d" "d < 32" using r assms by linarith+
  have enc: "EncodeRune r = [rune_byte (0xC0 + d), low6 r]" using assms r(2-) by (simp add: EncodeRune_def Let_def)
  have "(192 + d) mod 32 = d" using mod_digit [of d 32 6] d by simp
  then show ?thesis using d r(2-) by (simp add: enc unat_byte decode2_def decode3_def decode4_def r(1) [symmetric])
qed

lemma decode_encode3:
  assumes "0x800 \<le> r" "r < 0x10000" "scalar r"
  shows "DecodeRune (EncodeRune r @ rest) = (r, length (EncodeRune r))"
proof -
  obtain d e c where r: "r = d * 4096 + e * 64 + c" "r div 4096 = d" "r div 64 mod 64 = e" "r mod 64 = c" "c < 64" "e < 64"
    by (rule rune3 [of r])
  have d: "d < 16" "d = 0 \<Longrightarrow> 32 \<le> e" using r assms by linarith+
  have e: "d = 13 \<Longrightarrow> e < 32" using r assms(3) unfolding scalar_def by linarith
  have enc: "EncodeRune r = [rune_byte (0xE0 + d), low6 (r div 64), low6 r]" using assms r(2-) by (simp add: EncodeRune_def Let_def)
  have "(224 + d) mod 16 = d" using mod_digit [of d 16 14] d by simp
  then show ?thesis using d e r(2-) by (simp add: enc unat_byte decode2_def decode3_def decode4_def r(1) [symmetric])
qed

lemma decode_encode4:
  assumes "0x10000 \<le> r" "scalar r"
  shows "DecodeRune (EncodeRune r @ rest) = (r, length (EncodeRune r))"
proof -
  have le: "r < 0x110000" using assms by (auto simp: scalar_def)
  obtain d f e c where r: "r = d * 262144 + f * 4096 + e * 64 + c" "r div 262144 = d" "r div 4096 mod 64 = f"
    "r div 64 mod 64 = e" "r mod 64 = c" "c < 64" "e < 64" "f < 64"
    by (rule rune4 [of r])
  have d: "d < 5" "d = 0 \<Longrightarrow> 16 \<le> f" "d = 4 \<Longrightarrow> f < 16" using r assms(1) le by linarith+
  have enc: "EncodeRune r = [rune_byte (0xF0 + d), low6 (r div 4096), low6 (r div 64), low6 r]"
    using assms r(2-) by (simp add: EncodeRune_def Let_def)
  have "(240 + d) mod 8 = d" using mod_digit [of d 8 30] d by simp
  then show ?thesis using d r(2-) by (simp add: enc unat_byte decode2_def decode3_def decode4_def r(1) [symmetric])
qed

lemma decode_encode: "scalar r \<Longrightarrow> DecodeRune (EncodeRune r @ rest) = (r, length (EncodeRune r))"
  by (meson decode_encode1 decode_encode2 decode_encode3 decode_encode4 not_le)

lemma start_scan_at:
  assumes "\<not> cont (p ! a)" "\<And>i. 0 < i \<Longrightarrow> i \<le> j \<Longrightarrow> cont (p ! (a + i))" "j < n"
  shows "start_scan p (int (a + j)) n = int a"
  using assms(2,3)
proof (induction n arbitrary: j)
  case (Suc n)
  show ?case
  proof (cases j)
    case 0
    then show ?thesis using assms(1) by simp
  next
    case (Suc i)
    have "start_scan p (int (a + i)) n = int a" using Suc Suc.prems Suc.IH [of i] by simp
    then show ?thesis using Suc Suc.prems(1) [of j] by (simp flip: of_nat_add add: nat_add_distrib)
  qed
qed simp

text \<open>A first byte followed by one to three continuation bytes.\<close>

lemma EncodeRune_long:
  assumes "0x80 \<le> r" "scalar r"
  obtains b cs where "EncodeRune r = b # cs" "\<not> cont b" "\<forall>c \<in> set cs. cont c" "cs \<noteq> []" "length cs \<le> 3"
proof (cases "r < 0x800")
  case True
  then have "r div 64 < 32" by simp
  then show ?thesis using True assms that [of "rune_byte (0xC0 + r div 64)" "[low6 r]"]
    by (simp add: EncodeRune_def cont_def unat_byte cont_low6 [unfolded cont_def])
next
  case False
  show ?thesis
  proof (cases "r < 0x10000")
    case True
    then have "r div 4096 < 16" by simp
    then show ?thesis using True False assms that [of "rune_byte (0xE0 + r div 4096)" "[low6 (r div 64), low6 r]"]
      by (simp add: EncodeRune_def cont_def unat_byte cont_low6 [unfolded cont_def])
  next
    case big: False
    then have "r div 262144 < 5" using assms by (auto simp: scalar_def)
    then show ?thesis using big False assms
        that [of "rune_byte (0xF0 + r div 262144)" "[low6 (r div 4096), low6 (r div 64), low6 r]"]
      by (simp add: EncodeRune_def cont_def unat_byte cont_low6 [unfolded cont_def])
  qed
qed

lemma decode_last_encode:
  assumes "scalar r"
  shows "DecodeLastRune (pre @ EncodeRune r) = (r, length (EncodeRune r))"
proof (cases "r < 0x80")
  case True
  then show ?thesis by (simp add: DecodeLastRune_def EncodeRune_def unat_byte)
next
  case False
  then obtain b cs where e: "EncodeRune r = b # cs" "\<not> cont b" "\<forall>c \<in> set cs. cont c" "cs \<noteq> []" "length cs \<le> 3"
    using EncodeRune_long assms by (metis not_le)
  let ?p = "pre @ b # cs" and ?a = "length pre"
  have last: "?p ! (length ?p - 1) \<in> set cs"
    using e(4) by (metis append_is_Nil_conv last_ConsR last_appendR last_conv_nth last_in_set list.distinct(1))
  then have big: "\<not> unat (?p ! (length ?p - 1)) < 0x80" using e(3) by (auto simp: cont_def)
  have "start_scan ?p (int (?a + (length cs - 1))) (length ?p - 1 - (length ?p - 4)) = int ?a"
  proof (rule start_scan_at)
    fix i assume "0 < i" "i \<le> length cs - 1"
    then show "cont (?p ! (?a + i))" using e(3) by (simp add: nth_append nth_Cons' )
  qed (use e in \<open>auto simp: Suc_le_eq length_greater_0_conv [symmetric] simp del: length_greater_0_conv\<close>)
  moreover have "int (?a + (length cs - 1)) = int (length ?p) - 2" using e(4) by (cases cs) auto
  ultimately have "start_scan ?p (int (length ?p) - 2) (length ?p - 1 - (length ?p - 4)) = int ?a" by metis
  moreover have "DecodeRune (b # cs) = (r, Suc (length cs))" using decode_encode [OF assms, of "[]"] e(1) by simp
  ultimately have "DecodeLastRune ?p = (r, Suc (length cs))"
    using big unfolding DecodeLastRune_def Let_def by simp
  then show ?thesis using e(1) by simp
qed

end
