(* ===== verification/Edit_Box.thy ===== *)
theory Edit_Box
  imports Utf8 "HOL-Library.Signed_Division"
begin

text \<open>
  The prompt of the tools, \<open>src/deploy/ui.go\<close>: a line of UTF-8 text with a cursor, its window of
  \<open>edit_box_width\<close> cells, and the loop over the keys.  The terminal is the list of the cells set; the
  width of a rune comes from a library.  Colours and the position of the terminal's cursor on
  the screen are left out.
\<close>

record edit_env =
  ee_width :: "rune \<Rightarrow> int"
  ee_EastAsian :: bool
  ee_screen :: "int \<times> int"
  ee_spare :: "bytes \<Rightarrow> bytes"

definition tabstop_length :: int where "tabstop_length = 8"
definition preferred_horizontal_threshold :: int where "preferred_horizontal_threshold = 5"
definition edit_box_width :: int where "edit_box_width = 30"

definition rune_advance_len :: "edit_env \<Rightarrow> rune \<Rightarrow> int \<Rightarrow> int" where
  "rune_advance_len E r pos = (if r = 9 then tabstop_length - pos mod tabstop_length else ee_width E r)"

function (sequential) offsets :: "edit_env \<Rightarrow> bytes \<Rightarrow> int \<Rightarrow> int \<Rightarrow> int \<times> int" where
  "offsets E [] voffset coffset = (voffset, coffset)"
| "offsets E (b # bs) voffset coffset =
     (let (r, k) = DecodeRune (b # bs) in offsets E (drop k (b # bs)) (voffset + rune_advance_len E r voffset) (coffset + 1))"
  by pat_completeness auto

termination
proof (relation "measure (\<lambda>(_, p, _). length p)", goal_cases)
  case (2 E b bs voffset coffset x r k)
  then have "0 < k" using DecodeRune_size [of "b # bs"] by (metis atLeastAtMost_iff less_eq_Suc_le list.distinct(1) One_nat_def snd_conv)
  then show ?case by simp
qed simp

text \<open>A slice beyond the end of the text panics (the room behind it is not modelled).\<close>

definition voffset_coffset :: "edit_env \<Rightarrow> bytes \<Rightarrow> nat \<Rightarrow> (int \<times> int) go" where
  "voffset_coffset E text' boffset =
     (if length text' < boffset then Panic else Ret (offsets E (take boffset text') 0 0))"

text \<open>\<open>copy(dst[off:], src)\<close>; source and destination may overlap.\<close>

definition copy_at :: "nat \<Rightarrow> bytes \<Rightarrow> bytes \<Rightarrow> bytes" where
  "copy_at off src dst = take off dst @ take (length dst - off) src @ drop (off + length src) dst"

definition byte_slice_remove :: "bytes \<Rightarrow> nat \<Rightarrow> nat \<Rightarrow> bytes" where
  "byte_slice_remove text' from' to' =
     (let text1 = copy_at from' (drop to' text') text' in take (length text1 - (to' - from')) text1)"

text \<open>\<open>spare\<close> is what the bytes hold that the slice grows by.\<close>

definition byte_slice_insert :: "bytes \<Rightarrow> bytes \<Rightarrow> nat \<Rightarrow> bytes \<Rightarrow> bytes" where
  "byte_slice_insert spare text' offset what =
     (let text1 = text' @ take (length what) (spare @ replicate (length what) 0);
          text2 = copy_at (offset + length what) (drop offset text1) text1
      in copy_at offset what text2)"

record edit_box =
  eb_text :: bytes
  eb_line_voffset :: int
  eb_cursor_boffset :: nat
  eb_cursor_voffset :: int
  eb_cursor_coffset :: int

subsection \<open>The operations of the box\<close>

definition AdjustVOffset :: "int \<Rightarrow> edit_box \<Rightarrow> edit_box" where
  "AdjustVOffset width eb =
     (let max_h_threshold = (width - 1) sdiv 2;
          ht = (if preferred_horizontal_threshold > max_h_threshold then max_h_threshold else preferred_horizontal_threshold);
          threshold = (if eb_line_voffset eb \<noteq> 0 then width - ht else width - 1);
          eb1 = (if eb_cursor_voffset eb - eb_line_voffset eb \<ge> threshold
                 then eb\<lparr>eb_line_voffset := eb_cursor_voffset eb + (ht - width + 1)\<rparr> else eb)
      in if eb_line_voffset eb1 \<noteq> 0 \<and> eb_cursor_voffset eb1 - eb_line_voffset eb1 < ht
         then eb1\<lparr>eb_line_voffset := max 0 (eb_cursor_voffset eb1 - ht)\<rparr> else eb1)"

definition MoveCursorTo :: "edit_env \<Rightarrow> nat \<Rightarrow> edit_box \<Rightarrow> edit_box go" where
  "MoveCursorTo E boffset eb = go_bind (voffset_coffset E (eb_text eb) boffset) (\<lambda>(v, c).
     Ret (eb\<lparr>eb_cursor_boffset := boffset, eb_cursor_voffset := v, eb_cursor_coffset := c\<rparr>))"

definition RuneUnderCursor :: "edit_box \<Rightarrow> rune \<times> nat" where
  "RuneUnderCursor eb = DecodeRune (drop (eb_cursor_boffset eb) (eb_text eb))"

definition RuneBeforeCursor :: "edit_box \<Rightarrow> rune \<times> nat" where
  "RuneBeforeCursor eb = DecodeLastRune (take (eb_cursor_boffset eb) (eb_text eb))"

definition MoveCursorOneRuneBackward :: "edit_env \<Rightarrow> edit_box \<Rightarrow> edit_box go" where
  "MoveCursorOneRuneBackward E eb =
     (if eb_cursor_boffset eb = 0 then Ret eb
      else MoveCursorTo E (eb_cursor_boffset eb - snd (RuneBeforeCursor eb)) eb)"

definition MoveCursorOneRuneForward :: "edit_env \<Rightarrow> edit_box \<Rightarrow> edit_box go" where
  "MoveCursorOneRuneForward E eb =
     (if eb_cursor_boffset eb = length (eb_text eb) then Ret eb
      else MoveCursorTo E (eb_cursor_boffset eb + snd (RuneUnderCursor eb)) eb)"

definition MoveCursorToBeginningOfTheLine :: "edit_env \<Rightarrow> edit_box \<Rightarrow> edit_box go" where
  "MoveCursorToBeginningOfTheLine E eb = MoveCursorTo E 0 eb"

definition MoveCursorToEndOfTheLine :: "edit_env \<Rightarrow> edit_box \<Rightarrow> edit_box go" where
  "MoveCursorToEndOfTheLine E eb = MoveCursorTo E (length (eb_text eb)) eb"

definition cut_rune :: "edit_box \<Rightarrow> edit_box" where
  "cut_rune eb = eb\<lparr>eb_text := byte_slice_remove (eb_text eb) (eb_cursor_boffset eb)
     (eb_cursor_boffset eb + snd (RuneUnderCursor eb))\<rparr>"

definition DeleteRuneBackward :: "edit_env \<Rightarrow> edit_box \<Rightarrow> edit_box go" where
  "DeleteRuneBackward E eb =
     (if eb_cursor_boffset eb = 0 then Ret eb
      else go_bind (MoveCursorOneRuneBackward E eb) (\<lambda>eb1. Ret (cut_rune eb1)))"

definition DeleteRuneForward :: "edit_box \<Rightarrow> edit_box go" where
  "DeleteRuneForward eb = Ret (if eb_cursor_boffset eb = length (eb_text eb) then eb else cut_rune eb)"

definition DeleteTheRestOfTheLine :: "edit_box \<Rightarrow> edit_box" where
  "DeleteTheRestOfTheLine eb = eb\<lparr>eb_text := take (eb_cursor_boffset eb) (eb_text eb)\<rparr>"

definition InsertRune :: "edit_env \<Rightarrow> rune \<Rightarrow> edit_box \<Rightarrow> edit_box go" where
  "InsertRune E r eb =
     MoveCursorOneRuneForward E (eb\<lparr>eb_text := byte_slice_insert (ee_spare E (eb_text eb)) (eb_text eb) (eb_cursor_boffset eb) (EncodeRune r)\<rparr>)"

definition CursorX :: "edit_box \<Rightarrow> int" where
  "CursorX eb = eb_cursor_voffset eb - eb_line_voffset eb"

subsection \<open>Drawing\<close>

type_synonym cell = "int \<times> int \<times> rune"

definition fill_cells :: "int \<Rightarrow> int \<Rightarrow> int \<Rightarrow> int \<Rightarrow> rune \<Rightarrow> cell list" where
  "fill_cells x y w h ch = concat (map (\<lambda>ly. map (\<lambda>lx. (x + lx, y + ly, ch)) [0..w - 1]) [0..h - 1])"

fun tbprint :: "edit_env \<Rightarrow> int \<Rightarrow> int \<Rightarrow> rune list \<Rightarrow> cell list" where
  "tbprint E x y [] = []"
| "tbprint E x y (c # msg) = (x, y, c) # tbprint E (x + ee_width E c) y msg"

definition arrowLeft :: "edit_env \<Rightarrow> rune" where "arrowLeft E = (if ee_EastAsian E then 0x3C else 0x2190)"
definition arrowRight :: "edit_env \<Rightarrow> rune" where "arrowRight E = (if ee_EastAsian E then 0x3E else 0x2192)"

text \<open>The cells of a tab, and where it ends: \<open>n\<close> is \<open>tabstop - lx\<close>.\<close>

fun tab_cells :: "int \<Rightarrow> int \<Rightarrow> int \<Rightarrow> int \<Rightarrow> int \<Rightarrow> nat \<Rightarrow> cell list \<times> int" where
  "tab_cells x y w line_voffset lx 0 = ([], lx)"
| "tab_cells x y w line_voffset lx (Suc n) =
     (let rx = lx - line_voffset in
      if rx \<ge> w then ([], lx)
      else let (cs, lx') = tab_cells x y w line_voffset (lx + 1) n in
        ((if rx \<ge> 0 then [(x + rx, y, 0x20)] else []) @ cs, lx'))"

lemma DecodeRune_drop: "(r, k) = DecodeRune (b # bs) \<Longrightarrow> length (drop k (b # bs)) < length (b # bs)"
  using DecodeRune_size [of "b # bs"] by (cases k) (auto simp: less_Suc_eq_le dest: sym)

function (sequential) draw_text :: "edit_env \<Rightarrow> int \<Rightarrow> int \<Rightarrow> int \<Rightarrow> int \<Rightarrow> bytes \<Rightarrow> int \<Rightarrow> int \<Rightarrow> cell list" where
  "draw_text E x y w line_voffset [] lx tabstop = []"
| "draw_text E x y w line_voffset (b # bs) lx tabstop =
     (let rx = lx - line_voffset; tabstop' = (if lx = tabstop then tabstop + tabstop_length else tabstop) in
      if rx \<ge> w then [(x + w - 1, y, arrowRight E)]
      else let (r, k) = DecodeRune (b # bs) in
        if r = 9 then
          let (cs, lx') = tab_cells x y w line_voffset lx (nat (tabstop' - lx)) in
          cs @ draw_text E x y w line_voffset (drop k (b # bs)) lx' tabstop'
        else (if rx \<ge> 0 then [(x + rx, y, r)] else [])
          @ draw_text E x y w line_voffset (drop k (b # bs)) (lx + ee_width E r) tabstop')"
  by pat_completeness auto

termination
  by (relation "measure (\<lambda>(_, _, _, _, _, p, _). length p)") (use DecodeRune_drop in \<open>auto simp only: in_measure split_conv\<close>)

definition Draw :: "edit_env \<Rightarrow> int \<Rightarrow> int \<Rightarrow> int \<Rightarrow> int \<Rightarrow> edit_box \<Rightarrow> cell list \<times> edit_box" where
  "Draw E x y w h eb0 =
     (let eb = AdjustVOffset w eb0 in
      (fill_cells x y w h 0x20 @ draw_text E x y w (eb_line_voffset eb) (eb_text eb) 0 0
        @ (if eb_line_voffset eb \<noteq> 0 then [(x, y, arrowLeft E)] else []), eb))"

definition frame_cells :: "edit_env \<Rightarrow> int \<Rightarrow> int \<Rightarrow> cell list" where
  "frame_cells E midx midy =
     (let c = (\<lambda>a u. if ee_EastAsian E then a else u); right = midx + edit_box_width in
      [(midx - 1, midy, c 0x7C 0x2502), (right, midy, c 0x7C 0x2502),
       (midx - 1, midy - 1, c 0x2B 0x250C), (midx - 1, midy + 1, c 0x2B 0x2514),
       (right, midy - 1, c 0x2B 0x2510), (right, midy + 1, c 0x2B 0x2518)]
      @ fill_cells midx (midy - 1) edit_box_width 1 (c 0x2D 0x2500)
      @ fill_cells midx (midy + 1) edit_box_width 1 (c 0x2D 0x2500))"

definition redraw_all :: "edit_env \<Rightarrow> rune list \<Rightarrow> edit_box \<Rightarrow> cell list \<times> edit_box" where
  "redraw_all E info eb0 =
     (let (w, h) = ee_screen E; midy = h sdiv 2; midx = (w - edit_box_width) sdiv 2;
          (cells, eb) = Draw E midx midy edit_box_width 1 eb0 in
      (frame_cells E midx midy @ cells
        @ tbprint E (midx + 6) (midy + 3) (map of_char ''Press ESC to quit / '' @ info), eb))"

subsection \<open>The prompt\<close>

datatype key = KeyEsc | KeyEnter | KeyArrowLeft | KeyCtrlB | KeyArrowRight | KeyCtrlF | KeyBackspace | KeyBackspace2
  | KeyDelete | KeyCtrlD | KeyTab | KeySpace | KeyCtrlK | KeyHome | KeyCtrlA | KeyEnd | KeyCtrlE | KeyOther

datatype event = EventKey key rune | EventError | EventOther

datatype outcome = Waiting | Typed bytes | Crashed

definition press :: "edit_env \<Rightarrow> key \<Rightarrow> rune \<Rightarrow> edit_box \<Rightarrow> edit_box go" where
  "press E k ch eb =
     (if k \<in> {KeyArrowLeft, KeyCtrlB} then MoveCursorOneRuneBackward E eb
      else if k \<in> {KeyArrowRight, KeyCtrlF} then MoveCursorOneRuneForward E eb
      else if k \<in> {KeyBackspace, KeyBackspace2} then DeleteRuneBackward E eb
      else if k \<in> {KeyDelete, KeyCtrlD} then DeleteRuneForward eb
      else if k = KeyTab then InsertRune E 9 eb
      else if k = KeySpace then InsertRune E 0x20 eb
      else if k = KeyCtrlK then Ret (DeleteTheRestOfTheLine eb)
      else if k \<in> {KeyHome, KeyCtrlA} then MoveCursorToBeginningOfTheLine E eb
      else if k \<in> {KeyEnd, KeyCtrlE} then MoveCursorToEndOfTheLine E eb
      else if ch \<noteq> 0 then InsertRune E ch eb
      else Ret eb)"

text \<open>After each event the box is drawn again; the cells set are the output, the box keeps its new window.\<close>

definition redrawn :: "edit_env \<Rightarrow> rune list \<Rightarrow> edit_box \<Rightarrow> edit_box" where
  "redrawn E info eb = snd (redraw_all E info eb)"

fun mainloop :: "edit_env \<Rightarrow> rune list \<Rightarrow> event list \<Rightarrow> edit_box \<Rightarrow> outcome \<times> edit_box" where
  "mainloop E info [] eb = (Waiting, eb)"
| "mainloop E info (EventError # evs) eb = (Crashed, eb)"
| "mainloop E info (EventOther # evs) eb = mainloop E info evs (redrawn E info eb)"
| "mainloop E info (EventKey k ch # evs) eb =
     (if k \<in> {KeyEsc, KeyEnter} then (Typed (eb_text eb), eb)
      else case press E k ch eb of Panic \<Rightarrow> (Crashed, eb) | Ret eb1 \<Rightarrow> mainloop E info evs (redrawn E info eb1))"

text \<open>\<open>ok\<close>: the terminal could be initialised.\<close>

definition GetEdit :: "edit_env \<Rightarrow> rune list \<Rightarrow> bool \<Rightarrow> event list \<Rightarrow> edit_box \<Rightarrow> outcome \<times> edit_box" where
  "GetEdit E info ok evs eb = (if \<not> ok then (Crashed, eb) else mainloop E info evs (redrawn E info eb))"

subsection \<open>The text as runes\<close>

lemma byte_slice_insert_eq:
  assumes "offset \<le> length text'"
  shows "byte_slice_insert spare text' offset what = take offset text' @ what @ drop offset text'"
proof -
  obtain pad where p: "take (length what) (spare @ replicate (length what) 0) = pad" "length pad = length what" by simp
  have "copy_at (offset + length what) (drop offset (text' @ pad)) (text' @ pad) =
      take (offset + length what) (text' @ pad) @ drop offset text'"
    using assms p(2) by (auto simp: copy_at_def)
  moreover have "take offset text' @ take (length text' + length pad - offset) what @ drop offset text' =
      take offset text' @ what @ drop offset text'"
    using assms p(2) by simp
  ultimately show ?thesis using assms p(2)
    by (simp only: byte_slice_insert_def Let_def p(1)) (simp add: copy_at_def)
qed

lemma byte_slice_remove_eq:
  "from' \<le> to' \<Longrightarrow> to' \<le> length text' \<Longrightarrow> byte_slice_remove text' from' to' = take from' text' @ drop to' text'"
  by (cases "to' = length text'") (auto simp: byte_slice_remove_def copy_at_def Let_def min_def)

definition enc :: "rune list \<Rightarrow> bytes" where
  "enc rs = concat (map EncodeRune rs)"

lemma enc_simps [simp]: "enc [] = []" "enc (r # rs) = EncodeRune r @ enc rs" "enc (ls @ rs) = enc ls @ enc rs"
  by (simp_all add: enc_def)

lemma EncodeRune_nonempty [simp]: "EncodeRune r \<noteq> []" "0 < length (EncodeRune r)"
  using EncodeRune_length [of r] by auto

lemma enc_Nil_iff [simp]: "enc rs = [] \<longleftrightarrow> rs = []"
  by (cases rs) auto

definition columns_from :: "edit_env \<Rightarrow> int \<Rightarrow> rune list \<Rightarrow> int" where
  "columns_from E v rs = foldl (\<lambda>v r. v + rune_advance_len E r v) v rs"

lemma offsets_rune:
  assumes "scalar r"
  shows "offsets E (EncodeRune r @ p) v c = offsets E p (v + rune_advance_len E r v) (c + 1)"
proof -
  obtain b bs where b: "EncodeRune r = b # bs" using EncodeRune_nonempty(1) [of r] by (meson list.exhaust)
  then have "DecodeRune (b # bs @ p) = (r, Suc (length bs))" using decode_encode [OF assms, of p] by simp
  then show ?thesis by (simp add: b)
qed

lemma offsets_enc: "list_all scalar rs \<Longrightarrow> offsets E (enc rs) v c = (columns_from E v rs, c + int (length rs))"
  by (induction rs arbitrary: v c) (simp_all add: offsets_rune columns_from_def)

text \<open>
  The abstract line: the runes before and after the cursor.  A box represents it when the text
  is their encoding and the three offsets of the cursor agree.
\<close>

type_synonym line = "rune list \<times> rune list"

definition represents :: "edit_env \<Rightarrow> edit_box \<Rightarrow> line \<Rightarrow> bool" where
  "represents E eb l \<longleftrightarrow> (case l of (ls, rs) \<Rightarrow> list_all scalar ls \<and> list_all scalar rs \<and> eb_text eb = enc ls @ enc rs
     \<and> eb_cursor_boffset eb = length (enc ls) \<and> eb_cursor_voffset eb = columns_from E 0 ls
     \<and> eb_cursor_coffset eb = int (length ls))"

lemma MoveCursorTo_represents:
  assumes "list_all scalar ls" "list_all scalar rs" "eb_text eb = enc ls @ enc rs"
  shows "\<exists>eb'. MoveCursorTo E (length (enc ls)) eb = Ret eb' \<and> represents E eb' (ls, rs)"
  using assms by (simp add: MoveCursorTo_def voffset_coffset_def offsets_enc represents_def)

lemma forward_represents:
  assumes "list_all scalar ls" "list_all scalar rs" "scalar r" "eb_text eb = enc ls @ enc (r # rs)"
    "eb_cursor_boffset eb = length (enc ls)"
  shows "\<exists>eb'. MoveCursorOneRuneForward E eb = Ret eb' \<and> represents E eb' (ls @ [r], rs)"
proof -
  have "RuneUnderCursor eb = (r, length (EncodeRune r))"
    using assms decode_encode [of r "enc rs"] by (simp add: RuneUnderCursor_def)
  then show ?thesis using MoveCursorTo_represents [of "ls @ [r]" rs eb E] assms
    by (simp add: MoveCursorOneRuneForward_def)
qed

lemma backward_represents:
  assumes "represents E eb (ls @ [r], rs)"
  shows "\<exists>eb'. MoveCursorOneRuneBackward E eb = Ret eb' \<and> represents E eb' (ls, r # rs)"
proof -
  have "RuneBeforeCursor eb = (r, length (EncodeRune r))"
    using assms decode_last_encode [of r "enc ls"] by (simp add: RuneBeforeCursor_def represents_def)
  then show ?thesis using MoveCursorTo_represents [of ls "r # rs" eb E] assms
    by (simp add: MoveCursorOneRuneBackward_def represents_def)
qed

lemma cut_represents:
  assumes "represents E eb (ls, r # rs)"
  shows "represents E (cut_rune eb) (ls, rs)"
proof -
  have "RuneUnderCursor eb = (r, length (EncodeRune r))"
    using assms decode_encode [of r "enc rs"] by (simp add: RuneUnderCursor_def represents_def)
  then show ?thesis using assms by (simp add: cut_rune_def byte_slice_remove_eq represents_def)
qed

definition clean :: "rune \<Rightarrow> rune" where
  "clean r = (if scalar r then r else RuneError)"

lemma scalar_clean [simp]: "scalar (clean r)"
  by (simp add: clean_def scalar_def RuneError_def)

lemma EncodeRune_clean: "EncodeRune (clean r) = EncodeRune r"
  by (auto simp: EncodeRune_def clean_def Let_def scalar_def RuneError_def)

lemma insert_represents:
  assumes "represents E eb (ls, rs)"
  shows "\<exists>eb'. InsertRune E r eb = Ret eb' \<and> represents E eb' (ls @ [clean r], rs)"
  unfolding InsertRune_def
  by (rule forward_represents) (use assms in \<open>auto simp: represents_def byte_slice_insert_eq EncodeRune_clean\<close>)

subsection \<open>The prompt is a line editor\<close>

definition edit_line :: "key \<Rightarrow> rune \<Rightarrow> line \<Rightarrow> line" where
  "edit_line k ch l = (case l of (ls, rs) \<Rightarrow>
     if k \<in> {KeyArrowLeft, KeyCtrlB} then (if ls = [] then (ls, rs) else (butlast ls, last ls # rs))
     else if k \<in> {KeyArrowRight, KeyCtrlF} then (case rs of [] \<Rightarrow> (ls, rs) | r # rs' \<Rightarrow> (ls @ [r], rs'))
     else if k \<in> {KeyBackspace, KeyBackspace2} then (butlast ls, rs)
     else if k \<in> {KeyDelete, KeyCtrlD} then (ls, tl rs)
     else if k = KeyTab then (ls @ [9], rs)
     else if k = KeySpace then (ls @ [0x20], rs)
     else if k = KeyCtrlK then (ls, [])
     else if k \<in> {KeyHome, KeyCtrlA} then ([], ls @ rs)
     else if k \<in> {KeyEnd, KeyCtrlE} then (ls @ rs, [])
     else if ch \<noteq> 0 then (ls @ [clean ch], rs)
     else (ls, rs))"

fun edit_lines :: "event list \<Rightarrow> line \<Rightarrow> outcome \<times> line" where
  "edit_lines [] l = (Waiting, l)"
| "edit_lines (EventError # evs) l = (Crashed, l)"
| "edit_lines (EventOther # evs) l = edit_lines evs l"
| "edit_lines (EventKey k ch # evs) l =
     (if k \<in> {KeyEsc, KeyEnter} then (Typed (enc (fst l @ snd l)), l) else edit_lines evs (edit_line k ch l))"

lemma clean_keys [simp]: "clean 9 = 9" "clean 0x20 = 0x20"
  by (simp_all add: clean_def scalar_def)

lemma press_represents:
  assumes "represents E eb l"
  shows "\<exists>eb'. press E k ch eb = Ret eb' \<and> represents E eb' (edit_line k ch l)"
proof -
  obtain ls rs where l: "l = (ls, rs)" by (cases l)
  note r = assms [unfolded l]
  have left: "\<exists>eb'. MoveCursorOneRuneBackward E eb = Ret eb' \<and>
      represents E eb' (if ls = [] then (ls, rs) else (butlast ls, last ls # rs))"
    using r backward_represents [of E eb "butlast ls" "last ls" rs]
    by (cases "ls = []") (simp_all add: MoveCursorOneRuneBackward_def represents_def)
  have right: "\<exists>eb'. MoveCursorOneRuneForward E eb = Ret eb' \<and>
      represents E eb' (case rs of [] \<Rightarrow> (ls, rs) | r # rs' \<Rightarrow> (ls @ [r], rs'))"
    using r forward_represents [of ls _ _ eb E] by (cases rs) (simp_all add: MoveCursorOneRuneForward_def represents_def)
  have erase: "\<exists>eb'. DeleteRuneBackward E eb = Ret eb' \<and> represents E eb' (butlast ls, rs)"
    using r left cut_represents [of E _ "butlast ls" "last ls" rs]
    by (cases "ls = []") (auto simp: DeleteRuneBackward_def represents_def)
  have del: "\<exists>eb'. DeleteRuneForward eb = Ret eb' \<and> represents E eb' (ls, tl rs)"
  proof (cases rs)
    case (Cons r' rs')
    then have "represents E (cut_rune eb) (ls, rs')" using cut_represents [of E eb ls r' rs'] r by simp
    moreover have "eb_cursor_boffset eb \<noteq> length (eb_text eb)" using Cons r by (simp add: represents_def)
    ultimately show ?thesis using Cons by (simp add: DeleteRuneForward_def)
  qed (use r in \<open>simp add: DeleteRuneForward_def represents_def\<close>)
  have kill: "\<exists>eb'. Ret (DeleteTheRestOfTheLine eb) = Ret eb' \<and> represents E eb' (ls, [])"
    using r by (simp add: DeleteTheRestOfTheLine_def represents_def)
  have home: "\<exists>eb'. MoveCursorToBeginningOfTheLine E eb = Ret eb' \<and> represents E eb' ([], ls @ rs)"
    using r MoveCursorTo_represents [of "[]" "ls @ rs" eb E] by (simp add: MoveCursorToBeginningOfTheLine_def represents_def)
  have endd: "\<exists>eb'. MoveCursorToEndOfTheLine E eb = Ret eb' \<and> represents E eb' (ls @ rs, [])"
    using r MoveCursorTo_represents [of "ls @ rs" "[]" eb E] by (simp add: MoveCursorToEndOfTheLine_def represents_def)
  have ins: "\<exists>eb'. InsertRune E c eb = Ret eb' \<and> represents E eb' (ls @ [clean c], rs)" for c
    by (rule insert_represents [OF r])
  have other: "\<exists>eb'. (if ch \<noteq> 0 then InsertRune E ch eb else Ret eb) = Ret eb' \<and>
      represents E eb' (if ch \<noteq> 0 then (ls @ [clean ch], rs) else (ls, rs))"
    using ins [of ch] r by simp
  note moves = left right erase del kill home endd other ins [of 9, unfolded clean_keys] ins [of 32, unfolded clean_keys]
  show ?thesis unfolding press_def edit_line_def l prod.case
    by (cases k; simp only: insert_iff empty_iff key.distinct simp_thms if_True if_False; rule moves)
qed

lemma redrawn_eq: "redrawn E info eb = AdjustVOffset edit_box_width eb"
  by (simp add: redrawn_def redraw_all_def Draw_def Let_def split: prod.splits)

lemma AdjustVOffset_frame [simp]:
  "eb_text (AdjustVOffset w eb) = eb_text eb" "eb_cursor_boffset (AdjustVOffset w eb) = eb_cursor_boffset eb"
  "eb_cursor_voffset (AdjustVOffset w eb) = eb_cursor_voffset eb" "eb_cursor_coffset (AdjustVOffset w eb) = eb_cursor_coffset eb"
  by (simp_all add: AdjustVOffset_def Let_def)

lemma redrawn_represents: "represents E eb l \<Longrightarrow> represents E (redrawn E info eb) l"
  by (simp add: redrawn_eq represents_def)

lemma mainloop_represents:
  assumes "represents E eb l"
  shows "fst (mainloop E info evs eb) = fst (edit_lines evs l) \<and> represents E (snd (mainloop E info evs eb)) (snd (edit_lines evs l))"
  using assms
proof (induction evs l arbitrary: eb rule: edit_lines.induct)
  case (4 k ch evs l)
  show ?case
  proof (cases "k \<in> {KeyEsc, KeyEnter}")
    case True
    then show ?thesis using 4(2) by (cases l) (auto simp: represents_def)
  next
    case False
    obtain eb' where "press E k ch eb = Ret eb'" "represents E eb' (edit_line k ch l)"
      using press_represents [OF 4(2)] by blast
    then show ?thesis using 4(1) [OF False redrawn_represents, of eb'] False by simp
  qed
qed (simp_all add: redrawn_represents)

text \<open>
  C34. The prompt refines a line editor: from a box that represents a line, any sequence of keys has
  the outcome the editor of two lists of runes has, byte for byte, and the box left represents
  the editor's line.  In particular no key ever panics, whatever bytes the freed part of the
  text holds and however the runes are encoded.
\<close>

theorem prompt_refines_line_editor:
  assumes "represents E eb l" "edit_lines evs l = (out, l')"
  shows "\<exists>eb'. GetEdit E info True evs eb = (out, eb') \<and> represents E eb' l'"
  using mainloop_represents [OF redrawn_represents, OF assms(1), of info evs info] assms(2)
  by (cases "mainloop E info evs (redrawn E info eb)") (simp add: GetEdit_def)

definition toy_edit_env :: edit_env where
  "toy_edit_env = \<lparr>ee_width = (\<lambda>r. if r < 0x1100 then 1 else 2), ee_EastAsian = False, ee_screen = (80, 25), ee_spare = (\<lambda>_. [])\<rparr>"

definition new_box :: edit_box where
  "new_box = \<lparr>eb_text = [], eb_line_voffset = 0, eb_cursor_boffset = 0, eb_cursor_voffset = 0, eb_cursor_coffset = 0\<rparr>"

lemma new_box_represents: "represents E new_box ([], [])"
  by (simp add: represents_def new_box_def columns_from_def)

definition toy_keys :: "event list" where
  "toy_keys = [EventKey KeyOther 0x68, EventKey KeyOther 0x4E2D, EventKey KeyArrowLeft 0, EventKey KeyOther 0x69, EventOther,
     EventKey KeyEnd 0, EventKey KeyBackspace 0, EventKey KeyEnter 0]"

lemma toy_keys_typed: "edit_lines toy_keys ([], []) = (Typed [0x68, 0x69], ([0x68, 0x69], []))"
  by (simp add: toy_keys_def edit_line_def clean_def scalar_def EncodeRune_def rune_byte_def)

lemma prompt_refines_line_editor_witness:
  "\<exists>eb'. GetEdit toy_edit_env [] True toy_keys new_box = (Typed [0x68, 0x69], eb') \<and> represents toy_edit_env eb' ([0x68, 0x69], [])"
  by (rule prompt_refines_line_editor [OF new_box_represents toy_keys_typed])

subsection \<open>The window\<close>

definition window_ok :: "int \<Rightarrow> edit_box \<Rightarrow> bool" where
  "window_ok w eb \<longleftrightarrow> 0 \<le> eb_line_voffset eb \<and> 0 \<le> CursorX eb \<and> CursorX eb < w"

lemma AdjustVOffset_window:
  assumes "1 \<le> w" "0 \<le> eb_cursor_voffset eb" "0 \<le> eb_line_voffset eb"
  shows "window_ok w (AdjustVOffset w eb)"
proof -
  define ht where "ht = (if preferred_horizontal_threshold > (w - 1) sdiv 2 then (w - 1) sdiv 2 else preferred_horizontal_threshold)"
  have "(w - 1) sdiv 2 = (w - 1) div 2" using assms(1) by (cases "w = 1") (simp_all add: signed_divide_int_def)
  then have ht: "0 \<le> ht" "2 * ht \<le> w - 1" using assms(1) by (auto simp: ht_def preferred_horizontal_threshold_def)
  show ?thesis using ht assms
    unfolding AdjustVOffset_def Let_def ht_def [symmetric] window_ok_def CursorX_def by auto
qed

lemma columns_nonneg:
  assumes "\<And>r. 0 \<le> ee_width E r" "0 \<le> v"
  shows "0 \<le> columns_from E v rs"
  using assms(2)
proof (induction rs arbitrary: v)
  case (Cons r rs)
  have "0 \<le> rune_advance_len E r v"
    using assms(1) pos_mod_bound [of 8 v] by (simp add: rune_advance_len_def tabstop_length_def order_less_imp_le)
  then show ?case using Cons.IH [of "v + rune_advance_len E r v"] Cons.prems by (simp add: columns_from_def)
qed (simp add: columns_from_def)

lemma MoveCursorTo_line_voffset: "MoveCursorTo E n eb = Ret eb' \<Longrightarrow> eb_line_voffset eb' = eb_line_voffset eb"
  by (auto simp: MoveCursorTo_def voffset_coffset_def split: if_splits prod.splits)

lemma press_line_voffset: "press E k ch eb = Ret eb' \<Longrightarrow> eb_line_voffset eb' = eb_line_voffset eb"
  by (auto simp: press_def MoveCursorOneRuneBackward_def MoveCursorOneRuneForward_def DeleteRuneBackward_def
      DeleteRuneForward_def InsertRune_def DeleteTheRestOfTheLine_def MoveCursorToBeginningOfTheLine_def
      MoveCursorToEndOfTheLine_def cut_rune_def go_bind_Ret_conv dest!: MoveCursorTo_line_voffset split: if_splits)

lemma redrawn_window:
  assumes "represents E eb l" "0 \<le> eb_line_voffset eb" "\<And>r. 0 \<le> ee_width E r"
  shows "window_ok edit_box_width (redrawn E info eb)"
proof -
  have "0 \<le> eb_cursor_voffset eb"
    using assms(1) columns_nonneg [of E 0 "fst l"] assms(3) by (auto simp: represents_def split: prod.splits)
  then show ?thesis using AdjustVOffset_window [of edit_box_width eb] assms(2) by (simp add: redrawn_eq edit_box_width_def)
qed

lemma mainloop_window:
  assumes "represents E eb l" "window_ok edit_box_width eb" "\<And>r. 0 \<le> ee_width E r"
    and "mainloop E info evs eb = (Waiting, eb')"
  shows "window_ok edit_box_width eb'"
  using assms(1,2,4)
proof (induction evs l arbitrary: eb rule: edit_lines.induct)
  case (3 evs l)
  have "window_ok edit_box_width (redrawn E info eb)" using redrawn_window [OF 3(2) _ assms(3)] 3(3) by (simp add: window_ok_def)
  then show ?case using 3(1) [OF redrawn_represents [OF 3(2)]] 3(4) by simp
next
  case (4 k ch evs l)
  obtain eb1 where eb1: "press E k ch eb = Ret eb1" "represents E eb1 (edit_line k ch l)"
    using press_represents [OF 4(2)] by blast
  have "window_ok edit_box_width (redrawn E info eb1)"
    using redrawn_window [OF eb1(2) _ assms(3)] press_line_voffset [OF eb1(1)] 4(3) by (simp add: window_ok_def)
  then show ?case using 4(1) [OF _ redrawn_represents [OF eb1(2)]] eb1(1) 4(4) by (auto split: if_splits)
qed simp_all

text \<open>
  Whenever the prompt waits for a key, the cursor is inside its window, after any keys and
  wherever the text has been scrolled to, tabs and wide runes included.
\<close>

theorem cursor_stays_visible:
  assumes "represents E eb l" "0 \<le> eb_line_voffset eb" "\<And>r. 0 \<le> ee_width E r"
    and "GetEdit E info True evs eb = (Waiting, eb')"
  shows "0 \<le> CursorX eb' \<and> CursorX eb' < edit_box_width"
  using mainloop_window [OF redrawn_represents redrawn_window, OF assms(1) assms(1-3) assms(3)] assms(4)
  by (simp add: GetEdit_def window_ok_def)

lemma cursor_stays_visible_witness:
  "\<exists>eb'. GetEdit toy_edit_env [] True [EventKey KeyTab 0] new_box = (Waiting, eb') \<and> 0 \<le> CursorX eb' \<and> CursorX eb' < edit_box_width"
proof -
  obtain eb' where "GetEdit toy_edit_env [] True [EventKey KeyTab 0] new_box = (Waiting, eb')"
    using mainloop_represents [OF redrawn_represents, OF new_box_represents, of toy_edit_env "[]" "[EventKey KeyTab 0]" "[]"]
    by (cases "mainloop toy_edit_env [] [EventKey KeyTab 0] (redrawn toy_edit_env [] new_box)") (simp add: GetEdit_def)
  moreover have "0 \<le> CursorX eb' \<and> CursorX eb' < edit_box_width"
    by (rule cursor_stays_visible [OF new_box_represents _ _ calculation]) (simp_all add: new_box_def toy_edit_env_def)
  ultimately show ?thesis by blast
qed

text \<open>
  The box is a package variable that nothing resets: whatever was typed in one prompt is what the
  next one returns when the user only presses Enter, a password before a name for instance.
\<close>

theorem next_prompt_keeps_text:
  assumes "GetEdit E info True evs eb = (Typed answer, eb')"
  shows "fst (GetEdit E info' True [EventKey KeyEnter ch] eb') = Typed answer"
proof -
  have "eb_text b' = t" if "mainloop E info evs b = (Typed t, b')" for b b' t
    using that by (induction E info evs b rule: mainloop.induct) (auto split: if_splits go.splits)
  then show ?thesis using assms by (simp add: GetEdit_def redrawn_eq)
qed

lemma next_prompt_keeps_text_witness:
  "\<exists>eb'. GetEdit toy_edit_env [] True toy_keys new_box = (Typed [0x68, 0x69], eb')
    \<and> fst (GetEdit toy_edit_env [] True [EventKey KeyEnter 0] eb') = Typed [0x68, 0x69]"
proof -
  obtain eb' where "GetEdit toy_edit_env [] True toy_keys new_box = (Typed [0x68, 0x69], eb')"
    using mainloop_represents [OF redrawn_represents, OF new_box_represents, of toy_edit_env "[]" toy_keys "[]"]
    by (cases "mainloop toy_edit_env [] toy_keys (redrawn toy_edit_env [] new_box)") (simp add: GetEdit_def toy_keys_typed)
  then show ?thesis using next_prompt_keeps_text by blast
qed

subsection \<open>What is drawn\<close>

definition inside :: "int \<Rightarrow> int \<Rightarrow> int \<Rightarrow> cell \<Rightarrow> bool" where
  "inside x y w c \<longleftrightarrow> x \<le> fst c \<and> fst c < x + w \<and> fst (snd c) = y"

lemma inside_cell [simp]: "inside x y w (a, b, c) \<longleftrightarrow> x \<le> a \<and> a < x + w \<and> b = y"
  by (simp add: inside_def)

lemma tab_cells_inside: "list_all (inside x y w) (fst (tab_cells x y w v lx n))"
proof (induction n arbitrary: lx)
  case (Suc n)
  show ?case using Suc [of "lx + 1"] by (cases "tab_cells x y w v (lx + 1) n") (simp add: Let_def)
qed simp

lemma draw_text_inside: "0 < w \<Longrightarrow> list_all (inside x y w) (draw_text E x y w v t lx tabstop)"
proof (induction E x y w v t lx tabstop rule: draw_text.induct)
  case (2 E x y w v b bs lx tabstop)
  obtain r k where d: "DecodeRune (b # bs) = (r, k)" by (cases "DecodeRune (b # bs)")
  define ts where "ts = (if lx = tabstop then tabstop + tabstop_length else tabstop)"
  obtain cs lx' where t: "tab_cells x y w v lx (nat (ts - lx)) = (cs, lx')" by (cases "tab_cells x y w v lx (nat (ts - lx))")
  have "list_all (inside x y w) cs" using tab_cells_inside [of x y w v lx "nat (ts - lx)"] t by simp
  then show ?case using 2 d t by (simp add: Let_def ts_def [symmetric] del: drop_Suc_Cons DecodeRune.simps)
qed simp

text \<open>
  Drawing a box sets cells of its own row and columns only, however the text is scrolled and
  whatever widths its runes have.
\<close>

theorem draw_stays_inside:
  assumes "0 < w" "c \<in> set (fst (Draw E x y w 1 eb))"
  shows "x \<le> fst c \<and> fst c < x + w \<and> fst (snd c) = y"
proof -
  have "list_all (inside x y w) (fst (Draw E x y w 1 eb))"
    using assms(1) draw_text_inside [of w x y E "eb_line_voffset (AdjustVOffset w eb)" "eb_text eb" 0 0]
    by (auto simp: Draw_def Let_def fill_cells_def list_all_iff)
  then show ?thesis using assms(2) by (simp add: list_all_iff inside_def)
qed

lemma draw_stays_inside_witness:
  "(3::int) \<le> 4 \<and> (4::int) < 3 + 2 \<and> (7::int) = 7"
proof -
  have "(4, 7, 0x20) \<in> set (fst (Draw toy_edit_env 3 7 2 1 new_box))"
    by (simp add: Draw_def Let_def fill_cells_def)
  then show ?thesis using draw_stays_inside [of 2 "(4, 7, 0x20)" toy_edit_env 3 7 new_box] by simp
qed

lemma draw_text_rune:
  assumes "scalar r" "r \<noteq> 9" "lx - v < w"
  shows "draw_text E x y w v (EncodeRune r @ p) lx tabstop =
    (if lx - v \<ge> 0 then [(x + (lx - v), y, r)] else [])
      @ draw_text E x y w v p (lx + ee_width E r) (if lx = tabstop then tabstop + tabstop_length else tabstop)"
proof -
  obtain b bs where b: "EncodeRune r = b # bs" using EncodeRune_nonempty(1) [of r] by (meson list.exhaust)
  then have "DecodeRune (b # bs @ p) = (r, Suc (length bs))" using decode_encode [OF assms(1), of p] by simp
  then show ?thesis using assms by (simp add: b Let_def)
qed

lemma draw_text_tab:
  assumes "lx - v < w" "lx \<noteq> tabstop" "tabstop \<le> lx"
  shows "draw_text E x y w v (EncodeRune 9 @ p) lx tabstop = draw_text E x y w v p lx tabstop"
proof -
  have e: "EncodeRune 9 = [rune_byte 9]" by (simp add: EncodeRune_def)
  have "DecodeRune (rune_byte 9 # p) = (9, 1)" using decode_encode [of 9 p] by (simp add: e scalar_def)
  then show ?thesis using assms by (simp add: e Let_def)
qed

text \<open>
  A rune of two columns across a tab stop disturbs the drawing: the stop is only advanced when a
  column equals it, so a tab after the rune is drawn with no width at all and the text behind it
  appears at column 9, where the cursor takes it to be at column 16.
\<close>

theorem tab_after_wide_rune:
  assumes "ee_width E 0x61 = 1" "ee_width E 0x4E2D = 2" "9 < w"
  shows "(x + 9, y, 0x62) \<in> set (draw_text E x y w 0 (enc [0x61, 0x61, 0x61, 0x61, 0x61, 0x61, 0x61, 0x4E2D, 9, 0x62]) 0 0) \<and>
    columns_from E 0 [0x61, 0x61, 0x61, 0x61, 0x61, 0x61, 0x61, 0x4E2D, 9] = 16"
proof -
  have s: "scalar 0x61" "scalar 0x4E2D" "scalar 0x62" by (simp_all add: scalar_def)
  show ?thesis
    using assms by (simp add: draw_text_rune draw_text_rune [where p = "[]", unfolded append_Nil2] s draw_text_tab tabstop_length_def columns_from_def rune_advance_len_def
      del: draw_text.simps)
qed

end
