(* ===== verification/Server_Probe.thy ===== *)
theory Server_Probe
  imports Client_Server Route_Book
begin

text \<open>
  The requests of the tools to a server, \<open>src/servercontroll/test.go\<close>: the speed test of a route, the
  update, and the test of a host.  What a GET or a POST gives, the decoding of JSON and the time
  that passed are parameters; so is what becomes of a tunnel the test would open.
\<close>

record probe_env =
  pe_gs :: gslib
  pe_get :: "string \<Rightarrow> int \<Rightarrow> string \<times> goerr option"
  pe_post :: "string \<Rightarrow> jdict option \<Rightarrow> int option \<Rightarrow> string \<times> goerr option"
  pe_unmarshal :: "string \<Rightarrow> goerr + jdict"
  pe_config :: "jval \<Rightarrow> goerr + config"
  pe_since :: int
  pe_tunnel :: "config \<Rightarrow> int list"

definition Second :: int where "Second = 1000000000"

text \<open>The address of the API, with its port and the scheme https.\<close>

definition api_base :: "probe_env \<Rightarrow> string \<Rightarrow> string go" where
  "api_base E server0 =
     (let G = pe_gs E; server = (if \<not> gs_In G server0 '':55443'' then server0 @ '':55443'' else server0) in
      if gs_In G server ''://'' then
        (case gs_Split G server ''://'' of _ # p # _ \<Rightarrow> Ret (''https://'' @ p) | _ \<Rightarrow> Panic)
      else Ret (''https://'' @ server))"

subsection \<open>The speed test\<close>

definition probe_entry :: "string \<Rightarrow> jval \<Rightarrow> bool \<times> string list \<Rightarrow> (bool \<times> string list) go" where
  "probe_entry k v st = (case st of (ok, IDS) \<Rightarrow>
     if k = ''status'' then
       (case v of JStr s \<Rightarrow> Ret (if s \<noteq> ''ok'' then False else ok, IDS) | _ \<Rightarrow> Panic)
     else if k = ''msg'' then
       (case v of
          JObj d \<Rightarrow> (case map_of d ''ids'' of Some (JArr vs) \<Rightarrow> go_bind (all_strings vs) (\<lambda>ids. Ret (ok, IDS @ ids)) | _ \<Rightarrow> Panic)
        | _ \<Rightarrow> Ret (ok, IDS))
     else if k = ''ids'' then
       (case v of JArr vs \<Rightarrow> go_bind (all_strings vs) (\<lambda>ids. Ret (ok, IDS @ ids)) | _ \<Rightarrow> Panic)
     else Ret (ok, IDS))"

fun probe_scan :: "jdict \<Rightarrow> bool \<times> string list \<Rightarrow> (bool \<times> string list) go" where
  "probe_scan [] st = Ret st"
| "probe_scan ((k, v) # d) st = go_bind (probe_entry k v st) (probe_scan d)"

definition TestServer :: "probe_env \<Rightarrow> string \<Rightarrow> (int \<times> string list) go" where
  "TestServer E server =
     go_bind (api_base E server) (\<lambda>f.
       case pe_get E (f @ ''/proxy-info'') 7 of
         (_, Some _) \<Rightarrow> Ret (30 * Second, [])
       | (res, None) \<Rightarrow>
           (case pe_unmarshal E res of
              Inl _ \<Rightarrow> Ret (30 * Second, [])
            | Inr djson \<Rightarrow> go_bind (probe_scan djson (True, []))
                (\<lambda>(ok, IDS). Ret (if \<not> ok then 30 * Second else pe_since E, IDS))))"

text \<open>The request it makes; the answer is only printed.\<close>

definition SendUpdate :: "probe_env \<Rightarrow> string \<Rightarrow> (string \<times> goerr option) go" where
  "SendUpdate E server = go_bind (api_base E server) (\<lambda>f. Ret (pe_post E (f @ ''/z11-update'') None None))"

subsection \<open>The test of a host\<close>

text \<open>The configuration that is decoded is not returned.\<close>

definition GetProxyConfig :: "probe_env \<Rightarrow> string \<Rightarrow> string \<Rightarrow> config option go" where
  "GetProxyConfig E host0 tp =
     (let G = pe_gs E;
          host1 = (if \<not> gs_StartsWith G host0 ''http'' then ''https://'' @ host0 else host0);
          host = (if \<not> gs_In G host0 '':55443'' then host1 @ '':55443'' else host1)
      in case gs_Split G host ''/'' of
        _ # p # _ \<Rightarrow>
          (case gs_Split G p '':'' of
             [] \<Rightarrow> Panic
           | server # _ \<Rightarrow>
               (case pe_post E (host @ ''/proxy-get'') (Some [(''type'', JStr tp)]) (Some 10) of
                  (_, Some _) \<Rightarrow> Ret None
                | (reply, None) \<Rightarrow>
                    (case pe_unmarshal E reply of
                       Inl _ \<Rightarrow> Ret None
                     | Inr d \<Rightarrow>
                         (case map_of d ''status'' of
                            None \<Rightarrow> Ret None
                          | Some c \<Rightarrow> go_bind (as_string c) (\<lambda>s.
                              if s = ''ok'' then
                                (case pe_config E (case map_of d ''msg'' of None \<Rightarrow> JNull | Some m \<Rightarrow> m) of
                                   Inl _ \<Rightarrow> Ret None
                                 | Inr conf \<Rightarrow>
                                     let conf' = (if cf_Server conf = SrvStr ''0.0.0.0'' then conf\<lparr>cf_Server := SrvStr server\<rparr> else conf) in
                                     Ret None)
                              else Ret None)))))
      | _ \<Rightarrow> Panic)"

text \<open>\<open>pe_tunnel\<close>: the durations a goroutine adds that got a configuration.\<close>

fun host_probes :: "probe_env \<Rightarrow> string \<Rightarrow> string list \<Rightarrow> int list \<Rightarrow> int list go" where
  "host_probes E host [] tim = Ret tim"
| "host_probes E host (tp # tps) tim =
     go_bind (GetProxyConfig E host tp) (\<lambda>config.
       host_probes E host tps (tim @ (case config of None \<Rightarrow> [3 * Second] | Some c \<Rightarrow> pe_tunnel E c)))"

definition TestHost :: "probe_env \<Rightarrow> string \<Rightarrow> int go" where
  "TestHost E host = go_bind (host_probes E host [''quic'', ''kcp'', ''tls''] []) (\<lambda>tim. Ret (sum_list tim div 3))"

subsection \<open>What the tools learn of a server\<close>

lemma GetProxyConfig_None: "GetProxyConfig E host tp = Ret r \<Longrightarrow> r = None"
  by (auto simp: GetProxyConfig_def Let_def go_bind_Ret_conv split: list.splits option.splits prod.splits sum.splits if_splits)

lemma host_probes_None: "host_probes E host tps tim = Ret t \<Longrightarrow> t = tim @ replicate (length tps) (3 * Second)"
proof (induction tps arbitrary: tim)
  case (Cons tp tps)
  then obtain config where "GetProxyConfig E host tp = Ret config"
    "host_probes E host tps (tim @ (case config of None \<Rightarrow> [3 * Second] | Some c \<Rightarrow> pe_tunnel E c)) = Ret t"
    by (auto simp: go_bind_Ret_conv)
  then show ?case using Cons.IH GetProxyConfig_None by fastforce
qed simp

text \<open>
  The test of a host measures nothing: whatever the server answers, it is three seconds.
\<close>

theorem host_test_constant: "TestHost E host = Ret t \<Longrightarrow> t = 3 * Second"
  by (auto simp: TestHost_def go_bind_Ret_conv Second_def simp del: host_probes.simps dest!: host_probes_None)

text \<open>
  A server that runs the modelled API and gets the request as it is sent, without credentials;
  \<open>je\<close> is the JSON of a configuration.
\<close>

definition refused :: "probe_env \<Rightarrow> api_env \<Rightarrow> (config \<Rightarrow> jval) \<Rightarrow> string \<Rightarrow> bool" where
  "refused E S je host \<longleftrightarrow> (\<exists>f reply rq pl pl' resp. api_base E host = Ret f \<and>
     pe_get E (f @ ''/proxy-info'') 7 = (reply, None) \<and> hr_auth rq = [] \<and>
     serve S ''/proxy-info'' rq pl = Ret (resp, pl') \<and> pe_unmarshal E reply = Inr (body_dict je resp))"

lemma TestServer_refused:
  assumes "refused E S je host"
  shows "TestServer E host = Ret (30 * Second, [])"
proof -
  obtain f reply rq pl pl' resp where r: "api_base E host = Ret f" "pe_get E (f @ ''/proxy-info'') 7 = (reply, None)"
    "hr_auth rq = []" "serve S ''/proxy-info'' rq pl = Ret (resp, pl')" "pe_unmarshal E reply = Inr (body_dict je resp)"
    using assms by (auto simp: refused_def)
  have "resp = unauthorized" using r(3,4) by (simp add: serve_def route_def basicAuth_def)
  then show ?thesis using r by (simp add: TestServer_def body_dict_def unauthorized_def probe_entry_def)
qed

text \<open>What \<open>Test\<close> of a route stores; a panic would end the process.\<close>

definition measured :: "probe_env \<Rightarrow> string \<Rightarrow> int \<times> int" where
  "measured E host = (case TestServer E host of Ret (t, IDS) \<Rightarrow> (t, int (length IDS)) | Panic \<Rightarrow> (0, 0))"

text \<open>
  The tools and the server together: the speed test sends no credentials and the server asks
  for them, so every route is measured with the thirty seconds of a failure, and choosing the
  fastest route chooses nothing.
\<close>

theorem routes_never_measured:
  assumes "sort_ok sorter" "\<And>v. v \<in> set vs \<Longrightarrow> refused E S je (vp_Host v)" "r \<in> set (TestRoutes sorter (measured E) dur vs)"
  shows "vp_ConnectedQuality r = 30 * Second"
proof -
  have "r \<in> set (map (vps_Test (measured E) dur) vs)"
    using assms(1,3) by (simp add: TestRoutes_def sort_ok_def flip: set_mset_mset)
  then show ?thesis using TestServer_refused [OF assms(2)] by (auto simp: vps_Test_def measured_def)
qed

definition toy_probe :: probe_env where
  "toy_probe = \<lparr>pe_gs = gs_std, pe_get = (\<lambda>_ _. ([], None)), pe_post = (\<lambda>_ _ _. ([], None)),
     pe_unmarshal = (\<lambda>_. Inr (body_dict (\<lambda>_. JNull) unauthorized)), pe_config = (\<lambda>_. Inl EOF), pe_since = 5, pe_tunnel = (\<lambda>_. [])\<rparr>"

lemma toy_refused: "refused toy_probe toy_api (\<lambda>_. JNull) ''a''"
proof -
  have "serve toy_api ''/proxy-info'' \<lparr>hr_auth = [], hr_body = Inr []\<rparr> one_tunnel = Ret (unauthorized, one_tunnel)"
    by (simp add: serve_def route_def basicAuth_def)
  moreover have "api_base toy_probe ''a'' = Ret ''https://a:55443''" by code_simp
  moreover have "pe_get toy_probe (''https://a:55443'' @ ''/proxy-info'') 7 = ([], None)"
    "pe_unmarshal toy_probe [] = Inr (body_dict (\<lambda>_. JNull) unauthorized)" by (simp_all add: toy_probe_def)
  moreover have "hr_auth \<lparr>hr_auth = [], hr_body = Inr []\<rparr> = []" by simp
  ultimately show ?thesis unfolding refused_def by blast
qed

lemma routes_never_measured_witness:
  "vp_ConnectedQuality (hd (TestRoutes sort_by (measured toy_probe) (\<lambda>_. []) [zero_vps\<lparr>vp_Host := ''a''\<rparr>])) = 30 * Second"
proof (rule routes_never_measured [OF sort_by_ok])
  show "refused toy_probe toy_api (\<lambda>_. JNull) (vp_Host v)" if "v \<in> set [zero_vps\<lparr>vp_Host := ''a''\<rparr>]" for v
    using that toy_refused by simp
  show "hd (TestRoutes sort_by (measured toy_probe) (\<lambda>_. []) [zero_vps\<lparr>vp_Host := ''a''\<rparr>])
      \<in> set (TestRoutes sort_by (measured toy_probe) (\<lambda>_. []) [zero_vps\<lparr>vp_Host := ''a''\<rparr>])"
    by (simp add: TestRoutes_def sort_by_def)
qed

end
