(* ===== verification/Book_Menu.thy ===== *)
theory Book_Menu
  imports Route_Book "HOL-Library.Sublist"
begin

text \<open>
  The menu over the books of a repository, \<open>Manager\<close> of \<open>src/deploy/git.go\<close>, as a state machine: a mode
  is a prompt the function waits at, and one answer of the user leads to the next mode.  A choice
  is the index in the list shown; \<open>Cancel\<close> is a selection that fails (Ctrl-C).  Building a server
  and opening a shell on one are recorded; the colours and suggestions are left out.
\<close>

datatype answer_in = Pick nat | Cancel | Input string

datatype deed = BuildProxy string string string | OpenShell string

datatype mode = AtBooks | AtNewName | AtPassword string | AtBook
  | AddPassword string | AddIP | AddLabel string string | AddLocation string string string
  | AtItem nat | AtEdit nat | Gone | Killed | Crashed

record menu_env =
  me_b :: book_env
  me_test :: "string \<Rightarrow> int \<times> int"
  me_dur :: "int \<Rightarrow> string"
  me_split2 :: "string \<Rightarrow> string \<Rightarrow> string list"

abbreviation me_gs :: "menu_env \<Rightarrow> gslib" where "me_gs E \<equiv> be_gs (me_b E)"

record menu =
  mn_mode :: mode
  mn_book :: gbook
  mn_git :: git
  mn_deeds :: "deed list"

subsection \<open>One answer\<close>

definition new_book_item :: string where "new_book_item = '' ---  + New book ----''"

text \<open>The files of the clone; the hidden directory of git is not among them.\<close>

definition book_files :: "menu_env \<Rightarrow> git \<Rightarrow> string list" where
  "book_files E t =
     filter (\<lambda>i. \<not> gs_In (me_gs E) i ''README'' \<and> \<not> gs_In (me_gs E) i ''.git'') (case gt_clone t of None \<Rightarrow> [] | Some fs \<Rightarrow> map fst fs)
     @ [new_book_item]"

definition word_char :: "char \<Rightarrow> bool" where
  "word_char c \<longleftrightarrow> (let n = of_char c :: nat in (48 \<le> n \<and> n \<le> 57) \<or> (65 \<le> n \<and> n \<le> 90) \<or> (97 \<le> n \<and> n \<le> 122) \<or> n = 95)"

definition book_name_ok :: "menu_env \<Rightarrow> string \<Rightarrow> bool" where
  "book_name_ok E fname \<longleftrightarrow> \<not> gs_In (me_gs E) fname '' '' \<and> fname \<noteq> [] \<and> list_all word_char fname"

definition choose_user :: "menu_env \<Rightarrow> string \<Rightarrow> string \<Rightarrow> menu \<Rightarrow> menu" where
  "choose_user E fname pwd m =
     (let G = me_gs E; (g, t) = ChooseUser (me_b E) (gs_Trim G fname) (gs_Trim G (gs_Trim G pwd)) (mn_book m) (mn_git m) in
      m\<lparr>mn_book := g, mn_git := t, mn_mode := AtBook\<rparr>)"

definition update_book :: "menu_env \<Rightarrow> menu \<Rightarrow> menu" where
  "update_book E m = (let (f, t) = gb_Update (me_b E) (mn_book m) (mn_git m) in
     m\<lparr>mn_git := t, mn_mode := (if f = Exited then Killed else AtBook)\<rparr>)"

definition build_of :: "vps \<Rightarrow> deed" where
  "build_of v = BuildProxy ''root'' (vp_Host v @ '':22'') (vp_Pwd v)"

definition set_vps :: "nat \<Rightarrow> (vps \<Rightarrow> vps) \<Rightarrow> menu \<Rightarrow> menu" where
  "set_vps i f m = m\<lparr>mn_book := (mn_book m)\<lparr>gb_UsedBook := (gb_UsedBook (mn_book m))[i := f (gb_UsedBook (mn_book m) ! i)]\<rparr>\<rparr>"

definition at_books :: "menu_env \<Rightarrow> nat \<Rightarrow> menu \<Rightarrow> menu" where
  "at_books E n m =
     (let fs = book_files E (mn_git m) in
      if length fs \<le> n then m\<lparr>mn_mode := Crashed\<rparr>
      else if fs ! n = new_book_item then m\<lparr>mn_mode := AtNewName\<rparr> else m\<lparr>mn_mode := AtPassword (fs ! n)\<rparr>)"

text \<open>The menu of a book: its five entries and then the servers.\<close>

definition at_book :: "menu_env \<Rightarrow> nat \<Rightarrow> menu \<Rightarrow> menu" where
  "at_book E n m =
     (let vs = gb_UsedBook (mn_book m) in
      if n = 0 then m\<lparr>mn_mode := AddIP\<rparr>
      else if n = 1 then update_book E m
      else if n = 2 then m\<lparr>mn_deeds := mn_deeds m @ map build_of vs\<rparr>
      else if n = 3 then m\<lparr>mn_book := (mn_book m)\<lparr>gb_UsedBook := map (vps_Test (me_test E) (me_dur E)) vs\<rparr>\<rparr>
      else if n = 4 then m
      else if length vs \<le> n - 5 then m\<lparr>mn_mode := Crashed\<rparr>
      else m\<lparr>mn_mode := AtItem (n - 5)\<rparr>)"

text \<open>What can be done with a server: the fourth entry, to delete it, has no case.\<close>

definition at_item :: "nat \<Rightarrow> nat \<Rightarrow> menu \<Rightarrow> menu" where
  "at_item i n m =
     (let v = gb_UsedBook (mn_book m) ! i in
      if n = 1 then m\<lparr>mn_deeds := mn_deeds m @ [build_of v], mn_mode := AtBook\<rparr>
      else if n = 2 then m\<lparr>mn_deeds := mn_deeds m @ [OpenShell (''root@'' @ vp_Host v @ '':22'' @ ''/'' @ vp_Pwd v)], mn_mode := AtBook\<rparr>
      else if n = 0 then m\<lparr>mn_mode := AtEdit i\<rparr>
      else m\<lparr>mn_mode := AtBook\<rparr>)"

definition assign_field :: "string \<Rightarrow> string \<Rightarrow> vps \<Rightarrow> vps" where
  "assign_field k x v =
     (if k = ''Password'' then v\<lparr>vp_Pwd := x\<rparr>
      else if k = ''Location'' then v\<lparr>vp_Location := x\<rparr>
      else if k = ''Label'' \<or> k = ''Tag'' then v\<lparr>vp_Tag := x\<rparr>
      else v)"

definition at_edit :: "menu_env \<Rightarrow> nat \<Rightarrow> string \<Rightarrow> menu \<Rightarrow> menu" where
  "at_edit E i input m =
     (let G = me_gs E; t = trim_space input in
      if t \<in> {[], ''ok'', ''exit''} then m\<lparr>mn_mode := AtBook\<rparr>
      else if t \<in> {''save'', ''update'', ''commit'', ''push''} then update_book E m
      else if gs_In G t ''='' then
        (case me_split2 E t ''='' of
           k # x # _ \<Rightarrow> set_vps i (assign_field (gs_Trim G k) (gs_Trim G x)) m
         | [k] \<Rightarrow> if gs_Trim G k \<in> {''Password'', ''Location'', ''Label'', ''Tag''} then m\<lparr>mn_mode := Crashed\<rparr> else m
         | [] \<Rightarrow> m\<lparr>mn_mode := Crashed\<rparr>)
      else m)"

definition add_server :: "menu_env \<Rightarrow> string \<Rightarrow> string \<Rightarrow> string \<Rightarrow> string \<Rightarrow> menu \<Rightarrow> menu" where
  "add_server E ip passwd label location m =
     m\<lparr>mn_book := (mn_book m)\<lparr>gb_UsedBook := gb_UsedBook (mn_book m) @ [zero_vps\<lparr>vp_Host := gs_Trim (me_gs E) ip,
         vp_Pwd := trim_space passwd, vp_Tag := trim_space label, vp_Location := location\<rparr>]\<rparr>, mn_mode := AtBook\<rparr>"

text \<open>An answer a prompt cannot give leaves it waiting.\<close>

fun menu_step :: "menu_env \<Rightarrow> menu \<Rightarrow> answer_in \<Rightarrow> menu" where
  "menu_step E m a =
     (case (mn_mode m, a) of
        (AtBooks, Pick n) \<Rightarrow> at_books E n m
      | (AtBooks, Cancel) \<Rightarrow> m\<lparr>mn_mode := Gone\<rparr>
      | (AtNewName, Input s) \<Rightarrow>
          let fname = gs_Trim (me_gs E) s in if book_name_ok E fname then m\<lparr>mn_mode := AtPassword fname\<rparr> else m
      | (AtPassword fname, Input pwd) \<Rightarrow> choose_user E fname pwd m
      | (AtBook, Pick n) \<Rightarrow> at_book E n m
      | (AtBook, Cancel) \<Rightarrow> m\<lparr>mn_mode := AtBooks\<rparr>
      | (AddIP, Input ip) \<Rightarrow> m\<lparr>mn_mode := (if gs_Count (me_gs E) ip ''.'' = 3 then AddPassword ip else AtBook)\<rparr>
      | (AddPassword ip, Input p) \<Rightarrow> m\<lparr>mn_mode := AddLabel ip p\<rparr>
      | (AddLabel ip p, Input l) \<Rightarrow> m\<lparr>mn_mode := AddLocation ip p l\<rparr>
      | (AddLocation ip p l, Input loc) \<Rightarrow> add_server E ip p l loc m
      | (AtItem i, Pick n) \<Rightarrow> at_item i n m
      | (AtItem i, Cancel) \<Rightarrow> m\<lparr>mn_mode := AtBook\<rparr>
      | (AtEdit i, Input s) \<Rightarrow> at_edit E i s m
      | _ \<Rightarrow> m)"

definition Manager :: "menu_env \<Rightarrow> gbook \<Rightarrow> git \<Rightarrow> answer_in list \<Rightarrow> menu" where
  "Manager E g t answers =
     foldl (menu_step E) \<lparr>mn_mode = (if gb_Logined g then AtBooks else Gone), mn_book = g, mn_git = t, mn_deeds = []\<rparr> answers"

subsection \<open>Leaving the menu\<close>

lemma update_book_mode [simp]: "mn_mode (update_book E m) \<in> {Killed, AtBook}"
  by (simp add: update_book_def split: prod.splits)

lemmas menu_ops = at_books_def at_book_def at_item_def at_edit_def choose_user_def add_server_def set_vps_def Let_def

lemma step_not_gone:
  assumes "a \<noteq> Cancel" "mn_mode m \<noteq> Gone"
  shows "mn_mode (menu_step E m a) \<noteq> Gone"
  using assms update_book_mode [of E m]
  by (auto simp: menu_ops split: mode.split answer_in.split list.split prod.split)

text \<open>
  The entry \<open>Exit\<close> of the menu does not leave it (its \<open>break\<close> ends the \<open>switch\<close>), and no other entry
  does: whatever a user picks and types, without cancelling a selection the function never
  returns.
\<close>

theorem menu_left_by_cancel_only:
  assumes "gb_Logined g" "Cancel \<notin> set answers"
  shows "mn_mode (Manager E g t answers) \<noteq> Gone"
proof -
  have "mn_mode (foldl (menu_step E) m as) \<noteq> Gone" if "mn_mode m \<noteq> Gone" "Cancel \<notin> set as" for m "as"
    using that
  proof (induction "as" arbitrary: m)
    case (Cons a "as")
    then have "mn_mode (menu_step E m a) \<noteq> Gone" using step_not_gone [of a m E] by fastforce
    then show ?case using Cons.IH Cons.prems(2) by (simp del: menu_step.simps)
  qed simp
  then show ?thesis using assms by (simp add: Manager_def)
qed

subsection \<open>Deleting a server\<close>

definition hosts_of :: "menu \<Rightarrow> string list" where
  "hosts_of m = map vp_Host (gb_UsedBook (mn_book m))"

fun in_book :: "mode \<Rightarrow> bool" where
  "in_book AtBooks = False" | "in_book AtNewName = False" | "in_book (AtPassword _) = False" | "in_book _ = True"

lemma update_book_hosts [simp]: "hosts_of (update_book E m) = hosts_of m"
  by (simp add: hosts_of_def update_book_def split: prod.splits)

lemma set_vps_hosts: "(\<And>v. vp_Host (f v) = vp_Host v) \<Longrightarrow> hosts_of (set_vps i f m) = hosts_of m"
  by (cases "i < length (gb_UsedBook (mn_book m))")
    (simp_all add: hosts_of_def set_vps_def map_update list_update_beyond list_update_same_conv)

lemma assign_field_host [simp]: "vp_Host (assign_field k x v) = vp_Host v"
  by (simp add: assign_field_def)

lemma vps_Test_host [simp]: "vp_Host (vps_Test test dur v) = vp_Host v"
  by (simp add: vps_Test_def split: prod.splits)

lemma at_edit_hosts: "hosts_of (at_edit E i s m) = hosts_of m"
proof -
  have "hosts_of (m\<lparr>mn_mode := x\<rparr>) = hosts_of m" for x by (simp add: hosts_of_def)
  then show ?thesis by (simp add: at_edit_def Let_def set_vps_hosts split: list.split)
qed

lemma at_edit_in_book: "mn_mode m = AtEdit i \<Longrightarrow> in_book (mn_mode (at_edit E i s m))"
  using update_book_mode [of E m] by (auto simp: at_edit_def Let_def set_vps_def split: list.split)

lemma step_keeps_hosts:
  assumes "in_book (mn_mode m)" "a \<noteq> Cancel"
  shows "in_book (mn_mode (menu_step E m a)) \<and> prefix (hosts_of m) (hosts_of (menu_step E m a))"
proof -
  have edit: "prefix (hosts_of m) (hosts_of (at_edit E i s m))" for i s by (simp add: at_edit_hosts)
  have book: "in_book (mn_mode (at_book E n m)) \<and> prefix (hosts_of m) (hosts_of (at_book E n m))" if "mn_mode m = AtBook" for n
    using that update_book_mode [of E m] update_book_hosts [of E m]
    by (auto simp: at_book_def Let_def hosts_of_def comp_def)
  have item: "in_book (mn_mode (at_item i n m)) \<and> prefix (hosts_of m) (hosts_of (at_item i n m))" for i n
    by (simp add: at_item_def Let_def hosts_of_def)
  have add: "in_book (mn_mode (add_server E ip p l loc m)) \<and> prefix (hosts_of m) (hosts_of (add_server E ip p l loc m))" for ip p l loc
    by (simp add: add_server_def hosts_of_def)
  show ?thesis
    using assms edit book item add at_edit_in_book [of m _ E]
    by (cases "mn_mode m"; cases a) (simp_all add: hosts_of_def)
qed

text \<open>
  The entry \<open>Delete\<close> deletes nothing: whatever is picked and typed in the menu of a book, every
  server it had is still there, in its place.
\<close>

theorem servers_never_deleted:
  assumes "mn_mode m = AtBook" "Cancel \<notin> set answers"
  shows "prefix (hosts_of m) (hosts_of (foldl (menu_step E) m answers))"
proof -
  have "in_book (mn_mode m) \<Longrightarrow> prefix (hosts_of m) (hosts_of (foldl (menu_step E) m answers))"
    using assms(2)
  proof (induction answers arbitrary: m)
    case (Cons a "as")
    then have "in_book (mn_mode (menu_step E m a))" "prefix (hosts_of m) (hosts_of (menu_step E m a))"
      using step_keeps_hosts [of m a E] by auto
    then show ?case using Cons.IH [of "menu_step E m a"] Cons.prems prefix_order.trans by (auto simp del: menu_step.simps)
  qed simp
  then show ?thesis using assms(1) by simp
qed

subsection \<open>A new book\<close>

text \<open>
  A new book starts with the servers of the book shown before: nothing empties the list, and
  the first update encrypts that list with the password of the new book and pushes it under the
  new name, where whoever knows this password can read it.
\<close>

theorem new_book_leaks_old:
  assumes "mn_mode m = AtNewName" "gb_Logined (mn_book m)" "gb_UsedBook (mn_book m) \<noteq> []"
    and "gs_Trim (me_gs E) name = name" "book_name_ok E name" "gs_Trim (me_gs E) pwd = pwd"
    and "gt_clone (mn_git m) = Some fs" "map_of fs name = None"
    and "be_to_json (me_b E) (gb_UsedBook (mn_book m)) = Some js" "\<And>c. be_ok (me_b E) c"
  shows "map_of (gt_remote (mn_git (foldl (menu_step E) m [Input name, Input pwd, Pick 1]))) name =
    Some (be_encrypt (me_b E) (gs_Trim (me_gs E) js) pwd)"
proof -
  define m1 where "m1 = m\<lparr>mn_mode := AtPassword name\<rparr>"
  have s1: "menu_step E m (Input name) = m1" using assms(1,4,5) by (simp add: m1_def)
  define m2 where "m2 = m1\<lparr>mn_book := (mn_book m)\<lparr>gb_User := name, gb_Pwd := pwd\<rparr>, mn_mode := AtBook\<rparr>"
  have s2: "menu_step E m1 (Input pwd) = m2"
    using assms(2,4,6-8) by (simp add: m1_def m2_def choose_user_def ChooseUser_def)
  have "gb_Update (me_b E) (mn_book m2) (mn_git m2) = publish (me_b E) (store name (be_encrypt (me_b E) (gs_Trim (me_gs E) js) pwd) (mn_git m))"
    using assms(3,7,9,10) by (simp add: m1_def m2_def gb_Update_def Suc_le_eq)
  then have "gt_remote (mn_git (menu_step E m2 (Pick 1))) = AList.update name (be_encrypt (me_b E) (gs_Trim (me_gs E) js) pwd) fs"
    using assms(7,10) by (simp add: m2_def at_book_def update_book_def publish_def store_def)
  then show ?thesis by (simp add: s1 s2 update_conv del: menu_step.simps)
qed

subsection \<open>Instances\<close>

definition toy_menu_env :: menu_env where
  "toy_menu_env = \<lparr>me_b = toy_book_env, me_test = toy_test, me_dur = itoa, me_split2 = (\<lambda>s sep. split_str sep s)\<rparr>"

definition toy_menu :: "mode \<Rightarrow> menu" where
  "toy_menu md = \<lparr>mn_mode = md, mn_book = toy_gbook\<lparr>gb_Logined := True, gb_UsedBook := toy_routes\<rparr>,
     mn_git = \<lparr>gt_remote = [], gt_clone = Some [(''old'', ''x'')]\<rparr>, mn_deeds = []\<rparr>"

lemma menu_left_by_cancel_only_witness:
  "mn_mode (Manager toy_menu_env (mn_book (toy_menu AtBooks)) (mn_git (toy_menu AtBooks)) [Pick 0, Input ''p'', Pick 4]) \<noteq> Gone"
  by (rule menu_left_by_cancel_only) (simp_all add: toy_menu_def)

lemma servers_never_deleted_witness:
  "prefix (hosts_of (toy_menu AtBook)) (hosts_of (foldl (menu_step toy_menu_env) (toy_menu AtBook) [Pick 5, Pick 3]))"
  by (rule servers_never_deleted) (simp_all add: toy_menu_def)

lemma new_book_leaks_old_witness:
  "map_of (gt_remote (mn_git (foldl (menu_step toy_menu_env) (toy_menu AtNewName) [Input ''new'', Input ''pw'', Pick 1]))) ''new'' =
    Some (be_encrypt toy_book_env (gs_Trim gs_std ''[1.2.3.4]'') ''pw'')"
proof -
  have trim: "gs_Trim gs_std ''new'' = ''new''" "gs_Trim gs_std ''pw'' = ''pw''" by code_simp+
  have ok: "book_name_ok toy_menu_env ''new''"
    by (simp add: book_name_ok_def toy_menu_env_def toy_book_env_def gs_std_def word_char_def) code_simp
  show ?thesis
    using new_book_leaks_old [of "toy_menu AtNewName" toy_menu_env "''new''" "''pw''" "[(''old'', ''x'')]" "''[1.2.3.4]''"] trim ok
    by (simp add: toy_menu_def toy_menu_env_def toy_book_env_def toy_routes_def toy_vps_def del: menu_step.simps)
qed

end
