(* ===== verification/Vps_Provider.thy ===== *)
theory Vps_Provider
  imports Route_Book
begin

text \<open>
  The requests to the hosting provider: the administration page of \<open>src/deploy/web_vman.go\<close>, the
  search of \<open>src/deploy/dev_server.go\<close>, and the options and creation of instances of
  \<open>src/deploy/vul.go\<close>.  What the provider answers is a parameter, a function of the request and of
  how many were made before.  Lists chosen from on the terminal are left out.
\<close>

datatype vreq = VReq string string string "jdict option"

record provider =
  pr_gs :: gslib
  pr_json :: "string \<Rightarrow> goerr + jdict"
  pr_text :: "nat \<Rightarrow> vreq \<Rightarrow> string"
  pr_reply :: "nat \<Rightarrow> vreq \<Rightarrow> jdict option"
  pr_error :: "goerr \<Rightarrow> string"
  pr_page :: "goerr option \<times> string"

text \<open>The requests made, those still to be made by goroutines, and what was written to the browser.\<close>

datatype vout = VHeader int | VText string

record vman =
  vm_made :: "vreq list"
  vm_started :: "vreq list"
  vm_out :: "vout list"

type_synonym 'a vio = "(vman, 'a) io"

definition vm_write :: "string \<Rightarrow> unit vio" where
  "vm_write t = io_do (\<lambda>s. s\<lparr>vm_out := vm_out s @ [VText t]\<rparr>)"

definition vm_start :: "vreq \<Rightarrow> unit vio" where
  "vm_start r = io_do (\<lambda>s. s\<lparr>vm_started := vm_started s @ [r]\<rparr>)"

definition vm_make :: "provider \<Rightarrow> vreq \<Rightarrow> string vio" where
  "vm_make E r s = (Ret (pr_text E (length (vm_made s)) r), s\<lparr>vm_made := vm_made s @ [r]\<rparr>)"

definition VulDel :: "string \<Rightarrow> string \<Rightarrow> vreq" where
  "VulDel url api = VReq ''DELETE'' url api None"

definition VulGet :: "string \<Rightarrow> string \<Rightarrow> vreq" where
  "VulGet url api = VReq ''GET'' url api None"

definition VulPost :: "string \<Rightarrow> string \<Rightarrow> string \<Rightarrow> string \<Rightarrow> string \<Rightarrow> vreq" where
  "VulPost url token plat_id region_id my_tag = VReq ''POST'' url token
     (Some [(''region'', JStr region_id), (''plan'', JStr plat_id), (''label'', JStr my_tag), (''os_id'', JNum 1743),
       (''tags'', JArr [JStr my_tag])])"

subsection \<open>The administration page\<close>

definition api_url :: "string \<Rightarrow> string" where
  "api_url path = ''https://api.vultr.com/v2/'' @ path"

definition ok_json :: string where "ok_json = ''{\"status\":\"ok\"}''"

fun vman_del :: "provider \<Rightarrow> string \<Rightarrow> jval list \<Rightarrow> unit vio" where
  "vman_del E token [] = io_ret ()"
| "vman_del E token (JStr i # ids) =
     io_then (vm_start (VulDel (gs_F (pr_gs E) (api_url ''instances/%s'') [FStr i]) token)) (vman_del E token ids)"
| "vman_del E token (_ # ids) = vman_del E token ids"

text \<open>The loop that starts one creation after another, \<open>I\<close> of them so far; \<open>k\<close> rounds are left.\<close>

fun vman_add :: "jdict \<Rightarrow> string \<Rightarrow> jval \<Rightarrow> jval list \<Rightarrow> nat \<Rightarrow> nat \<Rightarrow> int \<Rightarrow> int vio" where
  "vman_add data token plan_id regions i 0 n = io_ret n"
| "vman_add data token plan_id regions i (Suc k) n =
     io_bind (io_go (as_string (regions ! (i mod length regions)))) (\<lambda>region.
       case map_of data ''my_tag'' of
         None \<Rightarrow> vman_add data token plan_id regions (i + 1) k n
       | Some my_tag \<Rightarrow>
           io_bind (io_go (as_string plan_id)) (\<lambda>plan.
           io_bind (io_go (as_string my_tag)) (\<lambda>tag.
             io_then (vm_start (VulPost (api_url ''instances'') token plan region tag))
               (vman_add data token plan_id regions (i + 1) k (n + 1)))))"

definition as_array :: "jval \<Rightarrow> jval list go" where
  "as_array v = (case v of JArr vs \<Rightarrow> Ret vs | _ \<Rightarrow> Panic)"

definition vman_create :: "provider \<Rightarrow> jdict \<Rightarrow> string \<Rightarrow> unit vio" where
  "vman_create E data token =
     io_bind
       (case (map_of data ''plan_id'', map_of data ''region_id'', map_of data ''create_num'') of
          (Some plan_id, Some region_id, Some c) \<Rightarrow>
            io_bind (io_go (as_string c)) (\<lambda>num.
            io_bind (io_go (as_array region_id)) (\<lambda>regions.
              if 0 < length regions then vman_add data token plan_id regions 0 (nat (fst (atoi num))) 0 else io_ret 0))
        | _ \<Rightarrow> io_ret 0)
       (\<lambda>n. vm_write (gs_F (pr_gs E) ''{\"status\":\"ok\",\"num\":%d}'' [FInt n]))"

definition vman_op :: "provider \<Rightarrow> string \<Rightarrow> jdict \<Rightarrow> string \<Rightarrow> unit vio" where
  "vman_op E oper data token =
     (if oper = ''del'' then
        io_then (case map_of data ''ids'' of Some (JArr ids) \<Rightarrow> vman_del E token ids | _ \<Rightarrow> io_ret ()) (vm_write ok_json)
      else if oper = ''list'' then io_bind (vm_make E (VulGet (api_url ''instances?per_page=100'') token)) vm_write
      else if oper = ''plans'' then io_bind (vm_make E (VulGet (api_url ''plans?per_page=40'') token)) vm_write
      else if oper = ''regions'' then io_bind (vm_make E (VulGet (api_url ''regions?per_page=40'') token)) vm_write
      else if oper = ''add'' then vman_create E data token
      else io_ret ())"

definition vman_error :: "provider \<Rightarrow> goerr \<Rightarrow> unit vio" where
  "vman_error E e = io_then (io_do (\<lambda>s. s\<lparr>vm_out := vm_out s @ [VHeader 503]\<rparr>))
     (vm_write (''error:'' @ pr_error E e))"

text \<open>A page for any method but POST; \<open>pr_page\<close> is what rendering it gives.\<close>

definition Web_Vman :: "provider \<Rightarrow> string \<Rightarrow> goerr + string \<Rightarrow> unit vio" where
  "Web_Vman E method body =
     (if method = ''POST'' then
        (case body of
           Inl e \<Rightarrow> vman_error E e
         | Inr buf \<Rightarrow>
             (case pr_json E buf of
                Inl e \<Rightarrow> vman_error E e
              | Inr data \<Rightarrow>
                  (case (map_of data ''oper'', map_of data ''token'') of
                     (Some oper, Some token) \<Rightarrow>
                       io_bind (io_go (as_string token)) (\<lambda>t. io_bind (io_go (as_string oper)) (\<lambda>op. vman_op E op data t))
                   | _ \<Rightarrow> io_ret ())))
      else io_then (io_when (fst (pr_page E) \<noteq> None) (io_do (\<lambda>s. s\<lparr>vm_out := vm_out s @ [VHeader 400]\<rparr>))) (vm_write (snd (pr_page E))))"

subsection \<open>Searching\<close>

definition api_key :: "gslib \<Rightarrow> string \<Rightarrow> string go" where
  "api_key G api =
     (if gs_StartsWith G api ''https://'' then
        (case gs_Split G api ''https://'' of
           _ # p # _ \<Rightarrow> (case gs_Split G p '':'' of k # _ \<Rightarrow> Ret k | [] \<Rightarrow> Panic)
         | _ \<Rightarrow> Panic)
      else Ret api)"

definition field :: "jdict \<Rightarrow> string \<Rightarrow> string go" where
  "field d k = (case map_of d k of None \<Rightarrow> Panic | Some v \<Rightarrow> as_string v)"

definition found_vps :: "gslib \<Rightarrow> string \<Rightarrow> jval \<Rightarrow> vps list go" where
  "found_vps G tag v = (case v of
     JObj vals \<Rightarrow>
       go_bind (field vals ''tag'') (\<lambda>vtag. go_bind (field vals ''label'') (\<lambda>ltag. go_bind (field vals ''kvm'') (\<lambda>kvm.
       go_bind (field vals ''main_ip'') (\<lambda>host. go_bind (field vals ''region'') (\<lambda>location.
         Ret (if gs_In G (vtag @ host @ location @ ltag) tag
           then [zero_vps\<lparr>vp_Host := host, vp_Tag := tag, vp_Pwd := ''V2 Can not visi | '' @ kvm, vp_Location := location\<rparr>]
           else []))))))
   | _ \<Rightarrow> Panic)"

fun search_scan :: "gslib \<Rightarrow> string \<Rightarrow> jval list \<Rightarrow> vps list go" where
  "search_scan G tag [] = Ret []"
| "search_scan G tag (v # vs) = go_bind (found_vps G tag v) (\<lambda>xs. go_bind (search_scan G tag vs) (\<lambda>ys. Ret (xs @ ys)))"

definition SearchFromVultr :: "provider \<Rightarrow> string \<Rightarrow> string \<Rightarrow> vps list go" where
  "SearchFromVultr E tag api =
     go_bind (api_key (pr_gs E) api) (\<lambda>k.
       case pr_reply E 0 (VulGet (api_url ''instances'') k) of
         None \<Rightarrow> Ret []
       | Some d \<Rightarrow> (case map_of d ''instances'' of
           Some (JArr data) \<Rightarrow> search_scan (pr_gs E) tag data
         | _ \<Rightarrow> Panic))"

text \<open>The instances are only looked at when the request failed, and then there are none.\<close>

definition RemoveHost :: "provider \<Rightarrow> string \<Rightarrow> vreq list go" where
  "RemoveHost E api =
     go_bind (api_key (pr_gs E) api) (\<lambda>k.
       let rq = VulGet (api_url ''instances'') k in
       case pr_reply E 0 rq of None \<Rightarrow> Panic | Some _ \<Rightarrow> Ret [rq])"

subsection \<open>Creating instances\<close>

text \<open>\<open>base\<close>: the reply of the provider; a failed request and a DELETE give the nil map.\<close>

definition gv_base :: "provider \<Rightarrow> string \<Rightarrow> string \<Rightarrow> string \<Rightarrow> jdict option \<Rightarrow> nat \<Rightarrow> jdict option" where
  "gv_base E key uri rmethod data n =
     (let r = pr_reply E n (VReq rmethod (''https://api.vultr.com/v2'' @ uri) key data) in
      if rmethod = ''DELETE'' then None else r)"

definition opt_set :: "jdict \<Rightarrow> string \<Rightarrow> bool" where
  "opt_set d k \<longleftrightarrow> (case map_of d k of None \<Rightarrow> False | Some v \<Rightarrow> v \<noteq> JStr [])"

definition opt_val :: "jdict \<Rightarrow> string \<Rightarrow> jval" where
  "opt_val d k = (case map_of d k of None \<Rightarrow> JNull | Some v \<Rightarrow> v)"

definition create_option :: "jdict \<Rightarrow> string \<Rightarrow> jdict" where
  "create_option opts loc =
     [(''plan'', opt_val opts ''plan''), (''os_id'', opt_val opts ''os_id''), (''tags'', opt_val opts ''tags''),
      (''label'', opt_val opts ''label''), (''disable_public_ipv4'', JBool False), (''region'', JStr loc)]"

text \<open>What the entry \<open>Create\<close> asks for: nothing when an option is missing.\<close>

definition create_requests :: "jdict \<Rightarrow> jdict list go" where
  "create_requests opts =
     (if opt_set opts ''plan'' \<and> opt_set opts ''os_id'' \<and> opt_set opts ''label'' \<and> opt_set opts ''region'' then
        go_bind (as_string (opt_val opts ''region'')) (\<lambda>regions.
          Ret (if str_contains regions '','' then map (create_option opts) (split_str '','' regions) else []))
      else Ret [])"

text \<open>Polling for the address of a new instance: the n-th request onwards.\<close>

partial_function (option) wait_ip :: "provider \<Rightarrow> string \<Rightarrow> string \<Rightarrow> nat \<Rightarrow> string \<Rightarrow> string go option" where
  "wait_ip E key vid n ip =
     (if ip = ''0.0.0.0'' \<or> ip = [] then
        (case gv_base E key (''/instances/'' @ vid) ''GET'' None n of
           None \<Rightarrow> wait_ip E key vid (n + 1) ip
         | Some res \<Rightarrow>
             (case map_of res ''instance'' of
                None \<Rightarrow> wait_ip E key vid (n + 1) ip
              | Some JNull \<Rightarrow> wait_ip E key vid (n + 1) ip
              | Some (JObj d) \<Rightarrow> (case field d ''main_ip'' of Panic \<Rightarrow> Some Panic | Ret ip' \<Rightarrow> wait_ip E key vid (n + 1) ip')
              | Some _ \<Rightarrow> Some Panic))
      else Some (Ret ip))"

definition create_instance :: "provider \<Rightarrow> string \<Rightarrow> (string \<times> string) list \<Rightarrow> jdict \<Rightarrow> vps option go option" where
  "create_instance E key cities option =
     (case gv_base E key ''/instances'' ''POST'' (Some option) 0 of
        None \<Rightarrow> Some (Ret None)
      | Some res \<Rightarrow>
          (case map_of res ''instance'' of
             Some (JObj info) \<Rightarrow>
               (case (field info ''main_ip'', field info ''id'') of
                  (Ret ip, Ret vid) \<Rightarrow>
                    (case wait_ip E key vid 1 ip of
                       None \<Rightarrow> None
                     | Some Panic \<Rightarrow> Some Panic
                     | Some (Ret ip') \<Rightarrow>
                         Some (go_bind (field info ''region'') (\<lambda>region. go_bind (field info ''default_password'') (\<lambda>pw.
                           go_bind (field info ''label'') (\<lambda>label.
                             Ret (Some (zero_vps\<lparr>vp_Host := ip', vp_Location := (case map_of cities region of None \<Rightarrow> [] | Some c \<Rightarrow> c),
                               vp_Pwd := pw, vp_Tag := label\<rparr>)))))))
                | _ \<Rightarrow> Some Panic)
           | _ \<Rightarrow> Some Panic))"

subsection \<open>How instances are spread over the regions\<close>

lemma count_mod:
  fixes n k j :: nat
  assumes "j < n"
  shows "length (filter (\<lambda>i. i mod n = j) [0..<k]) = (k + (n - 1 - j)) div n"
proof (induction k)
  case 0
  then show ?case using assms by simp
next
  case (Suc k)
  have "Suc (k + (n - 1 - j)) mod n = 0 \<longleftrightarrow> k mod n = j"
  proof -
    have "Suc (k + (n - 1 - j)) = k + (n - j)" using assms by simp
    also have "(k + (n - j)) mod n = 0 \<longleftrightarrow> (k mod n + (n - j)) mod n = 0" by (simp only: mod_add_left_eq)
    also have "\<dots> \<longleftrightarrow> k mod n = j"
    proof (cases "k mod n < j")
      case True
      then have "k mod n + (n - j) < n" "0 < k mod n + (n - j)" using assms by linarith+
      then show ?thesis using True assms by simp
    next
      case False
      have eq: "k mod n + (n - j) = n + (k mod n - j)" using False assms by simp
      have lt: "k mod n - j < n" using mod_less_divisor [of n k] assms by linarith
      have "(k mod n + (n - j)) mod n = k mod n - j" unfolding eq using lt by (simp only: mod_add_self1 mod_less)
      then show ?thesis using False by simp
    qed
    finally show ?thesis .
  qed
  then show ?case using Suc by (simp add: div_Suc)
qed

lemma spread:
  fixes n k j :: nat
  assumes "j < n"
  shows "length (filter (\<lambda>i. i mod n = j) [0..<k]) \<in> {k div n, k div n + 1}"
proof -
  have "(k + (n - 1 - j)) div n \<le> (k + n) div n" by (rule div_le_mono) simp
  moreover have "k div n \<le> (k + (n - 1 - j)) div n" by (rule div_le_mono) simp
  moreover have "(k + n) div n = k div n + 1" using assms by simp
  ultimately show ?thesis by (simp only: count_mod [OF assms]) auto
qed

lemma vman_add_run:
  assumes "map_of data ''my_tag'' = Some (JStr tag)" "rs \<noteq> []"
  shows "vman_add data token (JStr plan) (map JStr rs) i k n s = (Ret (n + int k), s\<lparr>vm_started := vm_started s @
    map (\<lambda>x. VulPost (api_url ''instances'') token plan (rs ! (x mod length rs)) tag) [i..<i + k]\<rparr>)"
proof (induction k arbitrary: i n s)
  case (Suc k)
  have "[i..<i + Suc k] = i # [Suc i..<Suc i + k]" by (simp add: upt_rec)
  then show ?case using assms Suc
    by (simp add: io_bind_def io_go_def io_then_def vm_start_def io_do_def)
qed (simp add: io_ret_def)

fun asked_region :: "vreq \<Rightarrow> jval option" where
  "asked_region (VReq rmethod url token body) = (case body of None \<Rightarrow> None | Some d \<Rightarrow> map_of d ''region'')"

lemma asked_region_post [simp]: "asked_region (VulPost url token plan region tag) = Some (JStr region)"
  by (simp add: VulPost_def)

text \<open>
  A request to the page to create \<open>k\<close> instances over some regions starts \<open>k\<close> creations, spread
  evenly: each region gets \<open>k div n\<close> or one more, whatever the numbers.
\<close>

theorem instances_spread_evenly:
  assumes "pr_json E buf = Inr data" "map_of data ''oper'' = Some (JStr ''add'')" "map_of data ''token'' = Some (JStr token)"
    and "map_of data ''plan_id'' = Some (JStr plan)" "map_of data ''region_id'' = Some (JArr (map JStr rs))"
    and "map_of data ''create_num'' = Some (JStr num)" "atoi num = (int k, False)" "map_of data ''my_tag'' = Some (JStr tag)"
    and "distinct rs" "r \<in> set rs" "vm_started s = []"
  shows "length (filter (\<lambda>q. asked_region q = Some (JStr r)) (vm_started (snd (Web_Vman E ''POST'' (Inr buf) s))))
    \<in> {k div length rs, k div length rs + 1}"
proof -
  obtain j where j: "j < length rs" "rs ! j = r" using assms(10) by (meson in_set_conv_nth)
  have ne: "rs \<noteq> []" using assms(10) by auto
  have run: "vm_started (snd (Web_Vman E ''POST'' (Inr buf) s)) =
      map (\<lambda>x. VulPost (api_url ''instances'') token plan (rs ! (x mod length rs)) tag) [0..<k]"
    using assms(1-8,11) vman_add_run [OF assms(8) ne, of token plan 0 k 0 s] ne
    by (simp add: Web_Vman_def vman_op_def vman_create_def io_bind_def io_go_def as_array_def vm_write_def io_do_def)
  have "rs ! (x mod length rs) = r \<longleftrightarrow> x mod length rs = j" for x
    using j assms(9) ne by (metis length_greater_0_conv mod_less_divisor nth_eq_iff_index_eq)
  then show ?thesis unfolding run using spread [OF j(1), of k] by (simp add: filter_map comp_def)
qed

subsection \<open>Creating from the terminal\<close>

text \<open>
  What the regions chosen one after another lead to: an instance in each of them, unless only
  one was chosen, in which case none is made (the code asks for a comma in the list first).
\<close>

theorem one_region_never_created:
  assumes "ids \<noteq> []" "\<forall>i \<in> set ids. CHR '','' \<notin> set i" "hd ids \<noteq> []"
    and "opt_set opts ''plan''" "opt_set opts ''os_id''" "opt_set opts ''label''"
    and "map_of opts ''region'' = Some (JStr (join_with CHR '','' ids))"
  shows "create_requests opts = Ret (if length ids = 1 then [] else map (create_option opts) ids)"
proof -
  have ne: "join_with CHR '','' ids \<noteq> []" using assms(1,3) by (cases ids rule: remdups_adj.cases) auto
  have "str_contains (join_with CHR '','' ids) '','' \<longleftrightarrow> length ids \<noteq> 1"
    using assms(1,2) by (cases ids rule: remdups_adj.cases) (auto simp: str_contains_char)
  then show ?thesis using assms ne split_join [OF assms(1,2)]
    by (simp add: create_requests_def opt_set_def opt_val_def split_str_single)
qed

definition no_address :: "jdict option \<Rightarrow> bool" where
  "no_address r \<longleftrightarrow> (case r of None \<Rightarrow> True
     | Some d \<Rightarrow> (case map_of d ''instance'' of Some (JObj i) \<Rightarrow> map_of i ''main_ip'' = Some (JStr ''0.0.0.0'') | Some v \<Rightarrow> v = JNull | None \<Rightarrow> True))"

text \<open>
  The loop that waits for the address of a new instance has no limit: as long as the provider
  answers with the unspecified address, and when it stops answering, it never ends.
\<close>

theorem wait_ip_never_ends:
  assumes "\<And>n r. no_address (pr_reply E n r)"
  shows "wait_ip E key vid n ''0.0.0.0'' = None"
proof -
  have "(\<forall>n r. no_address (pr_reply E n r)) \<longrightarrow> ip \<noteq> ''0.0.0.0''" if run: "wait_ip E key vid n ip = Some x" for n ip x
  proof (rule wait_ip.raw_induct [OF _ run, of "\<lambda>E _ _ _ ip _. (\<forall>n r. no_address (pr_reply E n r)) \<longrightarrow> ip \<noteq> ''0.0.0.0''"], goal_cases)
    case (1 f E key vid n ip x)
    show ?case
    proof (intro impI notI)
      assume none: "\<forall>n r. no_address (pr_reply E n r)" and ip: "ip = ''0.0.0.0''"
      have stuck: False if "f E key vid (n + 1) ''0.0.0.0'' = Some y" for y using 1(1) [OF that] none by simp
      have na: "no_address (gv_base E key (''/instances/'' @ vid) ''GET'' None n)" using none by (simp add: gv_base_def)
      then show False using 1(2) stuck ip
        by (auto simp: no_address_def field_def split: option.splits jval.splits go.splits)
    qed
  qed
  then show ?thesis using assms by (metis option.exhaust)
qed

subsection \<open>Instances of the properties\<close>

definition toy_order :: jdict where
  "toy_order = [(''oper'', JStr ''add''), (''token'', JStr ''t''), (''plan_id'', JStr ''p''), (''create_num'', JStr ''3''),
     (''region_id'', JArr [JStr ''ams'', JStr ''sgp'']), (''my_tag'', JStr ''x'')]"

definition toy_provider :: provider where
  "toy_provider = \<lparr>pr_gs = gs_std, pr_json = (\<lambda>_. Inr toy_order), pr_text = (\<lambda>_ _. []), pr_reply = (\<lambda>_ _. None),
     pr_error = (\<lambda>_. []), pr_page = (None, [])\<rparr>"

lemma instances_spread_evenly_witness:
  "length (filter (\<lambda>q. asked_region q = Some (JStr ''ams'')) (vm_started (snd (Web_Vman toy_provider ''POST'' (Inr ''b'')
    \<lparr>vm_made = [], vm_started = [], vm_out = []\<rparr>)))) \<in> {1, 2}"
proof -
  have three: "atoi ''3'' = (int 3, False)" by code_simp
  have "length (filter (\<lambda>q. asked_region q = Some (JStr ''ams'')) (vm_started (snd (Web_Vman toy_provider ''POST'' (Inr ''b'')
    \<lparr>vm_made = [], vm_started = [], vm_out = []\<rparr>)))) \<in> {3 div length [''ams'', ''sgp''], 3 div length [''ams'', ''sgp''] + 1}"
    by (rule instances_spread_evenly [of toy_provider "''b''" toy_order "''t''" "''p''" "[''ams'', ''sgp'']" "''3''" 3 "''x''"])
      (simp_all add: toy_provider_def toy_order_def three [simplified])
  moreover have "3 div length [''ams'', ''sgp''] = 1" by code_simp
  ultimately show ?thesis by (simp only: one_add_one)
qed

lemma one_region_never_created_witness:
  "create_requests [(''plan'', JStr ''p''), (''os_id'', JNum 1743), (''label'', JStr ''l''), (''region'', JStr ''ams'')] = Ret []"
  using one_region_never_created [of "[''ams'']" "[(''plan'', JStr ''p''), (''os_id'', JNum 1743), (''label'', JStr ''l''), (''region'', JStr ''ams'')]"]
  by (simp add: opt_set_def)

lemma wait_ip_never_ends_witness: "wait_ip toy_provider [] ''i'' 0 ''0.0.0.0'' = None"
  by (rule wait_ip_never_ends) (simp add: toy_provider_def no_address_def)

end
