(* ===== verification/Client_Front.thy ===== *)
theory Client_Front
  imports Client_Routing Os_Shell Server_Probe
begin

text \<open>
  The front of the client, \<open>Socks5Listen\<close> of \<open>src/clientcontroll/controll.go\<close> put together: the start,
  the binding of the port, the accepting loop beside its goroutines, and the whole life of one
  accepted connection from the handshake to its closing.  \<open>DNSListen\<close> is beside it.  Last, a
  connection is followed through the client, the tunnel and the server to its destination.
\<close>

subsection \<open>One connection\<close>

record front_env =
  fe_client :: client_env
  fe_routing :: routing
  fe_dial :: "string \<Rightarrow> goerr + conn"
  fe_FromData :: "bytes \<Rightarrow> goerr + socks_control"
  fe_order :: "nat list"
  fe_sched :: "bool list"

text \<open>What is deferred: the connection is closed; that it is no longer counted comes after.\<close>

definition finished :: "conn \<Rightarrow> dns_tables \<Rightarrow> client \<Rightarrow> conn \<times> dns_tables \<times> client" where
  "finished sock st c = (conn_close sock, st, c)"

definition forward :: "front_env \<Rightarrow> routed \<Rightarrow> bytes \<Rightarrow> string \<Rightarrow> conn \<Rightarrow> dns_tables \<Rightarrow> client \<Rightarrow> (conn \<times> dns_tables \<times> client) act" where
  "forward F way raw host sock st c =
     (case way of
        Direct address \<Rightarrow> ret (finished (tcppipe (fe_dial F) (fe_sched F) sock address) st c)
      | ConfigMe \<Rightarrow> (case RedirectConfig (fe_FromData F) sock c of (sock1, c1) \<Rightarrow> ret (finished sock1 st c1))
      | Proxied \<Rightarrow>
          act_bind (OnBodyBeforeGetRemote (fe_client F) (fe_order F) (fe_sched F) sock True raw host c)
            (\<lambda>((_, sock1), c1). ret (finished sock1 st c1)))"

definition handle_conn :: "front_env \<Rightarrow> conn \<Rightarrow> dns_tables \<Rightarrow> client \<Rightarrow> (conn \<times> dns_tables \<times> client) act" where
  "handle_conn F sock st c =
     (case Socks5HandShake sock of
        (Some _, sock1) \<Rightarrow> ret (finished sock1 st c)
      | (None, sock1) \<Rightarrow>
          (case GetLocalRequest sock1 of (parsed, sock2) \<Rightarrow>
             act_bind (Some parsed) (\<lambda>q.
               if lr_err q \<noteq> None then ret (finished sock2 st c)
               else act_bind (Some (route_request (fe_routing F) (cl_Mode c) (lr_raw q) (lr_host q) (lr_port q) st))
                 (\<lambda>(way, st1). forward F way (lr_raw q) (lr_host q) sock2 st1 c))))"

text \<open>The whole goroutine of a connection, when nothing else touches the count meanwhile.\<close>

definition serve_conn :: "front_env \<Rightarrow> conn \<Rightarrow> dns_tables \<Rightarrow> client \<Rightarrow> (conn \<times> dns_tables \<times> client) act" where
  "serve_conn F sock st c =
     act_bind (handle_conn F sock st c) (\<lambda>(sock1, st1, c1).
       ret (sock1, st1, c1\<lparr>cl_AliveCount := cl_AliveCount c1 - 1\<rparr>))"

subsection \<open>The start\<close>

text \<open>What the control page is told, and the error returned, if the tunnels cannot be built.\<close>

definition listen_start :: "client_env \<Rightarrow> nat list \<Rightarrow> bool \<Rightarrow> client \<Rightarrow> ((string \<times> goerr option) \<times> client) act" where
  "listen_start E order inied c0 =
     (let c = c0\<lparr>cl_closed := True\<rparr> in
      if inied then ret ((''ok'', None), c)
      else act_bind (InitializationTunnels E order c) (\<lambda>(use, c1).
        if \<not> use then ret ((''no'', Some ErrRouteISBreak), c1\<lparr>cl_IsRunning := False, cl_IsBreak := True\<rparr>)
        else ret ((''ok'', None), c1)))"

text \<open>
  What the attempts to listen give, in order.  An address in use is tried again for ever, any
  other error ends the process (the result is False).
\<close>

partial_function (option) bind_port :: "gslib \<Rightarrow> (nat \<Rightarrow> string option) \<Rightarrow> nat \<Rightarrow> bool option" where
  "bind_port G listen n =
     (case listen n of
        None \<Rightarrow> Some True
      | Some e \<Rightarrow> if gs_In G e ''bind: address already in use'' then bind_port G listen (n + 1) else Some False)"

definition listening :: "client \<Rightarrow> client" where
  "listening c = c\<lparr>cl_closeFlag := False, cl_closed := False, cl_acceptCount := 0, cl_IsRunning := True\<rparr>"

subsection \<open>The accepting loop and its goroutines\<close>

text \<open>
  The goroutines the loop has started that have not returned; a connection that is over waits for
  the lock to be taken off the count.  The loop adds a connection to the count without the lock: it reads
  the count and then writes it, and so does the goroutine that holds the lock.  \<open>fr_loop\<close> and
  \<open>fr_lock\<close> hold what they have read; \<open>fr_clashes\<close>, which the program does not have, counts
  the updates that began while another was under way.
\<close>

datatype goroutine = Serving conn | Leaving | Switching

datatype loop_pc = AtHead | Got conn | Counting conn int

record front =
  fr_client :: client
  fr_tables :: dns_tables
  fr_running :: "goroutine list"
  fr_restart :: bool
  fr_lastSwitch :: int
  fr_over :: bool
  fr_loop :: loop_pc
  fr_lock :: "int option"
  fr_clashes :: nat

text \<open>
  What an \<open>Accept\<close> that returned at time \<open>now\<close> leads to: profiles are switched at most every 30 s,
  counted from the end of the last switch; a connection is going to be counted and served.
\<close>

definition accept_one :: "goerr + conn \<Rightarrow> int \<Rightarrow> front \<Rightarrow> front" where
  "accept_one got now f =
     (let f1 = (if fr_lastSwitch f + 30 * second < now then f\<lparr>fr_running := fr_running f @ [Switching]\<rparr> else f) in
      case got of Inl _ \<Rightarrow> f1 | Inr con \<Rightarrow> f1\<lparr>fr_loop := Got con\<rparr>)"

definition count_read :: "conn \<Rightarrow> front \<Rightarrow> front" where
  "count_read con f = f\<lparr>fr_loop := Counting con (cl_AliveCount (fr_client f)),
     fr_clashes := (if fr_lock f = None then fr_clashes f else fr_clashes f + 1)\<rparr>"

definition accepted_one :: "conn \<Rightarrow> int \<Rightarrow> front \<Rightarrow> front" where
  "accepted_one con n f = f\<lparr>fr_client := (fr_client f)\<lparr>cl_AliveCount := n + 1, cl_acceptCount := cl_acceptCount (fr_client f) + 1\<rparr>,
     fr_running := fr_running f @ [Serving con], fr_loop := AtHead\<rparr>"

definition leave_read :: "front \<Rightarrow> front" where
  "leave_read f = f\<lparr>fr_lock := Some (cl_AliveCount (fr_client f)),
     fr_clashes := (case fr_loop f of Counting _ _ \<Rightarrow> fr_clashes f + 1 | _ \<Rightarrow> fr_clashes f)\<rparr>"

definition leave_write :: "int \<Rightarrow> front \<Rightarrow> front" where
  "leave_write n f = f\<lparr>fr_client := (fr_client f)\<lparr>cl_AliveCount := n - 1\<rparr>,
     fr_running := remove1 Leaving (fr_running f), fr_lock := None\<rparr>"

text \<open>
  The steps: a round of the loop, with the two halves of its counting; the end of a connection, with the
  two halves of its leaving under the lock; the end of a switch, a round of the monitor, a request to
  stop.  Each goroutine is taken to run its other shared effects at its end.
\<close>

inductive front_step :: "front_env \<Rightarrow> bool \<Rightarrow> front \<Rightarrow> front \<Rightarrow> bool" for F has_route where
  round: "\<not> fr_over f \<Longrightarrow> fr_loop f = AtHead \<Longrightarrow>
    loop_head (fe_client F) has_route (fe_order F) (fr_restart f) (fr_client f) = Some (Ret (Accept, rs, c)) \<Longrightarrow>
    front_step F has_route f (accept_one got now (f\<lparr>fr_restart := rs, fr_client := c\<rparr>))"
| counts: "fr_loop f = Got con \<Longrightarrow> front_step F has_route f (count_read con f)"
| counted: "fr_loop f = Counting con n \<Longrightarrow> front_step F has_route f (accepted_one con n f)"
| over: "\<not> fr_over f \<Longrightarrow> fr_loop f = AtHead \<Longrightarrow>
    loop_head (fe_client F) has_route (fe_order F) (fr_restart f) (fr_client f) = Some (Ret (r, rs, c)) \<Longrightarrow>
    r \<noteq> Accept \<Longrightarrow> front_step F has_route f (f\<lparr>fr_restart := rs, fr_client := c\<lparr>cl_closed := True\<rparr>, fr_over := True\<rparr>)"
| served: "fr_running f = gs @ Serving con # hs \<Longrightarrow>
    handle_conn F con (fr_tables f) (fr_client f) = Some (Ret (con', st, c)) \<Longrightarrow>
    front_step F has_route f (f\<lparr>fr_client := c, fr_tables := st, fr_running := gs @ Leaving # hs\<rparr>)"
| leaves: "fr_lock f = None \<Longrightarrow> Leaving \<in> set (fr_running f) \<Longrightarrow> front_step F has_route f (leave_read f)"
| left: "fr_lock f = Some n \<Longrightarrow> front_step F has_route f (leave_write n f)"
| switched: "fr_running f = gs @ Switching # hs \<Longrightarrow> AutoSwitchProfile (fe_client F) (fr_client f) = Some (Ret c) \<Longrightarrow>
    front_step F has_route f (f\<lparr>fr_client := c, fr_running := gs @ hs, fr_lastSwitch := now\<rparr>)"
| monitored: "monitor_round (fe_client F) waited (fr_client f) = (asked, c) \<Longrightarrow>
    front_step F has_route f (f\<lparr>fr_client := c, fr_restart := (asked \<or> fr_restart f)\<rparr>)"
| stopped: "front_step F has_route f (f\<lparr>fr_client := (fr_client f)\<lparr>cl_closeFlag := True\<rparr>\<rparr>)"

definition front_start :: "client \<Rightarrow> dns_tables \<Rightarrow> int \<Rightarrow> front" where
  "front_start c st now = \<lparr>fr_client = listening c, fr_tables = st, fr_running = [], fr_restart = False,
    fr_lastSwitch = now, fr_over = False, fr_loop = AtHead, fr_lock = None, fr_clashes = 0\<rparr>"

inductive front_reach :: "front_env \<Rightarrow> bool \<Rightarrow> client \<Rightarrow> dns_tables \<Rightarrow> front \<Rightarrow> bool" for F has_route c st where
  start: "front_reach F has_route c st (front_start c st now)"
| step: "front_reach F has_route c st f \<Longrightarrow> front_step F has_route f f' \<Longrightarrow> front_reach F has_route c st f'"

subsection \<open>Starting from the command line\<close>

text \<open>The client that is run, if the test of the server does not take more than five minutes.\<close>

definition RunLocal :: "probe_env \<Rightarrow> client_env \<Rightarrow> string \<Rightarrow> int \<Rightarrow> nat \<Rightarrow> int \<Rightarrow> client option go" where
  "RunLocal P E server l channelNum now =
     go_bind (TestServer P server) (\<lambda>(r, _).
       Ret (if 5 * 60 * Second < r then None else Some (NewClientControll E server l channelNum now)))"

subsection \<open>The DNS listener\<close>

datatype dns_start = DnsServes string | DnsGivesUp

text \<open>
  \<open>taken\<close> says in each of the ten rounds whether the service is marked as started already; only a
  router waits for it to end.
\<close>

fun dns_rounds :: "os_env \<Rightarrow> string \<Rightarrow> bool list \<Rightarrow> dns_start" where
  "dns_rounds W addr [] = DnsGivesUp"
| "dns_rounds W addr (taken # rest) =
     (if \<not> taken then DnsServes addr else if IsRouter W then dns_rounds W addr rest else DnsGivesUp)"

definition DNSListen :: "bool \<Rightarrow> os_env \<Rightarrow> (nat \<Rightarrow> bool) \<Rightarrow> client \<Rightarrow> dns_start \<times> client" where
  "DNSListen IfStart W taken c =
     (if IfStart then (DnsGivesUp, c)
      else case dns_rounds W (cl_Addr c) (map taken [0..<10]) of
        DnsGivesUp \<Rightarrow> (DnsGivesUp, c)
      | DnsServes a \<Rightarrow> (DnsServes a, c\<lparr>cl_dnsservice := True\<rparr>))"

subsection \<open>Starts that do not start\<close>

text \<open>
  The test reports a server that does not answer as one that takes 30 s, which is less than what
  is refused: the client is started for every server that is down.
\<close>

theorem dead_server_started:
  assumes "api_base P server = Ret f" "\<And>u n. \<exists>x e. pe_get P u n = (x, Some e)"
  shows "RunLocal P E server l n now = Ret (Some (NewClientControll E server l n now))"
proof -
  obtain x e where "pe_get P (f @ ''/proxy-info'') 7 = (x, Some e)" using assms(2) by blast
  then show ?thesis by (simp add: RunLocal_def TestServer_def assms(1) Second_def)
qed

text \<open>A port that is never given up by its owner is waited for without end.\<close>

lemma bind_port_bound:
  assumes "bind_port G listen n = Some y"
  shows "\<exists>k. case listen k of None \<Rightarrow> True | Some e \<Rightarrow> \<not> gs_In G e ''bind: address already in use''"
proof (rule bind_port.raw_induct [OF _ assms], goal_cases)
  case (1 bp G listen n y)
  show ?case
  proof (cases "listen n")
    case None
    then show ?thesis by (intro exI [of _ n]) simp
  next
    case (Some e)
    then show ?thesis using 1(1) [of G listen "n + 1" y] 1(2) by (cases "gs_In G e ''bind: address already in use''") (auto intro!: exI [of _ n])
  qed
qed

theorem port_in_use_waits:
  assumes "\<And>k. \<exists>e. listen k = Some e \<and> gs_In G e ''bind: address already in use''"
  shows "bind_port G listen n = None"
proof (cases "bind_port G listen n")
  case (Some y)
  from bind_port_bound [OF this] assms show ?thesis by (metis option.simps(5))
qed simp

subsection \<open>How far the count of connections is off\<close>

text \<open>
  None of the client's operations but the two counting ones touches the number of connections
  alive.
\<close>

named_theorems alive

lemma alive_pure [simp]:
  "cl_AliveCount (tick c) = cl_AliveCount c" "cl_AliveCount (spawn t c) = cl_AliveCount c"
  "cl_AliveCount (route_fail c) = cl_AliveCount c" "cl_AliveCount (set_slot n s c) = cl_AliveCount c"
  "cl_AliveCount (ErrRecord E i k c) = cl_AliveCount c" "cl_AliveCount (ErrVanish i c) = cl_AliveCount c"
  "cl_AliveCount (route_up c) = cl_AliveCount c" "cl_AliveCount (ClearPofiles c) = cl_AliveCount c"
  "cl_AliveCount (drained c) = cl_AliveCount c" "cl_AliveCount (Init c) = cl_AliveCount c"
  by (simp_all add: tick_def spawn_def route_fail_def set_slot_def ErrRecord_def ErrVanish_def route_up_def ClearPofiles_def
      drained_def Init_def Let_def)

lemma alive_post [alive]: "post E path dat c = (r, c') \<Longrightarrow> cl_AliveCount c' = cl_AliveCount c"
  by (auto simp: post_def)

lemma alive_retry [alive]: "post_retry E n dat res c = (r, c') \<Longrightarrow> cl_AliveCount c' = cl_AliveCount c"
  by (induction E n dat res c rule: post_retry.induct) (auto split: prod.splits if_splits dest: alive_post)

lemma alive_fetch [alive]: "fetch_profile E tp c = Ret (r, c') \<Longrightarrow> cl_AliveCount c' = cl_AliveCount c"
  by (auto simp: fetch_profile_def Let_def go_bind_Ret_conv split: prod.splits if_splits sum.splits dest!: alive_retry)

lemma alive_profile [alive]: "GetAviableProxy E tp c = Some (Ret (r, c')) \<Longrightarrow> cl_AliveCount c' = cl_AliveCount c"
  by (auto simp: GetAviableProxy_def split: if_splits list.splits dest: alive_fetch)

lemma alive_send [alive]:
  "send_profile k c = Some (Ret c') \<Longrightarrow> cl_AliveCount c' = cl_AliveCount c"
  "rotate_profile k c = Some (Ret c') \<Longrightarrow> cl_AliveCount c' = cl_AliveCount c"
  by (auto simp: send_profile_def rotate_profile_def split: if_splits list.splits)

lemma alive_connect [alive]: "connect_tunnel E n k c = Ret (r, c') \<Longrightarrow> cl_AliveCount c' = cl_AliveCount c"
  by (auto simp: connect_tunnel_def close_slot_def go_bind_Ret_conv split: if_splits sum.splits option.splits prod.splits)

lemma alive_rebuild [alive]: "RebuildSmux E n c = Some (Ret (r, c')) \<Longrightarrow> cl_AliveCount c' = cl_AliveCount c"
  by (auto simp: RebuildSmux_def act_bind_Ret split: option.splits prod.splits dest!: alive)

lemma alive_build [alive]: "build_slot E n q r c = Some (Ret (r', c')) \<Longrightarrow> cl_AliveCount c' = cl_AliveCount c"
proof (induction n arbitrary: r c)
  case (Suc n)
  obtain e0 s i pt where r: "r = (e0, s, i, pt)" by (cases r)
  from Suc.prems show ?case
    by (auto simp: r act_bind_Ret Let_def split: prod.splits if_splits dest!: alive_rebuild Suc.IH)
qed (cases r; simp)

lemma alive_reopen [alive]: "reopen_session E q s i pt c = Some (Ret (r, c')) \<Longrightarrow> cl_AliveCount c' = cl_AliveCount c"
  by (auto simp: reopen_session_def act_bind_Ret Let_def split: prod.splits option.splits dest!: alive_rebuild)

lemma alive_session [alive]: "GetSession E c = Some (Ret (r, c')) \<Longrightarrow> cl_AliveCount c' = cl_AliveCount c"
  by (auto simp: GetSession_def use_session_def act_bind_Ret Let_def split: prod.splits option.splits if_splits
      dest!: alive_build alive_reopen)

lemma alive_remote [alive]:
  assumes "ConnectRemote E c = Some (Ret (r, c'))"
  shows "cl_AliveCount c' = cl_AliveCount c"
proof -
  obtain r1 c1 where s: "GetSession E c = Some (Ret (r1, c1))"
    using assms by (auto simp: ConnectRemote_def act_bind_Ret)
  from assms alive_session [OF s] show ?thesis
    by (cases "sr_con r1") (auto simp: ConnectRemote_def act_bind_Ret s split: if_splits)
qed

lemma alive_reconnect [alive]: "ReConnect E q c = Some (Ret (r, c')) \<Longrightarrow> cl_AliveCount c' = cl_AliveCount c"
  by (auto simp: ReConnect_def act_bind_Ret dest!: alive_rebuild)

lemma alive_each:
  assumes "act_each op is c = Some (Ret (r, c'))"
    and "\<And>i c r c'. op i c = Some (Ret (r, c')) \<Longrightarrow> cl_AliveCount c' = cl_AliveCount c"
  shows "cl_AliveCount c' = cl_AliveCount c"
  using assms(1)
proof (induction "is" arbitrary: c r)
  case (Cons i "is")
  then show ?case using assms(2) by (fastforce simp: act_bind_Ret)
qed simp

lemma alive_tunnels [alive]: "InitializationTunnels E order c = Some (Ret (r, c')) \<Longrightarrow> cl_AliveCount c' = cl_AliveCount c"
  by (auto simp: InitializationTunnels_def BuildChannel_def act_bind_Ret Let_def split: if_splits
      dest!: alive_each alive_rebuild)

lemma alive_controll [alive]: "ControllCode E order host c = Some (Ret c') \<Longrightarrow> cl_AliveCount c' = cl_AliveCount c"
  by (auto simp: ControllCode_def ChangeProxyType_def fetch_drop_def act_bind_Ret split: if_splits
      dest!: alive_tunnels alive_each alive_profile)

lemma alive_body [alive]: "OnBodyDo E sched sock remote eid q b raw c = Some (Ret (r, c')) \<Longrightarrow> cl_AliveCount c' = cl_AliveCount c"
  by (auto simp: OnBodyDo_def act_bind_Ret Let_def split: prod.splits if_splits option.splits dest!: alive_reconnect)

lemma alive_relay [alive]:
  assumes "OnBodyBeforeGetRemote E order sched sock b raw host c = Some (Ret (r, c'))"
  shows "cl_AliveCount c' = cl_AliveCount c"
proof (cases "gs_StartsWith (ce_gs E) host ''c://''")
  case True
  then show ?thesis using assms by (auto simp: OnBodyBeforeGetRemote_def act_bind_Ret dest!: alive_controll)
next
  case False
  then obtain r1 c1 where s: "ConnectRemote E c = Some (Ret (r1, c1))"
    using assms by (auto simp: OnBodyBeforeGetRemote_def act_bind_Ret)
  from assms False alive_remote [OF s] show ?thesis
    by (cases "sr_con r1") (auto simp: OnBodyBeforeGetRemote_def act_bind_Ret s split: if_splits
        dest!: alive_reconnect alive_body)
qed

lemma alive_config [alive]: "RedirectConfig D sock c = (r, c') \<Longrightarrow> cl_AliveCount c' = cl_AliveCount c"
  by (auto simp: RedirectConfig_def control_Reply_def Let_def split: prod.splits sum.splits if_splits)

lemma forward_counts:
  "forward F way raw host sock st c = Some (Ret (sock', st', c')) \<Longrightarrow>
    cl_AliveCount c' = cl_AliveCount c"
  by (auto simp: forward_def finished_def act_bind_Ret split: routed.splits prod.splits dest: alive_config dest!: alive_relay)

lemma handle_counts [alive]:
  "handle_conn F sock st c = Some (Ret (sock', st', c')) \<Longrightarrow> cl_AliveCount c' = cl_AliveCount c"
  by (auto simp: handle_conn_def act_bind_Ret finished_def split: prod.splits option.splits if_splits dest: forward_counts)

lemma alive_switch_loop:
  assumes "switch_loop E i c = Some y"
  shows "y = Ret c' \<longrightarrow> cl_AliveCount c' = cl_AliveCount c"
proof (rule switch_loop.raw_induct [OF _ assms], goal_cases)
  case (1 sl E i c y)
  show ?case
  proof (cases "cl_profiles c")
    case Nil
    then show ?thesis using 1(1) [of E i c y] 1(2) by auto
  next
    case (Cons conf rest)
    show ?thesis
    proof (cases "cf_ID conf = i")
      case True
      then show ?thesis using 1(2) Cons
        by (auto simp: act_bind_Ret split: option.splits dest!: alive_profile alive_send)
    next
      case False
      show ?thesis
      proof
        assume y: "y = Ret c'"
        then obtain c1 where c1: "send_profile conf (c\<lparr>cl_profiles := rest\<rparr>) = Some (Ret c1)" "sl E i c1 = Some y"
          using 1(2) Cons False by (auto simp: act_bind_Ret)
        then show "cl_AliveCount c' = cl_AliveCount c" using 1(1) [OF c1(2)] y alive_send(1) [OF c1(1)] by simp
      qed
    qed
  qed
qed

lemma alive_switch [alive]: "AutoSwitchProfile E c = Some (Ret c') \<Longrightarrow> cl_AliveCount c' = cl_AliveCount c"
  using alive_switch_loop [of E _ _ "Ret c'" c'] by (fastforce simp: AutoSwitchProfile_def Let_def split: if_splits)

lemma alive_head [alive]: "loop_head E has_route order restart c = Some (Ret (r, rs, c')) \<Longrightarrow> cl_AliveCount c' = cl_AliveCount c"
  by (auto simp: loop_head_def act_bind_Ret Let_def split: if_splits dest!: alive_tunnels)

lemma alive_monitor [alive]: "monitor_round E waited c = (r, c') \<Longrightarrow> cl_AliveCount c' = cl_AliveCount c"
  by (auto simp: monitor_round_def Health_def Let_def split: if_splits)

text \<open>A connection that was counted and has not been taken off the count.\<close>

definition serving :: "goroutine \<Rightarrow> bool" where
  "serving g \<longleftrightarrow> g \<noteq> Switching"

definition served_now :: "front \<Rightarrow> int" where
  "served_now f = int (length (filter serving (fr_running f)))"

text \<open>
  How far what the count should be (\<open>base\<close> and the connections) is from the count, and from what the two
  who are updating it have read.
\<close>

definition near :: "nat \<Rightarrow> int \<Rightarrow> int \<Rightarrow> bool" where "near k x y \<longleftrightarrow> \<bar>x - y\<bar> \<le> int k"

definition count_inv :: "int \<Rightarrow> front \<Rightarrow> bool" where
  "count_inv base f \<longleftrightarrow>
     (let k = fr_clashes f; should = base + served_now f in
      near k (cl_AliveCount (fr_client f)) should \<and>
      (case (fr_loop f, fr_lock f) of
         (Counting _ n, None) \<Rightarrow> near k n should
       | (Counting _ n, Some m) \<Rightarrow> 0 < k \<and> near (k - 1) n should \<and> near (k - 1) m should \<and> Leaving \<in> set (fr_running f)
       | (_, Some m) \<Rightarrow> near k m should \<and> Leaving \<in> set (fr_running f)
       | _ \<Rightarrow> True))"

lemma count_inv_same:
  assumes "count_inv base f" "cl_AliveCount (fr_client f') = cl_AliveCount (fr_client f)" "served_now f' = served_now f"
    and "fr_loop f' = fr_loop f \<or> (\<exists>con. fr_loop f = AtHead \<and> fr_loop f' = Got con)" "fr_lock f' = fr_lock f"
    and "fr_clashes f' = fr_clashes f" "Leaving \<in> set (fr_running f) \<longrightarrow> Leaving \<in> set (fr_running f')"
  shows "count_inv base f'"
  using assms by (auto simp: count_inv_def Let_def split: loop_pc.splits option.splits)

lemma served_remove: "Leaving \<in> set gs \<Longrightarrow> int (length (filter serving (remove1 Leaving gs))) = int (length (filter serving gs)) - 1"
  by (induction gs) (auto simp: serving_def)

lemma front_step_counts:
  assumes "front_step F has_route f f'" "count_inv base f"
  shows "count_inv base f'"
  using assms(1)
proof (cases rule: front_step.cases)
  case (round rs c got now)
  show ?thesis by (rule count_inv_same [OF assms(2)])
    (use round alive_head [OF round(4)] in \<open>auto simp: accept_one_def served_now_def serving_def Let_def split: sum.splits\<close>)
next
  case (counts con)
  then show ?thesis using assms(2)
    by (auto simp: count_inv_def count_read_def served_now_def near_def Let_def split: option.splits)
next
  case (counted con n)
  then show ?thesis using assms(2)
    by (auto simp: count_inv_def accepted_one_def served_now_def serving_def near_def Let_def split: option.splits)
next
  case (over r rs c)
  show ?thesis by (rule count_inv_same [OF assms(2)]) (use over alive_head [OF over(4)] in \<open>auto simp: served_now_def\<close>)
next
  case (served gs con hs con' st c)
  show ?thesis by (rule count_inv_same [OF assms(2)])
    (use served handle_counts [OF served(3)] in \<open>auto simp: served_now_def serving_def\<close>)
next
  case leaves
  then show ?thesis using assms(2)
    by (auto simp: count_inv_def leave_read_def served_now_def near_def Let_def split: loop_pc.splits)
next
  case (left n)
  then have "Leaving \<in> set (fr_running f)" using assms(2) by (auto simp: count_inv_def Let_def split: loop_pc.splits)
  then show ?thesis using left assms(2)
    by (auto simp: count_inv_def leave_write_def served_now_def served_remove near_def Let_def split: loop_pc.splits)
next
  case (switched gs hs c now)
  show ?thesis by (rule count_inv_same [OF assms(2)])
    (use switched alive_switch [OF switched(3)] in \<open>auto simp: served_now_def serving_def\<close>)
next
  case (monitored waited asked c)
  show ?thesis by (rule count_inv_same [OF assms(2)]) (use monitored alive_monitor [OF monitored(2)] in \<open>auto simp: served_now_def\<close>)
next
  case stopped
  show ?thesis by (rule count_inv_same [OF assms(2)]) (use stopped in \<open>auto simp: served_now_def\<close>)
qed

text \<open>
  C14. However the loop, the connections, the switches of profiles and the monitor interleave, what the client
  shows as the connections alive is off by at most the number of times an update of the count
  began while another was under way: from what it showed at the start plus the connections counted and not yet
  gone.  (It does go wrong, without bound: see \<open>count_drifts\<close>.)
\<close>

theorem connections_counted:
  assumes "front_reach F has_route c st f"
  shows "\<bar>cl_AliveCount (fr_client f) - (cl_AliveCount c + served_now f)\<bar> \<le> int (fr_clashes f)"
proof -
  have "count_inv (cl_AliveCount c) f"
    using assms
  proof (induction rule: front_reach.induct)
    case (start now)
    then show ?case by (simp add: front_start_def listening_def served_now_def count_inv_def near_def)
  next
    case (step f f')
    then show ?case using front_step_counts by blast
  qed
  then show ?thesis by (simp add: count_inv_def near_def Let_def)
qed

text \<open>
  The loop adds to the count without the lock, so every connection that leaves while another is being
  counted can be lost from it: any number of connections may be shown as alive when there is none.
\<close>

definition leaving_state :: "int \<Rightarrow> client \<Rightarrow> nat \<Rightarrow> front \<Rightarrow> bool" where
  "leaving_state now c n f \<longleftrightarrow> fr_running f = [Leaving] \<and> fr_loop f = AtHead \<and> fr_lock f = None \<and> \<not> fr_over f \<and>
     \<not> fr_restart f \<and> \<not> cl_closeFlag (fr_client f) \<and> fr_lastSwitch f = now \<and>
     cl_AliveCount (fr_client f) = cl_AliveCount c + 1 + int n"

lemma head_accepts: "\<not> cl_closeFlag c \<Longrightarrow> loop_head E False order False c = Some (Ret (Accept, False, c))"
  by (simp add: loop_head_def Let_def)

lemma empty_conn_leaves: "\<exists>sock'. handle_conn F (conn_of [] EOF) st c = Some (Ret (sock', st, c))"
proof -
  have "fst (Socks5HandShake (conn_of [] EOF)) = Some EOF" by code_simp
  then show ?thesis by (cases "Socks5HandShake (conn_of [] EOF)") (simp add: handle_conn_def finished_def ret_def)
qed

text \<open>A connection is accepted, and the only one that runs is served.\<close>

lemma accept_step:
  assumes "fr_loop f = AtHead" "\<not> fr_over f" "\<not> fr_restart f" "\<not> cl_closeFlag (fr_client f)"
  shows "front_step F False f (f\<lparr>fr_loop := Got con\<rparr>)"
proof -
  have "accept_one (Inr con) (fr_lastSwitch f) (f\<lparr>fr_restart := False, fr_client := fr_client f\<rparr>) = f\<lparr>fr_loop := Got con\<rparr>"
    using assms(3) by (cases f) (simp add: accept_one_def second_def)
  moreover have "loop_head (fe_client F) False (fe_order F) (fr_restart f) (fr_client f) = Some (Ret (Accept, False, fr_client f))"
    using assms(3) head_accepts [OF assms(4)] by simp
  ultimately show ?thesis using front_step.round [OF assms(2,1), of F False False "fr_client f" "Inr con" "fr_lastSwitch f"] by simp
qed

lemma serve_step:
  assumes "fr_running f = [Serving (conn_of [] EOF)]"
  shows "front_step F has_route f (f\<lparr>fr_running := [Leaving]\<rparr>)"
proof -
  obtain sock' where h: "handle_conn F (conn_of [] EOF) (fr_tables f) (fr_client f) = Some (Ret (sock', fr_tables f, fr_client f))"
    using empty_conn_leaves by blast
  have "front_step F has_route f (f\<lparr>fr_client := fr_client f, fr_tables := fr_tables f, fr_running := [] @ Leaving # []\<rparr>)"
    by (rule front_step.served [OF _ h]) (simp add: assms)
  moreover have "f\<lparr>fr_client := fr_client f, fr_tables := fr_tables f, fr_running := [] @ Leaving # []\<rparr> = f\<lparr>fr_running := [Leaving]\<rparr>"
    by (cases f) simp
  ultimately show ?thesis by (simp only:)
qed

lemma drift_start: "\<exists>f. front_reach F False c st f \<and> leaving_state now c 0 f"
proof -
  let ?con = "conn_of [] EOF" and ?f0 = "front_start c st now"
  let ?f1 = "?f0\<lparr>fr_loop := Got ?con\<rparr>"
  let ?f2 = "count_read ?con ?f1"
  let ?f3 = "accepted_one ?con (cl_AliveCount c) ?f2"
  have s1: "front_step F False ?f0 ?f1" by (rule accept_step) (simp_all add: front_start_def listening_def)
  have s2: "front_step F False ?f1 ?f2" by (rule front_step.counts) simp
  have s3: "front_step F False ?f2 ?f3" by (rule front_step.counted) (simp add: count_read_def front_start_def listening_def)
  have s4: "front_step F False ?f3 (?f3\<lparr>fr_running := [Leaving]\<rparr>)"
    by (rule serve_step) (simp add: accepted_one_def count_read_def front_start_def)
  have "front_reach F False c st (?f3\<lparr>fr_running := [Leaving]\<rparr>)"
    using front_reach.step [OF front_reach.step [OF front_reach.step [OF front_reach.step [OF front_reach.start s1] s2] s3] s4] .
  then show ?thesis
    by (intro exI [of _ "?f3\<lparr>fr_running := [Leaving]\<rparr>"])
      (simp add: leaving_state_def accepted_one_def count_read_def front_start_def listening_def)
qed

lemma drift_more:
  assumes "front_reach F False c st f" "leaving_state now c n f"
  shows "\<exists>f'. front_reach F False c st f' \<and> leaving_state now c (Suc n) f'"
proof -
  let ?con = "conn_of [] EOF" and ?a = "cl_AliveCount (fr_client f)"
  let ?f1 = "f\<lparr>fr_loop := Got ?con\<rparr>"
  let ?f2 = "count_read ?con ?f1"
  let ?f3 = "leave_read ?f2"
  let ?f4 = "leave_write ?a ?f3"
  let ?f5 = "accepted_one ?con ?a ?f4"
  note f = assms(2) [unfolded leaving_state_def]
  have s1: "front_step F False f ?f1" using f by (intro accept_step) simp_all
  have s2: "front_step F False ?f1 ?f2" by (rule front_step.counts) simp
  have s3: "front_step F False ?f2 ?f3" using f by (intro front_step.leaves) (simp_all add: count_read_def)
  have s4: "front_step F False ?f3 ?f4" by (rule front_step.left) (simp add: leave_read_def count_read_def)
  have s5: "front_step F False ?f4 ?f5"
    by (rule front_step.counted) (simp add: leave_write_def leave_read_def count_read_def)
  have s6: "front_step F False ?f5 (?f5\<lparr>fr_running := [Leaving]\<rparr>)"
    using f by (intro serve_step) (simp add: accepted_one_def leave_write_def leave_read_def count_read_def)
  have "front_reach F False c st (?f5\<lparr>fr_running := [Leaving]\<rparr>)"
    using front_reach.step [OF front_reach.step [OF front_reach.step [OF front_reach.step [OF front_reach.step
      [OF front_reach.step [OF assms(1) s1] s2] s3] s4] s5] s6] .
  then show ?thesis using f
    by (intro exI [of _ "?f5\<lparr>fr_running := [Leaving]\<rparr>"])
      (simp add: leaving_state_def accepted_one_def leave_write_def leave_read_def count_read_def)
qed

theorem count_drifts:
  "\<exists>f. front_reach F False c st f \<and> fr_running f = [] \<and> fr_loop f = AtHead \<and>
    cl_AliveCount (fr_client f) = cl_AliveCount c + int n"
proof -
  obtain f where f: "front_reach F False c st f" "leaving_state 0 c n f"
    using drift_start drift_more by (induction n) blast+
  let ?f1 = "leave_read f"
  let ?f2 = "leave_write (cl_AliveCount (fr_client f)) ?f1"
  note l = f(2) [unfolded leaving_state_def]
  have "front_step F False f ?f1" using l by (intro front_step.leaves) simp_all
  moreover have "front_step F False ?f1 ?f2" by (rule front_step.left) (simp add: leave_read_def)
  ultimately have "front_reach F False c st ?f2" using f(1) front_reach.step by blast
  then show ?thesis using l by (intro exI [of _ ?f2]) (simp add: leave_write_def leave_read_def)
qed

subsection \<open>From the application to the destination and back\<close>

lemma handshake_answer:
  assumes "Socks5HandShake c = (None, c')"
  shows "outq c' = outq c @ [[5, 0]]" "wleft c = None \<Longrightarrow> wleft c' = None" "\<not> is_closed c'"
proof -
  have rd: "outq c' = outq c \<and> wleft c' = wleft c \<and> is_closed c' = is_closed c" if "read_at_least k m c = (r, c')" for k m c r c'
    using that read_at_least_frame(4,5,6) [of k m c "fst r" "snd r" c'] by simp
  have wr: "outq c' = outq c @ [bs] \<and> (wleft c = None \<longrightarrow> wleft c' = None) \<and> \<not> is_closed c'" if "conn_write bs c = (None, c')" for bs c c'
    using that by (auto simp: conn_write_def split: if_splits option.splits nat.splits)
  obtain c1 c2 where "outq c1 = outq c" "wleft c1 = wleft c" "conn_write [5, 0] c1 = (None, c')"
    using assms by (auto simp: Socks5HandShake_def read_full_def Let_def split: prod.splits option.splits if_splits dest!: rd)
  then show "outq c' = outq c @ [[5, 0]]" "wleft c = None \<Longrightarrow> wleft c' = None" "\<not> is_closed c'"
    using wr by metis+
qed

lemma local_request_frame:
  assumes "GetLocalRequest c = (r, c')"
  shows "outq c' = outq c \<and> wleft c' = wleft c \<and> is_closed c' = is_closed c"
proof -
  have rd: "outq c' = outq c \<and> wleft c' = wleft c \<and> is_closed c' = is_closed c" if "read_at_least k m c = (r, c')" for k m c r c'
    using that read_at_least_frame(4,5,6) [of k m c "fst r" "snd r" c'] by simp
  have bd: "outq c' = outq c \<and> wleft c' = wleft c \<and> is_closed c' = is_closed c" if "local_body b n u c = (r, c')" for b n u c r c'
    using that by (auto simp: local_body_def read_full_def Let_def split: go.splits sum.splits prod.splits option.splits if_splits dest!: rd)
  show ?thesis using assms
    by (auto simp: GetLocalRequest_def Let_def split: prod.splits option.splits if_splits dest!: rd bd)
qed

text \<open>What the server sends back for a request it serves: its confirmation, then bytes of the destination.\<close>

lemma server_answer:
  assumes rq: "GetServerRequest srv = (rq, srv1)" "rq_err rq = None" and room: "TryAcquireStream b = (True, b1)"
    "RecordConnection (pt_metrics pt) = (True, m)"
    and host: "\<not> gs_StartsWith (te_gs T) (rq_host rq) ''R://''" "\<not> gs_StartsWith (te_gs T) (rq_host rq) ''dns://''"
    "\<not> gs_StartsWith (te_gs T) (rq_host rq) ''[dns://''"
    and srv: "outq srv = []" "wleft srv = None" "\<not> is_closed srv"
    and dial: "fst (dialCached (te_dial T) (te_lookup T) (rq_host rq)) = Inr target" "\<not> is_closed target"
    and run: "HandleConnAsync T srv (b, pt) = Ret (srv', b', pt')"
  shows "\<exists>coming. outq srv' = Socks5Confirm # coming \<and> prefix (concat coming) (concat (inq target))"
proof -
  define p where "p = (touchLastActive (te_t0 T) pt)\<lparr>pt_metrics := m, pt_alive := pt_alive pt + 1\<rparr>"
  have fr: "outq srv1 = []" "wleft srv1 = None" "\<not> is_closed srv1" using GetServerRequest_outq [OF rq(1)] srv by auto
  define s2 where "s2 = srv1\<lparr>outq := [Socks5Confirm]\<rparr>"
  have w: "conn_write Socks5Confirm srv1 = (None, s2)" using fr by (simp add: conn_write_def s2_def)
  obtain q1 q2 where pipe: "Pipe (te_sched T) target s2 = (q1, q2)" by fastforce
  have "\<not> is_closed s2" using fr by (simp add: s2_def)
  from relay_facts [OF dial(2) this pipe [unfolded Pipe_def]]
  obtain coming where coming: "outq q2 = outq s2 @ coming" "prefix (concat coming) (concat (inq target))" by blast
  have "srv' = fst (tun_DelCon (te_t2 T) q2 p)"
    using run host w dial pipe unfolding HandleConnAsync_served [OF room rq(1,2)] p_def
    by (auto simp: dispatch_def TcpNormal_def split: prod.splits)
  then have "outq srv' = outq q2" by (simp add: tun_DelCon_def)
  then show ?thesis using coming by (auto simp: s2_def)
qed

text \<open>What the client passes on of it.\<close>

lemma client_answer:
  assumes stream: "\<not> is_closed stream" "wleft stream = None" "inq stream = Socks5Confirm # coming"
    and sock: "\<not> is_closed sock" "wleft sock = None"
    and run: "OnBodyDo E sched sock stream eid q True raw c = Some (Ret (ro, c'))"
  shows "\<exists>passed. outq (ro_sock ro) = outq sock @ Socks5Confirm # passed \<and> prefix (concat passed) (concat coming)"
proof -
  define s1 where "s1 = stream\<lparr>outq := outq stream @ [raw], inq := coming\<rparr>"
  define k1 where "k1 = sock\<lparr>outq := outq sock @ [Socks5Confirm]\<rparr>"
  have w: "conn_write raw stream = (None, stream\<lparr>outq := outq stream @ [raw]\<rparr>)" using stream by (simp add: conn_write_def)
  have l: "length Socks5Confirm = 10" by (simp add: Socks5Confirm_def)
  have r: "conn_read (length Socks5Confirm) (stream\<lparr>outq := outq stream @ [raw]\<rparr>) = ((Socks5Confirm, None), s1)"
    using stream by (simp add: conn_read.simps s1_def)
  have b: "buf_put (replicate (length Socks5Confirm) 0) 0 Socks5Confirm = Socks5Confirm" by (simp add: buf_put_def)
  have w2: "conn_write Socks5Confirm sock = (None, k1)" using sock by (simp add: conn_write_def k1_def)
  obtain q1 q2 where pipe: "OldPipe sched k1 s1 = (q1, q2)" by fastforce
  have "\<not> is_closed k1" "\<not> is_closed s1" using stream sock by (simp_all add: k1_def s1_def)
  from relay_facts [OF this pipe [unfolded OldPipe_def]]
  obtain passed where p: "outq q1 = outq k1 @ passed" "prefix (concat passed) (concat (inq s1))" by blast
  have "ro_sock ro = conn_close q1" using run w r b w2 pipe by (auto simp: OnBodyDo_def Let_def split: if_splits)
  then show ?thesis using p by (auto simp: k1_def s1_def)
qed

text \<open>
  C2. What an application receives through the client and the server comes from the destination
  it asked for: after the answer to its greeting and the confirmation it is sent a prefix of the bytes of the
  connection that the server dialled to the host and port of the application's request, in order.  \<open>srv\<close> is the
  server's end of the stream: it gets the request the client wrote, and the client's end gets
  what it was sent, unit by unit.
\<close>

theorem answers_come_from_destination:
  assumes app: "Socks5HandShake sock = (None, sock1)" "GetLocalRequest sock1 = (Ret q, sock2)" "lr_err q = None"
    "lr_raw q ! 3 = 1 \<or> lr_raw q ! 3 = 3" "outq sock = []" "wleft sock = None"
    and way: "route_request (fe_routing F) (cl_Mode c) (lr_raw q) (lr_host q) (lr_port q) st = Ret (Proxied, st1)"
      "\<not> gs_StartsWith (ce_gs (fe_client F)) (lr_host q) ''c://''"
    and stream: "ConnectRemote (fe_client F) c = Some (Ret (r, c1))" "sr_con r = Inr stream" "\<not> is_closed stream"
      "wleft stream = None" "inq stream = outq srv'"
    and srv: "concat (inq srv) = lr_raw q @ up" "outq srv = []" "wleft srv = None" "\<not> is_closed srv"
      "TryAcquireStream b = (True, b1)" "RecordConnection (pt_metrics pt) = (True, m)"
    and host: "host = join_host_port (server_host (lr_raw q)) (lr_port q)" "\<not> gs_StartsWith (te_gs T) host ''R://''"
      "\<not> gs_StartsWith (te_gs T) host ''dns://''" "\<not> gs_StartsWith (te_gs T) host ''[dns://''"
    and dial: "fst (dialCached (te_dial T) (te_lookup T) host) = Inr target" "\<not> is_closed target"
    and runs: "HandleConnAsync T srv (b, pt) = Ret (srv', b', pt')" "serve_conn F sock st c = Some (Ret (sock', st', c'))"
  shows "\<exists>received. outq sock' = [5, 0] # Socks5Confirm # received \<and> prefix (concat received) (concat (inq target))"
proof -
  obtain rq srv1 where rq: "GetServerRequest srv = (rq, srv1)" "rq_err rq = None" "rq_host rq = host"
    using local_server_agree [OF app(2,3,4) srv(1)] host(1) by auto
  obtain coming where coming: "outq srv' = Socks5Confirm # coming" "prefix (concat coming) (concat (inq target))"
    using server_answer [OF rq(1,2) srv(5,6) _ _ _ srv(2,3,4) _ dial(2) runs(1)] host(2-4) dial(1) rq(3) by auto
  have sock2: "outq sock2 = [[5, 0]]" "wleft sock2 = None" "\<not> is_closed sock2"
    using handshake_answer [OF app(1)] local_request_frame [OF app(2)] app(5,6) by auto
  obtain ro c2 where ro: "OnBodyDo (fe_client F) (fe_sched F) sock2 stream (sr_id r) (sr_ix r) True (lr_raw q) c1 = Some (Ret (ro, c2))"
    "sock' = conn_close (conn_close (ro_sock ro))"
    using runs(2) app way stream
    by (auto simp: serve_conn_def handle_conn_def act_bind_Ret forward_def finished_def OnBodyBeforeGetRemote_def)
  obtain passed where "outq (ro_sock ro) = outq sock2 @ Socks5Confirm # passed" "prefix (concat passed) (concat coming)"
    using client_answer [OF stream(3,4) _ sock2(3,2) ro(1)] stream(5) coming(1) by auto
  then show ?thesis using ro(2) sock2(1) coming(2) prefix_order.trans by auto
qed

text \<open>A router's client, and a server whose destination sends one byte.\<close>

definition toy_near :: client_env where
  "toy_near = toy_client_env\<lparr>ce_open := (\<lambda>n. \<lparr>me_open1 = Inr (conn_of [Socks5Confirm, [7]] EOF),
     me_again = Inl EOF, me_open2 = Inl EOF\<rparr>)\<rparr>"

definition toy_front :: front_env where
  "toy_front = \<lparr>fe_client = toy_near,
     fe_routing = toy_routing\<lparr>rt_linux := False\<rparr>, fe_dial = (\<lambda>_. Inl EOF), fe_FromData = (\<lambda>_. Inl EOF), fe_order = [],
     fe_sched = [True]\<rparr>"

definition toy_serving :: tunnel_env where
  "toy_serving = toy_tunnel_env\<lparr>te_dial := (\<lambda>_. Inr (conn_of [[7]] EOF)), te_sched := [False]\<rparr>"

definition toy_app :: conn where
  "toy_app = conn_of [[5, 1, 0], sample_request] EOF"

definition toy_srv :: conn where
  "toy_srv = conn_of [sample_request] EOF"

lemma toy_pipe: "outq (snd (Pipe [False] (conn_of [[7]] EOF) ((conn_of [] EOF)\<lparr>outq := [Socks5Confirm]\<rparr>))) = [Socks5Confirm, [7]]"
proof -
  define a where "a = conn_of [] EOF"
  define s0 where "s0 = \<lparr>pi_kind = ServerPipe, pi_p1 = conn_of [[7]] EOF, pi_p2 = a\<lparr>outq := [Socks5Confirm]\<rparr>, pi_done1 = False, pi_done2 = False\<rparr>"
  define s1 where "s1 = \<lparr>pi_kind = ServerPipe, pi_p1 = a, pi_p2 = a\<lparr>outq := [Socks5Confirm, [7]]\<rparr>, pi_done1 = False, pi_done2 = False\<rparr>"
  define s2 where "s2 = \<lparr>pi_kind = ServerPipe, pi_p1 = conn_close a, pi_p2 = conn_close (a\<lparr>outq := [Socks5Confirm, [7]]\<rparr>),
    pi_done1 = True, pi_done2 = False\<rparr>"
  define s3 where "s3 = \<lparr>pi_kind = ServerPipe, pi_p1 = conn_close (conn_close a),
    pi_p2 = conn_close (conn_close (a\<lparr>outq := [Socks5Confirm, [7]]\<rparr>)), pi_done1 = True, pi_done2 = True\<rparr>"
  have "step2 s0 = s1"
    by (simp add: s0_def s1_def step2_def copy_round_def conn_read.simps conn_write_def a_def conn_of_def pipeBufferSize_def)
  moreover have "step1 s1 = s2"
    by (simp add: s1_def s2_def step1_def copy_round_def conn_read.simps a_def conn_of_def)
  moreover have "step2 s2 = s3"
    by (simp add: s2_def s3_def step2_def copy_round_def conn_read.simps a_def conn_of_def conn_close_def)
  moreover have "\<not> pi_done1 s1" "pi_done1 s2" "\<not> pi_done2 s2" "pi_done2 s3" by (simp_all add: s1_def s2_def s3_def)
  ultimately have "drain2 (drain1 (step2 s0)) = s3"
    by (metis drain1.simps drain2.simps)
  then show ?thesis
    unfolding Pipe_def relay_run_def run_sched_def a_def [symmetric] s0_def [symmetric]
    by (simp add: Let_def s3_def)
qed

theorem answers_come_from_destination_witness:
  "\<exists>sock' st' c' received. serve_conn toy_front toy_app no_tables toy_client = Some (Ret (sock', st', c')) \<and>
    outq sock' = [5, 0] # Socks5Confirm # received \<and> prefix (concat received) [7]"
proof -
  have a: "Socks5HandShake toy_app = (None, (conn_of [sample_request] EOF)\<lparr>outq := [[5, 0]]\<rparr>)"
    by code_simp
  have q: "GetLocalRequest ((conn_of [sample_request] EOF)\<lparr>outq := [[5, 0]]\<rparr>) =
      (Ret \<lparr>lr_raw = sample_request, lr_host = [], lr_port = itoa 80, lr_udp = False, lr_err = None\<rparr>,
       (conn_of [] EOF)\<lparr>outq := [[5, 0]]\<rparr>)"
    by code_simp
  have w: "route_request (fe_routing toy_front) (cl_Mode toy_client) sample_request [] (itoa 80) no_tables = Ret (Proxied, no_tables)"
    by (simp add: route_request_def route_ip_def toy_front_def sample_request_def)
  have s: "case ConnectRemote toy_near toy_client of Some (Ret (r, c1)) \<Rightarrow> (case sr_con r of
        Inr k \<Rightarrow> inq k = [Socks5Confirm, [7]] \<and> \<not> is_closed k \<and> wleft k = None | Inl _ \<Rightarrow> False) | _ \<Rightarrow> False"
    by code_simp
  then obtain r c1 k where s: "ConnectRemote (fe_client toy_front) toy_client = Some (Ret (r, c1))"
    "sr_con r = Inr k" "\<not> is_closed k" "wleft k = None" "inq k = [Socks5Confirm, [7]]"
    by (auto simp: toy_front_def split: option.splits go.splits prod.splits sum.splits)
  have d0: "te_dial toy_serving = (\<lambda>_. Inr (conn_of [[7]] EOF))"
    by (simp add: toy_serving_def)
  have d: "fst (dialCached (te_dial toy_serving) (te_lookup toy_serving) (join_host_port (server_host sample_request) (itoa 80)))
      = Inr (conn_of [[7]] EOF)"
    unfolding d0 by code_simp
  have p: "\<not> gs_StartsWith (te_gs toy_serving) (join_host_port (server_host sample_request) (itoa 80)) ''R://''"
    "\<not> gs_StartsWith (te_gs toy_serving) (join_host_port (server_host sample_request) (itoa 80)) ''dns://''"
    "\<not> gs_StartsWith (te_gs toy_serving) (join_host_port (server_host sample_request) (itoa 80)) ''[dns://''"
    by code_simp+
  have b: "TryAcquireStream \<lparr>sb_limit = 9, sb_active = 0\<rparr> = (True, \<lparr>sb_limit = 9, sb_active = 1\<rparr>)"
    by (simp add: TryAcquireStream_def Let_def)
  obtain m where m: "RecordConnection (pt_metrics (NewProxyTunnel zero_config 0)) = (True, m)"
    by (simp add: NewProxyTunnel_def NewHealthMetrics_def)
  define s1 where "s1 = conn_of [] EOF"
  have g: "GetServerRequest toy_srv = (\<lparr>rq_host = join_host_port (server_host sample_request) (itoa 80),
      rq_raw = sample_request, rq_udp = False, rq_err = None\<rparr>, s1)"
    unfolding s1_def by code_simp
  have e: "rq_err \<lparr>rq_host = join_host_port (server_host sample_request) (itoa 80), rq_raw = sample_request, rq_udp = False, rq_err = None\<rparr> = None"
    by simp
  note o = toy_pipe [folded s1_def]
  have t: "te_sched toy_serving = [False]" "conn_write Socks5Confirm s1 = (None, s1\<lparr>outq := [Socks5Confirm]\<rparr>)"
    by (simp_all add: toy_serving_def conn_write_def s1_def conn_of_def)
  obtain srv' b' pt' where h: "HandleConnAsync toy_serving toy_srv
      (\<lparr>sb_limit = 9, sb_active = 0\<rparr>, NewProxyTunnel zero_config 0) = Ret (srv', b', pt')" "outq srv' = [Socks5Confirm, [7]]"
    unfolding HandleConnAsync_served [OF b m g e]
    by (auto simp: dispatch_def p t TcpNormal_def d tun_DelCon_def o split: prod.splits)
  have "case serve_conn toy_front toy_app no_tables toy_client of Some (Ret _) \<Rightarrow> True | _ \<Rightarrow> False"
    by code_simp
  then obtain sock' st' c' where v: "serve_conn toy_front toy_app no_tables toy_client = Some (Ret (sock', st', c'))"
    by (auto split: option.splits go.splits prod.splits)
  have c: "\<not> gs_StartsWith (ce_gs (fe_client toy_front)) [] ''c://''"
    by (simp add: toy_front_def toy_near_def toy_client_env_def gs_std_def has_prefix_def)
  have "\<exists>received. outq sock' = [5, 0] # Socks5Confirm # received \<and> prefix (concat received) (concat (inq (conn_of [[7]] EOF)))"
    by (rule answers_come_from_destination [OF a q _ _ _ _ _ _ s(1-4) _ _ _ _ _ b m _ p d _ h(1) v])
      (use w c h(2) s(5) in \<open>simp_all add: sample_request_def toy_app_def toy_srv_def\<close>)
  then show ?thesis using v by auto
qed

theorem connections_counted_witness:
  "\<exists>f. front_reach toy_front False toy_client no_tables f \<and> fr_running f = [Leaving] \<and>
    \<bar>cl_AliveCount (fr_client f) - (cl_AliveCount toy_client + 1)\<bar> \<le> int (fr_clashes f)"
proof -
  obtain f where f: "front_reach toy_front False toy_client no_tables f" "leaving_state 0 toy_client 0 f"
    using drift_start by blast
  then have "fr_running f = [Leaving]" "served_now f = 1" by (simp_all add: leaving_state_def served_now_def serving_def)
  then show ?thesis using connections_counted [OF f(1)] f(1) by auto
qed

end
