(* ===== verification/Stream_Copy.thy ===== *)
theory Stream_Copy
  imports Proxy_Tunnel
begin

text \<open>
  The copying helpers: \<open>Copy\<close> and \<open>copyBuffer\<close> of \<open>src/clientcontroll/controll.go\<close>, \<open>Copy\<close> of
  \<open>src/connections/base/base.go\<close>, both files' \<open>chanFromConn\<close>, and \<open>PipeReadWriteCloser\<close> of
  \<open>src/connections/base/proxytunnel.go\<close>.  A reader is what its calls return for a buffer of a given size (the end of the list is the end of the file); a
  writer may break the contract of \<open>io.Writer\<close>, which the loop checks.
\<close>

type_synonym reads = "(bytes \<times> goerr option) list"
type_synonym 'r copied = "(int \<times> goerr option) \<times> 'r"

definition errInvalidWrite :: goerr where "errInvalidWrite = GoErr ''invalid write result''"
definition ErrShortWrite :: goerr where "ErrShortWrite = GoErr ''short write''"

text \<open>
  What one write did: how many bytes are counted and the error that ends the loop.  The counter is
  a 64-bit integer, as in the source.
\<close>

definition checked_write :: "int \<Rightarrow> int \<times> goerr option \<Rightarrow> int \<times> goerr option" where
  "checked_write nr w =
     (case w of (nw0, ew0) \<Rightarrow>
        let (nw, ew) = (if nw0 < 0 \<or> nr < nw0 then (0, if ew0 = None then Some errInvalidWrite else ew0) else (nw0, ew0)) in
        (nw, if ew \<noteq> None then ew else if nr \<noteq> nw then Some ErrShortWrite else None))"

fun copy_loop :: "(nat \<Rightarrow> bytes \<Rightarrow> int \<times> goerr option) \<Rightarrow> nat \<Rightarrow> reads \<Rightarrow> 64 word \<Rightarrow> (64 word \<times> goerr option) \<times> bytes list" where
  "copy_loop wr k [] written = ((written, None), [])"
| "copy_loop wr k ((bs, er) # rs) written =
     (let (n, ew) = (if bs \<noteq> [] then checked_write (int (length bs)) (wr k bs) else (0, None));
          k' = (if bs \<noteq> [] then k + 1 else k); written' = written + word_of_int n;
          sent = (if bs \<noteq> [] then [bs] else []) in
      case ew of
        Some e \<Rightarrow> ((written', Some e), sent)
      | None \<Rightarrow>
          (case er of
             Some e \<Rightarrow> ((written', if e = EOF then None else Some e), sent)
           | None \<Rightarrow> (case copy_loop wr k' rs written' of (res, later) \<Rightarrow> (res, sent @ later))))"

text \<open>
  The two ends: the methods of the library that do the copying themselves, if the ends have them,
  what is read with a buffer of a given size, the writes, and the limit of an \<open>io.LimitedReader\<close>.
\<close>

record copy_ends =
  co_WriteTo :: "((64 word \<times> goerr option) \<times> bytes list) option"
  co_ReadFrom :: "((64 word \<times> goerr option) \<times> bytes list) option"
  co_reads :: "nat \<Rightarrow> reads"
  co_write :: "nat \<Rightarrow> bytes \<Rightarrow> int \<times> goerr option"
  co_limited :: "int option"

definition buffer_size :: "copy_ends \<Rightarrow> nat option \<Rightarrow> nat" where
  "buffer_size E buf =
     (case buf of
        Some k \<Rightarrow> k
      | None \<Rightarrow>
          (case co_limited E of
             Some n \<Rightarrow> if n < 32 * 1024 then (if n < 1 then 1 else nat n) else 32 * 1024
           | None \<Rightarrow> 32 * 1024))"

definition copyBuffer :: "copy_ends \<Rightarrow> nat option \<Rightarrow> ((64 word \<times> goerr option) \<times> bytes list) go" where
  "copyBuffer E buf =
     (if buf = Some 0 then Panic
      else case co_WriteTo E of
        Some r \<Rightarrow> Ret r
      | None \<Rightarrow>
          (case co_ReadFrom E of
             Some r \<Rightarrow> Ret r
           | None \<Rightarrow> Ret (copy_loop (co_write E) 0 (co_reads E (buffer_size E buf)) 0)))"

definition Copy :: "copy_ends \<Rightarrow> ((64 word \<times> goerr option) \<times> bytes list) go" where
  "Copy E =
     (case co_WriteTo E of
        Some r \<Rightarrow> Ret r
      | None \<Rightarrow> (case co_ReadFrom E of Some r \<Rightarrow> Ret r | None \<Rightarrow> copyBuffer E (Some 4096)))"

text \<open>The copy in \<open>base.go\<close> ends in the library's \<open>io.CopyBuffer\<close>, which is the same loop.\<close>

definition bufSize :: nat where "bufSize = 4096"

definition base_Copy :: "copy_ends \<Rightarrow> ((64 word \<times> goerr option) \<times> bytes list) go" where
  "base_Copy E =
     (case co_WriteTo E of
        Some r \<Rightarrow> Ret r
      | None \<Rightarrow> (case co_ReadFrom E of Some r \<Rightarrow> Ret r | None \<Rightarrow> copyBuffer E (Some bufSize)))"

text \<open>\<open>chanFromConn\<close>: what is sent on the channel; None is the nil at the end.  With no buffer it reads nothing for ever and sends nothing.\<close>

function chanFromConn :: "nat \<Rightarrow> conn \<Rightarrow> bytes option list" where
  "chanFromConn bufsize c =
     (if bufsize = 0 then []
      else case conn_read bufsize c of
        ((bs, Some _), _) \<Rightarrow> (if bs \<noteq> [] then [Some bs] else []) @ [None]
      | ((bs, None), c1) \<Rightarrow> (if bs \<noteq> [] then [Some bs] else []) @ chanFromConn bufsize c1)"
  by auto
termination
  by (relation "measure (\<lambda>(k, c). pending c)") (auto dest: conn_read_pending [OF sym])

declare chanFromConn.simps [simp del]

definition PipeReadWriteCloser :: "bool list \<Rightarrow> conn \<Rightarrow> conn \<Rightarrow> conn \<times> conn" where
  "PipeReadWriteCloser = relay_run ServerPipe"

subsection \<open>What is counted\<close>

text \<open>A writer that keeps its contract: it takes everything, or reports an error and a count in range.\<close>

definition writer_ok :: "(nat \<Rightarrow> bytes \<Rightarrow> int \<times> goerr option) \<Rightarrow> bool" where
  "writer_ok wr \<longleftrightarrow> (\<forall>k bs. case wr k bs of (n, e) \<Rightarrow>
     0 \<le> n \<and> n \<le> int (length bs) \<and> (e = None \<longrightarrow> n = int (length bs)))"

definition all_written :: "(nat \<Rightarrow> bytes \<Rightarrow> int \<times> goerr option) \<Rightarrow> bool" where
  "all_written wr \<longleftrightarrow> (\<forall>k bs. wr k bs = (int (length bs), None))"

text \<open>What is read until the first error, and that error; the end of the file is none.\<close>

fun read_until :: "reads \<Rightarrow> bytes list \<times> goerr option" where
  "read_until [] = ([], None)"
| "read_until ((bs, er) # rs) =
     (let here = (if bs \<noteq> [] then [bs] else []) in
      case er of
        Some e \<Rightarrow> (here, if e = EOF then None else Some e)
      | None \<Rightarrow> (case read_until rs of (later, e) \<Rightarrow> (here @ later, e)))"

lemma checked_write_ok: "checked_write n (n, None) = (n, None)" if "0 \<le> n"
  using that by (simp add: checked_write_def)

text \<open>
  With a writer that takes everything the copy is the reading: every chunk is sent in order, the
  count is the number of bytes modulo the width of the counter, the error that of the reader.
\<close>

theorem copy_complete:
  assumes "all_written wr"
  shows "copy_loop wr k rs written =
    ((written + of_nat (length (concat (fst (read_until rs)))), snd (read_until rs)), fst (read_until rs))"
proof (induction rs arbitrary: k written)
  case (Cons r rs)
  obtain bs er where r: "r = (bs, er)" by fastforce
  have w: "checked_write (int (length bs)) (wr k bs) = (int (length bs), None)" for k
    using assms by (simp add: all_written_def checked_write_ok)
  show ?case
    by (cases er) (simp_all add: r w Cons.IH Let_def algebra_simps split: prod.splits)
qed simp

text \<open>A broken writer is noticed: whatever it answers, a copy without an error has delivered all chunks it read.\<close>

theorem copy_no_silent_loss:
  assumes "copy_loop wr k rs written = ((n, None), sent)"
  shows "sent = fst (read_until rs) \<and> n = written + of_nat (length (concat sent))"
  using assms
proof (induction rs arbitrary: k written n sent)
  case (Cons r rs)
  obtain bs er where r: "r = (bs, er)" by fastforce
  have w: "m = int (length bs)" if "checked_write (int (length bs)) (wr k bs) = (m, None)" for m
    using that by (cases "wr k bs") (auto simp: checked_write_def Let_def split: if_splits)
  obtain m ew where m: "(if bs \<noteq> [] then checked_write (int (length bs)) (wr k bs) else (0, None)) = (m, ew)" by fastforce
  have ew: "ew = None" using Cons.prems m by (auto simp: r Let_def split: option.splits prod.splits)
  then have ml: "m = int (length bs)" using m w by (cases "bs = []") auto
  show ?case
  proof (cases er)
    case (Some e)
    then show ?thesis using Cons.prems m ew ml by (auto simp: r Let_def split: if_splits)
  next
    case None
    obtain res later where lp: "copy_loop wr (if bs \<noteq> [] then k + 1 else k) rs (written + word_of_int m) = (res, later)" by fastforce
    then have res: "res = (n, None)" "sent = (if bs \<noteq> [] then [bs] else []) @ later"
      using Cons.prems m ew None by (auto simp: r Let_def)
    from Cons.IH [OF lp [unfolded res(1)]] show ?thesis
      using res(2) None ml by (auto simp: r Let_def algebra_simps split: prod.splits)
  qed
qed simp

text \<open>The channel gets all bytes in order, in chunks that fit the buffer, and ends with one nil.\<close>

lemma chanFromConn_ends: "0 < k \<Longrightarrow> \<exists>chunks. chanFromConn k c = map Some chunks @ [None] \<and> concat chunks = concat (inq c) \<and>
    (\<forall>b \<in> set chunks. b \<noteq> [] \<and> length b \<le> k)"
proof (induction k c rule: chanFromConn.induct)
  case (1 k c)
  obtain bs er c1 where r: "conn_read k c = ((bs, er), c1)" by (metis surj_pair)
  have rd: "bs @ concat (inq c1) = concat (inq c)" "length bs \<le> k" "er \<noteq> None \<longrightarrow> bs = [] \<and> inq c = []"
    using r "1.prems" by (auto simp: conn_read.simps split: list.splits if_splits)
  show ?case
  proof (cases er)
    case (Some e)
    then show ?thesis using r rd "1.prems" by (intro exI [of _ "[]"]) (simp add: chanFromConn.simps [of k c])
  next
    case None
    with "1.IH" "1.prems" r obtain chunks where ch: "chanFromConn k c1 = map Some chunks @ [None]"
      "concat chunks = concat (inq c1)" "\<forall>b \<in> set chunks. b \<noteq> [] \<and> length b \<le> k" by simp blast
    show ?thesis
      using r rd None "1.prems" ch
      by (intro exI [of _ "(if bs \<noteq> [] then [bs] else []) @ chunks"]) (auto simp: chanFromConn.simps [of k c])
  qed
qed

end
