(* ===== verification/Mux_Server.thy ===== *)
theory Mux_Server
  imports Proxy_Tunnel Smux_Client
begin

text \<open>
  The server's side of a tunnel between the listener and \<open>HandleConnAsync\<close>: the choice made in
  \<open>Server\<close> of \<open>src/connections/base/proxytunnel.go\<close>, the sessions of \<open>prosmux/smux.go\<close>
  (\<open>AccpetStream\<close>), the streams of \<open>proquic/quic_server.go\<close> (\<open>accpeStream\<close>), the making of listeners and
  the TLS configurations of \<open>protls\<close>, \<open>proquic\<close> and \<open>prokcp\<close>, and what the books of addresses say
  when a client has several streams.  The multiplexing libraries deliver streams and errors.
\<close>

subsection \<open>How a tunnel serves\<close>

datatype serve_mode = EachConnection | EachSession

text \<open>
  The configuration's port is read before the test for a missing protocol, so that test is never
  reached: without a protocol the call panics.
\<close>

definition Server_mode :: "tunnel \<Rightarrow> serve_mode go" where
  "Server_mode pt =
     (case GetConfig pt of
        None \<Rightarrow> Panic
      | Some c \<Rightarrow> Ret (if cf_ProxyType c = ''quic'' then EachConnection
          else if pt_UseSmux pt then EachSession else EachConnection))"

definition NewSmuxServer :: smux_conf where
  "NewSmuxServer = SetAsDefault zero_smux"

subsection \<open>A session of streams\<close>

text \<open>
  \<open>AccpetStream\<close>: streams are accepted, each handed to a goroutine, until accepting fails; then the
  goroutines are waited for, and only then is the session closed.
\<close>

record mux_session =
  ms_streamCount :: nat
  ms_serving :: nat
  ms_ended :: bool
  ms_closed :: bool

definition mux_start :: mux_session where
  "mux_start = \<lparr>ms_streamCount = 0, ms_serving = 0, ms_ended = False, ms_closed = False\<rparr>"

inductive mux_step :: "mux_session \<Rightarrow> mux_session \<Rightarrow> bool" where
  stream: "\<not> ms_ended s \<Longrightarrow> mux_step s (s\<lparr>ms_streamCount := ms_streamCount s + 1, ms_serving := ms_serving s + 1\<rparr>)"
| broken: "\<not> ms_ended s \<Longrightarrow> mux_step s (s\<lparr>ms_ended := True\<rparr>)"
| returned: "0 < ms_serving s \<Longrightarrow> mux_step s (s\<lparr>ms_serving := ms_serving s - 1\<rparr>)"
| waited: "ms_ended s \<Longrightarrow> ms_serving s = 0 \<Longrightarrow> \<not> ms_closed s \<Longrightarrow> mux_step s (s\<lparr>ms_closed := True\<rparr>)"

inductive mux_reach :: "mux_session \<Rightarrow> bool" where
  start: "mux_reach mux_start"
| step: "mux_reach s \<Longrightarrow> mux_step s s' \<Longrightarrow> mux_reach s'"

inductive_cases mux_stepE: "mux_step s s'"

text \<open>What is logged at the end of a session: sessions without streams only now and then.\<close>

definition session_logged :: "bool \<Rightarrow> mux_session \<Rightarrow> bool" where
  "session_logged allowed s \<longleftrightarrow> 0 < ms_streamCount s \<or> allowed"

lemma mux_reach_inv:
  "mux_reach s \<Longrightarrow> ms_serving s \<le> ms_streamCount s \<and> (ms_closed s \<longrightarrow> ms_ended s \<and> ms_serving s = 0)"
proof (induction rule: mux_reach.induct)
  case (step s s')
  from step(2) show ?case by (cases rule: mux_step.cases) (use step.IH in auto)
qed (simp add: mux_start_def)

text \<open>
  A session is closed under no stream that is still served, whatever the order in which
  streams come, fail and return.
\<close>

theorem session_closed_after_streams:
  assumes "mux_reach s" "ms_closed s"
  shows "ms_ended s \<and> ms_serving s = 0"
  using mux_reach_inv [OF assms(1)] assms(2) by simp

theorem session_closed_after_streams_witness:
  "\<exists>s. mux_reach s \<and> ms_closed s \<and> ms_streamCount s = 1 \<and> ms_serving s = 0"
proof -
  let ?a = "mux_start\<lparr>ms_streamCount := 1, ms_serving := 1\<rparr>"
  let ?b = "?a\<lparr>ms_ended := True\<rparr>"
  let ?c = "?b\<lparr>ms_serving := 0\<rparr>"
  let ?d = "?c\<lparr>ms_closed := True\<rparr>"
  have "mux_step mux_start ?a" using mux_step.stream [of mux_start] by (simp add: mux_start_def)
  moreover have "mux_step ?a ?b" by (rule mux_step.broken) (simp add: mux_start_def)
  moreover have "mux_step ?b ?c" using mux_step.returned [of ?b] by (simp add: mux_start_def)
  moreover have "mux_step ?c ?d" by (rule mux_step.waited) (simp_all add: mux_start_def)
  ultimately have d: "mux_reach ?d" by (meson mux_reach.intros)
  with session_closed_after_streams [OF d] show ?thesis by (intro exI [of _ ?d]) (simp add: mux_start_def)
qed

text \<open>One handler that never returns keeps a dead session for ever: nothing else closes it.\<close>

theorem stuck_stream_keeps_session:
  assumes "mux_step\<^sup>*\<^sup>* s s'" "0 < ms_serving s'" "\<not> ms_closed s"
  shows "\<not> ms_closed s'"
  using assms
proof (induction rule: rtranclp_induct)
  case (step y z)
  have "ms_closed y \<Longrightarrow> ms_ended y \<and> ms_serving y = 0" if "mux_step\<^sup>*\<^sup>* s y"
    using that
  proof (induction rule: rtranclp_induct)
    case (step u v)
    from step(2,4) show ?case by (cases rule: mux_step.cases) (use step.IH in auto)
  qed (simp add: assms(3))
  with step.hyps(1) have y: "ms_closed y \<Longrightarrow> ms_ended y \<and> ms_serving y = 0" by blast
  from step(2) show ?case
    by (cases rule: mux_step.cases) (use y step in auto)
qed simp

subsection \<open>Streams and the book of addresses\<close>

text \<open>
  One client, one connection, several streams.  The connection is recorded when it is accepted; each
  stream ends with a call of \<open>DelCon\<close>, whose address is the connection's.  The quic server also counts
  every stream up when it comes and down when its handler has returned, after \<open>DelCon\<close>.
\<close>

datatype stream_event = Opened | Ended

fun tls_streams :: "string \<Rightarrow> stream_event list \<Rightarrow> tls_server \<Rightarrow> tls_server" where
  "tls_streams ip [] s = s"
| "tls_streams ip (Opened # es) s = tls_streams ip es s"
| "tls_streams ip (Ended # es) s = tls_streams ip es (snd (tls_DelCon ip (conn_of [] EOF) s))"

definition quic_opened :: "quic_server \<Rightarrow> quic_server" where
  "quic_opened s = s\<lparr>qs_AcceptConn := qs_AcceptConn s + 1\<rparr>"

definition quic_ended :: "string \<Rightarrow> conn \<Rightarrow> quic_server \<Rightarrow> conn \<times> quic_server" where
  "quic_ended ip con s =
     (case quic_DelCon ip con s of (con1, s1) \<Rightarrow> (con1, s1\<lparr>qs_AcceptConn := qs_AcceptConn s1 - 1\<rparr>))"

fun quic_streams :: "string \<Rightarrow> stream_event list \<Rightarrow> quic_server \<Rightarrow> quic_server" where
  "quic_streams ip [] s = s"
| "quic_streams ip (Opened # es) s = quic_streams ip es (quic_opened s)"
| "quic_streams ip (Ended # es) s = quic_streams ip es (snd (quic_ended ip (conn_of [] EOF) s))"

definition ended :: "stream_event list \<Rightarrow> int" where
  "ended es = int (length (filter (\<lambda>e. e = Ended) es))"

definition opened :: "stream_event list \<Rightarrow> int" where
  "opened es = int (length (filter (\<lambda>e. e = Opened) es))"

lemma event_counts [simp]:
  "ended [] = 0" "opened [] = 0" "ended (Ended # es) = ended es + 1" "ended (Opened # es) = ended es"
  "opened (Opened # es) = opened es + 1" "opened (Ended # es) = opened es"
  by (simp_all add: ended_def opened_def)

text \<open>
  The counters drift: a stream of a quic connection is counted once and taken off twice, one of a
  tls connection is only taken off.  After n streams have come and gone they stand at -n.
\<close>

theorem stream_counters_drift:
  "qs_AcceptConn (quic_streams ip es s) = qs_AcceptConn s + opened es - 2 * ended es \<and>
   ts_AcceptConn (tls_streams ip es t) = ts_AcceptConn t - ended es"
proof -
  have "qs_AcceptConn (quic_streams ip es s) = qs_AcceptConn s + opened es - 2 * ended es"
    by (induction ip es s rule: quic_streams.induct)
      (simp_all add: quic_opened_def quic_ended_def quic_DelCon_def quic_DelRecord_def Let_def)
  moreover have "ts_AcceptConn (tls_streams ip es t) = ts_AcceptConn t - ended es"
    by (induction ip es t rule: tls_streams.induct) (simp_all add: tls_DelCon_def tls_DelRecord_def Let_def)
  ultimately show ?thesis by simp
qed

text \<open>The first stream that ends takes the client out of the book, however many it has left.\<close>

lemma tls_streams_gone: "Ended \<in> set es \<or> ip \<notin> set (tls_GetAliveIPS s) \<Longrightarrow> ip \<notin> set (tls_GetAliveIPS (tls_streams ip es s))"
proof (induction ip es s rule: tls_streams.induct)
  case (3 ip es s)
  have "ip \<notin> set (tls_GetAliveIPS (snd (tls_DelCon ip (conn_of [] EOF) s)))"
    using keys_delete [of ip "made (ts_ips s)"]
    by (simp add: tls_GetAliveIPS_def tls_DelCon_def tls_DelRecord_def ip_keys_def Let_def map_of_eq_None_iff)
  then show ?case using 3 by simp
qed auto

theorem client_with_streams_forgotten:
  assumes "Ended \<in> set es" "ended es < opened es"
  shows "ip \<notin> set (tls_GetAliveIPS (tls_streams ip es (tls_Record ip s)))"
  using tls_streams_gone assms(1) by blast

theorem client_with_streams_forgotten_witness:
  "''a:1'' \<notin> set (tls_GetAliveIPS (tls_streams ''a:1'' [Opened, Opened, Ended] (tls_Record ''a:1'' (NewTlsServer [] zero_config))))"
  by (rule client_with_streams_forgotten) simp_all

subsection \<open>TLS configurations\<close>

record tls_conf =
  tc_pair :: "string \<times> string"
  tc_InsecureSkipVerify :: bool
  tc_NextProtos :: "string list"

definition CERT :: string where "CERT = ''Resources/pem/cert.pem''"
definition KEYPEM :: string where "KEYPEM = ''Resources/pem/key.pem''"

text \<open>
  The package's two variables, set together the first time.  \<open>asset\<close> reads an embedded file, \<open>pair\<close> says
  whether the two form a key pair.  \<open>None\<close> is the end of the process by \<open>log.Fatal\<close>.
\<close>

definition shared_config ::
  "bool \<Rightarrow> string list \<Rightarrow> (string \<Rightarrow> goerr + string) \<Rightarrow> (string \<Rightarrow> string \<Rightarrow> bool) \<Rightarrow>
    tls_conf option \<times> string \<Rightarrow> (tls_conf \<times> tls_conf option \<times> string) go option" where
  "shared_config skip protos asset pair st =
     (case fst st of
        Some k \<Rightarrow> Some (Ret (k, st))
      | None \<Rightarrow>
          (case asset CERT of
             Inl _ \<Rightarrow> None
           | Inr cerPEM \<Rightarrow>
               (case asset KEYPEM of
                  Inl _ \<Rightarrow> None
                | Inr keyPEM \<Rightarrow>
                    if \<not> pair cerPEM keyPEM then Some Panic
                    else
                      let k = \<lparr>tc_pair = (cerPEM, keyPEM), tc_InsecureSkipVerify = skip, tc_NextProtos = protos\<rparr> in
                      Some (Ret (k, Some k, cerPEM @ ''|'' @ keyPEM)))))"

definition GetTlsConfig ::
  "(string \<Rightarrow> goerr + string) \<Rightarrow> (string \<Rightarrow> string \<Rightarrow> bool) \<Rightarrow> tls_conf option \<times> string \<Rightarrow>
    (tls_conf \<times> tls_conf option \<times> string) go option" where
  "GetTlsConfig = shared_config True []"

definition GetQuicConfig ::
  "(string \<Rightarrow> goerr + string) \<Rightarrow> (string \<Rightarrow> string \<Rightarrow> bool) \<Rightarrow> tls_conf option \<times> string \<Rightarrow>
    (tls_conf \<times> tls_conf option \<times> string) go option" where
  "GetQuicConfig = shared_config False [''quic-echo-stream'']"

text \<open>
  Every tunnel of a kind serves the same key: once the configuration has been made, making it again
  gives the same one, whatever the files have become, and the key handed to clients is its pair.
\<close>

theorem shared_config_once:
  assumes "shared_config skip protos asset pair (None, k0) = Some (Ret (k, st))"
  shows "shared_config skip' protos' asset' pair' st = Some (Ret (k, st)) \<and>
    snd st = fst (tc_pair k) @ ''|'' @ snd (tc_pair k)"
  using assms by (auto simp: shared_config_def Let_def split: sum.splits if_splits)

subsection \<open>Listeners\<close>

text \<open>
  A server listens on its configuration's address; \<open>None\<close> is a listener that could not be made.  The
  kcp server derives its cipher from password and salt as the client does, with the same shards.
\<close>

definition tls_GetListener :: "gslib \<Rightarrow> (server_val \<Rightarrow> string) \<Rightarrow> (string \<Rightarrow> bool) \<Rightarrow> tls_server \<Rightarrow> string option" where
  "tls_GetListener G show_val listens s =
     (let a = RemoteAddr G show_val (ts_config s) in if listens a then Some a else None)"

record kcp_end =
  ke_addr :: string
  ke_block :: block_crypt
  ke_shards :: "int \<times> int"

record kcp_tuning =
  kt_nodelay :: "int \<times> int \<times> int \<times> int"
  kt_acknodelay :: bool
  kt_windows :: "int \<times> int"

definition kcp_end_of :: "gslib \<Rightarrow> (server_val \<Rightarrow> string) \<Rightarrow> (bytes \<Rightarrow> bytes \<Rightarrow> int \<Rightarrow> nat \<Rightarrow> bytes) \<Rightarrow> config \<Rightarrow> kcp_end" where
  "kcp_end_of G show_val pbkdf2 c =
     \<lparr>ke_addr = RemoteAddr G show_val c,
      ke_block = AESBlock (pbkdf2 (bytes_of (cf_Password c)) (bytes_of (cf_SALT c)) 4096 32), ke_shards = (10, 3)\<rparr>"

definition kcp_GetListener :: "gslib \<Rightarrow> (server_val \<Rightarrow> string) \<Rightarrow> (bytes \<Rightarrow> bytes \<Rightarrow> int \<Rightarrow> nat \<Rightarrow> bytes) \<Rightarrow> (kcp_end \<Rightarrow> bool) \<Rightarrow>
    kcp_server \<Rightarrow> kcp_end option" where
  "kcp_GetListener G show_val pbkdf2 listens s =
     (let e = kcp_end_of G show_val pbkdf2 (ks_config s) in if listens e then Some e else None)"

definition tuneKCPSession :: kcp_tuning where
  "tuneKCPSession = \<lparr>kt_nodelay = (1, 10, 2, 1), kt_acknodelay = True, kt_windows = (1024, 1024)\<rparr>"

text \<open>An accepted session is tuned; one of another type is passed on as it is.\<close>

definition acceptTuned :: "bool \<Rightarrow> kcp_tuning \<Rightarrow> goerr + conn \<Rightarrow> goerr + (conn \<times> kcp_tuning)" where
  "acceptTuned is_session t got =
     (case got of Inl e \<Rightarrow> Inl e | Inr con \<Rightarrow> Inr (con, if is_session then tuneKCPSession else t))"

definition kcp_Accept :: "kcp_end option \<Rightarrow> bool \<Rightarrow> kcp_tuning \<Rightarrow> goerr + conn \<Rightarrow> kcp_server \<Rightarrow>
    (goerr + (conn \<times> kcp_tuning)) \<times> kcp_server" where
  "kcp_Accept listener is_session t got s =
     (case listener of
        None \<Rightarrow> (Inl (GoErr ''get listener err! in kcp''), s)
      | Some _ \<Rightarrow>
          (case acceptTuned is_session t got of
             Inl e \<Rightarrow> (Inl e, s)
           | Inr r \<Rightarrow> (Inr r, s\<lparr>ks_AcceptConn := ks_AcceptConn s + 1\<rparr>)))"

text \<open>The client's end; its session keeps what the library sets.\<close>

definition ConnectKcp :: "gslib \<Rightarrow> (server_val \<Rightarrow> string) \<Rightarrow> (bytes \<Rightarrow> bytes \<Rightarrow> int \<Rightarrow> nat \<Rightarrow> bytes) \<Rightarrow> (kcp_end \<Rightarrow> goerr + conn) \<Rightarrow>
    kcp_tuning \<Rightarrow> config \<Rightarrow> goerr + (conn \<times> kcp_tuning)" where
  "ConnectKcp G show_val pbkdf2 dial library c =
     (case dial (kcp_end_of G show_val pbkdf2 c) of Inl e \<Rightarrow> Inl e | Inr con \<Rightarrow> Inr (con, library))"

text \<open>
  A first buffer is sent before the caller has the connection, its answer of at most 8096 bytes is
  read.  A failed connection is written to: the call of a method of nil panics.
\<close>

definition ConnectKcpFirstBuf :: "goerr + conn \<Rightarrow> bytes option \<Rightarrow> ((conn \<times> bytes) option \<times> goerr option) go" where
  "ConnectKcpFirstBuf dialled firstbuf =
     (case firstbuf of
        None \<Rightarrow> Ret (case dialled of Inl e \<Rightarrow> (None, Some e) | Inr con \<Rightarrow> (Some (con, []), None))
      | Some b \<Rightarrow>
          (case dialled of
             Inl e \<Rightarrow> Panic
           | Inr con \<Rightarrow>
               (case conn_read 8096 (snd (conn_write b con)) of
                  ((_, Some e), _) \<Rightarrow> Ret (None, Some e)
                | ((bs, None), con1) \<Rightarrow> Ret (Some (con1, bs), None))))"

text \<open>
  The two ends of a kcp tunnel run different timings whatever the library starts with, unless that is what
  the server sets: only the accepted sessions are tuned.
\<close>

theorem kcp_ends_tuned_apart:
  assumes "ConnectKcp G show_val pbkdf2 dial library c = Inr (con, t)" "acceptTuned True library' (Inr con') = Inr (con'', t')"
    and "library \<noteq> tuneKCPSession"
  shows "t \<noteq> t'"
  using assms by (auto simp: ConnectKcp_def acceptTuned_def split: sum.splits)

subsection \<open>A stream for a test\<close>

text \<open>
  \<open>GetConn\<close> of \<open>src/servercontroll/test.go\<close>: every type but tls and quic is dialled as kcp, so the error for
  other types is never made.  \<open>quic\<close> is what making the quic client meets.
\<close>

definition GetConn :: "(config \<Rightarrow> goerr + conn) \<Rightarrow> (config \<Rightarrow> goerr + conn) \<Rightarrow> goerr option \<Rightarrow> bool \<times> goerr option \<times> string \<Rightarrow> mux_env \<Rightarrow>
    config \<Rightarrow> (goerr + conn) go" where
  "GetConn tls kcp mux_err quic M conf =
     (let dialled = (if cf_ProxyType conf = ''tls'' then map_sum id Some (tls conf)
          else if cf_ProxyType conf = ''quic'' then Inr None else map_sum id Some (kcp conf)) in
      case dialled of
        Inl err \<Rightarrow> Ret (Inl err)
      | Inr singleTunnelConn \<Rightarrow>
          if singleTunnelConn \<noteq> None \<and> cf_ProxyType conf \<noteq> ''quic'' then
            (case NewSmuxClient singleTunnelConn (cf_ID conf) (cf_ProxyType conf) mux_err of
               None \<Rightarrow> Panic
             | Some s \<Rightarrow> go_bind (sx_NewConnnect M s) (\<lambda>(r, _). Ret r))
          else if cf_ProxyType conf = ''quic'' then
            (case quic of (has_tls, dial_err, addr) \<Rightarrow>
               go_bind (NewQuicClient addr has_tls dial_err conf) (\<lambda>(q, err).
                 case err of Some e \<Rightarrow> Ret (Inl e) | None \<Rightarrow> Ret (fst (qc_NewConnnect M q))))
          else Ret (Inl (GoErr (''tls/kcp only :  now method is :'' @ cf_ProxyType conf))))"

theorem other_types_dialled_as_kcp:
  assumes "cf_ProxyType conf \<noteq> ''tls''" "cf_ProxyType conf \<noteq> ''quic''" "kcp conf = Inl e"
  shows "GetConn tls kcp mux_err quic M conf = Ret (Inl e)"
  using assms by (simp add: GetConn_def)

end
