(* ===== verification/Dns_Remote.thy ===== *)
theory Dns_Remote
  imports Client_Server Dns_Server
begin

text \<open>
  The resolvers of \<open>src/connections/prodns\<close> that \<open>ServeDNS\<close> does not call (\<open>ResolveLocal\<close>,
  \<open>ResolveRemote\<close>, \<open>ResolveTest\<close> of \<open>dns_local.go\<close>), \<open>SendDNS\<close> and \<open>Reply\<close> of \<open>dns_cl.go\<close>, a round of
  \<open>AutoLoadPac\<close> of \<open>search_dns.go\<close>, and \<open>SendDNS\<close> against the modelled server.  The HTTP request, the
  decoding of JSON and the geographical database are parameters.
\<close>

subsection \<open>Asking the server\<close>

definition senddns_url :: "gslib \<Rightarrow> string \<Rightarrow> string" where
  "senddns_url G server =
     (let s1 = (if \<not> gs_StartsWith G server ''https://'' then ''https://'' @ server else server);
          s2 = (if \<not> gs_EndsWith G s1 '':55443'' then s1 @ '':55443'' else s1) in
      s2 @ ''/z-dns'')"

definition senddns_body :: "gslib \<Rightarrow> string list \<Rightarrow> jdict" where
  "senddns_body G domains = [(''hosts'', JStr (gs_Join G domains '',''))]"

text \<open>The entries of the answer; one that is not a string makes the type assertion panic.\<close>

fun dns_entries :: "jdict \<Rightarrow> (string \<times> string) list \<Rightarrow> (string \<times> string) list go" where
  "dns_entries [] reply = Ret reply"
| "dns_entries ((k, v) # d) reply =
     (if k = ''0.0.0.0'' then dns_entries d reply
      else go_bind (as_string v) (\<lambda>s. dns_entries d (AList.update k s reply)))"

text \<open>The result is None for a nil map.\<close>

definition SendDNS :: "gslib \<Rightarrow> (string \<Rightarrow> jdict \<Rightarrow> goerr + string) \<Rightarrow> (string \<Rightarrow> goerr + jdict) \<Rightarrow> string \<Rightarrow> string list \<Rightarrow>
    (string \<times> string) list option go" where
  "SendDNS G asked unmarshal server domains =
     (case asked (senddns_url G server) (senddns_body G domains) of
        Inl _ \<Rightarrow> Ret None
      | Inr buf \<Rightarrow>
          (case unmarshal buf of
             Inl _ \<Rightarrow> Ret None
           | Inr d \<Rightarrow>
               (case map_of d ''status'' of
                  None \<Rightarrow> Ret None
                | Some st \<Rightarrow> go_bind (as_string st) (\<lambda>s.
                    if s = ''ok'' then
                      (case map_of d ''msg'' of
                         Some (JObj m) \<Rightarrow> go_bind (dns_entries m []) (\<lambda>reply. Ret (Some reply))
                       | _ \<Rightarrow> Panic)
                    else Ret None))))"

subsection \<open>The resolvers that are not called\<close>

definition dh_IsRouter :: "string \<Rightarrow> string \<Rightarrow> bool" where
  "dh_IsRouter GOOS GOARCH \<longleftrightarrow> GOOS = ''linux'' \<and> (GOARCH = ''arm'' \<or> GOARCH = ''arm64'')"

text \<open>\<open>ResolveLocal\<close> answers the query itself; the record is stored even without addresses.\<close>

definition ResolveLocal :: "dns_env \<Rightarrow> (string \<Rightarrow> ip list \<times> goerr option) \<Rightarrow> dns_msg \<Rightarrow> dns_handler \<Rightarrow> (bool \<times> dns_handler) go" where
  "ResolveLocal E lookup msg h =
     (case dm_Question msg of
        [] \<Rightarrow> Panic
      | q # _ \<Rightarrow>
          let domain = qn_Name q in
          go_bind (ReplyDNS (en_gs E) (en_dns E) lookup (PackDNS (en_dns E) msg)) (\<lambda>(r, err).
            if err \<noteq> None then Ret (False, h)
            else go_bind (UnpackDNS (en_gs E) (en_dns E) r) (\<lambda>u.
              case u of
                Inl _ \<Rightarrow> Ret (False, h)
              | Inr replymsg \<Rightarrow>
                  if dm_Answer replymsg = [] then Ret (False, h)
                  else
                    (case record_ips (en_gl E) (dm_Answer replymsg) [] [] of (ips, _) \<Rightarrow>
                      let store = (\<lambda>t. foldl (\<lambda>s i. s\<lparr>ip2host := AList.update i domain (ip2host s),
                              local2host := AList.update i domain (local2host s)\<rparr>)
                            (store_record domain [] ips (en_now E + 60000000000) t) (gl_Every (en_gl E) ips)) in
                      Ret (True, write_msg replymsg (in_tables store h))))))"

text \<open>The addresses and the host a reply is made into; the map is walked in the order \<open>entries\<close>.\<close>

definition remote_record :: "string gslist \<Rightarrow> (string \<times> string) list \<Rightarrow> string \<times> string list" where
  "remote_record L entries =
     foldl (\<lambda>(host, ips) (ip, dom). if ip = ''0.0.0.0'' then (host, ips) else (dom, gl_Add L ips ip)) ([], []) entries"

definition ResolveRemote :: "dns_env \<Rightarrow> (string \<Rightarrow> (string \<times> string) list option go) \<Rightarrow> dns_msg \<Rightarrow> dns_handler \<Rightarrow>
    (bool \<times> dns_handler) go" where
  "ResolveRemote E send msg0 h =
     (case dm_Question msg0 of
        [] \<Rightarrow> Panic
      | q # qs \<Rightarrow>
          let q1 = (if gs_EndsWith (en_gs E) (qn_Name q) ''.lan.''
                then q\<lparr>qn_Name := gs_Replace (en_gs E) (qn_Name q) ''.lan.'' ''.'', qn_type := 1\<rparr> else q);
              msg = msg0\<lparr>dm_Question := q1 # qs\<rparr>; domain = qn_Name q1 in
          go_bind (send domain) (\<lambda>reply.
            case (case reply of Some es \<Rightarrow> remote_record (en_gl E) es | None \<Rightarrow> ([], [])) of (host, ips) \<Rightarrow>
              let h1 = (if 0 < gl_Count (en_gl E) ips then
                    in_tables (\<lambda>t. map_back domain (filter (\<lambda>i. i \<noteq> ''0.0.0.0'') (gl_Every (en_gl E) ips))
                      (if host = domain then store_record domain host ips (en_now E + 5 * 60 * 1000000000) t else t)) h
                  else h);
                  ans = map (\<lambda>ip. A_RR domain 1 80 (parse_ipv4 ip)) (filter (\<lambda>i. i \<noteq> ''0.0.0.0'') (gl_Every (en_gl E) ips)) in
              Ret (True, write_msg (msg\<lparr>dm_Answer := dm_Answer msg @ ans\<rparr>) h1)))"

text \<open>\<open>geo\<close> lists the places of a host as an address and whether it is in China.\<close>

definition ResolveTest :: "dns_env \<Rightarrow> (string \<Rightarrow> (string \<times> bool) list) \<Rightarrow> dns_msg \<Rightarrow> dns_handler \<Rightarrow> (bool \<times> dns_handler) go" where
  "ResolveTest E geo msg h =
     (case dm_Question msg of
        [] \<Rightarrow> Panic
      | q # _ \<Rightarrow>
          let domain = qn_Name q in
          (case geo domain of
             (ip, True) # _ \<Rightarrow>
               Ret (True, write_msg (msg\<lparr>dm_Answer := dm_Answer msg @ [A_RR domain 1 80 (parse_ipv4 ip)]\<rparr>)
                 (in_tables (store_record domain [] (gl_Add (en_gl E) [] ip) (en_now E + 3600 * 1000000000)) h))
           | _ \<Rightarrow> Ret (False, h)))"

subsection \<open>Waiting for a reply, loading lists\<close>

text \<open>
  \<open>Reply\<close> takes records off a queue and puts back those of other names; it looks at the clock only
  when the queue is empty, \<open>left\<close> more times until seven seconds are over.
\<close>

partial_function (option) Reply_wait :: "string \<Rightarrow> dns_record list \<Rightarrow> nat \<Rightarrow> (dns_record \<times> dns_record list) option" where
  "Reply_wait domain queue left =
     (case queue of
        one # rest \<Rightarrow>
          if dr_Host one = domain then Some (one, rest) else Reply_wait domain (rest @ [one]) left
      | [] \<Rightarrow>
          if left = 0 then Some (\<lparr>dr_Host = domain, dr_IPs = [], dr_timeout = 0\<rparr>, [])
          else Reply_wait domain [] (left - 1))"

definition pac_paths :: "string list" where
  "pac_paths = [''/etc/z-client.pac'', ''/root/.config/gfwlist.pac'', ''/etc/gfwlist.pac'', ''~/.config/gfwlist.pac'',
     ''~/.local/z-client.pac'', ''~/.local/gfwlist.pac'', ''~/.cache/gfwlist.pac'']"

text \<open>One tick of \<open>AutoLoadPac\<close>: the first list that exists is loaded.\<close>

fun pac_tick :: "gslib \<Rightarrow> (string \<Rightarrow> string) \<Rightarrow> (string \<Rightarrow> string list option) \<Rightarrow> string list \<Rightarrow> dns_tables \<Rightarrow> dns_tables go" where
  "pac_tick G expand file [] st = Ret st"
| "pac_tick G expand file (p # ps) st =
     (if file (expand p) \<noteq> None then LoadLocalPac G (expand p) (file (expand p)) st else pac_tick G expand file ps st)"

definition AutoLoadPac_tick :: "gslib \<Rightarrow> (string \<Rightarrow> string) \<Rightarrow> (string \<Rightarrow> string list option) \<Rightarrow> dns_tables \<Rightarrow> dns_tables go" where
  "AutoLoadPac_tick G expand file = pac_tick G expand file pac_paths"

subsection \<open>The waiting that does not end\<close>

lemma Reply_wait_found:
  assumes "Reply_wait domain queue left = Some y"
  shows "queue \<noteq> [] \<longrightarrow> (\<exists>r \<in> set queue. dr_Host r = domain)"
proof (rule Reply_wait.raw_induct [OF _ assms], goal_cases)
  case (1 rw domain queue left y)
  show ?case
  proof (cases queue)
    case (Cons one rest)
    then show ?thesis using 1(1) [of domain "rest @ [one]" left y] 1(2) by (auto split: if_splits)
  qed simp
qed

text \<open>
  A single record of another name in the queue makes the wait for a reply last for ever: it is taken
  off and put back without a look at the clock.
\<close>

theorem Reply_never_times_out:
  assumes "queue \<noteq> []" "\<forall>r \<in> set queue. dr_Host r \<noteq> domain"
  shows "Reply_wait domain queue left = None"
  using Reply_wait_found [of domain queue left] assms by (cases "Reply_wait domain queue left") auto

theorem Reply_never_times_out_witness:
  "Reply_wait ''a.'' [\<lparr>dr_Host = ''b.'', dr_IPs = [], dr_timeout = 0\<rparr>] 140 = None"
  by (rule Reply_never_times_out) simp_all

subsection \<open>The server's answer\<close>

text \<open>The JSON of an answer to a request for names.\<close>

definition dns_json :: "http_resp \<Rightarrow> jdict" where
  "dns_json r =
     (case hs_replies r of
        [(MDns m, st)] \<Rightarrow> [(''status'', JStr (if st then ''ok'' else ''fail'')), (''msg'', JObj (map (\<lambda>(k, v). (k, JStr v)) m))]
      | _ \<Rightarrow> [(''status'', JStr ''fail'')])"

text \<open>
  The names a client asks for over the API are never resolved by the server of the same program: the
  request carries no credentials and is refused, and the client gets no map at all.
\<close>

theorem remote_names_refused:
  assumes "serve S ''/z-dns'' (posted json (Some (senddns_body G domains))) pl = Ret (resp, pl')"
    and "asked (senddns_url G server) (senddns_body G domains) = Inr buf" "unmarshal buf = Inr (dns_json resp)"
  shows "SendDNS G asked unmarshal server domains = Ret None \<and> pl' = pl"
proof -
  have "resp = unauthorized" "pl' = pl" using posted_refused [OF assms(1)] by (simp_all add: route_def)
  then show ?thesis using assms(2,3) by (simp add: SendDNS_def dns_json_def unauthorized_def)
qed

theorem remote_names_refused_witness:
  "SendDNS gs_std (\<lambda>_ _. Inr ''x'') (\<lambda>_. Inr (dns_json unauthorized)) ''h'' [''a.''] = Ret None"
proof -
  have "serve toy_api ''/z-dns'' (posted (\<lambda>_. ''x'') (Some (senddns_body gs_std [''a.'']))) one_tunnel = Ret (unauthorized, one_tunnel)"
    by (simp add: serve_def route_def basicAuth_def posted_def)
  from remote_names_refused [OF this, of "\<lambda>_ _. Inr ''x''" "''h''" "''x''" "\<lambda>_. Inr (dns_json unauthorized)"] show ?thesis by simp
qed

end
