(* ===== verification/Vps_Console.thy ===== *)
theory Vps_Console
  imports Vps_Provider Book_Menu Server_Probe
begin

text \<open>
  The console over the provider: the menus of \<open>GV\<close> in \<open>src/deploy/vul.go\<close>, which create and delete
  instances, as state machines like those of the book, and the tools of \<open>src/deploy/dev_server.go\<close>
  that read lines from a terminal and work on servers over SSH.  The SSH library and the scripts
  it runs are parameters; goroutines that work on one server each run one after another, those
  that create instances finish in an order that is a parameter.
\<close>

subsection \<open>Creating instances\<close>

text \<open>Where the function waits: at the command, in a selection, at a tag, or for the repository.\<close>

datatype cmode = CAsk | CRegions "jval list" "string list" | CRegion "jval list" "string list" | COs "jval list"
  | CTags "string list" | CPlan "jval list" | CWait | CRepo | CLeft | CKilled | CCrash

text \<open>\<open>ce_failed\<close> is the index that comes with a selection that fails.\<close>

record console_env =
  ce_p :: provider
  ce_key :: string
  ce_book :: book_env
  ce_gitpass :: string
  ce_failed :: nat
  ce_order :: "jdict list \<Rightarrow> jdict list"

record gv =
  gv_mode :: cmode
  gv_opts :: jdict
  gv_usable :: "(string \<times> string) list"
  gv_made :: "vreq list"
  gv_created :: "vps list"
  gv_git :: git

abbreviation ce_gs :: "console_env \<Rightarrow> gslib" where "ce_gs E \<equiv> pr_gs (ce_p E)"

definition gv_request :: "console_env \<Rightarrow> string \<Rightarrow> string \<Rightarrow> jdict option \<Rightarrow> gv \<Rightarrow> jdict option \<times> gv" where
  "gv_request E uri rmethod data m =
     (gv_base (ce_p E) (ce_key E) uri rmethod data (length (gv_made m)),
      m\<lparr>gv_made := gv_made m @ [VReq rmethod (''https://api.vultr.com/v2'' @ uri) (ce_key E) data]\<rparr>)"

definition reply_array :: "jdict option \<Rightarrow> string \<Rightarrow> jval list go" where
  "reply_array res k = (case res of None \<Rightarrow> Panic | Some d \<Rightarrow> (case map_of d k of Some (JArr vs) \<Rightarrow> Ret vs | _ \<Rightarrow> Panic))"

definition is_object :: "jval \<Rightarrow> bool" where "is_object v \<longleftrightarrow> (case v of JObj _ \<Rightarrow> True | _ \<Rightarrow> False)"

fun obj_get :: "jval \<Rightarrow> string \<Rightarrow> jval" where
  "obj_get (JObj d) k = (case map_of d k of None \<Rightarrow> JNull | Some v \<Rightarrow> v)"
| "obj_get _ k = JNull"

text \<open>The regions the plan runs in, with their cities.\<close>

fun region_scan :: "jval list \<Rightarrow> (string \<times> string) list \<Rightarrow> ((string \<times> string) list \<times> jval list) go" where
  "region_scan [] usable = Ret (usable, [])"
| "region_scan (JObj d # ps) usable =
     go_bind (field d ''id'') (\<lambda>i.
       if map_of usable i \<noteq> None then
         go_bind (field d ''city'') (\<lambda>city. go_bind (region_scan ps (AList.update i city usable)) (\<lambda>(u, plans). Ret (u, JObj d # plans)))
       else region_scan ps usable)"
| "region_scan (_ # ps) usable = Panic"

text \<open>A selection over objects of the provider; anything else in the list is a failed assertion.\<close>

definition select_from :: "(jval list \<Rightarrow> cmode) \<Rightarrow> string \<Rightarrow> jdict option \<times> gv \<Rightarrow> gv" where
  "select_from md k rm = (let (res, m) = rm in
     case reply_array res k of Panic \<Rightarrow> m\<lparr>gv_mode := CCrash\<rparr>
     | Ret items \<Rightarrow> m\<lparr>gv_mode := (if list_all is_object items then md items else CCrash)\<rparr>)"

definition cmd_region :: "console_env \<Rightarrow> gv \<Rightarrow> gv" where
  "cmd_region E m0 = (let (res, m) = gv_request E ''/regions'' ''GET'' None m0 in
     if gv_usable m = [] then m
     else case go_bind (reply_array res ''regions'') (\<lambda>ps. region_scan ps (gv_usable m)) of
       Panic \<Rightarrow> m\<lparr>gv_mode := CCrash\<rparr>
     | Ret (u, plans) \<Rightarrow> m\<lparr>gv_usable := u, gv_mode := CRegions plans []\<rparr>)"

definition cmd_os :: "console_env \<Rightarrow> gv \<Rightarrow> gv" where
  "cmd_os E m = (if gv_usable m = [] then m else select_from COs ''os'' (gv_request E ''/os'' ''GET'' None m))"

text \<open>\<open>Create\<close>: all instances are waited for; one that never gets an address is waited for without end.\<close>

definition new_instances :: "console_env \<Rightarrow> (string \<times> string) list \<Rightarrow> jdict list \<Rightarrow> vps option go option list" where
  "new_instances E cities options = map (create_instance (ce_p E) (ce_key E) cities) (ce_order E options)"

definition cmd_create :: "console_env \<Rightarrow> gv \<Rightarrow> gv" where
  "cmd_create E m =
     (case create_requests (gv_opts m) of
        Panic \<Rightarrow> m\<lparr>gv_mode := CCrash\<rparr>
      | Ret [] \<Rightarrow> m
      | Ret options \<Rightarrow>
          let rs = new_instances E (gv_usable m) options;
              m1 = m\<lparr>gv_made := gv_made m @ map (\<lambda>o1. VReq ''POST'' ''https://api.vultr.com/v2/instances'' (ce_key E) (Some o1)) options\<rparr>
          in if Some Panic \<in> set rs then m1\<lparr>gv_mode := CCrash\<rparr>
             else if None \<in> set rs then m1\<lparr>gv_mode := CWait\<rparr>
             else let vs = concat (map (\<lambda>r. case r of Some (Ret (Some v)) \<Rightarrow> [v] | _ \<Rightarrow> []) rs)
                  in m1\<lparr>gv_created := vs, gv_mode := (if vs = [] then CLeft else CRepo)\<rparr>)"

definition at_command :: "console_env \<Rightarrow> string \<Rightarrow> gv \<Rightarrow> gv" where
  "at_command E input m =
     (let kw = trim_space input in
      if kw = ''region'' then cmd_region E m
      else if kw = ''os_id'' then cmd_os E m
      else if kw = ''tags'' then m\<lparr>gv_mode := CTags []\<rparr>
      else if kw = ''plan'' then select_from CPlan ''plans'' (gv_request E ''/plans'' ''GET'' None m)
      else if kw = ''Create'' \<or> kw = ''Ok'' then cmd_create E m
      else if kw = ''exit'' then m\<lparr>gv_mode := CLeft\<rparr>
      else m)"

text \<open>The list of the regions chosen so far: saving it, adding to it, or one of its entries.\<close>

definition at_regions :: "jval list \<Rightarrow> string list \<Rightarrow> nat \<Rightarrow> gv \<Rightarrow> gv" where
  "at_regions plans regions n m =
     m\<lparr>gv_mode := (if n = 0 then CAsk else if n = 1 then CRegion plans regions else CRegions plans regions)\<rparr>"

definition region_chosen :: "jval list \<Rightarrow> string list \<Rightarrow> nat \<Rightarrow> gv \<Rightarrow> gv" where
  "region_chosen plans regions n m =
     (if length plans \<le> n then m\<lparr>gv_mode := CCrash\<rparr>
      else case obj_get (plans ! n) ''id'' of
        JStr i \<Rightarrow> m\<lparr>gv_opts := AList.update ''region'' (JStr (join_with CHR '','' (regions @ [i]))) (gv_opts m), gv_mode := CRegions plans (regions @ [i])\<rparr>
      | _ \<Rightarrow> m\<lparr>gv_mode := CCrash\<rparr>)"

definition os_chosen :: "jval list \<Rightarrow> nat \<Rightarrow> gv \<Rightarrow> gv" where
  "os_chosen items n m =
     (if length items \<le> n then m\<lparr>gv_mode := CCrash\<rparr>
      else m\<lparr>gv_opts := AList.update ''os_id'' (obj_get (items ! n) ''id'') (gv_opts m), gv_mode := CAsk\<rparr>)"

definition plan_chosen :: "jval list \<Rightarrow> nat \<Rightarrow> gv \<Rightarrow> gv" where
  "plan_chosen items n m =
     (if length items \<le> n then m\<lparr>gv_mode := CCrash\<rparr>
      else case go_bind (as_array (obj_get (items ! n) ''locations'')) all_strings of
        Panic \<Rightarrow> m\<lparr>gv_mode := CCrash\<rparr>
      | Ret ks \<Rightarrow> m\<lparr>gv_usable := map (\<lambda>k. (k, [])) (remdups ks),
            gv_opts := AList.update ''plan'' (obj_get (items ! n) ''id'') (gv_opts m), gv_mode := CAsk\<rparr>)"

definition at_tags :: "console_env \<Rightarrow> string list \<Rightarrow> string \<Rightarrow> gv \<Rightarrow> gv" where
  "at_tags E tags t m =
     (let G = ce_gs E in
      if gs_Trim G t = ''exit'' then
        m\<lparr>gv_opts := (let o1 = AList.update ''tags'' (JArr (map JStr tags)) (gv_opts m) in
            case tags of [] \<Rightarrow> o1 | t0 # _ \<Rightarrow> AList.update ''label'' (JStr t0) o1), gv_mode := CAsk\<rparr>
      else if \<not> gs_In G t '' '' \<and> \<not> gs_In G t ''/'' \<and> \<not> gs_In G t [CHR 0x5C] then m\<lparr>gv_mode := CTags (tags @ [gs_Trim G t])\<rparr>
      else m)"

text \<open>Saving what was created in the book of a user, until it succeeds.\<close>

definition at_repo :: "console_env \<Rightarrow> string \<Rightarrow> gv \<Rightarrow> gv" where
  "at_repo E input m =
     (let B = ce_book E;
          gitrepo = (if \<not> has_prefix input ''https'' then ''https://gitee.com/'' @ input else input);
          gb0 = \<lparr>gb_Repo = gitrepo, gb_GPasswd = ce_gitpass E, gb_User = [], gb_Pwd = [], gb_Logined = False, gb_UsedBook = []\<rparr>;
          (gb, t) = Login B gb0 (gv_git m)
      in if gb_Logined gb then
           let ((saved, f), _, t1) = Upload B (gv_created m) gb t in
           if f = Exited then m\<lparr>gv_git := t1, gv_mode := CKilled\<rparr>
           else m\<lparr>gv_git := gb_Clear B t1, gv_mode := (if saved then CLeft else CRepo)\<rparr>
         else m\<lparr>gv_git := t\<rparr>)"

fun gv_step :: "console_env \<Rightarrow> gv \<Rightarrow> answer_in \<Rightarrow> gv" where
  "gv_step E m a =
     (case (gv_mode m, a) of
        (CAsk, Input s) \<Rightarrow> at_command E s m
      | (CRegions plans regions, Pick n) \<Rightarrow> at_regions plans regions n m
      | (CRegions plans regions, Cancel) \<Rightarrow> m\<lparr>gv_mode := (if 0 < ce_failed E then CRegions plans regions else CAsk)\<rparr>
      | (CRegion plans regions, Pick n) \<Rightarrow> region_chosen plans regions n m
      | (CRegion plans regions, Cancel) \<Rightarrow> m\<lparr>gv_mode := CRegions plans regions\<rparr>
      | (COs items, Pick n) \<Rightarrow> os_chosen items n m
      | (COs items, Cancel) \<Rightarrow> m\<lparr>gv_mode := CAsk\<rparr>
      | (CPlan items, Pick n) \<Rightarrow> plan_chosen items n m
      | (CPlan items, Cancel) \<Rightarrow> m\<lparr>gv_mode := CAsk\<rparr>
      | (CTags tags, Input t) \<Rightarrow> at_tags E tags t m
      | (CRepo, Input s) \<Rightarrow> at_repo E s m
      | _ \<Rightarrow> m)"

definition gv_new :: "git \<Rightarrow> gv" where
  "gv_new t = \<lparr>gv_mode = CAsk,
     gv_opts = [(''region'', JStr []), (''plan'', JStr []), (''os_id'', JNum 1743), (''label'', JStr []), (''tags'', JArr [])],
     gv_usable = [], gv_made = [], gv_created = [], gv_git = t\<rparr>"

definition CreateInstances :: "console_env \<Rightarrow> git \<Rightarrow> answer_in list \<Rightarrow> gv" where
  "CreateInstances E t answers = foldl (gv_step E) (gv_new t) answers"

subsection \<open>Deleting instances\<close>

datatype lmode = LPick | LDo nat | LLeft | LCrash

text \<open>What is shown for an instance asserts a date that is a string.\<close>

definition listable :: "jval \<Rightarrow> bool" where
  "listable v \<longleftrightarrow> is_object v \<and> (case obj_get v ''date_created'' of JStr _ \<Rightarrow> True | _ \<Rightarrow> False)"

definition instance_del :: "console_env \<Rightarrow> jval list \<Rightarrow> nat \<Rightarrow> vreq list \<Rightarrow> lmode \<times> vreq list" where
  "instance_del E instances i reqs =
     (case obj_get (instances ! i) ''id'' of
        JStr d \<Rightarrow> (LPick, reqs @ [VReq ''DELETE'' (''https://api.vultr.com/v2/instances/'' @ d) (ce_key E) None])
      | _ \<Rightarrow> (LCrash, reqs))"

fun list_step :: "console_env \<Rightarrow> jval list \<Rightarrow> lmode \<times> vreq list \<Rightarrow> answer_in \<Rightarrow> lmode \<times> vreq list" where
  "list_step E instances (LPick, reqs) (Pick n) = (if length instances \<le> n then (LCrash, reqs) else (LDo n, reqs))"
| "list_step E instances (LPick, reqs) Cancel = (LLeft, reqs)"
| "list_step E instances (LDo i, reqs) (Pick n) = (if n = 0 then instance_del E instances i reqs else (LLeft, reqs))"
| "list_step E instances st a = st"

definition List_start :: "console_env \<Rightarrow> lmode \<times> jval list" where
  "List_start E =
     (case gv_base (ce_p E) (ce_key E) ''/instances'' ''GET'' None 0 of
        None \<Rightarrow> (LLeft, [])
      | Some res \<Rightarrow>
          (case reply_array (Some res) ''instances'' of
             Panic \<Rightarrow> (LCrash, [])
           | Ret vs \<Rightarrow> (if list_all listable vs then LPick else LCrash, vs)))"

definition gv_List :: "console_env \<Rightarrow> answer_in list \<Rightarrow> lmode \<times> vreq list" where
  "gv_List E answers = (let (md, instances) = List_start E in
     foldl (list_step E instances) (md, [VReq ''GET'' ''https://api.vultr.com/v2/instances'' (ce_key E) None]) answers)"

subsection \<open>Work on servers over SSH\<close>

datatype ssh_auth = SshPassword string | SshKey string

text \<open>\<open>se_key\<close> is the key of the user, when its file is there and parses.\<close>

record ssh_env =
  se_key :: "string option"
  se_dial :: "string \<Rightarrow> string \<Rightarrow> ssh_auth list \<Rightarrow> bool"
  se_session :: "string \<Rightarrow> nat \<Rightarrow> bool"
  se_run :: "string \<Rightarrow> string \<Rightarrow> goerr + string"
  se_BU :: string
  se_B :: string

record tool =
  tl_git :: git
  tl_run :: "(string \<times> string) list"
  tl_made :: "vreq list"
  tl_updates :: "string list"
  tl_tests :: "string list"

definition ran :: "string \<Rightarrow> string \<Rightarrow> tool \<Rightarrow> tool" where
  "ran host cmd s = s\<lparr>tl_run := tl_run s @ [(host, cmd)]\<rparr>"

text \<open>A refused connection is only printed; a session that cannot be opened ends the process.\<close>

definition Auth :: "ssh_env \<Rightarrow> string \<Rightarrow> string \<Rightarrow> string \<Rightarrow> (tool \<Rightarrow> tool) \<Rightarrow> tool \<Rightarrow> fate \<times> tool" where
  "Auth E name host passwd callback s =
     (if \<not> se_dial E name host (SshPassword passwd # (case se_key E of None \<Rightarrow> [] | Some k \<Rightarrow> [SshKey k])) then (Returned, s)
      else if \<not> se_session E host 0 then (Exited, s)
      else (Returned, callback s))"

definition LogOneHost :: "ssh_env \<Rightarrow> string \<Rightarrow> string \<Rightarrow> string \<Rightarrow> tool \<Rightarrow> fate \<times> tool" where
  "LogOneHost E user host pwd = Auth E user host pwd (ran host ''cat /tmp/z.log'')"

text \<open>The second script runs in a session of its own, and only when the first one succeeded.\<close>

definition DepOneHost :: "ssh_env \<Rightarrow> string \<Rightarrow> string \<Rightarrow> string \<Rightarrow> tool \<Rightarrow> fate \<times> tool" where
  "DepOneHost E user host pwd = Auth E user host pwd (\<lambda>s.
     case se_run E host (se_BU E) of
       Inl _ \<Rightarrow> ran host (se_BU E) s
     | Inr _ \<Rightarrow> (if \<not> se_session E host 1 then ran host (se_BU E) s else ran host (se_B E) (ran host (se_BU E) s)))"

definition vps_Log :: "ssh_env \<Rightarrow> vps \<Rightarrow> tool \<Rightarrow> fate \<times> tool" where
  "vps_Log E o1 = LogOneHost E ''root'' (vp_Host o1 @ '':22'') (vp_Pwd o1)"

definition vps_Build :: "ssh_env \<Rightarrow> vps \<Rightarrow> tool \<Rightarrow> fate \<times> tool" where
  "vps_Build E o1 = DepOneHost E ''root'' (vp_Host o1 @ '':22'') (vp_Pwd o1)"

fun each_vps :: "(vps \<Rightarrow> tool \<Rightarrow> fate \<times> tool) \<Rightarrow> vps list \<Rightarrow> tool \<Rightarrow> fate \<times> tool" where
  "each_vps act [] s = (Returned, s)"
| "each_vps act (v # vs) s = (let (f, s1) = act v s in if f = Exited then (Exited, s1) else each_vps act vs s1)"

definition SSHCli :: "gslib \<Rightarrow> string \<Rightarrow> (string \<times> string \<times> string) option" where
  "SSHCli G sshStr = (let (user, host, pwd) = ssh_target G sshStr in
     if user \<noteq> [] \<and> host \<noteq> [] then Some (user, host, pwd) else None)"

text \<open>Publishing the servers of a file; a mistake in the arguments ends the process.\<close>

definition BuildFrom :: "book_env \<Rightarrow> string \<Rightarrow> string \<Rightarrow> git \<Rightarrow> fate \<times> git" where
  "BuildFrom E repoAndAuth listing t =
     (case BuildFrom_auth E repoAndAuth of
        None \<Rightarrow> (Exited, t)
      | Some (repo, gitname, gitpwd) \<Rightarrow>
          let devs = BuildFrom_list E listing; trim = gs_Trim (be_gs E) in
          if devs = [] then (Exited, t)
          else SyncToGit E (trim repo) (trim gitname) (trim gitpwd) (trim (be_stdin E 0)) (trim (be_stdin E 1)) devs t)"

subsection \<open>The tool that searches and works on what it found\<close>

text \<open>\<open>vt_p k\<close> is the provider in the \<open>k\<close>-th round, \<open>vt_long\<close> is \<open>TryLong\<close>, \<open>vt_sort\<close> sorts what is printed.\<close>

record vultr_env =
  vt_p :: "nat \<Rightarrow> provider"
  vt_book :: book_env
  vt_ssh :: ssh_env
  vt_probe :: probe_env
  vt_test :: "string \<Rightarrow> int \<times> int"
  vt_dur :: "int \<Rightarrow> string"
  vt_long :: "string \<Rightarrow> int"
  vt_sort :: "(string \<Rightarrow> string \<Rightarrow> bool) \<Rightarrow> string list \<Rightarrow> string list"

abbreviation vt_gs :: "vultr_env \<Rightarrow> gslib" where "vt_gs E \<equiv> be_gs (vt_book E)"

datatype vround = VLeft | VAgain | VPanic | VExited

text \<open>A line of the terminal; at the end of the input every line is empty.\<close>

definition next_line :: "gslib \<Rightarrow> string list \<Rightarrow> string \<times> string list" where
  "next_line G ls = (case ls of [] \<Rightarrow> (gs_Trim G [], []) | l # ls' \<Rightarrow> (gs_Trim G l, ls'))"

definition test_nth :: "vultr_env \<Rightarrow> string \<Rightarrow> nat \<Rightarrow> string" where
  "test_nth E i k = be_Nth (vt_book E) (gs_Split (vt_gs E) i '':'') (int k)"

definition test_entry :: "vultr_env \<Rightarrow> vps \<Rightarrow> string" where
  "test_entry E v = gs_F (vt_gs E) ''%s-%s:%d'' [FStr (vp_Location v), FStr (vp_Host v), FInt (fst (vt_test E (vp_Host v)))]"

definition vultr_tests :: "vultr_env \<Rightarrow> vps list \<Rightarrow> string list" where
  "vultr_tests E devs =
     map (\<lambda>i. gs_F (vt_gs E) ''%s : %s'' [FStr (test_nth E i 0), FStr (vt_dur E (vt_long E (test_nth E i 1)))])
       (vt_sort E (\<lambda>l r. vt_long E (test_nth E r 1) < vt_long E (test_nth E l 1)) (map (test_entry E) devs))"

fun vultr_updates :: "probe_env \<Rightarrow> vps list \<Rightarrow> string list go" where
  "vultr_updates E [] = Ret []"
| "vultr_updates E (v # vs) = go_bind (SendUpdate E (vp_Host v)) (\<lambda>_. go_bind (vultr_updates E vs) (\<lambda>hs. Ret (vp_Host v # hs)))"

definition vultr_sync :: "vultr_env \<Rightarrow> vps list \<Rightarrow> string list \<Rightarrow> tool \<Rightarrow> vround \<times> string list \<times> tool" where
  "vultr_sync E devs ls s =
     (let G = vt_gs E;
          (repo, l1) = next_line G ls; (gitname, l2) = next_line G l1; (gitpwd, l3) = next_line G l2;
          (loginname, l4) = next_line G l3; (loginpwd, l5) = next_line G l4;
          (f, t) = SyncToGit (vt_book E) repo gitname gitpwd loginname loginpwd devs (tl_git s)
      in if f = Exited then (VExited, l5, s\<lparr>tl_git := t\<rparr>) else (VAgain, snd (next_line G l5), s\<lparr>tl_git := t\<rparr>))"

definition vultr_each :: "vultr_env \<Rightarrow> (vps \<Rightarrow> tool \<Rightarrow> fate \<times> tool) \<Rightarrow> vps list \<Rightarrow> string list \<Rightarrow> tool \<Rightarrow> vround \<times> string list \<times> tool" where
  "vultr_each E act devs ls s =
     (let (f, s1) = each_vps act devs s in
      if f = Exited then (VExited, ls, s1) else (VAgain, snd (next_line (vt_gs E) ls), s1))"

definition vultr_do ::
  "vultr_env \<Rightarrow> provider \<Rightarrow> string \<Rightarrow> string \<Rightarrow> vps list \<Rightarrow> string list \<Rightarrow> tool \<Rightarrow> vround \<times> string list \<times> tool" where
  "vultr_do E P server handler devs ls s =
     (let G = vt_gs E in
      if handler = ''log'' then vultr_each E (vps_Log (vt_ssh E)) devs ls s
      else if handler = ''build'' then vultr_each E (vps_Build (vt_ssh E)) devs ls s
      else if handler = ''test'' then
        (VAgain, snd (next_line G ls), s\<lparr>tl_tests := tl_tests s @ vultr_tests E devs\<rparr>)
      else if handler = ''update'' then
        (case vultr_updates (vt_probe E) devs of
           Panic \<Rightarrow> (VPanic, ls, s)
         | Ret hs \<Rightarrow> (VAgain, snd (next_line G ls), s\<lparr>tl_updates := tl_updates s @ hs\<rparr>))
      else if handler = ''sync'' then vultr_sync E devs ls s
      else if handler = ''remove'' then
        (case RemoveHost P server of Panic \<Rightarrow> (VPanic, ls, s) | Ret rqs \<Rightarrow> (VAgain, ls, s\<lparr>tl_made := tl_made s @ rqs\<rparr>))
      else (VAgain, ls, s))"

definition search_made :: "provider \<Rightarrow> string \<Rightarrow> tool \<Rightarrow> tool" where
  "search_made P server s = (case api_key (pr_gs P) server of Panic \<Rightarrow> s
     | Ret k \<Rightarrow> s\<lparr>tl_made := tl_made s @ [VulGet (api_url ''instances'') k]\<rparr>)"

definition vultr_round :: "vultr_env \<Rightarrow> provider \<Rightarrow> string \<Rightarrow> string list \<Rightarrow> tool \<Rightarrow> vround \<times> string list \<times> tool" where
  "vultr_round E P server ls0 s0 =
     (let (tag, ls) = next_line (vt_gs E) ls0 in
      if tag = ''exit'' then (VLeft, ls, s0)
      else
        let s = search_made P server s0 in
        case SearchFromVultr P tag server of
          Panic \<Rightarrow> (VPanic, ls, s)
        | Ret devs \<Rightarrow> (let (handler, ls1) = next_line (vt_gs E) ls in vultr_do E P server handler devs ls1 s))"

partial_function (option) VultrMode :: "vultr_env \<Rightarrow> string \<Rightarrow> nat \<Rightarrow> string list \<Rightarrow> tool \<Rightarrow> (vround \<times> tool) option" where
  "VultrMode E server k ls s =
     (case vultr_round E (vt_p E k) server ls s of
        (r, ls1, s1) \<Rightarrow> if r = VAgain then VultrMode E server (k + 1) ls1 s1 else Some (r, s1))"

subsection \<open>The plan and the regions\<close>

definition ask_create :: "console_env \<Rightarrow> jdict \<Rightarrow> vreq" where
  "ask_create E option = VReq ''POST'' ''https://api.vultr.com/v2/instances'' (ce_key E) (Some option)"

lemma asked_region_simps [simp]:
  "asked_region (ask_create E (create_option opts loc)) = Some (JStr loc)"
  by (simp add: ask_create_def create_option_def)

lemma create_made:
  assumes "create_requests (gv_opts m) = Ret os"
  shows "gv_made (cmd_create E m) = gv_made m @ map (ask_create E) os"
  using assms by (simp add: cmd_create_def ask_create_def [abs_def] Let_def split: list.split)

lemma create_opts:
  assumes "opt_set opts ''plan''" "opt_set opts ''os_id''" "opt_set opts ''label''"
    and "map_of opts ''region'' = Some (JStr (join_with CHR '','' ids))" "2 \<le> length ids"
    and "\<forall>i \<in> set ids. CHR '','' \<notin> set i" "hd ids \<noteq> []"
  shows "create_requests opts = Ret (map (create_option opts) ids)"
proof -
  have "ids \<noteq> []" "length ids \<noteq> 1" using assms(5) by auto
  then show ?thesis using one_region_never_created [OF _ assms(6,7,1-3,4)] by simp
qed

text \<open>
  Changing the plan keeps the regions of the plan before: the instances of the new plan are asked
  for in regions it may not run in.
\<close>

theorem plan_change_keeps_regions:
  assumes "gv_mode m = CPlan items" "n < length items" "items ! n = JObj d"
    and "map_of d ''id'' = Some (JStr p)" "p \<noteq> []" "map_of d ''locations'' = Some (JArr (map JStr ks))"
    and "opt_set (gv_opts m) ''os_id''" "opt_set (gv_opts m) ''label''"
    and "map_of (gv_opts m) ''region'' = Some (JStr (join_with CHR '','' ids))" "2 \<le> length ids"
    and "\<forall>i \<in> set ids. CHR '','' \<notin> set i" "hd ids \<noteq> []" "r \<in> set ids"
  shows "\<exists>b. ask_create E b \<in> set (gv_made (foldl (gv_step E) m [Pick n, Input ''Create''])) \<and>
    map_of b ''plan'' = Some (JStr p) \<and> map_of b ''region'' = Some (JStr r)"
proof -
  have strings: "all_strings (map JStr ks) = Ret ks" by (induction ks) simp_all
  define opts where "opts = AList.update ''plan'' (JStr p) (gv_opts m)"
  let ?m = "m\<lparr>gv_usable := map (\<lambda>k. (k, [])) (remdups ks), gv_opts := opts, gv_mode := CAsk\<rparr>"
  have step: "gv_step E m (Pick n) = ?m"
    using assms(1-4,6) strings by (simp add: plan_chosen_def as_array_def opts_def)
  have cmd: "trim_space ''Create'' = ''Create''" by code_simp
  have opts: "opt_set opts ''plan''" "opt_set opts ''os_id''" "opt_set opts ''label''"
      "map_of opts ''region'' = Some (JStr (join_with CHR '','' ids))" "opt_val opts ''plan'' = JStr p"
    using assms(5,7-9) by (simp_all add: opts_def opt_set_def opt_val_def update_conv')
  have "create_requests (gv_opts ?m) = Ret (map (create_option opts) ids)"
    using create_opts [OF opts(1-4) assms(10-12)] by simp
  then have "gv_made (gv_step E ?m (Input ''Create'')) = gv_made m @ map (ask_create E) (map (create_option opts) ids)"
    using create_made [of ?m] cmd by (simp add: at_command_def)
  moreover have "map_of (create_option opts r) ''plan'' = Some (JStr p)" "map_of (create_option opts r) ''region'' = Some (JStr r)"
    using opts(5) by (simp_all add: create_option_def)
  ultimately show ?thesis using assms(13) step by (intro exI [of _ "create_option opts r"]) (simp del: gv_step.simps)
qed

text \<open>
  What the provider says of a plan: the regions among its \<open>locations\<close>.  The plan that counts is the
  one picked last.
\<close>

definition locations :: "jval \<Rightarrow> string list" where
  "locations plan = (case obj_get plan ''locations'' of
     JArr vs \<Rightarrow> concat (map (\<lambda>v. case v of JStr r \<Rightarrow> [r] | _ \<Rightarrow> []) vs) | _ \<Rightarrow> [])"

definition runs_in :: "jval \<Rightarrow> string \<Rightarrow> bool" where "runs_in plan r \<longleftrightarrow> r \<in> set (locations plan)"

definition picked :: "gv \<Rightarrow> answer_in \<Rightarrow> jval option" where
  "picked m a = (case (gv_mode m, a) of
     (CPlan items, Pick n) \<Rightarrow> if n < length items then Some (items ! n) else None | _ \<Rightarrow> None)"

fun last_plan :: "console_env \<Rightarrow> gv \<Rightarrow> answer_in list \<Rightarrow> jval option \<Rightarrow> jval option" where
  "last_plan E m [] p = p"
| "last_plan E m (a # as) p = last_plan E (gv_step E m a) as (case picked m a of None \<Rightarrow> p | Some plan \<Rightarrow> Some plan)"

fun asked_plan :: "vreq \<Rightarrow> jval option" where
  "asked_plan (VReq rmethod url token body) = (case body of None \<Rightarrow> None | Some d \<Rightarrow> map_of d ''plan'')"

text \<open>A plan is only picked while no region is on order, and no location it lists has a comma.\<close>

fun careful :: "console_env \<Rightarrow> gv \<Rightarrow> answer_in list \<Rightarrow> bool" where
  "careful E m [] = True"
| "careful E m (a # as) = (careful E (gv_step E m a) as \<and>
     (case picked m a of
        Some plan \<Rightarrow> map_of (gv_opts m) ''region'' = Some (JStr []) \<and> (\<forall>r \<in> set (locations plan). CHR '','' \<notin> set r)
      | None \<Rightarrow> True))"

definition usable :: "gv \<Rightarrow> string set" where "usable m = fst ` set (gv_usable m)"

definition choosing :: "gv \<Rightarrow> jval list \<Rightarrow> string list \<Rightarrow> bool" where
  "choosing m plans regions \<longleftrightarrow>
     (\<forall>p \<in> set plans. \<forall>i. obj_get p ''id'' = JStr i \<longrightarrow> i \<in> usable m) \<and> set regions \<subseteq> usable m"

definition gv_over :: "cmode \<Rightarrow> bool" where
  "gv_over md \<longleftrightarrow> md \<in> {CWait, CRepo, CLeft, CKilled, CCrash}"

definition regions_inv :: "gv \<Rightarrow> bool" where
  "regions_inv m \<longleftrightarrow>
     (\<exists>ids. map_of (gv_opts m) ''region'' = Some (JStr (join_with CHR '','' ids)) \<and> set ids \<subseteq> usable m) \<and>
     (\<forall>k \<in> usable m. CHR '','' \<notin> set k) \<and>
     (case gv_mode m of CRegions plans regions \<Rightarrow> choosing m plans regions | CRegion plans regions \<Rightarrow> choosing m plans regions | _ \<Rightarrow> True) \<and>
     (\<forall>q \<in> set (gv_made m). \<forall>v. asked_region q = Some v \<longrightarrow> gv_over (gv_mode m) \<and> v \<in> JStr ` usable m)"

lemma field_Ret: "field d k = Ret x \<longleftrightarrow> map_of d k = Some (JStr x)"
  by (auto simp: field_def split: option.splits) (metis as_string.elims go.inject go.distinct(1))

lemma region_scan_keeps:
  assumes "region_scan ps u = Ret (u', plans)"
  shows "fst ` set u' = fst ` set u \<and> (\<forall>p \<in> set plans. \<forall>i. obj_get p ''id'' = JStr i \<longrightarrow> i \<in> fst ` set u)"
  using assms
proof (induction ps u arbitrary: u' plans rule: region_scan.induct)
  case (2 d ps usable)
  then obtain i where i: "field d ''id'' = Ret i" by (cases "field d ''id''") simp_all
  then have m: "map_of d ''id'' = Some (JStr i)" by (simp add: field_Ret)
  show ?case
  proof (cases "map_of usable i")
    case None
    then show ?thesis using 2(2) [of i] 2(3) i by simp
  next
    case (Some x)
    then have mem: "i \<in> fst ` set usable" by (metis domI dom_map_of_conv_image_fst)
    have keys: "fst ` set (AList.update i city usable) = fst ` set usable" for city
      using mem by (auto simp add: update_conv' simp flip: dom_map_of_conv_image_fst)
    obtain city pl where city: "field d ''city'' = Ret city"
        "region_scan ps (AList.update i city usable) = Ret (u', pl)" "plans = JObj d # pl"
      using 2(3) i Some by (cases "field d ''city''") (auto simp: go_bind_Ret_conv split: prod.splits)
    show ?thesis using 2(1) [OF _ city(2)] Some mem keys city(3) m by simp
  qed
qed (auto split: go.splits)

lemma request_simps [simp]:
  "gv_mode (snd (gv_request E uri rm d m)) = gv_mode m" "gv_opts (snd (gv_request E uri rm d m)) = gv_opts m"
  "gv_usable (snd (gv_request E uri rm d m)) = gv_usable m"
  "gv_made (snd (gv_request E uri rm d m)) = gv_made m @ [VReq rm (''https://api.vultr.com/v2'' @ uri) (ce_key E) d]"
  by (simp_all add: gv_request_def)

text \<open>A state that asks for nothing new and whose mode is no choice of regions inherits the invariant.\<close>

lemma regions_inv_same:
  assumes "regions_inv m" "gv_opts m' = gv_opts m" "usable m' = usable m"
    and "\<And>q v. q \<in> set (gv_made m') \<Longrightarrow> asked_region q = Some v \<Longrightarrow> q \<in> set (gv_made m)"
    and "gv_over (gv_mode m) \<longrightarrow> gv_over (gv_mode m')"
    and "case gv_mode m' of CRegions plans regions \<Rightarrow> choosing m' plans regions | CRegion plans regions \<Rightarrow> choosing m' plans regions | _ \<Rightarrow> True"
  shows "regions_inv m'"
  using assms unfolding regions_inv_def by metis

lemma usable_upd [simp]:
  "usable (m\<lparr>gv_mode := md\<rparr>) = usable m" "usable (m\<lparr>gv_opts := d\<rparr>) = usable m" "usable (m\<lparr>gv_made := qs\<rparr>) = usable m"
  "usable (m\<lparr>gv_git := t\<rparr>) = usable m" "usable (m\<lparr>gv_created := vs\<rparr>) = usable m"
  by (simp_all add: usable_def)

lemma choosing_upd [simp]:
  "choosing (m\<lparr>gv_mode := md\<rparr>) plans regions = choosing m plans regions"
  by (simp add: choosing_def)

lemma cmd_region_inv:
  assumes "regions_inv m" "gv_mode m = CAsk"
  shows "regions_inv (cmd_region E m)"
proof -
  obtain res m1 where r: "gv_request E ''/regions'' ''GET'' None m = (res, m1)" by force
  have m1: "gv_mode m1 = CAsk" "gv_opts m1 = gv_opts m" "gv_usable m1 = gv_usable m"
      "\<And>q v. q \<in> set (gv_made m1) \<Longrightarrow> asked_region q = Some v \<Longrightarrow> q \<in> set (gv_made m)"
    using request_simps [of E "''/regions''" "''GET''" None m] assms(2) by (auto simp: r)
  have inv: "regions_inv m1" by (rule regions_inv_same [OF assms(1)]) (use m1 assms(2) in \<open>auto simp: usable_def gv_over_def\<close>)
  have crash: "regions_inv (m1\<lparr>gv_mode := CCrash\<rparr>)"
    by (rule regions_inv_same [OF inv]) (simp_all add: gv_over_def)
  have chosen: "regions_inv (m1\<lparr>gv_usable := u, gv_mode := CRegions plans []\<rparr>)"
    if scan: "region_scan ps (gv_usable m1) = Ret (u, plans)" for ps u plans
  proof (rule regions_inv_same [OF inv])
    note k = region_scan_keeps [OF scan]
    then show us: "usable (m1\<lparr>gv_usable := u, gv_mode := CRegions plans []\<rparr>) = usable m1" by (simp add: usable_def)
    show "case gv_mode (m1\<lparr>gv_usable := u, gv_mode := CRegions plans []\<rparr>) of
        CRegions ps rs \<Rightarrow> choosing (m1\<lparr>gv_usable := u, gv_mode := CRegions plans []\<rparr>) ps rs
      | CRegion ps rs \<Rightarrow> choosing (m1\<lparr>gv_usable := u, gv_mode := CRegions plans []\<rparr>) ps rs | _ \<Rightarrow> True"
      using k us by (simp add: choosing_def) (simp add: usable_def)
  qed (simp_all add: m1(1) gv_over_def)
  show ?thesis
    using inv crash chosen by (auto simp: cmd_region_def r go_bind_Ret_conv split: go.splits prod.splits)
qed

lemma select_from_inv:
  assumes "regions_inv m" "gv_mode m = CAsk" "md = COs \<or> md = CPlan"
  shows "regions_inv (select_from md k (gv_request E uri ''GET'' None m))"
proof -
  obtain res m1 where r: "gv_request E uri ''GET'' None m = (res, m1)" by force
  have m1: "gv_mode m1 = CAsk" "gv_opts m1 = gv_opts m" "gv_usable m1 = gv_usable m"
      "\<And>q v. q \<in> set (gv_made m1) \<Longrightarrow> asked_region q = Some v \<Longrightarrow> q \<in> set (gv_made m)"
    using request_simps [of E uri "''GET''" None m] assms(2) by (auto simp: r)
  have "regions_inv (m1\<lparr>gv_mode := x\<rparr>)" if "x = CCrash \<or> (\<exists>items. x = md items)" for x
    by (rule regions_inv_same [OF assms(1)]) (use that assms(2,3) m1 in \<open>auto simp: gv_over_def usable_def\<close>)
  then show ?thesis by (auto simp: select_from_def r split: go.split)
qed

lemma create_requests_regions:
  assumes "create_requests opts = Ret os" "map_of opts ''region'' = Some (JStr (join_with CHR '','' ids))"
    and "\<forall>i \<in> set ids. CHR '','' \<notin> set i" "o1 \<in> set os"
  shows "\<exists>i \<in> set ids. o1 = create_option opts i"
proof (cases "ids = []")
  case True
  then show ?thesis using assms(1,2,4) by (simp add: create_requests_def opt_set_def split: if_splits)
next
  case False
  then show ?thesis using assms split_join [OF False assms(3)]
    by (auto simp: create_requests_def opt_val_def split_str_single split: if_splits)
qed

lemma cmd_create_inv:
  assumes "regions_inv m" "gv_mode m = CAsk"
  shows "regions_inv (cmd_create E m)"
proof (cases "create_requests (gv_opts m)")
  case Panic
  then show ?thesis by (simp add: cmd_create_def) (rule regions_inv_same [OF assms(1)], simp_all add: gv_over_def)
next
  case (Ret os)
  obtain ids where ids: "map_of (gv_opts m) ''region'' = Some (JStr (join_with CHR '','' ids))" "set ids \<subseteq> usable m"
    using assms(1) by (auto simp: regions_inv_def)
  have none: "asked_region q = None" if "q \<in> set (gv_made m)" for q
    using assms that by (cases "asked_region q") (auto simp: regions_inv_def gv_over_def)
  show ?thesis
  proof (cases "os = []")
    case False
    have us: "usable (cmd_create E m) = usable m" and op: "gv_opts (cmd_create E m) = gv_opts m"
      using Ret by (auto simp: cmd_create_def Let_def usable_def split: list.split)
    have over: "gv_over (gv_mode (cmd_create E m))"
      using Ret False by (cases os) (auto simp: cmd_create_def Let_def gv_over_def)
    have "v \<in> JStr ` usable m" if q: "q \<in> set (gv_made (cmd_create E m))" "asked_region q = Some v" for q v
    proof -
      obtain o1 where "o1 \<in> set os" "q = ask_create E o1" using q none by (auto simp: create_made [OF Ret])
      then obtain i where "i \<in> set ids" "q = ask_create E (create_option (gv_opts m) i)"
        using create_requests_regions [OF Ret ids(1)] ids(2) assms(1) by (auto simp: regions_inv_def)
      then show ?thesis using q(2) ids(2) by auto
    qed
    then show ?thesis using assms(1) us op over by (auto simp: regions_inv_def gv_over_def)
  qed (use Ret assms(1) in \<open>simp add: cmd_create_def\<close>)
qed

lemma at_repo_keeps: "gv_opts (at_repo E s m) = gv_opts m" "gv_usable (at_repo E s m) = gv_usable m"
  "gv_made (at_repo E s m) = gv_made m" "gv_mode m = CRepo \<Longrightarrow> gv_over (gv_mode (at_repo E s m))"
  by (simp_all add: at_repo_def Let_def gv_over_def split: prod.split)

lemma asked_before: "regions_inv m \<Longrightarrow> \<not> gv_over (gv_mode m) \<Longrightarrow> q \<in> set (gv_made m) \<Longrightarrow> asked_region q = None"
  by (cases "asked_region q") (auto simp: regions_inv_def)

lemma region_chosen_inv:
  assumes "regions_inv m" "gv_mode m = CRegion plans regions"
  shows "regions_inv (region_chosen plans regions n m)"
proof -
  have ch: "choosing m plans regions" and none: "\<And>q. q \<in> set (gv_made m) \<Longrightarrow> asked_region q = None"
    using assms asked_before [OF assms(1)] by (auto simp: regions_inv_def gv_over_def)
  have crash: "regions_inv (m\<lparr>gv_mode := CCrash\<rparr>)"
    by (rule regions_inv_same [OF assms(1)]) (simp_all add: gv_over_def)
  show ?thesis
  proof (cases "n < length plans \<and> (\<exists>i. obj_get (plans ! n) ''id'' = JStr i)")
    case True
    then obtain i where i: "n < length plans" "obj_get (plans ! n) ''id'' = JStr i" by blast
    then have sub: "set (regions @ [i]) \<subseteq> usable m" using ch by (auto simp: choosing_def)
    let ?m = "m\<lparr>gv_opts := AList.update ''region'' (JStr (join_with CHR '','' (regions @ [i]))) (gv_opts m), gv_mode := CRegions plans (regions @ [i])\<rparr>"
    have "\<exists>ids. map_of (gv_opts ?m) ''region'' = Some (JStr (join_with CHR '','' ids)) \<and> set ids \<subseteq> usable ?m"
      using sub by (intro exI [of _ "regions @ [i]"]) (simp add: update_conv' usable_def)
    then have "regions_inv ?m" using assms(1) sub ch none by (simp add: regions_inv_def choosing_def usable_def)
    then show ?thesis using i by (simp add: region_chosen_def)
  qed (use crash in \<open>auto simp: region_chosen_def split: jval.split\<close>)
qed

lemma plan_locations:
  assumes "go_bind (as_array (obj_get plan ''locations'')) all_strings = Ret ks"
  shows "locations plan = ks"
proof -
  have "all_strings vs = Ret ks \<Longrightarrow> concat (map (\<lambda>v. case v of JStr r \<Rightarrow> [r] | _ \<Rightarrow> []) vs) = ks" for vs ks
    by (induction vs arbitrary: ks rule: all_strings.induct) (auto simp: go_bind_Ret_conv elim: as_string.elims)
  with assms show ?thesis by (cases "obj_get plan ''locations''") (auto simp: locations_def as_array_def)
qed

lemma plan_chosen_inv:
  assumes "regions_inv m" "gv_mode m = CPlan items" "careful E m [Pick n]"
  shows "regions_inv (plan_chosen items n m)"
proof -
  have none: "\<And>q. q \<in> set (gv_made m) \<Longrightarrow> asked_region q = None"
    using assms(1,2) asked_before [OF assms(1)] by (auto simp: gv_over_def)
  have crash: "regions_inv (m\<lparr>gv_mode := CCrash\<rparr>)"
    by (rule regions_inv_same [OF assms(1)]) (simp_all add: gv_over_def)
  show ?thesis
  proof (cases "n < length items \<and> go_bind (as_array (obj_get (items ! n) ''locations'')) all_strings \<noteq> Panic")
    case True
    then obtain ks where ks: "go_bind (as_array (obj_get (items ! n) ''locations'')) all_strings = Ret ks"
      by (cases "go_bind (as_array (obj_get (items ! n) ''locations'')) all_strings") auto
    have "\<exists>ids. [] = join_with CHR '','' ids \<and> set ids \<subseteq> fst ` set (map (\<lambda>k. (k, [] :: string)) (remdups ks))"
      by (rule exI [of _ "[]"]) simp
    then show ?thesis using assms(2,3) ks True none plan_locations [OF ks]
      by (auto simp: picked_def plan_chosen_def regions_inv_def update_conv' usable_def)
  qed (use crash in \<open>auto simp: plan_chosen_def\<close>)
qed

lemma tags_opts:
  assumes "regions_inv m" "gv_mode m = CTags tags"
  shows "regions_inv (at_tags E tags t m)"
proof -
  have none: "\<And>q. q \<in> set (gv_made m) \<Longrightarrow> asked_region q = None"
    using assms(1,2) asked_before [OF assms(1)] by (auto simp: gv_over_def)
  then show ?thesis using assms
    by (auto simp: at_tags_def Let_def regions_inv_def update_conv' usable_def split: list.split)
qed

lemma gv_step_inv:
  assumes "regions_inv m" "careful E m [a]"
  shows "regions_inv (gv_step E m a)"
proof -
  have same: "regions_inv (m\<lparr>gv_mode := md\<rparr>)"
    if "gv_over (gv_mode m) \<longrightarrow> gv_over md"
      "case md of CRegions plans regions \<Rightarrow> choosing m plans regions | CRegion plans regions \<Rightarrow> choosing m plans regions | _ \<Rightarrow> True" for md
    by (rule regions_inv_same [OF assms(1)]) (use that in \<open>simp_all split: cmode.split_asm\<close>)
  have ch: "choosing m plans regions" if "gv_mode m = CRegions plans regions \<or> gv_mode m = CRegion plans regions" for plans regions
    using that assms(1) by (auto simp: regions_inv_def)
  have cmd: "regions_inv (at_command E s m)" if md: "gv_mode m = CAsk" for s
    using assms(1) cmd_region_inv [OF assms(1) md] cmd_create_inv [OF assms(1) md] md
      select_from_inv [OF assms(1) md] same [of CLeft] same [of "CTags []"]
    by (simp add: at_command_def cmd_os_def Let_def gv_over_def)
  have os: "regions_inv (os_chosen items n m)" if "gv_mode m = COs items" for items n
    using assms(1) that asked_before [OF assms(1)]
    by (auto simp: os_chosen_def regions_inv_def update_conv' usable_def gv_over_def)
  have repo: "regions_inv (at_repo E s m)" if "gv_mode m = CRepo" for s
    by (rule regions_inv_same [OF assms(1)])
      (use that at_repo_keeps(1-3) [of E s m] at_repo_keeps(4) [of m E s] in \<open>auto simp: usable_def gv_over_def split: cmode.split\<close>)
  show ?thesis
  proof (cases "gv_mode m")
    case CAsk
    then show ?thesis using cmd assms(1) by (cases a) simp_all
  next
    case (CRegions plans regions)
    then show ?thesis using ch [of plans regions] same assms(1) by (cases a) (simp_all add: at_regions_def gv_over_def)
  next
    case (CRegion plans regions)
    then show ?thesis using ch [of plans regions] same assms(1) region_chosen_inv [OF assms(1)]
      by (cases a) (simp_all add: gv_over_def)
  next
    case (COs items)
    then show ?thesis using os same assms(1) by (cases a) (simp_all add: gv_over_def)
  next
    case (CPlan items)
    then show ?thesis using plan_chosen_inv [OF assms(1) CPlan] same assms by (cases a) (simp_all add: gv_over_def)
  next
    case (CTags tags)
    then show ?thesis using tags_opts [OF assms(1)] assms(1) by (cases a) simp_all
  next
    case CRepo
    then show ?thesis using repo assms(1) by (cases a) simp_all
  qed (use assms(1) in \<open>cases a; simp\<close>)+
qed

lemma gv_run_inv: "regions_inv m \<Longrightarrow> careful E m answers \<Longrightarrow> regions_inv (foldl (gv_step E) m answers)"
proof (induction answers arbitrary: m)
  case (Cons a "as")
  have "careful E m [a]" using Cons.prems(2) by simp
  then show ?case using Cons gv_step_inv [of m E a] by (simp del: gv_step.simps)
qed simp

text \<open>What the console keeps besides: the regions on offer and the plan on order are those of the plan picked last.\<close>

definition plan_inv :: "gv \<Rightarrow> jval option \<Rightarrow> bool" where
  "plan_inv m p \<longleftrightarrow>
     (gv_mode m = CCrash \<and> (\<forall>q \<in> set (gv_made m). asked_region q = None) \<or> usable m = {} \<or>
      (\<exists>plan. p = Some plan \<and> map_of (gv_opts m) ''plan'' = Some (obj_get plan ''id'') \<and> (\<forall>r \<in> usable m. runs_in plan r))) \<and>
     (\<forall>q \<in> set (gv_made m). asked_region q \<noteq> None \<longrightarrow> asked_plan q = map_of (gv_opts m) ''plan'')"

lemma request_asks_no_region [simp]: "asked_region (VReq rm url k None) = None" by simp

lemma cmd_region_frame:
  "usable (cmd_region E m) = usable m" "gv_opts (cmd_region E m) = gv_opts m"
  "q \<in> set (gv_made (cmd_region E m)) \<Longrightarrow> asked_region q \<noteq> None \<Longrightarrow> q \<in> set (gv_made m)"
proof -
  obtain res m1 where r: "gv_request E ''/regions'' ''GET'' None m = (res, m1)" by force
  note s = request_simps [of E "''/regions''" "''GET''" None m, unfolded r snd_conv]
  show "usable (cmd_region E m) = usable m"
    using s region_scan_keeps by (auto simp: cmd_region_def r usable_def go_bind_Ret_conv split: go.split prod.split) (metis image_eqI fst_conv)+
  show "gv_opts (cmd_region E m) = gv_opts m"
    using s by (simp add: cmd_region_def r split: go.split prod.split)
  show "q \<in> set (gv_made (cmd_region E m)) \<Longrightarrow> asked_region q \<noteq> None \<Longrightarrow> q \<in> set (gv_made m)"
    using s by (auto simp: cmd_region_def r split: go.splits prod.splits if_splits)
qed

lemma select_from_frame:
  "usable (select_from md k (gv_request E uri ''GET'' None m)) = usable m"
  "gv_opts (select_from md k (gv_request E uri ''GET'' None m)) = gv_opts m"
  "q \<in> set (gv_made (select_from md k (gv_request E uri ''GET'' None m))) \<Longrightarrow> asked_region q \<noteq> None \<Longrightarrow> q \<in> set (gv_made m)"
proof -
  obtain res m1 where r: "gv_request E uri ''GET'' None m = (res, m1)" by force
  note s = request_simps [of E uri "''GET''" None m, unfolded r snd_conv]
  show "usable (select_from md k (gv_request E uri ''GET'' None m)) = usable m"
    "gv_opts (select_from md k (gv_request E uri ''GET'' None m)) = gv_opts m"
    using s by (simp_all add: select_from_def r usable_def split: go.split)
  show "q \<in> set (gv_made (select_from md k (gv_request E uri ''GET'' None m))) \<Longrightarrow> asked_region q \<noteq> None \<Longrightarrow> q \<in> set (gv_made m)"
    using s by (auto simp: select_from_def r split: go.splits)
qed

lemma cmd_create_frame:
  "usable (cmd_create E m) = usable m" "gv_opts (cmd_create E m) = gv_opts m"
  "q \<in> set (gv_made (cmd_create E m)) \<Longrightarrow> q \<in> set (gv_made m) \<or> asked_plan q = map_of (gv_opts m) ''plan''"
proof -
  show "usable (cmd_create E m) = usable m" "gv_opts (cmd_create E m) = gv_opts m"
    by (simp_all add: cmd_create_def usable_def Let_def split: go.split list.split)
  assume q: "q \<in> set (gv_made (cmd_create E m))"
  show "q \<in> set (gv_made m) \<or> asked_plan q = map_of (gv_opts m) ''plan''"
  proof (cases "create_requests (gv_opts m)")
    case (Ret os)
    have "asked_plan (ask_create E o1) = map_of (gv_opts m) ''plan''" if "o1 \<in> set os" for o1
      using Ret that by (auto simp: create_requests_def opt_set_def opt_val_def go_bind_Ret_conv ask_create_def create_option_def
          split: if_splits option.splits)
    then show ?thesis using q by (auto simp: create_made [OF Ret])
  qed (use q in \<open>simp add: cmd_create_def\<close>)
qed

definition same_order :: "gv \<Rightarrow> gv \<Rightarrow> bool" where
  "same_order m m' \<longleftrightarrow> usable m' = usable m \<and> map_of (gv_opts m') ''plan'' = map_of (gv_opts m) ''plan'' \<and>
    (\<forall>q \<in> set (gv_made m'). asked_region q \<noteq> None \<longrightarrow> q \<in> set (gv_made m) \<or> asked_plan q = map_of (gv_opts m) ''plan'')"

lemma same_order_upd [simp]: "same_order m m" "same_order m (m\<lparr>gv_mode := md\<rparr>)"
  by (simp_all add: same_order_def)

lemma same_order_cmds [simp]:
  "same_order m (cmd_region E m)" "same_order m (cmd_create E m)"
  "same_order m (select_from md k (gv_request E uri ''GET'' None m))"
  using cmd_region_frame(1,2) cmd_create_frame(1,2) select_from_frame(1,2)
    cmd_region_frame(3) [of _ E m] cmd_create_frame(3) [of _ E m] select_from_frame(3) [of _ md k E uri m]
  by (auto simp: same_order_def simp del: not_None_eq)

lemma same_order_answers [simp]:
  "same_order m (at_command E s m)" "same_order m (region_chosen plans regions n m)" "same_order m (os_chosen plans n m)"
  "same_order m (at_tags E regions s m)" "same_order m (at_repo E s m)" "same_order m (at_regions plans regions n m)"
proof -
  show "same_order m (at_command E s m)" by (simp add: at_command_def cmd_os_def Let_def)
  show "same_order m (region_chosen plans regions n m)"
    by (simp add: region_chosen_def split: jval.split) (simp add: same_order_def update_conv')
  show "same_order m (os_chosen plans n m)"
    by (simp add: os_chosen_def) (simp add: same_order_def update_conv')
  show "same_order m (at_tags E regions s m)"
    by (simp add: at_tags_def Let_def split: list.split) (simp add: same_order_def update_conv')
  show "same_order m (at_repo E s m)" using at_repo_keeps(1-3) [of E s m] by (simp add: same_order_def usable_def)
qed (simp add: at_regions_def)

lemma gv_step_frame: "picked m a = None \<Longrightarrow> same_order m (gv_step E m a)"
  by (cases "gv_mode m"; cases a) (simp_all add: picked_def plan_chosen_def split: if_splits)

lemma plan_step_inv:
  assumes "regions_inv m" "plan_inv m p"
  shows "plan_inv (gv_step E m a) (case picked m a of None \<Rightarrow> p | Some plan \<Rightarrow> Some plan)"
proof (cases "picked m a")
  case None
  have "gv_step E m a = m" if "gv_mode m = CCrash" using that by (cases a) simp_all
  then show ?thesis using gv_step_frame [OF None, of E] assms(2) None
    by (cases "gv_mode m = CCrash") (auto simp: plan_inv_def same_order_def simp del: gv_step.simps not_None_eq)
next
  case (Some plan)
  then obtain items n where at: "gv_mode m = CPlan items" "a = Pick n" "n < length items" "items ! n = plan"
    by (auto simp: picked_def split: cmode.splits answer_in.splits if_splits)
  then have none: "\<And>q. q \<in> set (gv_made m) \<Longrightarrow> asked_region q = None"
    using asked_before [OF assms(1)] by (auto simp: gv_over_def)
  show ?thesis
  proof (cases "go_bind (as_array (obj_get plan ''locations'')) all_strings")
    case (Ret ks)
    then show ?thesis using at none plan_locations [OF Ret] Some
      by (auto simp: plan_chosen_def plan_inv_def usable_def runs_in_def update_conv')
  qed (use at none Some in \<open>simp add: plan_chosen_def plan_inv_def\<close>)
qed

lemma plan_run_inv:
  "regions_inv m \<Longrightarrow> plan_inv m p \<Longrightarrow> careful E m answers \<Longrightarrow>
    plan_inv (foldl (gv_step E) m answers) (last_plan E m answers p)"
proof (induction answers arbitrary: m p)
  case (Cons a "as")
  have "careful E m [a]" using Cons.prems(3) by simp
  from gv_step_inv [OF Cons.prems(1) this] plan_step_inv [OF Cons.prems(1,2), of E a] Cons
  show ?case by (simp del: gv_step.simps)
qed simp

text \<open>
  C35. When a plan is picked before the regions, instances are only asked for where it runs: every
  request to create one names the plan picked last, and a region among the locations the provider
  listed for that plan.
\<close>

theorem created_where_plan_runs:
  assumes "careful E (gv_new t) answers" "q \<in> set (gv_made (CreateInstances E t answers))" "asked_region q = Some v"
  shows "\<exists>plan r. last_plan E (gv_new t) answers None = Some plan \<and>
    asked_plan q = Some (obj_get plan ''id'') \<and> v = JStr r \<and> runs_in plan r"
proof -
  let ?m = "CreateInstances E t answers"
  have start: "regions_inv (gv_new t)" "plan_inv (gv_new t) None"
    by (simp_all add: regions_inv_def plan_inv_def gv_new_def usable_def)
  have inv: "regions_inv ?m" "plan_inv ?m (last_plan E (gv_new t) answers None)"
    using gv_run_inv [OF start(1) assms(1)] plan_run_inv [OF start assms(1)] by (simp_all add: CreateInstances_def)
  have "v \<in> JStr ` usable ?m" using inv(1) assms(2,3) unfolding regions_inv_def by blast
  then obtain r where r: "v = JStr r" "r \<in> usable ?m" by blast
  have q: "asked_region q \<noteq> None" using assms(3) by simp
  have "asked_plan q = map_of (gv_opts ?m) ''plan''" using inv(2) q assms(2) unfolding plan_inv_def by blast
  moreover have "\<not> (\<forall>q \<in> set (gv_made ?m). asked_region q = None)" using q assms(2) by (metis (no_types))
  moreover have "usable ?m \<noteq> {}" using r(2) by (metis empty_iff)
  ultimately show ?thesis using inv(2) r unfolding plan_inv_def by metis
qed

subsection \<open>Deleting what was chosen\<close>

definition ask_delete :: "console_env \<Rightarrow> string \<Rightarrow> vreq" where
  "ask_delete E d = VReq ''DELETE'' (''https://api.vultr.com/v2/instances/'' @ d) (ce_key E) None"

lemma list_step_delete:
  assumes "i < length instances" "obj_get (instances ! i) ''id'' = JStr d"
  shows "foldl (list_step E instances) (LPick, reqs) [Pick i, Pick 0] = (LPick, reqs @ [ask_delete E d])"
  using assms by (simp add: instance_del_def ask_delete_def)

text \<open>
  The list is asked for once: choosing instances one after another and deleting them asks for
  exactly these deletions in this order, the deletion of one that is gone already included.
\<close>

theorem chosen_instances_deleted:
  assumes "List_start E = (LPick, instances)"
    and "\<And>i. i \<in> set is \<Longrightarrow> i < length instances \<and> obj_get (instances ! i) ''id'' = JStr (name i)"
  shows "gv_List E (concat (map (\<lambda>i. [Pick i, Pick 0]) is) @ [Cancel]) =
    (LLeft, VReq ''GET'' ''https://api.vultr.com/v2/instances'' (ce_key E) None # map (\<lambda>i. ask_delete E (name i)) is)"
proof -
  have "foldl (list_step E instances) (LPick, reqs) (concat (map (\<lambda>i. [Pick i, Pick 0]) is)) =
      (LPick, reqs @ map (\<lambda>i. ask_delete E (name i)) is)" for reqs
    using assms(2)
  proof (induction "is" arbitrary: reqs)
    case (Cons i "is")
    have "foldl (list_step E instances) (LPick, reqs) [Pick i, Pick 0] = (LPick, reqs @ [ask_delete E (name i)])"
      using Cons.prems [of i] by (intro list_step_delete) simp_all
    moreover have "foldl (list_step E instances) (LPick, reqs) (concat (map (\<lambda>i. [Pick i, Pick 0]) (i # is))) =
        foldl (list_step E instances) (foldl (list_step E instances) (LPick, reqs) [Pick i, Pick 0]) (concat (map (\<lambda>i. [Pick i, Pick 0]) is))"
      by (simp only: list.map concat.simps foldl_append)
    ultimately show ?case using Cons.IH [of "reqs @ [ask_delete E (name i)]"] Cons.prems by simp
  qed simp
  then show ?thesis using assms(1) by (simp add: gv_List_def)
qed

subsection \<open>What the search tool does not do\<close>

fun deletes :: "vreq \<Rightarrow> bool" where "deletes (VReq rmethod _ _ _) \<longleftrightarrow> rmethod = ''DELETE''"

definition asks_no_deletion :: "tool \<Rightarrow> bool" where
  "asks_no_deletion s \<longleftrightarrow> (\<forall>q \<in> set (tl_made s). \<not> deletes q)"

lemma RemoveHost_gets: "RemoveHost P server = Ret rqs \<Longrightarrow> q \<in> set rqs \<Longrightarrow> \<not> deletes q"
  by (auto simp: RemoveHost_def go_bind_Ret_conv VulGet_def Let_def split: option.splits)

lemma ran_made [simp]: "tl_made (ran h c s) = tl_made s" by (simp add: ran_def)

lemma Auth_made: "(\<And>s. tl_made (f s) = tl_made s) \<Longrightarrow> tl_made (snd (Auth E u h p f s)) = tl_made s"
  by (simp add: Auth_def)

lemma each_vps_made:
  "(\<And>v s. tl_made (snd (act v s)) = tl_made s) \<Longrightarrow> tl_made (snd (each_vps act vs s)) = tl_made s"
  by (induction act vs s rule: each_vps.induct) (auto simp: Let_def split: prod.splits, (metis snd_conv)+)

lemma vultr_each_made:
  "(\<And>v s. tl_made (snd (act v s)) = tl_made s) \<Longrightarrow> tl_made (snd (snd (vultr_each E act devs ls s))) = tl_made s"
  using each_vps_made [of act devs s] by (auto simp: vultr_each_def Let_def split: prod.splits)

lemma vultr_round_gets:
  assumes "asks_no_deletion s"
  shows "asks_no_deletion (snd (snd (vultr_round E P server ls s)))"
proof -
  have log: "tl_made (snd (snd (vultr_each E (vps_Log (vt_ssh E)) devs l t))) = tl_made t" for devs l t
    by (rule vultr_each_made) (simp add: vps_Log_def LogOneHost_def Auth_made)
  have build: "tl_made (snd (snd (vultr_each E (vps_Build (vt_ssh E)) devs l t))) = tl_made t" for devs l t
    by (rule vultr_each_made) (simp add: vps_Build_def DepOneHost_def Auth_made split: sum.split)
  have searched: "asks_no_deletion (search_made P server s)"
    using assms by (auto simp: search_made_def asks_no_deletion_def VulGet_def split: go.split)
  have sync: "tl_made (snd (snd (vultr_sync E devs l t))) = tl_made t" for devs l t
    by (simp add: vultr_sync_def Let_def split: prod.split)
  have "asks_no_deletion (snd (snd (vultr_do E P server h devs l (search_made P server s))))" for h devs l
    using searched RemoveHost_gets [of P server]
    by (auto simp: vultr_do_def Let_def asks_no_deletion_def log build sync split: go.split)
  then show ?thesis using assms searched by (simp add: vultr_round_def Let_def split: prod.split go.split)
qed

text \<open>
  The command \<open>remove\<close> removes nothing: in a session of the tool, whatever is typed, no request
  to delete an instance is ever made.
\<close>

theorem search_tool_removes_nothing:
  assumes "VultrMode E server k ls s = Some (r, s')" "tl_made s = []"
  shows "\<forall>q \<in> set (tl_made s'). \<not> deletes q"
proof -
  have "asks_no_deletion s \<longrightarrow> asks_no_deletion (snd (r, s'))"
  proof (rule VultrMode.raw_induct [OF _ assms(1), of "\<lambda>E server k ls s res. asks_no_deletion s \<longrightarrow> asks_no_deletion (snd res)"], goal_cases)
    case (1 f E server k ls s res)
    obtain r1 ls1 s1 where round: "vultr_round E (vt_p E k) server ls s = (r1, ls1, s1)" by (metis prod_cases3)
    then have "asks_no_deletion s \<longrightarrow> asks_no_deletion s1" using vultr_round_gets [of s E "vt_p E k" server ls] by simp
    then show ?case using 1(1) [of E server "k + 1" ls1 s1 res] 1(2) by (auto simp: round split: if_splits)
  qed
  then show ?thesis using assms(2) by (simp add: asks_no_deletion_def)
qed

text \<open>
  At the end of the input the tool does not stop: every line read is empty from then on, which is
  no \<open>exit\<close>, and it goes on searching for servers without end.
\<close>

theorem search_tool_ignores_end_of_input:
  assumes "\<And>k. \<exists>devs. SearchFromVultr (vt_p E k) [] server = Ret devs" "gs_Trim (vt_gs E) [] = []"
  shows "VultrMode E server k [] s = None"
proof -
  have again: "\<exists>s1. vultr_round E (vt_p E k) server [] s = (VAgain, [], s1)" for k s
    using assms(1) [of k] assms(2) by (auto simp: vultr_round_def next_line_def vultr_do_def Let_def)
  have "ls \<noteq> [] \<or> E' \<noteq> E \<or> server' \<noteq> server" if run: "VultrMode E' server' k ls s = Some x" for E' server' k ls s x
  proof (rule VultrMode.raw_induct [OF _ run, of "\<lambda>E' server' _ ls _ _. ls \<noteq> [] \<or> E' \<noteq> E \<or> server' \<noteq> server"], goal_cases)
    case (1 f E' server' k ls s x)
    show ?case
    proof (rule ccontr)
      assume c: "\<not> ?thesis"
      obtain s1 where "vultr_round E (vt_p E k) server [] s = (VAgain, [], s1)" using again by blast
      then show False using 1(1) [of E server "k + 1" "[]" s1 x] 1(2) c by simp
    qed
  qed
  then show ?thesis by (metis option.exhaust)
qed

subsection \<open>Instances of the properties\<close>

definition toy_plan :: jval where
  "toy_plan = JObj [(''id'', JStr ''p''), (''locations'', JArr [JStr ''ams'', JStr ''sgp''])]"

definition toy_answer :: "vreq \<Rightarrow> jdict option" where
  "toy_answer q = (case q of VReq rmethod url key data \<Rightarrow>
     if url = ''https://api.vultr.com/v2/plans'' then Some [(''plans'', JArr [toy_plan])]
     else if url = ''https://api.vultr.com/v2/regions'' then
       Some [(''regions'', JArr [JObj [(''id'', JStr ''ams''), (''city'', JStr ''Amsterdam'')], JObj [(''id'', JStr ''sgp''), (''city'', JStr ''Singapore'')]])]
     else if url = ''https://api.vultr.com/v2/instances'' \<and> rmethod = ''GET'' then
       Some [(''instances'', JArr [JObj [(''id'', JStr ''i1''), (''date_created'', JStr ''d'')]])]
     else None)"

definition toy_console :: console_env where
  "toy_console = \<lparr>ce_p = toy_provider\<lparr>pr_reply := \<lambda>_. toy_answer\<rparr>, ce_key = ''k'', ce_book = toy_book_env, ce_gitpass = [],
     ce_failed = 0, ce_order = (\<lambda>os. os)\<rparr>"

definition toy_answers :: "answer_in list" where
  "toy_answers = [Input ''plan'', Pick 0, Input ''region'', Pick 1, Pick 0, Pick 1, Pick 1, Pick 0,
     Input ''tags'', Input ''x'', Input ''exit'', Input ''Create'']"

definition toy_tags :: gv where
  "toy_tags = (gv_new toy_git)\<lparr>gv_mode := CPlan [toy_plan],
     gv_opts := [(''region'', JStr ''fra,nrt''), (''plan'', JStr ''old''), (''os_id'', JNum 1743), (''label'', JStr ''x'')]\<rparr>"

lemma plan_change_keeps_regions_witness:
  "\<exists>b. ask_create toy_console b \<in> set (gv_made (foldl (gv_step toy_console) toy_tags [Pick 0, Input ''Create''])) \<and>
    map_of b ''plan'' = Some (JStr ''p'') \<and> map_of b ''region'' = Some (JStr ''fra'')"
  by (rule plan_change_keeps_regions [of _ "[toy_plan]" 0 "[(''id'', JStr ''p''), (''locations'', JArr [JStr ''ams'', JStr ''sgp''])]" "''p''" "[''ams'', ''sgp'']" "[''fra'', ''nrt'']"])
    (simp_all add: toy_tags_def toy_plan_def opt_set_def)

lemma created_where_plan_runs_witness:
  "\<exists>plan r. last_plan toy_console (gv_new toy_git) toy_answers None = Some plan \<and>
    Some (JStr ''p'') = Some (obj_get plan ''id'') \<and> JStr ''sgp'' = JStr r \<and> runs_in plan r"
proof -
  let ?o = "create_option [(''region'', JStr ''ams,sgp''), (''plan'', JStr ''p''), (''os_id'', JNum 1743), (''label'', JStr ''x''),
      (''tags'', JArr [JStr ''x''])] ''sgp''"
  have c: "careful toy_console (gv_new toy_git) toy_answers" by code_simp
  have q: "ask_create toy_console ?o \<in> set (gv_made (CreateInstances toy_console toy_git toy_answers))" by code_simp
  have r: "asked_region (ask_create toy_console ?o) = Some (JStr ''sgp'')" by simp
  have "asked_plan (ask_create toy_console ?o) = Some (JStr ''p'')" by code_simp
  with created_where_plan_runs [OF c q r] show ?thesis by simp
qed

lemma chosen_instances_deleted_witness:
  "snd (gv_List toy_console [Pick 0, Pick 0, Pick 0, Pick 0, Cancel]) =
    [VReq ''GET'' ''https://api.vultr.com/v2/instances'' ''k'' None, ask_delete toy_console ''i1'', ask_delete toy_console ''i1'']"
proof -
  have "List_start toy_console = (LPick, [JObj [(''id'', JStr ''i1''), (''date_created'', JStr ''d'')]])" by code_simp
  from chosen_instances_deleted [OF this, of "[0, 0]" "\<lambda>_. ''i1''"] show ?thesis by (simp add: toy_console_def)
qed

definition toy_ssh :: ssh_env where
  "toy_ssh = \<lparr>se_key = None, se_dial = (\<lambda>_ _ _. True), se_session = (\<lambda>_ _. True), se_run = (\<lambda>_ _. Inr []), se_BU = ''a'', se_B = ''b''\<rparr>"

definition toy_vultr :: vultr_env where
  "toy_vultr = \<lparr>vt_p = (\<lambda>_. toy_provider), vt_book = toy_book_env, vt_ssh = toy_ssh, vt_probe = toy_probe, vt_test = toy_test, vt_dur = itoa,
     vt_long = (\<lambda>s. fst (atoi s)), vt_sort = (\<lambda>_ xs. xs)\<rparr>"

definition toy_tool :: tool where
  "toy_tool = \<lparr>tl_git = toy_git, tl_run = [], tl_made = [], tl_updates = [], tl_tests = []\<rparr>"

lemma toy_search: "SearchFromVultr (vt_p toy_vultr k) tag ''k'' = Ret []"
proof -
  have "\<not> gs_StartsWith gs_std ''k'' ''https://''" by code_simp
  then show ?thesis by (simp add: SearchFromVultr_def toy_vultr_def toy_provider_def api_key_def)
qed

lemma search_tool_removes_nothing_witness:
  "\<exists>s'. VultrMode toy_vultr ''k'' 0 [''t'', ''log'', [], ''exit''] toy_tool = Some (VLeft, s') \<and> (\<forall>q \<in> set (tl_made s'). \<not> deletes q)"
proof -
  have trims: "trim_space ''t'' = ''t''" "trim_space ''log'' = ''log''" "trim_space ''exit'' = ''exit''" "trim_space [] = []" by code_simp+
  have G: "vt_gs toy_vultr = gs_std" "gs_Trim gs_std = trim_space" by (simp_all add: toy_vultr_def toy_book_env_def gs_std_def)
  have one: "\<exists>s1. vultr_round toy_vultr (vt_p toy_vultr 0) ''k'' [''t'', ''log'', [], ''exit''] toy_tool = (VAgain, [''exit''], s1)"
    by (simp add: vultr_round_def next_line_def G trims toy_search vultr_do_def vultr_each_def Let_def)
  then obtain s1 where s1: "vultr_round toy_vultr (vt_p toy_vultr 0) ''k'' [''t'', ''log'', [], ''exit''] toy_tool = (VAgain, [''exit''], s1)" by blast
  have two: "vultr_round toy_vultr (vt_p toy_vultr (Suc 0)) ''k'' [''exit''] s1 = (VLeft, [], s1)"
    by (simp add: vultr_round_def next_line_def G trims)
  have "VultrMode toy_vultr ''k'' (Suc 0) [''exit''] s1 = Some (VLeft, s1)" by (subst VultrMode.simps) (simp add: two)
  then have run: "VultrMode toy_vultr ''k'' 0 [''t'', ''log'', [], ''exit''] toy_tool = Some (VLeft, s1)"
    by (subst VultrMode.simps) (simp add: s1)
  have "tl_made toy_tool = []" by (simp add: toy_tool_def)
  from search_tool_removes_nothing [OF run this] run show ?thesis by blast
qed

lemma search_tool_ignores_end_of_input_witness: "VultrMode toy_vultr ''k'' 0 [] toy_tool = None"
proof (rule search_tool_ignores_end_of_input)
  show "\<exists>devs. SearchFromVultr (vt_p toy_vultr k) [] ''k'' = Ret devs" for k by (simp add: toy_search)
  show "gs_Trim (vt_gs toy_vultr) [] = []" by (simp add: toy_vultr_def toy_book_env_def gs_std_def trim_space_def)
qed

end
