(* ===== verification/Smux_Frame.thy ===== *)
theory Smux_Frame
  imports Smux_Client
begin

text \<open>
  The multiplexer every tunnel runs over, a fork kept in \<open>src/third_party/smux\<close>: the frames of
  \<open>frame.go\<close> and what the two loops of \<open>session.go\<close> write and read of them, the buffer sizes of
  \<open>alloc.go\<close>, and the configuration of \<open>mux.go\<close>.  Words are as wide as in the code.
\<close>

subsection \<open>Configuration\<close>

record vconfig =
  vc_Version :: int
  vc_KeepAliveDisabled :: bool
  vc_KeepAliveInterval :: int
  vc_KeepAliveTimeout :: int
  vc_MaxFrameSize :: int
  vc_MaxReceiveBuffer :: int
  vc_MaxStreamBuffer :: int

definition DefaultConfig :: vconfig where
  "DefaultConfig = \<lparr>vc_Version = 1, vc_KeepAliveDisabled = False, vc_KeepAliveInterval = 10 * 1000000000, vc_KeepAliveTimeout = 30 * 1000000000,
     vc_MaxFrameSize = 32768, vc_MaxReceiveBuffer = 4194304, vc_MaxStreamBuffer = 65536\<rparr>"

definition VerifyConfig :: "vconfig \<Rightarrow> goerr option" where
  "VerifyConfig c =
     (if \<not> (vc_Version c = 1 \<or> vc_Version c = 2) then Some (GoErr ''unsupported protocol version'')
      else if \<not> vc_KeepAliveDisabled c \<and> vc_KeepAliveInterval c = 0 then Some (GoErr ''keep-alive interval must be positive'')
      else if \<not> vc_KeepAliveDisabled c \<and> vc_KeepAliveTimeout c < vc_KeepAliveInterval c then Some (GoErr ''keep-alive timeout must be larger than keep-alive interval'')
      else if vc_MaxFrameSize c \<le> 0 then Some (GoErr ''max frame size must be positive'')
      else if 65535 < vc_MaxFrameSize c then Some (GoErr ''max frame size must not be larger than 65535'')
      else if vc_MaxReceiveBuffer c \<le> 0 then Some (GoErr ''max receive buffer must be positive'')
      else if 2147483647 < vc_MaxReceiveBuffer c then Some (GoErr ''max receive buffer cannot be larger than 2147483647'')
      else if vc_MaxStreamBuffer c \<le> 0 then Some (GoErr ''max stream buffer must be positive'')
      else if vc_MaxReceiveBuffer c < vc_MaxStreamBuffer c then Some (GoErr ''max stream buffer must not be larger than max receive buffer'')
      else if 2147483647 < vc_MaxStreamBuffer c then Some (GoErr ''max stream buffer cannot be larger than 2147483647'')
      else None)"

text \<open>What the program sets of it, and what the checks that the client relies on amount to.\<close>

definition with_defaults :: "mux_config \<Rightarrow> vconfig" where
  "with_defaults m = DefaultConfig\<lparr>vc_MaxReceiveBuffer := mx_MaxReceiveBuffer m, vc_MaxStreamBuffer := mx_MaxStreamBuffer m,
     vc_KeepAliveInterval := mx_KeepAliveInterval m, vc_KeepAliveTimeout := mx_KeepAliveTimeout m\<rparr>"

text \<open>
  The configuration the client and the server generate passes the check of the multiplexer, so that
  making a session of it does not fail; and the checks the client's model names are sound.
\<close>

theorem generated_config_verified:
  "VerifyConfig (with_defaults (fst (GenerateConfig (SetAsDefault k)))) = None \<and>
   (mux_config_ok m \<and> mx_MaxReceiveBuffer m \<le> 2147483647 \<longrightarrow> VerifyConfig (with_defaults m) = None)"
  by (simp add: VerifyConfig_def with_defaults_def DefaultConfig_def mux_config_ok_def GenerateConfig_def SetAsDefault_def
      UpdateMode_def set_nodelay_def Let_def)

lemma generated_config_verified_witness:
  "VerifyConfig (with_defaults \<lparr>mx_MaxReceiveBuffer = 16777216, mx_MaxStreamBuffer = 1048576, mx_KeepAliveInterval = 20, mx_KeepAliveTimeout = 60\<rparr>) = None"
  using generated_config_verified [of "SetAsDefault zero_smux" "\<lparr>mx_MaxReceiveBuffer = 16777216, mx_MaxStreamBuffer = 1048576, mx_KeepAliveInterval = 20, mx_KeepAliveTimeout = 60\<rparr>"]
  by (simp add: mux_config_ok_def)

subsection \<open>Frames\<close>

definition cmdSYN :: byte where "cmdSYN = 0"
definition cmdFIN :: byte where "cmdFIN = 1"
definition cmdPSH :: byte where "cmdPSH = 2"
definition cmdNOP :: byte where "cmdNOP = 3"
definition cmdUPD :: byte where "cmdUPD = 4"

lemmas cmd_defs = cmdSYN_def cmdFIN_def cmdPSH_def cmdNOP_def cmdUPD_def

definition szCmdUPD :: nat where "szCmdUPD = 8"
definition initialPeerWindow :: "32 word" where "initialPeerWindow = 262144"
definition headerSize :: nat where "headerSize = 8"

record frame =
  fr_ver :: byte
  fr_cmd :: byte
  fr_sid :: "32 word"
  fr_data :: bytes

definition newFrame :: "byte \<Rightarrow> byte \<Rightarrow> 32 word \<Rightarrow> frame" where
  "newFrame version cmd sid = \<lparr>fr_ver = version, fr_cmd = cmd, fr_sid = sid, fr_data = []\<rparr>"

text \<open>The little-endian codecs of \<open>encoding/binary\<close>.\<close>

definition PutUint16 :: "16 word \<Rightarrow> bytes" where
  "PutUint16 w = [ucast w, ucast (drop_bit 8 w)]"

definition Uint16 :: "bytes \<Rightarrow> 16 word" where
  "Uint16 b = ucast (b ! 0) OR push_bit 8 (ucast (b ! 1))"

definition PutUint32 :: "32 word \<Rightarrow> bytes" where
  "PutUint32 w = [ucast w, ucast (drop_bit 8 w), ucast (drop_bit 16 w), ucast (drop_bit 24 w)]"

definition Uint32 :: "bytes \<Rightarrow> 32 word" where
  "Uint32 b = ucast (b ! 0) OR push_bit 8 (ucast (b ! 1)) OR push_bit 16 (ucast (b ! 2)) OR push_bit 24 (ucast (b ! 3))"

lemma Uint16_Put [simp]: "Uint16 (PutUint16 w @ bs) = w"
  unfolding Uint16_def PutUint16_def
  by (rule bit_word_eqI) (auto simp: bit_or_iff bit_push_bit_iff bit_ucast_iff bit_drop_bit_eq not_less)

lemma Uint32_Put [simp]: "Uint32 (PutUint32 w @ bs) = w"
proof (rule bit_word_eqI)
  fix n assume n: "n < LENGTH(32)"
  consider "n < 8" | "8 \<le> n" "n < 16" | "16 \<le> n" "n < 24" | "24 \<le> n" by linarith
  then show "bit (Uint32 (PutUint32 w @ bs)) n = bit w n"
    using n by cases (auto simp: Uint32_def PutUint32_def bit_or_iff bit_push_bit_iff bit_ucast_iff bit_drop_bit_eq)
qed

lemma length_Put [simp]: "length (PutUint16 w) = 2" "length (PutUint32 v) = 4"
  by (simp_all add: PutUint16_def PutUint32_def)

definition hdr_Version :: "bytes \<Rightarrow> byte" where "hdr_Version h = h ! 0"
definition hdr_Cmd :: "bytes \<Rightarrow> byte" where "hdr_Cmd h = h ! 1"
definition hdr_Length :: "bytes \<Rightarrow> 16 word" where "hdr_Length h = Uint16 (drop 2 h)"
definition hdr_StreamID :: "bytes \<Rightarrow> 32 word" where "hdr_StreamID h = Uint32 (drop 4 h)"
definition upd_Consumed :: "bytes \<Rightarrow> 32 word" where "upd_Consumed h = Uint32 h"
definition upd_Window :: "bytes \<Rightarrow> 32 word" where "upd_Window h = Uint32 (drop 4 h)"

text \<open>What \<open>sendLoop\<close> writes for a frame.\<close>

definition send_header :: "frame \<Rightarrow> bytes" where
  "send_header f = [fr_ver f, fr_cmd f] @ PutUint16 (word_of_nat (length (fr_data f))) @ PutUint32 (fr_sid f)"

definition send_frame :: "frame \<Rightarrow> bytes" where "send_frame f = send_header f @ fr_data f"

lemma header_simps [simp]:
  "length (send_header f) = headerSize" "hdr_Version (send_header f) = fr_ver f" "hdr_Cmd (send_header f) = fr_cmd f"
  "hdr_Length (send_header f) = word_of_nat (length (fr_data f))" "hdr_StreamID (send_header f) = fr_sid f"
proof -
  have "drop 4 (send_header f) = PutUint32 (fr_sid f)" by (simp add: send_header_def PutUint16_def)
  then show "hdr_StreamID (send_header f) = fr_sid f" using Uint32_Put [of "fr_sid f" "[]"] by (simp add: hdr_StreamID_def)
qed (simp_all add: send_header_def headerSize_def hdr_Version_def hdr_Cmd_def hdr_Length_def)

text \<open>
  One round of \<open>recvLoop\<close> on the bytes that are still to come until the connection ends: what the
  frame asks for, or why the loop returns.  \<open>io.ReadFull\<close> reads nothing (\<open>EOF\<close>) or too little.
\<close>

datatype event = EvNOP | EvSYN "32 word" | EvFIN "32 word" | EvPSH "32 word" bytes | EvUPD "32 word" "32 word" "32 word"

datatype received = Frame event bytes | ReadErr goerr | ProtoErr goerr

definition ErrInvalidProtocol :: goerr where "ErrInvalidProtocol = GoErr ''invalid protocol''"

definition read_bytes :: "nat \<Rightarrow> bytes \<Rightarrow> goerr + bytes \<times> bytes" where
  "read_bytes n bs = (if n \<le> length bs then Inr (take n bs, drop n bs) else Inl (if bs = [] then EOF else UnexpectedEOF))"

definition recv_frame :: "byte \<Rightarrow> bytes \<Rightarrow> received" where
  "recv_frame version bs =
     (case read_bytes headerSize bs of
        Inl e \<Rightarrow> ReadErr e
      | Inr (hdr, rest) \<Rightarrow>
          if hdr_Version hdr \<noteq> version then ProtoErr ErrInvalidProtocol
          else let sid = hdr_StreamID hdr; cmd = hdr_Cmd hdr in
            if cmd = cmdNOP then Frame EvNOP rest
            else if cmd = cmdSYN then Frame (EvSYN sid) rest
            else if cmd = cmdFIN then Frame (EvFIN sid) rest
            else if cmd = cmdPSH then
              (if hdr_Length hdr = 0 then Frame EvNOP rest
               else case read_bytes (unat (hdr_Length hdr)) rest of
                 Inl e \<Rightarrow> ReadErr e
               | Inr (newbuf, rest') \<Rightarrow> Frame (EvPSH sid newbuf) rest')
            else if cmd = cmdUPD then
              (case read_bytes szCmdUPD rest of
                 Inl e \<Rightarrow> ReadErr e
               | Inr (updHdr, rest') \<Rightarrow> Frame (EvUPD sid (upd_Consumed updHdr) (upd_Window updHdr)) rest')
            else ProtoErr ErrInvalidProtocol)"

lemma read_bytes_simps:
  "length xs = n \<Longrightarrow> read_bytes n (xs @ ys) = Inr (xs, ys)"
  by (simp add: read_bytes_def)

lemma read_bytes_length: "read_bytes n bs = Inr (x, rest) \<Longrightarrow> length rest \<le> length bs"
  by (auto simp: read_bytes_def split: if_splits)

lemma read_bytes_header: "read_bytes headerSize bs = Inr (x, rest) \<Longrightarrow> length rest < length bs"
  by (auto simp: read_bytes_def headerSize_def split: if_splits)

lemma recv_frame_shrinks: "recv_frame v bs = Frame e rest \<Longrightarrow> length rest < length bs"
  unfolding recv_frame_def Let_def
  by (auto split: sum.splits prod.splits if_splits dest!: read_bytes_length read_bytes_header)

text \<open>All that a loop that is never short of tokens makes of a stream of bytes.\<close>

function recv_all :: "byte \<Rightarrow> bytes \<Rightarrow> event list \<times> goerr" where
  "recv_all v bs = (case recv_frame v bs of
     Frame e rest \<Rightarrow> (let (es, err) = recv_all v rest in (e # es, err))
   | ReadErr e \<Rightarrow> ([], e)
   | ProtoErr e \<Rightarrow> ([], e))"
  by pat_completeness auto
termination
  by (relation "measure (\<lambda>(v, bs). length bs)") (simp_all add: recv_frame_shrinks)

declare recv_all.simps [simp del]

subsection \<open>What is sent is what is received\<close>

text \<open>
  The frames the code makes: no data but in a push of at most the largest frame size and in an
  update, which has two words.
\<close>

definition frame_ok :: "byte \<Rightarrow> frame \<Rightarrow> bool" where
  "frame_ok v f \<longleftrightarrow> fr_ver f = v \<and>
     (if fr_cmd f = cmdPSH then length (fr_data f) \<le> 65535
      else if fr_cmd f = cmdUPD then length (fr_data f) = szCmdUPD
      else fr_cmd f \<in> {cmdNOP, cmdSYN, cmdFIN} \<and> fr_data f = [])"

definition event_of :: "frame \<Rightarrow> event" where
  "event_of f =
     (if fr_cmd f = cmdSYN then EvSYN (fr_sid f) else if fr_cmd f = cmdFIN then EvFIN (fr_sid f)
      else if fr_cmd f = cmdPSH \<and> fr_data f \<noteq> [] then EvPSH (fr_sid f) (fr_data f)
      else if fr_cmd f = cmdUPD then EvUPD (fr_sid f) (upd_Consumed (fr_data f)) (upd_Window (fr_data f))
      else EvNOP)"

lemma word16_length: "n \<le> 65535 \<Longrightarrow> unat (word_of_nat n :: 16 word) = n"
  by (simp add: unat_of_nat)

lemma recv_frame_sent:
  assumes "frame_ok v f"
  shows "recv_frame v (send_frame f @ rest) = Frame (event_of f) rest"
proof -
  have hdr: "read_bytes headerSize (send_frame f @ rest) = Inr (send_header f, fr_data f @ rest)"
    by (simp add: send_frame_def read_bytes_simps)
  have n: "unat (word_of_nat (length (fr_data f)) :: 16 word) = length (fr_data f)" if "fr_cmd f = cmdPSH"
    using assms that by (intro word16_length) (simp add: frame_ok_def)
  have z: "(word_of_nat (length (fr_data f)) :: 16 word) = 0 \<longleftrightarrow> fr_data f = []" if "fr_cmd f = cmdPSH"
  proof
    assume "(word_of_nat (length (fr_data f)) :: 16 word) = 0"
    then have "unat (0 :: 16 word) = length (fr_data f)" using n [OF that] by simp
    then show "fr_data f = []" by simp
  qed simp
  consider "fr_cmd f = cmdPSH" | "fr_cmd f = cmdUPD" | "fr_cmd f \<in> {cmdNOP, cmdSYN, cmdFIN}"
    using assms by (auto simp: frame_ok_def split: if_splits)
  then show ?thesis
  proof cases
    case 1
    then have "cmdPSH \<noteq> cmdNOP" "cmdPSH \<noteq> cmdSYN" "cmdPSH \<noteq> cmdFIN" "cmdPSH \<noteq> cmdUPD" by (simp_all add: cmd_defs)
    moreover have "read_bytes (unat (word_of_nat (length (fr_data f)) :: 16 word)) (fr_data f @ rest) = Inr (fr_data f, rest)"
      by (simp only: n [OF 1]) (simp add: read_bytes_simps)
    moreover have "fr_ver f = v" using assms by (simp add: frame_ok_def)
    ultimately show ?thesis using 1 z [OF 1]
      by (simp only: recv_frame_def hdr event_of_def Let_def header_simps sum.case prod.case simp_thms if_True if_False received.case)
        (auto simp only: append_Nil simp_thms if_True if_False split: if_split)
  next
    case 2
    then have "cmdUPD \<noteq> cmdNOP" "cmdUPD \<noteq> cmdSYN" "cmdUPD \<noteq> cmdFIN" "cmdUPD \<noteq> cmdPSH" by (simp_all add: cmd_defs)
    moreover have "read_bytes szCmdUPD (fr_data f @ rest) = Inr (fr_data f, rest)" "fr_ver f = v"
      using 2 assms by (simp_all add: frame_ok_def read_bytes_simps cmd_defs)
    ultimately show ?thesis using 2
      by (simp only: recv_frame_def hdr event_of_def Let_def header_simps sum.case prod.case simp_thms if_True if_False)
  next
    case 3
    then have "fr_cmd f \<noteq> cmdPSH" "fr_cmd f \<noteq> cmdUPD" "cmdSYN \<noteq> cmdNOP" "cmdNOP \<noteq> cmdSYN" "cmdFIN \<noteq> cmdNOP" "cmdNOP \<noteq> cmdFIN" "cmdFIN \<noteq> cmdSYN" by (auto simp: cmd_defs)
    moreover have "fr_ver f = v" "fr_data f = []" using calculation assms by (simp_all add: frame_ok_def)
    ultimately show ?thesis using 3
      by (simp only: recv_frame_def hdr event_of_def Let_def header_simps sum.case prod.case simp_thms if_True if_False insert_iff empty_iff)
        (elim disjE; simp only: simp_thms if_True if_False append_Nil)
  qed
qed

lemma recv_all_sent:
  assumes "\<forall>f \<in> set fs. frame_ok v f"
  shows "recv_all v (concat (map send_frame fs)) = (map event_of fs, EOF)"
  using assms
proof (induction fs)
  case Nil
  have "recv_frame v [] = ReadErr EOF" by (simp add: recv_frame_def read_bytes_def headerSize_def)
  then show ?case by (simp add: recv_all.simps)
next
  case (Cons f fs)
  have "recv_frame v (concat (map send_frame (f # fs))) = Frame (event_of f) (concat (map send_frame fs))"
    using Cons.prems by (simp add: recv_frame_sent)
  then show ?case using Cons by (simp add: recv_all.simps [of v "send_frame f @ concat (map send_frame fs)"])
qed

text \<open>
  C21. The wire carries the frames: whatever frames one end writes one after another, the loop of the
  other end takes in exactly these, in order, and then sees the end of the stream; how the bytes
  are cut up on the way does not matter.
\<close>

theorem frames_carried:
  assumes "\<forall>f \<in> set fs. frame_ok v f"
  shows "recv_all v (concat (map send_frame fs)) = (map event_of fs, EOF)"
  using recv_all_sent [OF assms] .

definition toy_frames :: "frame list" where
  "toy_frames = [newFrame 1 cmdSYN 3, (newFrame 1 cmdPSH 3)\<lparr>fr_data := [7, 8, 9]\<rparr>, newFrame 1 cmdFIN 3]"

lemma frames_carried_witness:
  "recv_all 1 (concat (map send_frame toy_frames)) = ([EvSYN 3, EvPSH 3 [7, 8, 9], EvFIN 3], EOF)"
proof -
  have "\<forall>f \<in> set toy_frames. frame_ok 1 f" by (simp add: toy_frames_def frame_ok_def newFrame_def cmd_defs)
  from frames_carried [OF this] show ?thesis by (simp add: toy_frames_def event_of_def newFrame_def cmd_defs)
qed

end
