(* ===== verification/Smux_Alloc.thy ===== *)
theory Smux_Alloc
  imports Smux_Frame
begin

text \<open>
  The allocator of \<open>src/third_party/smux/alloc.go\<close>: seventeen pools of buffers, and the position of
  the highest bit by multiplication with a de Bruijn constant.  A buffer is its capacity; whether
  a pool of the library \<open>sync\<close> still has what was put into it is a parameter of each call.
\<close>

subsection \<open>The highest bit\<close>

definition debruijinPos :: "nat list" where
  "debruijinPos = [0, 9, 1, 10, 13, 21, 2, 29, 11, 14, 16, 18, 22, 25, 3, 30, 8, 12, 20, 28, 15, 17, 24, 7, 19, 27, 23, 6, 26, 5, 4, 31]"

definition or_shift :: "nat \<Rightarrow> 32 word \<Rightarrow> 32 word" where "or_shift k v = v OR drop_bit k v"

definition msb :: "int \<Rightarrow> nat" where
  "msb sz = (let v = or_shift 16 (or_shift 8 (or_shift 4 (or_shift 2 (or_shift 1 (word_of_int sz))))) in
     debruijinPos ! unat (drop_bit 27 (v * 0x07C4ACDD)))"

lemma or_shift_spread:
  assumes "\<And>n. bit x n \<longleftrightarrow> (\<exists>j<d. bit v (n + j))"
  shows "bit (or_shift d x) n \<longleftrightarrow> (\<exists>j<2 * d. bit v (n + j))"
proof -
  have "(\<exists>j<2 * d. bit v (n + j)) \<longleftrightarrow> (\<exists>j<d. bit v (n + j)) \<or> (\<exists>j<d. bit v (n + d + j))"
  proof
    assume "\<exists>j<2 * d. bit v (n + j)"
    then obtain j where j: "j < 2 * d" "bit v (n + j)" by blast
    show "(\<exists>j<d. bit v (n + j)) \<or> (\<exists>j<d. bit v (n + d + j))"
    proof (cases "j < d")
      case False
      then have "n + d + (j - d) = n + j" "j - d < d" using j(1) by simp_all
      then show ?thesis using j(2) by metis
    qed (use j in blast)
  next
    assume "(\<exists>j<d. bit v (n + j)) \<or> (\<exists>j<d. bit v (n + d + j))"
    then show "\<exists>j<2 * d. bit v (n + j)"
    proof
      assume "\<exists>j<d. bit v (n + d + j)"
      then obtain j where "j < d" "bit v (n + (d + j))" by (auto simp: add.assoc)
      then show ?thesis by (intro exI [of _ "d + j"]) simp
    qed (use trans_less_add1 in \<open>fastforce\<close>)
  qed
  then show ?thesis by (simp add: or_shift_def bit_or_iff bit_drop_bit_eq assms add.commute)
qed

lemma smeared:
  fixes v :: "32 word"
  shows "bit (or_shift 16 (or_shift 8 (or_shift 4 (or_shift 2 (or_shift 1 v))))) n \<longleftrightarrow> (\<exists>k\<ge>n. bit v k)"
proof -
  have "bit (or_shift 1 v) n \<longleftrightarrow> (\<exists>j<2. bit v (n + j))" for n using or_shift_spread [of v 1 v n] by simp
  then have "bit (or_shift 2 (or_shift 1 v)) n \<longleftrightarrow> (\<exists>j<4. bit v (n + j))" for n using or_shift_spread [of _ 2 v n] by simp
  then have "bit (or_shift 4 (or_shift 2 (or_shift 1 v))) n \<longleftrightarrow> (\<exists>j<8. bit v (n + j))" for n using or_shift_spread [of _ 4 v n] by simp
  then have "bit (or_shift 8 (or_shift 4 (or_shift 2 (or_shift 1 v)))) n \<longleftrightarrow> (\<exists>j<16. bit v (n + j))" for n
    using or_shift_spread [of _ 8 v n] by simp
  then have "bit (or_shift 16 (or_shift 8 (or_shift 4 (or_shift 2 (or_shift 1 v))))) n \<longleftrightarrow> (\<exists>j<32. bit v (n + j))"
    using or_shift_spread [of _ 16 v n] by simp
  moreover have "(\<exists>j<32. bit v (n + j)) \<longleftrightarrow> (\<exists>k\<ge>n. bit v k)"
  proof
    assume "\<exists>k\<ge>n. bit v k"
    then obtain k where k: "n \<le> k" "bit v k" by blast
    then have "k < 32" using bit_imp_le_length by fastforce
    then show "\<exists>j<32. bit v (n + j)" using k by (intro exI [of _ "k - n"]) simp
  qed (use le_add1 in blast)
  ultimately show ?thesis by simp
qed

lemma debruijin_table: "m < 32 \<Longrightarrow> debruijinPos ! unat (drop_bit 27 ((mask (Suc m) :: 32 word) * 0x07C4ACDD)) = m"
proof -
  have "list_all (\<lambda>m. debruijinPos ! unat (drop_bit 27 ((mask (Suc m) :: 32 word) * 0x07C4ACDD)) = m) [0..<32]" by code_simp
  then show "m < 32 \<Longrightarrow> ?thesis" by (auto simp: list_all_iff)
qed

lemma top_bit:
  fixes v :: nat
  assumes "2 ^ m \<le> v" "v < 2 ^ Suc m"
  shows "bit v m" "\<And>k. m < k \<Longrightarrow> \<not> bit v k"
proof -
  have "v div 2 ^ m = 1" using assms by (intro div_nat_eqI) simp_all
  then show "bit v m" by (simp add: bit_iff_odd)
  fix k assume "m < k"
  then have "(2 :: nat) ^ Suc m \<le> 2 ^ k" by (intro power_increasing) auto
  then have "v div 2 ^ k = 0" using assms(2) by simp
  then show "\<not> bit v k" by (simp add: bit_iff_odd)
qed

lemma msb_pos:
  assumes "2 ^ m \<le> n" "n < 2 ^ Suc m" "m < 32"
  shows "msb (int n) = m"
proof -
  let ?v = "word_of_int (int n) :: 32 word"
  have bits: "bit ?v k \<longleftrightarrow> k < 32 \<and> bit n k" for k
    using bit_word_of_int_iff [where ?'a = 32, of "int n" k] by (simp add: bit_of_nat_iff_bit possible_bit_def)
  have "(\<exists>k'\<ge>k. bit ?v k') \<longleftrightarrow> k < Suc m" for k
    using top_bit [OF assms(1,2)] assms(3) by (metis bits leI less_Suc_eq_le order.trans)
  then have "or_shift 16 (or_shift 8 (or_shift 4 (or_shift 2 (or_shift 1 ?v)))) = mask (Suc m)"
    using assms(3) by (intro bit_word_eqI, simp only: smeared) (auto simp: bit_mask_iff)
  then show ?thesis using debruijin_table [OF assms(3)] by (simp add: msb_def)
qed

text \<open>
  C22. The de Bruijn trick computes the position of the highest bit, for every size of 32 bits.
\<close>

theorem msb_is_highest_bit:
  assumes "2 ^ m \<le> n" "n < 2 ^ Suc m" "m < 32"
  shows "msb (int n) = m"
  using msb_pos [OF assms] .

subsection \<open>The pools\<close>

definition NewAllocator :: "nat list list" where "NewAllocator = replicate 17 []"

text \<open>A buffer from a pool, or a new one; cutting it to the size asked for panics when it is smaller.\<close>

definition pool_Get :: "bool \<Rightarrow> nat \<Rightarrow> int \<Rightarrow> nat list list \<Rightarrow> (nat option \<times> nat list list) go" where
  "pool_Get kept i sz bufs =
     (if length bufs \<le> i then Panic
      else let (c, bufs') = (case bufs ! i of c # cs \<Rightarrow> if kept then (c, bufs[i := cs]) else (2 ^ i, bufs) | [] \<Rightarrow> (2 ^ i, bufs)) in
        if int c < sz then Panic else Ret (Some c, bufs'))"

definition alloc_Get :: "bool \<Rightarrow> int \<Rightarrow> nat list list \<Rightarrow> (nat option \<times> nat list list) go" where
  "alloc_Get kept sz bufs =
     (if sz \<le> 0 \<or> 65536 < sz then Ret (None, bufs)
      else let bits = msb sz in
        if sz = 2 ^ bits then pool_Get kept bits sz bufs else pool_Get kept (bits + 1) sz bufs)"

definition alloc_Put :: "nat option \<Rightarrow> nat list list \<Rightarrow> goerr option \<times> nat list list" where
  "alloc_Put p bufs =
     (case p of
        None \<Rightarrow> (Some (GoErr ''allocator Put() incorrect buffer size''), bufs)
      | Some c \<Rightarrow>
          let bits = msb (int c) in
          if c = 0 \<or> 65536 < c \<or> c \<noteq> 2 ^ bits then (Some (GoErr ''allocator Put() incorrect buffer size''), bufs)
          else (None, bufs[bits := c # bufs ! bits]))"

definition pools_ok :: "nat list list \<Rightarrow> bool" where
  "pools_ok bufs \<longleftrightarrow> length bufs = 17 \<and> (\<forall>i < 17. \<forall>c \<in> set (bufs ! i). c = 2 ^ i)"

lemma highest_bit_ex:
  fixes n :: nat
  assumes "0 < n" "n \<le> 65536"
  shows "\<exists>m \<le> 16. 2 ^ m \<le> n \<and> n < 2 ^ Suc m"
proof -
  obtain m where m: "2 ^ m \<le> n" "n < 2 ^ Suc m" using assms(1) ex_power_ivl1 [of 2 n] by fastforce
  have "m \<le> 16"
  proof (rule ccontr)
    assume "\<not> m \<le> 16"
    then have "(2 :: nat) ^ 17 \<le> 2 ^ m" by (intro power_increasing) auto
    then show False using m(1) assms(2) by simp
  qed
  then show ?thesis using m by blast
qed

lemma pool_Get_ok:
  assumes "pools_ok bufs" "i < 17" "sz \<le> 2 ^ i"
  shows "\<exists>bufs'. pool_Get kept i sz bufs = Ret (Some (2 ^ i), bufs') \<and> pools_ok bufs'"
  using assms by (auto simp: pool_Get_def pools_ok_def nth_list_update split: list.splits if_splits)

text \<open>
  A buffer for any payload a frame can have is got without a panic: its capacity is a power of two
  that is large enough and less than twice the size, and the allocator takes it back.
\<close>

theorem buffer_fits:
  assumes "pools_ok bufs" "0 < n" "n \<le> 65536"
  shows "\<exists>c bufs'. alloc_Get kept (int n) bufs = Ret (Some c, bufs') \<and> n \<le> c \<and> c < 2 * n \<and>
    pools_ok bufs' \<and> fst (alloc_Put (Some c) bufs') = None \<and> pools_ok (snd (alloc_Put (Some c) bufs'))"
proof -
  obtain m where m: "m \<le> 16" "2 ^ m \<le> n" "n < 2 ^ Suc m" using highest_bit_ex [OF assms(2,3)] by blast
  have bits: "msb (int n) = m" using msb_pos [OF m(2,3)] m(1) by simp
  define i where "i = (if n = 2 ^ m then m else m + 1)"
  have i: "i < 17" "n \<le> 2 ^ i" "(2 :: nat) ^ i < 2 * n"
  proof -
    show "i < 17"
    proof (cases "n = 2 ^ m")
      case False
      then have "(2 :: nat) ^ m < 65536" using m(2) assms(3) by simp
      then have "m \<noteq> 16" by auto
      then show ?thesis using m(1) by (simp add: i_def)
    qed (use m(1) in \<open>simp add: i_def\<close>)
    show "n \<le> 2 ^ i" "(2 :: nat) ^ i < 2 * n" using m(2,3) assms(2) by (auto simp: i_def)
  qed
  have get: "alloc_Get kept (int n) bufs = pool_Get kept i (int n) bufs"
    using assms(2,3) bits by (simp add: alloc_Get_def i_def flip: of_nat_power_eq_of_nat_cancel_iff)
  obtain bufs' where g: "pool_Get kept i (int n) bufs = Ret (Some (2 ^ i), bufs')" "pools_ok bufs'"
    using pool_Get_ok [OF assms(1) i(1), of "int n" kept] i(2) by (metis of_nat_le_iff of_nat_numeral of_nat_power)
  have "msb (int (2 ^ i)) = i" using i(1) by (intro msb_pos) auto
  moreover have "(2 :: nat) ^ i \<le> 65536"
    using i(1) power_increasing [of i 16 "2 :: nat"] by simp
  ultimately have put: "alloc_Put (Some (2 ^ i)) bufs' = (None, bufs'[i := 2 ^ i # bufs' ! i])" by (simp add: alloc_Put_def)
  then show ?thesis using get g i
    by (intro exI [of _ "2 ^ i"] exI [of _ bufs']) (auto simp: pools_ok_def nth_list_update)
qed

lemma NewAllocator_ok [simp]: "pools_ok NewAllocator" by (simp add: pools_ok_def NewAllocator_def)

lemma msb_is_highest_bit_witness: "msb 40000 = 15"
  using msb_is_highest_bit [of 15 40000] by simp

lemma buffer_fits_witness:
  "\<exists>c bufs'. alloc_Get True 40000 NewAllocator = Ret (Some c, bufs') \<and> 40000 \<le> c \<and> c < 80000 \<and> fst (alloc_Put (Some c) bufs') = None"
  using buffer_fits [of NewAllocator 40000 True] by auto

end
