(* ===== verification/Go_Heap.thy ===== *)
theory Go_Heap
  imports Main "HOL-Library.Multiset"
begin

text \<open>
  The heap of the standard library, package \<open>container/heap\<close>, on a slice: \<open>up\<close> and \<open>down\<close> are its two
  loops.  A heap works for an order that is transitive on the elements it holds; the locale states
  this, since the order of the multiplexer's queue, on sequence numbers that wrap, is none
  on all words.
\<close>

definition swap_at :: "nat \<Rightarrow> nat \<Rightarrow> 'a list \<Rightarrow> 'a list" where
  "swap_at i j h = h[i := h ! j, j := h ! i]"

definition par :: "nat \<Rightarrow> nat" where "par j = (j - 1) div 2"

lemma par_less: "par j \<noteq> j \<Longrightarrow> par j < j" by (simp add: par_def)

lemma par_below: "0 < j \<Longrightarrow> par j < j" by (simp add: par_def)

function heap_up :: "('a \<Rightarrow> 'a \<Rightarrow> bool) \<Rightarrow> 'a list \<Rightarrow> nat \<Rightarrow> 'a list" where
  "heap_up lt h j = (let i = par j in if i = j \<or> \<not> lt (h ! j) (h ! i) then h else heap_up lt (swap_at i j h) i)"
  by pat_completeness auto
termination
  by (relation "measure (\<lambda>(lt, h, j). j)") (simp_all add: par_less)

text \<open>The child of \<open>i\<close> that comes first, when there is one below \<open>n\<close>.\<close>

definition child :: "('a \<Rightarrow> 'a \<Rightarrow> bool) \<Rightarrow> 'a list \<Rightarrow> nat \<Rightarrow> nat \<Rightarrow> nat" where
  "child lt h i n = (let j1 = 2 * i + 1; j2 = j1 + 1 in if j2 < n \<and> lt (h ! j2) (h ! j1) then j2 else j1)"

lemma child_cases: "child lt h i n \<in> {2 * i + 1, 2 * i + 2}" by (simp add: child_def Let_def)

lemma child_less: "2 * i + 1 < n \<Longrightarrow> child lt h i n < n \<and> i < child lt h i n \<and> par (child lt h i n) = i"
  by (simp add: child_def Let_def par_def)

function heap_down :: "('a \<Rightarrow> 'a \<Rightarrow> bool) \<Rightarrow> 'a list \<Rightarrow> nat \<Rightarrow> nat \<Rightarrow> 'a list" where
  "heap_down lt h i n =
     (if n \<le> 2 * i + 1 then h
      else let j = child lt h i n in
        if \<not> lt (h ! j) (h ! i) then h else heap_down lt (swap_at i j h) j n)"
  by pat_completeness auto
termination
proof (relation "measure (\<lambda>(lt, h, i, n). n - i)", goal_cases)
  case (2 lt h i n j)
  then show ?case using child_less [of i n lt h] by auto
qed simp

declare heap_up.simps [simp del] heap_down.simps [simp del]

definition heap_Push :: "('a \<Rightarrow> 'a \<Rightarrow> bool) \<Rightarrow> 'a \<Rightarrow> 'a list \<Rightarrow> 'a list" where
  "heap_Push lt x h = heap_up lt (h @ [x]) (length h)"

definition heap_Pop :: "('a \<Rightarrow> 'a \<Rightarrow> bool) \<Rightarrow> 'a list \<Rightarrow> 'a \<times> 'a list" where
  "heap_Pop lt h = (let n = length h - 1; h' = heap_down lt (swap_at 0 n h) 0 n in (last h', butlast h'))"

subsection \<open>No element is lost\<close>

lemma length_swap [simp]: "length (swap_at i j h) = length h" by (simp add: swap_at_def)

lemma mset_swap [simp]: "i < length h \<Longrightarrow> j < length h \<Longrightarrow> mset (swap_at i j h) = mset h"
  by (simp add: swap_at_def mset_swap)

lemma nth_swap:
  "i < length h \<Longrightarrow> j < length h \<Longrightarrow> swap_at i j h ! k = (if k = j then h ! i else if k = i then h ! j else h ! k)"
  by (auto simp: swap_at_def nth_list_update)

lemma up_mset: "j < length h \<Longrightarrow> mset (heap_up lt h j) = mset h \<and> length (heap_up lt h j) = length h"
proof (induction lt h j rule: heap_up.induct)
  case (1 lt h j)
  show ?case
  proof (cases "par j = j \<or> \<not> lt (h ! j) (h ! par j)")
    case False
    then have "par j < length h" using par_less [of j] 1(2) by simp
    then show ?thesis using 1 False by (simp add: heap_up.simps [of lt h j] Let_def)
  qed (simp add: heap_up.simps Let_def)
qed

lemma down_mset:
  "n \<le> length h \<Longrightarrow> mset (heap_down lt h i n) = mset h \<and> length (heap_down lt h i n) = length h \<and>
    (\<forall>k. n \<le> k \<longrightarrow> heap_down lt h i n ! k = h ! k)"
proof (induction lt h i n rule: heap_down.induct)
  case (1 lt h i n)
  let ?j = "child lt h i n"
  show ?case
  proof (cases "n \<le> 2 * i + 1 \<or> \<not> lt (h ! ?j) (h ! i)")
    case False
    then have j: "?j < n" "i < n" using child_less [of i n lt h] by auto
    have "heap_down lt h i n = heap_down lt (swap_at i ?j h) ?j n"
      using False by (simp add: heap_down.simps [of lt h i n] Let_def)
    then show ?thesis using j 1 False by (auto simp: nth_swap)
  qed (auto simp: heap_down.simps [of lt h i n] Let_def)
qed

subsection \<open>The order\<close>

locale heap_order =
  fixes lt :: "'a \<Rightarrow> 'a \<Rightarrow> bool" and S :: "'a set"
  assumes asym: "x \<in> S \<Longrightarrow> y \<in> S \<Longrightarrow> lt x y \<Longrightarrow> \<not> lt y x"
    and le_trans: "x \<in> S \<Longrightarrow> y \<in> S \<Longrightarrow> z \<in> S \<Longrightarrow> \<not> lt y x \<Longrightarrow> \<not> lt z y \<Longrightarrow> \<not> lt z x"
begin

definition heap_on :: "'a list \<Rightarrow> nat \<Rightarrow> bool" where
  "heap_on h n \<longleftrightarrow> (\<forall>k. 0 < k \<and> k < n \<longrightarrow> \<not> lt (h ! k) (h ! par k))"

lemma root_least:
  assumes "heap_on h n" "n \<le> length h" "set h \<subseteq> S" "k < n"
  shows "\<not> lt (h ! k) (h ! 0)"
  using assms(4)
proof (induction k rule: less_induct)
  case (less k)
  have mem: "h ! i \<in> S" if "i < n" for i using assms(2,3) that by (meson less_le_trans nth_mem subsetD)
  show ?case
  proof (cases "k = 0")
    case True
    then show ?thesis using asym mem less.prems by blast
  next
    case False
    then have p: "par k < k" by (simp add: par_below)
    then show ?thesis
      using le_trans [of "h ! 0" "h ! par k" "h ! k"] less.IH [OF p] less.prems assms(1) mem False by (simp add: heap_on_def)
  qed
qed

text \<open>All is in order but the element at \<open>j\<close>, which may have to rise or to sink.\<close>

definition but_up :: "'a list \<Rightarrow> nat \<Rightarrow> nat \<Rightarrow> bool" where
  "but_up h n j \<longleftrightarrow> (\<forall>k. 0 < k \<and> k < n \<and> k \<noteq> j \<longrightarrow> \<not> lt (h ! k) (h ! par k)) \<and>
     (\<forall>k. 0 < j \<and> 0 < k \<and> k < n \<and> par k = j \<longrightarrow> \<not> lt (h ! k) (h ! par j))"

lemma mem: "set h \<subseteq> S \<Longrightarrow> i < length h \<Longrightarrow> h ! i \<in> S" by (meson nth_mem subsetD)

lemma set_swap [simp]: "i < length h \<Longrightarrow> j < length h \<Longrightarrow> set (swap_at i j h) = set h"
  using mset_swap mset_eq_setD by blast

lemma up_heap:
  assumes "but_up h (length h) j" "j < length h" "set h \<subseteq> S"
  shows "heap_on (heap_up lt h j) (length h)"
  using assms
proof (induction j arbitrary: h rule: less_induct)
  case (less j)
  let ?i = "par j" and ?n = "length h"
  show ?case
  proof (cases "?i = j \<or> \<not> lt (h ! j) (h ! ?i)")
    case True
    then have "\<not> lt (h ! j) (h ! par j)" using asym mem less.prems by metis
    then have "heap_on h ?n" using less.prems(1) unfolding heap_on_def but_up_def by metis
    then show ?thesis using True by (simp add: heap_up.simps [of lt h j] Let_def)
  next
    case False
    let ?h = "swap_at ?i j h"
    have i: "?i < j" "?i < ?n" "0 < j" using False par_less [of j] less.prems(2) by auto
    note nth = nth_swap [OF i(2) less.prems(2)]
    have ji: "\<not> lt (h ! ?i) (h ! j)" using False asym mem [OF less.prems(3)] i less.prems(2) by blast
    have ord: "\<not> lt (h ! k) (h ! par k)" if "0 < k" "k < ?n" "k \<noteq> j" for k using less.prems(1) that by (simp add: but_up_def)
    have kids: "\<not> lt (h ! k) (h ! ?i)" if "0 < k" "k < ?n" "par k = j" for k using less.prems(1) that i by (simp add: but_up_def)
    have "but_up ?h (length ?h) ?i"
      unfolding but_up_def length_swap
    proof (intro conjI allI impI)
      fix k assume k: "0 < k \<and> k < ?n \<and> k \<noteq> ?i"
      then have pk: "par k < k" by (simp add: par_below)
      show "\<not> lt (?h ! k) (?h ! par k)"
      proof (cases "k = j")
        case True
        then show ?thesis using ji i by (simp add: nth)
      next
        case kj: False
        consider "par k = j" | "par k = ?i" | "par k \<noteq> j" "par k \<noteq> ?i" by blast
        then show ?thesis
        proof cases
          case 1
          then show ?thesis using kids [of k] k kj i by (simp add: nth)
        next
          case 2
          have "\<not> lt (h ! k) (h ! j)"
            using le_trans [of "h ! j" "h ! ?i" "h ! k"] ji ord [of k] 2 k kj mem [OF less.prems(3)] i less.prems(2) by simp
          then show ?thesis using 2 k kj i by (simp add: nth)
        next
          case 3
          then show ?thesis using ord [of k] k kj by (simp add: nth)
        qed
      qed
    next
      fix k assume k: "0 < ?i \<and> 0 < k \<and> k < ?n \<and> par k = ?i"
      then have pi: "par ?i < ?i" by (simp add: par_below)
      have up: "\<not> lt (h ! ?i) (h ! par ?i)" using ord [of ?i] k i by simp
      show "\<not> lt (?h ! k) (?h ! par ?i)"
      proof (cases "k = j")
        case True
        then show ?thesis using up pi i by (simp add: nth)
      next
        case kj: False
        have ki: "k \<noteq> ?i" using k par_below [of k] by auto
        have "\<not> lt (h ! k) (h ! par ?i)"
          using le_trans [of "h ! par ?i" "h ! ?i" "h ! k"] up ord [of k] k kj mem [OF less.prems(3)] i pi by simp
        then show ?thesis using kj ki pi i by (simp add: nth)
      qed
    qed
    then have "heap_on (heap_up lt ?h ?i) (length ?h)"
      using less.IH [OF i(1), of ?h] less.prems(2,3) i by simp
    then show ?thesis using False by (simp add: heap_up.simps [of lt h j] Let_def)
  qed
qed

definition but_down :: "'a list \<Rightarrow> nat \<Rightarrow> nat \<Rightarrow> bool" where
  "but_down h n i \<longleftrightarrow> (\<forall>k. 0 < k \<and> k < n \<and> par k \<noteq> i \<longrightarrow> \<not> lt (h ! k) (h ! par k)) \<and>
     (\<forall>k. 0 < i \<and> 0 < k \<and> k < n \<and> par k = i \<longrightarrow> \<not> lt (h ! k) (h ! par i))"

lemma child_first:
  assumes "set h \<subseteq> S" "n \<le> length h" "0 < k" "k < n" "par k = i"
  shows "\<not> lt (h ! k) (h ! child lt h i n)"
proof -
  have k: "k = 2 * i + 1 \<or> k = 2 * i + 2" using assms(3,5) unfolding par_def by presburger
  have m: "h ! j \<in> S" if "j < n" for j using mem [OF assms(1)] assms(2) that by simp
  have refl: "\<not> lt (h ! j) (h ! j)" if "j < n" for j using asym m that by blast
  show ?thesis
    using k assms(4) asym m refl by (auto simp: child_def Let_def)
qed

lemma down_heap:
  assumes "but_down h n i" "n \<le> length h" "set h \<subseteq> S"
  shows "heap_on (heap_down lt h i n) n"
  using assms
proof (induction "n - i" arbitrary: h i rule: less_induct)
  case (less i h)
  let ?j = "child lt h i n"
  have m: "h ! j \<in> S" if "j < n" for j using mem [OF less.prems(3)] less.prems(2) that by simp
  show ?case
  proof (cases "n \<le> 2 * i + 1")
    case True
    then have "par k \<noteq> i" if "0 < k" "k < n" for k using that by (auto simp: par_def)
    then have "heap_on h n" using less.prems(1) by (simp add: heap_on_def but_down_def)
    then show ?thesis using True by (simp add: heap_down.simps [of lt h i n])
  next
    case inside: False
    then have j: "?j < n" "i < ?j" "par ?j = i" using child_less [of i n lt h] by auto
    show ?thesis
    proof (cases "lt (h ! ?j) (h ! i)")
      case False
      have "\<not> lt (h ! k) (h ! par k)" if "0 < k" "k < n" for k
      proof (cases "par k = i")
        case True
        then show ?thesis
          using le_trans [of "h ! i" "h ! ?j" "h ! k"] False child_first [OF less.prems(3,2) that True] m that j by simp
      qed (use that less.prems(1) in \<open>simp add: but_down_def\<close>)
      then show ?thesis using False inside by (simp add: heap_down.simps [of lt h i n] Let_def heap_on_def)
    next
      case True
      let ?h = "swap_at i ?j h"
      have lens: "i < length h" "?j < length h" using j less.prems(2) by auto
      note nth = nth_swap [OF lens]
      have ij: "\<not> lt (h ! i) (h ! ?j)" using True asym m j by (meson less_trans)
      have ord: "\<not> lt (h ! k) (h ! par k)" if "0 < k" "k < n" "par k \<noteq> i" for k using less.prems(1) that by (simp add: but_down_def)
      have "but_down ?h n ?j"
        unfolding but_down_def
      proof (intro conjI allI impI)
        fix k assume k: "0 < k \<and> k < n \<and> par k \<noteq> ?j"
        then have pk: "par k < k" by (simp add: par_below)
        consider "k = ?j" | "k \<noteq> ?j" "par k = i" | "k = i" | "k \<noteq> ?j" "par k \<noteq> i" "k \<noteq> i" by blast
        then show "\<not> lt (?h ! k) (?h ! par k)"
        proof cases
          case 1
          then show ?thesis using ij j by (simp add: nth)
        next
          case 2
          then show ?thesis using child_first [OF less.prems(3,2), of k i] k pk j by (simp add: nth)
        next
          case 3
          then have "0 < i" using k by simp
          then have "\<not> lt (h ! ?j) (h ! par i)" using less.prems(1) j by (simp add: but_down_def)
          then show ?thesis using 3 pk j k by (simp add: nth)
        next
          case 4
          then show ?thesis using ord [of k] k by (simp add: nth)
        qed
      next
        fix k assume k: "0 < ?j \<and> 0 < k \<and> k < n \<and> par k = ?j"
        then have "par k < k" using par_below [of k] by blast
        then have "k \<noteq> ?j" "k \<noteq> i" "par k \<noteq> i" using k j by auto
        then show "\<not> lt (?h ! k) (?h ! par ?j)" using ord [of k] k j by (simp add: nth)
      qed
      moreover have "n - ?j < n - i" using j by simp
      ultimately have "heap_on (heap_down lt ?h ?j n) n" using less.hyps [of ?j ?h] less.prems(2,3) lens by simp
      then show ?thesis using True inside by (simp add: heap_down.simps [of lt h i n] Let_def)
    qed
  qed
qed

subsection \<open>Pushing and popping\<close>

lemma heap_Push_ok:
  assumes "heap_on h (length h)" "set h \<subseteq> S" "x \<in> S"
  shows "heap_on (heap_Push lt x h) (length (heap_Push lt x h))" "mset (heap_Push lt x h) = add_mset x (mset h)"
proof -
  have "but_up (h @ [x]) (length (h @ [x])) (length h)"
    unfolding but_up_def
  proof (intro conjI allI impI)
    fix k assume k: "0 < k \<and> k < length (h @ [x]) \<and> k \<noteq> length h"
    then have "par k < k" "k < length h" by (simp_all add: par_below)
    then show "\<not> lt ((h @ [x]) ! k) ((h @ [x]) ! par k)" using assms(1) k by (simp add: heap_on_def nth_append)
  next
    fix k assume "0 < length h \<and> 0 < k \<and> k < length (h @ [x]) \<and> par k = length h"
    then show "\<not> lt ((h @ [x]) ! k) ((h @ [x]) ! par (length h))" using par_below [of k] by simp
  qed
  then have "heap_on (heap_up lt (h @ [x]) (length h)) (length (h @ [x]))" using assms(2,3) by (intro up_heap) simp_all
  then show "heap_on (heap_Push lt x h) (length (heap_Push lt x h))" "mset (heap_Push lt x h) = add_mset x (mset h)"
    using up_mset [of "length h" "h @ [x]" lt] by (simp_all add: heap_Push_def)
qed

lemma heap_Pop_ok:
  assumes "heap_on h (length h)" "set h \<subseteq> S" "h \<noteq> []" "heap_Pop lt h = (x, h')"
  shows "heap_on h' (length h')" "mset h = add_mset x (mset h')" "\<And>y. y \<in> set h \<Longrightarrow> \<not> lt y x"
proof -
  let ?n = "length h - 1" and ?h = "swap_at 0 (length h - 1) h"
  have lens: "0 < length h" "?n < length h" using assms(3) by auto
  define d where "d = heap_down lt ?h 0 ?n"
  have d: "mset d = mset ?h" "length d = length ?h" "d ! ?n = ?h ! ?n"
    using down_mset [of ?n ?h lt 0] by (simp_all add: d_def)
  have x: "x = h ! 0" "h' = butlast d"
    using assms(3,4) d lens by (auto simp: heap_Pop_def Let_def d_def last_conv_nth nth_swap simp flip: length_greater_0_conv)
  have "but_down ?h ?n 0"
    unfolding but_down_def
  proof (intro conjI allI impI)
    fix k assume k: "0 < k \<and> k < ?n \<and> par k \<noteq> 0"
    then have "par k < k" "k < length h" using par_below [of k] by linarith+
    moreover from this have "\<not> lt (h ! k) (h ! par k)" using assms(1) k unfolding heap_on_def by blast
    ultimately show "\<not> lt (?h ! k) (?h ! par k)" using k lens by (simp add: nth_swap)
  qed simp
  then have "heap_on d ?n" unfolding d_def using down_heap [of ?h ?n 0] assms(2) lens by simp
  then have hd: "\<not> lt (d ! k) (d ! par k)" if "0 < k" "k < ?n" for k using that by (simp add: heap_on_def)
  have len: "length h' = ?n" using x(2) d(2) by simp
  have "\<not> lt (h' ! k) (h' ! par k)" if k: "0 < k" "k < length h'" for k
  proof -
    have "par k < k" using k par_below [of k] by blast
    then have "par k < length h'" using k by linarith
    then show ?thesis using hd [of k] k len x(2) by (simp add: nth_butlast)
  qed
  then show "heap_on h' (length h')" by (simp add: heap_on_def)
  have ne: "d \<noteq> []" using d(2) lens by auto
  then have "last d = d ! ?n" using d(2) by (simp add: last_conv_nth)
  also have "\<dots> = x" using d(3) x(1) lens by (simp add: nth_swap)
  finally have "d = h' @ [x]" using append_butlast_last_id [OF ne] x(2) by simp
  then have "mset d = add_mset x (mset h')" by simp
  moreover have "mset d = mset h" unfolding d(1) using lens by (intro mset_swap)
  ultimately show "mset h = add_mset x (mset h')" by simp
  show "\<not> lt y x" if "y \<in> set h" for y
    using root_least [OF assms(1) order.refl assms(2)] that x(1) by (metis in_set_conv_nth)
qed

end

end
