(* ===== verification/Smux_Shaper.thy ===== *)
theory Smux_Shaper
  imports Smux_Frame Go_Heap
begin

text \<open>
  The queue of frames to be written, \<open>src/third_party/smux/shaper.go\<close>: a heap of requests for every
  stream that has any, by class and then by sequence number, and a list of these streams that
  is gone round.  An element of the list is its stream, which occurs once; the heaps are those of
  the standard library.
\<close>

subsection \<open>Requests and their order\<close>

datatype class_id = CLSCTRL | CLSDATA

fun class_num :: "class_id \<Rightarrow> nat" where "class_num CLSCTRL = 0" | "class_num CLSDATA = 1"

text \<open>\<open>wr_result\<close> is the channel the result is sent on.\<close>

record wreq =
  wr_class :: class_id
  wr_frame :: frame
  wr_seq :: "32 word"
  wr_result :: nat

definition itimediff :: "32 word \<Rightarrow> 32 word \<Rightarrow> int" where
  "itimediff later earlier = sint (later - earlier)"

definition wr_less :: "wreq \<Rightarrow> wreq \<Rightarrow> bool" where
  "wr_less a b = (if wr_class a \<noteq> wr_class b then class_num (wr_class a) < class_num (wr_class b)
     else 0 < itimediff (wr_seq b) (wr_seq a))"

text \<open>Requests whose numbers lie within half the range from \<open>b\<close> on.\<close>

definition in_window :: "32 word \<Rightarrow> wreq set" where
  "in_window b = {r. unat (wr_seq r - b) < 2 ^ 31}"

definition wr_key :: "32 word \<Rightarrow> wreq \<Rightarrow> nat" where
  "wr_key b r = class_num (wr_class r) * 2 ^ 31 + unat (wr_seq r - b)"

lemma itimediff_window:
  assumes "unat (x - b) < 2 ^ 31" "unat (y - b) < 2 ^ 31"
  shows "itimediff y x = int (unat (y - b)) - int (unat (x - b))"
proof -
  have "y - x = word_of_int (uint (y - b) - uint (x - b))"
    by (simp add: wi_hom_sub [symmetric])
  moreover have "- (2 ^ 31) \<le> uint (y - b) - uint (x - b)" "uint (y - b) - uint (x - b) < 2 ^ 31"
  proof -
    have "int (unat (x - b)) < 2 ^ 31" "int (unat (y - b)) < 2 ^ 31" using assms by (metis of_nat_less_iff of_nat_numeral of_nat_power)+
    then have "uint (x - b) < 2 ^ 31" "uint (y - b) < 2 ^ 31" by simp_all
    moreover have "0 \<le> uint (x - b)" "0 \<le> uint (y - b)" by simp_all
    ultimately show "- (2 ^ 31) \<le> uint (y - b) - uint (x - b)" "uint (y - b) - uint (x - b) < 2 ^ 31" by linarith+
  qed
  then have "signed_take_bit 31 (uint (y - b) - uint (x - b)) = uint (y - b) - uint (x - b)"
    by (intro signed_take_bit_int_eq_self) simp_all
  then have "sint (word_of_int (uint (y - b) - uint (x - b)) :: 32 word) = uint (y - b) - uint (x - b)"
    by (simp only: sint_sbintrunc') simp
  ultimately have "sint (y - x) = uint (y - b) - uint (x - b)" by (simp only:)
  then show ?thesis by (simp add: itimediff_def)
qed

lemma wr_less_key:
  assumes "x \<in> in_window b" "y \<in> in_window b"
  shows "wr_less x y \<longleftrightarrow> wr_key b x < wr_key b y"
proof -
  have "itimediff (wr_seq y) (wr_seq x) = int (unat (wr_seq y - b)) - int (unat (wr_seq x - b))"
    using assms by (intro itimediff_window) (simp_all add: in_window_def)
  moreover have "uint u < uint v \<longleftrightarrow> unat u < unat v" for u v :: "32 word" using word_less_nat_alt [of u v] word_less_def [of u v] by simp
  ultimately show ?thesis using assms
    by (cases "wr_class x"; cases "wr_class y") (auto simp: wr_less_def wr_key_def in_window_def)
qed

interpretation sh: heap_order wr_less "in_window b" for b
  by unfold_locales (auto simp: wr_less_key not_less)

subsection \<open>The queue\<close>

record shaper =
  sq_streams :: "(32 word \<times> wreq list) list"
  sq_rrList :: "32 word list"
  sq_next :: "32 word option"
  sq_count :: int

definition NewShaperQueue :: shaper where
  "NewShaperQueue = \<lparr>sq_streams = [], sq_rrList = [], sq_next = None, sq_count = 0\<rparr>"

definition wr_sid :: "wreq \<Rightarrow> 32 word" where "wr_sid r = fr_sid (wr_frame r)"

definition heap_of :: "shaper \<Rightarrow> 32 word \<Rightarrow> wreq list" where
  "heap_of q sid = (case map_of (sq_streams q) sid of None \<Rightarrow> [] | Some h \<Rightarrow> h)"

definition sq_Push :: "wreq \<Rightarrow> shaper \<Rightarrow> shaper" where
  "sq_Push req q =
     (let sid = wr_sid req;
          q1 = (if map_of (sq_streams q) sid = None then
                  q\<lparr>sq_streams := AList.update sid [] (sq_streams q), sq_rrList := sq_rrList q @ [sid],
                    sq_next := (if sq_next q = None then Some sid else sq_next q)\<rparr>
                else q)
      in q1\<lparr>sq_streams := AList.update sid (heap_Push wr_less req (heap_of q1 sid)) (sq_streams q1), sq_count := sq_count q1 + 1\<rparr>)"

text \<open>\<open>Next\<close> of an element, and the front of the list after the last one.\<close>

fun next_of :: "'a \<Rightarrow> 'a list \<Rightarrow> 'a option" where
  "next_of x [] = None"
| "next_of x [y] = None"
| "next_of x (y # z # zs) = (if x = y then Some z else next_of x (z # zs))"

definition rr_after :: "32 word \<Rightarrow> 32 word list \<Rightarrow> 32 word" where
  "rr_after sid rr = (case next_of sid rr of None \<Rightarrow> hd rr | Some s \<Rightarrow> s)"

definition pop_at :: "32 word \<Rightarrow> wreq list \<Rightarrow> shaper \<Rightarrow> wreq \<times> shaper" where
  "pop_at sid h q =
     (let (req, h') = heap_Pop wr_less h;
          q1 = q\<lparr>sq_count := sq_count q - 1, sq_next := Some (rr_after sid (sq_rrList q))\<rparr>
      in (req,
          if h' = [] then
            let rr = remove1 sid (sq_rrList q) in
            q1\<lparr>sq_streams := AList.delete sid (sq_streams q), sq_rrList := rr,
               sq_next := (if rr = [] then None else sq_next q1)\<rparr>
          else q1\<lparr>sq_streams := AList.update sid h' (sq_streams q)\<rparr>))"

text \<open>
  The loop round the list, at most once; a stream in the list without a heap is a nil pointer.
\<close>

fun pop_loop :: "nat \<Rightarrow> 32 word \<Rightarrow> 32 word \<Rightarrow> shaper \<Rightarrow> (wreq option \<times> shaper) go" where
  "pop_loop 0 start current q = Ret (None, q)"
| "pop_loop (Suc fuel) start current q =
     (case map_of (sq_streams q) current of
        None \<Rightarrow> Panic
      | Some h \<Rightarrow>
          if 0 < length h then let (req, q') = pop_at current h q in Ret (Some req, q')
          else let current' = rr_after current (sq_rrList q) in
            if current' = start then Ret (None, q) else pop_loop fuel start current' q)"

definition sq_Pop :: "shaper \<Rightarrow> (wreq option \<times> shaper) go" where
  "sq_Pop q = (case sq_next q of
     None \<Rightarrow> Ret (None, q)
   | Some start \<Rightarrow> if sq_count q = 0 then Ret (None, q) else pop_loop (length (sq_rrList q)) start start q)"

definition sq_IsEmpty :: "shaper \<Rightarrow> bool" where "sq_IsEmpty q \<longleftrightarrow> sq_count q = 0"
definition sq_Len :: "shaper \<Rightarrow> int" where "sq_Len q = sq_count q"

subsection \<open>The order of service\<close>

text \<open>The streams in the order in which they will be served when nothing is pushed.\<close>

definition service :: "shaper \<Rightarrow> 32 word list" where
  "service q = (case sq_next q of None \<Rightarrow> []
     | Some s \<Rightarrow> dropWhile (\<lambda>x. x \<noteq> s) (sq_rrList q) @ takeWhile (\<lambda>x. x \<noteq> s) (sq_rrList q))"

lemma next_of_split:
  "distinct (xs @ s # ys) \<Longrightarrow> next_of s (xs @ s # ys) = (case ys of [] \<Rightarrow> None | y # _ \<Rightarrow> Some y)"
proof (induction xs)
  case Nil
  then show ?case by (cases ys) simp_all
next
  case (Cons x xs)
  then show ?case by (cases xs) auto
qed

lemma around: "s \<notin> set xs \<Longrightarrow> dropWhile (\<lambda>x. x \<noteq> s) (xs @ s # ys) @ takeWhile (\<lambda>x. x \<noteq> s) (xs @ s # ys) = s # ys @ xs"
  by (simp add: dropWhile_append takeWhile_append)

text \<open>What moving on and taking a stream out of the list does to the order.\<close>

lemma service_moved:
  assumes "distinct rr" "s \<in> set rr"
  defines "next' \<equiv> rr_after s rr"
  shows "dropWhile (\<lambda>x. x \<noteq> next') rr @ takeWhile (\<lambda>x. x \<noteq> next') rr =
      tl (dropWhile (\<lambda>x. x \<noteq> s) rr @ takeWhile (\<lambda>x. x \<noteq> s) rr) @ [s]" (is ?kept)
    and "remove1 s rr \<noteq> [] \<Longrightarrow> dropWhile (\<lambda>x. x \<noteq> next') (remove1 s rr) @ takeWhile (\<lambda>x. x \<noteq> next') (remove1 s rr) =
      tl (dropWhile (\<lambda>x. x \<noteq> s) rr @ takeWhile (\<lambda>x. x \<noteq> s) rr) \<and> next' \<in> set (remove1 s rr)"
    and "next' \<in> set rr"
proof -
  obtain xs ys where rr: "rr = xs @ s # ys" by (meson assms(2) split_list)
  then have d: "distinct (xs @ s # ys)" "s \<notin> set xs" "s \<notin> set ys" using assms(1) by auto
  have rm: "remove1 s (xs @ s # ys) = xs @ ys" using d by (simp add: remove1_append)
  have nx: "next' = (case ys of y # _ \<Rightarrow> y | [] \<Rightarrow> hd (xs @ [s]))"
    using next_of_split [OF d(1)] by (simp add: next'_def rr_after_def rr split: list.split)
  have old: "dropWhile (\<lambda>x. x \<noteq> s) rr @ takeWhile (\<lambda>x. x \<noteq> s) rr = s # ys @ xs" using around d(2) rr by simp
  have all: "?kept \<and> next' \<in> set rr \<and> (remove1 s rr \<noteq> [] \<longrightarrow>
      dropWhile (\<lambda>x. x \<noteq> next') (remove1 s rr) @ takeWhile (\<lambda>x. x \<noteq> next') (remove1 s rr) = ys @ xs \<and> next' \<in> set (remove1 s rr))"
  proof (cases ys)
    case (Cons y ys')
    have "y \<notin> set (xs @ [s])" "y \<notin> set xs" using d Cons by auto
    then show ?thesis
      using around [of y "xs @ [s]" ys'] around [of y xs ys'] old rm Cons by (simp add: rr nx d)
  next
    case Nil
    show ?thesis
    proof (cases xs)
      case xs: (Cons x xs')
      then show ?thesis using old Nil around [of x "[]" "xs' @ [s]"] around [of x "[]" xs'] rm by (simp add: rr nx)
    qed (use old Nil rm in \<open>simp add: rr nx\<close>)
  qed
  then show ?kept "next' \<in> set rr" by blast+
  show "dropWhile (\<lambda>x. x \<noteq> next') (remove1 s rr) @ takeWhile (\<lambda>x. x \<noteq> next') (remove1 s rr) =
      tl (dropWhile (\<lambda>x. x \<noteq> s) rr @ takeWhile (\<lambda>x. x \<noteq> s) rr) \<and> next' \<in> set (remove1 s rr)" if "remove1 s rr \<noteq> []"
    using all that old by simp
qed

subsection \<open>The invariant\<close>

definition stream_ok :: "32 word \<Rightarrow> 32 word \<Rightarrow> wreq list \<Rightarrow> bool" where
  "stream_ok b s h \<longleftrightarrow> h \<noteq> [] \<and> sh.heap_on h (length h) \<and> set h \<subseteq> in_window b \<and> (\<forall>r \<in> set h. wr_sid r = s)"

definition pending :: "shaper \<Rightarrow> wreq multiset" where
  "pending q = sum_list (map (\<lambda>s. mset (heap_of q s)) (sq_rrList q))"

definition sq_ok :: "32 word \<Rightarrow> shaper \<Rightarrow> bool" where
  "sq_ok b q \<longleftrightarrow> distinct (sq_rrList q) \<and> (\<forall>s. map_of (sq_streams q) s \<noteq> None \<longleftrightarrow> s \<in> set (sq_rrList q)) \<and>
     (\<forall>s \<in> set (sq_rrList q). stream_ok b s (heap_of q s)) \<and>
     (case sq_next q of None \<Rightarrow> sq_rrList q = [] | Some s \<Rightarrow> s \<in> set (sq_rrList q)) \<and>
     sq_count q = int (size (pending q))"

lemma NewShaperQueue_ok [simp]: "sq_ok b NewShaperQueue" "pending NewShaperQueue = {#}" "service NewShaperQueue = []"
  by (simp_all add: sq_ok_def NewShaperQueue_def pending_def service_def)

lemma heap_of_update: "heap_of (q\<lparr>sq_streams := AList.update s h (sq_streams q)\<rparr>) t = (if t = s then h else heap_of q t)"
  by (simp add: heap_of_def update_conv')

lemma pending_split:
  assumes "distinct (sq_rrList q)" "s \<in> set (sq_rrList q)"
  shows "pending q = mset (heap_of q s) + sum_list (map (\<lambda>t. mset (heap_of q t)) (remove1 s (sq_rrList q)))"
  unfolding pending_def by (rule sum_list_map_remove1 [OF assms(2)])

lemma others_same:
  assumes "distinct rr" "\<And>t. t \<noteq> s \<Longrightarrow> heap_of q' t = heap_of q t"
  shows "sum_list (map (\<lambda>t. mset (heap_of q' t)) (remove1 s rr)) = sum_list (map (\<lambda>t. mset (heap_of q t)) (remove1 s rr))"
proof -
  have "map (\<lambda>t. mset (heap_of q' t)) (remove1 s rr) = map (\<lambda>t. mset (heap_of q t)) (remove1 s rr)"
    using assms by (auto simp: set_remove1_eq)
  then show ?thesis by (simp only:)
qed

lemma sq_Push_ok:
  assumes "sq_ok b q" "req \<in> in_window b"
  shows "sq_ok b (sq_Push req q)" "pending (sq_Push req q) = add_mset req (pending q)"
    and "wr_sid req \<in> set (sq_rrList q) \<Longrightarrow> service (sq_Push req q) = service q"
    and "mset (heap_of (sq_Push req q) (wr_sid req)) = add_mset req (mset (heap_of q (wr_sid req)))"
    and "t \<noteq> wr_sid req \<Longrightarrow> heap_of (sq_Push req q) t = heap_of q t"
proof -
  let ?s = "wr_sid req" and ?q = "sq_Push req q"
  let ?h = "heap_Push wr_less req (heap_of q ?s)"
  have keys: "map_of (sq_streams q) t = None \<longleftrightarrow> t \<notin> set (sq_rrList q)" for t using assms(1) unfolding sq_ok_def by metis
  have old: "sh.heap_on (heap_of q ?s) (length (heap_of q ?s)) \<and> set (heap_of q ?s) \<subseteq> in_window b \<and> (\<forall>r \<in> set (heap_of q ?s). wr_sid r = ?s)"
  proof (cases "?s \<in> set (sq_rrList q)")
    case False
    then have "map_of (sq_streams q) ?s = None" using keys by blast
    then have "heap_of q ?s = []" by (simp add: heap_of_def)
    then show ?thesis by (simp add: sh.heap_on_def)
  qed (use assms(1) in \<open>simp add: sq_ok_def stream_ok_def\<close>)
  note push = sh.heap_Push_ok [OF conjunct1 [OF old] conjunct1 [OF conjunct2 [OF old]] assms(2)]
  have sh: "set ?h = insert req (set (heap_of q ?s))" using push(2) by (metis set_mset_add_mset_insert set_mset_mset)
  have ok: "stream_ok b ?s ?h" using push old sh assms(2) by (auto simp: stream_ok_def simp flip: set_mset_mset)
  have rr: "sq_rrList ?q = (if ?s \<in> set (sq_rrList q) then sq_rrList q else sq_rrList q @ [?s])"
    using keys by (simp add: sq_Push_def Let_def)
  have heap0: "heap_of (q\<lparr>sq_streams := AList.update ?s [] (sq_streams q), sq_rrList := x, sq_next := y\<rparr>) ?s = []" for x y
    by (simp add: heap_of_def update_conv')
  have heap: "heap_of ?q t = (if t = ?s then ?h else heap_of q t)" for t
    using keys [of ?s] heap0 by (auto simp: sq_Push_def Let_def heap_of_def update_conv')
  have mapk: "map_of (sq_streams ?q) t \<noteq> None \<longleftrightarrow> t = ?s \<or> map_of (sq_streams q) t \<noteq> None" for t
    by (simp add: sq_Push_def Let_def update_conv')
  have nx: "sq_next ?q = (if ?s \<in> set (sq_rrList q) then sq_next q else if sq_next q = None then Some ?s else sq_next q)"
    using keys by (simp add: sq_Push_def Let_def)
  have cnt: "sq_count ?q = sq_count q + 1" by (simp add: sq_Push_def Let_def)
  have d: "distinct (sq_rrList q)" "distinct (sq_rrList ?q)" "?s \<in> set (sq_rrList ?q)" using assms(1) by (auto simp: sq_ok_def rr)
  have rest: "remove1 ?s (sq_rrList ?q) = remove1 ?s (sq_rrList q)" by (simp add: rr remove1_append remove1_idem)
  have "pending q = mset (heap_of q ?s) + sum_list (map (\<lambda>t. mset (heap_of q t)) (remove1 ?s (sq_rrList q)))"
  proof (cases "?s \<in> set (sq_rrList q)")
    case False
    then have "map_of (sq_streams q) ?s = None" using keys by blast
    then show ?thesis using False by (simp add: pending_def remove1_idem heap_of_def [of q ?s])
  qed (use pending_split d in blast)
  then show pend: "pending ?q = add_mset req (pending q)"
    using pending_split [OF d(2,3)] others_same [OF d(1), of ?s ?q q] heap push(2) by (simp add: rest)
  show "sq_ok b ?q"
    using assms(1) ok d pend cnt mapk keys heap
    by (auto simp: sq_ok_def nx rr split: option.splits if_splits)
  show "service ?q = service q" if "?s \<in> set (sq_rrList q)" using that by (simp add: service_def nx rr split: option.split)
  show "mset (heap_of ?q ?s) = add_mset req (mset (heap_of q ?s))" using heap push(2) by simp
  show "heap_of ?q t = heap_of q t" if "t \<noteq> ?s" using heap that by simp
qed

lemma service_head:
  assumes "sq_ok b q" "sq_rrList q \<noteq> []"
  shows "\<exists>s rest. service q = s # rest \<and> sq_next q = Some s \<and> s \<in> set (sq_rrList q)"
proof -
  obtain s where s: "sq_next q = Some s" "s \<in> set (sq_rrList q)" using assms by (auto simp: sq_ok_def split: option.splits)
  then obtain xs ys where "sq_rrList q = xs @ s # ys" "s \<notin> set xs" using split_list_first by fast
  then show ?thesis using s around [of s xs ys] by (simp add: service_def)
qed

lemma set_service: "sq_ok b q \<Longrightarrow> set (service q) = set (sq_rrList q)"
  by (auto simp: service_def sq_ok_def split: option.splits) (metis Un_iff set_append takeWhile_dropWhile_id)+

text \<open>
  One pop: the least request of the stream whose turn it is, which goes to the end of the order, or
  out of it with its last request.
\<close>

lemma sq_Pop_served:
  assumes "sq_ok b q" "sq_rrList q \<noteq> []"
  shows "\<exists>r q' rest. sq_Pop q = Ret (Some r, q') \<and> sq_ok b q' \<and> pending q = add_mset r (pending q') \<and>
    service q = wr_sid r # rest \<and> (\<forall>y \<in> set (heap_of q (wr_sid r)). \<not> wr_less y r) \<and>
    mset (heap_of q (wr_sid r)) = add_mset r (mset (heap_of q' (wr_sid r))) \<and> (\<forall>t. t \<noteq> wr_sid r \<longrightarrow> heap_of q' t = heap_of q t) \<and>
    service q' = rest @ (if heap_of q' (wr_sid r) = [] then [] else [wr_sid r])"
proof -
  obtain s rest where s: "service q = s # rest" "sq_next q = Some s" "s \<in> set (sq_rrList q)" using service_head [OF assms] by blast
  let ?h = "heap_of q s"
  have h: "?h \<noteq> []" "sh.heap_on ?h (length ?h)" "set ?h \<subseteq> in_window b" "\<forall>r \<in> set ?h. wr_sid r = s"
    using assms(1) s(3) by (auto simp: sq_ok_def stream_ok_def)
  have m: "map_of (sq_streams q) s = Some ?h" using assms(1) s(3) by (auto simp: sq_ok_def heap_of_def split: option.splits)
  obtain r h' where pop: "heap_Pop wr_less ?h = (r, h')" by force
  note p = sh.heap_Pop_ok [OF h(2,3,1) pop]
  have r: "r \<in> set ?h" "set h' \<subseteq> set ?h" using p(2) by (metis set_mset_add_mset_insert set_mset_mset insertI1, metis set_mset_add_mset_insert set_mset_mset subset_insertI)
  then have sid: "wr_sid r = s" using h(4) by blast
  define q' where "q' = snd (pop_at s ?h q)"
  have "sq_count q \<noteq> 0"
  proof -
    have "pending q \<noteq> {#}" using pending_split [of q s] assms(1) s(3) h(1) by (simp add: sq_ok_def)
    then show ?thesis using assms(1) by (simp add: sq_ok_def)
  qed
  moreover obtain k where "length (sq_rrList q) = Suc k" using assms(2) by (cases "sq_rrList q") auto
  ultimately have run: "sq_Pop q = Ret (Some r, q')"
    using s(2) m h(1) pop by (simp add: sq_Pop_def q'_def pop_at_def Let_def split: prod.split)
  have d: "distinct (sq_rrList q)" using assms(1) by (simp add: sq_ok_def)
  note mv = service_moved [OF d s(3)]
  have old: "dropWhile (\<lambda>x. x \<noteq> s) (sq_rrList q) @ takeWhile (\<lambda>x. x \<noteq> s) (sq_rrList q) = s # rest"
    using s(1,2) by (simp add: service_def)
  have q'_eq: "q' = (if h' = [] then q\<lparr>sq_streams := AList.delete s (sq_streams q), sq_rrList := remove1 s (sq_rrList q),
        sq_next := (if remove1 s (sq_rrList q) = [] then None else Some (rr_after s (sq_rrList q))), sq_count := sq_count q - 1\<rparr>
      else q\<lparr>sq_streams := AList.update s h' (sq_streams q), sq_next := Some (rr_after s (sq_rrList q)), sq_count := sq_count q - 1\<rparr>)"
    by (simp add: q'_def pop_at_def pop Let_def)
  have heap: "heap_of q' t = (if t = s then h' else heap_of q t)" for t
    by (auto simp: q'_eq heap_of_def update_conv' delete_conv')
  have rr: "sq_rrList q' = (if h' = [] then remove1 s (sq_rrList q) else sq_rrList q)"
    by (simp add: q'_eq)
  have keys: "map_of (sq_streams q') t \<noteq> None \<longleftrightarrow> t \<in> set (sq_rrList q')" for t
    using assms(1) s(3) d by (auto simp: q'_eq sq_ok_def update_conv' delete_conv' set_remove1_eq)
  have nx: "sq_next q' = (if h' = [] \<and> remove1 s (sq_rrList q) = [] then None else Some (rr_after s (sq_rrList q)))"
    by (simp add: q'_eq)
  have rest1: "sum_list (map (\<lambda>t. mset (heap_of q' t)) (remove1 s (sq_rrList q))) =
      sum_list (map (\<lambda>t. mset (heap_of q t)) (remove1 s (sq_rrList q)))"
    by (rule others_same [OF d]) (simp add: heap)
  have pend: "pending q = add_mset r (pending q')"
  proof (cases "h' = []")
    case True
    then have "pending q' = sum_list (map (\<lambda>t. mset (heap_of q t)) (remove1 s (sq_rrList q)))"
      using rest1 by (simp add: pending_def [of q'] rr)
    then show ?thesis using pending_split [OF d s(3)] p(2) True by simp
  next
    case False
    then have "pending q' = mset h' + sum_list (map (\<lambda>t. mset (heap_of q t)) (remove1 s (sq_rrList q)))"
      using rest1 pending_split [of q' s] d s(3) by (simp add: rr heap)
    then show ?thesis using pending_split [OF d s(3)] p(2) by simp
  qed
  have cnt: "sq_count q' = sq_count q - 1" by (simp add: q'_eq)
  have ok: "sq_ok b q'"
    unfolding sq_ok_def
  proof (intro conjI allI ballI)
    show "distinct (sq_rrList q')" using d by (simp add: rr)
    show "stream_ok b t (heap_of q' t)" if "t \<in> set (sq_rrList q')" for t
    proof (cases "t = s")
      case True
      then have "h' \<noteq> []" using that d by (auto simp: rr split: if_splits)
      then show ?thesis using True p(1) r(2) h(3,4) by (auto simp: heap stream_ok_def)
    next
      case False
      then show ?thesis using that assms(1) d by (auto simp: heap sq_ok_def rr set_remove1_eq split: if_splits)
    qed
    show "case sq_next q' of None \<Rightarrow> sq_rrList q' = [] | Some s \<Rightarrow> s \<in> set (sq_rrList q')"
      using mv(2,3) by (auto simp: nx rr)
    show "sq_count q' = int (size (pending q'))" using assms(1) pend cnt by (simp add: sq_ok_def)
  qed (rule keys)
  have "service q' = rest @ (if h' = [] then [] else [s])"
  proof (cases "h' = []")
    case True
    show ?thesis
    proof (cases "remove1 s (sq_rrList q) = []")
      case one: True
      then have "sq_rrList q = [s]" using s(3) by (cases "sq_rrList q") (auto split: if_splits)
      then show ?thesis using True one old by (simp add: service_def nx)
    qed (use True mv(2) old in \<open>simp add: service_def nx rr\<close>)
  qed (use mv(1) old in \<open>simp add: service_def nx rr\<close>)
  then show ?thesis using run ok pend s(1) p(2,3) heap sid by auto
qed

subsection \<open>Runs of the queue\<close>

datatype sop = SPush wreq | SPop

text \<open>What a sequence of calls takes out; an empty queue gives nothing.\<close>

fun sq_run :: "sop list \<Rightarrow> shaper \<Rightarrow> (wreq list \<times> shaper) go" where
  "sq_run [] q = Ret ([], q)"
| "sq_run (SPush r # ops) q = sq_run ops (sq_Push r q)"
| "sq_run (SPop # ops) q =
     go_bind (sq_Pop q) (\<lambda>(r, q1). go_bind (sq_run ops q1) (\<lambda>(out, q2). Ret ((case r of None \<Rightarrow> [] | Some r \<Rightarrow> [r]) @ out, q2)))"

fun pushed :: "sop list \<Rightarrow> wreq list" where
  "pushed [] = []" | "pushed (SPush r # ops) = r # pushed ops" | "pushed (SPop # ops) = pushed ops"

definition of_stream :: "32 word \<Rightarrow> wreq list \<Rightarrow> wreq list" where "of_stream s = filter (\<lambda>r. wr_sid r = s)"

lemma sq_Pop_empty: "sq_ok b q \<Longrightarrow> sq_rrList q = [] \<Longrightarrow> sq_Pop q = Ret (None, q)"
  by (auto simp: sq_ok_def sq_Pop_def split: option.splits)

lemma pending_empty: "sq_ok b q \<Longrightarrow> sq_rrList q = [] \<longleftrightarrow> pending q = {#}"
  using pending_split [of q] by (cases "sq_rrList q") (auto simp: pending_def sq_ok_def stream_ok_def)

lemma sq_run_ok:
  assumes "sq_ok b q" "set (pushed ops) \<subseteq> in_window b"
  shows "\<exists>out q'. sq_run ops q = Ret (out, q') \<and> sq_ok b q' \<and> pending q + mset (pushed ops) = mset out + pending q'"
  using assms
proof (induction ops q rule: sq_run.induct)
  case (2 r ops q)
  then show ?case using sq_Push_ok(1,2) [of b q r] by (auto simp: ac_simps)
next
  case (3 ops q)
  show ?case
  proof (cases "sq_rrList q = []")
    case True
    then show ?thesis using 3(1) [OF 3(2)] 3(3) sq_Pop_empty [OF 3(2) True] by auto
  next
    case False
    obtain r q1 where p: "sq_Pop q = Ret (Some r, q1)" "sq_ok b q1" "pending q = add_mset r (pending q1)"
      using sq_Pop_served [OF 3(2) False] by blast
    then show ?thesis using 3(1) [OF p(2)] 3(3) p by auto
  qed
qed simp

text \<open>
  The queue loses and makes up nothing: whatever is pushed and popped in whatever order, no call
  panics, and the requests taken out are those put in, less those still waiting.
\<close>

theorem requests_conserved:
  assumes "set (pushed ops) \<subseteq> in_window b"
  shows "\<exists>out q. sq_run ops NewShaperQueue = Ret (out, q) \<and> mset (pushed ops) = mset out + pending q \<and> sq_Len q = int (size (pending q))"
  using sq_run_ok [OF NewShaperQueue_ok(1) assms] by (auto simp: sq_ok_def sq_Len_def)

lemma least_first:
  assumes "mset h = mset xs" "sorted_wrt (\<lambda>x y. wr_less x y \<and> \<not> wr_less y x) xs" "r \<in> set h" "\<forall>y \<in> set h. \<not> wr_less y r"
  shows "\<exists>ys. xs = r # ys"
proof (cases xs)
  case (Cons x ys)
  have "set h = set xs" using assms(1) mset_eq_setD by blast
  then show ?thesis using assms(2-4) Cons by auto
qed (use assms in simp)

lemma stream_run_fifo:
  assumes "sq_ok b q" "set (pushed ops) \<subseteq> in_window b" "mset (heap_of q s) = mset xs"
    and "sorted_wrt (\<lambda>x y. wr_less x y \<and> \<not> wr_less y x) (xs @ of_stream s (pushed ops))" "sq_run ops q = Ret (out, q')"
  shows "\<exists>ys. xs @ of_stream s (pushed ops) = of_stream s out @ ys \<and> mset (heap_of q' s) = mset ys"
  using assms
proof (induction ops q arbitrary: xs out rule: sq_run.induct)
  case (1 q)
  then show ?case by (auto simp: of_stream_def)
next
  case (2 r ops q)
  note p = sq_Push_ok [OF 2(2), of r]
  have w: "r \<in> in_window b" "set (pushed ops) \<subseteq> in_window b" using 2(3) by auto
  show ?case
  proof (cases "wr_sid r = s")
    case True
    then show ?thesis using 2(1) [OF p(1) [OF w(1)] w(2), of "xs @ [r]"] 2(4-6) p(4) [OF w(1)] by (simp add: of_stream_def)
  next
    case False
    then show ?thesis using 2(1) [OF p(1) [OF w(1)] w(2), of xs] 2(4-6) p(5) [OF w(1), of s] by (simp add: of_stream_def)
  qed
next
  case (3 ops q)
  show ?case
  proof (cases "sq_rrList q = []")
    case True
    note e = sq_Pop_empty [OF 3(2) True]
    show ?thesis using 3(1) [OF 3(2) _ 3(4)] 3(3,5,6) e by (auto simp: go_bind_Ret_conv split: prod.splits)
  next
    case False
    obtain r q1 where p: "sq_Pop q = Ret (Some r, q1)" "sq_ok b q1" "\<forall>y \<in> set (heap_of q (wr_sid r)). \<not> wr_less y r"
        "mset (heap_of q (wr_sid r)) = add_mset r (mset (heap_of q1 (wr_sid r)))" "\<forall>t. t \<noteq> wr_sid r \<longrightarrow> heap_of q1 t = heap_of q t"
      using sq_Pop_served [OF 3(2) False] by blast
    obtain out1 where o1: "sq_run ops q1 = Ret (out1, q')" "out = r # out1"
      using 3(6) p(1) by (auto simp: go_bind_Ret_conv)
    show ?thesis
    proof (cases "wr_sid r = s")
      case True
      have "r \<in> set (heap_of q s)" using p(4) True by (metis set_mset_mset union_single_eq_member)
      moreover have "sorted_wrt (\<lambda>x y. wr_less x y \<and> \<not> wr_less y x) xs" using 3(5) by (simp add: sorted_wrt_append)
      ultimately obtain ys where ys: "xs = r # ys" using least_first [OF 3(4)] p(3) True by blast
      have "mset (heap_of q1 s) = mset ys" using 3(4) p(4) True ys by simp
      then show ?thesis using 3(1) [OF p(2), of ys out1] 3(3,5) o1 True ys by (simp add: of_stream_def)
    next
      case False
      then show ?thesis using 3(1) [OF p(2), of xs out1] 3(3-5) o1 p(5) by (simp add: of_stream_def)
    qed
  qed
qed

text \<open>
  Each stream keeps its order: when its requests are pushed with rising numbers (which may wrap
  round) and in one class, those taken out are the first ones pushed, in their order, however
  the calls for other streams fall between.
\<close>

theorem stream_order_kept:
  assumes "set (pushed ops) \<subseteq> in_window b" "sorted_wrt (\<lambda>x y. wr_less x y \<and> \<not> wr_less y x) (of_stream s (pushed ops))"
    and "sq_run ops NewShaperQueue = Ret (out, q)"
  shows "prefix (of_stream s out) (of_stream s (pushed ops))"
proof -
  have "mset (heap_of NewShaperQueue s) = mset []" by (simp add: heap_of_def NewShaperQueue_def)
  from stream_run_fifo [OF NewShaperQueue_ok(1) assms(1) this _ assms(3)] assms(2) show ?thesis by (auto simp: prefix_def)
qed

subsection \<open>Who is served when\<close>

lemma service_empty: "sq_ok b q \<Longrightarrow> service q = [] \<longleftrightarrow> sq_rrList q = []"
  using set_service [of b q] by (metis set_empty)

text \<open>
  As long as nothing new comes, the queue is fair: it goes round all streams that have something to
  send, each of them once.
\<close>

theorem one_round_serves_all:
  assumes "sq_ok b q" "n \<le> length (service q)"
  shows "\<exists>out q'. sq_run (replicate n SPop) q = Ret (out, q') \<and> map wr_sid out = take n (service q)"
  using assms
proof (induction n arbitrary: q)
  case (Suc n)
  then have "sq_rrList q \<noteq> []" using service_empty by fastforce
  then obtain r q1 rest where p: "sq_Pop q = Ret (Some r, q1)" "sq_ok b q1" "service q = wr_sid r # rest"
      "service q1 = rest @ (if heap_of q1 (wr_sid r) = [] then [] else [wr_sid r])"
    using sq_Pop_served [OF Suc.prems(1)] by blast
  have "n \<le> length rest" using Suc.prems(2) p(3) by simp
  then show ?case using Suc.IH [OF p(2)] p by auto
qed simp

text \<open>Two streams that push their next request after each one served, and an old request behind them.\<close>

definition data_req :: "32 word \<Rightarrow> nat \<Rightarrow> wreq" where
  "data_req sid n = \<lparr>wr_class = CLSDATA, wr_frame = newFrame 1 cmdPSH sid, wr_seq = word_of_nat n, wr_result = n\<rparr>"

fun churn :: "nat \<Rightarrow> nat \<Rightarrow> sop list" where
  "churn i 0 = []"
| "churn i (Suc n) = SPop # SPush (data_req (if even i then 3 else 5) (4 + i)) # churn (Suc i) n"

definition churned :: "32 word \<Rightarrow> 32 word \<Rightarrow> wreq \<Rightarrow> wreq \<Rightarrow> shaper" where
  "churned u v x y = \<lparr>sq_streams = [(1, [data_req 1 1]), (u, [x]), (v, [y])], sq_rrList = [1, u, v], sq_next = Some u, sq_count = 3\<rparr>"

lemma heap_single [simp]: "heap_Pop lt [x] = (x, [])" "heap_Push lt x [] = [x]"
  by (simp_all add: heap_Pop_def heap_Push_def heap_down.simps heap_up.simps par_def swap_at_def Let_def)

lemma churn_step:
  assumes "distinct [1, u, v]"
  shows "sq_Pop (churned u v x y) = Ret (Some x, snd (pop_at u [x] (churned u v x y)))"
    and "sq_Push (data_req u k) (snd (pop_at u [x] (churned u v x y))) = churned v u y (data_req u k)"
  using assms by (auto simp: churned_def sq_Pop_def pop_at_def rr_after_def sq_Push_def Let_def data_req_def wr_sid_def newFrame_def heap_of_def)

lemma churn_run:
  "\<exists>out x' y' u' v'. sq_run (churn i n) (churned (if even i then 3 else 5) (if even i then 5 else 3) x y) = Ret (out, churned u' v' x' y') \<and>
    length out = n \<and> (wr_sid x \<noteq> 1 \<longrightarrow> wr_sid y \<noteq> 1 \<longrightarrow> (\<forall>r \<in> set out. wr_sid r \<noteq> 1))"
proof (induction n arbitrary: i x y)
  case (Suc n)
  let ?u = "if even i then 3 else 5 :: 32 word" and ?v = "if even i then 5 else 3 :: 32 word"
  have "distinct [1, ?u, ?v]" by simp
  note st = churn_step(1) [OF this, of x y] churn_step(2) [OF this, of "4 + i" x y]
  have "?v = (if even (Suc i) then 3 else 5)" "?u = (if even (Suc i) then 5 else 3)" by auto
  then obtain out x' y' u' v' where r: "sq_run (churn (Suc i) n) (churned ?v ?u y (data_req ?u (4 + i))) = Ret (out, churned u' v' x' y')"
      "length out = n" "wr_sid y \<noteq> 1 \<longrightarrow> wr_sid (data_req ?u (4 + i)) \<noteq> 1 \<longrightarrow> (\<forall>r \<in> set out. wr_sid r \<noteq> 1)"
    using Suc.IH [of "Suc i" y "data_req ?u (4 + i)"] by (simp only:) blast
  have "wr_sid (data_req ?u (4 + i)) \<noteq> 1" by (simp add: wr_sid_def data_req_def newFrame_def)
  then have "sq_run (churn i (Suc n)) (churned ?u ?v x y) = Ret (x # out, churned u' v' x' y') \<and> length (x # out) = Suc n \<and>
      (wr_sid x \<noteq> 1 \<longrightarrow> wr_sid y \<noteq> 1 \<longrightarrow> (\<forall>r \<in> set (x # out). wr_sid r \<noteq> 1))"
    using r st by simp
  then show ?case by blast
qed auto

text \<open>
  C33. New work starves old work: a stream that joins goes to the end of the list, before the pointer
  comes round to the front.  With two streams that have one request at a time, and push the next
  one as soon as one is served, the second request of a third stream is never served, however many
  are: it was there first.
\<close>

theorem new_work_starves_old:
  "\<exists>out q. sq_run ([SPush (data_req 1 0), SPush (data_req 1 1), SPush (data_req 3 2), SPush (data_req 5 3), SPop] @ churn 0 n) NewShaperQueue = Ret (out, q) \<and>
    length out = n + 1 \<and> data_req 1 1 \<notin> set out \<and> data_req 1 1 \<in># pending q"
proof -
  have push2: "heap_Push wr_less (data_req 1 (Suc 0)) [data_req 1 0] = [data_req 1 0, data_req 1 (Suc 0)]"
    by (simp add: heap_Push_def heap_up.simps par_def wr_less_def data_req_def itimediff_def)
  have pop2: "heap_Pop wr_less [data_req 1 0, data_req 1 (Suc 0)] = (data_req 1 0, [data_req 1 (Suc 0)])"
    by (simp add: heap_Pop_def heap_down.simps swap_at_def)
  have sids: "wr_sid (data_req s k) = s" for s k by (simp add: wr_sid_def data_req_def newFrame_def)
  have start: "sq_run ([SPush (data_req 1 0), SPush (data_req 1 1), SPush (data_req 3 2), SPush (data_req 5 3), SPop] @ ops) NewShaperQueue =
      go_bind (sq_run ops (churned 3 5 (data_req 3 2) (data_req 5 3))) (\<lambda>(out, q). Ret (data_req 1 0 # out, q))" for ops
    by (simp add: NewShaperQueue_def sq_Push_def sq_Pop_def pop_at_def rr_after_def heap_of_def sids push2 pop2 churned_def Let_def split: prod.splits)
  have "data_req 1 1 \<in># pending (churned u v x y)" for u v x y by (simp add: pending_def churned_def heap_of_def)
  moreover have "data_req 1 1 \<noteq> data_req 1 0" by (simp add: data_req_def)
  moreover obtain out x' y' u' v' where "sq_run (churn 0 n) (churned 3 5 (data_req 3 2) (data_req 5 3)) = Ret (out, churned u' v' x' y')"
      "length out = n" "\<forall>r \<in> set out. wr_sid r \<noteq> 1"
    using churn_run [of 0 n "data_req 3 2" "data_req 5 3"] sids by auto
  ultimately show ?thesis using sids start by fastforce
qed

subsection \<open>Instances of the properties\<close>

definition toy_ops :: "sop list" where
  "toy_ops = [SPush (data_req 3 1), SPush (data_req 3 2), SPush (data_req 5 3), SPop, SPop, SPop]"

lemma toy_ops_window: "set (pushed toy_ops) \<subseteq> in_window 0"
  by (simp add: toy_ops_def in_window_def data_req_def)

lemma requests_conserved_witness:
  "\<exists>out q. sq_run toy_ops NewShaperQueue = Ret (out, q) \<and> {#data_req 3 1, data_req 3 2, data_req 5 3#} = mset out + pending q"
  using requests_conserved [OF toy_ops_window] by (auto simp: toy_ops_def)

lemma stream_order_kept_witness:
  "\<exists>out q. sq_run toy_ops NewShaperQueue = Ret (out, q) \<and> prefix (of_stream 3 out) [data_req 3 1, data_req 3 2]"
proof -
  have st: "of_stream 3 (pushed toy_ops) = [data_req 3 1, data_req 3 2]"
    by (simp add: toy_ops_def of_stream_def wr_sid_def data_req_def newFrame_def)
  have ord: "sorted_wrt (\<lambda>x y. wr_less x y \<and> \<not> wr_less y x) (of_stream 3 (pushed toy_ops))"
    unfolding st by (simp add: wr_less_def data_req_def itimediff_def)
  obtain out q where run: "sq_run toy_ops NewShaperQueue = Ret (out, q)"
    using sq_run_ok [OF NewShaperQueue_ok(1) toy_ops_window] by blast
  from stream_order_kept [OF toy_ops_window ord run] run show ?thesis unfolding st by blast
qed

lemma one_round_serves_all_witness:
  "\<exists>out q'. sq_run [SPop, SPop] (churned 3 5 (data_req 3 2) (data_req 5 3)) = Ret (out, q') \<and> map wr_sid out = [3, 5]"
proof -
  let ?q = "churned 3 5 (data_req 3 2) (data_req 5 3)"
  have "sq_ok 0 ?q"
    by (auto simp: sq_ok_def churned_def stream_ok_def heap_of_def pending_def sh.heap_on_def in_window_def data_req_def wr_sid_def newFrame_def)
  moreover have "service ?q = [3, 5, 1]" by (simp add: service_def churned_def)
  ultimately show ?thesis using one_round_serves_all [of 0 ?q 2] by (simp add: numeral_2_eq_2)
qed

end
