(* ===== verification/Smux_Session.thy ===== *)
theory Smux_Session
  imports Smux_Shaper Smux_Alloc
begin

text \<open>
  Sessions and streams of the multiplexer, \<open>session.go\<close> and \<open>stream.go\<close> of \<open>src/third_party/smux\<close>, in
  version 1 of the protocol, the one the program runs.  A stream is an object with an address, since
  a reader may still hold one that the session has forgotten.  Where the code selects between
  channels, the model gives the list of the outcomes that are ready; what becomes of a request to
  write is a parameter.  The slices of a received frame are its bytes.
\<close>

subsection \<open>State\<close>

record mstream =
  xm_id :: "32 word"
  xm_buffers :: "bytes list"
  xm_wakeup :: bool
  xm_die :: bool
  xm_fin :: bool
  xm_numWritten :: "32 word"

definition newStream :: "32 word \<Rightarrow> mstream" where
  "newStream i = \<lparr>xm_id = i, xm_buffers = [], xm_wakeup = False, xm_die = False, xm_fin = False, xm_numWritten = 0\<rparr>"

record msession =
  xs_version :: byte
  xs_frameSize :: nat
  xs_goAway :: bool
  xs_nextStreamID :: "32 word"
  xs_bucket :: int
  xs_notified :: bool
  xs_objs :: "mstream list"
  xs_streams :: "(32 word \<times> nat) list"
  xs_accepts :: "nat list"
  xs_die :: bool
  xs_readError :: "goerr option"
  xs_writeError :: "goerr option"
  xs_protoError :: "goerr option"
  xs_active :: bool
  xs_requestID :: "32 word"
  xs_requests :: "wreq list"

definition newSession :: "byte \<Rightarrow> nat \<Rightarrow> int \<Rightarrow> bool \<Rightarrow> msession" where
  "newSession version frameSize maxReceiveBuffer client =
     \<lparr>xs_version = version, xs_frameSize = frameSize, xs_goAway = False, xs_nextStreamID = (if client then 1 else 0),
      xs_bucket = maxReceiveBuffer, xs_notified = False, xs_objs = [], xs_streams = [], xs_accepts = [], xs_die = False,
      xs_readError = None, xs_writeError = None, xs_protoError = None, xs_active = False, xs_requestID = 0, xs_requests = []\<rparr>"

definition set_obj :: "nat \<Rightarrow> (mstream \<Rightarrow> mstream) \<Rightarrow> msession \<Rightarrow> msession" where
  "set_obj k f s = s\<lparr>xs_objs := (xs_objs s)[k := f (xs_objs s ! k)]\<rparr>"

definition wakeupReader :: "mstream \<Rightarrow> mstream" where "wakeupReader t = t\<lparr>xm_wakeup := True\<rparr>"
definition notifyBucket :: "msession \<Rightarrow> msession" where "notifyBucket s = s\<lparr>xs_notified := True\<rparr>"

definition first_error :: "goerr \<Rightarrow> goerr option \<Rightarrow> goerr option" where
  "first_error e o1 = (case o1 of None \<Rightarrow> Some e | Some e' \<Rightarrow> Some e')"

definition notifyReadError :: "goerr \<Rightarrow> msession \<Rightarrow> msession" where
  "notifyReadError e s = s\<lparr>xs_readError := first_error e (xs_readError s)\<rparr>"
definition notifyWriteError :: "goerr \<Rightarrow> msession \<Rightarrow> msession" where
  "notifyWriteError e s = s\<lparr>xs_writeError := first_error e (xs_writeError s)\<rparr>"
definition notifyProtoError :: "goerr \<Rightarrow> msession \<Rightarrow> msession" where
  "notifyProtoError e s = s\<lparr>xs_protoError := first_error e (xs_protoError s)\<rparr>"

definition IsClosed :: "msession \<Rightarrow> bool" where "IsClosed s \<longleftrightarrow> xs_die s"

definition NumStreams :: "msession \<Rightarrow> nat" where
  "NumStreams s = (if IsClosed s then 0 else length (xs_streams s))"

subsection \<open>Tokens\<close>

definition returnTokens :: "nat \<Rightarrow> msession \<Rightarrow> msession" where
  "returnTokens n s = (let s1 = s\<lparr>xs_bucket := xs_bucket s + int n\<rparr> in if 0 < xs_bucket s1 then notifyBucket s1 else s1)"

definition unread :: "mstream \<Rightarrow> bytes" where "unread t = concat (xm_buffers t)"

definition recycleTokens :: "mstream \<Rightarrow> nat \<times> mstream" where
  "recycleTokens t = (sum_list (map length (xm_buffers t)), t\<lparr>xm_buffers := []\<rparr>)"

text \<open>Forgetting a stream: what it takes out of the session, and giving its tokens back.\<close>

definition forget_stream :: "32 word \<Rightarrow> msession \<Rightarrow> nat \<times> msession" where
  "forget_stream sid s =
     (case map_of (xs_streams s) sid of
        None \<Rightarrow> (0, s)
      | Some k \<Rightarrow> let (n, t) = recycleTokens (xs_objs s ! k) in
          (n, set_obj k (\<lambda>_. t) s\<lparr>xs_streams := AList.delete sid (xs_streams s)\<rparr>))"

definition streamClosed :: "32 word \<Rightarrow> msession \<Rightarrow> msession" where
  "streamClosed sid s = (let (n, s1) = forget_stream sid s in if 0 < n then returnTokens n s1 else s1)"

subsection \<open>Writing\<close>

text \<open>
  \<open>mi_taken k\<close>: the k-th request gets into the queue; \<open>mi_result k\<close>: the bytes and the error its
  caller is given, be it by the loop that sends, by the end of the session or by a deadline.
\<close>

record mux_io =
  mi_taken :: "nat \<Rightarrow> bool"
  mi_result :: "nat \<Rightarrow> nat \<times> goerr option"

definition writeFrameInternal :: "mux_io \<Rightarrow> frame \<Rightarrow> class_id \<Rightarrow> msession \<Rightarrow> (nat \<times> goerr option) \<times> msession" where
  "writeFrameInternal E f class s =
     (let n = length (xs_requests s);
          req = \<lparr>wr_class = class, wr_frame = f, wr_seq = xs_requestID s + 1, wr_result = n\<rparr>;
          s1 = s\<lparr>xs_requestID := xs_requestID s + 1\<rparr>
      in if class = CLSCTRL \<or> mi_taken E n then (mi_result E n, s1\<lparr>xs_requests := xs_requests s @ [req]\<rparr>)
         else ((0, snd (mi_result E n)), s1))"

definition writeControlFrame :: "mux_io \<Rightarrow> frame \<Rightarrow> msession \<Rightarrow> (nat \<times> goerr option) \<times> msession" where
  "writeControlFrame E f s = writeFrameInternal E f CLSCTRL s"

definition ErrGoAway :: goerr where "ErrGoAway = GoErr ''stream id overflows, should start a new connection''"

text \<open>The stream is registered only after the other end may have answered.\<close>

definition register_stream :: "32 word \<Rightarrow> msession \<Rightarrow> (goerr + nat) \<times> msession" where
  "register_stream sid s =
     (case xs_readError s of Some e \<Rightarrow> (Inl e, s)
      | None \<Rightarrow> (case xs_writeError s of Some e \<Rightarrow> (Inl e, s)
        | None \<Rightarrow> if xs_die s then (Inl ErrClosed, s)
            else (Inr (length (xs_objs s)),
              s\<lparr>xs_objs := xs_objs s @ [newStream sid], xs_streams := AList.update sid (length (xs_objs s)) (xs_streams s)\<rparr>)))"

definition next_sid :: "msession \<Rightarrow> (goerr + 32 word) \<times> msession" where
  "next_sid s =
     (if IsClosed s then (Inl ErrClosed, s)
      else if xs_goAway s then (Inl ErrGoAway, s)
      else if xs_nextStreamID s + 2 < xs_nextStreamID s then (Inl ErrGoAway, s\<lparr>xs_goAway := True\<rparr>)
      else (Inr (xs_nextStreamID s + 2), s\<lparr>xs_nextStreamID := xs_nextStreamID s + 2\<rparr>))"

definition OpenStream :: "mux_io \<Rightarrow> msession \<Rightarrow> (goerr + nat) \<times> msession" where
  "OpenStream E s =
     (case next_sid s of
        (Inl e, s1) \<Rightarrow> (Inl e, s1)
      | (Inr sid, s1) \<Rightarrow>
          (case writeControlFrame E (newFrame (xs_version s1) cmdSYN sid) s1 of
             ((_, Some e), s2) \<Rightarrow> (Inl e, s2)
           | ((_, None), s2) \<Rightarrow> register_stream sid s2))"

text \<open>
  Splitting what is written into frames; the first frame of a stream is a control frame.  A frame size
  of zero, with which the loop would not end, does not pass the check of the configuration.
\<close>

function write_loop :: "mux_io \<Rightarrow> nat \<Rightarrow> bytes \<Rightarrow> nat \<Rightarrow> msession \<Rightarrow> (nat \<times> goerr option) \<times> msession" where
  "write_loop E k b sent s =
     (if b = [] \<or> xs_frameSize s = 0 then ((sent, None), s)
      else
        let sz = min (length b) (xs_frameSize s); t = xs_objs s ! k;
            class = (if xm_numWritten t = 0 then CLSCTRL else CLSDATA);
            ((n, err), s1) = writeFrameInternal E ((newFrame (xs_version s) cmdPSH (xm_id t))\<lparr>fr_data := take sz b\<rparr>) class s;
            s2 = set_obj k (\<lambda>t. t\<lparr>xm_numWritten := xm_numWritten t + word_of_nat sz\<rparr>) s1
        in case err of
          Some e \<Rightarrow> ((sent + n, Some e), s2)
        | None \<Rightarrow> write_loop E k (drop sz b) (sent + n) s2)"
  by pat_completeness auto
termination
  by (relation "measure (\<lambda>(E, k, b, sent, s). length b)") auto

declare write_loop.simps [simp del]

definition stream_Write :: "mux_io \<Rightarrow> nat \<Rightarrow> bytes \<Rightarrow> msession \<Rightarrow> (nat \<times> goerr option) \<times> msession" where
  "stream_Write E k b s =
     (let t = xs_objs s ! k in
      if b = [] then ((0, None), s)
      else if xm_fin t then ((0, Some EOF), s)
      else if xm_die t then ((0, Some ErrClosed), s)
      else write_loop E k b 0 s)"

definition stream_Close :: "mux_io \<Rightarrow> nat \<Rightarrow> msession \<Rightarrow> goerr option \<times> msession" where
  "stream_Close E k s =
     (let t = xs_objs s ! k in
      if xm_die t then (Some ErrClosed, s)
      else
        let s1 = set_obj k (\<lambda>t. t\<lparr>xm_die := True\<rparr>) s;
            ((_, err), s2) = writeFrameInternal E (newFrame (xs_version s) cmdFIN (xm_id t)) CLSDATA s1
        in (err, streamClosed (xm_id t) s2))"

definition session_Close :: "msession \<Rightarrow> goerr option \<times> msession" where
  "session_Close s =
     (if xs_die s then (Some ErrClosed, s)
      else (None, s\<lparr>xs_die := True, xs_objs := map (\<lambda>k. if k \<in> snd ` set (xs_streams s) then (xs_objs s ! k)\<lparr>xm_die := True\<rparr> else xs_objs s ! k) [0..<length (xs_objs s)]\<rparr>))"

subsection \<open>Reading\<close>

definition ErrWouldBlock :: goerr where "ErrWouldBlock = GoErr ''operation would block on IO''"

text \<open>Taking bytes out of the first buffer, and giving back the tokens.\<close>

definition take_bytes :: "nat \<Rightarrow> mstream \<Rightarrow> bytes \<times> mstream" where
  "take_bytes len t =
     (case xm_buffers t of
        [] \<Rightarrow> ([], t)
      | b # bs \<Rightarrow> let n = min len (length b) in
          (take n b, t\<lparr>xm_buffers := (if drop n b = [] then bs else drop n b # bs)\<rparr>))"

definition tryReadV1 :: "nat \<Rightarrow> nat \<Rightarrow> msession \<Rightarrow> (bytes \<times> goerr option) \<times> msession" where
  "tryReadV1 k len s =
     (if len = 0 then (([], None), s)
      else
        let (bs, t) = take_bytes len (xs_objs s ! k); s1 = set_obj k (\<lambda>_. t) s in
        if bs \<noteq> [] then ((bs, None), returnTokens (length bs) s1)
        else (([], Some (if xm_die t then EOF else ErrWouldBlock)), s1))"

text \<open>\<open>WriteTo\<close>: one buffer is handed to the writer; \<open>nw\<close> bytes and an error are what it answers.\<close>

definition write_to_round :: "nat \<Rightarrow> nat \<Rightarrow> msession \<Rightarrow> (bytes option \<times> nat) \<times> msession" where
  "write_to_round k nw s =
     (let t = xs_objs s ! k in
      case xm_buffers t of
        [] \<Rightarrow> ((None, 0), s)
      | b # bs \<Rightarrow> ((Some b, nw), returnTokens (length b) (set_obj k (\<lambda>t. t\<lparr>xm_buffers := bs\<rparr>) s)))"

text \<open>What waiting for data can end with: nothing (try again) or an error; the empty list blocks.\<close>

definition waitRead :: "bool \<Rightarrow> nat \<Rightarrow> msession \<Rightarrow> goerr option list" where
  "waitRead deadline k s =
     (let t = xs_objs s ! k in
      (if xm_wakeup t then [None] else []) @
      (if xm_fin t then [if xm_buffers t \<noteq> [] then None else Some EOF] else []) @
      (case xs_readError s of None \<Rightarrow> [] | Some e \<Rightarrow> [Some e]) @
      (case xs_protoError s of None \<Rightarrow> [] | Some e \<Rightarrow> [Some e]) @
      (if deadline then [Some ErrTimeout] else []) @
      (if xm_die t then [Some ErrClosed] else []))"

definition AcceptStream :: "bool \<Rightarrow> msession \<Rightarrow> (goerr + nat) list" where
  "AcceptStream deadline s =
     (case xs_accepts s of [] \<Rightarrow> [] | k # _ \<Rightarrow> [Inr k]) @ (if deadline then [Inl ErrTimeout] else []) @
     (case xs_readError s of None \<Rightarrow> [] | Some e \<Rightarrow> [Inl e]) @ (case xs_protoError s of None \<Rightarrow> [] | Some e \<Rightarrow> [Inl e]) @
     (if xs_die s then [Inl ErrClosed] else [])"

subsection \<open>Receiving\<close>

definition pushBytes :: "bytes \<Rightarrow> mstream \<Rightarrow> mstream" where "pushBytes b t = t\<lparr>xm_buffers := xm_buffers t @ [b]\<rparr>"

text \<open>A push, and the deduction of its tokens.\<close>

definition recv_push :: "32 word \<Rightarrow> bytes \<Rightarrow> msession \<Rightarrow> nat \<times> msession" where
  "recv_push sid b s = (case map_of (xs_streams s) sid of None \<Rightarrow> (0, s) | Some k \<Rightarrow> (length b, set_obj k (pushBytes b) s))"

definition recv_deduct :: "32 word \<Rightarrow> nat \<Rightarrow> msession \<Rightarrow> msession" where
  "recv_deduct sid n s = (case map_of (xs_streams s) sid of None \<Rightarrow> s | Some k \<Rightarrow> set_obj k wakeupReader (s\<lparr>xs_bucket := xs_bucket s - int n\<rparr>))"

text \<open>A new stream is registered and handed over, for which the queue of those to be accepted must have room.\<close>

definition defaultAcceptBacklog :: nat where "defaultAcceptBacklog = 1024"

definition recv_syn :: "32 word \<Rightarrow> msession \<Rightarrow> msession" where
  "recv_syn sid s =
     (if map_of (xs_streams s) sid = None then
        let k = length (xs_objs s) in
        s\<lparr>xs_objs := xs_objs s @ [newStream sid], xs_streams := AList.update sid k (xs_streams s),
          xs_accepts := (if length (xs_accepts s) < defaultAcceptBacklog then xs_accepts s @ [k] else xs_accepts s)\<rparr>
      else s)"

definition recv_event :: "event \<Rightarrow> msession \<Rightarrow> msession" where
  "recv_event ev s =
     (case ev of
        EvNOP \<Rightarrow> s
      | EvSYN sid \<Rightarrow> recv_syn sid s
      | EvFIN sid \<Rightarrow> (case map_of (xs_streams s) sid of None \<Rightarrow> s | Some k \<Rightarrow> set_obj k (\<lambda>t. t\<lparr>xm_fin := True\<rparr>) s)
      | EvPSH sid b \<Rightarrow> (let (n, s1) = recv_push sid b s in recv_deduct sid n s1)
      | EvUPD _ _ _ \<Rightarrow> s)"

text \<open>
  A round of the loop: it waits while there are no tokens; otherwise it reads a frame, or returns.
  In \<open>RFull\<close> it is blocked with a new stream in hand, until a stream is accepted or the session ends.
\<close>

datatype round = RWaits | RReturns msession | RGoes msession bytes | RFull msession bytes

definition no_room :: "event \<Rightarrow> msession \<Rightarrow> bool" where
  "no_room ev s \<longleftrightarrow> (case ev of EvSYN sid \<Rightarrow> map_of (xs_streams s) sid = None \<and> defaultAcceptBacklog \<le> length (xs_accepts s) \<and> \<not> xs_die s | _ \<Rightarrow> False)"

definition recv_round :: "bytes \<Rightarrow> msession \<Rightarrow> round" where
  "recv_round bs s =
     (if xs_bucket s \<le> 0 \<and> \<not> IsClosed s then RWaits
      else case recv_frame (xs_version s) bs of
        ReadErr e \<Rightarrow> RReturns (notifyReadError e s)
      | ProtoErr e \<Rightarrow> RReturns (notifyProtoError e (s\<lparr>xs_active := True\<rparr>))
      | Frame ev rest \<Rightarrow> (if no_room ev s then RFull else RGoes) (recv_event ev (s\<lparr>xs_active := True\<rparr>)) rest)"

text \<open>The tick of the timeout: a session that heard nothing is closed, unless it has no tokens.\<close>

definition timeout_tick :: "msession \<Rightarrow> msession" where
  "timeout_tick s =
     (if xs_active s then s\<lparr>xs_active := False\<rparr>
      else if 0 < xs_bucket s then snd (session_Close s) else s)"

definition ping_tick :: "mux_io \<Rightarrow> msession \<Rightarrow> msession" where
  "ping_tick E s = notifyBucket (snd (writeFrameInternal E (newFrame (xs_version s) cmdNOP 0) CLSCTRL s))"

subsection \<open>Tokens are conserved\<close>

text \<open>
  The loop that receives, the readers and those who close run side by side.  Their atomic steps: the
  loop looks at the bucket, pushes a frame, then deducts its tokens; a reader takes bytes out, then
  returns their tokens; who closes empties a stream, then returns its tokens.  A stream is not
  closed between a push and its deduction, which happen under the lock of the streams.  The loop
  also leaves its wait with an empty bucket once the session is closed, and goes on to read until
  the connection is closed too; \<open>mr_late\<close> counts the frames it begins to read that way.
\<close>

datatype rpc = PCheck | PRead | POwes "32 word" nat

record mrun =
  mr_s :: msession
  mr_returning :: "nat list"
  mr_pc :: rpc
  mr_late :: nat

definition unread_total :: "msession \<Rightarrow> nat" where "unread_total s = sum_list (map (length \<circ> unread) (xs_objs s))"

inductive tok_step :: "mrun \<Rightarrow> mrun \<Rightarrow> bool" where
  check: "mr_pc r = PCheck \<Longrightarrow> 0 < xs_bucket (mr_s r) \<Longrightarrow> tok_step r (r\<lparr>mr_pc := PRead\<rparr>)"
| check_closed: "mr_pc r = PCheck \<Longrightarrow> xs_bucket (mr_s r) \<le> 0 \<Longrightarrow> xs_die (mr_s r) \<Longrightarrow> tok_step r (r\<lparr>mr_pc := PRead, mr_late := mr_late r + 1\<rparr>)"
| other_frame: "mr_pc r = PRead \<Longrightarrow> (\<And>i b. ev \<noteq> EvPSH i b) \<Longrightarrow> tok_step r (r\<lparr>mr_s := recv_event ev (mr_s r), mr_pc := PCheck\<rparr>)"
| push: "mr_pc r = PRead \<Longrightarrow> length b \<le> 65535 \<Longrightarrow> recv_push sid b (mr_s r) = (n, s1) \<Longrightarrow>
    tok_step r (r\<lparr>mr_s := s1, mr_pc := (if map_of (xs_streams (mr_s r)) sid = None then PCheck else POwes sid n)\<rparr>)"
| deduct: "mr_pc r = POwes sid n \<Longrightarrow> tok_step r (r\<lparr>mr_s := recv_deduct sid n (mr_s r), mr_pc := PCheck\<rparr>)"
| take: "k < length (xs_objs (mr_s r)) \<Longrightarrow> take_bytes len (xs_objs (mr_s r) ! k) = (bs, t) \<Longrightarrow>
    tok_step r (r\<lparr>mr_s := set_obj k (\<lambda>_. t) (mr_s r), mr_returning := length bs # mr_returning r\<rparr>)"
| give: "n \<in> set (mr_returning r) \<Longrightarrow> tok_step r (r\<lparr>mr_s := returnTokens n (mr_s r), mr_returning := remove1 n (mr_returning r)\<rparr>)"
| forget: "(\<And>sid n. mr_pc r \<noteq> POwes sid n) \<Longrightarrow> forget_stream sid' (mr_s r) = (n, s1) \<Longrightarrow>
    tok_step r (r\<lparr>mr_s := s1, mr_returning := n # mr_returning r\<rparr>)"
| opened: "(\<And>sid n. mr_pc r \<noteq> POwes sid n) \<Longrightarrow> tok_step r (r\<lparr>mr_s := snd (register_stream sid' (mr_s r))\<rparr>)"
| closing: "tok_step r (r\<lparr>mr_s := (mr_s r)\<lparr>xs_die := True\<rparr>\<rparr>)"
| elsewhere: "xs_die s1 = xs_die (mr_s r) \<Longrightarrow> xs_bucket s1 = xs_bucket (mr_s r) \<Longrightarrow> xs_streams s1 = xs_streams (mr_s r) \<Longrightarrow>
    map xm_buffers (xs_objs s1) = map xm_buffers (xs_objs (mr_s r)) \<Longrightarrow> tok_step r (r\<lparr>mr_s := s1\<rparr>)"

inductive tok_reach :: "msession \<Rightarrow> mrun \<Rightarrow> bool" for s0 where
  start: "tok_reach s0 \<lparr>mr_s = s0, mr_returning = [], mr_pc = PCheck, mr_late = 0\<rparr>"
| step: "tok_reach s0 r \<Longrightarrow> tok_step r r' \<Longrightarrow> tok_reach s0 r'"

definition owed :: "rpc \<Rightarrow> nat" where "owed pc = (case pc of POwes _ n \<Rightarrow> n | _ \<Rightarrow> 0)"

definition mapped_ok :: "msession \<Rightarrow> bool" where
  "mapped_ok s \<longleftrightarrow> (\<forall>sid k. map_of (xs_streams s) sid = Some k \<longrightarrow> k < length (xs_objs s))"

definition tok_inv :: "int \<Rightarrow> mrun \<Rightarrow> bool" where
  "tok_inv mx r \<longleftrightarrow> mapped_ok (mr_s r) \<and>
     xs_bucket (mr_s r) + int (unread_total (mr_s r)) + int (sum_list (mr_returning r)) - int (owed (mr_pc r)) = mx \<and>
     (mr_late r = 0 \<or> xs_die (mr_s r)) \<and>
     (case mr_pc r of PCheck \<Rightarrow> - 65535 * (1 + int (mr_late r)) < xs_bucket (mr_s r)
      | PRead \<Rightarrow> - 65535 * int (mr_late r) < xs_bucket (mr_s r)
      | POwes sid n \<Rightarrow> - 65535 * int (mr_late r) < xs_bucket (mr_s r) \<and> n \<le> 65535 \<and> map_of (xs_streams (mr_s r)) sid \<noteq> None)"

lemma unread_total_set:
  assumes "k < length (xs_objs s)"
  shows "unread_total (set_obj k f s) + length (unread (xs_objs s ! k)) = unread_total s + length (unread (f (xs_objs s ! k)))"
proof -
  have "sum_list ((map (length \<circ> unread) (xs_objs s))[k := x]) + length (unread (xs_objs s ! k)) = sum_list (map (length \<circ> unread) (xs_objs s)) + x" for x
    using assms sum_list_update [of k "map (length \<circ> unread) (xs_objs s)" x] elem_le_sum_list [of k "map (length \<circ> unread) (xs_objs s)"] by simp
  then show ?thesis by (simp add: unread_total_def set_obj_def map_update)
qed

lemma set_obj_simps [simp]:
  "xs_bucket (set_obj k f s) = xs_bucket s" "xs_streams (set_obj k f s) = xs_streams s" "length (xs_objs (set_obj k f s)) = length (xs_objs s)"
  "xs_version (set_obj k f s) = xs_version s" "xs_die (set_obj k f s) = xs_die s"
  by (simp_all add: set_obj_def)

lemma unread_new [simp]: "unread (newStream i) = []" by (simp add: unread_def newStream_def)

lemma take_bytes_unread: "take_bytes len t = (bs, t') \<Longrightarrow> unread t = bs @ unread t' \<and> xm_id t' = xm_id t"
proof (cases "xm_buffers t")
  case (Cons b bss)
  define n where "n = min len (length b)"
  have "b = take n b @ drop n b" by simp
  moreover assume "take_bytes len t = (bs, t')"
  ultimately show ?thesis using Cons
    by (cases "drop n b = []") (auto simp: take_bytes_def unread_def Let_def simp flip: n_def)
qed (auto simp: take_bytes_def unread_def)

lemma recycle_unread: "recycleTokens t = (n, t') \<Longrightarrow> n = length (unread t) \<and> unread t' = []"
  by (auto simp: recycleTokens_def unread_def length_concat)

lemma recv_syn_keeps:
  assumes "mapped_ok s"
  shows "unread_total (recv_syn sid s) = unread_total s" "xs_bucket (recv_syn sid s) = xs_bucket s" "mapped_ok (recv_syn sid s)"
  using assms by (auto simp: recv_syn_def Let_def unread_total_def mapped_ok_def update_conv' intro: less_SucI)

lemma set_fin_keeps:
  assumes "mapped_ok s" "k < length (xs_objs s)"
  shows "unread_total (set_obj k (\<lambda>t. t\<lparr>xm_fin := True\<rparr>) s) = unread_total s" "mapped_ok (set_obj k (\<lambda>t. t\<lparr>xm_fin := True\<rparr>) s)"
  using assms(1) unread_total_set [OF assms(2), of "\<lambda>t. t\<lparr>xm_fin := True\<rparr>"] by (simp_all add: unread_def mapped_ok_def)

lemma other_event_keeps:
  assumes "\<And>i b. ev \<noteq> EvPSH i b" "mapped_ok s"
  shows "unread_total (recv_event ev s) = unread_total s \<and> xs_bucket (recv_event ev s) = xs_bucket s \<and> mapped_ok (recv_event ev s)"
proof (cases ev)
  case (EvFIN sid)
  then show ?thesis
  proof (cases "map_of (xs_streams s) sid")
    case (Some k)
    then have "k < length (xs_objs s)" using assms(2) by (simp add: mapped_ok_def)
    then show ?thesis using set_fin_keeps [OF assms(2)] EvFIN Some by (simp add: recv_event_def)
  qed (use assms(2) in \<open>simp add: recv_event_def\<close>)
qed (use assms recv_syn_keeps [OF assms(2)] in \<open>simp_all add: recv_event_def\<close>)

lemma die_kept [simp]:
  "xs_die (recv_event ev s) = xs_die s" "xs_die (snd (register_stream sid s)) = xs_die s"
  "xs_die (snd (forget_stream sid s)) = xs_die s" "xs_die (returnTokens n s) = xs_die s"
  "xs_die (snd (recv_push sid b s)) = xs_die s" "xs_die (recv_deduct sid n s) = xs_die s"
  by (auto simp: recv_event_def recv_syn_def recv_push_def recv_deduct_def register_stream_def forget_stream_def returnTokens_def
      notifyBucket_def Let_def split: event.split option.split prod.split)

lemma tok_step_inv:
  assumes "tok_step r r'" "tok_inv mx r"
  shows "tok_inv mx r'"
  using assms
proof (cases rule: tok_step.cases)
  case (other_frame ev)
  then show ?thesis using assms(2) other_event_keeps [OF other_frame(3), of "mr_s r"] by (simp add: tok_inv_def owed_def)
next
  case (push b sid n s1)
  show ?thesis
  proof (cases "map_of (xs_streams (mr_s r)) sid")
    case (Some k)
    then have k: "k < length (xs_objs (mr_s r))" using assms(2) by (simp add: tok_inv_def mapped_ok_def)
    then show ?thesis using Some push assms(2) unread_total_set [OF k, of "pushBytes b"]
      by (auto simp: tok_inv_def recv_push_def owed_def mapped_ok_def pushBytes_def unread_def)
  qed (use push assms(2) in \<open>simp add: tok_inv_def recv_push_def owed_def\<close>)
next
  case (deduct sid n)
  then obtain k where k: "map_of (xs_streams (mr_s r)) sid = Some k" "k < length (xs_objs (mr_s r))"
    using assms(2) by (auto simp: tok_inv_def mapped_ok_def)
  let ?s = "(mr_s r)\<lparr>xs_bucket := xs_bucket (mr_s r) - int n\<rparr>"
  have "k < length (xs_objs ?s)" using k by simp
  from unread_total_set [OF this, of wakeupReader] show ?thesis using deduct k assms(2)
    by (simp add: tok_inv_def recv_deduct_def owed_def mapped_ok_def wakeupReader_def unread_def) (simp add: unread_total_def)
next
  case (take k len bs t)
  then show ?thesis using assms(2) unread_total_set [OF take(2), of "\<lambda>_. t"] take_bytes_unread [OF take(3)]
    by (auto simp: tok_inv_def mapped_ok_def split: rpc.splits)
next
  case (give n)
  then have "sum_list (mr_returning r) = n + sum_list (remove1 n (mr_returning r))" by (simp add: sum_list_map_remove1 [of n _ id, simplified])
  then show ?thesis using give assms(2)
    by (auto simp: tok_inv_def returnTokens_def notifyBucket_def Let_def mapped_ok_def unread_total_def split: rpc.splits)
next
  case (forget sid' n s1)
  have ow: "owed (mr_pc r) = 0" using forget(2) by (simp add: owed_def split: rpc.split)
  show ?thesis
  proof (cases "map_of (xs_streams (mr_s r)) sid'")
    case (Some k)
    then have k: "k < length (xs_objs (mr_s r))" using assms(2) by (simp add: tok_inv_def mapped_ok_def)
    obtain n' t where rt: "recycleTokens (xs_objs (mr_s r) ! k) = (n', t)" by force
    have s1: "n = n'" "s1 = set_obj k (\<lambda>_. t) (mr_s r)\<lparr>xs_streams := AList.delete sid' (xs_streams (mr_s r))\<rparr>"
      using forget(3) Some rt by (simp_all add: forget_stream_def)
    have "unread_total s1 + n = unread_total (mr_s r)"
      using unread_total_set [OF k, of "\<lambda>_. t"] recycle_unread [OF rt] s1 by (simp add: unread_total_def)
    then show ?thesis using forget assms(2) s1 ow
      by (auto simp: tok_inv_def mapped_ok_def delete_conv' split: rpc.splits)
  qed (use forget assms(2) in \<open>auto simp: tok_inv_def forget_stream_def split: rpc.splits\<close>)
next
  case (opened sid')
  then show ?thesis using assms(2)
    by (auto simp: tok_inv_def register_stream_def mapped_ok_def unread_total_def update_conv' less_Suc_eq split: option.split rpc.splits)
next
  case (elsewhere s1)
  have "map (length \<circ> unread) (xs_objs s1) = map (length \<circ> concat) (map xm_buffers (xs_objs s1))" by (simp add: unread_def comp_def)
  also have "\<dots> = map (length \<circ> unread) (xs_objs (mr_s r))" by (simp only: elsewhere(5)) (simp add: unread_def comp_def)
  finally have "unread_total s1 = unread_total (mr_s r)" by (simp add: unread_total_def)
  moreover have "length (xs_objs s1) = length (xs_objs (mr_s r))" using elsewhere(5) by (metis length_map)
  ultimately show ?thesis using elsewhere assms(2) by (auto simp: tok_inv_def mapped_ok_def split: rpc.splits)
next
  case closing
  then show ?thesis using assms(2) by (cases "mr_pc r") (auto simp: tok_inv_def owed_def mapped_ok_def unread_total_def)
qed (auto simp: tok_inv_def owed_def)

definition fresh_session :: "int \<Rightarrow> msession \<Rightarrow> bool" where
  "fresh_session mx s \<longleftrightarrow> xs_bucket s = mx \<and> 0 < mx \<and> xs_objs s = [] \<and> xs_streams s = []"

lemma tok_reach_inv: "tok_reach s0 r \<Longrightarrow> fresh_session mx s0 \<Longrightarrow> tok_inv mx r"
proof (induction rule: tok_reach.induct)
  case start
  then show ?case by (simp add: tok_inv_def fresh_session_def mapped_ok_def owed_def unread_total_def)
qed (use tok_step_inv in blast)

text \<open>Closing a session is made of such steps: the mark first, its streams afterwards.\<close>

lemma session_Close_steps:
  "tok_step\<^sup>*\<^sup>* r (r\<lparr>mr_s := snd (session_Close (mr_s r))\<rparr>)"
proof (cases "xs_die (mr_s r)")
  case False
  let ?r1 = "r\<lparr>mr_s := (mr_s r)\<lparr>xs_die := True\<rparr>\<rparr>" and ?s2 = "snd (session_Close (mr_s r))"
  have buf: "map xm_buffers (xs_objs ?s2) = map xm_buffers (xs_objs (mr_s r))"
    using False by (intro nth_equalityI) (simp_all add: session_Close_def)
  have "tok_step ?r1 (?r1\<lparr>mr_s := ?s2\<rparr>)"
    using False buf by (intro tok_step.elsewhere) (simp_all add: session_Close_def)
  with tok_step.closing [of r] show ?thesis by (simp add: converse_rtranclp_into_rtranclp)
qed (simp add: session_Close_def)

text \<open>
  C4. The memory of a session is bounded: in every interleaving of the loop that receives with
  readers, with those who close streams and with those who close the session, the bytes no one has read
  yet exceed the size of the receive buffer by less than one frame, and the bucket stays within a frame of
  its limits, as long as the session is open.  Once it is closed, every frame the loop still begins to read
  with an empty bucket adds at most one frame to the bounds.
\<close>

theorem session_memory_bounded:
  assumes "tok_reach (newSession v n mx client) r" "0 < mx"
  shows "let over = 65535 * (1 + (if xs_die (mr_s r) then int (mr_late r) else 0)) in
    int (unread_total (mr_s r)) < mx + over \<and> - over < xs_bucket (mr_s r) \<and> xs_bucket (mr_s r) \<le> mx + 65535"
proof -
  have inv: "tok_inv mx r" using tok_reach_inv [OF assms(1)] assms(2) by (simp add: fresh_session_def newSession_def)
  then have "(if xs_die (mr_s r) then int (mr_late r) else 0) = int (mr_late r)" by (auto simp: tok_inv_def)
  with inv show ?thesis by (auto simp: tok_inv_def owed_def Let_def algebra_simps split: rpc.splits)
qed

text \<open>
  When everyone has returned their tokens, the loop stops receiving exactly when the bytes that no
  one has read fill the receive buffer, whichever streams they lie in.
\<close>

theorem stalls_iff_unread:
  assumes "tok_reach (newSession v n mx client) r" "0 < mx" "mr_returning r = []" "mr_pc r = PCheck" "\<not> xs_die (mr_s r)"
  shows "recv_round bs (mr_s r) = RWaits \<longleftrightarrow> mx \<le> int (unread_total (mr_s r))"
proof -
  have "tok_inv mx r" using tok_reach_inv [OF assms(1)] assms(2) by (simp add: fresh_session_def newSession_def)
  then have "xs_bucket (mr_s r) \<le> 0 \<longleftrightarrow> mx \<le> int (unread_total (mr_s r))" using assms(3,4) by (auto simp: tok_inv_def owed_def)
  then show ?thesis using assms(5) by (auto simp: recv_round_def IsClosed_def split: received.split)
qed

subsection \<open>Instances of the properties\<close>

definition toy_msession :: msession where "toy_msession = newSession 1 4 1 False"

definition toy_full :: msession where
  "toy_full = recv_event (EvPSH 3 [7, 8]) (recv_event (EvSYN 3) toy_msession)"

lemma toy_full_reach: "tok_reach toy_msession \<lparr>mr_s = toy_full, mr_returning = [], mr_pc = PCheck, mr_late = 0\<rparr>"
proof -
  let ?s1 = "recv_event (EvSYN 3) toy_msession"
  let ?r = "\<lambda>s pc. \<lparr>mr_s = s, mr_returning = [], mr_pc = pc, mr_late = 0\<rparr>"
  have m: "map_of (xs_streams ?s1) 3 = Some 0" and len: "fst (recv_push 3 [7, 8] ?s1) = 2" and "0 < xs_bucket toy_msession" "0 < xs_bucket ?s1"
    by (simp_all add: toy_msession_def newSession_def recv_event_def recv_syn_def recv_push_def Let_def)
  note b = this(3,4)
  obtain s2 where p: "recv_push 3 [7, 8] ?s1 = (2, s2)" using len by (cases "recv_push 3 [7, 8] ?s1") simp
  have full: "toy_full = recv_deduct 3 2 s2" by (simp add: toy_full_def recv_event_def [of "EvPSH 3 [7, 8]"] p)
  have t1: "tok_step (?r toy_msession PCheck) (?r toy_msession PRead)" using tok_step.check [of "?r toy_msession PCheck"] b by simp
  have t2: "tok_step (?r toy_msession PRead) (?r ?s1 PCheck)" using tok_step.other_frame [of "?r toy_msession PRead" "EvSYN 3"] by simp
  have t3: "tok_step (?r ?s1 PCheck) (?r ?s1 PRead)" using tok_step.check [of "?r ?s1 PCheck"] b by simp
  have t4: "tok_step (?r ?s1 PRead) (?r s2 (POwes 3 2))" using tok_step.push [of "?r ?s1 PRead" "[7, 8]" 3 2 s2] p m by simp
  have t5: "tok_step (?r s2 (POwes 3 2)) (?r toy_full PCheck)" using tok_step.deduct [of "?r s2 (POwes 3 2)" 3 2] full by simp
  show ?thesis
    by (rule tok_reach.step [OF tok_reach.step [OF tok_reach.step [OF tok_reach.step [OF tok_reach.step [OF tok_reach.start t1] t2] t3] t4] t5])
qed

lemma session_memory_bounded_witness: "int (unread_total toy_full) < 1 + 65535"
proof -
  have "\<not> xs_die toy_full"
    by (simp add: toy_full_def recv_event_def recv_syn_def recv_push_def recv_deduct_def toy_msession_def newSession_def Let_def
        set_obj_def)
  then show ?thesis using session_memory_bounded [OF toy_full_reach [unfolded toy_msession_def]] by simp
qed

lemma stalls_iff_unread_witness: "recv_round (send_frame (newFrame 1 cmdSYN 5)) toy_full = RWaits"
proof -
  have "\<not> xs_die toy_full" "unread_total toy_full = 2"
    by (simp_all add: toy_full_def recv_event_def recv_syn_def recv_push_def recv_deduct_def toy_msession_def newSession_def Let_def
        set_obj_def pushBytes_def wakeupReader_def unread_total_def unread_def newStream_def)
  then show ?thesis using stalls_iff_unread [OF toy_full_reach [unfolded toy_msession_def], of "send_frame (newFrame 1 cmdSYN 5)"] by simp
qed

end
