(* ===== verification/Smux_Delivery.thy ===== *)
theory Smux_Delivery
  imports Smux_Session
begin

text \<open>
  What a session of \<open>src/third_party/smux\<close> promises its streams: their numbers, the cutting of what is
  written into frames, and that a stream delivers the bytes written at the other end in order, through
  the queue of the sender and the connection; and what it does not promise: a session out of tokens
  neither takes new streams in nor ends, and data that come before a stream is registered are lost.
\<close>

subsection \<open>Numbers of streams\<close>

text \<open>The numbers a session gives out one after another, until they would overflow.\<close>

fun sids :: "nat \<Rightarrow> msession \<Rightarrow> 32 word list" where
  "sids 0 s = []"
| "sids (Suc n) s = (case next_sid s of (Inl _, s1) \<Rightarrow> sids n s1 | (Inr i, s1) \<Rightarrow> i # sids n s1)"

lemma add2_no_wrap: "\<not> x + 2 < x \<Longrightarrow> unat (x + 2 :: 32 word) = unat x + 2"
  using unat_add_lem [of x 2] no_plus_overflow_unat_size [of x 2] by (simp add: not_less word_size)

lemma sids_rise:
  "sorted_wrt (<) (map unat (sids n s)) \<and>
    (\<forall>i \<in> set (sids n s). unat (xs_nextStreamID s) < unat i \<and> unat i mod 2 = unat (xs_nextStreamID s) mod 2)"
proof (induction n arbitrary: s)
  case (Suc n)
  show ?case
  proof (cases "next_sid s")
    case (Pair res s1)
    show ?thesis
    proof (cases res)
      case (Inl e)
      then have "xs_nextStreamID s1 = xs_nextStreamID s" using Pair by (auto simp: next_sid_def split: if_splits)
      then show ?thesis using Suc.IH [of s1] Pair Inl by simp
    next
      case (Inr i)
      then have i: "xs_nextStreamID s1 = i" "unat i = unat (xs_nextStreamID s) + 2"
        using Pair add2_no_wrap by (auto simp: next_sid_def split: if_splits)
      then show ?thesis using Suc.IH [of s1] Pair Inr by auto
    qed
  qed
qed simp

text \<open>
  Streams never share a number, neither two of one end nor one of each end, for as long as the
  session lives: before the numbers would wrap round the session refuses to open more.
\<close>

theorem stream_ids_never_clash:
  "distinct (sids n (newSession v f m True) @ sids k (newSession v' f' m' False))"
proof -
  have d: "distinct (sids j s)" for j s
    using sids_rise [of j s] strict_sorted_iff [of "map unat (sids j s)"] by (metis distinct_map)
  have "unat i mod 2 = 1" if "i \<in> set (sids n (newSession v f m True))" for i
    using sids_rise [of n "newSession v f m True"] that by (simp add: newSession_def)
  moreover have "unat i mod 2 = 0" if "i \<in> set (sids k (newSession v' f' m' False))" for i
    using sids_rise [of k "newSession v' f' m' False"] that by (simp add: newSession_def)
  ultimately have "set (sids n (newSession v f m True)) \<inter> set (sids k (newSession v' f' m' False)) = {}" by fastforce
  then show ?thesis using d by simp
qed

subsection \<open>Cutting into frames\<close>

lemma write_frame_requests:
  "xs_requests (snd (writeFrameInternal E f c s)) =
    (if c = CLSCTRL \<or> mi_taken E (length (xs_requests s))
     then xs_requests s @ [\<lparr>wr_class = c, wr_frame = f, wr_seq = xs_requestID s + 1, wr_result = length (xs_requests s)\<rparr>] else xs_requests s)"
  "xs_objs (snd (writeFrameInternal E f c s)) = xs_objs s" "xs_frameSize (snd (writeFrameInternal E f c s)) = xs_frameSize s"
  "xs_version (snd (writeFrameInternal E f c s)) = xs_version s"
  by (simp_all add: writeFrameInternal_def Let_def)

lemma write_loop_frames:
  assumes "0 < xs_frameSize s" "\<And>i. mi_taken E i \<and> snd (mi_result E i) = None" "k < length (xs_objs s)"
  shows "\<exists>rs s'. snd (write_loop E k b sent s) = s' \<and> snd (fst (write_loop E k b sent s)) = None \<and> xs_requests s' = xs_requests s @ rs \<and>
    concat (map (fr_data \<circ> wr_frame) rs) = b \<and>
    (\<forall>r \<in> set rs. wr_sid r = xm_id (xs_objs s ! k) \<and> fr_cmd (wr_frame r) = cmdPSH \<and> fr_ver (wr_frame r) = xs_version s \<and>
       0 < length (fr_data (wr_frame r)) \<and> length (fr_data (wr_frame r)) \<le> xs_frameSize s)"
  using assms
proof (induction "length b" arbitrary: b sent s rule: less_induct)
  case less
  show ?case
  proof (cases "b = []")
    case False
    let ?sz = "min (length b) (xs_frameSize s)" and ?t = "xs_objs s ! k"
    let ?f = "(newFrame (xs_version s) cmdPSH (xm_id ?t))\<lparr>fr_data := take ?sz b\<rparr>"
    let ?c = "if xm_numWritten ?t = 0 then CLSCTRL else CLSDATA"
    obtain n err s1 where w: "writeFrameInternal E ?f ?c s = ((n, err), s1)" by (metis prod.collapse)
    have err: "err = None" using w less.prems(2) by (auto simp: writeFrameInternal_def Let_def split: if_splits) (metis snd_conv)+
    define s2 where "s2 = set_obj k (\<lambda>t. t\<lparr>xm_numWritten := xm_numWritten t + word_of_nat ?sz\<rparr>) s1"
    note q = write_frame_requests [of E ?f ?c s]
    define r where "r = \<lparr>wr_class = ?c, wr_frame = ?f, wr_seq = xs_requestID s + 1, wr_result = length (xs_requests s)\<rparr>"
    have s2: "xs_requests s2 = xs_requests s @ [r]" "xs_frameSize s2 = xs_frameSize s" "xs_version s2 = xs_version s"
        "length (xs_objs s2) = length (xs_objs s)" "xm_id (xs_objs s2 ! k) = xm_id ?t"
      using q w less.prems(2,3) by (simp_all add: s2_def set_obj_def r_def)
    have step: "write_loop E k b sent s = write_loop E k (drop ?sz b) (sent + n) s2"
      using False less.prems(1) w err by (simp add: write_loop.simps [of E k b sent s] Let_def s2_def)
    have "length (drop ?sz b) < length b" using False less.prems(1) by simp
    from less.hyps [OF this, of s2 "sent + n"] obtain rs where rs:
        "snd (fst (write_loop E k (drop ?sz b) (sent + n) s2)) = None"
        "xs_requests (snd (write_loop E k (drop ?sz b) (sent + n) s2)) = xs_requests s2 @ rs"
        "concat (map (fr_data \<circ> wr_frame) rs) = drop ?sz b"
        "\<forall>r \<in> set rs. wr_sid r = xm_id (xs_objs s2 ! k) \<and> fr_cmd (wr_frame r) = cmdPSH \<and> fr_ver (wr_frame r) = xs_version s2 \<and>
           0 < length (fr_data (wr_frame r)) \<and> length (fr_data (wr_frame r)) \<le> xs_frameSize s2"
      using less.prems s2 by auto
    have "wr_sid r = xm_id ?t \<and> fr_cmd (wr_frame r) = cmdPSH \<and> fr_ver (wr_frame r) = xs_version s \<and>
        0 < length (fr_data (wr_frame r)) \<and> length (fr_data (wr_frame r)) \<le> xs_frameSize s"
      using False less.prems(1) by (simp add: r_def wr_sid_def newFrame_def)
    moreover have "concat (map (fr_data \<circ> wr_frame) (r # rs)) = b" using rs(3) by (simp add: r_def)
    ultimately show ?thesis using rs(1,2,4) s2 step by (intro exI [of _ "r # rs"]) simp
  qed (simp add: write_loop.simps)
qed

text \<open>
  What is written to an open stream is cut into frames of at most the frame size, none of them empty,
  that carry exactly its bytes in order.
\<close>

theorem write_cut_into_frames:
  assumes "0 < xs_frameSize s" "\<And>i. mi_taken E i \<and> snd (mi_result E i) = None" "k < length (xs_objs s)"
    and "\<not> xm_fin (xs_objs s ! k)" "\<not> xm_die (xs_objs s ! k)"
  shows "\<exists>rs. xs_requests (snd (stream_Write E k b s)) = xs_requests s @ rs \<and> concat (map (fr_data \<circ> wr_frame) rs) = b \<and>
    (\<forall>r \<in> set rs. wr_sid r = xm_id (xs_objs s ! k) \<and> fr_cmd (wr_frame r) = cmdPSH \<and>
       0 < length (fr_data (wr_frame r)) \<and> length (fr_data (wr_frame r)) \<le> xs_frameSize s)"
proof (cases "b = []")
  case False
  then show ?thesis using write_loop_frames [OF assms(1-3), of b 0] assms(4,5) by (auto simp: stream_Write_def Let_def)
qed (simp add: stream_Write_def)

subsection \<open>A stream delivers its bytes in order\<close>

text \<open>Frames that come in and reads of streams, in any order.\<close>

datatype mop = MRecv event | MRead nat nat

fun mop_run :: "mop list \<Rightarrow> msession \<Rightarrow> (nat \<times> bytes) list \<times> msession" where
  "mop_run [] s = ([], s)"
| "mop_run (MRecv ev # ops) s = mop_run ops (recv_event ev s)"
| "mop_run (MRead k len # ops) s = (let ((bs, _), s1) = tryReadV1 k len s; (rs, s2) = mop_run ops s1 in ((k, bs) # rs, s2))"

fun events :: "mop list \<Rightarrow> event list" where
  "events [] = []" | "events (MRecv ev # ops) = ev # events ops" | "events (MRead _ _ # ops) = events ops"

definition reads_of :: "nat \<Rightarrow> (nat \<times> bytes) list \<Rightarrow> bytes" where
  "reads_of k rs = concat (map snd (filter (\<lambda>(j, _). j = k) rs))"

definition ev_data :: "32 word \<Rightarrow> event \<Rightarrow> bytes" where
  "ev_data sid ev = (case ev of EvPSH i b \<Rightarrow> if i = sid then b else [] | _ \<Rightarrow> [])"

definition payload :: "32 word \<Rightarrow> event list \<Rightarrow> bytes" where "payload sid evs = concat (map (ev_data sid) evs)"

lemma payload_prefix: "prefix xs ys \<Longrightarrow> prefix (payload sid xs) (payload sid ys)"
  by (auto simp: prefix_def payload_def)

text \<open>The object that the session keeps for a stream, and for no other.\<close>

definition own :: "32 word \<Rightarrow> nat \<Rightarrow> msession \<Rightarrow> bool" where
  "own sid k s \<longleftrightarrow> k < length (xs_objs s) \<and> map_of (xs_streams s) sid = Some k \<and> mapped_ok s \<and>
     (\<forall>j. map_of (xs_streams s) j = Some k \<longrightarrow> j = sid)"

lemma ownD:
  assumes "own sid k s"
  shows "k < length (xs_objs s)" "map_of (xs_streams s) sid = Some k" "mapped_ok s"
    and "map_of (xs_streams s) j = Some k \<longleftrightarrow> j = sid" "map_of (xs_streams s) j = Some l \<Longrightarrow> l < length (xs_objs s)"
  using assms unfolding own_def mapped_ok_def by blast+

lemma own_frame: "own sid k s \<Longrightarrow> xs_streams s' = xs_streams s \<Longrightarrow> length (xs_objs s') = length (xs_objs s) \<Longrightarrow> own sid k s'"
  by (simp add: own_def mapped_ok_def)

lemma unread_wakeup [simp]: "unread (wakeupReader t) = unread t" by (simp add: wakeupReader_def unread_def)

lemma recv_syn_own:
  assumes "own sid k s"
  shows "own sid k (recv_syn i s) \<and> xs_objs (recv_syn i s) ! k = xs_objs s ! k"
proof (cases "map_of (xs_streams s) i")
  case None
  then have i: "i \<noteq> sid" and k: "k < length (xs_objs s)" using ownD(1,2) [OF assms] by auto
  have ok: "mapped_ok (recv_syn i s)" using recv_syn_keeps(3) ownD(3) [OF assms] by blast
  have m: "map_of (xs_streams (recv_syn i s)) j = (if j = i then Some (length (xs_objs s)) else map_of (xs_streams s) j)" for j
    using None by (simp add: recv_syn_def Let_def update_conv')
  have objs: "xs_objs (recv_syn i s) = xs_objs s @ [newStream i]" using None by (simp add: recv_syn_def Let_def)
  have "map_of (xs_streams (recv_syn i s)) j = Some k \<longleftrightarrow> j = sid" for j
    using ownD(4) [OF assms, of j] i k by (auto simp: m)
  then have "own sid k (recv_syn i s)" unfolding own_def using ok k objs by (metis length_append trans_less_add1)
  then show ?thesis using objs k by (simp add: nth_append)
qed (use assms in \<open>simp add: recv_syn_def\<close>)

lemma recv_push_at:
  assumes "map_of (xs_streams s) i = Some j" "j < length (xs_objs s)"
  shows "xs_objs (recv_event (EvPSH i b) s) = (xs_objs s)[j := wakeupReader (pushBytes b (xs_objs s ! j))]"
    and "xs_streams (recv_event (EvPSH i b) s) = xs_streams s"
  using assms by (simp_all add: recv_event_def recv_push_def recv_deduct_def set_obj_def)

lemma recv_event_own:
  assumes "own sid k s"
  shows "own sid k (recv_event ev s) \<and> unread (xs_objs (recv_event ev s) ! k) = unread (xs_objs s ! k) @ ev_data sid ev"
proof (cases ev)
  case (EvSYN i)
  then show ?thesis using recv_syn_own [OF assms] by (simp add: recv_event_def ev_data_def)
next
  case (EvFIN i)
  show ?thesis
  proof (cases "map_of (xs_streams s) i")
    case (Some j)
    have "own sid k (recv_event ev s)"
      by (rule own_frame [OF assms]) (use EvFIN Some in \<open>simp_all add: recv_event_def\<close>)
    moreover have "j < length (xs_objs s)" using ownD(5) [OF assms Some] .
    ultimately show ?thesis using EvFIN Some by (simp add: recv_event_def ev_data_def set_obj_def nth_list_update unread_def)
  qed (use assms EvFIN in \<open>simp add: recv_event_def ev_data_def\<close>)
next
  case (EvPSH i b)
  show ?thesis
  proof (cases "map_of (xs_streams s) i")
    case None
    then have "i \<noteq> sid" using ownD(2) [OF assms] by auto
    then show ?thesis using assms EvPSH None by (simp add: recv_event_def recv_push_def recv_deduct_def ev_data_def)
  next
    case (Some j)
    then have j: "j < length (xs_objs s)" using ownD(5) [OF assms] by blast
    note at = recv_push_at [OF Some j, of b]
    have ij: "i = sid \<longleftrightarrow> j = k" using Some ownD(2) [OF assms] ownD(4) [OF assms, of i] by auto
    have "own sid k (recv_event ev s)" by (rule own_frame [OF assms]) (simp_all add: EvPSH at)
    moreover have "unread (pushBytes b t) = unread t @ b" for t by (simp add: pushBytes_def unread_def)
    ultimately show ?thesis using at j ij by (simp add: EvPSH ev_data_def nth_list_update)
  qed
qed (use assms in \<open>simp_all add: recv_event_def ev_data_def\<close>)

lemma returnTokens_same [simp]: "xs_objs (returnTokens n s) = xs_objs s" "xs_streams (returnTokens n s) = xs_streams s"
  by (simp_all add: returnTokens_def notifyBucket_def Let_def)

lemma read_own:
  assumes "own sid k s" "tryReadV1 j len s = ((bs, e), s1)"
  shows "own sid k s1 \<and> (if j = k then bs else []) @ unread (xs_objs s1 ! k) = unread (xs_objs s ! k)"
proof (cases "len = 0")
  case False
  obtain bs' t where t: "take_bytes len (xs_objs s ! j) = (bs', t)" by force
  have r: "bs = bs' \<and> xs_objs s1 = (xs_objs s)[j := t] \<and> xs_streams s1 = xs_streams s"
  proof (cases "bs' = []")
    case True
    then have "bs = []" "s1 = set_obj j (\<lambda>_. t) s" using assms(2) False t by (simp_all add: tryReadV1_def)
    then show ?thesis using True by (simp add: set_obj_def)
  next
    case ne: False
    then have "bs = bs'" "s1 = returnTokens (length bs') (set_obj j (\<lambda>_. t) s)" using assms(2) False t by (auto simp: tryReadV1_def)
    then show ?thesis by simp (simp add: set_obj_def)
  qed
  then have "own sid k s1" using own_frame [OF assms(1)] by simp
  then show ?thesis using r take_bytes_unread [OF t] ownD(1) [OF assms(1)] by (cases "j = k") auto
qed (use assms in \<open>simp add: tryReadV1_def\<close>)

lemma delivered:
  "own sid k s \<Longrightarrow> mop_run ops s = (rs, s') \<Longrightarrow>
    reads_of k rs @ unread (xs_objs s' ! k) = unread (xs_objs s ! k) @ payload sid (events ops)"
proof (induction ops s arbitrary: rs rule: mop_run.induct)
  case (1 s)
  then show ?case by (auto simp: reads_of_def payload_def)
next
  case (2 ev ops s)
  then show ?case using recv_event_own [OF 2(2), of ev] by (simp add: payload_def)
next
  case (3 j len ops s)
  obtain bs e s1 where r: "tryReadV1 j len s = ((bs, e), s1)" by (metis prod.collapse)
  obtain rs1 where m: "mop_run ops s1 = (rs1, s')" "rs = (j, bs) # rs1" using 3(3) r by (auto split: prod.splits)
  note own = read_own [OF 3(2) r]
  have "reads_of k rs1 @ unread (xs_objs s' ! k) = unread (xs_objs s1 ! k) @ payload sid (events ops)"
    using 3(1) [OF r [symmetric] refl refl] own m(1) r by fastforce
  then show ?case using own m(2) by (auto simp: reads_of_def split: if_splits)
qed

text \<open>
  C3. From the queue of one end to the reader at the other: requests go through the queue in whatever
  order the streams push them, the bytes of the frames taken out go over the connection, the other
  end takes them in between reads of any stream, and what is read from a stream is a prefix of
  what was written to it.
\<close>

theorem bytes_delivered_in_order:
  assumes "set (pushed ops) \<subseteq> in_window b" "sorted_wrt (\<lambda>x y. wr_less x y \<and> \<not> wr_less y x) (of_stream sid (pushed ops))"
    and "sq_run ops NewShaperQueue = Ret (out, q)" "\<forall>r \<in> set (pushed ops). frame_ok v (wr_frame r)"
    and "own sid k s" "unread (xs_objs s ! k) = []"
    and "prefix (events mops) (fst (recv_all v (concat (map (send_frame \<circ> wr_frame) out))))" "mop_run mops s = (rs, s')"
  shows "prefix (reads_of k rs) (concat (map (ev_data sid \<circ> event_of \<circ> wr_frame) (of_stream sid (pushed ops))))"
proof -
  obtain out' q' where "sq_run ops NewShaperQueue = Ret (out', q')" "mset (pushed ops) = mset out' + pending q'"
    using sq_run_ok [OF NewShaperQueue_ok(1) assms(1)] by auto
  then have "set out \<subseteq> set (pushed ops)" using assms(3) by (metis fst_conv go.inject prod.inject set_mset_mset set_mset_union Un_upper1)
  then have ok: "\<forall>f \<in> set (map wr_frame out). frame_ok v f" using assms(4) by auto
  have wire: "fst (recv_all v (concat (map (send_frame \<circ> wr_frame) out))) = map (event_of \<circ> wr_frame) out"
    using recv_all_sent [OF ok] by simp
  have "mset (heap_of NewShaperQueue sid) = mset []" by (simp add: heap_of_def NewShaperQueue_def)
  from stream_run_fifo [OF NewShaperQueue_ok(1) assms(1) this _ assms(3)] assms(2)
  have fifo: "prefix (of_stream sid out) (of_stream sid (pushed ops))" by (auto simp: prefix_def)
  have own_data: "ev_data sid (event_of (wr_frame r)) = []" if "wr_sid r \<noteq> sid" for r
    using that by (simp add: ev_data_def event_of_def wr_sid_def)
  then have "payload sid (map (event_of \<circ> wr_frame) out) = concat (map (ev_data sid \<circ> event_of \<circ> wr_frame) (of_stream sid out))"
    by (induction out) (simp_all add: payload_def of_stream_def)
  moreover have "prefix (payload sid (events mops)) (payload sid (map (event_of \<circ> wr_frame) out))"
    using payload_prefix assms(7) unfolding wire by blast
  moreover have "prefix (concat (map (ev_data sid \<circ> event_of \<circ> wr_frame) (of_stream sid out)))
      (concat (map (ev_data sid \<circ> event_of \<circ> wr_frame) (of_stream sid (pushed ops))))"
    using fifo by (auto simp: prefix_def)
  moreover have "prefix (reads_of k rs) (payload sid (events mops))"
    using delivered [OF assms(5,8)] assms(6) by (metis append_Nil prefixI)
  ultimately show ?thesis by (metis prefix_order.trans)
qed

subsection \<open>What is not promised\<close>

text \<open>
  Data that come before the stream is registered are thrown away, though the opening frame was sent
  already; had they come a moment later, they would have been kept.
\<close>

theorem data_before_registration_lost:
  assumes "map_of (xs_streams s) sid = None" "xs_readError s = None" "xs_writeError s = None" "\<not> xs_die s"
  shows "unread (xs_objs (snd (register_stream sid (recv_event (EvPSH sid b) s))) ! length (xs_objs s)) = [] \<and>
    unread (xs_objs (recv_event (EvPSH sid b) (snd (register_stream sid s))) ! length (xs_objs s)) = b"
  using assms
  by (simp add: recv_event_def recv_push_def recv_deduct_def register_stream_def set_obj_def update_conv' pushBytes_def wakeupReader_def unread_def newStream_def)

datatype mtick = TickPing | TickTimeout

fun tick :: "mux_io \<Rightarrow> mtick \<Rightarrow> msession \<Rightarrow> msession" where
  "tick E TickPing s = ping_tick E s"
| "tick E TickTimeout s = timeout_tick s"

text \<open>
  A session whose tokens are used up by streams no one reads takes nothing in, whatever arrives, a new
  stream included; and the keepalive, which ends sessions that heard nothing, never ends this one.
\<close>

theorem stalled_session_never_ends:
  assumes "xs_bucket s \<le> 0" "\<not> xs_die s"
  shows "recv_round bs (foldl (\<lambda>s t. tick E t s) s ticks) = RWaits"
proof -
  have "xs_bucket (foldl (\<lambda>s t. tick E t s) s ticks) \<le> 0 \<and> \<not> xs_die (foldl (\<lambda>s t. tick E t s) s ticks)"
    using assms
  proof (induction ticks arbitrary: s)
    case (Cons t ticks)
    have "xs_bucket (tick E t s) \<le> 0 \<and> \<not> xs_die (tick E t s)"
      using Cons.prems by (cases t) (simp_all add: ping_tick_def timeout_tick_def notifyBucket_def writeFrameInternal_def Let_def)
    then show ?case using Cons.IH [of "tick E t s"] by simp
  qed simp
  then show ?thesis by (simp add: recv_round_def IsClosed_def)
qed

text \<open>A session that has tokens and hears nothing during two ticks is ended.\<close>

theorem silent_session_ended:
  assumes "0 < xs_bucket s"
  shows "xs_die (timeout_tick (timeout_tick s))"
  using assms by (auto simp: timeout_tick_def session_Close_def)

subsection \<open>Instances of the properties\<close>

definition toy_io :: mux_io where "toy_io = \<lparr>mi_taken = (\<lambda>_. True), mi_result = (\<lambda>_. (0, None))\<rparr>"

definition toy_open :: msession where "toy_open = recv_event (EvSYN 3) (newSession 1 4 100 False)"

lemma toy_open_simps:
  "xs_objs toy_open = [newStream 3]" "xs_streams toy_open = [(3, 0)]" "xs_frameSize toy_open = 4" "xs_requests toy_open = []"
  "xs_version toy_open = 1" "xs_bucket toy_open = 100" "\<not> xs_die toy_open"
  by (simp_all add: toy_open_def recv_event_def recv_syn_def newSession_def Let_def)

lemma write_cut_into_frames_witness:
  "\<exists>rs. xs_requests (snd (stream_Write toy_io 0 [1, 2, 3, 4, 5, 6] toy_open)) = rs \<and> concat (map (fr_data \<circ> wr_frame) rs) = [1, 2, 3, 4, 5, 6] \<and>
    (\<forall>r \<in> set rs. length (fr_data (wr_frame r)) \<le> 4)"
  using write_cut_into_frames [of toy_open toy_io 0 "[1, 2, 3, 4, 5, 6]"] by (auto simp: toy_open_simps toy_io_def newStream_def)

definition push_req :: "32 word \<Rightarrow> nat \<Rightarrow> bytes \<Rightarrow> wreq" where
  "push_req sid n b = \<lparr>wr_class = CLSDATA, wr_frame = (newFrame 1 cmdPSH sid)\<lparr>fr_data := b\<rparr>, wr_seq = word_of_nat n, wr_result = n\<rparr>"

definition toy_pushes :: "sop list" where
  "toy_pushes = [SPush (push_req 3 1 [1, 2]), SPush (push_req 5 2 [9]), SPush (push_req 3 3 [4]), SPop, SPop, SPop]"

definition toy_mops :: "mop list" where
  "toy_mops = [MRecv (EvPSH 3 [1, 2]), MRead 0 1, MRecv (EvPSH 5 [9]), MRead 0 5, MRecv (EvPSH 3 [4]), MRead 0 5]"

lemma bytes_delivered_in_order_witness:
  "prefix (reads_of 0 (fst (mop_run toy_mops toy_open))) [1, 2, 4] \<and> reads_of 0 (fst (mop_run toy_mops toy_open)) = [1, 2, 4]"
proof -
  have w: "set (pushed toy_pushes) \<subseteq> in_window 0" by (simp add: toy_pushes_def in_window_def push_req_def)
  have st: "of_stream 3 (pushed toy_pushes) = [push_req 3 1 [1, 2], push_req 3 3 [4]]"
    by (simp add: toy_pushes_def of_stream_def wr_sid_def push_req_def newFrame_def)
  have ord: "sorted_wrt (\<lambda>x y. wr_less x y \<and> \<not> wr_less y x) (of_stream 3 (pushed toy_pushes))"
    unfolding st by (simp add: wr_less_def push_req_def itimediff_def)
  have ok: "\<forall>r \<in> set (pushed toy_pushes). frame_ok 1 (wr_frame r)"
    by (simp add: toy_pushes_def push_req_def frame_ok_def newFrame_def)
  define out where "out = [push_req 3 1 [1, 2], push_req 5 2 [9], push_req 3 3 [4]]"
  obtain q where run: "sq_run toy_pushes NewShaperQueue = Ret (out, q)"
  proof -
    have "map_option id (case sq_run toy_pushes NewShaperQueue of Panic \<Rightarrow> None | Ret (o1, q) \<Rightarrow> Some o1) = Some out"
      unfolding out_def by code_simp
    then show ?thesis using that by (auto split: go.splits prod.splits)
  qed
  have own: "own 3 0 toy_open" by (simp add: own_def mapped_ok_def toy_open_simps)
  have frames: "\<forall>f \<in> set (map wr_frame out). frame_ok 1 f" using ok by (simp add: out_def toy_pushes_def)
  have "fst (recv_all 1 (concat (map (send_frame \<circ> wr_frame) out))) = map (event_of \<circ> wr_frame) out"
    by (simp add: out_def push_req_def) code_simp
  moreover have "events toy_mops = map (event_of \<circ> wr_frame) out"
    by (simp add: toy_mops_def out_def push_req_def event_of_def newFrame_def cmd_defs)
  ultimately have ev: "prefix (events toy_mops) (fst (recv_all 1 (concat (map (send_frame \<circ> wr_frame) out))))" by simp
  have un: "unread (xs_objs toy_open ! 0) = []" by (simp add: toy_open_simps)
  have rd: "reads_of 0 (fst (mop_run toy_mops toy_open)) = [1, 2, 4]"
    unfolding toy_mops_def toy_open_def by code_simp
  have run2: "mop_run toy_mops toy_open = (fst (mop_run toy_mops toy_open), snd (mop_run toy_mops toy_open))" by simp
  from bytes_delivered_in_order [OF w ord run ok own un ev run2] rd show ?thesis
    unfolding st by (simp add: push_req_def event_of_def newFrame_def cmd_defs ev_data_def)
qed

lemma data_before_registration_lost_witness:
  "unread (xs_objs (snd (register_stream 5 (recv_event (EvPSH 5 [1]) toy_open))) ! 1) = []"
  using data_before_registration_lost [of toy_open 5 "[1]"] by (simp add: toy_open_def recv_event_def recv_syn_def newSession_def Let_def)

lemma stalled_session_never_ends_witness:
  "recv_round [] (foldl (\<lambda>s t. tick toy_io t s) toy_full [TickTimeout, TickPing, TickTimeout]) = RWaits"
proof -
  have "xs_bucket toy_full \<le> 0 \<and> \<not> xs_die toy_full"
    by (simp add: toy_full_def recv_event_def recv_syn_def recv_push_def recv_deduct_def toy_msession_def newSession_def Let_def set_obj_def)
  then show ?thesis using stalled_session_never_ends [of toy_full "[]" toy_io "[TickTimeout, TickPing, TickTimeout]"] by simp
qed

lemma silent_session_ended_witness: "xs_die (timeout_tick (timeout_tick toy_open))"
  by (rule silent_session_ended) (simp add: toy_open_simps)

end
