(* ===== verification/Smux_Writers.thy ===== *)
theory Smux_Writers
  imports Smux_Shaper
begin

text \<open>
  The two loops that write, \<open>shaperLoop\<close> and \<open>sendLoop\<close> of \<open>src/third_party/smux/session.go\<close>, beside any
  number of writers in \<open>writeFrameInternal\<close>: a bounded channel for data, a queue both sides lock, and
  two channels of capacity one that wake a loop.  A session that is not ended.
\<close>

subsection \<open>The loops\<close>

definition minShaperNotifySize :: int where "minShaperNotifySize = 16"
definition maxShaperSize :: nat where "maxShaperSize = 1024"

text \<open>
  \<open>STake\<close> is the select of \<open>shaperLoop\<close>, then it has pushed, decided to wake the other loop, and comes to
  the test of the length; \<open>DWait\<close> is the select of \<open>sendLoop\<close>, which takes from the queue, writes, wakes
  the other loop, and is gone after a failed write.
\<close>

datatype spc = STake | SPushed | SNotify | SLen
datatype dpc = DWait | DPop | DWrite wreq | DTell | DGone

text \<open>\<open>wl_direct\<close>: writers that have pushed a control frame and have still to wake \<open>sendLoop\<close>.\<close>

record wloops =
  wl_chan :: "wreq list"
  wl_q :: shaper
  wl_open :: bool
  wl_pending :: bool
  wl_consumed :: bool
  wl_spc :: spc
  wl_dpc :: dpc
  wl_direct :: nat
  wl_results :: "(wreq \<times> nat \<times> goerr option) list"

definition wl_new :: wloops where
  "wl_new = \<lparr>wl_chan = [], wl_q = NewShaperQueue, wl_open = True, wl_pending = False, wl_consumed = False,
     wl_spc = STake, wl_dpc = DWait, wl_direct = 0, wl_results = []\<rparr>"

text \<open>A writer hands over a request: data while the channel has room, control at once.\<close>

inductive hand_over :: "wreq \<Rightarrow> wloops \<Rightarrow> wloops \<Rightarrow> bool" where
  data: "wr_class r = CLSDATA \<Longrightarrow> length (wl_chan s) < maxShaperSize \<Longrightarrow> hand_over r s (s\<lparr>wl_chan := wl_chan s @ [r]\<rparr>)"
| control: "wr_class r = CLSCTRL \<Longrightarrow> hand_over r s (s\<lparr>wl_q := sq_Push r (wl_q s), wl_direct := wl_direct s + 1\<rparr>)"

text \<open>A write answers \<open>n\<close> bytes and perhaps an error, of which the header is taken off.\<close>

inductive loop_step :: "wloops \<Rightarrow> wloops \<Rightarrow> bool" where
  taken: "wl_spc s = STake \<Longrightarrow> wl_open s \<Longrightarrow> wl_chan s = r # rs \<Longrightarrow>
    loop_step s (s\<lparr>wl_chan := rs, wl_q := sq_Push r (wl_q s), wl_spc := SPushed\<rparr>)"
| enables: "wl_spc s = STake \<Longrightarrow> wl_consumed s \<Longrightarrow> loop_step s (s\<lparr>wl_open := True, wl_consumed := False\<rparr>)"
| decides: "wl_spc s = SPushed \<Longrightarrow>
    loop_step s (s\<lparr>wl_spc := (if wl_chan s = [] \<or> minShaperNotifySize < sq_Len (wl_q s) then SNotify else SLen)\<rparr>)"
| notifies: "wl_spc s = SNotify \<Longrightarrow> loop_step s (s\<lparr>wl_pending := True, wl_spc := SLen\<rparr>)"
| length_test: "wl_spc s = SLen \<Longrightarrow>
    loop_step s (s\<lparr>wl_open := (wl_open s \<and> \<not> int maxShaperSize \<le> sq_Len (wl_q s)), wl_spc := STake\<rparr>)"
| direct: "wl_direct s = Suc k \<Longrightarrow> loop_step s (s\<lparr>wl_pending := True, wl_direct := k\<rparr>)"
| wakes: "wl_dpc s = DWait \<Longrightarrow> wl_pending s \<Longrightarrow> loop_step s (s\<lparr>wl_pending := False, wl_dpc := DPop\<rparr>)"
| popped: "wl_dpc s = DPop \<Longrightarrow> sq_Pop (wl_q s) = Ret (Some r, q) \<Longrightarrow> loop_step s (s\<lparr>wl_q := q, wl_dpc := DWrite r\<rparr>)"
| popped_none: "wl_dpc s = DPop \<Longrightarrow> sq_Pop (wl_q s) = Ret (None, q) \<Longrightarrow> loop_step s (s\<lparr>wl_q := q, wl_dpc := DTell\<rparr>)"
| tells: "wl_dpc s = DTell \<Longrightarrow> loop_step s (s\<lparr>wl_consumed := True, wl_dpc := DWait\<rparr>)"
| written: "wl_dpc s = DWrite r \<Longrightarrow>
    loop_step s (s\<lparr>wl_results := wl_results s @ [(r, n - headerSize, err)], wl_dpc := (if err = None then DPop else DGone)\<rparr>)"

text \<open>
  What can have happened after the requests \<open>given\<close> were handed over; their numbers lie within half the
  range from \<open>b\<close> on.
\<close>

inductive wl_reach :: "32 word \<Rightarrow> wreq list \<Rightarrow> wloops \<Rightarrow> bool" for b where
  new: "wl_reach b [] wl_new"
| hand: "wl_reach b given s \<Longrightarrow> r \<in> in_window b \<Longrightarrow> hand_over r s t \<Longrightarrow> wl_reach b (r # given) t"
| loop: "wl_reach b given s \<Longrightarrow> loop_step s t \<Longrightarrow> wl_reach b given t"

subsection \<open>Every request is answered\<close>

fun sending :: "dpc \<Rightarrow> bool" where
  "sending DPop = True" | "sending (DWrite r) = True" | "sending _ = False"

fun writing :: "dpc \<Rightarrow> wreq multiset" where
  "writing (DWrite r) = {#r#}" | "writing _ = {#}"

definition queue_ok :: "32 word \<Rightarrow> wreq list \<Rightarrow> wloops \<Rightarrow> bool" where
  "queue_ok b given s \<longleftrightarrow> sq_ok b (wl_q s) \<and> set (wl_chan s) \<subseteq> in_window b \<and>
     mset given = mset (wl_chan s) + pending (wl_q s) + writing (wl_dpc s) + mset (map fst (wl_results s))"

text \<open>Someone will see to the queue.\<close>

definition attended :: "wloops \<Rightarrow> bool" where
  "attended s \<longleftrightarrow> wl_pending s \<or> sending (wl_dpc s) \<or> 0 < wl_direct s"

definition wakes_ok :: "wloops \<Rightarrow> bool" where
  "wakes_ok s \<longleftrightarrow> wl_dpc s = DGone \<or>
     (pending (wl_q s) \<noteq> {#} \<longrightarrow> attended s \<or> wl_spc s \<in> {SPushed, SNotify} \<or> wl_chan s \<noteq> []) \<and>
     (wl_spc s = SLen \<and> minShaperNotifySize < sq_Len (wl_q s) \<longrightarrow> attended s) \<and>
     (\<not> wl_open s \<longrightarrow> wl_spc s = STake \<and> (attended s \<or> wl_consumed s \<or> wl_dpc s = DTell))"

lemma Pop_ok:
  assumes "sq_ok b q"
  shows "sq_Pop q = Ret (Some r, q') \<Longrightarrow> sq_ok b q' \<and> pending q = add_mset r (pending q')"
    and "sq_Pop q = Ret (None, q') \<Longrightarrow> q' = q \<and> pending q = {#}"
    and "\<exists>x. sq_Pop q = Ret x"
proof -
  have none: "sq_Pop q = Ret (None, q)" "pending q = {#}" if "sq_rrList q = []"
    using that assms by (auto simp: sq_Pop_def sq_ok_def pending_def split: option.split)
  show "sq_ok b q' \<and> pending q = add_mset r (pending q')" if "sq_Pop q = Ret (Some r, q')"
    using that none sq_Pop_served [OF assms] by (cases "sq_rrList q = []") auto
  show "q' = q \<and> pending q = {#}" if "sq_Pop q = Ret (None, q')"
    using that none sq_Pop_served [OF assms] by (cases "sq_rrList q = []") auto
  show "\<exists>x. sq_Pop q = Ret x" using none sq_Pop_served [OF assms] by (cases "sq_rrList q = []") auto
qed

lemma Len_pending: "sq_ok b q \<Longrightarrow> sq_Len q = int (size (pending q))"
  by (simp add: sq_ok_def sq_Len_def)

lemma queue_ok_sq: "queue_ok b given s \<Longrightarrow> sq_ok b (wl_q s)" by (simp add: queue_ok_def)

lemma hand_over_ok:
  assumes "hand_over r s t" "queue_ok b given s" "r \<in> in_window b"
  shows "queue_ok b (r # given) t"
proof -
  note ok = assms(2) [unfolded queue_ok_def] and push = sq_Push_ok(1,2) [OF queue_ok_sq [OF assms(2)] assms(3)]
  show ?thesis using assms(1) by (cases rule: hand_over.cases) (use ok push assms(3) in \<open>simp_all add: queue_ok_def\<close>)
qed

lemma hand_over_wakes:
  assumes "hand_over r s t" "wakes_ok s"
  shows "wakes_ok t"
  using assms(1)
proof (cases rule: hand_over.cases)
  case data
  then have "attended t = attended s" by (simp add: attended_def)
  then show ?thesis using assms(2) data by (auto simp: wakes_ok_def)
next
  case control
  then have "attended t" by (simp add: attended_def)
  then show ?thesis using assms(2) control by (auto simp: wakes_ok_def)
qed

lemma loop_step_ok:
  assumes "loop_step s t" "queue_ok b given s"
  shows "queue_ok b given t"
proof -
  note ok = assms(2) [unfolded queue_ok_def] and sq = queue_ok_sq [OF assms(2)]
  show ?thesis
    using assms(1)
  proof (cases rule: loop_step.cases)
    case (taken r rs)
    then have "r \<in> in_window b" using ok by simp
    then show ?thesis using ok taken sq_Push_ok(1,2) [OF sq, of r] by (simp add: queue_ok_def)
  next
    case (popped r q)
    then show ?thesis using Pop_ok(1) [OF sq popped(3)] ok by (simp add: queue_ok_def)
  next
    case (popped_none q)
    then show ?thesis using Pop_ok(2) [OF sq popped_none(3)] ok by (simp add: queue_ok_def)
  next
    case (written r n err)
    then show ?thesis using ok by (cases err) (simp_all add: queue_ok_def)
  qed (use ok in \<open>simp_all add: queue_ok_def\<close>)
qed

lemma loop_step_wakes:
  assumes "loop_step s t" "queue_ok b given s" "wakes_ok s"
  shows "wakes_ok t"
  using assms(1)
proof (cases rule: loop_step.cases)
  case (popped r q)
  then show ?thesis using assms(3) by (simp add: wakes_ok_def attended_def)
next
  case (popped_none q)
  have "q = wl_q s" "pending (wl_q s) = {#}" "sq_Len (wl_q s) = 0"
    using Pop_ok(2) [OF queue_ok_sq [OF assms(2)] popped_none(3)] Len_pending [OF queue_ok_sq [OF assms(2)]] by simp_all
  then show ?thesis using assms(3) popped_none by (auto simp: wakes_ok_def attended_def minShaperNotifySize_def)
next
  case length_test
  have "sq_Len (wl_q s) = int (size (pending (wl_q s)))" using Len_pending [OF queue_ok_sq [OF assms(2)]] .
  then show ?thesis using assms(3) length_test
    by (auto simp: wakes_ok_def attended_def minShaperNotifySize_def maxShaperSize_def)
qed (use assms(3) in \<open>auto simp: wakes_ok_def attended_def\<close>)

lemma reach_ok: "wl_reach b given s \<Longrightarrow> queue_ok b given s \<and> wakes_ok s"
proof (induction rule: wl_reach.induct)
  case new
  show ?case by (simp add: queue_ok_def wakes_ok_def wl_new_def)
qed (use hand_over_ok hand_over_wakes loop_step_ok loop_step_wakes in blast)+

text \<open>What the loops have still to do.\<close>

fun left_s :: "spc \<Rightarrow> nat" where
  "left_s STake = 0" | "left_s SLen = 1" | "left_s SNotify = 6" | "left_s SPushed = 7"

fun left_d :: "dpc \<Rightarrow> nat" where
  "left_d DPop = 3" | "left_d (DWrite r) = 4" | "left_d DTell = 2" | "left_d _ = 0"

definition work_left :: "wloops \<Rightarrow> nat" where
  "work_left s = 10 * length (wl_chan s) + 2 * size (pending (wl_q s)) + left_s (wl_spc s) + left_d (wl_dpc s) +
     (if wl_pending s then 4 else 0) + (if wl_consumed s then 1 else 0) + 5 * wl_direct s"

lemma work_decreases:
  assumes "loop_step s t" "queue_ok b given s"
  shows "work_left t < work_left s"
  using assms(1)
proof (cases rule: loop_step.cases)
  case (popped r q)
  then show ?thesis using Pop_ok(1) [OF queue_ok_sq [OF assms(2)] popped(3)] assms(2) by (simp add: queue_ok_def work_left_def)
next
  case (popped_none q)
  then show ?thesis using Pop_ok(2) [OF queue_ok_sq [OF assms(2)] popped_none(3)] assms(2) by (simp add: queue_ok_def work_left_def)
qed (use assms(2) in \<open>auto simp: queue_ok_def work_left_def sq_Push_ok\<close>)

lemma rest_answered:
  assumes "queue_ok b given s" "wakes_ok s" "\<And>t. \<not> loop_step s t" "wl_dpc s \<noteq> DGone"
  shows "mset (map fst (wl_results s)) = mset given"
proof -
  have spc: "wl_spc s = STake" using assms(3) by (cases "wl_spc s") (blast intro: loop_step.intros)+
  have dpc: "wl_dpc s = DWait"
  proof (cases "wl_dpc s")
    case DPop
    obtain x q where "sq_Pop (wl_q s) = Ret (x, q)" using Pop_ok(3) assms(1) by (force simp: queue_ok_def)
    then show ?thesis using assms(3) DPop by (cases x) (blast intro: loop_step.intros)+
  qed (use assms(3,4) in \<open>blast intro: loop_step.intros\<close>)+
  have "wl_direct s = 0" using assms(3) by (cases "wl_direct s") (blast intro: loop_step.intros)+
  moreover have "\<not> wl_pending s" "\<not> wl_consumed s" using assms(3) spc dpc by (blast intro: loop_step.intros)+
  ultimately have idle: "\<not> attended s" "wl_open s" using assms(2) dpc by (auto simp: attended_def wakes_ok_def)
  then have "wl_chan s = []" using assms(3) spc by (cases "wl_chan s") (blast intro: loop_step.intros)+
  moreover from this have "pending (wl_q s) = {#}" using assms(2) dpc spc idle by (auto simp: wakes_ok_def)
  ultimately show ?thesis using assms(1) dpc by (simp add: queue_ok_def)
qed

text \<open>
  C18. No wake-up is lost: from whatever the interleaving of writers and loops has led to, the loops come to
  rest, and then, unless a write has failed, every request handed over has its result.
\<close>

theorem every_request_answered:
  assumes "wl_reach b given s"
  shows "\<not> (\<exists>run. run 0 = s \<and> (\<forall>i. loop_step (run i) (run (Suc i)))) \<and>
    (\<forall>t. loop_step\<^sup>*\<^sup>* s t \<and> (\<forall>u. \<not> loop_step t u) \<longrightarrow> wl_dpc t = DGone \<or> mset (map fst (wl_results t)) = mset given)"
proof (intro conjI notI allI impI)
  assume "\<exists>run. run 0 = s \<and> (\<forall>i. loop_step (run i) (run (Suc i)))"
  then obtain run where run: "run 0 = s" "\<And>i. loop_step (run i) (run (Suc i))" by blast
  have "queue_ok b given (run i)" for i
    by (induction i) (use run reach_ok [OF assms] loop_step_ok in blast)+
  then have "work_left (run (Suc i)) < work_left (run i)" for i using work_decreases run(2) by blast
  then have "(run (Suc i), run i) \<in> measure work_left" for i by simp
  then show False using wf_measure [of work_left] unfolding wf_iff_no_infinite_down_chain by blast
next
  fix t assume t: "loop_step\<^sup>*\<^sup>* s t \<and> (\<forall>u. \<not> loop_step t u)"
  then have "loop_step\<^sup>*\<^sup>* s t" by blast
  then have "wl_reach b given t" by (induction rule: rtranclp_induct) (use assms wl_reach.loop in blast)+
  then show "wl_dpc t = DGone \<or> mset (map fst (wl_results t)) = mset given"
    using reach_ok rest_answered t by blast
qed

subsection \<open>The queue stays bounded\<close>

definition data_in :: "shaper \<Rightarrow> nat" where
  "data_in q = size (filter_mset (\<lambda>r. wr_class r = CLSDATA) (pending q))"

definition may_open :: "wloops \<Rightarrow> nat" where
  "may_open s = (if wl_consumed s then 1 else 0) + (if wl_dpc s = DTell then 1 else 0)"

definition size_ok :: "wloops \<Rightarrow> bool" where
  "size_ok s \<longleftrightarrow> length (wl_chan s) \<le> maxShaperSize \<and> (\<forall>r \<in> set (wl_chan s). wr_class r = CLSDATA) \<and>
     data_in (wl_q s) + may_open s \<le> maxShaperSize + 2 \<and>
     (wl_spc s = STake \<and> wl_open s \<and> maxShaperSize \<le> data_in (wl_q s) \<longrightarrow> data_in (wl_q s) + may_open s \<le> maxShaperSize + 1)"

lemma data_in_Len: "sq_ok b q \<Longrightarrow> int (data_in q) \<le> sq_Len q"
  by (simp add: data_in_def Len_pending size_filter_mset_lesseq)

lemma data_in_Push: "sq_ok b q \<Longrightarrow> r \<in> in_window b \<Longrightarrow> data_in (sq_Push r q) = data_in q + (if wr_class r = CLSDATA then 1 else 0)"
  by (simp add: data_in_def sq_Push_ok)

lemma data_in_Pop: "sq_ok b q \<Longrightarrow> sq_Pop q = Ret (x, q') \<Longrightarrow> data_in q' \<le> data_in q \<and> (x = None \<longrightarrow> data_in q' = 0)"
  using Pop_ok(1,2) [of b q] by (cases x) (auto simp: data_in_def)

lemma hand_over_size:
  assumes "hand_over r s t" "size_ok s" "queue_ok b given s" "r \<in> in_window b"
  shows "size_ok t"
  using assms by (cases rule: hand_over.cases) (auto simp: size_ok_def may_open_def queue_ok_def data_in_Push)

lemma loop_step_size:
  assumes "loop_step s t" "size_ok s" "queue_ok b given s"
  shows "size_ok t"
  using assms(1)
proof (cases rule: loop_step.cases)
  case (taken r rs)
  have "wr_class r = CLSDATA" "data_in (sq_Push r (wl_q s)) = data_in (wl_q s) + 1"
    using assms(2,3) taken by (auto simp: queue_ok_def size_ok_def data_in_Push)
  then show ?thesis using assms(2) taken by (cases "maxShaperSize \<le> data_in (wl_q s)") (auto simp: size_ok_def may_open_def)
next
  case (popped r q)
  have "data_in q \<le> data_in (wl_q s)" using data_in_Pop [OF queue_ok_sq [OF assms(3)] popped(3)] by blast
  then show ?thesis using assms(2) popped by (auto simp: size_ok_def may_open_def)
next
  case (popped_none q)
  have "data_in q = 0" using data_in_Pop [OF queue_ok_sq [OF assms(3)] popped_none(3)] by blast
  then show ?thesis using assms(2) popped_none by (auto simp: size_ok_def may_open_def maxShaperSize_def)
next
  case length_test
  have "int (data_in (wl_q s)) \<le> sq_Len (wl_q s)" using data_in_Len [OF queue_ok_sq [OF assms(3)]] .
  then show ?thesis using assms(2) length_test by (auto simp: size_ok_def may_open_def)
qed (use assms(2) in \<open>auto simp: size_ok_def may_open_def\<close>)

text \<open>
  However many write at once, the data that wait are bounded: the channel keeps to its capacity, and the
  queue exceeds its limit by two at most, for wake-ups that are out of date.
\<close>

theorem write_queue_bounded:
  assumes "wl_reach b given s"
  shows "length (wl_chan s) \<le> 1024 \<and> data_in (wl_q s) \<le> 1026"
proof -
  have "size_ok s"
    using assms
  proof (induction rule: wl_reach.induct)
    case new
    show ?case by (simp add: size_ok_def wl_new_def may_open_def data_in_def)
  next
    case (hand given s r t)
    then show ?case using hand_over_size reach_ok by blast
  next
    case (loop given s t)
    then show ?case using loop_step_size reach_ok by blast
  qed
  then show ?thesis by (simp add: size_ok_def maxShaperSize_def)
qed

subsection \<open>Instances of the properties\<close>

definition toy_loops :: wloops where
  "toy_loops = wl_new\<lparr>wl_chan := [data_req 3 1]\<rparr>"

lemma toy_loops_reach: "wl_reach 0 [data_req 3 1] toy_loops"
proof -
  have "hand_over (data_req 3 1) wl_new (wl_new\<lparr>wl_chan := wl_chan wl_new @ [data_req 3 1]\<rparr>)"
    by (rule hand_over.data) (simp_all add: data_req_def wl_new_def maxShaperSize_def)
  then have "hand_over (data_req 3 1) wl_new toy_loops" by (simp add: toy_loops_def wl_new_def)
  moreover have "data_req 3 1 \<in> in_window 0" by (simp add: in_window_def data_req_def)
  ultimately show ?thesis using wl_reach.hand [OF wl_reach.new] by blast
qed

lemma comes_to_rest:
  assumes "\<not> (\<exists>run. run 0 = s \<and> (\<forall>i. R (run i) (run (Suc i))))"
  shows "\<exists>t. R\<^sup>*\<^sup>* s t \<and> (\<forall>u. \<not> R t u)"
proof (rule ccontr)
  assume "\<not> ?thesis"
  then have "\<And>t. R\<^sup>*\<^sup>* s t \<Longrightarrow> \<exists>u. R t u" by blast
  then have "\<exists>y. R\<^sup>*\<^sup>* s y \<and> R x y" if "R\<^sup>*\<^sup>* s x" for x
    using that by (meson rtranclp.rtrancl_into_rtrancl)
  then have "\<exists>y. (R\<^sup>*\<^sup>* s y \<and> (Suc n = 0 \<longrightarrow> y = s)) \<and> R x y" if "R\<^sup>*\<^sup>* s x \<and> (n = 0 \<longrightarrow> x = s)" for x and n :: nat
    using that by simp
  then obtain run where "\<And>n :: nat. (R\<^sup>*\<^sup>* s (run n) \<and> (n = 0 \<longrightarrow> run n = s)) \<and> R (run n) (run (Suc n))"
    using dependent_nat_choice [of "\<lambda>n x. R\<^sup>*\<^sup>* s x \<and> (n = 0 \<longrightarrow> x = s)" "\<lambda>_. R"] by blast
  then show False using assms by blast
qed

lemma every_request_answered_witness:
  "\<exists>t. loop_step\<^sup>*\<^sup>* toy_loops t \<and> (wl_dpc t = DGone \<or> mset (map fst (wl_results t)) = {#data_req 3 1#})"
proof -
  note answered = every_request_answered [OF toy_loops_reach]
  obtain t where "loop_step\<^sup>*\<^sup>* toy_loops t" "\<forall>u. \<not> loop_step t u"
    using comes_to_rest [OF conjunct1 [OF answered]] by blast
  then show ?thesis using conjunct2 [OF answered] by auto
qed

lemma write_queue_bounded_witness: "length (wl_chan toy_loops) \<le> 1024 \<and> data_in (wl_q toy_loops) \<le> 1026"
  using write_queue_bounded [OF toy_loops_reach] .

end
