(* ===== verification/Server_Files.thy ===== *)
theory Server_Files
  imports Server_Api
begin

text \<open>
  The rest of the API of \<open>src/servercontroll/all_servers.go\<close>: listing, downloading and uploading files, and
  the log, beside the handlers of \<open>Server_Api\<close>, behind the multiplexer of the standard library.  The
  files of the served directory are a map from paths; a directory is what files lie below it.  Of
  the listing only the names are kept.
\<close>

subsection \<open>Paths\<close>

text \<open>\<open>path.Clean\<close> of a rooted path, as its elements.\<close>

fun clean_parts :: "string list \<Rightarrow> string list \<Rightarrow> string list" where
  "clean_parts [] acc = rev acc"
| "clean_parts (p # ps) acc =
     (if p = [] \<or> p = ''.'' then clean_parts ps acc
      else if p = ''..'' then clean_parts ps (tl acc)
      else clean_parts ps (p # acc))"

definition clean_path :: "string \<Rightarrow> string list" where "clean_path s = clean_parts (split_on CHR ''/'' s) []"

definition rooted :: "string list \<Rightarrow> string" where "rooted ps = concat (map (\<lambda>p. CHR ''/'' # p) ps)"

text \<open>A request whose path is not clean is redirected by the multiplexer; a slash at the end is kept.\<close>

definition mux_clean :: "string \<Rightarrow> string" where
  "mux_clean s = (let c = rooted (clean_path s) in if c = [] then ''/'' else if last s = CHR ''/'' then c @ ''/'' else c)"

subsection \<open>Files and logs\<close>

record site =
  si_pool :: pool
  si_www :: "(string \<times> string) list"
  si_log :: "string option"

datatype site_resp = RApi http_resp | RList "string list" | RFile string | RText int string | RRedirect

definition behind_auth :: "api_env \<Rightarrow> http_req \<Rightarrow> site \<Rightarrow> site_resp \<times> site \<Rightarrow> (site_resp \<times> site) go" where
  "behind_auth E rq s r =
     go_bind (basicAuth E (\<lambda>_ pl. Ret (no_resp, pl)) rq (si_pool s)) (\<lambda>(a, _).
       Ret (if a = unauthorized then (RApi unauthorized, s) else r))"

text \<open>\<open>Ls\<close> of the directory: the first element below it of every file.\<close>

definition entries :: "string \<Rightarrow> site \<Rightarrow> string list" where
  "entries d s = remdups (map (\<lambda>(p, _). hd (split_on CHR ''/'' (drop (length d + 1) p))) (filter (\<lambda>(p, _). has_prefix p (d @ ''/'')) (si_www s)))"

definition z_files :: "string \<Rightarrow> site \<Rightarrow> site_resp \<times> site" where
  "z_files www s = (RList (entries www s), s)"

text \<open>The file server: a file, the list of a directory, or nothing; \<open>index.html\<close> is redirected.\<close>

definition download :: "string \<Rightarrow> string \<Rightarrow> site \<Rightarrow> site_resp \<times> site" where
  "download www name s =
     (let path = www @ rooted (clean_path name) in
      if has_suffix (CHR ''/'' # name) ''/index.html'' then (RRedirect, s)
      else case map_of (si_www s) path of
        Some c \<Rightarrow> (RFile c, s)
      | None \<Rightarrow> if entries path s = [] then (RText 404 ''404 page not found'', s) else (RList (entries path s), s))"

definition upload :: "upload_env \<Rightarrow> string \<Rightarrow> goerr + string \<times> string \<Rightarrow> site \<Rightarrow> (site_resp \<times> site) go" where
  "upload U www form s =
     go_bind (uploadFile U www form) (\<lambda>(code, path).
       Ret (case (path, form) of
         (Some p, Inr (_, content)) \<Rightarrow> (RText code ''Successfully Uploaded File'', s\<lparr>si_www := AList.update p content (si_www s)\<rparr>)
       | _ \<Rightarrow> (RText code [], s)))"

definition z_log :: "site \<Rightarrow> site_resp \<times> site" where
  "z_log s = (RText 200 (case si_log s of None \<Rightarrow> ''/tmp/z.log not exists !!!'' | Some t \<Rightarrow> t), s)"

text \<open>The log is shown and then emptied.\<close>

definition c_log :: "site \<Rightarrow> site_resp \<times> site" where
  "c_log s = (RText 200 (case si_log s of None \<Rightarrow> ''/tmp/z.log not exists !!!'' | Some t \<Rightarrow> t),
     s\<lparr>si_log := map_option (\<lambda>_. []) (si_log s)\<rparr>)"

text \<open>All routes; those of the files exist only when a directory is served.\<close>

definition site_serve ::
  "api_env \<Rightarrow> upload_env \<Rightarrow> string \<Rightarrow> string \<Rightarrow> http_req \<Rightarrow> goerr + string \<times> string \<Rightarrow> site \<Rightarrow> (site_resp \<times> site) go" where
  "site_serve E U www path rq form s =
     (if path \<noteq> mux_clean path then Ret (RRedirect, s)
      else if path = ''/z-files'' \<and> www \<noteq> [] then behind_auth E rq s (z_files www s)
      else if has_prefix path ''/z-files-d/'' \<and> www \<noteq> [] then Ret (download www (drop 11 path) s)
      else if path = ''/z-files-d'' \<and> www \<noteq> [] then Ret (RRedirect, s)
      else if path = ''/z-files-u'' \<and> www \<noteq> [] then upload U www form s
      else if path = ''/z-log'' then behind_auth E rq s (z_log s)
      else if path = ''/c-log'' then behind_auth E rq s (c_log s)
      else go_bind (serve E path rq (si_pool s)) (\<lambda>(r, pl). Ret (RApi r, s\<lparr>si_pool := pl\<rparr>)))"

subsection \<open>What a request without the password can do\<close>

definition has_password :: "api_env \<Rightarrow> http_req \<Rightarrow> bool" where
  "has_password E rq \<longleftrightarrow> (\<exists>token. hr_auth rq = ''Basic '' @ token \<and>
     b64_decode token = Some (''admin@example.com:'' @ itoa (ae_year E) @ ''@2pwd''))"

lemma basicAuth_refuses:
  assumes "\<not> has_password E rq"
  shows "basicAuth E nxt rq pl = Ret (unauthorized, pl)"
proof -
  have "basicAuth E nxt rq pl = Ret (unauthorized, pl) \<or> (\<exists>token decoded. splitn2 CHR '' '' (hr_auth rq) = [''Basic'', token] \<and>
      b64_decode token = Some decoded \<and> splitn2 CHR '':'' decoded = [''admin@example.com'', itoa (ae_year E) @ ''@2pwd''])"
    by (auto simp: basicAuth_def split: list.splits option.splits)
  then show ?thesis using assms by (auto simp: has_password_def splitn2_eq)
qed

lemma upload_keeps:
  assumes "upload U www form s = Ret (r, t)"
  shows "si_pool t = si_pool s \<and> si_log t = si_log s"
  using assms by (cases form) (auto simp: upload_def go_bind_Ret_conv split: option.splits)

lemma download_keeps [simp]: "snd (download www name s) = s" "snd (z_files www s) = s" "snd (z_log s) = s"
  by (auto simp: download_def z_files_def z_log_def Let_def split: option.split)

text \<open>
  Whatever is asked for without this year's password, the tunnels, their ports and the log stay as they
  are; only files can change.
\<close>

theorem without_password_only_files:
  assumes "\<not> has_password E rq" "site_serve E U www path rq form s = Ret (r, t)"
  shows "si_pool t = si_pool s \<and> si_log t = si_log s"
proof -
  note refuse = basicAuth_refuses [OF assms(1)]
  have api: "serve E path rq pl = Ret (r1, pl1) \<Longrightarrow> pl1 = pl" for r1 pl pl1
    by (auto simp: serve_def refuse split: option.splits)
  show ?thesis
  proof (cases "path = mux_clean path \<and> path = ''/z-files-u'' \<and> www \<noteq> []")
    case True
    then show ?thesis using assms(2) upload_keeps by (auto simp: site_serve_def has_prefix_def)
  next
    case False
    then show ?thesis using assms(2) api
      by (auto simp: site_serve_def behind_auth_def refuse go_bind_Ret_conv split: if_splits)
        (metis download_keeps(1) snd_conv)+
  qed
qed

definition file_name :: "string \<Rightarrow> bool" where
  "file_name n \<longleftrightarrow> n \<notin> {[], ''.'', ''..'', ''index.html''} \<and> CHR ''/'' \<notin> set n \<and> CHR '' '' \<notin> set n \<and> \<not> str_contains n ''..''"

lemma split_no_slash: "CHR ''/'' \<notin> set n \<Longrightarrow> split_on CHR ''/'' n = [n]"
  by (rule split_on_absent)

lemma clean_file_name: "file_name n \<Longrightarrow> clean_path n = [n]"
  by (auto simp: file_name_def clean_path_def split_no_slash)

lemma last_no_slash: "n \<noteq> [] \<Longrightarrow> CHR ''/'' \<notin> set n \<Longrightarrow> last (xs @ n) \<noteq> CHR ''/''"
  by (metis last_appendR last_in_set)

lemma mux_download: "file_name n \<Longrightarrow> mux_clean (''/z-files-d/'' @ n) = ''/z-files-d/'' @ n"
proof -
  assume n: "file_name n"
  have "split_on CHR ''/'' ([] @ CHR ''/'' # ''z-files-d'' @ CHR ''/'' # n) = [] # ''z-files-d'' # split_on CHR ''/'' n"
    by (subst split_on_append, simp, subst split_on_append) simp_all
  then have "split_on CHR ''/'' (''/z-files-d/'' @ n) = [[], ''z-files-d'', n]" using n by (simp add: file_name_def split_no_slash)
  then have "clean_path (''/z-files-d/'' @ n) = [''z-files-d'', n]" using n unfolding clean_path_def by (simp add: file_name_def)
  moreover have "last (''/z-files-d/'' @ n) \<noteq> CHR ''/''" using n by (intro last_no_slash) (auto simp: file_name_def)
  ultimately show ?thesis by (simp add: mux_clean_def rooted_def Let_def)
qed

text \<open>
  C17. The files are not behind the password: when the disk takes it, anyone can put a file of any content
  into the served directory and anyone gets exactly that content from there, under every plain name, whether or
  not a file of that name was there before.  A plain name has no slash, no blank and no two dots
  in a row, only characters that print, and is neither a dot nor \<open>index.html\<close>, which is served as the
  directory; the upload refuses slashes and double dots and replaces blanks.
\<close>

theorem anyone_publishes_files:
  assumes "file_name n" "www \<noteq> []" "gs_in_ok (ue_G U)" "ue_Printable U n = n" "ue_PathJoin U www n = www @ ''/'' @ n"
    and "ue_temp U = Inr tmp" "ue_rename U tmp (www @ ''/'' @ n) = None"
  shows "\<exists>t. site_serve E U www ''/z-files-u'' rq (Inr (n, content)) s = Ret (RText 200 ''Successfully Uploaded File'', t) \<and>
    site_serve E U www (''/z-files-d/'' @ n) rq' form t = Ret (RFile content, t)"
proof -
  have no: "\<not> gs_In (ue_G U) n ''..''" "\<not> gs_In (ue_G U) n ''/''" "\<not> gs_In (ue_G U) n '' ''"
    using assms(1) gs_inD [OF assms(3)] by (auto simp: file_name_def str_contains_char)
  have "mux_clean ''/z-files-u'' = ''/z-files-u''" by code_simp
  moreover have up: "uploadFile U www (Inr (n, content)) = Ret (200, Some (www @ ''/'' @ n))"
    using no assms(4-7) by (simp add: uploadFile_def Let_def)
  ultimately have "site_serve E U www ''/z-files-u'' rq (Inr (n, content)) s =
      Ret (RText 200 ''Successfully Uploaded File'', s\<lparr>si_www := AList.update (www @ ''/'' @ n) content (si_www s)\<rparr>)"
    using assms(2) by (simp add: site_serve_def upload_def has_prefix_def)
  moreover have "\<not> has_suffix (CHR ''/'' # n) ''/index.html''"
  proof
    assume "has_suffix (CHR ''/'' # n) ''/index.html''"
    then obtain ys where "CHR ''/'' # n = ys @ CHR ''/'' # ''index.html''" by (auto simp: has_suffix_iff suffix_def)
    then show False using assms(1) by (cases ys) (auto simp: file_name_def)
  qed
  then have "site_serve E U www (''/z-files-d/'' @ n) rq' form t = Ret (RFile content, t)"
    if "t = s\<lparr>si_www := AList.update (www @ ''/'' @ n) content (si_www s)\<rparr>" for t
    using that mux_download [OF assms(1)] assms(2) clean_file_name [OF assms(1)]
    by (simp add: site_serve_def download_def has_prefix_def update_conv' rooted_def Let_def)
  ultimately show ?thesis by blast
qed

lemma clean_parts_no_up: "''..'' \<notin> set acc \<Longrightarrow> ''..'' \<notin> set (clean_parts ps acc)"
proof (induction ps acc rule: clean_parts.induct)
  case (2 p ps acc)
  have "set (tl acc) \<subseteq> set acc" by (cases acc) auto
  then show ?case using 2 by auto
qed simp

text \<open>But no request gets a file from outside of the directory.\<close>

theorem download_confined:
  assumes "download www name s = (RFile c, t)"
  shows "\<exists>ps. map_of (si_www s) (www @ rooted ps) = Some c \<and> ''..'' \<notin> set ps"
  using assms clean_parts_no_up [of "[]" "split_on CHR ''/'' name"]
  by (intro exI [of _ "clean_path name"]) (auto simp: download_def clean_path_def Let_def split: if_splits option.splits)

subsection \<open>Instances of the properties\<close>

definition toy_site :: site where
  "toy_site = \<lparr>si_pool = one_tunnel, si_www = [], si_log = Some ''started''\<rparr>"

definition anyone :: http_req where "anyone = \<lparr>hr_auth = [], hr_body = Inr []\<rparr>"

lemma without_password_only_files_witness:
  "\<exists>t. site_serve toy_api toy_upload ''/www'' ''/c-log'' anyone (Inl EOF) toy_site = Ret (RApi unauthorized, t) \<and> si_log t = Some ''started''"
proof -
  have no: "\<not> has_password toy_api anyone" by (simp add: has_password_def anyone_def)
  have "mux_clean ''/c-log'' = ''/c-log''" by code_simp
  then obtain t where t: "site_serve toy_api toy_upload ''/www'' ''/c-log'' anyone (Inl EOF) toy_site = Ret (RApi unauthorized, t)"
    by (simp add: site_serve_def behind_auth_def basicAuth_refuses [OF no] has_prefix_def)
  then show ?thesis using without_password_only_files [OF no t] by (simp add: toy_site_def)
qed

lemma anyone_publishes_files_witness:
  "\<exists>t. site_serve toy_api toy_upload ''/www'' ''/z-files-u'' anyone (Inr (''a.sh'', ''rm'')) toy_site = Ret (RText 200 ''Successfully Uploaded File'', t) \<and>
    site_serve toy_api toy_upload ''/www'' ''/z-files-d/a.sh'' anyone (Inl EOF) t = Ret (RFile ''rm'', t)"
proof -
  have n: "file_name ''a.sh''" by (simp add: file_name_def has_prefix_def)
  have G: "gs_in_ok (ue_G toy_upload)" by (simp add: toy_upload_def gs_in_ok_def gs_std_def)
  from anyone_publishes_files [OF n _ G, of "''/www''" "''/tmp/upload-1.file''" toy_api anyone "''rm''" toy_site anyone "Inl EOF"]
  show ?thesis by (simp add: toy_upload_def)
qed

lemma download_confined_witness:
  "\<exists>ps. map_of [(''/www/a'', ''x'')] (''/www'' @ rooted ps) = Some ''x'' \<and> ''..'' \<notin> set ps"
proof -
  have "download ''/www'' ''../a'' (toy_site\<lparr>si_www := [(''/www/a'', ''x'')]\<rparr>) = (RFile ''x'', toy_site\<lparr>si_www := [(''/www/a'', ''x'')]\<rparr>)"
  proof -
    have "clean_path ''../a'' = [''a'']" "\<not> has_suffix ''/../a'' ''/index.html''" by code_simp+
    then show ?thesis by (simp add: download_def rooted_def)
  qed
  from download_confined [OF this] show ?thesis by simp
qed

end
