(* ===== verification/Start_Up.thy ===== *)
theory Start_Up
  imports Stream_Budget Port_Pool Gs_Lib
begin

text \<open>
  How the server starts, guards and replaces itself: \<open>src/main.go\<close>, \<open>HTTP3Server\<close> of
  \<open>src/servercontroll/server.go\<close>, and \<open>src/update/update.go\<close>.  The flags are read as the package \<open>flag\<close> of
  the standard library does.  Starting a process, listening, what shell commands print and which
  files they make are parameters.
\<close>

subsection \<open>Flags\<close>

record flags =
  fg_tls :: string
  fg_www :: string
  fg_d :: bool
  fg_watch :: string
  fg_log :: string
  fg_g :: bool
  fg_nodns :: bool
  fg_streams :: int
  fg_tunnels :: int

definition default_flags :: flags where
  "default_flags = \<lparr>fg_tls = ''0.0.0.0:55443'', fg_www = ''/tmp/www'', fg_d = False, fg_watch = [], fg_log = ''/tmp/z.log'',
     fg_g = False, fg_nodns = False, fg_streams = 8000, fg_tunnels = 16\<rparr>"

definition bool_flag :: "string \<Rightarrow> bool" where "bool_flag name \<longleftrightarrow> name \<in> {''d'', ''g'', ''nodns''}"

definition string_flag :: "string \<Rightarrow> bool" where "string_flag name \<longleftrightarrow> name \<in> {''tls-api'', ''www'', ''watch'', ''log''}"

definition number_flag :: "string \<Rightarrow> bool" where "number_flag name \<longleftrightarrow> name \<in> {''max-streams'', ''max-tunnels''}"

definition parse_bool :: "string \<Rightarrow> bool option" where
  "parse_bool s =
     (if s \<in> {''1'', ''t'', ''T'', ''TRUE'', ''true'', ''True''} then Some True
      else if s \<in> {''0'', ''f'', ''F'', ''FALSE'', ''false'', ''False''} then Some False
      else None)"

definition set_bool :: "string \<Rightarrow> bool \<Rightarrow> flags \<Rightarrow> flags" where
  "set_bool name v f = (if name = ''d'' then f\<lparr>fg_d := v\<rparr> else if name = ''g'' then f\<lparr>fg_g := v\<rparr> else f\<lparr>fg_nodns := v\<rparr>)"

definition set_string :: "string \<Rightarrow> string \<Rightarrow> flags \<Rightarrow> flags" where
  "set_string name v f =
     (if name = ''tls-api'' then f\<lparr>fg_tls := v\<rparr> else if name = ''www'' then f\<lparr>fg_www := v\<rparr>
      else if name = ''watch'' then f\<lparr>fg_watch := v\<rparr> else f\<lparr>fg_log := v\<rparr>)"

definition set_number :: "string \<Rightarrow> int \<Rightarrow> flags \<Rightarrow> flags" where
  "set_number name v f = (if name = ''max-streams'' then f\<lparr>fg_streams := v\<rparr> else f\<lparr>fg_tunnels := v\<rparr>)"

text \<open>\<open>num\<close> is \<open>ParseInt\<close> with base 0; a value that is not one of the flag ends the program.\<close>

definition set_flag :: "(string \<Rightarrow> int option) \<Rightarrow> string \<Rightarrow> string \<Rightarrow> flags \<Rightarrow> flags option" where
  "set_flag num name v f =
     (if bool_flag name then map_option (\<lambda>b. set_bool name b f) (parse_bool v)
      else if string_flag name then Some (set_string name v f)
      else if number_flag name then map_option (\<lambda>n. set_number name n f) (num v)
      else None)"

text \<open>An argument: no flag, a syntax error, or a name and perhaps a value after the first equals sign.\<close>

datatype argument = Plain | Malformed | Named string "string option"

definition name_of :: "string \<Rightarrow> argument" where
  "name_of name =
     (case name of
        [] \<Rightarrow> Malformed
      | c # cs \<Rightarrow>
          if c = CHR ''-'' \<or> c = CHR ''='' then Malformed
          else (case dropWhile (\<lambda>x. x \<noteq> CHR ''='') cs of
             [] \<Rightarrow> Named name None
           | _ # v \<Rightarrow> Named (c # takeWhile (\<lambda>x. x \<noteq> CHR ''='') cs) (Some v)))"

definition read_arg :: "string \<Rightarrow> argument" where
  "read_arg s =
     (case s of
        [] \<Rightarrow> Plain
      | c # name \<Rightarrow>
          if c \<noteq> CHR ''-'' \<or> name = [] then Plain
          else if hd name = CHR ''-'' then (if tl name = [] then Plain else name_of (tl name))
          else name_of name)"

fun parse_flags :: "(string \<Rightarrow> int option) \<Rightarrow> string list \<Rightarrow> flags \<Rightarrow> flags option" where
  "parse_flags num [] f = Some f"
| "parse_flags num (s # args) f =
     (case read_arg s of
        Plain \<Rightarrow> Some f
      | Malformed \<Rightarrow> None
      | Named name (Some v) \<Rightarrow> (case set_flag num name v f of None \<Rightarrow> None | Some f' \<Rightarrow> parse_flags num args f')
      | Named name None \<Rightarrow>
          if bool_flag name then parse_flags num args (set_bool name True f)
          else (case args of
             [] \<Rightarrow> None
           | v # args' \<Rightarrow> (case set_flag num name v f of None \<Rightarrow> None | Some f' \<Rightarrow> parse_flags num args' f')))"

subsection \<open>The server\<close>

text \<open>\<open>me_start k\<close>: the k-th process that is started can be; \<open>me_ps k\<close>: what the k-th look at the processes prints.\<close>

record main_env =
  me_gs :: gslib
  me_goos :: string
  me_num :: "string \<Rightarrow> int option"
  me_TryInt :: "string \<Rightarrow> int"
  me_log :: "string \<Rightarrow> bool"
  me_start :: "nat \<Rightarrow> string list \<Rightarrow> bool"
  me_ps :: "nat \<Rightarrow> string \<Rightarrow> string"
  me_pem :: bool
  me_pair :: bool
  me_listen :: "string \<Rightarrow> bool"

record machine =
  mh_budget :: budget
  mh_MaxTunnels :: int
  mh_ports :: ports
  mh_started :: "(string list \<times> string option) list"
  mh_dirs :: "string list"
  mh_dns :: "int option"
  mh_serving :: "(string \<times> string) option"
  mh_looks :: nat

text \<open>How a call ends: it returns, the process exits, or it panics.\<close>

datatype ending = Goes | Ends | Panics

definition Daemon :: "main_env \<Rightarrow> string list \<Rightarrow> string \<Rightarrow> machine \<Rightarrow> ending \<times> machine" where
  "Daemon E args LOG_FILE s =
     (if LOG_FILE \<noteq> [] \<and> \<not> me_log E LOG_FILE then (Goes, s)
      else if args = [] then (Panics, s)
      else if \<not> me_start E (length (mh_started s)) args then (Ends, s)
      else (Goes, s\<lparr>mh_started := mh_started s @ [(args, if LOG_FILE = [] then None else Some LOG_FILE)]\<rparr>))"

text \<open>
  The API.  Over TLS an address that cannot be listened on is logged, and then the nil listener
  is served, which panics; over QUIC the error ends the call.
\<close>

definition HTTP3Server :: "main_env \<Rightarrow> string \<Rightarrow> string \<Rightarrow> bool \<Rightarrow> machine \<Rightarrow> ending \<times> machine" where
  "HTTP3Server E addr wwwDir useQuic s =
     (case gs_Split (me_gs E) addr '':'' of
        _ # p # _ \<Rightarrow>
          let s1 = s\<lparr>mh_ports := OpenPortUFW (me_goos E) (me_TryInt E p) (mh_ports s)\<rparr> in
          if \<not> me_pem E then (Ends, s1)
          else if \<not> me_pair E then (Panics, s1)
          else if me_listen E addr then (Goes, s1\<lparr>mh_serving := Some (addr, wwwDir)\<rparr>)
          else if useQuic then (Goes, s1)
          else (Panics, s1)
      | _ \<Rightarrow> (Panics, s))"

datatype main_end = Usage | Exit | Crash | Watching string | Serving

text \<open>The limits, where they are positive, and the directory that is served.\<close>

definition prepare :: "flags \<Rightarrow> machine \<Rightarrow> machine" where
  "prepare f s = s\<lparr>
     mh_budget := (if 0 < fg_streams f then SetGlobalStreamLimit (fg_streams f) (mh_budget s) else mh_budget s),
     mh_MaxTunnels := (if 0 < fg_tunnels f then fg_tunnels f else mh_MaxTunnels s),
     mh_dirs := (if fg_www f \<in> set (mh_dirs s) then mh_dirs s else mh_dirs s @ [fg_www f])\<rparr>"

text \<open>The name server runs beside the API, answering from two public ones.\<close>

definition StartDNS :: "int \<Rightarrow> machine \<Rightarrow> machine" where "StartDNS port s = s\<lparr>mh_dns := Some port\<rparr>"

definition serve_api :: "main_env \<Rightarrow> flags \<Rightarrow> machine \<Rightarrow> main_end \<times> machine" where
  "serve_api E f s =
     (let s1 = (if fg_nodns f then s else StartDNS 55354 s) in
      case HTTP3Server E (fg_tls f) (fg_www f) False s1 of
        (Goes, s2) \<Rightarrow> (Serving, s2) | (Ends, s2) \<Rightarrow> (Exit, s2) | (Panics, s2) \<Rightarrow> (Crash, s2))"

definition main :: "main_env \<Rightarrow> string list \<Rightarrow> machine \<Rightarrow> main_end \<times> machine" where
  "main E argv s =
     (case parse_flags (me_num E) (tl argv) default_flags of
        None \<Rightarrow> (Usage, s)
      | Some f \<Rightarrow>
          let s1 = prepare f s in
          if fg_watch f \<noteq> [] then (Watching (fg_watch f), s1)
          else if fg_d f then
            (case Daemon E (filter (\<lambda>a. a \<noteq> ''-d'') argv) (fg_log f) s1 of
               (Panics, s2) \<Rightarrow> (Crash, s2) | (_, s2) \<Rightarrow> (Exit, s2))
          else if fg_g f then
            (case Daemon E [hd argv, ''-watch'', hd argv] ''/tmp/log-g.log'' s1 of
               (Panics, s2) \<Rightarrow> (Crash, s2) | (Ends, s2) \<Rightarrow> (Exit, s2) | (Goes, s2) \<Rightarrow> serve_api E f s2)
          else serve_api E f s1)"

text \<open>The guard looks, and starts the program when it sees no process but itself; this never ends.\<close>

definition watch_round :: "main_env \<Rightarrow> string \<Rightarrow> machine \<Rightarrow> ending \<times> machine" where
  "watch_round E w s =
     (let res = gs_Replace (me_gs E) (me_ps E (mh_looks s) w) (w @ '' -watch '' @ w) [];
          s1 = s\<lparr>mh_looks := mh_looks s + 1\<rparr>
      in if res = [] \<or> \<not> gs_In (me_gs E) res w then Daemon E [w] ''/tmp/z.log'' s1 else (Goes, s1))"

fun Watch :: "main_env \<Rightarrow> string \<Rightarrow> nat \<Rightarrow> machine \<Rightarrow> ending \<times> machine" where
  "Watch E w 0 s = (Goes, s)"
| "Watch E w (Suc n) s = (case watch_round E w s of (Goes, s1) \<Rightarrow> Watch E w n s1 | r \<Rightarrow> r)"

subsection \<open>A daemon keeps its options\<close>

text \<open>Options as they are written on a command line.\<close>

datatype option_text = Switch string | Pair string string | Joined string string

fun written :: "option_text \<Rightarrow> string list" where
  "written (Switch n) = [CHR ''-'' # n]"
| "written (Pair n v) = [CHR ''-'' # n, v]"
| "written (Joined n v) = [CHR ''-'' # n @ CHR ''='' # v]"

definition plain_name :: "string \<Rightarrow> bool" where
  "plain_name n \<longleftrightarrow> n \<noteq> [] \<and> hd n \<noteq> CHR ''-'' \<and> CHR ''='' \<notin> set n"

text \<open>No value is \<open>-d\<close> itself, and the switch for the daemon is not given a value.\<close>

fun plain_option :: "option_text \<Rightarrow> bool" where
  "plain_option (Switch n) \<longleftrightarrow> bool_flag n"
| "plain_option (Pair n v) \<longleftrightarrow> (string_flag n \<or> number_flag n) \<and> v \<noteq> ''-d''"
| "plain_option (Joined n v) \<longleftrightarrow> bool_flag n \<and> n \<noteq> ''d'' \<or> string_flag n \<or> number_flag n"

lemma flag_plain_name: "bool_flag n \<or> string_flag n \<or> number_flag n \<Longrightarrow> plain_name n"
  by (auto simp: bool_flag_def string_flag_def number_flag_def plain_name_def)

lemma flag_kinds:
  "string_flag n \<Longrightarrow> \<not> bool_flag n" "number_flag n \<Longrightarrow> \<not> bool_flag n" "number_flag n \<Longrightarrow> \<not> string_flag n"
  by (auto simp: bool_flag_def string_flag_def number_flag_def)

lemma read_arg_flag:
  assumes "plain_name n"
  shows "read_arg (CHR ''-'' # n) = Named n None" "read_arg (CHR ''-'' # n @ CHR ''='' # v) = Named n (Some v)"
proof -
  obtain c cs where n: "n = c # cs" using assms by (cases n) (auto simp: plain_name_def)
  then have c: "c \<noteq> CHR ''-''" "c \<noteq> CHR ''=''" "\<forall>x \<in> set cs. x \<noteq> CHR ''=''" using assms by (auto simp: plain_name_def)
  then have "dropWhile (\<lambda>x. x \<noteq> CHR ''='') cs = []" "dropWhile (\<lambda>x. x \<noteq> CHR ''='') (cs @ CHR ''='' # v) = CHR ''='' # v"
    "takeWhile (\<lambda>x. x \<noteq> CHR ''='') (cs @ CHR ''='' # v) = cs"
    by (simp_all add: dropWhile_append1 dropWhile_append2 takeWhile_append2)
  then show "read_arg (CHR ''-'' # n) = Named n None" "read_arg (CHR ''-'' # n @ CHR ''='' # v) = Named n (Some v)"
    using c n by (simp_all add: read_arg_def name_of_def del: dropWhile_eq_Nil_conv)
qed

fun meaning :: "(string \<Rightarrow> int option) \<Rightarrow> option_text \<Rightarrow> flags \<Rightarrow> flags option" where
  "meaning num (Switch n) f = Some (set_bool n True f)"
| "meaning num (Pair n v) f = set_flag num n v f"
| "meaning num (Joined n v) f = set_flag num n v f"

lemma parse_written:
  assumes "plain_option p"
  shows "parse_flags num (written p @ rest) f = (case meaning num p f of None \<Rightarrow> None | Some f' \<Rightarrow> parse_flags num rest f')"
  using assms by (cases p) (auto simp: read_arg_flag flag_plain_name flag_kinds split: option.split)

definition no_daemon :: "flags \<Rightarrow> flags" where "no_daemon f = f\<lparr>fg_d := False\<rparr>"

lemma set_no_daemon:
  "set_string n v (no_daemon f) = no_daemon (set_string n v f)" "set_number n i (no_daemon f) = no_daemon (set_number n i f)"
  "n \<noteq> ''d'' \<Longrightarrow> set_bool n b (no_daemon f) = no_daemon (set_bool n b f)"
  by (simp_all add: no_daemon_def set_string_def set_number_def set_bool_def)

lemma set_flag_no_daemon:
  "n \<noteq> ''d'' \<Longrightarrow> set_flag num n v (no_daemon f) = map_option no_daemon (set_flag num n v f)"
  by (simp add: set_flag_def set_no_daemon option.map_comp comp_def)

lemma meaning_no_daemon:
  assumes "plain_option p" "p \<noteq> Switch ''d''"
  shows "meaning num p (no_daemon f) = map_option no_daemon (meaning num p f)"
proof (cases p)
  case (Pair n v)
  then have "n \<noteq> ''d''" using assms(1) by (auto simp: string_flag_def number_flag_def)
  then show ?thesis using Pair set_flag_no_daemon by simp
next
  case (Joined n v)
  then have "n \<noteq> ''d''" using assms(1) by (auto simp: string_flag_def number_flag_def)
  then show ?thesis using Joined set_flag_no_daemon by simp
qed (use assms set_no_daemon in simp)

lemma written_no_daemon:
  assumes "plain_option p"
  shows "filter (\<lambda>a. a \<noteq> ''-d'') (written p) = (if p = Switch ''d'' then [] else written p)"
proof (cases p)
  case (Joined n v)
  have "CHR ''='' \<in> set (n @ CHR ''='' # v)" "CHR ''='' \<notin> set ''d''" by simp_all
  then have "n @ CHR ''='' # v \<noteq> ''d''" by metis
  then show ?thesis using Joined by simp
qed (use assms in \<open>auto simp: string_flag_def number_flag_def\<close>)

lemma parse_no_daemon:
  "list_all plain_option ps \<Longrightarrow> parse_flags num (concat (map written ps)) f = Some g \<Longrightarrow>
    parse_flags num (filter (\<lambda>a. a \<noteq> ''-d'') (concat (map written ps))) (no_daemon f) = Some (no_daemon g)"
proof (induction ps arbitrary: f)
  case (Cons p ps)
  have p: "plain_option p" "list_all plain_option ps" using Cons.prems(1) by auto
  obtain f' where f': "meaning num p f = Some f'" "parse_flags num (concat (map written ps)) f' = Some g"
    using Cons.prems(2) parse_written [OF p(1)] by (auto split: option.splits)
  note rest = Cons.IH [OF p(2) f'(2)]
  show ?case
  proof (cases "p = Switch ''d''")
    case True
    then have "no_daemon f' = no_daemon f" using f'(1) by (auto simp: no_daemon_def set_bool_def)
    then show ?thesis using rest written_no_daemon [OF p(1)] True by simp
  next
    case False
    then show ?thesis using rest written_no_daemon [OF p(1)] parse_written [OF p(1)] meaning_no_daemon [OF p(1)] f'(1) by simp
  qed
qed simp


subsection \<open>What goes wrong\<close>

text \<open>The processes a start leads to, each by the last one before it.\<close>

fun lineage :: "main_env \<Rightarrow> nat \<Rightarrow> string list \<Rightarrow> machine \<Rightarrow> machine" where
  "lineage E 0 argv s = s"
| "lineage E (Suc n) argv s =
     (let s1 = snd (main E argv s) in
      if mh_started s1 = mh_started s then s1 else lineage E n (fst (last (mh_started s1))) s1)"

text \<open>
  Written in any other way the flag allows, \<open>--d\<close> or \<open>-d=true\<close>, the switch is passed on: each process
  starts the next one and exits, without end, and no server ever runs.
\<close>

theorem daemon_chain_never_serves:
  assumes "parse_flags (me_num E) args default_flags = Some f" "fg_d f" "fg_watch f = []" "''-d'' \<notin> set (exe # args)"
    and "fg_log f = [] \<or> me_log E (fg_log f)" "\<And>k args. me_start E k args"
  shows "length (mh_started (lineage E n (exe # args) s)) = length (mh_started s) + n \<and>
    mh_serving (lineage E n (exe # args) s) = mh_serving s"
proof (induction n arbitrary: s)
  case (Suc n)
  have same: "filter (\<lambda>a. a \<noteq> ''-d'') (exe # args) = exe # args" by (rule filter_True) (use assms(4) in auto)
  define s1 where "s1 = snd (main E (exe # args) s)"
  have "mh_started s1 = mh_started s @ [(exe # args, if fg_log f = [] then None else Some (fg_log f))]" "mh_serving s1 = mh_serving s"
    using assms same by (auto simp: s1_def main_def Daemon_def prepare_def)
  then show ?case using Suc.IH [of s1] by (simp add: s1_def [symmetric] Let_def)
qed simp

lemma watch_round_starts:
  "watch_round E w s = (r, t) \<Longrightarrow> map fst (mh_started t) = map fst (mh_started s) \<or> map fst (mh_started t) = map fst (mh_started s) @ [[w]]"
  by (auto simp: watch_round_def Daemon_def Let_def split: if_splits)

lemma Watch_starts: "Watch E w n s = (r, t) \<Longrightarrow> \<exists>k. map fst (mh_started t) = map fst (mh_started s) @ replicate k [w]"
proof (induction n arbitrary: s)
  case 0
  then show ?case by (intro exI [of _ 0]) simp
next
  case (Suc n)
  obtain r1 s1 where w: "watch_round E w s = (r1, s1)" by force
  note st = watch_round_starts [OF w]
  have "\<exists>k. map fst (mh_started t) = map fst (mh_started s1) @ replicate k [w]"
  proof (cases r1)
    case Goes
    then show ?thesis using Suc w by simp
  qed (use Suc.prems w in \<open>auto intro: exI [of _ 0]\<close>)
  then obtain k where "map fst (mh_started t) = map fst (mh_started s1) @ replicate k [w]" by blast
  then show ?case using st by (auto intro: exI [of _ k] exI [of _ "Suc k"])
qed

text \<open>
  A guarded server that has died is started again without its options: the guard is only told the
  name of the program, so the new one listens where the defaults say.
\<close>

theorem guard_forgets_options:
  assumes "exe \<noteq> []" "Watch E exe n s = (r, t)" "args \<in> set (drop (length (mh_started s)) (map fst (mh_started t)))"
  shows "fst (main E [exe, ''-watch'', exe] s0) = Watching exe \<and>
    main E args u = serve_api E default_flags (prepare default_flags u)"
proof -
  have "read_arg ''-watch'' = Named ''watch'' None" using read_arg_flag(1) [of "''watch''"] by (simp add: plain_name_def)
  then have "fst (main E [exe, ''-watch'', exe] s0) = Watching exe"
    using assms(1) by (simp add: main_def bool_flag_def set_flag_def string_flag_def set_string_def Let_def)
  moreover have "args = [exe]"
    using Watch_starts [OF assms(2)] assms(3) by auto
  ultimately show ?thesis by (simp add: main_def default_flags_def Let_def)
qed

text \<open>
  When the address of the API is in use, the server does not report it and exit: it panics.
\<close>

theorem api_in_use_panics:
  assumes "parse_flags (me_num E) args default_flags = Some f" "\<not> fg_d f" "fg_watch f = []" "\<not> fg_g f"
    and "gs_Split (me_gs E) (fg_tls f) '':'' = [h, p]" "me_pem E" "\<not> me_listen E (fg_tls f)"
  shows "fst (main E (exe # args) s) = Crash"
  using assms by (simp add: main_def serve_api_def HTTP3Server_def Let_def)

subsection \<open>Instances of the properties\<close>

definition toy_main :: main_env where
  "toy_main = \<lparr>me_gs = gs_std, me_goos = ''linux'', me_num = (\<lambda>s. if s = ''100'' then Some 100 else None), me_TryInt = (\<lambda>_. 8443),
     me_log = (\<lambda>_. True), me_start = (\<lambda>_ _. True), me_ps = (\<lambda>_ _. []), me_pem = True, me_pair = True, me_listen = (\<lambda>_. False)\<rparr>"

definition toy_machine :: machine where
  "toy_machine = \<lparr>mh_budget = \<lparr>sb_limit = 0, sb_active = 0\<rparr>, mh_MaxTunnels = 16, mh_ports = \<lparr>used_ports = {}, ufw_log = []\<rparr>,
     mh_started = [], mh_dirs = [], mh_dns = None, mh_serving = None, mh_looks = 0\<rparr>"

definition toy_options :: "option_text list" where
  "toy_options = [Pair ''tls-api'' ''0.0.0.0:8443'', Switch ''d'', Joined ''max-streams'' ''100'']"


lemma daemon_chain_never_serves_witness:
  "length (mh_started (lineage toy_main 5 [''Puzzle'', ''--d''] toy_machine)) = 5 \<and>
    mh_serving (lineage toy_main 5 [''Puzzle'', ''--d''] toy_machine) = None"
proof -
  have "parse_flags (me_num toy_main) [''--d''] default_flags = Some (default_flags\<lparr>fg_d := True\<rparr>)" by code_simp
  from daemon_chain_never_serves [OF this, of "''Puzzle''" 5 toy_machine] show ?thesis
    by (simp add: default_flags_def toy_main_def toy_machine_def)
qed

lemma guard_forgets_options_witness:
  "main toy_main [''Puzzle''] toy_machine = serve_api toy_main default_flags (prepare default_flags toy_machine)"
proof -
  have st: "map fst (mh_started (snd (Watch toy_main ''Puzzle'' 1 toy_machine))) = [[''Puzzle'']]" by code_simp
  obtain r t where w: "Watch toy_main ''Puzzle'' 1 toy_machine = (r, t)" by force
  have "[''Puzzle''] \<in> set (drop (length (mh_started toy_machine)) (map fst (mh_started t)))" using st w by (simp add: toy_machine_def)
  from guard_forgets_options [OF _ w this] show ?thesis by simp
qed

lemma api_in_use_panics_witness: "fst (main toy_main [''Puzzle'', ''-nodns''] toy_machine) = Crash"
proof -
  have "parse_flags (me_num toy_main) [''-nodns''] default_flags = Some (default_flags\<lparr>fg_nodns := True\<rparr>)" by code_simp
  moreover have "gs_Split (me_gs toy_main) ''0.0.0.0:55443'' '':'' = [''0.0.0.0'', ''55443'']" by code_simp
  ultimately show ?thesis
    using api_in_use_panics [of toy_main "[''-nodns'']" "default_flags\<lparr>fg_nodns := True\<rparr>" "''0.0.0.0''" "''55443''" "''Puzzle''" toy_machine]
    by (simp add: default_flags_def toy_main_def)
qed

end
