(* ===== verification/Self_Update.thy ===== *)
theory Self_Update
  imports Start_Up
begin

text \<open>
  \<open>src/update/update.go\<close>: the server builds a new version of itself and replaces itself by it.  What the
  shell commands print and which files they make, and whether the clone succeeds, are parameters;
  the files are the paths there are.  \<open>Daemon\<close> is the same function as in \<open>main.go\<close>.
\<close>

subsection \<open>The update\<close>

record update_env =
  ue_main :: main_env
  ue_platform :: string
  ue_arch :: string
  ue_Color :: "string \<Rightarrow> string \<Rightarrow> string"
  ue_exec :: "nat \<Rightarrow> string \<Rightarrow> string \<times> string list"
  ue_clone :: "string \<Rightarrow> string option"

text \<open>\<open>up_told\<close>: what was reported; \<open>up_files\<close>: the paths that exist.\<close>

record updating =
  up_mach :: machine
  up_files :: "string list"
  up_ran :: "string list"
  up_told :: "(string \<times> bool) list"

definition REPO_TMP :: string where "REPO_TMP = ''/tmp/repo_update''"
definition REPO_PATH :: string where "REPO_PATH = REPO_TMP @ ''/pz''"
definition Execute :: string where "Execute = REPO_PATH @ ''/Puzzle''"

definition BU :: string where
  "BU = ''mkdir -p  /tmp/repo_update/GoR ; cd /tmp/repo_update/GoR && wget -c '' @ [CHR 0x27] @
     ''https://go.dev/dl/go1.21.11.%s-%s.tar.gz'' @ [CHR 0x27] @
     '' && tar -zxvf go1.21.11.%s-%s.tar.gz ; /tmp/repo_update/GoR/go/bin/go version''"

definition B :: string where
  "B = ''export PATH='' @ [CHR 0x22] @ ''$PATH:/tmp/repo_update/GoR/go/bin'' @ [CHR 0x22] @
     '' ; cd %s &&  go mod tidy && go build -o Puzzle ; sysctl -w net.core.rmem_max=2500000  ;ls ''"

definition under :: "string \<Rightarrow> string \<Rightarrow> bool" where
  "under d p \<longleftrightarrow> p = d \<or> has_prefix p (d @ ''/'')"

definition up_Rm :: "string \<Rightarrow> updating \<Rightarrow> updating" where
  "up_Rm d s = s\<lparr>up_files := filter (\<lambda>p. \<not> under d p) (up_files s)\<rparr>"

definition up_Add :: "string list \<Rightarrow> updating \<Rightarrow> updating" where
  "up_Add ps s = s\<lparr>up_files := up_files s @ ps\<rparr>"

definition up_Exec :: "update_env \<Rightarrow> string \<Rightarrow> updating \<Rightarrow> string \<times> updating" where
  "up_Exec E cmd s = (let (out, made) = ue_exec E (length (up_ran s)) cmd in
     (out, up_Add made (s\<lparr>up_ran := up_ran s @ [cmd]\<rparr>)))"

definition tell :: "string \<Rightarrow> bool \<Rightarrow> updating \<Rightarrow> updating" where
  "tell info ok s = s\<lparr>up_told := up_told s @ [(info, ok)]\<rparr>"

text \<open>Giving up: the report, and then the deferred removal of the directory.\<close>

definition give_up :: "string \<Rightarrow> updating \<Rightarrow> ending \<times> updating" where
  "give_up info s = (Goes, up_Rm REPO_TMP (tell info False s))"

definition line_of :: "update_env \<Rightarrow> string \<Rightarrow> string \<Rightarrow> string" where
  "line_of E msg c = ue_Color E (CHR 10 # msg) c"

text \<open>The new version is started before the old one exits; exiting skips what is deferred.\<close>

definition start_new :: "update_env \<Rightarrow> string list \<Rightarrow> string \<Rightarrow> updating \<Rightarrow> ending \<times> updating" where
  "start_new E argv info s =
     (let s1 = tell (info @ line_of E ''Start New Version !'' ''g'') True s in
      case Daemon (ue_main E) (Execute # tl argv) ''/tmp/z.log'' (up_mach s1) of
        (Panics, m) \<Rightarrow> (Panics, s1\<lparr>up_mach := m\<rparr>)
      | (_, m) \<Rightarrow> (Ends, s1\<lparr>up_mach := m\<rparr>))"

definition build_new :: "update_env \<Rightarrow> string list \<Rightarrow> string \<Rightarrow> updating \<Rightarrow> ending \<times> updating" where
  "build_new E argv info s =
     (let (out, s1) = up_Exec E (gs_F (me_gs (ue_main E)) B [FStr REPO_PATH]) s in
      if gs_In (me_gs (ue_main E)) out ''Puzzle''
      then start_new E argv (info @ line_of E ''Repository build successfully'' ''g'') s1
      else give_up (info @ line_of E ''Repository build failed'' ''r'') s1)"

definition Update :: "update_env \<Rightarrow> string list option \<Rightarrow> string list \<Rightarrow> updating \<Rightarrow> ending \<times> updating" where
  "Update E repo argv s0 =
     (case (case repo of None \<Rightarrow> Ret ''https://gitee.com/dark.H/proxy-z.git'' | Some [] \<Rightarrow> Panic | Some (r # _) \<Rightarrow> Ret r) of
        Panic \<Rightarrow> (Panics, s0)
      | Ret repoUrl \<Rightarrow>
          let G = me_gs (ue_main E);
              s = (if REPO_TMP \<in> set (up_files s0) then s0 else up_Add [REPO_TMP] s0);
              pa = [FStr (ue_platform E), FStr (ue_arch E), FStr (ue_platform E), FStr (ue_arch E)];
              (out, s1) = up_Exec E (gs_F G BU pa) s
          in if \<not> gs_In G out ''go version go1.21.11'' then give_up (line_of E ''build golang env failed'' ''r'') s1
             else
               let info = line_of E ''build golang env success!'' ''g'';
                   s2 = (if REPO_PATH \<in> set (up_files s1) then up_Rm REPO_PATH s1 else s1)
               in case ue_clone E repoUrl of
                    Some err \<Rightarrow> give_up (info @ line_of E err ''r'') s2
                  | None \<Rightarrow> build_new E argv info (up_Add [REPO_PATH] s2))"

subsection \<open>What an update ends in\<close>

lemma up_simps [simp]:
  "up_told (up_Add ps s) = up_told s" "up_told (up_Rm d s) = up_told s" "up_mach (up_Add ps s) = up_mach s" "up_mach (up_Rm d s) = up_mach s"
  "up_told (tell i b s) = up_told s @ [(i, b)]" "up_mach (tell i b s) = up_mach s" "up_files (tell i b s) = up_files s"
  by (simp_all add: up_Add_def up_Rm_def tell_def)

lemma up_Exec_same: "up_Exec E cmd s = (out, t) \<Longrightarrow> up_told t = up_told s \<and> up_mach t = up_mach s"
  by (auto simp: up_Exec_def split: prod.splits)

text \<open>An update gives up, or it comes to start the new version.\<close>

lemma Update_ends:
  assumes "Update E None argv s = (r, t)"
  obtains (gave_up) info s1 where "r = Goes" "t = up_Rm REPO_TMP (tell info False s1)" "up_told s1 = up_told s" "up_mach s1 = up_mach s"
  | (started) info s1 where "(r, t) = start_new E argv info s1" "up_told s1 = up_told s" "up_mach s1 = up_mach s"
proof -
  define s0 where "s0 = (if REPO_TMP \<in> set (up_files s) then s else up_Add [REPO_TMP] s)"
  have s0: "up_told s0 = up_told s \<and> up_mach s0 = up_mach s" by (simp add: s0_def)
  obtain out s1 where e1: "up_Exec E (gs_F (me_gs (ue_main E)) BU [FStr (ue_platform E), FStr (ue_arch E), FStr (ue_platform E), FStr (ue_arch E)]) s0 = (out, s1)"
    by force
  note s1 = up_Exec_same [OF e1]
  define sc where "sc = (if REPO_PATH \<in> set (up_files s1) then up_Rm REPO_PATH s1 else s1)"
  have sc: "up_told sc = up_told s \<and> up_mach sc = up_mach s" using s0 s1 by (simp add: sc_def)
  define s2 where "s2 = up_Add [REPO_PATH] sc"
  have s2: "up_told s2 = up_told s \<and> up_mach s2 = up_mach s" using sc by (simp add: s2_def)
  obtain out2 s3 where e2: "up_Exec E (gs_F (me_gs (ue_main E)) B [FStr REPO_PATH]) s2 = (out2, s3)" by force
  note s3 = up_Exec_same [OF e2]
  have "(\<exists>info s1. r = Goes \<and> t = up_Rm REPO_TMP (tell info False s1) \<and> up_told s1 = up_told s \<and> up_mach s1 = up_mach s) \<or>
      (\<exists>info s1. (r, t) = start_new E argv info s1 \<and> up_told s1 = up_told s \<and> up_mach s1 = up_mach s)"
  proof (cases "gs_In (me_gs (ue_main E)) out ''go version go1.21.11''")
    case False
    then show ?thesis using assms e1 s0 s1 by (auto simp: Update_def Let_def give_up_def s0_def [symmetric])
  next
    case True
    show ?thesis
    proof (cases "ue_clone E ''https://gitee.com/dark.H/proxy-z.git''")
      case (Some err)
      then have "r = Goes \<and> t = up_Rm REPO_TMP (tell (line_of E ''build golang env success!'' ''g'' @ line_of E err ''r'') False sc)"
        using assms e1 True by (simp add: Update_def Let_def give_up_def s0_def [symmetric] sc_def [symmetric])
      then show ?thesis using sc by blast
    next
      case None
      then have "build_new E argv (line_of E ''build golang env success!'' ''g'') s2 = (r, t)"
        using assms e1 True by (simp add: Update_def Let_def s0_def [symmetric] sc_def [symmetric] s2_def)
      then have "(\<exists>info. r = Goes \<and> t = up_Rm REPO_TMP (tell info False s3)) \<or> (\<exists>info. (r, t) = start_new E argv info s3)"
        using e2 by (auto simp: build_new_def give_up_def split: if_splits intro: sym)
      moreover have "up_told s3 = up_told s \<and> up_mach s3 = up_mach s" using s2 s3 by simp
      ultimately show ?thesis by blast
    qed
  qed
  then show ?thesis using gave_up started by blast
qed

lemma start_new_facts:
  assumes "start_new E argv info s = (r, t)"
  shows "r = Ends" "\<exists>i. up_told t = up_told s @ [(i, True)]"
    and "mh_started (up_mach t) = mh_started (up_mach s) \<or>
      mh_started (up_mach t) = mh_started (up_mach s) @ [(Execute # tl argv, Some ''/tmp/z.log'')]"
    and "\<not> me_log (ue_main E) ''/tmp/z.log'' \<Longrightarrow> up_mach t = up_mach s"
  using assms by (auto simp: start_new_def Daemon_def Let_def split: if_splits)

text \<open>
  An update reports once, with success exactly when the old version ends; and what it starts, if
  anything, is the new program with the options of the old one.
\<close>

theorem update_reports_once:
  assumes "Update E None argv s = (r, t)"
  shows "\<exists>info. up_told t = up_told s @ [(info, r = Ends)] \<and> r \<in> {Goes, Ends} \<and>
    (mh_started (up_mach t) = mh_started (up_mach s) \<or>
     r = Ends \<and> mh_started (up_mach t) = mh_started (up_mach s) @ [(Execute # tl argv, Some ''/tmp/z.log'')])"
  using assms
proof (cases rule: Update_ends)
  case (started info s1)
  then show ?thesis using start_new_facts(1-3) [OF started(1) [symmetric]] by auto
qed auto

text \<open>
  The server that was there does not go on when the new one cannot be started: success is reported
  already, and the process exits with nothing to take its place.
\<close>

theorem failed_start_leaves_nothing:
  assumes "Update E None argv s = (Ends, t)" "\<not> me_log (ue_main E) ''/tmp/z.log''"
  shows "(\<exists>info. up_told t = up_told s @ [(info, True)]) \<and> mh_started (up_mach t) = mh_started (up_mach s)"
  using assms(1)
proof (cases rule: Update_ends)
  case (started info s1)
  then show ?thesis using start_new_facts(2,4) [OF started(1) [symmetric]] assms(2) by auto
qed auto

lemma Execute_under: "under REPO_TMP Execute"
  by (simp add: under_def Execute_def REPO_PATH_def REPO_TMP_def has_prefix_def)

text \<open>
  A server that came from an update runs from the directory of the updates, which the next update
  removes when it fails: its program is gone, and nothing can start it again.
\<close>

theorem failed_update_removes_program:
  assumes "Update E None (Execute # args) s = (Goes, t)"
  shows "Execute \<notin> set (up_files t)"
  using assms
proof (cases rule: Update_ends)
  case (gave_up info s1)
  then show ?thesis using Execute_under by (simp add: up_Rm_def)
next
  case (started info s1)
  then show ?thesis using start_new_facts(1) [OF started(1) [symmetric]] by simp
qed

subsection \<open>Instances of the properties\<close>

definition toy_update :: "bool \<Rightarrow> update_env" where
  "toy_update ok = \<lparr>ue_main = toy_main\<lparr>me_log := (\<lambda>_. False)\<rparr>, ue_platform = ''linux'', ue_arch = ''amd64'', ue_Color = (\<lambda>s _. s),
     ue_exec = (\<lambda>k _. if k = 0 then (''go version go1.21.11 linux/amd64'', []) else (''Puzzle'', [Execute])),
     ue_clone = (\<lambda>_. if ok then None else Some ''timeout'')\<rparr>"

definition toy_updating :: updating where
  "toy_updating = \<lparr>up_mach = toy_machine, up_files = [REPO_TMP, REPO_PATH, Execute], up_ran = [], up_told = []\<rparr>"

lemma toy_update_runs:
  "fst (Update (toy_update True) None [''Puzzle''] toy_updating) = Ends"
  "fst (Update (toy_update False) None [Execute] toy_updating) = Goes"
  by code_simp+

lemma update_reports_once_witness:
  "\<exists>info. up_told (snd (Update (toy_update True) None [''Puzzle''] toy_updating)) = [(info, True)]"
proof -
  obtain t where t: "Update (toy_update True) None [''Puzzle''] toy_updating = (Ends, t)"
    using toy_update_runs(1) by (metis prod.collapse)
  from update_reports_once [OF this] show ?thesis using t by (auto simp: toy_updating_def)
qed

lemma failed_start_leaves_nothing_witness:
  "\<exists>t info. Update (toy_update True) None [''Puzzle''] toy_updating = (Ends, t) \<and> up_told t = [(info, True)] \<and> mh_started (up_mach t) = []"
proof -
  obtain t where t: "Update (toy_update True) None [''Puzzle''] toy_updating = (Ends, t)"
    using toy_update_runs(1) by (metis prod.collapse)
  from failed_start_leaves_nothing [OF this] show ?thesis using t by (auto simp: toy_update_def toy_updating_def toy_machine_def)
qed

lemma failed_update_removes_program_witness:
  "Execute \<in> set (up_files toy_updating) \<and> Execute \<notin> set (up_files (snd (Update (toy_update False) None [Execute] toy_updating)))"
proof -
  obtain t where t: "Update (toy_update False) None [Execute] toy_updating = (Goes, t)"
    using toy_update_runs(2) by (metis prod.collapse)
  from failed_update_removes_program [OF this] show ?thesis using t by (simp add: toy_updating_def)
qed

end
