(* ===== verification/Geo_Lookup.thy ===== *)
theory Geo_Lookup
  imports Gs_Lib "HOL-Library.AList" Prelude
begin

text \<open>
  \<open>src/geo/geo.go\<close>: countries of addresses from a database on disk, with a cache.  The database library
  is a parameter: opening a file gives an error or a database, which answers an address with a city
  and a country or an error.  The embedded copy and writing it are parameters as well.
\<close>

record geo =
  ge_DOMAIN :: string
  ge_IP :: string
  ge_Country :: string
  ge_City :: string

definition geo_Str :: "gslib \<Rightarrow> geo \<Rightarrow> string" where
  "geo_Str G g = gs_F G ''(%s/%s)[%s/%s]'' [FStr (ge_IP g), FStr (ge_DOMAIN g), FStr (ge_Country g), FStr (ge_City g)]"

definition geo_InCN :: "geo \<Rightarrow> bool" where "geo_InCN g \<longleftrightarrow> ge_Country g = ''China''"
definition geo_InUSA :: "geo \<Rightarrow> bool" where "geo_InUSA g \<longleftrightarrow> ge_Country g = ''United States of America''"

type_synonym geo_db = "string \<Rightarrow> string + string \<times> string"

record geo_env =
  gv_open :: "string \<Rightarrow> string + geo_db"
  gv_tmp :: string
  gv_home :: "string \<Rightarrow> string"
  gv_resolve :: "string \<Rightarrow> string list option"

text \<open>The package variables; \<open>gq_written\<close>: the embedded database was written to the temporary directory.\<close>

record geo_state =
  gq_path :: string
  gq_marks :: "(string \<times> string) list"
  gq_written :: bool

definition InitDB :: "geo_env \<Rightarrow> geo_state \<Rightarrow> geo_state" where
  "InitDB E s = s\<lparr>gq_written := True, gq_path := gv_tmp E\<rparr>"

definition ensure_db :: "geo_env \<Rightarrow> geo_state \<Rightarrow> geo_state" where
  "ensure_db E s = (if gq_path s = [] then InitDB E s else s)"

text \<open>A second place is tried; any address that has no answer makes the whole answer empty.\<close>

fun geo_points :: "geo_db \<Rightarrow> string list \<Rightarrow> geo list option" where
  "geo_points db [] = Some []"
| "geo_points db (i # ips) =
     (case db i of
        Inl _ \<Rightarrow> None
      | Inr (city, country) \<Rightarrow> map_option (\<lambda>ps. \<lparr>ge_DOMAIN = [], ge_IP = i, ge_Country = country, ge_City = city\<rparr> # ps) (geo_points db ips))"

definition open_first :: "geo_env \<Rightarrow> string \<Rightarrow> string \<Rightarrow> geo_db option" where
  "open_first E p1 p2 =
     (case gv_open E p1 of Inr db \<Rightarrow> Some db
      | Inl _ \<Rightarrow> (case gv_open E p2 of Inr db \<Rightarrow> Some db | Inl _ \<Rightarrow> None))"

definition IP2GEO :: "geo_env \<Rightarrow> string list \<Rightarrow> geo_state \<Rightarrow> geo list \<times> geo_state" where
  "IP2GEO E ips s =
     (let s1 = ensure_db E s in
      case open_first E (gq_path s1) (gv_home E ''IP2LOCATION-LITE-DB3.BIN.2024'') of
        None \<Rightarrow> ([], s1)
      | Some db \<Rightarrow> (case geo_points db ips of None \<Rightarrow> ([], s1) | Some ps \<Rightarrow> (ps, s1)))"

definition CountryCode :: "geo_env \<Rightarrow> string \<Rightarrow> geo_state \<Rightarrow> string \<times> geo_state" where
  "CountryCode E ip s =
     (case map_of (gq_marks s) ip of
        Some t \<Rightarrow> (t, s)
      | None \<Rightarrow>
          (case IP2GEO E [ip] s of
             ([], s1) \<Rightarrow> ([], s1)
           | (g # _, s1) \<Rightarrow> (ge_Country g, s1\<lparr>gq_marks := AList.update ip (ge_Country g) (gq_marks s1)\<rparr>)))"

definition GetCountry :: "geo_env \<Rightarrow> string \<Rightarrow> geo_state \<Rightarrow> string \<times> geo_state" where
  "GetCountry E ip s =
     (let s1 = ensure_db E s in
      case gv_open E (gq_path s1) of
        Inl err \<Rightarrow> (''no db :'' @ err, s1)
      | Inr db \<Rightarrow> ((case db ip of Inl err \<Rightarrow> ''exists db :'' @ err | Inr (_, country) \<Rightarrow> country), s1))"

text \<open>Hosts: the first address of each; a name that does not resolve is left out, an address without an answer ends it all.\<close>

fun host_points :: "geo_env \<Rightarrow> geo_db \<Rightarrow> string list \<Rightarrow> geo list \<Rightarrow> geo list" where
  "host_points E db [] ps = ps"
| "host_points E db (h # hs) ps =
     (case gv_resolve E h of
        None \<Rightarrow> host_points E db hs ps
      | Some [] \<Rightarrow> host_points E db hs ps
      | Some (a # _) \<Rightarrow>
          (case db a of
             Inl _ \<Rightarrow> []
           | Inr (city, country) \<Rightarrow> host_points E db hs (ps @ [\<lparr>ge_DOMAIN = h, ge_IP = a, ge_Country = country, ge_City = city\<rparr>])))"

definition Host2GEO :: "geo_env \<Rightarrow> string list \<Rightarrow> geo list" where
  "Host2GEO E hosts =
     (case open_first E ''/.cache/geodb'' (gv_home E ''IP2LOCATION-LITE-DB3.BIN'') of
        None \<Rightarrow> []
      | Some db \<Rightarrow> host_points E db hosts [])"

subsection \<open>The cache\<close>

text \<open>What the database says, without a cache.\<close>

definition country_of :: "geo_env \<Rightarrow> string \<Rightarrow> string \<Rightarrow> string option" where
  "country_of E path ip =
     (case open_first E path (gv_home E ''IP2LOCATION-LITE-DB3.BIN.2024'') of
        None \<Rightarrow> None
      | Some db \<Rightarrow> (case db ip of Inl _ \<Rightarrow> None | Inr (_, country) \<Rightarrow> Some country))"

definition marks_ok :: "geo_env \<Rightarrow> geo_state \<Rightarrow> bool" where
  "marks_ok E s \<longleftrightarrow> gq_path s \<in> {[], gv_tmp E} \<and> (\<forall>ip t. map_of (gq_marks s) ip = Some t \<longrightarrow> country_of E (gv_tmp E) ip = Some t)"

fun codes :: "geo_env \<Rightarrow> string list \<Rightarrow> geo_state \<Rightarrow> string list \<times> geo_state" where
  "codes E [] s = ([], s)"
| "codes E (ip # ips) s = (let (t, s1) = CountryCode E ip s; (ts, s2) = codes E ips s1 in (t # ts, s2))"

lemma IP2GEO_one:
  assumes "gq_path s \<in> {[], gv_tmp E}"
  shows "\<exists>ps s1. IP2GEO E [ip] s = (ps, s1) \<and> gq_path s1 = gv_tmp E \<and> gq_marks s1 = gq_marks s \<and>
    map ge_Country ps = (case country_of E (gv_tmp E) ip of None \<Rightarrow> [] | Some t \<Rightarrow> [t])"
proof -
  have "gq_path (ensure_db E s) = gv_tmp E" "gq_marks (ensure_db E s) = gq_marks s"
    using assms by (auto simp: ensure_db_def InitDB_def)
  then show ?thesis by (auto simp: IP2GEO_def country_of_def Let_def split: option.splits sum.splits)
qed

lemma CountryCode_ok:
  assumes "marks_ok E s" "CountryCode E ip s = (t, s1)"
  shows "t = (case country_of E (gv_tmp E) ip of None \<Rightarrow> [] | Some t \<Rightarrow> t) \<and> marks_ok E s1"
proof (cases "map_of (gq_marks s) ip")
  case (Some c)
  then have "country_of E (gv_tmp E) ip = Some c" using assms(1) by (simp add: marks_ok_def)
  then show ?thesis using assms Some by (simp add: CountryCode_def)
next
  case None
  obtain ps s2 where r: "IP2GEO E [ip] s = (ps, s2)" "gq_path s2 = gv_tmp E" "gq_marks s2 = gq_marks s"
      "map ge_Country ps = (case country_of E (gv_tmp E) ip of None \<Rightarrow> [] | Some t \<Rightarrow> [t])"
    using IP2GEO_one assms(1) unfolding marks_ok_def by blast
  show ?thesis
  proof (cases "country_of E (gv_tmp E) ip")
    case none: None
    then have "ps = []" using r(4) by simp
    then show ?thesis using assms None r none by (auto simp: CountryCode_def marks_ok_def)
  next
    case (Some c)
    then obtain g where "ps = [g]" "ge_Country g = c" using r(4) by (cases ps) auto
    then show ?thesis using assms None r Some by (auto simp: CountryCode_def marks_ok_def update_conv' split: if_splits)
  qed
qed

text \<open>
  The cache is invisible: however often and in whatever order addresses are asked for, every answer is
  what the database says, and nothing for an address it does not know.
\<close>

theorem country_cache_invisible:
  assumes "codes E ips \<lparr>gq_path = [], gq_marks = [], gq_written = w\<rparr> = (ts, s)"
  shows "ts = map (\<lambda>ip. case country_of E (gv_tmp E) ip of None \<Rightarrow> [] | Some t \<Rightarrow> t) ips"
proof -
  have "marks_ok E s0 \<Longrightarrow> codes E ips s0 = (ts, s) \<Longrightarrow> ts = map (\<lambda>ip. case country_of E (gv_tmp E) ip of None \<Rightarrow> [] | Some t \<Rightarrow> t) ips" for s0
  proof (induction ips arbitrary: s0 ts)
    case (Cons ip ips)
    obtain t s1 where c: "CountryCode E ip s0 = (t, s1)" by force
    then obtain ts' where "codes E ips s1 = (ts', s)" "ts = t # ts'" using Cons.prems(2) by (auto split: prod.splits)
    then show ?case using Cons.IH [of s1 ts'] CountryCode_ok [OF Cons.prems(1) c] by simp
  qed simp
  from this [OF _ assms] show ?thesis by (simp add: marks_ok_def)
qed

text \<open>One address the database does not know, and the others get no answer either.\<close>

theorem one_unknown_hides_all:
  assumes "i \<in> set ips" "open_first E (gq_path (ensure_db E s)) (gv_home E ''IP2LOCATION-LITE-DB3.BIN.2024'') = Some db" "db i = Inl e"
  shows "fst (IP2GEO E ips s) = []"
proof -
  have "geo_points db ips = None" using assms(1)
  proof (induction ips)
    case (Cons a ips)
    then show ?case using assms(3) by (cases "db a") (auto split: option.splits)
  qed simp
  then show ?thesis using assms(2) by (simp add: IP2GEO_def Let_def)
qed

definition toy_geo :: geo_env where
  "toy_geo = \<lparr>gv_open = (\<lambda>p. if p = ''/tmp/geo.db'' then Inr (\<lambda>ip. if ip = ''1.2.4.8'' then Inr (''Beijing'', ''China'') else Inl ''invalid'') else Inl ''no file''),
     gv_tmp = ''/tmp/geo.db'', gv_home = (\<lambda>f. ''/root/.cache/geodatabase/'' @ f), gv_resolve = (\<lambda>_. None)\<rparr>"

lemma country_cache_invisible_witness:
  "fst (codes toy_geo [''1.2.4.8'', ''x'', ''1.2.4.8''] \<lparr>gq_path = [], gq_marks = [], gq_written = False\<rparr>) = [''China'', [], ''China'']"
proof -
  obtain ts s where r: "codes toy_geo [''1.2.4.8'', ''x'', ''1.2.4.8''] \<lparr>gq_path = [], gq_marks = [], gq_written = False\<rparr> = (ts, s)" by force
  from country_cache_invisible [OF r] show ?thesis using r by (simp add: country_of_def open_first_def toy_geo_def)
qed

lemma one_unknown_hides_all_witness:
  "fst (IP2GEO toy_geo [''1.2.4.8'', ''x''] \<lparr>gq_path = [], gq_marks = [], gq_written = False\<rparr>) = []"
  by (rule one_unknown_hides_all [where i = "''x''" and db = "\<lambda>ip. if ip = ''1.2.4.8'' then Inr (''Beijing'', ''China'') else Inl ''invalid''" and e = "''invalid''"])
    (simp_all add: ensure_db_def InitDB_def open_first_def toy_geo_def)

end
