(* ===== verification/Spec2Isabelle.thy ===== *)
theory Spec2Isabelle
  imports Socks5 Health_Metrics Port_Pool Proto_Config Ss_Cipher Proxy_Tunnel Tunnel_Pool Server_Api
    Smux_Client Client_Routing Client_Server Client_Locks Debug_Log Iptables Local_Api
    Edit_Box Server_Probe Book_Menu Vps_Provider Client_Front Stream_Copy Mux_Server Dns_Remote
    Vps_Console Smux_Frame Smux_Alloc Smux_Shaper Smux_Session Smux_Delivery Smux_Writers
    Server_Files Start_Up Self_Update Geo_Lookup
begin

text \<open>
  A proxy server and its client (\<open>src/\<close>, Go).  A client on the user's machine accepts SOCKS5 and
  HTTP proxy connections and relays each over one of a few multiplexed tunnels to a server; the
  server runs a pool of tunnels of several transports (TLS, KCP, QUIC, Shadowsocks), hands their
  configurations out over an HTTP API, and connects the relayed streams to where they want to go.

  \<^bold>\<open>Parts and theories.\<close>
  \<^item> \<open>Prelude\<close>, \<open>Go_Strings\<close>, \<open>Gs_Lib\<close>, \<open>Net_Conn\<close>, \<open>Net_Addr\<close>: the vocabulary.  A call returns or
    panics (\<open>'a go\<close>), errors are values of \<open>goerr\<close>, byte slices are lists of 8-bit words, strings
    are lists of characters; \<open>strconv\<close>, \<open>strings\<close>, \<open>fmt\<close> and \<open>net\<close> are modelled as far as they are used.
    A connection is the segments that will arrive, the writes made and how many more succeed:
    the theorems quantify over how the network cuts a stream.
  \<^item> \<open>Socks5\<close> (\<open>connections/prosocks5/socks5.go\<close>): handshake, the request parsers of client and
    server, the UDP and Shadowsocks forms, the writer of requests; the layout of a request as a relation
    of its own (\<open>spells\<close>), which the parser is compared with.
  \<^item> \<open>Base64\<close>, \<open>Proto_Config\<close> (\<open>connections/base/base_config*.go\<close>): tunnel configurations, what is
    derived from them, the parser of Shadowsocks URIs.
  \<^item> \<open>Ss_Cipher\<close> (\<open>connections/prosss\<close>): the encrypted packet stream and its key derivation.
  \<^item> \<open>Stream_Budget\<close>, \<open>Health_Metrics\<close> (\<open>connections/base/global_limit.go\<close>, \<open>health_metrics.go\<close>): the
    global number of streams and the score of a tunnel, sequentially and as interleaved steps.
  \<^item> \<open>Port_Pool\<close> (\<open>connections/base/base.go\<close>): the ports for tunnels and the firewall commands.
  \<^item> \<open>Dns_Cache\<close> (\<open>connections/base/dnscache.go\<close>): the resolver cache with one lookup in flight per
    host, its eviction, and the dial that goes through it.
  \<^item> \<open>Dns_Rules\<close>, \<open>Dns_Server\<close> (\<open>connections/prodns\<close>): the lists of proxied and local names, and the
    DNS front end with its cache.
  \<^item> \<open>Protocol_Servers\<close> (\<open>tlsserver.go\<close>, \<open>kcpserver.go\<close>, \<open>quic_server.go\<close>, \<open>ss_server.go\<close>): the book of
    peers, the accept loops, and closing while accepting.
  \<^item> \<open>Proxy_Tunnel\<close> (\<open>connections/base/proxytunnel.go\<close>): what a tunnel does with a stream, the relay.
  \<^item> \<open>Tunnel_Pool\<close>, \<open>Server_Api\<close> (\<open>servercontroll/proxy_release.go\<close>, \<open>all_servers.go\<close>, \<open>server.go\<close>,
    \<open>server_upload.go\<close>): the pool of tunnels and the HTTP handlers over it.  \<open>Server_Files\<close>: the routes for
    files and the log, and what a request without the password can do.
  \<^item> \<open>Smux_Client\<close> (\<open>connections/prosmux/smux.go\<close>, \<open>connections/proquic/quic_client.go\<close>): the two kinds of
    session a client keeps, behind one interface.
  \<^item> \<open>Client_Core\<close>, \<open>Client_Repair\<close>, \<open>Client_Relay\<close>, \<open>Client_Routing\<close>, \<open>Client_Locks\<close>
    (\<open>clientcontroll/controll.go\<close> and its neighbours): the client's queue of profiles and its
    sessions; error accounting, replacement, scans and the loop that accepts; the path of a
    connection; where it is sent; the queue and the lock used by many goroutines at once.
  \<^item> \<open>Client_Front\<close> (\<open>Socks5Listen\<close>, \<open>DNSListen\<close>, \<open>RunLocal\<close> of \<open>controll.go\<close>): the start, the accepting loop
    as steps beside its goroutines with the two halves of each update of the count of connections, a
    connection from its handshake to its closing, and the same
    connection followed through the server's \<open>HandleConnAsync\<close> to the destination.
  \<^item> \<open>Stream_Copy\<close> (\<open>controll.go\<close>, \<open>base.go\<close>): the copying helpers over readers and writers of any behaviour.
  \<^item> \<open>Mux_Server\<close> (\<open>proxytunnel.go\<close>, \<open>smux.go\<close>, \<open>quic_server.go\<close>, \<open>tlsserver.go\<close>, \<open>prokcp\<close>): the choice of a way to
    serve, sessions and their streams as steps, counters and books, listeners and their keys.
  \<^item> \<open>Dns_Remote\<close> (\<open>dns_cl.go\<close>, \<open>dns_local.go\<close>): names asked for over the API, against \<open>Server_Api\<close>, which
    refuses the request for it carries no credentials.
  \<^item> \<open>Client_Server\<close>: the client's requests answered by the handlers of \<open>Server_Api\<close>; what \<open>HTTPSPost\<close> sends
    (\<open>posted\<close>) has no header with the password.
  \<^item> \<open>Debug_Log\<close> (\<open>connections/debuglog/debuglog.go\<close>): the log file, its gate and its sampler.
  \<^item> \<open>Os_Shell\<close> (\<open>clientcontroll/cmd.go\<close>): operations that may panic on a state, shell commands, and the
    process the control page starts for a route.
  \<^item> \<open>Router_Mode\<close>, \<open>Iptables\<close> (\<open>router/\<close>): the firewall script and the tests of its state, and the rules
    of a table with the commands made from them.
  \<^item> \<open>Route_Book\<close> (\<open>deploy/git.go\<close>, \<open>deploy/dev_server.go\<close>): the encrypted list of a user's servers, its
    publication and login, and the choice of a route.
  \<^item> \<open>Local_Api\<close> (\<open>deploy/httpcontroll.go\<close>, \<open>deploy/g.go\<close>): the control page over the client, the router and the
    books, with its goroutines and timers.
  \<^item> \<open>Server_Probe\<close> (\<open>servercontroll/test.go\<close>): the speed test of a route, alone and against \<open>Server_Api\<close>.
  \<^item> \<open>Utf8\<close>, \<open>Edit_Box\<close> (\<open>deploy/ui.go\<close>): the line editor of the prompts over UTF-8 text, its window and
    what it draws.
  \<^item> \<open>Book_Menu\<close> (\<open>Manager\<close> of \<open>deploy/git.go\<close>): the menu over the books as a state machine.
  \<^item> \<open>Vps_Provider\<close> (\<open>deploy/web_vman.go\<close>, \<open>deploy/vul.go\<close>, \<open>deploy/dev_server.go\<close>): requests to the hosting
    provider, and how new instances are spread over regions.
  \<^item> \<open>Vps_Console\<close> (\<open>deploy/vul.go\<close>, \<open>deploy/dev_server.go\<close>): the menus that create and delete instances as
    state machines over the answers of the user, and the tools that work on servers over SSH.
  \<^item> \<open>Smux_Frame\<close>, \<open>Smux_Alloc\<close>, \<open>Go_Heap\<close>, \<open>Smux_Shaper\<close>, \<open>Smux_Session\<close>, \<open>Smux_Delivery\<close>,
  \<open>Smux_Writers\<close> (\<open>third_party/smux\<close>):
    the fork of the multiplexer that is kept in the tree, in version 1 of its protocol.  Frames on
    the wire; the allocator of buffers; the heap of the standard library, behind a locale that is
    interpreted on the order of requests; the queue of writes, which goes round the streams;
    sessions and streams with the tokens that bound their memory; the way of the bytes from
    a writer through queue, wire and receiving loop to a reader; and the two loops that write
    beside any number of writers, with the wake-ups between them.
  \<^item> \<open>Start_Up\<close> (\<open>main.go\<close>, \<open>HTTP3Server\<close> of \<open>servercontroll/server.go\<close>): flags, daemon, guard and the start of the
    API.  \<open>Self_Update\<close> (\<open>update/update.go\<close>): the server replacing itself.
  \<^item> \<open>Geo_Lookup\<close> (\<open>geo/geo.go\<close>): countries of addresses and their cache.

  \<^bold>\<open>How they interact.\<close>  \<open>GetSession\<close> of the client asks the API (\<open>/proxy-get\<close>) for a profile, the pool
  selects or makes a tunnel, the client connects to it and opens streams (as the code stands the API
  refuses the client, C5; the rest is proved for whatever the API answers); on the server the
  tunnel's \<open>HandleConnAsync\<close> takes a slot of the budget, parses the request, resolves, dials and
  relays.  Interfaces are locales: \<open>session_contract\<close> (interpreted on both kinds of session),
  \<open>heap_order\<close> (interpreted on the requests of a session), \<open>returning\<close> (interpreted on every operation a repair loop repeats), \<open>set_model\<close>, and those of
  the server's books and codecs, each interpreted on the model's own operations.

  \<^bold>\<open>Conventions.\<close>  Counters of 64 or 32 bits that cannot overflow in practice are \<open>int\<close>; bytes, lengths
  and ports that are cut to their width are words or taken modulo.  Floating-point scores are
  exact rationals.  A Go map is an association list in the order an iteration visits it; since
  the order is arbitrary the theorems hold for every order.  A slice of pointers is a list of
  addresses into a memory.  What concurrent goroutines share is modelled as an inductive step
  relation where a property depends on the interleaving; elsewhere an operation runs alone, and a
  goroutine it starts (\<open>cl_spawned\<close> of the client) is an operation of its own that runs after it: the scan of the
  sessions that \<open>GetSession\<close> starts is one of the steps of C12, and \<open>scan_overlap_starves\<close> shows what it
  can do to a request it overlaps.
  Relaying takes the schedule of its two goroutines as an argument.  A loop that may not end is
  a partial function into \<open>option\<close> (\<open>evict_loop\<close>, \<open>report_loop\<close>, \<open>switch_loop\<close>, \<open>bind_port\<close>, \<open>Reply_wait\<close>), None being a loop that does
  not end; a client operation that waits for a profile nobody sends is None as well.  The only
  fuel is in the source itself: two attempts of a request, two of building a slot.  The control
  page and what it calls are written over the operations \<open>io\<close> of \<open>Os_Shell\<close>: a result or a panic, and the
  state that is left either way.

  \<^bold>\<open>What comes from outside\<close> is an argument: the modules \<open>gs\<close> and \<open>gn\<close> (hypotheses named
  \<open>gs_..._ok\<close> say what is relied on), quic-go, kcp-go, the ciphers and hashes, TLS, JSON
  decoding, \<open>net/url\<close>, DNS and dialling, clocks, random numbers, commands of the operating system.
  In \<open>Client_Core\<close> the n-th question to the outside gets the n-th answer of the environment.

  \<^bold>\<open>What the lemmas show.\<close>  Each theory proves its invariant and that every operation keeps it
  (\<open>pool_ok\<close>, \<open>balanced\<close>, \<open>queue_inv\<close>, \<open>pipe_inv\<close>, \<open>writer_inv\<close> and others), the result of its operations on
  every branch, and the properties numbered C1 to C40 below its definitions.  Several of these
  state defects: they prove that the code as written deadlocks, loses or truncates something.

  \<^bold>\<open>Not modelled.\<close>  Version 2 of the protocol of \<open>third_party/smux\<close>, which the program never
  chooses, and its timers; \<open>Smux_Client\<close> sees the multiplexer from outside, by what its calls
  answer.  The raw terminal of \<open>CliOneHost\<close> (\<open>dev_server.go\<close>) is input and output; \<open>asset\<close> is generated.  Wrappers that
  forward every method to a library object (\<open>quic_base.go\<close>, \<open>com.go\<close>,
  \<open>tlsclient.go\<close>) have no logic of their own.  Log output, the texts of pages, deadlines that only
  end in an error of a read, and the display of the client's state are left out of the
  definitions that contain them.
\<close>

end
